(* ===== verification/Prelude.thy ===== *)
theory Prelude
  imports Main "HOL-Library.Word" "HOL-Library.Char_ord" "HOL-Library.List_Lexorder"
begin

text \<open>
  Shared vocabulary of the development: the JavaScript values the TypeScript sources compute with
  (UTF-16 strings, numbers that may be \<open>NaN\<close>, ISO timestamps), results that carry a thrown error
  as a value, and the list lemmas several components use.

  \<^item> A string whose characters matter is a \<open>js_string\<close>, the list of its UTF-16 code units; an
    identifier that is only stored and compared is a \<open>string\<close> (its UTF-8 bytes, which is also what
    SQLite's \<open>ORDER BY\<close> compares).
  \<^item> A \<open>throw\<close> is \<open>Inl\<close>, a normal return is \<open>Inr\<close>; \<open>err_bind\<close> is what happens after a statement
    that may throw.
  \<^item> \<open>Date.parse\<close> returns a number or \<open>NaN\<close>: an \<open>int option\<close>, \<open>None\<close> for \<open>NaN\<close>; every comparison
    with \<open>NaN\<close> is false.
\<close>

section \<open>Collections of facts\<close>

named_theorems bound_simps \<open>numeric constants of the sources, as rewrite rules\<close>
named_theorems invariant_intros \<open>preservation lemmas of component invariants\<close>

section \<open>Identifiers and results\<close>

type_synonym Id = string

definition err_bind :: "'e + 'a \<Rightarrow> ('a \<Rightarrow> 'e + 'b) \<Rightarrow> 'e + 'b" where
  "err_bind m f = (case m of Inl e \<Rightarrow> Inl e | Inr x \<Rightarrow> f x)"

lemma err_bind_simps [simp]:
  "err_bind (Inl e) f = Inl e"
  "err_bind (Inr x) f = f x"
  by (simp_all add: err_bind_def)

lemma err_bind_Inr_iff: "err_bind m f = Inr y \<longleftrightarrow> (\<exists>x. m = Inr x \<and> f x = Inr y)"
  by (cases m) auto

text \<open>\<open>guard_err e c\<close> is the early \<open>throw\<close>: \<open>if (!c) throw e;\<close>.\<close>

definition guard_err :: "'e \<Rightarrow> bool \<Rightarrow> 'e + unit" where
  "guard_err e c = (if c then Inr () else Inl e)"

lemma guard_err_simps [simp]:
  "guard_err e True = Inr ()"
  "guard_err e False = Inl e"
  by (simp_all add: guard_err_def)

lemma guard_err_Inr_iff [simp]: "guard_err e c = Inr u \<longleftrightarrow> c"
  by (simp add: guard_err_def)

text \<open>A \<open>map\<close> whose function may throw: the first failure is the result.\<close>

fun traverse :: "('a \<Rightarrow> 'e + 'b) \<Rightarrow> 'a list \<Rightarrow> 'e + 'b list" where
  "traverse f [] = Inr []"
| "traverse f (x # xs) = err_bind (f x) (\<lambda>y. err_bind (traverse f xs) (\<lambda>ys. Inr (y # ys)))"

lemma traverse_Inr: "traverse f xs = Inr ys \<longleftrightarrow> list_all2 (\<lambda>x y. f x = Inr y) xs ys"
  by (induction xs arbitrary: ys) (auto simp: err_bind_Inr_iff list_all2_Cons1)

lemma traverse_id: "(\<And>x. x \<in> set xs \<Longrightarrow> f x = Inr x) \<Longrightarrow> traverse f xs = Inr xs"
  by (induction xs) auto

section \<open>UTF-16 strings\<close>

type_synonym js_string = "16 word list"

definition js :: "string \<Rightarrow> js_string" where
  "js s = map (\<lambda>c. word_of_nat (of_char c)) s"

definition is_high_surrogate :: "16 word \<Rightarrow> bool" where
  "is_high_surrogate u \<longleftrightarrow> 0xD800 \<le> u \<and> u \<le> 0xDBFF"

definition is_low_surrogate :: "16 word \<Rightarrow> bool" where
  "is_low_surrogate u \<longleftrightarrow> 0xDC00 \<le> u \<and> u \<le> 0xDFFF"

text \<open>\<open>Array.from(s)\<close>: a surrogate pair is one element, a lone surrogate is one element.\<close>

fun code_points :: "js_string \<Rightarrow> nat list" where
  "code_points [] = []"
| "code_points [u] = [unat u]"
| "code_points (u # v # us) =
     (if is_high_surrogate u \<and> is_low_surrogate v
      then (0x10000 + (unat u - 0xD800) * 0x400 + (unat v - 0xDC00)) # code_points us
      else unat u # code_points (v # us))"

lemma length_code_points_le: "length (code_points s) \<le> length s"
  by (induction s rule: code_points.induct) auto

lemma length_le_2_code_points: "length s \<le> 2 * length (code_points s)"
  by (induction s rule: code_points.induct) auto

lemma code_points_Nil_iff [simp]: "code_points s = [] \<longleftrightarrow> s = []"
  by (cases s rule: code_points.cases) auto

text \<open>The white space and line terminators \<open>String.prototype.trim\<close> strips.\<close>

definition js_whitespace :: "16 word \<Rightarrow> bool" where
  "js_whitespace u \<longleftrightarrow>
     u \<in> {0x9, 0xA, 0xB, 0xC, 0xD, 0x20, 0xA0, 0x1680, 0x2028, 0x2029, 0x202F, 0x205F, 0x3000, 0xFEFF}
     \<or> (0x2000 \<le> u \<and> u \<le> 0x200A)"

definition js_trim :: "js_string \<Rightarrow> js_string" where
  "js_trim s = rev (dropWhile js_whitespace (rev (dropWhile js_whitespace s)))"

lemma js_trim_Nil_iff: "js_trim s = [] \<longleftrightarrow> list_all js_whitespace s"
proof (cases "dropWhile js_whitespace s = []")
  case True
  then show ?thesis
    by (auto simp: js_trim_def dropWhile_eq_Nil_conv list_all_iff dest: set_dropWhileD)
next
  case False
  let ?t = "dropWhile js_whitespace s"
  have non: "\<not> js_whitespace (hd ?t)" and mem: "hd ?t \<in> set ?t"
    using False by (simp_all add: hd_dropWhile)
  have "dropWhile js_whitespace (rev ?t) \<noteq> []"
  proof
    assume "dropWhile js_whitespace (rev ?t) = []"
    then have "\<forall>x\<in>set ?t. js_whitespace x" by (simp add: dropWhile_eq_Nil_conv)
    with non mem show False by blast
  qed
  moreover have "\<not> list_all js_whitespace s"
    using False unfolding dropWhile_eq_Nil_conv list_all_iff .
  ultimately show ?thesis by (simp add: js_trim_def)
qed

lemma length_js_trim_le: "length (js_trim s) \<le> length s"
  by (simp add: js_trim_def) (metis length_dropWhile_le length_rev order_trans)

lemma js_trim_parts: "\<exists>pre post. us = pre @ js_trim us @ post"
proof -
  have 1: "us = takeWhile js_whitespace us @ dropWhile js_whitespace us" by simp
  let ?m = "dropWhile js_whitespace us"
  have "?m = rev (dropWhile js_whitespace (rev ?m)) @ rev (takeWhile js_whitespace (rev ?m))"
    by (metis rev_append rev_rev_ident takeWhile_dropWhile_id)
  with 1 show ?thesis unfolding js_trim_def by metis
qed

lemma js_trim_set: "set (js_trim us) \<subseteq> set us"
proof -
  obtain pre post where "us = pre @ js_trim us @ post" using js_trim_parts by blast
  then show ?thesis by (metis Un_iff set_append subsetI)
qed

lemma js_trim_ends:
  assumes "js_trim us \<noteq> []"
  shows "\<not> js_whitespace (hd (js_trim us)) \<and> \<not> js_whitespace (last (js_trim us))"
proof -
  let ?m = "dropWhile js_whitespace us"
  let ?r = "dropWhile js_whitespace (rev ?m)"
  have r: "?r \<noteq> []" using assms by (simp add: js_trim_def)
  then have "last (js_trim us) = hd ?r" by (simp add: js_trim_def last_rev)
  then have l: "\<not> js_whitespace (last (js_trim us))" using hd_dropWhile [OF r] by simp
  have m: "?m \<noteq> []" using r by (metis dropWhile.simps(1) rev.simps(1))
  have "rev ?m = takeWhile js_whitespace (rev ?m) @ ?r" by simp
  then have "last (rev ?m) = last ?r" using r by (metis last_appendR)
  then have "hd (js_trim us) = hd ?m" using m r by (simp add: js_trim_def hd_rev last_rev)
  then show ?thesis using l hd_dropWhile [OF m] by simp
qed

lemma dropWhile_hd: "us \<noteq> [] \<Longrightarrow> \<not> P (hd us) \<Longrightarrow> dropWhile P us = us"
  by (cases us) auto

lemma js_trim_id:
  "us \<noteq> [] \<Longrightarrow> \<not> js_whitespace (hd us) \<Longrightarrow> \<not> js_whitespace (last us) \<Longrightarrow> js_trim us = us"
  by (simp add: js_trim_def dropWhile_hd hd_rev)

lemma js_trim_idem [simp]: "js_trim (js_trim us) = js_trim us"
proof (cases "js_trim us = []")
  case True
  then show ?thesis by (simp only: True) (simp add: js_trim_def)
next
  case False
  then show ?thesis using js_trim_ends [OF False] by (intro js_trim_id) auto
qed

text \<open>\<open>/^[A-Za-z0-9][A-Za-z0-9<extra>]{0,127}$/\<close> on character codes.\<close>

definition ascii_alnum :: "nat \<Rightarrow> bool" where
  "ascii_alnum c \<longleftrightarrow> (48 \<le> c \<and> c \<le> 57) \<or> (65 \<le> c \<and> c \<le> 90) \<or> (97 \<le> c \<and> c \<le> 122)"

definition ident_text :: "nat list \<Rightarrow> nat list \<Rightarrow> bool" where
  "ident_text extra us \<longleftrightarrow> us \<noteq> [] \<and> length us \<le> 128 \<and> ascii_alnum (hd us) \<and>
     list_all (\<lambda>c. ascii_alnum c \<or> c \<in> set extra) (tl us)"

section \<open>Numbers that may be NaN, and timestamps\<close>

definition nan_le :: "int option \<Rightarrow> int option \<Rightarrow> bool" where
  "nan_le a b = (case (a, b) of (Some x, Some y) \<Rightarrow> x \<le> y | _ \<Rightarrow> False)"

definition nan_lt :: "int option \<Rightarrow> int option \<Rightarrow> bool" where
  "nan_lt a b = (case (a, b) of (Some x, Some y) \<Rightarrow> x < y | _ \<Rightarrow> False)"

lemma nan_cmp_simps [simp]:
  "nan_le (Some x) (Some y) \<longleftrightarrow> x \<le> y" "nan_lt (Some x) (Some y) \<longleftrightarrow> x < y"
  "\<not> nan_le None b" "\<not> nan_le a None" "\<not> nan_lt None b" "\<not> nan_lt a None"
  by (auto simp: nan_le_def nan_lt_def split: option.splits)

text \<open>
  An \<open>IsoTimestamp\<close> is a string. \<open>Canon ms\<close> is the text \<open>new Date(ms).toISOString()\<close>; any other
  text is \<open>Raw text p\<close> together with the value \<open>p\<close> that \<open>Date.parse\<close> gives it (\<open>None\<close>: \<open>NaN\<close>).
  Two timestamps are the same string exactly when they are the same value of this type.
\<close>

datatype iso = Canon int | Raw string "int option"

fun date_parse :: "iso \<Rightarrow> int option" where
  "date_parse (Canon ms) = Some ms"
| "date_parse (Raw t p) = p"

text \<open>The largest magnitude of a \<open>Date\<close> (ECMAScript \<open>TimeClip\<close>).\<close>

definition max_time :: int where
  "max_time = 8640000000000000"

lemma max_time_eq [bound_simps]: "max_time = 8640000000000000"
  by (simp add: max_time_def)

text \<open>\<open>new Date(ms).toISOString()\<close>; \<open>None\<close> is its \<open>RangeError\<close>.\<close>

definition to_iso :: "int option \<Rightarrow> iso option" where
  "to_iso x = (case x of None \<Rightarrow> None | Some ms \<Rightarrow> if \<bar>ms\<bar> \<le> max_time then Some (Canon ms) else None)"

lemma to_iso_SomeD: "to_iso x = Some t \<Longrightarrow> date_parse t = x"
  by (auto simp: to_iso_def split: option.splits if_splits)

lemma to_iso_in_range [simp]: "\<bar>ms\<bar> \<le> max_time \<Longrightarrow> to_iso (Some ms) = Some (Canon ms)"
  by (simp add: to_iso_def)

definition valid_instant :: "iso \<Rightarrow> bool" where
  "valid_instant t \<longleftrightarrow> (\<exists>ms. date_parse t = Some ms \<and> \<bar>ms\<bar> \<le> max_time)"

section \<open>JSON values\<close>

text \<open>What \<open>JSON.parse\<close> gives: an object is its members in insertion order, with distinct keys; a text is its UTF-8 bytes.\<close>

datatype json = JNull | JBool bool | JNum int | JStr string | JArr "json list" | JObj "(string \<times> json) list"

text \<open>Where a message belongs (\<open>domain/messaging.ts\<close>).\<close>

record conversation_context =
  ctx_platform :: string
  ctx_space_id :: "string option"
  ctx_channel_id :: string
  ctx_thread_id :: "string option"
  ctx_user_id :: string
  ctx_direct :: "bool option"

section \<open>Integer division\<close>

lemma int_div_bounds:
  fixes a :: int
  assumes "0 < k"
  shows "k * (a div k) \<le> a" "a < k * (a div k) + k"
  using assms pos_mod_bound [OF assms, of a] pos_mod_sign [OF assms, of a] mult_div_mod_eq [of k a]
  by linarith+

lemma int_mod_shift: "b = a + c * k \<Longrightarrow> b mod k = a mod (k::int)"
  by (simp only: mod_mult_self1)

lemma int_div_step:
  fixes a :: int
  assumes "0 < k"
  shows "(a + 1) div k = a div k + (if (a + 1) mod k = 0 then 1 else 0)"
proof -
  let ?q = "(a + 1) div k" and ?m = "(a + 1) mod k"
  have eq: "a = k * ?q + (?m - 1)"
    using mult_div_mod_eq [of k "a + 1"] by linarith
  have m: "0 \<le> ?m" "?m < k" using assms by simp_all
  show ?thesis
  proof (cases "?m = 0")
    case True
    have "a = k * (?q - 1) + (k - 1)" using eq True unfolding right_diff_distrib by linarith
    then have "a div k = ?q - 1" using assms by (intro int_div_pos_eq [where r = "k - 1"]) auto
    with True show ?thesis by simp
  next
    case False
    with m have "a div k = ?q" by (intro int_div_pos_eq [OF eq]) auto
    with False show ?thesis by simp
  qed
qed

section \<open>Lists\<close>

text \<open>\<open>indexOf\<close>; \<open>None\<close> is -1.\<close>

fun js_index_of :: "'a \<Rightarrow> 'a list \<Rightarrow> nat option" where
  "js_index_of x [] = None"
| "js_index_of x (y # ys) = (if y = x then Some 0 else map_option Suc (js_index_of x ys))"

lemma js_index_of_SomeD: "js_index_of x ys = Some i \<Longrightarrow> i < length ys \<and> ys ! i = x"
  by (induction ys arbitrary: i) (auto split: if_splits)

text \<open>Keep the first of every group of elements with equal keys (a \<open>Set\<close> of seen keys and a \<open>filter\<close>).\<close>

fun dedup_by :: "('a \<Rightarrow> 'k) \<Rightarrow> 'k list \<Rightarrow> 'a list \<Rightarrow> 'a list" where
  "dedup_by f seen [] = []"
| "dedup_by f seen (x # xs) =
     (if f x \<in> set seen then dedup_by f seen xs else x # dedup_by f (f x # seen) xs)"

lemma dedup_by_keys: "f ` set (dedup_by f seen xs) = f ` set xs - set seen"
  by (induction xs arbitrary: seen) auto

lemma dedup_by_subset: "set (dedup_by f seen xs) \<subseteq> set xs"
  by (induction xs arbitrary: seen) (simp, fastforce split: if_splits)

lemma dedup_by_distinct: "distinct (map f (dedup_by f seen xs))"
proof (induction xs arbitrary: seen)
  case (Cons x xs)
  have "f x \<notin> f ` set (dedup_by f (f x # seen) xs)"
    by (simp add: dedup_by_keys)
  with Cons show ?case by auto
qed simp

lemma dedup_by_id: "distinct (map f xs) \<Longrightarrow> f ` set xs \<inter> set seen = {} \<Longrightarrow> dedup_by f seen xs = xs"
  by (induction xs arbitrary: seen) auto

lemma dedup_by_append_distinct:
  "distinct (map f xs) \<Longrightarrow> set (map f xs) \<inter> set seen = {} \<Longrightarrow>
   dedup_by f seen (xs @ ys) = xs @ dedup_by f (rev (map f xs) @ seen) ys"
  by (induction xs arbitrary: seen) auto

section \<open>Sorting with a comparator\<close>

text \<open>
  \<open>Array.prototype.sort(cmp)\<close> is stable; for a consistent comparator that determines its result.
\<close>

fun js_insert :: "('a \<Rightarrow> 'a \<Rightarrow> int) \<Rightarrow> 'a \<Rightarrow> 'a list \<Rightarrow> 'a list" where
  "js_insert cmp x [] = [x]"
| "js_insert cmp x (y # ys) = (if cmp x y \<le> 0 then x # y # ys else y # js_insert cmp x ys)"

definition js_sort :: "('a \<Rightarrow> 'a \<Rightarrow> int) \<Rightarrow> 'a list \<Rightarrow> 'a list" where
  "js_sort cmp xs = foldr (js_insert cmp) xs []"

definition consistent_comparator :: "('a \<Rightarrow> 'a \<Rightarrow> int) \<Rightarrow> bool" where
  "consistent_comparator cmp \<longleftrightarrow> (\<forall>a b. 0 < cmp a b \<longleftrightarrow> cmp b a < 0) \<and>
     (\<forall>a b c. cmp a b \<le> 0 \<longrightarrow> cmp b c \<le> 0 \<longrightarrow> cmp a c \<le> 0)"

text \<open>\<open>first(a, b) || second(a, b)\<close>\<close>

definition then_compare :: "('a \<Rightarrow> 'a \<Rightarrow> int) \<Rightarrow> ('a \<Rightarrow> 'a \<Rightarrow> int) \<Rightarrow> 'a \<Rightarrow> 'a \<Rightarrow> int" where
  "then_compare f g a b = (if f a b \<noteq> 0 then f a b else g a b)"

lemma set_js_insert: "set (js_insert cmp x ys) = insert x (set ys)"
  by (induction ys) auto

lemma set_js_sort [simp]: "set (js_sort cmp xs) = set xs"
  by (induction xs) (simp_all add: js_sort_def set_js_insert)

lemma length_js_insert: "length (js_insert cmp x ys) = Suc (length ys)"
  by (induction ys) auto

lemma length_js_sort [simp]: "length (js_sort cmp xs) = length xs"
  by (induction xs) (simp_all add: js_sort_def length_js_insert)

lemma js_sort_Nil_iff [simp]: "js_sort cmp xs = [] \<longleftrightarrow> xs = []"
  using length_js_sort [of cmp xs] by (metis length_0_conv)

lemma distinct_js_insert: "distinct (map f (js_insert cmp x ys)) \<longleftrightarrow> f x \<notin> f ` set ys \<and> distinct (map f ys)"
  by (induction ys) (auto simp: set_js_insert)

lemma distinct_js_sort [simp]: "distinct (map f (js_sort cmp xs)) \<longleftrightarrow> distinct (map f xs)"
proof (induction xs)
  case (Cons x xs)
  have "set (foldr (js_insert cmp) xs []) = set xs" using set_js_sort [of cmp xs] by (simp add: js_sort_def)
  with Cons show ?case by (simp add: js_sort_def distinct_js_insert)
qed (simp add: js_sort_def)

lemma consistent_comparatorD:
  assumes "consistent_comparator cmp"
  shows "0 < cmp a b \<longleftrightarrow> cmp b a < 0" "cmp a b = 0 \<longleftrightarrow> cmp b a = 0" "cmp a a = 0"
    "cmp a b \<le> 0 \<Longrightarrow> cmp b c \<le> 0 \<Longrightarrow> cmp a c \<le> 0"
proof -
  have 1: "0 < cmp a b \<longleftrightarrow> cmp b a < 0" for a b using assms by (simp add: consistent_comparator_def)
  show "0 < cmp a b \<longleftrightarrow> cmp b a < 0" by (rule 1)
  show "cmp a b = 0 \<longleftrightarrow> cmp b a = 0" using 1 [of a b] 1 [of b a] by linarith
  show "cmp a a = 0" using 1 [of a a] by linarith
  show "cmp a b \<le> 0 \<Longrightarrow> cmp b c \<le> 0 \<Longrightarrow> cmp a c \<le> 0"
    using assms unfolding consistent_comparator_def by blast
qed

lemma sorted_js_insert:
  assumes "consistent_comparator cmp" "sorted_wrt (\<lambda>a b. cmp a b \<le> 0) ys"
  shows "sorted_wrt (\<lambda>a b. cmp a b \<le> 0) (js_insert cmp x ys)"
  using assms(2)
proof (induction ys)
  case (Cons y ys)
  show ?case
  proof (cases "cmp x y \<le> 0")
    case True
    then have "cmp x z \<le> 0" if "z \<in> set ys" for z
      using that Cons.prems consistent_comparatorD(4) [OF assms(1) True, of z] by auto
    with True Cons.prems show ?thesis by auto
  next
    case False
    then have "cmp y x \<le> 0" using consistent_comparatorD(1) [OF assms(1), of x y] by linarith
    with False Cons show ?thesis by (auto simp: set_js_insert)
  qed
qed simp

lemma sorted_js_sort: "consistent_comparator cmp \<Longrightarrow> sorted_wrt (\<lambda>a b. cmp a b \<le> 0) (js_sort cmp xs)"
  by (induction xs) (simp_all add: js_sort_def sorted_js_insert)

text \<open>Where only equal elements compare as equal, the result depends on the set of elements only.\<close>

lemma sorted_wrt_unique:
  assumes "consistent_comparator cmp" "distinct xs" "distinct ys" "set xs = set ys"
    "\<And>a b. a \<in> set xs \<Longrightarrow> b \<in> set xs \<Longrightarrow> cmp a b = 0 \<Longrightarrow> a = b"
    "sorted_wrt (\<lambda>a b. cmp a b \<le> 0) xs" "sorted_wrt (\<lambda>a b. cmp a b \<le> 0) ys"
  shows "xs = ys"
  using assms(2-)
proof (induction xs arbitrary: ys)
  case (Cons x xs)
  then obtain y zs where ys: "ys = y # zs" by (cases ys) auto
  have "x = y"
  proof (rule ccontr)
    assume ne: "x \<noteq> y"
    have "x \<in> set ys" "y \<in> set (x # xs)" using Cons.prems(3) ys by auto
    with ne ys have m: "x \<in> set zs" "y \<in> set xs" by auto
    with Cons.prems ys have "cmp y x \<le> 0" "cmp x y \<le> 0" by auto
    then have "cmp x y = 0" using consistent_comparatorD(1) [OF assms(1), of y x] by linarith
    with Cons.prems(4) [of x y] m ne show False by auto
  qed
  moreover have "xs = zs"
  proof (rule Cons.IH)
    show "set xs = set zs" using Cons.prems(1-3) ys \<open>x = y\<close> by (metis distinct.simps(2) insert_ident list.simps(15))
    show "a = b" if "a \<in> set xs" "b \<in> set xs" "cmp a b = 0" for a b using Cons.prems(4) that by simp
  qed (use Cons.prems ys in simp_all)
  ultimately show ?case by (simp add: ys)
qed simp

lemma js_sort_cong_set:
  assumes "consistent_comparator cmp" "distinct xs" "distinct ys" "set xs = set ys"
    "\<And>a b. a \<in> set xs \<Longrightarrow> b \<in> set xs \<Longrightarrow> cmp a b = 0 \<Longrightarrow> a = b"
  shows "js_sort cmp xs = js_sort cmp ys"
proof (rule sorted_wrt_unique [OF assms(1)])
  show "distinct (js_sort cmp xs)" "distinct (js_sort cmp ys)"
    using distinct_js_sort [of "\<lambda>x. x" cmp] assms(2,3) by simp_all
qed (use assms sorted_js_sort in auto)

lemma consistent_then:
  assumes "consistent_comparator f" "consistent_comparator g"
  shows "consistent_comparator (then_compare f g)"
  unfolding consistent_comparator_def
proof (intro conjI allI impI)
  note f = consistent_comparatorD [OF assms(1)] and g = consistent_comparatorD [OF assms(2)]
  fix a b
  show "0 < then_compare f g a b \<longleftrightarrow> then_compare f g b a < 0"
    using f(1,2) [of a b] g(1) [of a b] by (simp add: then_compare_def)
next
  note f = consistent_comparatorD [OF assms(1)] and g = consistent_comparatorD [OF assms(2)]
  fix a b c
  assume ab: "then_compare f g a b \<le> 0" and bc: "then_compare f g b c \<le> 0"
  have le: "f a b \<le> 0" "f b c \<le> 0" using ab bc by (auto simp: then_compare_def split: if_splits)
  then have ac: "f a c \<le> 0" by (rule f(4))
  show "then_compare f g a c \<le> 0"
  proof (cases "f a c = 0")
    case True
    then have "f c a \<le> 0" using f(2) [of a c] by linarith
    then have "f b a \<le> 0" "f c b \<le> 0" using f(4) [OF le(2)] f(4) [of c a b] le(1) by auto
    then have "f a b = 0" "f b c = 0" using le f(1) [of a b] f(1) [of b a] f(1) [of b c] f(1) [of c b] by linarith+
    with ab bc True show ?thesis using g(4) [of a b c] by (simp add: then_compare_def)
  qed (use ac in \<open>simp add: then_compare_def\<close>)
qed

lemma consistent_key: "consistent_comparator cmp \<Longrightarrow> consistent_comparator (\<lambda>a b. cmp (k a) (k b))"
  unfolding consistent_comparator_def by blast

lemma consistent_difference: "consistent_comparator (\<lambda>a b. f a - f b :: int)"
  by (auto simp: consistent_comparator_def)

text \<open>The default order of \<open>sort()\<close> and of an identifier column, as a comparator.\<close>

definition code_compare :: "string \<Rightarrow> string \<Rightarrow> int" where
  "code_compare s t = (if s = t then 0 else if s < t then -1 else 1)"

lemma consistent_code_compare: "consistent_comparator code_compare"
  by (auto simp: consistent_comparator_def code_compare_def split: if_splits)

lemma code_compare_0: "code_compare s t = 0 \<Longrightarrow> s = t"
  by (simp add: code_compare_def split: if_splits)

end
