(* ===== verification/Reminder.thy ===== *)
theory Reminder
  imports Prelude
begin

text \<open>
  \<open>packages/core/src/domain/reminder.ts\<close>: the reminder aggregate, its closed lifecycle and the pure
  functions that compute every transition. A thrown error is \<open>Inl\<close> of a \<open>reminder_error\<close>.
\<close>

section \<open>Data\<close>

datatype reminder_status =
  RS_SCHEDULED | RS_FIRING | RS_COMPLETED | RS_CANCELED | RS_FAILED | RS_DELIVERY_UNCERTAIN

datatype reminder_body_kind = TEXT | BRIEF

record local_time =
  tm_hour :: int
  tm_minute :: int

datatype reminder_schedule = ONCE iso | DAILY local_time | WEEKLY local_time "int list"

datatype delivery_via = Via_dm | Via_channel

datatype not_sent_reason =
  TEXT_TOO_LONG | NOT_OWNER | TARGET_NOT_ADMITTED | MISSING_ACCESS | UNKNOWN_TARGET | RATE_LIMITED
  | NOT_CONNECTED | EMPTY_TEXT

datatype uncertain_reason =
  TIMEOUT | NETWORK_ERROR | ABORTED | PLATFORM_ERROR | UNCLASSIFIED | INTERRUPTED

datatype delivery_outcome = SENT delivery_via | NOT_SENT not_sent_reason bool | UNCERTAIN uncertain_reason

datatype firing_result = Delivered delivery_outcome | SKIPPED_MISSED iso

datatype occurrence_outcome = OO_SENT | OO_FAILED | OO_DELIVERY_UNCERTAIN | OO_SKIPPED_MISSED

datatype outcome_reason = Reason_not_sent not_sent_reason | Reason_uncertain uncertain_reason

record last_outcome =
  lo_outcome :: occurrence_outcome
  lo_occurrence_at :: iso
  lo_recorded_at :: iso
  lo_via :: "delivery_via option"
  lo_reason :: "outcome_reason option"

record event_ref =
  ev_event_id :: js_string
  ev_offset_minutes :: int
  ev_calendar_name :: "js_string option"

text \<open>\<open>ReminderDraft\<close> is a \<open>Reminder\<close> before the repository numbered it.\<close>

record reminder_draft =
  rem_id :: Id
  rem_actor_id :: Id
  rem_status :: reminder_status
  rem_kind :: reminder_body_kind
  rem_body :: js_string
  rem_schedule :: reminder_schedule
  rem_time_zone :: string
  rem_origin :: conversation_context
  rem_occurrence_at :: "iso option"
  rem_next_fire_at :: "iso option"
  rem_attempt :: nat
  rem_firing_attempt_id :: "Id option"
  rem_firing_started_at :: "iso option"
  rem_last_outcome :: "last_outcome option"
  rem_event :: "event_ref option"
  rem_created_at :: iso
  rem_updated_at :: iso

record reminder = reminder_draft +
  rem_display_no :: int

record firing_completion =
  fc_status :: reminder_status
  fc_schedule :: "reminder_schedule option"
  fc_occurrence_at :: "iso option"
  fc_next_fire_at :: "iso option"
  fc_attempt :: nat
  fc_last_outcome :: "last_outcome option"
  fc_updated_at :: iso

datatype transition_goal = To reminder_status | Completion

datatype invalid_reminder_code =
  BODY_EMPTY | BODY_TOO_LONG | SCHEDULE_INVALID | FIRE_TIME_INVALID | EVENT_REF_INVALID

datatype reminder_error =
  InvalidReminderTransitionError reminder_status transition_goal "string option"
  | InvalidReminderError invalid_reminder_code
  | DateRangeError

section \<open>Limits\<close>

definition maxBodyChars :: nat where "maxBodyChars = 200"
definition maxActivePerActor :: nat where "maxActivePerActor = 50"
definition maxRetries :: nat where "maxRetries = 3"
definition retryBackoffMinutes :: "int list" where "retryBackoffMinutes = [1, 5, 15]"
definition recurringCatchUpGraceMs :: int where "recurringCatchUpGraceMs = 60 * 60000"
definition lateLabelAfterMs :: int where "lateLabelAfterMs = 2 * 60000"
definition maxDeliveriesPerTick :: nat where "maxDeliveriesPerTick = 10"
definition minEventOffsetMinutes :: int where "minEventOffsetMinutes = 1"
definition maxEventOffsetMinutes :: int where "maxEventOffsetMinutes = 120"
definition maxEventIdChars :: nat where "maxEventIdChars = 1024"
definition maxEventCalendarNameChars :: nat where "maxEventCalendarNameChars = 100"

lemma reminder_limits [bound_simps]:
  "maxBodyChars = 200" "maxActivePerActor = 50" "maxRetries = 3" "recurringCatchUpGraceMs = 3600000"
  "lateLabelAfterMs = 120000" "maxDeliveriesPerTick = 10" "minEventOffsetMinutes = 1"
  "maxEventOffsetMinutes = 120" "maxEventIdChars = 1024" "maxEventCalendarNameChars = 100"
  by (simp_all add: maxBodyChars_def maxActivePerActor_def maxRetries_def recurringCatchUpGraceMs_def
      lateLabelAfterMs_def maxDeliveriesPerTick_def minEventOffsetMinutes_def maxEventOffsetMinutes_def
      maxEventIdChars_def maxEventCalendarNameChars_def)

section \<open>The transition table\<close>

fun reminder_transitions :: "reminder_status \<Rightarrow> reminder_status list" where
  "reminder_transitions RS_SCHEDULED = [RS_FIRING, RS_CANCELED, RS_SCHEDULED]"
| "reminder_transitions RS_FIRING =
     [RS_COMPLETED, RS_SCHEDULED, RS_FAILED, RS_DELIVERY_UNCERTAIN, RS_CANCELED]"
| "reminder_transitions RS_COMPLETED = []"
| "reminder_transitions RS_CANCELED = []"
| "reminder_transitions RS_FAILED = []"
| "reminder_transitions RS_DELIVERY_UNCERTAIN = []"

definition canTransitionReminder :: "reminder_status \<Rightarrow> reminder_status \<Rightarrow> bool" where
  "canTransitionReminder from to \<longleftrightarrow> to \<in> set (reminder_transitions from)"

definition isTerminalReminderStatus :: "reminder_status \<Rightarrow> bool" where
  "isTerminalReminderStatus s \<longleftrightarrow> length (reminder_transitions s) = 0"

definition isActiveReminderStatus :: "reminder_status \<Rightarrow> bool" where
  "isActiveReminderStatus s \<longleftrightarrow> s = RS_SCHEDULED \<or> s = RS_FIRING"

fun isRecurringSchedule :: "reminder_schedule \<Rightarrow> bool" where
  "isRecurringSchedule (ONCE t) = False"
| "isRecurringSchedule (DAILY t) = True"
| "isRecurringSchedule (WEEKLY t ws) = True"

lemma reminder_status_simps [simp]:
  "\<not> isTerminalReminderStatus RS_SCHEDULED" "\<not> isTerminalReminderStatus RS_FIRING"
  "isTerminalReminderStatus RS_COMPLETED" "isTerminalReminderStatus RS_CANCELED"
  "isTerminalReminderStatus RS_FAILED" "isTerminalReminderStatus RS_DELIVERY_UNCERTAIN"
  "isActiveReminderStatus RS_SCHEDULED" "isActiveReminderStatus RS_FIRING"
  "\<not> isActiveReminderStatus RS_COMPLETED" "\<not> isActiveReminderStatus RS_CANCELED"
  "\<not> isActiveReminderStatus RS_FAILED" "\<not> isActiveReminderStatus RS_DELIVERY_UNCERTAIN"
  by (simp_all add: isTerminalReminderStatus_def isActiveReminderStatus_def)

lemma canTransitionReminder_simps [simp]:
  "canTransitionReminder s RS_FIRING \<longleftrightarrow> s = RS_SCHEDULED"
  "canTransitionReminder RS_FIRING s \<longleftrightarrow> s \<noteq> RS_FIRING"
  by (cases s; simp add: canTransitionReminder_def)+

lemma terminal_iff_not_active: "isTerminalReminderStatus s \<longleftrightarrow> \<not> isActiveReminderStatus s"
  by (cases s) (simp_all add: isTerminalReminderStatus_def isActiveReminderStatus_def)

section \<open>Validation and creation\<close>

definition reminderBodyLength :: "js_string \<Rightarrow> nat" where
  "reminderBodyLength body = length (code_points body)"

definition isValidLocalTime :: "local_time \<Rightarrow> bool" where
  "isValidLocalTime t \<longleftrightarrow> 0 \<le> tm_hour t \<and> tm_hour t \<le> 23 \<and> 0 \<le> tm_minute t \<and> tm_minute t \<le> 59"

definition isIsoInstant :: "iso \<Rightarrow> bool" where
  "isIsoInstant t \<longleftrightarrow> date_parse t \<noteq> None"

fun weekdays_ok :: "int list \<Rightarrow> int list \<Rightarrow> bool" where
  "weekdays_ok seen [] = True"
| "weekdays_ok seen (d # ds) = (if d < 0 \<or> d > 6 \<or> d \<in> set seen then False else weekdays_ok (d # seen) ds)"

fun isValidReminderSchedule :: "reminder_schedule \<Rightarrow> bool" where
  "isValidReminderSchedule (ONCE t) = isIsoInstant t"
| "isValidReminderSchedule (DAILY t) = isValidLocalTime t"
| "isValidReminderSchedule (WEEKLY t ws) =
     (if \<not> isValidLocalTime t \<or> length ws = 0 then False else weekdays_ok [] ws)"

lemma weekdays_ok_iff:
  "weekdays_ok seen ds \<longleftrightarrow> distinct ds \<and> set ds \<inter> set seen = {} \<and> (\<forall>d\<in>set ds. 0 \<le> d \<and> d \<le> 6)"
  by (induction ds arbitrary: seen) auto

definition is_control_char :: "16 word \<Rightarrow> bool" where
  "is_control_char u \<longleftrightarrow> u \<le> 0x1F \<or> (0x7F \<le> u \<and> u \<le> 0x9F)"

definition isValidReminderEventRef :: "event_ref \<Rightarrow> bool" where
  "isValidReminderEventRef e \<longleftrightarrow>
     length (ev_event_id e) > 0 \<and> length (ev_event_id e) \<le> maxEventIdChars \<and>
     \<not> list_ex is_control_char (ev_event_id e) \<and>
     ev_offset_minutes e \<ge> minEventOffsetMinutes \<and> ev_offset_minutes e \<le> maxEventOffsetMinutes \<and>
     (case ev_calendar_name e of None \<Rightarrow> True
      | Some n \<Rightarrow> length n \<le> maxEventCalendarNameChars \<and> \<not> list_ex is_control_char n)"

record new_reminder_input =
  nri_id :: Id
  nri_actor_id :: Id
  nri_kind :: reminder_body_kind
  nri_body :: js_string
  nri_schedule :: reminder_schedule
  nri_time_zone :: string
  nri_origin :: conversation_context
  nri_first_fire_at :: iso
  nri_created_at :: iso
  nri_event :: "event_ref option"

fun is_once :: "reminder_schedule \<Rightarrow> bool" where
  "is_once (ONCE t) = True"
| "is_once _ = False"

definition createReminderDraft :: "new_reminder_input \<Rightarrow> reminder_error + reminder_draft" where
  "createReminderDraft i =
     (let len = reminderBodyLength (nri_body i) in
      if len = 0 \<or> length (js_trim (nri_body i)) = 0 then Inl (InvalidReminderError BODY_EMPTY)
      else if len > maxBodyChars then Inl (InvalidReminderError BODY_TOO_LONG)
      else if \<not> isValidReminderSchedule (nri_schedule i) then Inl (InvalidReminderError SCHEDULE_INVALID)
      else if \<not> isIsoInstant (nri_first_fire_at i) then Inl (InvalidReminderError FIRE_TIME_INVALID)
      else if (case nri_event i of None \<Rightarrow> False
               | Some e \<Rightarrow> \<not> isValidReminderEventRef e \<or> \<not> is_once (nri_schedule i) \<or> nri_kind i \<noteq> TEXT)
      then Inl (InvalidReminderError EVENT_REF_INVALID)
      else Inr \<lparr>rem_id = nri_id i, rem_actor_id = nri_actor_id i, rem_status = RS_SCHEDULED,
                rem_kind = nri_kind i, rem_body = nri_body i, rem_schedule = nri_schedule i,
                rem_time_zone = nri_time_zone i, rem_origin = nri_origin i,
                rem_occurrence_at = Some (nri_first_fire_at i), rem_next_fire_at = Some (nri_first_fire_at i),
                rem_attempt = 0, rem_firing_attempt_id = None, rem_firing_started_at = None,
                rem_last_outcome = None, rem_event = nri_event i,
                rem_created_at = nri_created_at i, rem_updated_at = nri_created_at i\<rparr>)"

section \<open>Transitions\<close>

definition assertTransition ::
  "reminder_status \<Rightarrow> reminder_status \<Rightarrow> string option \<Rightarrow> reminder_error + unit" where
  "assertTransition from to detail =
     guard_err (InvalidReminderTransitionError from (To to) detail) (canTransitionReminder from to)"

definition claimReminder :: "reminder \<Rightarrow> Id \<Rightarrow> iso \<Rightarrow> reminder_error + reminder" where
  "claimReminder r attemptId at =
     err_bind (assertTransition (rem_status r) RS_FIRING None) (\<lambda>_.
       Inr (r\<lparr>rem_status := RS_FIRING, rem_firing_attempt_id := Some attemptId,
              rem_firing_started_at := Some at, rem_updated_at := at\<rparr>))"

definition cancelReminder :: "reminder \<Rightarrow> iso \<Rightarrow> reminder_error + reminder" where
  "cancelReminder r at =
     (if rem_status r \<noteq> RS_SCHEDULED
      then Inl (InvalidReminderTransitionError (rem_status r) (To RS_CANCELED) None)
      else Inr (r\<lparr>rem_occurrence_at := None, rem_next_fire_at := None, rem_firing_attempt_id := None,
                  rem_firing_started_at := None, rem_status := RS_CANCELED, rem_updated_at := at\<rparr>))"

fun schedule_type :: "reminder_schedule \<Rightarrow> nat" where
  "schedule_type (ONCE t) = 0"
| "schedule_type (DAILY t) = 1"
| "schedule_type (WEEKLY t ws) = 2"

definition reactivateReminder ::
  "reminder \<Rightarrow> iso \<Rightarrow> iso \<Rightarrow> reminder_schedule option \<Rightarrow> reminder_error + reminder" where
  "reactivateReminder r at nextFireAt schedule =
     (if rem_status r \<noteq> RS_CANCELED
      then Inl (InvalidReminderTransitionError (rem_status r) (To RS_SCHEDULED) (Some ''reactivate''))
      else if \<not> isIsoInstant nextFireAt \<or> nan_le (date_parse nextFireAt) (date_parse at)
      then Inl (InvalidReminderError FIRE_TIME_INVALID)
      else let nextSchedule = (case schedule of None \<Rightarrow> rem_schedule r | Some s \<Rightarrow> s) in
      if \<not> isValidReminderSchedule nextSchedule
         \<or> (case schedule of None \<Rightarrow> False | Some s \<Rightarrow> schedule_type (rem_schedule r) \<noteq> schedule_type s)
      then Inl (InvalidReminderError SCHEDULE_INVALID)
      else Inr (r\<lparr>rem_firing_attempt_id := None, rem_firing_started_at := None,
                  rem_status := RS_SCHEDULED, rem_schedule := nextSchedule,
                  rem_occurrence_at := Some nextFireAt, rem_next_fire_at := Some nextFireAt,
                  rem_attempt := 0, rem_updated_at := at\<rparr>))"

definition skipMissedOccurrence :: "reminder \<Rightarrow> iso \<Rightarrow> iso \<Rightarrow> iso \<Rightarrow> reminder_error + reminder" where
  "skipMissedOccurrence r skippedOccurrenceAt nextOccurrenceAt at =
     (if rem_status r \<noteq> RS_SCHEDULED \<or> \<not> isRecurringSchedule (rem_schedule r)
      then Inl (InvalidReminderTransitionError (rem_status r) (To RS_SCHEDULED)
                  (Some ''skip requires a recurring SCHEDULED reminder''))
      else Inr (r\<lparr>rem_occurrence_at := Some nextOccurrenceAt, rem_next_fire_at := Some nextOccurrenceAt,
                  rem_attempt := 0,
                  rem_last_outcome := Some \<lparr>lo_outcome = OO_SKIPPED_MISSED,
                    lo_occurrence_at = skippedOccurrenceAt, lo_recorded_at = at, lo_via = None, lo_reason = None\<rparr>,
                  rem_updated_at := at\<rparr>))"

record completion_context =
  cc_at :: iso
  cc_next_occurrence_at :: "iso option"
  cc_delivered_occurrence_at :: "iso option"

definition addMinutes :: "iso \<Rightarrow> int \<Rightarrow> reminder_error + iso" where
  "addMinutes t minutes =
     (case to_iso (map_option (\<lambda>ms. ms + minutes * 60000) (date_parse t)) of
        None \<Rightarrow> Inl DateRangeError | Some u \<Rightarrow> Inr u)"

fun once_final_status :: "occurrence_outcome \<Rightarrow> reminder_status" where
  "once_final_status OO_SENT = RS_COMPLETED"
| "once_final_status OO_FAILED = RS_FAILED"
| "once_final_status OO_DELIVERY_UNCERTAIN = RS_DELIVERY_UNCERTAIN"
| "once_final_status OO_SKIPPED_MISSED = RS_FAILED"

definition mk_outcome ::
  "occurrence_outcome \<Rightarrow> iso \<Rightarrow> iso \<Rightarrow> delivery_via option \<Rightarrow> outcome_reason option \<Rightarrow> last_outcome" where
  "mk_outcome out occ rec via reason =
     \<lparr>lo_outcome = out, lo_occurrence_at = occ, lo_recorded_at = rec, lo_via = via, lo_reason = reason\<rparr>"

fun finalOccurrenceOutcome :: "firing_result \<Rightarrow> iso \<Rightarrow> iso \<Rightarrow> last_outcome" where
  "finalOccurrenceOutcome (Delivered (SENT via)) occ at = mk_outcome OO_SENT occ at (Some via) None"
| "finalOccurrenceOutcome (Delivered (NOT_SENT reason retryable)) occ at =
     mk_outcome OO_FAILED occ at None (Some (Reason_not_sent reason))"
| "finalOccurrenceOutcome (Delivered (UNCERTAIN reason)) occ at =
     mk_outcome OO_DELIVERY_UNCERTAIN occ at None (Some (Reason_uncertain reason))"
| "finalOccurrenceOutcome (SKIPPED_MISSED skipped) occ at = mk_outcome OO_SKIPPED_MISSED skipped at None None"

fun is_retryable :: "firing_result \<Rightarrow> bool" where
  "is_retryable (Delivered (NOT_SENT reason retryable)) = retryable"
| "is_retryable _ = False"

fun is_skipped :: "firing_result \<Rightarrow> bool" where
  "is_skipped (SKIPPED_MISSED t) = True"
| "is_skipped _ = False"

text \<open>\<open>a ?? b\<close>: the first value that is not absent.\<close>

definition opt_or :: "'a option \<Rightarrow> 'a option \<Rightarrow> 'a option" where
  "opt_or a b = (case a of None \<Rightarrow> b | Some x \<Rightarrow> Some x)"

definition claimed_occurrence :: "reminder \<Rightarrow> iso \<Rightarrow> iso" where
  "claimed_occurrence r at =
     (case opt_or (rem_occurrence_at r) (opt_or (rem_next_fire_at r) (rem_firing_started_at r)) of
        None \<Rightarrow> at | Some t \<Rightarrow> t)"

text \<open>Lines 523--534: the occurrence this attempt stands for, refused unless recurring and not earlier.\<close>

definition delivered_occurrence ::
  "reminder \<Rightarrow> completion_context \<Rightarrow> reminder_error + iso" where
  "delivered_occurrence r c =
     (case cc_delivered_occurrence_at c of
        None \<Rightarrow> Inr (claimed_occurrence r (cc_at c))
      | Some delivered \<Rightarrow>
          if \<not> isRecurringSchedule (rem_schedule r) \<or> \<not> isIsoInstant delivered
             \<or> nan_lt (date_parse delivered) (date_parse (claimed_occurrence r (cc_at c)))
          then Inl (InvalidReminderTransitionError (rem_status r) Completion
                 (Some ''a delivered occurrence is a recurring occurrence at or after the claimed one''))
          else (case to_iso (date_parse delivered) of None \<Rightarrow> Inl DateRangeError | Some t \<Rightarrow> Inr t))"

definition retry_backoff :: "nat \<Rightarrow> int" where
  "retry_backoff attempt = (if attempt < 3 then retryBackoffMinutes ! attempt else retryBackoffMinutes ! 2)"

definition planFiringCompletion ::
  "reminder \<Rightarrow> firing_result \<Rightarrow> completion_context \<Rightarrow> reminder_error + firing_completion" where
  "planFiringCompletion r result c =
     (if rem_status r \<noteq> RS_FIRING
      then Inl (InvalidReminderTransitionError (rem_status r) Completion (Some ''reminder is not FIRING''))
      else err_bind (delivered_occurrence r c) (\<lambda>occurrenceAt.
        let recurring = isRecurringSchedule (rem_schedule r) in
        if is_retryable result \<and> rem_attempt r < maxRetries
        then err_bind (addMinutes (cc_at c) (retry_backoff (rem_attempt r))) (\<lambda>fireAt.
               Inr \<lparr>fc_status = RS_SCHEDULED, fc_schedule = None, fc_occurrence_at = Some occurrenceAt,
                    fc_next_fire_at = Some fireAt, fc_attempt = rem_attempt r + 1,
                    fc_last_outcome = None, fc_updated_at = cc_at c\<rparr>)
        else if is_skipped result \<and> \<not> recurring
        then Inl (InvalidReminderTransitionError (rem_status r) (To RS_SCHEDULED)
                    (Some ''a ONCE reminder is never skipped''))
        else let outcome = finalOccurrenceOutcome result occurrenceAt (cc_at c) in
        if \<not> recurring
        then Inr \<lparr>fc_status = once_final_status (lo_outcome outcome), fc_schedule = None,
                  fc_occurrence_at = None, fc_next_fire_at = None, fc_attempt = rem_attempt r,
                  fc_last_outcome = Some outcome, fc_updated_at = cc_at c\<rparr>
        else (case cc_next_occurrence_at c of
                None \<Rightarrow> Inl (InvalidReminderTransitionError (rem_status r) (To RS_SCHEDULED)
                              (Some ''recurring completion needs a later next occurrence''))
              | Some next \<Rightarrow>
                  if \<not> isIsoInstant next \<or> nan_le (date_parse next) (date_parse occurrenceAt)
                  then Inl (InvalidReminderTransitionError (rem_status r) (To RS_SCHEDULED)
                              (Some ''recurring completion needs a later next occurrence''))
                  else Inr \<lparr>fc_status = RS_SCHEDULED, fc_schedule = None, fc_occurrence_at = Some next,
                            fc_next_fire_at = Some next, fc_attempt = 0,
                            fc_last_outcome = Some outcome, fc_updated_at = cc_at c\<rparr>)))"

definition applyFiringCompletion ::
  "reminder \<Rightarrow> Id \<Rightarrow> firing_completion \<Rightarrow> reminder_error + reminder" where
  "applyFiringCompletion r attemptId cpl =
     err_bind (assertTransition (rem_status r) (fc_status cpl) None) (\<lambda>_.
       if rem_status r \<noteq> RS_FIRING \<or> rem_firing_attempt_id r \<noteq> Some attemptId
       then Inl (InvalidReminderTransitionError (rem_status r) (To (fc_status cpl))
                   (Some ''stale firing attempt''))
       else if fc_status cpl = RS_COMPLETED \<and> isRecurringSchedule (rem_schedule r)
       then Inl (InvalidReminderTransitionError (rem_status r) (To (fc_status cpl))
                   (Some ''a recurring reminder never completes by delivery''))
       else Inr (r\<lparr>rem_schedule := (case fc_schedule cpl of
                       Some s \<Rightarrow> if fc_status cpl = RS_SCHEDULED then s else rem_schedule r
                     | None \<Rightarrow> rem_schedule r),
                   rem_status := fc_status cpl, rem_attempt := fc_attempt cpl,
                   rem_updated_at := fc_updated_at cpl,
                   rem_occurrence_at := (if fc_status cpl = RS_SCHEDULED then fc_occurrence_at cpl else None),
                   rem_next_fire_at := (if fc_status cpl = RS_SCHEDULED then fc_next_fire_at cpl else None),
                   rem_firing_attempt_id := None, rem_firing_started_at := None,
                   rem_last_outcome := opt_or (fc_last_outcome cpl) (rem_last_outcome r)\<rparr>))"

definition assertEventFiring :: "reminder \<Rightarrow> transition_goal \<Rightarrow> reminder_error + unit" where
  "assertEventFiring r goal =
     guard_err (InvalidReminderTransitionError (rem_status r) goal
                  (Some ''an event-relative ONCE reminder must be FIRING''))
       (rem_status r = RS_FIRING \<and> rem_event r \<noteq> None \<and> is_once (rem_schedule r))"

definition planEventRescheduleCompletion ::
  "reminder \<Rightarrow> iso \<Rightarrow> iso \<Rightarrow> reminder_error + firing_completion" where
  "planEventRescheduleCompletion r at newAt =
     err_bind (assertEventFiring r (To RS_SCHEDULED)) (\<lambda>_.
       let next = date_parse newAt; claimed = opt_or (rem_occurrence_at r) (rem_next_fire_at r) in
       if next = None \<or> nan_le next (date_parse at)
          \<or> (case claimed of None \<Rightarrow> False | Some t \<Rightarrow> nan_le next (date_parse t))
       then Inl (InvalidReminderTransitionError (rem_status r) (To RS_SCHEDULED)
                   (Some ''a reschedule moves the reminder forward''))
       else (case to_iso next of None \<Rightarrow> Inl DateRangeError
             | Some t \<Rightarrow> Inr \<lparr>fc_status = RS_SCHEDULED, fc_schedule = Some (ONCE t),
                  fc_occurrence_at = Some t, fc_next_fire_at = Some t, fc_attempt = 0,
                  fc_last_outcome = None, fc_updated_at = at\<rparr>))"

definition planEventCanceledCompletion ::
  "reminder \<Rightarrow> delivery_outcome \<Rightarrow> iso \<Rightarrow> reminder_error + firing_completion" where
  "planEventCanceledCompletion r outcome at =
     err_bind (assertEventFiring r (To RS_CANCELED)) (\<lambda>_.
       err_bind (planFiringCompletion r (Delivered outcome)
                   \<lparr>cc_at = at, cc_next_occurrence_at = None, cc_delivered_occurrence_at = None\<rparr>) (\<lambda>planned.
         if fc_status planned = RS_SCHEDULED then Inr planned
         else Inr (planned\<lparr>fc_status := RS_CANCELED\<rparr>)))"


section \<open>Lemmas\<close>

text \<open>The fields of a stored reminder agree with its status.\<close>

definition wf_reminder :: "reminder \<Rightarrow> bool" where
  "wf_reminder r \<longleftrightarrow>
     (rem_status r = RS_SCHEDULED \<longrightarrow>
        rem_occurrence_at r \<noteq> None \<and> rem_next_fire_at r \<noteq> None \<and> rem_firing_attempt_id r = None) \<and>
     (rem_status r = RS_FIRING \<longrightarrow>
        rem_occurrence_at r \<noteq> None \<and> rem_firing_attempt_id r \<noteq> None \<and> rem_firing_started_at r \<noteq> None) \<and>
     (isTerminalReminderStatus (rem_status r) \<longrightarrow>
        rem_occurrence_at r = None \<and> rem_next_fire_at r = None \<and> rem_firing_attempt_id r = None) \<and>
     rem_attempt r \<le> maxRetries \<and>
     (rem_event r \<noteq> None \<longrightarrow> is_once (rem_schedule r) \<and> rem_kind r = TEXT)"

definition wf_completion :: "firing_completion \<Rightarrow> bool" where
  "wf_completion c \<longleftrightarrow>
     fc_status c \<noteq> RS_FIRING \<and> fc_attempt c \<le> maxRetries \<and>
     (fc_status c = RS_SCHEDULED \<longrightarrow> fc_occurrence_at c \<noteq> None \<and> fc_next_fire_at c \<noteq> None) \<and>
     (case fc_schedule c of None \<Rightarrow> True | Some s \<Rightarrow> is_once s)"

lemma opt_or_simps [simp]:
  "opt_or None b = b" "opt_or (Some x) b = Some x"
  by (simp_all add: opt_or_def)

lemma opt_or_eq_None [simp]: "opt_or a b = None \<longleftrightarrow> a = None \<and> b = None"
  by (cases a) auto

lemma once_iff_not_recurring: "is_once s \<longleftrightarrow> \<not> isRecurringSchedule s"
  by (cases s) auto

lemma schedule_type_once: "schedule_type s = schedule_type t \<Longrightarrow> is_once s \<longleftrightarrow> is_once t"
  by (cases s; cases t) auto

lemma once_final_status_terminal:
  "isTerminalReminderStatus (once_final_status out)" "once_final_status out \<noteq> RS_SCHEDULED"
  "once_final_status out \<noteq> RS_FIRING"
  by (cases out; simp)+

lemmas wf_simps = wf_reminder_def wf_completion_def

lemma assertTransition_Inr [simp]:
  "assertTransition from to d = Inr u \<longleftrightarrow> canTransitionReminder from to"
  by (simp add: assertTransition_def)

lemma claimReminder_Inr:
  "claimReminder r a t = Inr r' \<longleftrightarrow>
     rem_status r = RS_SCHEDULED \<and>
     r' = r\<lparr>rem_status := RS_FIRING, rem_firing_attempt_id := Some a, rem_firing_started_at := Some t,
            rem_updated_at := t\<rparr>"
  by (auto simp: claimReminder_def err_bind_Inr_iff)

lemma cancelReminder_Inr:
  "cancelReminder r t = Inr r' \<longleftrightarrow>
     rem_status r = RS_SCHEDULED \<and>
     r' = r\<lparr>rem_occurrence_at := None, rem_next_fire_at := None, rem_firing_attempt_id := None,
            rem_firing_started_at := None, rem_status := RS_CANCELED, rem_updated_at := t\<rparr>"
  by (auto simp: cancelReminder_def)

lemma wf_claimReminder [invariant_intros]:
  "wf_reminder r \<Longrightarrow> claimReminder r a t = Inr r' \<Longrightarrow> wf_reminder r'"
  by (auto simp: claimReminder_Inr wf_simps)

lemma wf_cancelReminder [invariant_intros]:
  "wf_reminder r \<Longrightarrow> cancelReminder r t = Inr r' \<Longrightarrow> wf_reminder r'"
  by (auto simp: cancelReminder_Inr wf_simps)

lemma wf_reactivateReminder [invariant_intros]:
  "wf_reminder r \<Longrightarrow> reactivateReminder r t n s = Inr r' \<Longrightarrow> wf_reminder r'"
  by (auto simp: reactivateReminder_def wf_simps Let_def split: if_splits option.splits
      dest: schedule_type_once)

lemma wf_skipMissedOccurrence [invariant_intros]:
  "wf_reminder r \<Longrightarrow> skipMissedOccurrence r a b c = Inr r' \<Longrightarrow> wf_reminder r'"
  by (auto simp: skipMissedOccurrence_def wf_simps split: if_splits)

lemma applyFiringCompletion_Inr:
  "applyFiringCompletion r a c = Inr r' \<Longrightarrow>
     rem_status r = RS_FIRING \<and> rem_firing_attempt_id r = Some a \<and> rem_status r' = fc_status c \<and>
     rem_firing_attempt_id r' = None \<and> rem_attempt r' = fc_attempt c"
  by (auto simp: applyFiringCompletion_def err_bind_Inr_iff split: if_splits)

lemma wf_applyFiringCompletion [invariant_intros]:
  assumes "wf_reminder r" "wf_completion c" "applyFiringCompletion r a c = Inr r'"
  shows "wf_reminder r'"
  using assms
  by (auto simp: applyFiringCompletion_def err_bind_Inr_iff wf_simps split: if_splits option.splits)

lemma planFiringCompletion_firing:
  "planFiringCompletion r result c = Inr d \<Longrightarrow> rem_status r = RS_FIRING"
  by (auto simp: planFiringCompletion_def split: if_splits)

text \<open>The three ways a completion is planned.\<close>

lemma planFiringCompletion_cases:
  assumes "planFiringCompletion r result c = Inr d"
  obtains (retry) occ fireAt where
      "is_retryable result" "rem_attempt r < maxRetries" "delivered_occurrence r c = Inr occ"
      "addMinutes (cc_at c) (retry_backoff (rem_attempt r)) = Inr fireAt"
      "d = \<lparr>fc_status = RS_SCHEDULED, fc_schedule = None, fc_occurrence_at = Some occ,
            fc_next_fire_at = Some fireAt, fc_attempt = rem_attempt r + 1, fc_last_outcome = None,
            fc_updated_at = cc_at c\<rparr>"
    | (once) occ where
      "\<not> (is_retryable result \<and> rem_attempt r < maxRetries)" "\<not> isRecurringSchedule (rem_schedule r)"
      "\<not> is_skipped result" "delivered_occurrence r c = Inr occ"
      "d = \<lparr>fc_status = once_final_status (lo_outcome (finalOccurrenceOutcome result occ (cc_at c))),
            fc_schedule = None, fc_occurrence_at = None, fc_next_fire_at = None,
            fc_attempt = rem_attempt r,
            fc_last_outcome = Some (finalOccurrenceOutcome result occ (cc_at c)), fc_updated_at = cc_at c\<rparr>"
    | (recurring) occ nxt where
      "\<not> (is_retryable result \<and> rem_attempt r < maxRetries)" "isRecurringSchedule (rem_schedule r)"
      "delivered_occurrence r c = Inr occ" "cc_next_occurrence_at c = Some nxt"
      "isIsoInstant nxt" "\<not> nan_le (date_parse nxt) (date_parse occ)"
      "d = \<lparr>fc_status = RS_SCHEDULED, fc_schedule = None, fc_occurrence_at = Some nxt,
            fc_next_fire_at = Some nxt, fc_attempt = 0,
            fc_last_outcome = Some (finalOccurrenceOutcome result occ (cc_at c)), fc_updated_at = cc_at c\<rparr>"
proof -
  from assms obtain occ where occ: "delivered_occurrence r c = Inr occ"
    by (auto simp: planFiringCompletion_def err_bind_Inr_iff split: if_splits)
  show thesis
  proof (cases "is_retryable result \<and> rem_attempt r < maxRetries")
    case True
    with assms occ show thesis
      by (auto simp: planFiringCompletion_def err_bind_Inr_iff Let_def split: if_splits intro: retry)
  next
    case no_retry: False
    show thesis
    proof (cases "isRecurringSchedule (rem_schedule r)")
      case True
      with assms occ no_retry recurring show thesis
        by (auto simp: planFiringCompletion_def Let_def split: if_splits option.splits)
    next
      case False
      with assms occ no_retry once show thesis
        by (auto simp: planFiringCompletion_def Let_def split: if_splits)
    qed
  qed
qed

lemma wf_planFiringCompletion [invariant_intros]:
  assumes "wf_reminder r" "planFiringCompletion r result c = Inr d"
  shows "wf_completion d"
  using assms(2)
proof (cases rule: planFiringCompletion_cases)
  case (once occ)
  with assms(1) once_final_status_terminal show ?thesis by (simp add: wf_simps)
qed (use assms(1) in \<open>auto simp: wf_simps bound_simps\<close>)

lemma wf_planEventReschedule [invariant_intros]:
  "planEventRescheduleCompletion r at t = Inr d \<Longrightarrow> wf_completion d"
  by (auto simp: planEventRescheduleCompletion_def assertEventFiring_def err_bind_Inr_iff wf_completion_def
      Let_def split: if_splits option.splits)

lemma wf_planEventCanceled [invariant_intros]:
  assumes "wf_reminder r" "planEventCanceledCompletion r out at = Inr d"
  shows "wf_completion d"
proof -
  let ?p = "planFiringCompletion r (Delivered out)
      \<lparr>cc_at = at, cc_next_occurrence_at = None, cc_delivered_occurrence_at = None\<rparr>"
  from assms(2) obtain p where p: "?p = Inr p"
    and d: "(if fc_status p = RS_SCHEDULED then Inr p else Inr (p\<lparr>fc_status := RS_CANCELED\<rparr>))
      = (Inr d :: reminder_error + firing_completion)"
    unfolding planEventCanceledCompletion_def err_bind_Inr_iff by blast
  have "wf_completion p" by (rule wf_planFiringCompletion [OF assms(1) p])
  with d show ?thesis by (auto simp: wf_completion_def split: if_splits)
qed

lemma wf_createReminderDraft:
  assumes "createReminderDraft i = Inr d"
  shows "wf_reminder (reminder_draft.extend d (reminder.fields n))"
  using assms
  by (auto simp: createReminderDraft_def Let_def wf_simps reminder_draft.defs reminder.defs
      split: if_splits option.splits)

end
