(* ===== verification/Civil_Time.thy ===== *)
theory Civil_Time
  imports Prelude
begin

text \<open>
  \<open>packages/core/src/application/reminders/zoned-time.ts\<close>: calendar arithmetic and the conversion
  between wall-clock readings of an IANA zone and instants.

  The proleptic Gregorian calendar of \<open>Date.UTC\<close> and the UTC getters is the one of the ECMAScript
  specification (\<open>day_from_year\<close> is its \<open>DayFromYear\<close>). The zone database behind \<open>Intl\<close> is not
  under \<open>src/\<close>: a zone is a parameter \<open>z\<close>, the function from an instant to the fields that
  \<open>formatToParts\<close> prints for it. What the code relies on is stated where it is used:
  \<open>fixed_offset\<close> is a zone with one offset (the default \<open>Asia/Seoul\<close> since 1988).
\<close>

section \<open>The calendar of Date.UTC\<close>

definition day_from_year :: "int \<Rightarrow> int" where
  "day_from_year y = 365 * (y - 1970) + (y - 1969) div 4 - (y - 1901) div 100 + (y - 1601) div 400"

definition leap_year :: "int \<Rightarrow> bool" where
  "leap_year y \<longleftrightarrow> y mod 4 = 0 \<and> (y mod 100 \<noteq> 0 \<or> y mod 400 = 0)"

definition leap_day :: "int \<Rightarrow> int" where
  "leap_day y = (if leap_year y then 1 else 0)"

text \<open>Days of the year before the first of a month, months counted from 0.\<close>

definition days_before_month :: "int \<Rightarrow> int \<Rightarrow> int" where
  "days_before_month y m =
     [0, 31, 59 + leap_day y, 90 + leap_day y, 120 + leap_day y, 151 + leap_day y, 181 + leap_day y,
      212 + leap_day y, 243 + leap_day y, 273 + leap_day y, 304 + leap_day y, 334 + leap_day y] ! nat m"

text \<open>\<open>MakeDay\<close>: the month may lie outside 0..11 and the day outside the month.\<close>

definition make_day :: "int \<Rightarrow> int \<Rightarrow> int \<Rightarrow> int" where
  "make_day y m d =
     (let ym = y + m div 12; mn = m mod 12 in day_from_year ym + days_before_month ym mn + d - 1)"

text \<open>\<open>Date.UTC\<close> reads a year 0..99 as 1900..1999.\<close>

definition utc_year :: "int \<Rightarrow> int" where
  "utc_year y = (if 0 \<le> y \<and> y \<le> 99 then 1900 + y else y)"

definition ms_per_minute :: int where "ms_per_minute = 60000"
definition ms_per_day :: int where "ms_per_day = 86400000"

lemma ms_per_simps [bound_simps]: "ms_per_minute = 60000" "ms_per_day = 86400000"
  by (simp_all add: ms_per_minute_def ms_per_day_def)

definition date_utc :: "int \<Rightarrow> int \<Rightarrow> int \<Rightarrow> int \<Rightarrow> int \<Rightarrow> int \<Rightarrow> int" where
  "date_utc y m d h mi s =
     make_day (utc_year y) m d * ms_per_day + h * 3600000 + mi * ms_per_minute + s * 1000"

text \<open>The UTC getters: the year is the largest one that starts at or before the day.\<close>

definition year_of_day :: "int \<Rightarrow> int" where
  "year_of_day n =
     (let y = 1970 + (400 * n) div 146097
      in if day_from_year (y + 1) \<le> n then y + 1 else if n < day_from_year y then y - 1 else y)"

definition month_of_doy :: "int \<Rightarrow> int \<Rightarrow> int" where
  "month_of_doy y r =
     (let l = leap_day y in
      if r < 31 then 0 else if r < 59 + l then 1 else if r < 90 + l then 2 else if r < 120 + l then 3
      else if r < 151 + l then 4 else if r < 181 + l then 5 else if r < 212 + l then 6
      else if r < 243 + l then 7 else if r < 273 + l then 8 else if r < 304 + l then 9
      else if r < 334 + l then 10 else 11)"

definition utc_day :: "int \<Rightarrow> int" where
  "utc_day ms = ms div ms_per_day"

definition utc_full_year :: "int \<Rightarrow> int" where
  "utc_full_year ms = year_of_day (utc_day ms)"

definition utc_month :: "int \<Rightarrow> int" where
  "utc_month ms = (let y = utc_full_year ms in month_of_doy y (utc_day ms - day_from_year y))"

definition utc_date :: "int \<Rightarrow> int" where
  "utc_date ms =
     (let y = utc_full_year ms; r = utc_day ms - day_from_year y
      in r - days_before_month y (month_of_doy y r) + 1)"

definition utc_weekday :: "int \<Rightarrow> int" where
  "utc_weekday ms = (4 + utc_day ms) mod 7"

section \<open>Laws of the calendar\<close>

lemma leap_day_cases: "leap_day y = 0 \<or> leap_day y = 1"
  by (simp add: leap_day_def)

lemma leap_day_bounds: "0 \<le> leap_day y" "leap_day y \<le> 1"
  using leap_day_cases [of y] by auto

lemma day_from_year_step: "day_from_year (y + 1) = day_from_year y + 365 + leap_day y"
proof -
  have m: "(y - 1969 + 1) mod 4 = y mod 4" "(y - 1901 + 1) mod 100 = y mod 100"
    "(y - 1601 + 1) mod 400 = y mod 400"
    by (rule int_mod_shift [of _ _ "- 492"], simp) (rule int_mod_shift [of _ _ "- 19"], simp,
      rule int_mod_shift [of _ _ "- 4"], simp)
  have q: "(y + 1 - 1969) div 4 = (y - 1969) div 4 + (if y mod 4 = 0 then 1 else 0)"
    "(y + 1 - 1901) div 100 = (y - 1901) div 100 + (if y mod 100 = 0 then 1 else 0)"
    "(y + 1 - 1601) div 400 = (y - 1601) div 400 + (if y mod 400 = 0 then 1 else 0)"
    using int_div_step [of 4 "y - 1969"] int_div_step [of 100 "y - 1901"]
      int_div_step [of 400 "y - 1601"]
    unfolding m by (simp_all only: diff_add_eq zero_less_numeral simp_thms)
  have "y mod 400 mod 100 = y mod 100" "y mod 100 mod 4 = y mod 4"
    by (simp_all add: mod_mod_cancel)
  then have "y mod 400 = 0 \<Longrightarrow> y mod 100 = 0" "y mod 100 = 0 \<Longrightarrow> y mod 4 = 0"
    by auto
  then show ?thesis
    unfolding day_from_year_def leap_day_def leap_year_def q by (cases "y mod 4 = 0"; cases "y mod 100 = 0"; cases "y mod 400 = 0"; simp)
qed

lemma day_from_year_near:
  shows day_from_year_lower: "146097 * (y - 1970) - 700 < 400 * day_from_year y"
    and day_from_year_upper: "400 * day_from_year y < 146097 * (y - 1970) + 700"
proof -
  obtain p q r where pqr: "p = (y - 1969) div 4" "q = (y - 1901) div 100" "r = (y - 1601) div 400"
    by blast
  have b: "4 * p \<le> y - 1969" "y - 1969 < 4 * p + 4" "100 * q \<le> y - 1901" "y - 1901 < 100 * q + 100"
    "400 * r \<le> y - 1601" "y - 1601 < 400 * r + 400"
    unfolding pqr by (rule int_div_bounds, simp)+
  have d: "day_from_year y = 365 * (y - 1970) + p - q + r"
    unfolding day_from_year_def pqr ..
  show "146097 * (y - 1970) - 700 < 400 * day_from_year y"
    "400 * day_from_year y < 146097 * (y - 1970) + 700"
    unfolding d using b by (simp_all add: algebra_simps)
qed

lemma year_of_day_bounds:
  "day_from_year (year_of_day n) \<le> n" "n < day_from_year (year_of_day n + 1)"
proof -
  define y where "y = 1970 + (400 * n) div 146097"
  have lo: "146097 * (y - 1970) \<le> 400 * n"
    unfolding y_def using int_div_bounds(1) [of 146097 "400 * n"] by simp
  have hi: "400 * n < 146097 * (y - 1970) + 146097"
    unfolding y_def using int_div_bounds(2) [of 146097 "400 * n"] by simp
  have lower: "day_from_year (y - 1) \<le> n"
    using day_from_year_upper [of "y - 1"] lo unfolding right_diff_distrib by linarith
  have upper: "n < day_from_year (y + 1 + 1)"
    using day_from_year_lower [of "y + 1 + 1"] hi unfolding right_diff_distrib distrib_left by linarith
  have y: "year_of_day n = (if day_from_year (y + 1) \<le> n then y + 1
      else if n < day_from_year y then y - 1 else y)"
    unfolding year_of_day_def y_def Let_def by simp
  show "day_from_year (year_of_day n) \<le> n"
    unfolding y using lower by simp
  show "n < day_from_year (year_of_day n + 1)"
    unfolding y using upper by simp
qed

lemma day_from_year_less: "a < b \<Longrightarrow> day_from_year a + 365 \<le> day_from_year b"
proof (induction "nat (b - a)" arbitrary: b)
  case (Suc n)
  have step: "day_from_year b = day_from_year (b - 1) + 365 + leap_day (b - 1)"
    using day_from_year_step [of "b - 1"] by simp
  show ?case
  proof (cases "a = b - 1")
    case False
    with Suc.prems Suc.hyps(2) have "day_from_year a + 365 \<le> day_from_year (b - 1)"
      by (intro Suc.hyps(1)) auto
    with step leap_day_bounds(1) [of "b - 1"] show ?thesis by linarith
  qed (use step leap_day_bounds(1) [of "b - 1"] in simp)
qed simp

lemma year_of_day_unique:
  assumes "day_from_year y \<le> n" and "n < day_from_year (y + 1)"
  shows "year_of_day n = y"
proof (rule ccontr)
  assume "year_of_day n \<noteq> y"
  then consider "year_of_day n + 1 \<le> y" | "y + 1 \<le> year_of_day n" by linarith
  then show False
  proof cases
    case 1
    then have "day_from_year (year_of_day n + 1) \<le> day_from_year y"
      using day_from_year_less [of "year_of_day n + 1" y] by fastforce
    with assms year_of_day_bounds(2) [of n] show ?thesis by linarith
  next
    case 2
    then have "day_from_year (y + 1) \<le> day_from_year (year_of_day n)"
      using day_from_year_less [of "y + 1" "year_of_day n"] by fastforce
    with assms year_of_day_bounds(1) [of n] show ?thesis by linarith
  qed
qed

lemma month_index_cases:
  fixes m :: int
  assumes "0 \<le> m" and "m \<le> 11"
  shows "m = 0 \<or> m = 1 \<or> m = 2 \<or> m = 3 \<or> m = 4 \<or> m = 5 \<or> m = 6 \<or> m = 7 \<or> m = 8 \<or> m = 9
    \<or> m = 10 \<or> m = 11"
  using assms by presburger

definition month_length :: "int \<Rightarrow> int \<Rightarrow> int" where
  "month_length y m =
     (if m = 1 then 28 + leap_day y else if m \<in> {3, 5, 8, 10} then 30 else 31)"

lemma days_before_month_values:
  "days_before_month y 0 = 0" "days_before_month y 1 = 31" "days_before_month y 2 = 59 + leap_day y"
  "days_before_month y 3 = 90 + leap_day y" "days_before_month y 4 = 120 + leap_day y"
  "days_before_month y 5 = 151 + leap_day y" "days_before_month y 6 = 181 + leap_day y"
  "days_before_month y 7 = 212 + leap_day y" "days_before_month y 8 = 243 + leap_day y"
  "days_before_month y 9 = 273 + leap_day y" "days_before_month y 10 = 304 + leap_day y"
  "days_before_month y 11 = 334 + leap_day y"
  by (simp_all add: days_before_month_def numeral_eq_Suc nth_Cons')

lemma days_before_month_step:
  assumes "0 \<le> m" and "m \<le> 10"
  shows "days_before_month y (m + 1) = days_before_month y m + month_length y m"
proof -
  have "m = 0 \<or> m = 1 \<or> m = 2 \<or> m = 3 \<or> m = 4 \<or> m = 5 \<or> m = 6 \<or> m = 7 \<or> m = 8 \<or> m = 9 \<or> m = 10"
    using assms by presburger
  then show ?thesis
    by (elim disjE) (simp_all add: days_before_month_values month_length_def)
qed

lemma month_of_doy_range: "0 \<le> month_of_doy y r" "month_of_doy y r \<le> 11"
  by (simp_all add: month_of_doy_def Let_def)

lemma month_of_doy_bounds:
  assumes "0 \<le> r" and "r < 365 + leap_day y"
  shows "days_before_month y (month_of_doy y r) \<le> r"
    and "r < days_before_month y (month_of_doy y r) + month_length y (month_of_doy y r)"
  using assms leap_day_bounds [of y]
  by (auto simp: month_of_doy_def Let_def days_before_month_values month_length_def)

lemma month_of_doy_inverse:
  assumes "0 \<le> m" "m \<le> 11" "1 \<le> d" "d \<le> month_length y m"
  shows "month_of_doy y (days_before_month y m + d - 1) = m"
  using month_index_cases [OF assms(1,2)] assms(3,4) leap_day_bounds [of y]
  by (elim disjE) (simp_all add: month_of_doy_def Let_def days_before_month_values month_length_def)

lemma days_before_month_end:
  assumes "0 \<le> m" "m \<le> 11"
  shows "0 \<le> days_before_month y m" "days_before_month y m + month_length y m \<le> 365 + leap_day y"
  using month_index_cases [OF assms] leap_day_bounds [of y]
  by (elim disjE; simp add: days_before_month_values month_length_def)+


section \<open>Local dates and times\<close>

record local_date =
  ld_year :: int
  ld_month :: int
  ld_day :: int

record local_date_time = local_date +
  ldt_hour :: int
  ldt_minute :: int

record zoned_date_time = local_date_time +
  zdt_second :: int
  zdt_weekday :: int

definition mk_date :: "int \<Rightarrow> int \<Rightarrow> int \<Rightarrow> local_date" where
  "mk_date y m d = \<lparr>ld_year = y, ld_month = m, ld_day = d\<rparr>"

definition date_of_utc :: "int \<Rightarrow> local_date" where
  "date_of_utc ms = mk_date (utc_full_year ms) (utc_month ms + 1) (utc_date ms)"

definition weekdayOf :: "local_date \<Rightarrow> int" where
  "weekdayOf d = utc_weekday (date_utc (ld_year d) (ld_month d - 1) (ld_day d) 0 0 0)"

definition daysInMonth :: "int \<Rightarrow> int \<Rightarrow> int" where
  "daysInMonth y m = utc_date (date_utc y m 0 0 0 0)"

definition isValidLocalDate :: "local_date \<Rightarrow> bool" where
  "isValidLocalDate d \<longleftrightarrow>
     1970 \<le> ld_year d \<and> ld_year d \<le> 9999 \<and> 1 \<le> ld_month d \<and> ld_month d \<le> 12 \<and>
     1 \<le> ld_day d \<and> ld_day d \<le> daysInMonth (ld_year d) (ld_month d)"

definition addLocalDays :: "local_date \<Rightarrow> int \<Rightarrow> local_date" where
  "addLocalDays d n = date_of_utc (date_utc (ld_year d) (ld_month d - 1) (ld_day d + n) 0 0 0)"

definition compareLocalDates :: "local_date \<Rightarrow> local_date \<Rightarrow> int" where
  "compareLocalDates a b =
     date_utc (ld_year a) (ld_month a - 1) (ld_day a) 0 0 0
     - date_utc (ld_year b) (ld_month b - 1) (ld_day b) 0 0 0"

text \<open>A zone: what \<open>formatToParts\<close> prints (year, month, day, hour, minute, second) for an instant.\<close>

type_synonym zone = "int \<Rightarrow> int \<times> int \<times> int \<times> int \<times> int \<times> int"

definition toZonedDateTime :: "zone \<Rightarrow> int \<Rightarrow> zoned_date_time" where
  "toZonedDateTime z ms =
     (case z ms of (y, mo, d, h, mi, s) \<Rightarrow>
        \<lparr>ld_year = y, ld_month = mo, ld_day = d, ldt_hour = h mod 24, ldt_minute = mi,
         zdt_second = s, zdt_weekday = weekdayOf (mk_date y mo d)\<rparr>)"

definition math_round_div :: "int \<Rightarrow> int \<Rightarrow> int" where
  "math_round_div n k = (2 * n + k) div (2 * k)"

definition offsetMinutesAt :: "zone \<Rightarrow> int \<Rightarrow> int" where
  "offsetMinutesAt z ms =
     (let f = toZonedDateTime z ms;
          asUtc = date_utc (ld_year f) (ld_month f - 1) (ld_day f) (ldt_hour f) (ldt_minute f) (zdt_second f);
          truncated = (ms div 1000) * 1000
      in math_round_div (asUtc - truncated) ms_per_minute)"

definition mk_local :: "local_date \<Rightarrow> int \<Rightarrow> int \<Rightarrow> local_date_time" where
  "mk_local d h mi =
     \<lparr>ld_year = ld_year d, ld_month = ld_month d, ld_day = ld_day d, ldt_hour = h, ldt_minute = mi\<rparr>"

definition sameLocal :: "zoned_date_time \<Rightarrow> local_date_time \<Rightarrow> bool" where
  "sameLocal a b \<longleftrightarrow>
     ld_year a = ld_year b \<and> ld_month a = ld_month b \<and> ld_day a = ld_day b \<and>
     ldt_hour a = ldt_hour b \<and> ldt_minute a = ldt_minute b"

datatype local_resolution = EXACT | AMBIGUOUS | NONEXISTENT

definition wall_as_utc :: "local_date_time \<Rightarrow> int" where
  "wall_as_utc l = date_utc (ld_year l) (ld_month l - 1) (ld_day l) (ldt_hour l) (ldt_minute l) 0"

text \<open>The candidate instants: one per distinct offset around the wall-clock time (a \<open>Set\<close>).\<close>

definition zoned_candidates :: "zone \<Rightarrow> local_date_time \<Rightarrow> int list" where
  "zoned_candidates z l =
     (let w = wall_as_utc l
      in map (\<lambda>off. w - off * ms_per_minute)
           (dedup_by id [] [offsetMinutesAt z (w - ms_per_day), offsetMinutesAt z w,
                            offsetMinutesAt z (w + ms_per_day)]))"

definition zonedToUtc :: "zone \<Rightarrow> local_date_time \<Rightarrow> int \<times> local_resolution" where
  "zonedToUtc z l =
     (let w = wall_as_utc l;
          matches = sort (filter (\<lambda>c. sameLocal (toZonedDateTime z c) l) (zoned_candidates z l))
      in case matches of
           earliest # rest \<Rightarrow> (earliest, if rest = [] then EXACT else AMBIGUOUS)
         | [] \<Rightarrow> (w - offsetMinutesAt z (w - ms_per_day) * ms_per_minute, NONEXISTENT))"

definition localDateOf :: "zone \<Rightarrow> int \<Rightarrow> local_date" where
  "localDateOf z ms =
     (let f = toZonedDateTime z ms in mk_date (ld_year f) (ld_month f) (ld_day f))"

section \<open>Days and dates\<close>

text \<open>The day number of a date, and the date of a day number.\<close>

definition day_no :: "local_date \<Rightarrow> int" where
  "day_no d = make_day (utc_year (ld_year d)) (ld_month d - 1) (ld_day d)"

definition date_of_day :: "int \<Rightarrow> local_date" where
  "date_of_day n = date_of_utc (n * ms_per_day)"

definition proper_date :: "local_date \<Rightarrow> bool" where
  "proper_date d \<longleftrightarrow> 100 \<le> ld_year d \<and> 1 \<le> ld_month d \<and> ld_month d \<le> 12 \<and> 1 \<le> ld_day d \<and>
     ld_day d \<le> month_length (ld_year d) (ld_month d - 1)"

lemma utc_day_of_days [simp]:
  "0 \<le> r \<Longrightarrow> r < ms_per_day \<Longrightarrow> utc_day (n * ms_per_day + r) = n"
  "utc_day (n * ms_per_day) = n"
  by (simp_all add: utc_day_def bound_simps div_add1_eq)

lemma date_of_utc_day: "date_of_utc ms = date_of_day (utc_day ms)"
  by (simp add: date_of_day_def date_of_utc_def utc_full_year_def utc_month_def utc_date_def)

lemma make_day_add: "make_day y m (d + n) = make_day y m d + n"
  by (simp add: make_day_def Let_def)

lemma addLocalDays_day_no: "addLocalDays d n = date_of_day (day_no d + n)"
  by (simp add: addLocalDays_def date_of_utc_day date_utc_def day_no_def make_day_add)

lemma make_day_in_year:
  "0 \<le> m \<Longrightarrow> m \<le> 11 \<Longrightarrow> make_day y m d = day_from_year y + days_before_month y m + d - 1"
  by (simp add: make_day_def)

lemma date_of_day_parts:
  fixes n :: int
  defines "y \<equiv> year_of_day n"
  defines "r \<equiv> n - day_from_year y"
  shows "date_of_day n = mk_date y (month_of_doy y r + 1) (r - days_before_month y (month_of_doy y r) + 1)"
  by (simp add: date_of_day_def date_of_utc_def utc_full_year_def utc_month_def utc_date_def Let_def
      y_def r_def)

lemma doy_range:
  "0 \<le> n - day_from_year (year_of_day n)"
  "n - day_from_year (year_of_day n) < 365 + leap_day (year_of_day n)"
  using year_of_day_bounds [of n] day_from_year_step [of "year_of_day n"] by linarith+

text \<open>Day numbers and dates are inverse to each other, outside the years 0..99 \<open>Date.UTC\<close> remaps.\<close>

lemma day_no_date_of_day:
  assumes "year_of_day n < 0 \<or> 99 < year_of_day n"
  shows "day_no (date_of_day n) = n"
proof -
  have "utc_year (year_of_day n) = year_of_day n"
    using assms by (auto simp: utc_year_def)
  then show ?thesis
    using month_of_doy_range by (simp add: day_no_def date_of_day_parts mk_date_def make_day_in_year)
qed

lemma date_of_day_day_no:
  assumes "proper_date d"
  shows "date_of_day (day_no d) = d" and "year_of_day (day_no d) = ld_year d"
proof -
  let ?y = "ld_year d" and ?m = "ld_month d - 1"
  have rng: "0 \<le> ?m" "?m \<le> 11" "1 \<le> ld_day d" "ld_day d \<le> month_length ?y ?m" and y: "100 \<le> ?y"
    using assms by (auto simp: proper_date_def)
  have n: "day_no d = day_from_year ?y + (days_before_month ?y ?m + ld_day d - 1)"
    using rng y by (simp add: day_no_def utc_year_def make_day_in_year)
  have ends: "0 \<le> days_before_month ?y ?m" "days_before_month ?y ?m + month_length ?y ?m \<le> 365 + leap_day ?y"
    using days_before_month_end [OF rng(1,2)] by auto
  show year: "year_of_day (day_no d) = ?y"
    by (rule year_of_day_unique) (use n ends rng day_from_year_step [of ?y] in linarith)+
  have "month_of_doy ?y (days_before_month ?y ?m + ld_day d - 1) = ?m"
    by (rule month_of_doy_inverse) (use rng in auto)
  then show "date_of_day (day_no d) = d"
    unfolding date_of_day_parts year using n by (simp add: mk_date_def)
qed

lemma proper_date_of_day: "100 \<le> year_of_day n \<Longrightarrow> proper_date (date_of_day n)"
  using month_of_doy_bounds [OF doy_range, of n] month_of_doy_range
  by (auto simp: proper_date_def date_of_day_parts mk_date_def)

lemma weekdayOf_day_no: "weekdayOf d = (4 + day_no d) mod 7"
  by (simp add: weekdayOf_def utc_weekday_def date_utc_def day_no_def)

lemma daysInMonth_eq:
  assumes "100 \<le> y" "1 \<le> m" "m \<le> 12"
  shows "daysInMonth y m = month_length y (m - 1)"
proof -
  have last: "make_day y m 0 = make_day y (m - 1) (month_length y (m - 1))"
  proof (cases "m = 12")
    case True
    have "make_day y 12 0 = day_from_year (y + 1) - 1"
      by (simp add: make_day_def days_before_month_values)
    moreover have "make_day y 11 31 = day_from_year y + 364 + leap_day y"
      by (simp add: make_day_def days_before_month_values)
    ultimately show ?thesis
      using True day_from_year_step [of y] by (simp add: month_length_def)
  next
    case False
    with assms have "make_day y m 0 = day_from_year y + days_before_month y m - 1"
      by (simp add: make_day_in_year)
    moreover have "days_before_month y m = days_before_month y (m - 1) + month_length y (m - 1)"
      using days_before_month_step [of "m - 1" y] assms False by simp
    ultimately show ?thesis
      using assms False by (simp add: make_day_in_year)
  qed
  let ?d = "mk_date y m (month_length y (m - 1))"
  have "1 \<le> month_length y (m - 1)"
    using leap_day_bounds [of y] by (simp add: month_length_def)
  then have "proper_date ?d"
    using assms by (simp add: proper_date_def mk_date_def)
  then have "date_of_day (day_no ?d) = ?d"
    by (rule date_of_day_day_no)
  then have "date_of_utc (make_day y (m - 1) (month_length y (m - 1)) * ms_per_day) = ?d"
    using assms by (simp add: day_no_def date_of_day_def mk_date_def utc_year_def)
  then show ?thesis
    using assms last
    by (simp add: daysInMonth_def date_utc_def utc_year_def date_of_utc_def mk_date_def)
qed

lemma isValidLocalDate_proper: "isValidLocalDate d \<Longrightarrow> proper_date d"
  by (auto simp: isValidLocalDate_def proper_date_def daysInMonth_eq)


lemma year_of_day_ge: "day_from_year y \<le> n \<Longrightarrow> y \<le> year_of_day n"
proof (rule ccontr)
  assume le: "day_from_year y \<le> n" and "\<not> y \<le> year_of_day n"
  then have "year_of_day n + 1 \<le> y" by simp
  then have "day_from_year (year_of_day n + 1) \<le> day_from_year y"
    using day_from_year_less [of "year_of_day n + 1" y] by fastforce
  with le year_of_day_bounds(2) [of n] show False by simp
qed

text \<open>A date after year 100 is at least the first of its year.\<close>

lemma proper_date_day_no_ge: "proper_date d \<Longrightarrow> day_from_year (ld_year d) \<le> day_no d"
  using date_of_day_day_no(2) [of d] year_of_day_bounds(1) [of "day_no d"] by simp

lemma proper_date_near:
  assumes "proper_date d" and "101 \<le> ld_year d" and "day_no d - 300 \<le> n"
  shows "100 \<le> year_of_day n"
proof (rule year_of_day_ge)
  have "day_from_year 101 \<le> day_from_year (ld_year d)"
    using assms(2) day_from_year_less [of 101 "ld_year d"] by (cases "ld_year d = 101") auto
  moreover have "day_from_year 100 + 365 \<le> day_from_year 101"
    by (rule day_from_year_less) simp
  ultimately show "day_from_year 100 \<le> n"
    using proper_date_day_no_ge [OF assms(1)] assms(3) by linarith
qed

section \<open>Zones with one offset\<close>

definition utc_fields :: "int \<Rightarrow> int \<times> int \<times> int \<times> int \<times> int \<times> int" where
  "utc_fields ms =
     (utc_full_year ms, utc_month ms + 1, utc_date ms,
      (ms div 3600000) mod 24, (ms div 60000) mod 60, (ms div 1000) mod 60)"

text \<open>What \<open>Intl\<close> prints for a zone whose offset is always \<open>off\<close> minutes (Asia/Seoul: 540).\<close>

definition fixed_zone :: "int \<Rightarrow> zone" where
  "fixed_zone off = (\<lambda>ms. utc_fields (ms + off * ms_per_minute))"

lemma seconds_of_fields:
  fixes q :: int
  shows "q = (q div 86400) * 86400 + ((q div 3600) mod 24) * 3600 + ((q div 60) mod 60) * 60 + q mod 60"
proof -
  have "q div (60 * 60) = q div 60 div 60" "q div (3600 * 24) = q div 3600 div 24"
    by (rule zdiv_zmult2_eq, simp)+
  then have h: "q div 3600 = q div 60 div 60" and d: "q div 86400 = q div 3600 div 24"
    by simp_all
  obtain a b c where abc: "a = q div 60" "b = a div 60" "c = b div 24" by blast
  have "q = 60 * a + q mod 60" "a = 60 * b + a mod 60" "b = 24 * c + b mod 24"
    unfolding abc by (rule mult_div_mod_eq [symmetric])+
  then show ?thesis unfolding d h abc [symmetric] by linarith
qed

lemma ms_of_fields:
  fixes ms :: int
  shows "utc_day ms * ms_per_day + ((ms div 3600000) mod 24) * 3600000
    + ((ms div 60000) mod 60) * ms_per_minute + ((ms div 1000) mod 60) * 1000 = (ms div 1000) * 1000"
proof -
  have "ms div (1000 * 3600) = ms div 1000 div 3600" "ms div (1000 * 60) = ms div 1000 div 60"
    "ms div (1000 * 86400) = ms div 1000 div 86400"
    by (rule zdiv_zmult2_eq, simp)+
  then have e: "ms div 3600000 = ms div 1000 div 3600" "ms div 60000 = ms div 1000 div 60"
    "ms div 86400000 = ms div 1000 div 86400"
    by simp_all
  obtain q d h m s where v: "q = ms div 1000" "d = q div 86400" "h = (q div 3600) mod 24"
    "m = (q div 60) mod 60" "s = q mod 60" by blast
  have "q = d * 86400 + h * 3600 + m * 60 + s"
    unfolding v(2-5) by (rule seconds_of_fields)
  then show ?thesis
    unfolding utc_day_def bound_simps e v(1) [symmetric] unfolding v(2-5) [symmetric] by linarith
qed

lemma date_of_day_sel:
  "ld_year (date_of_day n) = year_of_day n"
  by (simp add: date_of_day_parts mk_date_def)

lemma date_utc_day_no:
  "date_utc (ld_year d) (ld_month d - 1) (ld_day d) h mi s =
   day_no d * ms_per_day + h * 3600000 + mi * ms_per_minute + s * 1000"
  by (simp add: date_utc_def day_no_def)

lemma utc_fields_date:
  "utc_fields ms = (ld_year (date_of_day (utc_day ms)), ld_month (date_of_day (utc_day ms)),
     ld_day (date_of_day (utc_day ms)), (ms div 3600000) mod 24, (ms div 60000) mod 60, (ms div 1000) mod 60)"
  by (simp add: utc_fields_def date_of_utc_day [symmetric] date_of_utc_def mk_date_def)

lemma fixed_zone_local_date:
  "localDateOf (fixed_zone off) ms = date_of_day (utc_day (ms + off * ms_per_minute))"
  by (simp add: localDateOf_def toZonedDateTime_def fixed_zone_def utc_fields_date mk_date_def)

lemma math_round_div_exact:
  assumes "0 < k"
  shows "math_round_div (a * k) k = a"
  unfolding math_round_div_def
  by (rule int_div_pos_eq [where r = k]) (use assms in \<open>simp_all add: algebra_simps\<close>)

lemma offset_fixed_zone:
  assumes "100 \<le> year_of_day (utc_day (ms + off * ms_per_minute))"
  shows "offsetMinutesAt (fixed_zone off) ms = off"
proof -
  let ?t = "ms + off * ms_per_minute"
  let ?d = "date_of_day (utc_day ?t)"
  have day: "day_no ?d = utc_day ?t"
    by (rule day_no_date_of_day) (use assms in simp)
  have "(?t div 1000) * 1000 = (ms div 1000) * 1000 + off * ms_per_minute"
  proof -
    have t: "?t = ms + (off * 60) * 1000" by (simp add: bound_simps)
    have d: "?t div 1000 = off * 60 + ms div 1000"
      unfolding t by (rule div_mult_self1) simp
    show ?thesis unfolding d unfolding bound_simps distrib_right by linarith
  qed
  then have n: "(?t div 1000) * 1000 - (ms div 1000) * 1000 = off * ms_per_minute"
    by linarith
  have utc: "date_utc (ld_year ?d) (ld_month ?d - 1) (ld_day ?d) ((?t div 3600000) mod 24)
      ((?t div 60000) mod 60) ((?t div 1000) mod 60) = (?t div 1000) * 1000"
    unfolding date_utc_day_no day by (rule ms_of_fields)
  have f: "toZonedDateTime (fixed_zone off) ms =
      \<lparr>ld_year = ld_year ?d, ld_month = ld_month ?d, ld_day = ld_day ?d,
       ldt_hour = (?t div 3600000) mod 24, ldt_minute = (?t div 60000) mod 60,
       zdt_second = (?t div 1000) mod 60,
       zdt_weekday = weekdayOf (mk_date (ld_year ?d) (ld_month ?d) (ld_day ?d))\<rparr>"
    unfolding toZonedDateTime_def fixed_zone_def utc_fields_date by (simp only: prod.case mod_mod_trivial)
  have "offsetMinutesAt (fixed_zone off) ms = math_round_div (off * ms_per_minute) ms_per_minute"
    unfolding offsetMinutesAt_def f Let_def local_date.select_convs local_date_time.select_convs
      zoned_date_time.select_convs utc n ..
  also have "\<dots> = off"
    by (rule math_round_div_exact) (simp add: bound_simps)
  finally show ?thesis .
qed

definition proper_local :: "local_date_time \<Rightarrow> bool" where
  "proper_local l \<longleftrightarrow>
     proper_date (mk_date (ld_year l) (ld_month l) (ld_day l)) \<and> 101 \<le> ld_year l \<and>
     0 \<le> ldt_hour l \<and> ldt_hour l \<le> 23 \<and> 0 \<le> ldt_minute l \<and> ldt_minute l \<le> 59"

definition local_day :: "local_date_time \<Rightarrow> int" where
  "local_day l = day_no (mk_date (ld_year l) (ld_month l) (ld_day l))"

definition minute_of_day :: "local_date_time \<Rightarrow> int" where
  "minute_of_day l = 60 * ldt_hour l + ldt_minute l"

lemma wall_as_utc_eq: "wall_as_utc l = local_day l * ms_per_day + minute_of_day l * ms_per_minute"
  by (simp add: wall_as_utc_def date_utc_def local_day_def day_no_def mk_date_def minute_of_day_def
      bound_simps)

lemma minute_of_day_range: "proper_local l \<Longrightarrow> 0 \<le> minute_of_day l \<and> minute_of_day l < 1440"
  by (auto simp: proper_local_def minute_of_day_def)

lemma utc_day_wall:
  "proper_local l \<Longrightarrow> utc_day (wall_as_utc l) = local_day l"
  unfolding wall_as_utc_eq using minute_of_day_range [of l]
  by (intro utc_day_of_days) (auto simp: bound_simps)

lemma fixed_zone_reads_back:
  assumes l: "proper_local l"
  shows "sameLocal (toZonedDateTime (fixed_zone off) (wall_as_utc l - off * ms_per_minute)) l"
proof -
  let ?w = "wall_as_utc l" and ?D = "mk_date (ld_year l) (ld_month l) (ld_day l)"
  have d: "date_of_day (utc_day ?w) = ?D"
    using l utc_day_wall [OF l] by (auto simp: proper_local_def local_day_def date_of_day_day_no)
  have w: "?w = local_day l * 86400000 + ldt_hour l * 3600000 + ldt_minute l * 60000"
    by (simp add: wall_as_utc_eq minute_of_day_def bound_simps)
  have r: "0 \<le> ldt_hour l" "ldt_hour l \<le> 23" "0 \<le> ldt_minute l" "ldt_minute l \<le> 59"
    using l by (auto simp: proper_local_def)
  have "?w div 3600000 = local_day l * 24 + ldt_hour l"
    by (rule int_div_pos_eq [where r = "ldt_minute l * 60000"]) (use w r in auto)
  moreover have "?w div 60000 = local_day l * 1440 + ldt_hour l * 60 + ldt_minute l"
    by (rule int_div_pos_eq [where r = 0]) (use w in auto)
  moreover have "(local_day l * 24 + ldt_hour l) mod 24 = ldt_hour l"
    using r by (simp add: mod_add_left_eq [symmetric])
  moreover have "(local_day l * 1440 + ldt_hour l * 60 + ldt_minute l) mod 60 = ldt_minute l"
  proof -
    have "local_day l * 1440 + ldt_hour l * 60 + ldt_minute l
        = ldt_minute l + (local_day l * 24 + ldt_hour l) * 60" by simp
    then show ?thesis using r by (simp only: mod_mult_self1) simp
  qed
  ultimately show ?thesis
    using d by (simp add: sameLocal_def toZonedDateTime_def fixed_zone_def utc_fields_date mk_date_def)
qed

text \<open>In a zone with one offset every wall-clock time is one instant, and it reads back.\<close>

lemma zonedToUtc_fixed:
  assumes l: "proper_local l" and off: "\<bar>off\<bar> \<le> 1440"
  shows "zonedToUtc (fixed_zone off) l = (wall_as_utc l - off * ms_per_minute, EXACT)"
proof -
  let ?z = "fixed_zone off" and ?w = "wall_as_utc l"
  have off_at: "offsetMinutesAt ?z m = off" if "\<bar>m - ?w\<bar> \<le> ms_per_day" for m
  proof (rule offset_fixed_zone, rule proper_date_near)
    let ?D = "mk_date (ld_year l) (ld_month l) (ld_day l)"
    show "proper_date ?D" "101 \<le> ld_year ?D"
      using l by (auto simp: proper_local_def mk_date_def)
    have "(local_day l - 3) * 86400000 \<le> m + off * 60000"
      using that off minute_of_day_range [OF l]
      unfolding wall_as_utc_eq bound_simps abs_le_iff left_diff_distrib by linarith
    then have "((local_day l - 3) * 86400000) div 86400000 \<le> (m + off * 60000) div 86400000"
      by (rule zdiv_mono1) simp
    then have "local_day l - 3 \<le> utc_day (m + off * ms_per_minute)"
      by (simp add: utc_day_def bound_simps)
    then show "day_no ?D - 300 \<le> utc_day (m + off * ms_per_minute)"
      by (simp add: local_day_def)
  qed
  have "zoned_candidates ?z l = [?w - off * ms_per_minute]"
    using off_at [of "?w - ms_per_day"] off_at [of ?w] off_at [of "?w + ms_per_day"]
    by (simp add: zoned_candidates_def bound_simps)
  with fixed_zone_reads_back [OF l, of off] show ?thesis
    by (simp add: zonedToUtc_def)
qed

text \<open>In any zone: a resolved time reads back, the earliest one is taken, and only a gap fails.\<close>

lemma zonedToUtc_cases:
  fixes z :: zone and l :: local_date_time
  defines "ms \<equiv> {c \<in> set (zoned_candidates z l). sameLocal (toZonedDateTime z c) l}"
  shows "snd (zonedToUtc z l) \<noteq> NONEXISTENT \<Longrightarrow>
      fst (zonedToUtc z l) \<in> ms \<and> (\<forall>c\<in>ms. fst (zonedToUtc z l) \<le> c)"
    and "snd (zonedToUtc z l) = NONEXISTENT \<longleftrightarrow> ms = {}"
proof -
  let ?s = "sort (filter (\<lambda>c. sameLocal (toZonedDateTime z c) l) (zoned_candidates z l))"
  have set: "set ?s = ms" by (auto simp: ms_def)
  have ord: "sorted ?s" by simp
  show "snd (zonedToUtc z l) \<noteq> NONEXISTENT \<Longrightarrow>
      fst (zonedToUtc z l) \<in> ms \<and> (\<forall>c\<in>ms. fst (zonedToUtc z l) \<le> c)"
    using set ord by (cases ?s) (auto simp: zonedToUtc_def Let_def)
  show "snd (zonedToUtc z l) = NONEXISTENT \<longleftrightarrow> ms = {}"
    using set by (cases ?s) (auto simp: zonedToUtc_def Let_def)
qed

end
