(* ===== verification/Iso_Text.thy ===== *)
theory Iso_Text
  imports Civil_Time
begin

text \<open>
  The text of \<open>Date.prototype.toISOString\<close>, which the SQLite reminder store compares
  (\<open>canonicalInstant\<close>, \<open>packages/storage-sqlite/src/reminder-repository.ts\<close>: "lexical order is time
  order"). The comparison is \<open>BINARY\<close>, the lexicographic order of the bytes.
\<close>

definition digit_char :: "nat \<Rightarrow> char" where
  "digit_char n = char_of (48 + n mod 10)"

text \<open>Decimal digits, padded with zeros to a width.\<close>

fun pad_num :: "nat \<Rightarrow> nat \<Rightarrow> string" where
  "pad_num 0 n = []"
| "pad_num (Suc w) n = pad_num w (n div 10) @ [digit_char n]"

definition iso_year :: "int \<Rightarrow> string" where
  "iso_year y =
     (if 0 \<le> y \<and> y \<le> 9999 then pad_num 4 (nat y)
      else if y < 0 then ''-'' @ pad_num 6 (nat (- y)) else ''+'' @ pad_num 6 (nat y))"

definition iso_text :: "int \<Rightarrow> string" where
  "iso_text ms =
     iso_year (utc_full_year ms) @ ''-'' @ pad_num 2 (nat (utc_month ms + 1)) @ ''-'' @
     pad_num 2 (nat (utc_date ms)) @ ''T'' @ pad_num 2 (nat ((ms div 3600000) mod 24)) @ '':'' @
     pad_num 2 (nat ((ms div 60000) mod 60)) @ '':'' @ pad_num 2 (nat ((ms div 1000) mod 60)) @ ''.'' @
     pad_num 3 (nat (ms mod 1000)) @ ''Z''"

section \<open>Lexicographic order of padded numbers\<close>

lemma less_append_same_length:
  fixes a b :: string
  assumes "a < b" "length a = length b"
  shows "a @ u < b @ v"
  using assms lexord_sufI [of a b "{(u, v). u < v}" u v] by (simp add: list_less_def)

lemma less_append_left: "(u::string) < v \<Longrightarrow> a @ u < a @ v"
  by (simp add: list_less_def lexord_append_leftI)

lemma length_pad_num [simp]: "length (pad_num w n) = w"
  by (induction w arbitrary: n) auto

lemma digit_char_less: "m mod 10 < n mod 10 \<Longrightarrow> digit_char m < digit_char n"
  unfolding digit_char_def less_char_def by simp

lemma pad_num_less: "m < n \<Longrightarrow> n < 10 ^ w \<Longrightarrow> pad_num w m < pad_num w n"
proof (induction w arbitrary: m n)
  case (Suc w)
  show ?case
  proof (cases "m div 10 < n div 10")
    case True
    have "n div 10 < 10 ^ w" using Suc.prems(2) by (simp add: less_mult_imp_div_less mult.commute)
    with True have "pad_num w (m div 10) < pad_num w (n div 10)" by (rule Suc.IH)
    then show ?thesis by (simp add: less_append_same_length)
  next
    case False
    with Suc.prems(1) have e: "m div 10 = n div 10"
      by (meson div_le_mono le_neq_implies_less less_imp_le)
    then have "m mod 10 < n mod 10"
      using Suc.prems(1) by (metis div_mult_mod_eq nat_add_left_cancel_less)
    then have "[digit_char m] < [digit_char n]" by (simp add: digit_char_less)
    then show ?thesis unfolding pad_num.simps e by (rule less_append_left)
  qed
qed simp

text \<open>A component of the text that is smaller, or equal with a smaller rest.\<close>

lemma pad_then_less:
  assumes "m < n \<or> (m = n \<and> u < v)" "n < 10 ^ w"
  shows "pad_num w m @ u < pad_num w n @ v"
  using assms by (auto simp: pad_num_less less_append_same_length less_append_left)

section \<open>The order of canonical texts\<close>

definition four_digit_year :: "int \<Rightarrow> bool" where
  "four_digit_year ms \<longleftrightarrow> 0 \<le> utc_full_year ms \<and> utc_full_year ms \<le> 9999"

definition time_text :: "int \<Rightarrow> string" where
  "time_text ms =
     pad_num 2 (nat ((ms div 3600000) mod 24)) @ '':'' @ pad_num 2 (nat ((ms div 60000) mod 60)) @ '':'' @
     pad_num 2 (nat ((ms div 1000) mod 60)) @ ''.'' @ pad_num 3 (nat (ms mod 1000)) @ ''Z''"

lemma iso_text_four:
  "four_digit_year ms \<Longrightarrow>
   iso_text ms = pad_num 4 (nat (utc_full_year ms)) @ ''-'' @ pad_num 2 (nat (utc_month ms + 1)) @ ''-'' @
     pad_num 2 (nat (utc_date ms)) @ ''T'' @ time_text ms"
  by (simp add: iso_text_def iso_year_def four_digit_year_def time_text_def)

lemma div_less_or_eq:
  fixes a b k :: int
  assumes "a < b" "0 < k"
  shows "a div k < b div k \<or> (a div k = b div k \<and> a mod k < b mod k)"
proof (cases "a div k = b div k")
  case True
  have "a mod k = a - k * (a div k)" "b mod k = b - k * (b div k)"
    by (simp_all only: minus_mult_div_eq_mod)
  with True assms(1) have "a mod k < b mod k" by simp
  with True show ?thesis by blast
next
  case False
  moreover have "a div k \<le> b div k" using assms by (intro zdiv_mono1) auto
  ultimately show ?thesis by simp
qed

text \<open>Reading a mixed-radix number: the quotient decides, then the remainder.\<close>

lemma mixed_radix_less:
  fixes a b :: int
  assumes "a div (k * c) = b div (k * c)" "a div k < b div k" "0 < c" "0 < k"
  shows "(a div k) mod c < (b div k) mod c"
proof -
  have "a div k div c = b div k div c"
    using assms(1,3) by (metis zdiv_zmult2_eq less_imp_le)
  with assms(2,3) div_less_or_eq [of "a div k" "b div k" c] show ?thesis by simp
qed

lemma nat_mod_less:
  fixes x k :: int
  assumes "0 < k" "k \<le> int m"
  shows "nat (x mod k) < m"
proof -
  have "x mod k < int m" using pos_mod_bound [OF assms(1), of x] assms(2) by (rule less_le_trans)
  then show ?thesis using assms(1) by (simp add: nat_less_iff)
qed

lemma nat_less_mono: "(0::int) \<le> a \<Longrightarrow> a < b \<Longrightarrow> nat a < nat b"
  by simp

lemma time_text_less:
  assumes "a < b" "utc_day a = utc_day b"
  shows "time_text a < time_text b"
proof -
  have day: "a div (3600000 * 24) = b div (3600000 * 24)"
    using assms(2) by (simp add: utc_day_def bound_simps)
  have b3: "nat ((b div 3600000) mod 24) < 10 ^ 2" "nat ((b div 60000) mod 60) < 10 ^ 2"
    "nat ((b div 1000) mod 60) < 10 ^ 2" "nat (b mod 1000) < 10 ^ 3"
    by (rule nat_mod_less, simp, simp)+
  have h: "a div 3600000 < b div 3600000 \<or> a div 3600000 = b div 3600000"
    and m: "a div 60000 < b div 60000 \<or> a div 60000 = b div 60000"
    and s: "a div 1000 < b div 1000 \<or> (a div 1000 = b div 1000 \<and> a mod 1000 < b mod 1000)"
    using div_less_or_eq [OF assms(1), of 3600000] div_less_or_eq [OF assms(1), of 60000]
      div_less_or_eq [OF assms(1), of 1000] zero_less_numeral by blast+
  consider (hour) "a div 3600000 < b div 3600000"
    | (minute) "a div 3600000 = b div 3600000" "a div 60000 < b div 60000"
    | (second) "a div 3600000 = b div 3600000" "a div 60000 = b div 60000" "a div 1000 < b div 1000"
    | (ms) "a div 3600000 = b div 3600000" "a div 60000 = b div 60000" "a div 1000 = b div 1000"
        "a mod 1000 < b mod 1000"
    using h m s by blast
  then show ?thesis
  proof cases
    case hour
    have "(a div 3600000) mod 24 < (b div 3600000) mod 24"
      by (rule mixed_radix_less [OF day hour]) simp_all
    then have "nat ((a div 3600000) mod 24) < nat ((b div 3600000) mod 24)"
      by (intro nat_less_mono) simp_all
    then show ?thesis unfolding time_text_def
      by (intro pad_then_less disjI1 b3)
  next
    case minute
    have "(a div 60000) mod 60 < (b div 60000) mod 60"
      by (rule mixed_radix_less) (use minute in simp_all)
    then have "nat ((a div 60000) mod 60) < nat ((b div 60000) mod 60)"
      by (intro nat_less_mono) simp_all
    then show ?thesis unfolding time_text_def minute(1)
      by (intro less_append_left pad_then_less disjI1 b3)
  next
    case second
    have "(a div 1000) mod 60 < (b div 1000) mod 60"
      by (rule mixed_radix_less) (use second in simp_all)
    then have "nat ((a div 1000) mod 60) < nat ((b div 1000) mod 60)"
      by (intro nat_less_mono) simp_all
    then show ?thesis unfolding time_text_def second(1,2)
      by (intro less_append_left pad_then_less disjI1 b3)
  next
    case ms
    have "nat (a mod 1000) < nat (b mod 1000)"
      using ms(4) by (intro nat_less_mono) simp_all
    then show ?thesis unfolding time_text_def ms(1-3)
      by (intro less_append_left pad_then_less disjI1 b3)
  qed
qed

lemma days_before_month_mono:
  assumes "0 \<le> i" "i < j" "j \<le> 11"
  shows "days_before_month y i + month_length y i \<le> days_before_month y j"
  using assms(2,3)
proof (induction "nat (j - i)" arbitrary: j)
  case (Suc n)
  show ?case
  proof (cases "i = j - 1")
    case True
    with days_before_month_step [of i y] assms(1) Suc.prems show ?thesis by simp
  next
    case False
    have "days_before_month y i + month_length y i \<le> days_before_month y (j - 1)"
      using Suc.hyps(2) Suc.prems False by (intro Suc.hyps(1)) auto
    moreover have "days_before_month y j = days_before_month y (j - 1) + month_length y (j - 1)"
      using days_before_month_step [of "j - 1" y] assms(1) Suc.prems False by simp
    moreover have "0 \<le> month_length y (j - 1)"
      using leap_day_bounds [of y] by (simp add: month_length_def)
    ultimately show ?thesis by simp
  qed
qed simp

lemma utc_month_range: "0 \<le> utc_month ms" "utc_month ms \<le> 11"
  by (simp_all add: utc_month_def Let_def month_of_doy_range)

lemma utc_date_range: "1 \<le> utc_date ms" "utc_date ms \<le> 31"
proof -
  note b = month_of_doy_bounds [OF doy_range, of "utc_day ms"]
  have "month_length (utc_full_year ms) m \<le> 31" for m
    using leap_day_bounds [of "utc_full_year ms"] by (simp add: month_length_def)
  note l = this [of "utc_month ms"]
  show "1 \<le> utc_date ms" "utc_date ms \<le> 31"
    using b l unfolding utc_date_def utc_month_def utc_full_year_def Let_def by linarith+
qed

text \<open>The date fields of two days in order: year, then month, then day of the month.\<close>

lemma date_fields_less:
  fixes a b :: int
  assumes "utc_day a < utc_day b"
  shows "utc_full_year a < utc_full_year b \<or> (utc_full_year a = utc_full_year b \<and>
    (utc_month a < utc_month b \<or> (utc_month a = utc_month b \<and> utc_date a < utc_date b)))"
proof -
  let ?m = utc_day
  have le: "utc_full_year a \<le> utc_full_year b"
    unfolding utc_full_year_def
    by (rule year_of_day_ge) (use year_of_day_bounds(1) [of "?m a"] assms in linarith)
  show ?thesis
  proof (cases "utc_full_year a = utc_full_year b")
    case True
    let ?y = "utc_full_year b"
    define ra rb where r: "ra = ?m a - day_from_year ?y" "rb = ?m b - day_from_year ?y"
    have rr: "ra < rb" using assms by (simp add: r)
    have ra: "0 \<le> ra" "ra < 365 + leap_day ?y" and rb: "0 \<le> rb" "rb < 365 + leap_day ?y"
      using doy_range [of "?m a"] doy_range [of "?m b"] True by (simp_all add: r utc_full_year_def)
    have ma: "utc_month a = month_of_doy ?y ra" and mb: "utc_month b = month_of_doy ?y rb"
      using True by (simp_all add: utc_month_def Let_def r)
    have da: "utc_date a = ra - days_before_month ?y (month_of_doy ?y ra) + 1"
      and db: "utc_date b = rb - days_before_month ?y (month_of_doy ?y rb) + 1"
      using True by (simp_all add: utc_date_def Let_def r)
    have "month_of_doy ?y ra \<le> month_of_doy ?y rb"
    proof (rule ccontr)
      assume "\<not> ?thesis"
      then have "days_before_month ?y (month_of_doy ?y rb) + month_length ?y (month_of_doy ?y rb)
          \<le> days_before_month ?y (month_of_doy ?y ra)"
        using month_of_doy_range by (intro days_before_month_mono) auto
      with month_of_doy_bounds(1) [OF ra] month_of_doy_bounds(2) [OF rb] rr show False by linarith
    qed
    with True rr show ?thesis unfolding ma mb da db by auto
  qed (use le in simp)
qed

text \<open>Within the years 0000..9999 the text orders instants as numbers do.\<close>

lemma iso_text_less:
  assumes "a < b" "four_digit_year a" "four_digit_year b"
  shows "iso_text a < iso_text b"
proof -
  have f: "0 \<le> utc_full_year a"
    and fb: "nat (utc_full_year b) < 10 ^ 4" "nat (utc_month b + 1) < 10 ^ 2" "nat (utc_date b) < 10 ^ 2"
    using assms(2,3) utc_month_range [of b] utc_date_range [of b]
    by (auto simp: four_digit_year_def nat_less_iff)
  note f = f utc_month_range [of a] utc_date_range [of a]
  show ?thesis
  proof (cases "utc_day a = utc_day b")
    case True
    then have e: "utc_full_year a = utc_full_year b" "utc_month a = utc_month b" "utc_date a = utc_date b"
      by (simp_all add: utc_full_year_def utc_month_def utc_date_def)
    show ?thesis
      unfolding iso_text_four [OF assms(2)] iso_text_four [OF assms(3)] e
      by (intro less_append_left time_text_less assms(1) True)
  next
    case False
    have "utc_day a \<le> utc_day b" using assms(1) by (simp add: utc_day_def zdiv_mono1 bound_simps)
    with False have "utc_day a < utc_day b" by simp
    from date_fields_less [OF this] show ?thesis
      unfolding iso_text_four [OF assms(2)] iso_text_four [OF assms(3)]
      using f fb by (elim disjE conjE)
        (auto intro!: less_append_left pad_then_less simp: nat_less_eq_zless)
  qed
qed

lemma iso_text_le_iff:
  assumes "four_digit_year a" "four_digit_year b"
  shows "iso_text a \<le> iso_text b \<longleftrightarrow> a \<le> b"
proof (cases a b rule: linorder_cases)
  case less
  with assms iso_text_less show ?thesis by (simp add: less_imp_le)
next
  case greater
  then have "iso_text b < iso_text a" using assms by (intro iso_text_less)
  with greater show ?thesis by (simp add: not_le [symmetric])
qed simp

text \<open>The text of a timestamp.\<close>

fun iso_string :: "iso \<Rightarrow> string" where
  "iso_string (Canon ms) = iso_text ms"
| "iso_string (Raw t p) = t"

end
