(* ===== verification/Reminder_Store.thy ===== *)
theory Reminder_Store
  imports Reminder Iso_Text
begin

text \<open>
  The SQLite reminder repository (\<open>packages/storage-sqlite/src/reminder-repository.ts\<close>, its write
  condition \<open>action-write-condition.ts\<close> and \<open>packages/core/src/domain/action-write-condition.ts\<close>).

  The database is a record: the rows of \<open>reminders\<close> (\<open>id\<close> is the primary key and
  \<open>(actor_id, display_no)\<close> is unique) and the parsed \<open>data\<close> of \<open>actors\<close>. The \<open>next_fire_at\<close>
  column holds a canonical text; the row keeps its instant and comparisons use \<open>iso_text\<close>. Each
  method runs in one IMMEDIATE transaction, so it is one step; a thrown error is \<open>Inl\<close> and leaves
  the database as it was (rollback). Lock contention is not in the methods: see \<open>Reminder_Dispatch\<close>.
\<close>

section \<open>The action switch\<close>

definition isActionSwitchRunning :: "(string \<times> json) list option \<Rightarrow> bool" where
  "isActionSwitchRunning metadata =
     (case metadata of None \<Rightarrow> True
      | Some m \<Rightarrow> (case map_of m ''quoky.actionSwitch'' of
           Some (JObj props) \<Rightarrow> map_of props ''state'' \<noteq> Some (JStr ''stopped'')
         | _ \<Rightarrow> True))"

text \<open>An actor row: its metadata, or a \<open>data\<close> column that does not parse to an object.\<close>

datatype actor_row = Readable "(string \<times> json) list option" | Unreadable

record reminder_row =
  row_id :: Id
  row_actor_id :: Id
  row_display_no :: int
  row_status :: reminder_status
  row_next_fire_at :: "int option"
  row_data :: reminder

record reminder_db =
  db_reminders :: "reminder_row list"
  db_actors :: "(Id \<times> actor_row) list"

definition actionWriteConditionHolds :: "reminder_db \<Rightarrow> Id option \<Rightarrow> bool" where
  "actionWriteConditionHolds db condition =
     (case condition of None \<Rightarrow> True
      | Some actor \<Rightarrow> (case map_of (db_actors db) actor of
           None \<Rightarrow> False
         | Some Unreadable \<Rightarrow> False
         | Some (Readable metadata) \<Rightarrow> isActionSwitchRunning metadata))"

section \<open>Queries and the single write path\<close>

datatype store_error =
  REMINDER_LIMIT_INVALID | REMINDER_DRAFT_INVALID | REMINDER_REACTIVATION_INVALID
  | REMINDER_INSTANT_INVALID | REMINDER_CAS_LOST | SQLITE_CONSTRAINT | Domain_error reminder_error

definition max_safe_integer :: int where "max_safe_integer = 9007199254740991"

definition invalid_limit :: "int \<Rightarrow> bool" where
  "invalid_limit n \<longleftrightarrow> \<not> \<bar>n\<bar> \<le> max_safe_integer \<or> n < 0"

definition canonicalInstant :: "iso \<Rightarrow> store_error + int" where
  "canonicalInstant t = (case date_parse t of None \<Rightarrow> Inl REMINDER_INSTANT_INVALID | Some ms \<Rightarrow> Inr ms)"

definition countActive :: "reminder_db \<Rightarrow> Id \<Rightarrow> int" where
  "countActive db actor =
     int (length (filter (\<lambda>w. row_actor_id w = actor \<and> row_status w \<in> {RS_SCHEDULED, RS_FIRING}) (db_reminders db)))"

definition max_display_no :: "reminder_db \<Rightarrow> Id \<Rightarrow> int" where
  "max_display_no db actor =
     (case map row_display_no (filter (\<lambda>w. row_actor_id w = actor) (db_reminders db)) of
        [] \<Rightarrow> 0 | n # ns \<Rightarrow> fold max ns n)"

definition findByDisplayNo :: "reminder_db \<Rightarrow> Id \<Rightarrow> int \<Rightarrow> reminder_row option" where
  "findByDisplayNo db actor displayNo =
     (if \<not> \<bar>displayNo\<bar> \<le> max_safe_integer \<or> displayNo < 1 then None
      else find (\<lambda>w. row_actor_id w = actor \<and> row_display_no w = displayNo) (db_reminders db))"

definition find_row :: "reminder_db \<Rightarrow> Id \<Rightarrow> reminder_row option" where
  "find_row db i = find (\<lambda>w. row_id w = i) (db_reminders db)"

text \<open>
  \<open>write\<close>: the mirrored columns and the data together, where the stored status (and, for a FIRING
  row, the attempt id inside the data) is the expected one. The rows changed must be exactly one.
\<close>

definition write_matches :: "reminder \<Rightarrow> reminder_status \<Rightarrow> Id option \<Rightarrow> reminder_row \<Rightarrow> bool" where
  "write_matches r expectedStatus expectedAttempt w \<longleftrightarrow>
     row_id w = rem_id r \<and> row_status w = expectedStatus \<and>
     (case expectedAttempt of None \<Rightarrow> True | Some a \<Rightarrow> rem_firing_attempt_id (row_data w) = Some a)"

definition mirror_next_fire :: "reminder \<Rightarrow> store_error + int option" where
  "mirror_next_fire r =
     (case rem_next_fire_at r of
        Some t \<Rightarrow> if isActiveReminderStatus (rem_status r)
                  then err_bind (canonicalInstant t) (\<lambda>ms. Inr (Some ms)) else Inr None
      | None \<Rightarrow> Inr None)"

definition db_write :: "reminder_db \<Rightarrow> reminder \<Rightarrow> reminder_status \<Rightarrow> Id option \<Rightarrow> store_error + reminder_db" where
  "db_write db r expectedStatus expectedAttempt =
     err_bind (mirror_next_fire r) (\<lambda>nf.
       let hit = write_matches r expectedStatus expectedAttempt in
       if length (filter hit (db_reminders db)) \<noteq> 1 then Inl REMINDER_CAS_LOST
       else Inr (db\<lparr>db_reminders := map (\<lambda>w. if hit w
              then w\<lparr>row_status := rem_status r, row_next_fire_at := nf, row_data := r\<rparr> else w)
              (db_reminders db)\<rparr>))"

section \<open>The repository methods\<close>

datatype create_result = CREATED reminder | CREATE_LIMIT_REACHED int | CREATE_STOPPED

definition numbered :: "reminder_draft \<Rightarrow> int \<Rightarrow> reminder" where
  "numbered draft n = reminder_draft.extend draft (reminder.fields n)"

definition createWithinLimit ::
  "reminder_db \<Rightarrow> reminder_draft \<Rightarrow> int \<Rightarrow> Id option \<Rightarrow> store_error + (reminder_db \<times> create_result)" where
  "createWithinLimit db draft maxActive condition =
     (if invalid_limit maxActive then Inl REMINDER_LIMIT_INVALID
      else if rem_status draft \<noteq> RS_SCHEDULED then Inl REMINDER_DRAFT_INVALID
      else (case rem_next_fire_at draft of
        None \<Rightarrow> Inl REMINDER_DRAFT_INVALID
      | Some t \<Rightarrow> err_bind (canonicalInstant t) (\<lambda>nextFireAt.
          if \<not> actionWriteConditionHolds db condition then Inr (db, CREATE_STOPPED)
          else let activeCount = countActive db (rem_actor_id draft) in
          if activeCount \<ge> maxActive then Inr (db, CREATE_LIMIT_REACHED activeCount)
          else let r = numbered draft (max_display_no db (rem_actor_id draft) + 1) in
          if list_ex (\<lambda>w. row_id w = rem_id r
               \<or> (row_actor_id w = rem_actor_id r \<and> row_display_no w = rem_display_no r)) (db_reminders db)
          then Inl SQLITE_CONSTRAINT
          else Inr (db\<lparr>db_reminders := db_reminders db @
                 [\<lparr>row_id = rem_id r, row_actor_id = rem_actor_id r, row_display_no = rem_display_no r,
                   row_status = rem_status r, row_next_fire_at = Some nextFireAt, row_data = r\<rparr>]\<rparr>, CREATED r))))"

definition by_display_no :: "reminder_row list \<Rightarrow> reminder list" where
  "by_display_no ws = map row_data (sort_key row_display_no ws)"

definition listByActorStatuses :: "reminder_db \<Rightarrow> Id \<Rightarrow> reminder_status list \<Rightarrow> reminder list" where
  "listByActorStatuses db actor statuses =
     (if length statuses = 0 then []
      else by_display_no (filter (\<lambda>w. row_actor_id w = actor \<and> row_status w \<in> set statuses) (db_reminders db)))"

definition listActiveByActor :: "reminder_db \<Rightarrow> Id \<Rightarrow> reminder list" where
  "listActiveByActor db actor =
     by_display_no (filter (\<lambda>w. row_actor_id w = actor \<and> row_status w \<in> {RS_SCHEDULED, RS_FIRING}) (db_reminders db))"

definition getByDisplayNo :: "reminder_db \<Rightarrow> Id \<Rightarrow> int \<Rightarrow> reminder option" where
  "getByDisplayNo db actor displayNo = map_option row_data (findByDisplayNo db actor displayNo)"

datatype cancel_result = CANCELED reminder | CANCEL_NOT_FOUND | ALREADY_FINAL reminder | IN_FLIGHT reminder | CANCEL_STOPPED

definition domain :: "reminder_error + 'a \<Rightarrow> store_error + 'a" where
  "domain m = (case m of Inl e \<Rightarrow> Inl (Domain_error e) | Inr x \<Rightarrow> Inr x)"

definition cancel_reminder ::
  "reminder_db \<Rightarrow> Id \<Rightarrow> int \<Rightarrow> iso \<Rightarrow> Id option \<Rightarrow> store_error + (reminder_db \<times> cancel_result)" where
  "cancel_reminder db actor displayNo at condition =
     (if \<not> actionWriteConditionHolds db condition then Inr (db, CANCEL_STOPPED)
      else (case findByDisplayNo db actor displayNo of
        None \<Rightarrow> Inr (db, CANCEL_NOT_FOUND)
      | Some w \<Rightarrow>
          let current = row_data w in
          if row_status w = RS_FIRING then Inr (db, IN_FLIGHT current)
          else if row_status w \<noteq> RS_SCHEDULED then Inr (db, ALREADY_FINAL current)
          else err_bind (domain (cancelReminder current at)) (\<lambda>canceled.
            err_bind (db_write db canceled RS_SCHEDULED None) (\<lambda>db'. Inr (db', CANCELED canceled)))))"

text \<open>\<open>SELECT ... WHERE status = SCHEDULED AND next_fire_at <= ? ORDER BY next_fire_at, id LIMIT ?\<close>.\<close>

definition due_row :: "int \<Rightarrow> reminder_row \<Rightarrow> bool" where
  "due_row dueBy w \<longleftrightarrow> row_status w = RS_SCHEDULED \<and>
     (case row_next_fire_at w of None \<Rightarrow> False | Some ms \<Rightarrow> iso_text ms \<le> iso_text dueBy)"

definition next_fire_key :: "reminder_row \<Rightarrow> string" where
  "next_fire_key w = (case row_next_fire_at w of None \<Rightarrow> [] | Some ms \<Rightarrow> iso_text ms)"

definition order_by_fire :: "reminder_row list \<Rightarrow> reminder_row list" where
  "order_by_fire ws = sort_key next_fire_key (sort_key row_id ws)"

fun claim_rows :: "reminder_db \<Rightarrow> Id \<Rightarrow> iso \<Rightarrow> reminder_row list \<Rightarrow> store_error + (reminder_db \<times> reminder list)" where
  "claim_rows db attemptId now [] = Inr (db, [])"
| "claim_rows db attemptId now (w # ws) =
     err_bind (domain (claimReminder (row_data w) attemptId now)) (\<lambda>claimed.
       err_bind (db_write db claimed RS_SCHEDULED None) (\<lambda>db'.
         err_bind (claim_rows db' attemptId now ws) (\<lambda>(db'', rs). Inr (db'', claimed # rs))))"

definition claimDue :: "reminder_db \<Rightarrow> iso \<Rightarrow> int \<Rightarrow> Id \<Rightarrow> store_error + (reminder_db \<times> reminder list)" where
  "claimDue db now limit attemptId =
     (if invalid_limit limit then Inl REMINDER_LIMIT_INVALID
      else if limit = 0 then Inr (db, [])
      else err_bind (canonicalInstant now) (\<lambda>dueBy.
        claim_rows db attemptId now
          (take (nat limit) (order_by_fire (filter (due_row dueBy) (db_reminders db))))))"

datatype complete_result = COMPLETED reminder | CONFLICT

definition completeFiring ::
  "reminder_db \<Rightarrow> Id \<Rightarrow> Id \<Rightarrow> firing_completion \<Rightarrow> store_error + (reminder_db \<times> complete_result)" where
  "completeFiring db i attemptId completion =
     (case find_row db i of
        None \<Rightarrow> Inr (db, CONFLICT)
      | Some w \<Rightarrow>
          if row_status w \<noteq> RS_FIRING then Inr (db, CONFLICT)
          else let current = row_data w in
          if rem_firing_attempt_id current \<noteq> Some attemptId then Inr (db, CONFLICT)
          else err_bind (domain (applyFiringCompletion current attemptId completion)) (\<lambda>next.
            err_bind (db_write db next RS_FIRING (Some attemptId)) (\<lambda>db'. Inr (db', COMPLETED next))))"

definition listFiring :: "reminder_db \<Rightarrow> reminder list" where
  "listFiring db = map row_data (order_by_fire (filter (\<lambda>w. row_status w = RS_FIRING) (db_reminders db)))"

datatype reactivate_result =
  REACTIVATED reminder | REACTIVATE_NOT_FOUND | CHANGED reminder | REACTIVATE_LIMIT_REACHED int | REACTIVATE_STOPPED

definition reactivate ::
  "reminder_db \<Rightarrow> Id \<Rightarrow> reminder \<Rightarrow> iso \<Rightarrow> int \<Rightarrow> Id option \<Rightarrow> store_error + (reminder_db \<times> reactivate_result)" where
  "reactivate db actor next expectedUpdatedAt maxActive condition =
     (if invalid_limit maxActive then Inl REMINDER_LIMIT_INVALID
      else if rem_status next \<noteq> RS_SCHEDULED \<or> rem_next_fire_at next = None \<or> rem_actor_id next \<noteq> actor
      then Inl REMINDER_REACTIVATION_INVALID
      else err_bind (canonicalInstant (the (rem_next_fire_at next))) (\<lambda>_.
        if \<not> actionWriteConditionHolds db condition then Inr (db, REACTIVATE_STOPPED)
        else (case find (\<lambda>w. row_id w = rem_id next \<and> row_actor_id w = actor) (db_reminders db) of
          None \<Rightarrow> Inr (db, REACTIVATE_NOT_FOUND)
        | Some w \<Rightarrow>
            let current = row_data w in
            if row_status w \<noteq> RS_CANCELED \<or> rem_updated_at current \<noteq> expectedUpdatedAt
               \<or> rem_display_no current \<noteq> rem_display_no next
            then Inr (db, CHANGED current)
            else let activeCount = countActive db actor in
            if activeCount \<ge> maxActive then Inr (db, REACTIVATE_LIMIT_REACHED activeCount)
            else err_bind (db_write db next RS_CANCELED None) (\<lambda>db'. Inr (db', REACTIVATED next)))))"


section \<open>The store invariant\<close>

text \<open>The columns mirror the data, and the data is a well-formed reminder.\<close>

definition wf_row :: "reminder_row \<Rightarrow> bool" where
  "wf_row w \<longleftrightarrow>
     row_id w = rem_id (row_data w) \<and> row_actor_id w = rem_actor_id (row_data w) \<and>
     row_display_no w = rem_display_no (row_data w) \<and> 1 \<le> row_display_no w \<and>
     row_status w = rem_status (row_data w) \<and>
     mirror_next_fire (row_data w) = Inr (row_next_fire_at w) \<and> wf_reminder (row_data w)"

lemma wf_row_mirrors:
  assumes "wf_row w"
  shows "rem_status (row_data w) = row_status w" "rem_id (row_data w) = row_id w"
    "rem_actor_id (row_data w) = row_actor_id w" "rem_display_no (row_data w) = row_display_no w"
  using assms by (simp_all add: wf_row_def)

lemma wf_row_reminder: "wf_row w \<Longrightarrow> wf_reminder (row_data w)"
  by (simp add: wf_row_def)

definition wf_db :: "reminder_db \<Rightarrow> bool" where
  "wf_db db \<longleftrightarrow>
     distinct (map row_id (db_reminders db)) \<and>
     distinct (map (\<lambda>w. (row_actor_id w, row_display_no w)) (db_reminders db)) \<and>
     (\<forall>w\<in>set (db_reminders db). wf_row w)"

definition lookup_reminder :: "reminder_db \<Rightarrow> Id \<Rightarrow> reminder option" where
  "lookup_reminder db i = map_option row_data (find_row db i)"

text \<open>Replacing the data and the mirrored columns of the row of a reminder.\<close>

definition put_row :: "reminder_db \<Rightarrow> reminder \<Rightarrow> int option \<Rightarrow> reminder_db" where
  "put_row db r nf =
     db\<lparr>db_reminders := map (\<lambda>w. if row_id w = rem_id r
          then w\<lparr>row_status := rem_status r, row_next_fire_at := nf, row_data := r\<rparr> else w)
          (db_reminders db)\<rparr>"

lemma distinct_map_inj: "distinct (map f xs) \<Longrightarrow> x \<in> set xs \<Longrightarrow> y \<in> set xs \<Longrightarrow> f x = f y \<Longrightarrow> x = y"
  by (auto simp: distinct_map inj_on_def)

lemma same_row:
  "wf_db db \<Longrightarrow> v \<in> set (db_reminders db) \<Longrightarrow> w \<in> set (db_reminders db) \<Longrightarrow> row_id v = row_id w \<Longrightarrow> v = w"
  unfolding wf_db_def by (blast intro: distinct_map_inj)

lemma find_Some_iff_distinct:
  assumes "distinct (map f xs)"
  shows "find (\<lambda>x. f x = k) xs = Some x \<longleftrightarrow> x \<in> set xs \<and> f x = k"
  using assms by (induction xs) (auto simp: rev_image_eqI)

lemma find_SomeD: "find P xs = Some x \<Longrightarrow> x \<in> set xs \<and> P x"
  by (induction xs) (auto split: if_splits)

lemma find_None_iff_ball: "find P xs = None \<longleftrightarrow> (\<forall>x\<in>set xs. \<not> P x)"
  by (induction xs) auto

lemma find_row_iff:
  "wf_db db \<Longrightarrow> find_row db i = Some w \<longleftrightarrow> w \<in> set (db_reminders db) \<and> row_id w = i"
  unfolding find_row_def wf_db_def by (simp add: find_Some_iff_distinct)

lemma lookup_reminder_row:
  "wf_db db \<Longrightarrow> lookup_reminder db i = Some r \<longleftrightarrow>
     (\<exists>w\<in>set (db_reminders db). row_data w = r \<and> row_id w = i)"
  by (auto simp: lookup_reminder_def find_row_iff)

lemma lookup_reminder_wf:
  assumes "wf_db db" "lookup_reminder db i = Some r"
  obtains w where "w \<in> set (db_reminders db)" "row_data w = r" "row_id w = i" "wf_row w"
proof -
  from assms obtain w where w: "w \<in> set (db_reminders db)" "row_data w = r" "row_id w = i"
    by (auto simp: lookup_reminder_row)
  with assms(1) have "wf_row w" by (simp add: wf_db_def)
  with w that show thesis by blast
qed

lemma lookup_reminder_id: "wf_db db \<Longrightarrow> lookup_reminder db i = Some r \<Longrightarrow> rem_id r = i"
  by (erule (1) lookup_reminder_wf) (simp add: wf_row_def)

lemma wf_db_lookup: "wf_db db \<Longrightarrow> lookup_reminder db i = Some r \<Longrightarrow> wf_reminder r"
  by (erule (1) lookup_reminder_wf) (simp add: wf_row_def)

lemma filter_single:
  assumes "length (filter P xs) = 1"
  shows "\<exists>x\<in>set xs. P x \<and> (\<forall>y\<in>set xs. P y \<longrightarrow> y = x)"
proof -
  obtain x where "filter P xs = [x]"
    using assms by (auto simp: length_Suc_conv)
  then have "set (filter P xs) = {x}" by simp
  then show ?thesis by auto
qed

text \<open>A write that is not refused replaces exactly the row of its reminder.\<close>

lemma db_write_Inr:
  assumes "wf_db db" "db_write db r st att = Inr db'"
  obtains w nf where "w \<in> set (db_reminders db)" "write_matches r st att w"
    "mirror_next_fire r = Inr nf" "db' = put_row db r nf"
proof -
  let ?hit = "write_matches r st att"
  obtain nf where nf: "mirror_next_fire r = Inr nf"
    using assms(2) unfolding db_write_def err_bind_Inr_iff by blast
  have len: "length (filter ?hit (db_reminders db)) = 1"
    using assms(2) unfolding db_write_def nf err_bind_simps Let_def by (simp split: if_splits)
  have db': "db' = db\<lparr>db_reminders := map (\<lambda>w. if ?hit w
              then w\<lparr>row_status := rem_status r, row_next_fire_at := nf, row_data := r\<rparr> else w)
              (db_reminders db)\<rparr>"
    using assms(2) len unfolding db_write_def nf err_bind_simps Let_def by simp
  from filter_single [OF len]
  obtain w where w: "w \<in> set (db_reminders db)" "?hit w"
    and uniq: "\<forall>v\<in>set (db_reminders db). ?hit v \<longrightarrow> v = w" by blast
  have w_id: "row_id w = rem_id r" using w(2) by (simp add: write_matches_def)
  have "?hit v \<longleftrightarrow> row_id v = rem_id r" if v: "v \<in> set (db_reminders db)" for v
  proof
    assume "?hit v"
    with uniq v w_id show "row_id v = rem_id r" by blast
  next
    assume "row_id v = rem_id r"
    then have "v = w" by (intro same_row [OF assms(1) v w(1)]) (simp add: w_id)
    with w(2) show "?hit v" by simp
  qed
  then have "db' = put_row db r nf"
    unfolding db' put_row_def by (simp cong: map_cong)
  with that w nf show thesis by blast
qed

lemma db_write_Inr_intro:
  assumes "wf_db db" "w \<in> set (db_reminders db)" "write_matches r st att w" "mirror_next_fire r = Inr nf"
  shows "db_write db r st att = Inr (put_row db r nf)"
proof -
  let ?hit = "write_matches r st att"
  have w_id: "row_id w = rem_id r" using assms(3) by (simp add: write_matches_def)
  have eq: "?hit v \<longleftrightarrow> v = w" if v: "v \<in> set (db_reminders db)" for v
  proof
    assume "?hit v"
    then show "v = w"
      by (intro same_row [OF assms(1) v assms(2)]) (simp add: w_id write_matches_def)
  qed (use assms(3) in simp)
  have id: "?hit v \<longleftrightarrow> row_id v = rem_id r" if v: "v \<in> set (db_reminders db)" for v
    using eq [OF v] same_row [OF assms(1) v assms(2)] w_id by auto
  have "distinct (db_reminders db)" using assms(1) by (auto simp: wf_db_def distinct_map)
  then have "length (filter ?hit (db_reminders db)) = card {v \<in> set (db_reminders db). ?hit v}"
    by (simp add: distinct_card [symmetric])
  also have "{v \<in> set (db_reminders db). ?hit v} = {w}" using eq assms(2,3) by auto
  finally have "length (filter ?hit (db_reminders db)) = 1" by simp
  moreover have "map (\<lambda>v. if ?hit v then v\<lparr>row_status := rem_status r, row_next_fire_at := nf, row_data := r\<rparr> else v)
      (db_reminders db) = map (\<lambda>v. if row_id v = rem_id r
          then v\<lparr>row_status := rem_status r, row_next_fire_at := nf, row_data := r\<rparr> else v) (db_reminders db)"
    using id by (simp cong: map_cong)
  ultimately show ?thesis
    by (simp add: db_write_def assms(4) put_row_def)
qed

lemma put_row_keys:
  "map row_id (db_reminders (put_row db r nf)) = map row_id (db_reminders db)"
  "map (\<lambda>w. (row_actor_id w, row_display_no w)) (db_reminders (put_row db r nf)) =
     map (\<lambda>w. (row_actor_id w, row_display_no w)) (db_reminders db)"
  "db_actors (put_row db r nf) = db_actors db"
  by (simp_all add: put_row_def comp_def if_distrib cong: if_cong)

lemma wf_put_row:
  assumes "wf_db db" "w \<in> set (db_reminders db)" "row_id w = rem_id r"
    "rem_actor_id r = rem_actor_id (row_data w)" "rem_display_no r = rem_display_no (row_data w)"
    "mirror_next_fire r = Inr nf" "wf_reminder r"
  shows "wf_db (put_row db r nf)"
proof -
  have "wf_row (v\<lparr>row_status := rem_status r, row_next_fire_at := nf, row_data := r\<rparr>)"
    if "v \<in> set (db_reminders db)" "row_id v = rem_id r" for v
  proof -
    have "v = w" using that assms(1-3) distinct_map_inj [of row_id "db_reminders db" v w]
      by (auto simp: wf_db_def)
    with assms show ?thesis by (auto simp: wf_db_def wf_row_def)
  qed
  moreover have "\<forall>v\<in>set (db_reminders db). wf_row v" using assms(1) by (simp add: wf_db_def)
  ultimately have "\<forall>v\<in>set (db_reminders (put_row db r nf)). wf_row v"
    by (auto simp: put_row_def)
  with assms(1) show ?thesis unfolding wf_db_def put_row_keys by simp
qed

lemma find_map_same_key:
  "(\<And>x. f (g x) = f x) \<Longrightarrow> find (\<lambda>x. f x = k) (map g xs) = map_option g (find (\<lambda>x. f x = k) xs)"
  by (induction xs) auto

lemma lookup_put_row:
  "lookup_reminder (put_row db r nf) i =
     (if i = rem_id r then map_option (\<lambda>_. r) (lookup_reminder db i) else lookup_reminder db i)"
proof -
  have "find (\<lambda>w. row_id w = i) (db_reminders (put_row db r nf)) =
      map_option (\<lambda>w. if row_id w = rem_id r
          then w\<lparr>row_status := rem_status r, row_next_fire_at := nf, row_data := r\<rparr> else w)
        (find (\<lambda>w. row_id w = i) (db_reminders db))"
    by (simp add: put_row_def find_map_same_key)
  then show ?thesis
    by (cases "find (\<lambda>w. row_id w = i) (db_reminders db)")
      (auto simp: lookup_reminder_def find_row_def dest: find_SomeD)
qed


section \<open>Laws of the methods\<close>

text \<open>What a transition never changes: who the reminder is.\<close>

definition same_identity :: "reminder \<Rightarrow> reminder \<Rightarrow> bool" where
  "same_identity r r' \<longleftrightarrow>
     rem_id r = rem_id r' \<and> rem_actor_id r = rem_actor_id r' \<and> rem_display_no r = rem_display_no r'"

lemma same_identity_transitions:
  "claimReminder r a t = Inr r' \<Longrightarrow> same_identity r r'"
  "cancelReminder r t = Inr r' \<Longrightarrow> same_identity r r'"
  "applyFiringCompletion r a c = Inr r' \<Longrightarrow> same_identity r r'"
  by (auto simp: claimReminder_Inr cancelReminder_Inr same_identity_def applyFiringCompletion_def
      err_bind_Inr_iff split: if_splits)

lemma db_write_wf:
  assumes "wf_db db" "lookup_reminder db (rem_id r) = Some r0" "same_identity r0 r" "wf_reminder r"
    "db_write db r st att = Inr db'"
  shows "wf_db db'"
    and "lookup_reminder db' i = (if i = rem_id r then Some r else lookup_reminder db i)"
proof -
  obtain w nf where w: "w \<in> set (db_reminders db)" "write_matches r st att w"
    "mirror_next_fire r = Inr nf" and db': "db' = put_row db r nf"
    using assms(1,5) by (rule db_write_Inr)
  have id: "row_id w = rem_id r" using w(2) by (simp add: write_matches_def)
  obtain v where v: "v \<in> set (db_reminders db)" "row_data v = r0" "row_id v = rem_id r"
    using assms(1,2) by (rule lookup_reminder_wf) blast
  have "v = w" by (rule same_row [OF assms(1) v(1) w(1)]) (simp add: v(3) id)
  then have r0: "row_data w = r0" using v(2) by simp
  show "wf_db db'"
    unfolding db' using assms(3) r0
    by (intro wf_put_row [OF assms(1) w(1) id _ _ w(3) assms(4)]) (simp_all add: same_identity_def)
  show "lookup_reminder db' i = (if i = rem_id r then Some r else lookup_reminder db i)"
    using assms(2) by (simp add: db' lookup_put_row)
qed

lemma mirror_claimed:
  "wf_row w \<Longrightarrow> claimReminder (row_data w) a t = Inr r \<Longrightarrow> mirror_next_fire r = Inr (row_next_fire_at w)"
  by (auto simp: claimReminder_Inr wf_row_def mirror_next_fire_def split: option.splits)

text \<open>Claiming one scheduled row of a well-formed store succeeds.\<close>

lemma claim_one:
  assumes "wf_db db" "w \<in> set (db_reminders db)" "row_status w = RS_SCHEDULED"
  obtains r db' where "claimReminder (row_data w) a now = Inr r" "db_write db r RS_SCHEDULED None = Inr db'"
    "wf_db db'" "\<And>i. lookup_reminder db' i = (if i = row_id w then Some r else lookup_reminder db i)"
    "rem_id r = row_id w"
proof -
  have wf: "wf_row w" using assms by (simp add: wf_db_def)
  then obtain r where r: "claimReminder (row_data w) a now = Inr r"
    using assms(3) by (auto simp: claimReminder_Inr wf_row_def)
  have ident: "same_identity (row_data w) r" by (rule same_identity_transitions(1) [OF r])
  then have id: "rem_id r = row_id w" using wf by (simp add: same_identity_def wf_row_def)
  have "write_matches r RS_SCHEDULED None w" using id assms(3) by (simp add: write_matches_def)
  then have wr: "db_write db r RS_SCHEDULED None = Inr (put_row db r (row_next_fire_at w))"
    using assms(1,2) mirror_claimed [OF wf r] by (intro db_write_Inr_intro) auto
  have look: "lookup_reminder db (rem_id r) = Some (row_data w)"
    unfolding lookup_reminder_row [OF assms(1)] using assms(2) id [symmetric] by blast
  have "wf_reminder (row_data w)" using wf by (simp add: wf_row_def)
  then have "wf_reminder r" using r by (rule wf_claimReminder)
  note put = db_write_wf [OF assms(1) look ident this wr]
  show thesis by (rule that [OF r wr put(1) put(2) [unfolded id] id])
qed

lemma claim_rows_laws:
  assumes "wf_db db" "distinct (map row_id ws)"
    "\<forall>w\<in>set ws. row_status w = RS_SCHEDULED \<and> wf_row w \<and> lookup_reminder db (row_id w) = Some (row_data w)"
  shows "\<exists>db' rs. claim_rows db a now ws = Inr (db', rs) \<and> wf_db db' \<and>
     list_all2 (\<lambda>w r. claimReminder (row_data w) a now = Inr r) ws rs \<and>
     (\<forall>r\<in>set rs. lookup_reminder db' (rem_id r) = Some r) \<and>
     (\<forall>i. i \<notin> row_id ` set ws \<longrightarrow> lookup_reminder db' i = lookup_reminder db i)"
  using assms
proof (induction ws arbitrary: db)
  case (Cons w ws)
  obtain v where v: "v \<in> set (db_reminders db)" "row_data v = row_data w" "row_id v = row_id w" "wf_row v"
    using Cons.prems by (auto elim: lookup_reminder_wf)
  have "wf_row w" "row_status w = RS_SCHEDULED" using Cons.prems(3) by simp_all
  then have st: "row_status v = RS_SCHEDULED"
    using wf_row_mirrors(1) [of w] wf_row_mirrors(1) [OF v(4)] v(2) by simp
  obtain r db' where r: "claimReminder (row_data w) a now = Inr r" "db_write db r RS_SCHEDULED None = Inr db'"
    "wf_db db'" "\<And>i. lookup_reminder db' i = (if i = row_id w then Some r else lookup_reminder db i)"
    "rem_id r = row_id w"
    using claim_one [OF Cons.prems(1) v(1) st, of a now] v by metis
  have "\<forall>x\<in>set ws. row_status x = RS_SCHEDULED \<and> wf_row x \<and> lookup_reminder db' (row_id x) = Some (row_data x)"
  proof
    fix x assume x: "x \<in> set ws"
    then have "row_id x \<noteq> row_id w" using Cons.prems(2) by (metis distinct.simps(2) image_eqI list.map(2) list.set_map)
    with x Cons.prems(3) show "row_status x = RS_SCHEDULED \<and> wf_row x \<and>
        lookup_reminder db' (row_id x) = Some (row_data x)"
      unfolding r(4) by simp
  qed
  from Cons.IH [OF r(3) _ this] Cons.prems(2)
  obtain db'' rs where rs: "claim_rows db' a now ws = Inr (db'', rs)" "wf_db db''"
    "list_all2 (\<lambda>w r. claimReminder (row_data w) a now = Inr r) ws rs"
    "\<forall>r\<in>set rs. lookup_reminder db'' (rem_id r) = Some r"
    "\<forall>i. i \<notin> row_id ` set ws \<longrightarrow> lookup_reminder db'' i = lookup_reminder db' i"
    by auto
  have "lookup_reminder db'' (rem_id r) = Some r"
    using rs(5) r(4,5) Cons.prems(2) by auto
  with r(1,2,4,5) rs show ?case by (auto simp: domain_def)
qed auto

lemma set_order_by_fire [simp]: "set (order_by_fire ws) = set ws"
  by (simp add: order_by_fire_def)

lemma distinct_order_by_fire: "distinct (map row_id ws) \<Longrightarrow> distinct (map row_id (order_by_fire ws))"
  by (simp add: order_by_fire_def distinct_map)

text \<open>On a well-formed store a claim with a valid instant and limit always returns.\<close>

lemma claimDue_laws:
  assumes wf: "wf_db db" and now: "date_parse now = Some n" and lim: "0 < limit" "limit \<le> max_safe_integer"
  defines "due \<equiv> order_by_fire (filter (due_row n) (db_reminders db))"
  shows "\<exists>db' rs. claimDue db now limit a = Inr (db', rs) \<and> wf_db db' \<and>
     list_all2 (\<lambda>w r. claimReminder (row_data w) a now = Inr r) (take (nat limit) due) rs \<and>
     (\<forall>r\<in>set rs. lookup_reminder db' (rem_id r) = Some r) \<and>
     (\<forall>i. i \<notin> row_id ` set (take (nat limit) due) \<longrightarrow> lookup_reminder db' i = lookup_reminder db i)"
proof -
  let ?ws = "take (nat limit) due"
  have sub: "set ?ws \<subseteq> set (db_reminders db)" and st: "\<forall>w\<in>set ?ws. row_status w = RS_SCHEDULED"
    using set_take_subset [of "nat limit" due] by (auto simp: due_def due_row_def)
  have "distinct (map row_id (filter (due_row n) (db_reminders db)))"
    using wf by (simp add: wf_db_def distinct_map_filter)
  then have "distinct (map row_id ?ws)"
    unfolding take_map [symmetric] due_def by (intro distinct_take distinct_order_by_fire)
  moreover have "\<forall>w\<in>set ?ws. row_status w = RS_SCHEDULED \<and> wf_row w \<and>
      lookup_reminder db (row_id w) = Some (row_data w)"
    using sub st wf by (auto simp: lookup_reminder_row) (auto simp: wf_db_def)
  moreover have "claimDue db now limit a = claim_rows db a now ?ws"
    using lim now by (simp add: claimDue_def invalid_limit_def canonicalInstant_def due_def)
  ultimately show ?thesis using claim_rows_laws [OF wf] by simp
qed

lemma claimed_fields:
  assumes "claimReminder r0 a now = Inr r"
  shows "rem_status r = RS_FIRING" "rem_firing_attempt_id r = Some a" "rem_id r = rem_id r0"
    "rem_schedule r = rem_schedule r0" "rem_occurrence_at r = rem_occurrence_at r0"
    "rem_attempt r = rem_attempt r0" "rem_status r0 = RS_SCHEDULED" "rem_kind r = rem_kind r0"
    "rem_event r = rem_event r0"
  using assms by (auto simp: claimReminder_Inr)

text \<open>\<open>completeFiring\<close> is a compare-and-set.\<close>

lemma completeFiring_Inr:
  assumes "wf_db db" "wf_completion c" "completeFiring db i a c = Inr (db', res)"
  shows "wf_db db' \<and>
    (case res of
       CONFLICT \<Rightarrow> db' = db \<and> \<not> (\<exists>r. lookup_reminder db i = Some r \<and> rem_status r = RS_FIRING \<and>
         rem_firing_attempt_id r = Some a)
     | COMPLETED r' \<Rightarrow> \<exists>r. lookup_reminder db i = Some r \<and> rem_status r = RS_FIRING \<and>
         rem_firing_attempt_id r = Some a \<and> applyFiringCompletion r a c = Inr r' \<and>
         (\<forall>j. lookup_reminder db' j = (if j = i then Some r' else lookup_reminder db j)))"
proof (cases "find_row db i")
  case None
  with assms show ?thesis by (auto simp: completeFiring_def lookup_reminder_def)
next
  case (Some w)
  let ?r = "row_data w"
  have look: "lookup_reminder db i = Some ?r" using Some by (simp add: lookup_reminder_def)
  have w: "w \<in> set (db_reminders db)" using Some assms(1) by (simp add: find_row_iff)
  then have wf: "wf_row w" using assms(1) by (simp add: wf_db_def)
  have id: "rem_id ?r = i" by (rule lookup_reminder_id [OF assms(1) look])
  have st: "row_status w = rem_status ?r" using wf by (simp add: wf_row_def)
  show ?thesis
  proof (cases "rem_status ?r = RS_FIRING \<and> rem_firing_attempt_id ?r = Some a")
    case False
    with assms(3) Some st look assms(1) show ?thesis
      by (auto simp: completeFiring_def Let_def split: if_splits)
  next
    case True
    with assms(3) Some st obtain r' where ap: "applyFiringCompletion ?r a c = Inr r'"
      and wr: "db_write db r' RS_FIRING (Some a) = Inr db'" and res: "res = COMPLETED r'"
      by (auto simp: completeFiring_def Let_def err_bind_Inr_iff domain_def split: sum.splits)
    have ident: "same_identity ?r r'" by (rule same_identity_transitions(3) [OF ap])
    then have id': "rem_id r' = i" using id by (simp add: same_identity_def)
    have "wf_reminder r'"
      using wf assms(2) ap by (intro wf_applyFiringCompletion [of ?r c a r']) (auto simp: wf_row_def)
    from db_write_wf [OF assms(1) _ ident this wr] look id' True ap res show ?thesis
      by auto
  qed
qed

text \<open>The owner's operations: what a call that returns did.\<close>

lemma cancelReminder_fields:
  "cancelReminder r t = Inr r' \<Longrightarrow> rem_status r = RS_SCHEDULED \<and> rem_status r' = RS_CANCELED"
  by (auto simp: cancelReminder_Inr)

definition replaces_row :: "reminder_db \<Rightarrow> reminder_db \<Rightarrow> reminder \<Rightarrow> bool" where
  "replaces_row db db' r' \<longleftrightarrow>
     (\<forall>j. lookup_reminder db' j = (if j = rem_id r' then Some r' else lookup_reminder db j))"

lemma findByDisplayNo_row:
  assumes "wf_db db" "findByDisplayNo db actor no = Some w"
  shows "w \<in> set (db_reminders db)" "row_actor_id w = actor" "row_display_no w = no" "wf_row w"
    "lookup_reminder db (row_id w) = Some (row_data w)"
proof -
  show w: "w \<in> set (db_reminders db)" "row_actor_id w = actor" "row_display_no w = no"
    using assms(2) by (auto simp: findByDisplayNo_def split: if_splits dest!: find_SomeD)
  show "wf_row w" using w(1) assms(1) by (simp add: wf_db_def)
  show "lookup_reminder db (row_id w) = Some (row_data w)"
    unfolding lookup_reminder_row [OF assms(1)] using w(1) by blast
qed

lemma cancel_reminder_Inr:
  assumes wf: "wf_db db" and c: "cancel_reminder db actor no now cond = Inr (db', res)"
  shows "wf_db db' \<and> (case res of
      CANCELED r' \<Rightarrow> \<exists>r. lookup_reminder db (rem_id r') = Some r \<and> rem_actor_id r = actor \<and>
        rem_display_no r = no \<and> cancelReminder r now = Inr r' \<and> replaces_row db db' r'
    | _ \<Rightarrow> db' = db)"
proof (cases "res \<in> range CANCELED")
  case True
  then obtain r' where res: "res = CANCELED r'" by blast
  with c obtain w where w: "findByDisplayNo db actor no = Some w"
    and ca: "cancelReminder (row_data w) now = Inr r'" and wr: "db_write db r' RS_SCHEDULED None = Inr db'"
    by (auto simp: cancel_reminder_def domain_def Let_def err_bind_Inr_iff
        split: if_splits option.splits sum.splits)
  note row = findByDisplayNo_row [OF wf w]
  have ident: "same_identity (row_data w) r'" by (rule same_identity_transitions(2) [OF ca])
  then have "rem_id r' = row_id w"
    unfolding same_identity_def wf_row_mirrors(2) [OF row(4)] by (elim conjE) (rule sym)
  with row(5) have look: "lookup_reminder db (rem_id r') = Some (row_data w)" by simp
  have "wf_reminder r'" by (rule wf_cancelReminder [OF wf_row_reminder [OF row(4)] ca])
  note put = db_write_wf [OF wf look ident this wr]
  show ?thesis
    using put look ca by (simp add: res replaces_row_def wf_row_mirrors(3,4) [OF row(4)] row(2,3))
next
  case False
  with c have "db' = db"
    by (auto simp: cancel_reminder_def domain_def Let_def err_bind_Inr_iff
        split: if_splits option.splits sum.splits)
  with wf False show ?thesis by (cases res) auto
qed

lemma reactivate_Inr:
  assumes wf: "wf_db db" and nx: "wf_reminder nxt" and c: "reactivate db actor nxt expected m cond = Inr (db', res)"
  shows "wf_db db' \<and> (case res of
      REACTIVATED r' \<Rightarrow> r' = nxt \<and> (\<exists>r. lookup_reminder db (rem_id nxt) = Some r \<and> rem_status r = RS_CANCELED \<and>
        rem_updated_at r = expected \<and> same_identity r nxt) \<and> countActive db actor < m \<and> replaces_row db db' nxt
    | _ \<Rightarrow> db' = db)"
proof (cases "res \<in> range REACTIVATED")
  case True
  then obtain r' where res: "res = REACTIVATED r'" by blast
  with c obtain w where w: "find (\<lambda>w. row_id w = rem_id nxt \<and> row_actor_id w = actor) (db_reminders db) = Some w"
    and st: "row_status w = RS_CANCELED" "rem_updated_at (row_data w) = expected"
      "rem_display_no (row_data w) = rem_display_no nxt" "countActive db actor < m" "r' = nxt"
      "rem_actor_id nxt = actor"
    and wr: "db_write db nxt RS_CANCELED None = Inr db'"
    by (auto simp: reactivate_def Let_def err_bind_Inr_iff split: if_splits option.splits)
  have row: "w \<in> set (db_reminders db)" "row_id w = rem_id nxt" "row_actor_id w = actor"
    using find_SomeD [OF w] by auto
  have wfw: "wf_row w" using row(1) wf by (simp add: wf_db_def)
  note mirrors = wf_row_mirrors [OF wfw]
  have look: "lookup_reminder db (rem_id nxt) = Some (row_data w)"
    unfolding lookup_reminder_row [OF wf] using row(1,2) by blast
  have ident: "same_identity (row_data w) nxt"
    unfolding same_identity_def using mirrors row st by simp
  note put = db_write_wf [OF wf look ident nx wr]
  show ?thesis
    using put look ident st mirrors(1) by (simp add: res replaces_row_def)
next
  case False
  with c have "db' = db"
    by (auto simp: reactivate_def Let_def err_bind_Inr_iff split: if_splits option.splits)
  with wf False show ?thesis by (cases res) auto
qed

lemma fold_max_ge: "(x::int) \<in> set (n # ns) \<Longrightarrow> x \<le> fold max ns n"
  using Max_ge [of "set (n # ns)" x] by (simp add: Max.set_eq_fold [symmetric])

lemma max_display_no_ge:
  "w \<in> set (db_reminders db) \<Longrightarrow> row_actor_id w = actor \<Longrightarrow> row_display_no w \<le> max_display_no db actor"
proof -
  let ?ns = "map row_display_no (filter (\<lambda>w. row_actor_id w = actor) (db_reminders db))"
  assume "w \<in> set (db_reminders db)" "row_actor_id w = actor"
  then have w: "row_display_no w \<in> set ?ns" by auto
  show ?thesis
  proof (cases ?ns)
    case (Cons n ns)
    with w fold_max_ge [of "row_display_no w" n ns] show ?thesis
      by (simp only: max_display_no_def list.case)
  qed (use w in auto)
qed

lemma numbered_fields [simp]:
  "rem_id (numbered d n) = rem_id d" "rem_actor_id (numbered d n) = rem_actor_id d"
  "rem_display_no (numbered d n) = n" "rem_status (numbered d n) = rem_status d"
  "rem_occurrence_at (numbered d n) = rem_occurrence_at d"
  "rem_next_fire_at (numbered d n) = rem_next_fire_at d" "rem_attempt (numbered d n) = rem_attempt d"
  "rem_schedule (numbered d n) = rem_schedule d"
  by (simp_all add: numbered_def reminder_draft.defs reminder.defs)

definition adds_row :: "reminder_db \<Rightarrow> reminder_db \<Rightarrow> reminder \<Rightarrow> bool" where
  "adds_row db db' r \<longleftrightarrow> lookup_reminder db (rem_id r) = None \<and> replaces_row db db' r"

lemma find_append: "find P (xs @ ys) = (case find P xs of None \<Rightarrow> find P ys | Some x \<Rightarrow> Some x)"
  by (induction xs) auto

lemma max_display_no_nonneg: "wf_db db \<Longrightarrow> 0 \<le> max_display_no db actor"
proof -
  assume wf: "wf_db db"
  show ?thesis
  proof (cases "filter (\<lambda>w. row_actor_id w = actor) (db_reminders db)")
    case (Cons w ws)
    then have "w \<in> set (filter (\<lambda>w. row_actor_id w = actor) (db_reminders db))" by simp
    then have w: "w \<in> set (db_reminders db)" "row_actor_id w = actor" by auto
    then have "wf_row w" using wf by (simp add: wf_db_def)
    then have "1 \<le> row_display_no w" unfolding wf_row_def by (elim conjE)
    with max_display_no_ge [OF w] show ?thesis by linarith
  qed (simp add: max_display_no_def)
qed

text \<open>A new reminder takes the next free number of its actor, and never exceeds the limit.\<close>

lemma createWithinLimit_Inr:
  assumes wf: "wf_db db" and d: "createReminderDraft i = Inr d"
    and c: "createWithinLimit db d m cond = Inr (db', res)"
  shows "wf_db db' \<and> (case res of
      CREATED r \<Rightarrow> r = numbered d (max_display_no db (rem_actor_id d) + 1) \<and> adds_row db db' r \<and>
        countActive db (rem_actor_id d) < m \<and>
        countActive db' (rem_actor_id d) = countActive db (rem_actor_id d) + 1
    | _ \<Rightarrow> db' = db)"
proof (cases "res \<in> range CREATED")
  case True
  then obtain r where res: "res = CREATED r" by blast
  let ?r = "numbered d (max_display_no db (rem_actor_id d) + 1)"
  from c res obtain t nf where t: "rem_next_fire_at d = Some t" "canonicalInstant t = Inr nf"
    and st: "rem_status d = RS_SCHEDULED" and cnt: "countActive db (rem_actor_id d) < m"
    and r: "r = ?r" and fresh: "\<forall>w\<in>set (db_reminders db). row_id w \<noteq> rem_id d"
    and db': "db' = db\<lparr>db_reminders := db_reminders db @
        [\<lparr>row_id = rem_id ?r, row_actor_id = rem_actor_id ?r, row_display_no = rem_display_no ?r,
          row_status = rem_status ?r, row_next_fire_at = Some nf, row_data = ?r\<rparr>]\<rparr>"
    by (auto simp: createWithinLimit_def Let_def err_bind_Inr_iff list_ex_iff
        split: if_splits option.splits)
  have "wf_reminder ?r" using wf_createReminderDraft [OF d] by (simp add: numbered_def)
  then have row: "wf_row \<lparr>row_id = rem_id ?r, row_actor_id = rem_actor_id ?r, row_display_no = rem_display_no ?r,
      row_status = rem_status ?r, row_next_fire_at = Some nf, row_data = ?r\<rparr>"
    using max_display_no_nonneg [OF wf, of "rem_actor_id d"] t st
    by (simp add: wf_row_def mirror_next_fire_def)
  have number: "(rem_actor_id d, max_display_no db (rem_actor_id d) + 1)
      \<notin> (\<lambda>w. (row_actor_id w, row_display_no w)) ` set (db_reminders db)"
    using max_display_no_ge [of _ db "rem_actor_id d"] by fastforce
  have "wf_db db'"
    using wf row fresh number unfolding wf_db_def db' by auto
  moreover have "lookup_reminder db (rem_id d) = None"
    using fresh by (simp add: lookup_reminder_def find_row_def find_None_iff_ball)
  moreover from this have "replaces_row db db' ?r"
    unfolding replaces_row_def lookup_reminder_def find_row_def db'
    by (auto simp: find_append split: option.splits)
  moreover have "countActive db' (rem_actor_id d) = countActive db (rem_actor_id d) + 1"
    by (simp add: db' countActive_def st)
  ultimately show ?thesis using cnt by (simp add: res r adds_row_def)
next
  case False
  with c have "db' = db"
    by (auto simp: createWithinLimit_def Let_def err_bind_Inr_iff split: if_splits option.splits)
  with wf False show ?thesis by (cases res) auto
qed

text \<open>Every claimed reminder was due, and is FIRING under this attempt.\<close>

lemma claimed_rows:
  assumes "list_all2 (\<lambda>w r. claimReminder (row_data w) a now = Inr r) ws rs" "r \<in> set rs"
  obtains w where "w \<in> set ws" "claimReminder (row_data w) a now = Inr r"
  using assms that by (fastforce simp: list_all2_conv_all_nth in_set_conv_nth)

lemma claimed_keys:
  "list_all2 (\<lambda>w r. claimReminder (row_data w) a now = Inr r) ws rs \<Longrightarrow> \<forall>w\<in>set ws. wf_row w \<Longrightarrow>
   map rem_id rs = map row_id ws"
  by (induction ws rs rule: list_all2_induct) (auto simp: claimed_fields wf_row_mirrors)

lemma claimDue_Inr:
  assumes wf: "wf_db db" and c: "claimDue db (Canon n) limit a = Inr (db', rs)"
    and lim: "0 < limit" "limit \<le> max_safe_integer"
  shows "wf_db db'" "int (length rs) \<le> limit" "distinct (map rem_id rs)"
    and "r \<in> set rs \<Longrightarrow> \<exists>w\<in>set (db_reminders db). due_row n w \<and> row_id w = rem_id r \<and>
      claimReminder (row_data w) a (Canon n) = Inr r \<and> lookup_reminder db (rem_id r) = Some (row_data w)"
    and "r \<in> set rs \<Longrightarrow> lookup_reminder db' (rem_id r) = Some r"
    and "i \<notin> rem_id ` set rs \<Longrightarrow> lookup_reminder db' i = lookup_reminder db i"
proof -
  let ?ws = "take (nat limit) (order_by_fire (filter (due_row n) (db_reminders db)))"
  have sub: "\<forall>w\<in>set ?ws. w \<in> set (db_reminders db) \<and> due_row n w"
    using set_take_subset [of "nat limit" "order_by_fire (filter (due_row n) (db_reminders db))"] by auto
  have wfs: "\<forall>w\<in>set ?ws. wf_row w"
  proof
    fix w assume "w \<in> set ?ws"
    with sub have "w \<in> set (db_reminders db)" by blast
    then show "wf_row w" using wf by (simp add: wf_db_def)
  qed
  obtain db'' rs' where eq: "claimDue db (Canon n) limit a = Inr (db'', rs')" and laws': "wf_db db''"
      "list_all2 (\<lambda>w r. claimReminder (row_data w) a (Canon n) = Inr r) ?ws rs'"
      "\<forall>r\<in>set rs'. lookup_reminder db'' (rem_id r) = Some r"
      "\<forall>i. i \<notin> row_id ` set ?ws \<longrightarrow> lookup_reminder db'' i = lookup_reminder db i"
    using claimDue_laws [OF wf date_parse.simps(1) lim, of n a] by (elim exE conjE) (rule that)
  have "db'' = db'" "rs' = rs" using eq c by simp_all
  note laws = laws' [unfolded this]
  note keys = claimed_keys [OF laws(2) wfs]
  show "wf_db db'" by (rule laws(1))
  show "int (length rs) \<le> limit" using list_all2_lengthD [OF laws(2)] lim by simp
  have "distinct (map row_id (filter (due_row n) (db_reminders db)))"
    using wf by (simp add: wf_db_def distinct_map_filter)
  then show "distinct (map rem_id rs)"
    unfolding keys take_map [symmetric] by (intro distinct_take distinct_order_by_fire)
  show "lookup_reminder db' (rem_id r) = Some r" if "r \<in> set rs" using laws(3) that by blast
  show "lookup_reminder db' i = lookup_reminder db i" if "i \<notin> rem_id ` set rs"
  proof -
    have "row_id ` set ?ws = rem_id ` set rs" using keys by (metis list.set_map)
    with that laws(4) show ?thesis by simp
  qed
  show "\<exists>w\<in>set (db_reminders db). due_row n w \<and> row_id w = rem_id r \<and>
      claimReminder (row_data w) a (Canon n) = Inr r \<and> lookup_reminder db (rem_id r) = Some (row_data w)"
    if r: "r \<in> set rs"
  proof -
    obtain w where w: "w \<in> set ?ws" "claimReminder (row_data w) a (Canon n) = Inr r"
      using claimed_rows [OF laws(2) r] by blast
    then have wdb: "w \<in> set (db_reminders db)" "due_row n w" "wf_row w" using sub wfs by blast+
    have id: "row_id w = rem_id r"
      using claimed_fields(3) [OF w(2)] wf_row_mirrors(2) [OF wdb(3)] by simp
    have "lookup_reminder db (rem_id r) = Some (row_data w)"
      unfolding lookup_reminder_row [OF wf] using wdb(1) id by blast
    with wdb id w(2) show ?thesis by blast
  qed
qed

text \<open>A completion that the domain accepts is written.\<close>

lemma completeFiring_succeeds:
  assumes wf: "wf_db db" and look: "lookup_reminder db i = Some r"
    and st: "rem_status r = RS_FIRING" "rem_firing_attempt_id r = Some a"
    and ap: "applyFiringCompletion r a c = Inr r'" and nf: "mirror_next_fire r' = Inr nf"
  shows "\<exists>db'. completeFiring db i a c = Inr (db', COMPLETED r')"
proof -
  obtain w where w: "w \<in> set (db_reminders db)" "row_data w = r" "row_id w = i" "wf_row w"
    using lookup_reminder_wf [OF wf look] by blast
  have fr: "find_row db i = Some w" using w find_row_iff [OF wf] by simp
  have ws: "row_status w = RS_FIRING" using wf_row_mirrors(1) [OF w(4)] w(2) st(1) by simp
  have "rem_id r' = i"
    using same_identity_transitions(3) [OF ap] lookup_reminder_id [OF wf look] by (simp add: same_identity_def)
  then have "write_matches r' RS_FIRING (Some a) w"
    using w(2,3) ws st(2) by (simp add: write_matches_def)
  from db_write_Inr_intro [OF wf w(1) this nf]
  show ?thesis by (simp add: completeFiring_def fr ws Let_def w(2) st(2) ap domain_def)
qed

end
