(* ===== verification/Reminder_Schedule.thy ===== *)
theory Reminder_Schedule
  imports Reminder Civil_Time
begin

text \<open>
  \<open>packages/core/src/application/reminders/reminder-schedule.ts\<close>: occurrence arithmetic and the
  missed-reminder policy. \<open>Inl RangeError\<close> is the \<open>RangeError\<close> of \<open>Intl\<close> and of \<open>toISOString\<close> on
  an invalid date; \<open>Inr None\<close> is \<open>null\<close>. The zone of the reminder is the parameter \<open>z\<close>.
\<close>

datatype time_error = RangeError

section \<open>Occurrences\<close>

fun occursOn :: "reminder_schedule \<Rightarrow> local_date \<Rightarrow> bool" where
  "occursOn (ONCE t) d = False"
| "occursOn (DAILY t) d = True"
| "occursOn (WEEKLY t ws) d = (weekdayOf d \<in> set ws)"

fun schedule_time :: "reminder_schedule \<Rightarrow> local_time" where
  "schedule_time (ONCE t) = \<lparr>tm_hour = 0, tm_minute = 0\<rparr>"
| "schedule_time (DAILY t) = t"
| "schedule_time (WEEKLY t ws) = t"

definition occurrenceOn :: "zone \<Rightarrow> reminder_schedule \<Rightarrow> local_date \<Rightarrow> int" where
  "occurrenceOn z s d = fst (zonedToUtc z (mk_local d (tm_hour (schedule_time s)) (tm_minute (schedule_time s))))"

definition search_days :: "int list" where
  "search_days = [0, 1, 2, 3, 4, 5, 6, 7, 8]"

text \<open>The two search loops, over the candidate dates in the order the code visits them.\<close>

fun first_after :: "zone \<Rightarrow> reminder_schedule \<Rightarrow> int \<Rightarrow> local_date list \<Rightarrow> int option" where
  "first_after z s afterMs [] = None"
| "first_after z s afterMs (d # ds) =
     (if \<not> occursOn s d then first_after z s afterMs ds
      else if occurrenceOn z s d > afterMs then Some (occurrenceOn z s d)
      else first_after z s afterMs ds)"

fun first_at_or_before :: "zone \<Rightarrow> reminder_schedule \<Rightarrow> int \<Rightarrow> local_date list \<Rightarrow> int option" where
  "first_at_or_before z s limitMs [] = None"
| "first_at_or_before z s limitMs (d # ds) =
     (if \<not> occursOn s d then first_at_or_before z s limitMs ds
      else if occurrenceOn z s d \<le> limitMs then Some (occurrenceOn z s d)
      else first_at_or_before z s limitMs ds)"

definition iso_result :: "int option \<Rightarrow> time_error + iso option" where
  "iso_result x =
     (case x of None \<Rightarrow> Inr None
      | Some ms \<Rightarrow> (case to_iso (Some ms) of None \<Rightarrow> Inl RangeError | Some t \<Rightarrow> Inr (Some t)))"

definition nextOccurrenceAfter :: "reminder_schedule \<Rightarrow> zone \<Rightarrow> iso \<Rightarrow> time_error + iso option" where
  "nextOccurrenceAfter s z after =
     (case s of
        ONCE at \<Rightarrow> iso_result (if nan_lt (date_parse after) (date_parse at) then date_parse at else None)
      | _ \<Rightarrow> (case date_parse after of
                None \<Rightarrow> Inl RangeError
              | Some afterMs \<Rightarrow>
                  let start = addLocalDays (localDateOf z afterMs) (- 1)
                  in iso_result (first_after z s afterMs (map (addLocalDays start) search_days))))"

definition latestOccurrenceAtOrBefore :: "reminder_schedule \<Rightarrow> zone \<Rightarrow> iso \<Rightarrow> time_error + iso option" where
  "latestOccurrenceAtOrBefore s z atOrBefore =
     (case s of
        ONCE at \<Rightarrow> iso_result (if nan_le (date_parse at) (date_parse atOrBefore) then date_parse at else None)
      | _ \<Rightarrow> (case date_parse atOrBefore of
                None \<Rightarrow> Inl RangeError
              | Some limitMs \<Rightarrow>
                  let start = addLocalDays (localDateOf z limitMs) 1
                  in iso_result (first_at_or_before z s limitMs (map (\<lambda>i. addLocalDays start (- i)) search_days))))"

section \<open>The missed-reminder policy\<close>

datatype missed_decision = DELIVER iso bool | SKIP iso iso

text \<open>\<open>isLate\<close>: comparisons with \<open>NaN\<close> are false.\<close>

definition is_late :: "int option \<Rightarrow> int option \<Rightarrow> bool" where
  "is_late nowMs occurrenceMs = nan_lt (map_option (\<lambda>o'. o' + lateLabelAfterMs) occurrenceMs) nowMs"

definition iso_or_range :: "int option \<Rightarrow> time_error + iso" where
  "iso_or_range x = (case to_iso x of None \<Rightarrow> Inl RangeError | Some t \<Rightarrow> Inr t)"

text \<open>\<open>Math.max\<close>, \<open>NaN\<close> if either side is.\<close>

definition nan_max :: "int option \<Rightarrow> int option \<Rightarrow> int option" where
  "nan_max a b = (case (a, b) of (Some x, Some y) \<Rightarrow> Some (max x y) | _ \<Rightarrow> None)"

definition decideMissedOccurrence ::
  "reminder_schedule \<Rightarrow> zone \<Rightarrow> iso \<Rightarrow> iso \<Rightarrow> time_error + missed_decision" where
  "decideMissedOccurrence s z occurrenceAt now =
     (let nowMs = date_parse now; occurrenceMs = date_parse occurrenceAt in
      if is_once s
      then err_bind (iso_or_range occurrenceMs) (\<lambda>t. Inr (DELIVER t (is_late nowMs occurrenceMs)))
      else err_bind (latestOccurrenceAtOrBefore s z now) (\<lambda>latest.
        let dueMs = (case latest of None \<Rightarrow> occurrenceMs | Some l \<Rightarrow> nan_max occurrenceMs (date_parse l)) in
        if nan_le nowMs (map_option (\<lambda>d. d + recurringCatchUpGraceMs) dueMs)
        then err_bind (iso_or_range dueMs) (\<lambda>t. Inr (DELIVER t (is_late nowMs dueMs)))
        else err_bind (nextOccurrenceAfter s z now) (\<lambda>next.
          case next of None \<Rightarrow> Inl RangeError
          | Some n \<Rightarrow> err_bind (iso_or_range dueMs) (\<lambda>t. Inr (SKIP t n)))))"

section \<open>Laws of the searches, in any zone\<close>

lemma first_after_SomeD:
  "first_after z s a ds = Some t \<Longrightarrow> a < t \<and> (\<exists>d\<in>set ds. occursOn s d \<and> t = occurrenceOn z s d)"
  by (induction ds) (auto split: if_splits)

lemma first_after_None_iff:
  "first_after z s a ds = None \<longleftrightarrow> (\<forall>d\<in>set ds. occursOn s d \<longrightarrow> occurrenceOn z s d \<le> a)"
  by (induction ds) auto

text \<open>If occurrences ascend along the dates, the first hit is the least.\<close>

lemma first_after_least:
  assumes "first_after z s a ds = Some t" "d \<in> set ds" "occursOn s d" "a < occurrenceOn z s d"
    and "sorted_wrt (\<lambda>x y. occurrenceOn z s x \<le> occurrenceOn z s y) ds"
  shows "t \<le> occurrenceOn z s d"
  using assms by (induction ds) (auto split: if_splits)

lemma first_at_or_before_SomeD:
  "first_at_or_before z s a ds = Some t \<Longrightarrow> t \<le> a \<and> (\<exists>d\<in>set ds. occursOn s d \<and> t = occurrenceOn z s d)"
  by (induction ds) (auto split: if_splits)

lemma first_at_or_before_None_iff:
  "first_at_or_before z s a ds = None \<longleftrightarrow> (\<forall>d\<in>set ds. occursOn s d \<longrightarrow> a < occurrenceOn z s d)"
  by (induction ds) auto

lemma first_at_or_before_greatest:
  assumes "first_at_or_before z s a ds = Some t" "d \<in> set ds" "occursOn s d" "occurrenceOn z s d \<le> a"
    and "sorted_wrt (\<lambda>x y. occurrenceOn z s y \<le> occurrenceOn z s x) ds"
  shows "occurrenceOn z s d \<le> t"
  using assms by (induction ds) (auto split: if_splits)

lemma iso_result_Some_iff:
  "iso_result x = Inr (Some t) \<longleftrightarrow> (\<exists>ms. x = Some ms \<and> t = Canon ms \<and> \<bar>ms\<bar> \<le> max_time)"
  by (auto simp: iso_result_def to_iso_def split: option.splits if_splits)

lemma iso_result_None_iff: "iso_result x = Inr None \<longleftrightarrow> x = None"
  by (auto simp: iso_result_def to_iso_def split: option.splits if_splits)

lemma nextOccurrenceAfter_recurring:
  "isRecurringSchedule s \<Longrightarrow> date_parse after = Some a \<Longrightarrow>
   nextOccurrenceAfter s z after =
     iso_result (first_after z s a (map (addLocalDays (addLocalDays (localDateOf z a) (- 1))) search_days))"
  by (cases s) (simp_all add: nextOccurrenceAfter_def Let_def)

lemma latestOccurrence_recurring:
  "isRecurringSchedule s \<Longrightarrow> date_parse at = Some a \<Longrightarrow>
   latestOccurrenceAtOrBefore s z at =
     iso_result (first_at_or_before z s a
       (map (\<lambda>i. addLocalDays (addLocalDays (localDateOf z a) 1) (- i)) search_days))"
  by (cases s) (simp_all add: latestOccurrenceAtOrBefore_def Let_def)

lemma nextOccurrenceAfter_later:
  assumes "nextOccurrenceAfter s z after = Inr (Some t)"
  shows "nan_lt (date_parse after) (date_parse t)"
proof (cases "isRecurringSchedule s")
  case True
  then obtain a where a: "date_parse after = Some a"
    using assms by (cases s) (auto simp: nextOccurrenceAfter_def split: option.splits)
  with assms True first_after_SomeD show ?thesis
    by (fastforce simp: nextOccurrenceAfter_recurring iso_result_Some_iff)
next
  case False
  with assms show ?thesis
    by (cases s) (auto simp: nextOccurrenceAfter_def iso_result_Some_iff split: if_splits)
qed

lemma latestOccurrence_not_later:
  assumes "latestOccurrenceAtOrBefore s z at = Inr (Some t)"
  shows "nan_le (date_parse t) (date_parse at)"
proof (cases "isRecurringSchedule s")
  case True
  then obtain a where a: "date_parse at = Some a"
    using assms by (cases s) (auto simp: latestOccurrenceAtOrBefore_def split: option.splits)
  with assms True first_at_or_before_SomeD show ?thesis
    by (fastforce simp: latestOccurrence_recurring iso_result_Some_iff)
next
  case False
  with assms show ?thesis
    by (cases s) (auto simp: latestOccurrenceAtOrBefore_def iso_result_Some_iff split: if_splits)
qed

section \<open>Laws of the searches in a zone with one offset\<close>

text \<open>The dates a schedule can meet: day numbers after the year 101.\<close>

definition late_day :: "int \<Rightarrow> bool" where
  "late_day n \<longleftrightarrow> day_from_year 102 \<le> n"

lemma late_day_proper: "late_day n \<Longrightarrow> proper_date (date_of_day n) \<and> 101 \<le> ld_year (date_of_day n)"
proof -
  assume "late_day n"
  then have "102 \<le> year_of_day n" by (auto simp: late_day_def intro: year_of_day_ge)
  then show ?thesis by (simp add: proper_date_of_day date_of_day_sel)
qed

lemma late_day_inverse: "late_day n \<Longrightarrow> day_no (date_of_day n) = n"
proof -
  assume "late_day n"
  then have "102 \<le> year_of_day n" by (auto simp: late_day_def intro: year_of_day_ge)
  then show ?thesis by (intro day_no_date_of_day) auto
qed

lemma occurrenceOn_fixed:
  assumes "late_day n" "isValidLocalTime (schedule_time s)" "\<bar>off\<bar> \<le> 1440"
  shows "occurrenceOn (fixed_zone off) s (date_of_day n) =
    n * ms_per_day + (60 * tm_hour (schedule_time s) + tm_minute (schedule_time s) - off) * ms_per_minute"
proof -
  let ?l = "mk_local (date_of_day n) (tm_hour (schedule_time s)) (tm_minute (schedule_time s))"
  have D: "mk_date (ld_year ?l) (ld_month ?l) (ld_day ?l) = date_of_day n"
    by (simp add: mk_local_def mk_date_def date_of_day_parts)
  have "proper_local ?l"
    using assms(2) late_day_proper [OF assms(1)] D
    by (simp add: proper_local_def isValidLocalTime_def) (simp add: mk_local_def)
  then have "occurrenceOn (fixed_zone off) s (date_of_day n) = wall_as_utc ?l - off * ms_per_minute"
    unfolding occurrenceOn_def using zonedToUtc_fixed assms(3) by simp
  also have "wall_as_utc ?l = n * ms_per_day +
      (60 * tm_hour (schedule_time s) + tm_minute (schedule_time s)) * ms_per_minute"
    unfolding wall_as_utc_eq local_day_def D
    using late_day_inverse [OF assms(1)] by (simp add: minute_of_day_def mk_local_def)
  finally show ?thesis by (simp add: bound_simps)
qed

lemma dates_from:
  assumes "late_day (n - 9)"
  shows "map (addLocalDays (addLocalDays (date_of_day n) (- 1))) search_days =
      map date_of_day [n - 1, n, n + 1, n + 2, n + 3, n + 4, n + 5, n + 6, n + 7]"
    and "map (\<lambda>i. addLocalDays (addLocalDays (date_of_day n) 1) (- i)) search_days =
      map date_of_day [n + 1, n, n - 1, n - 2, n - 3, n - 4, n - 5, n - 6, n - 7]"
  using late_day_inverse [of n] late_day_inverse [of "n - 1"] late_day_inverse [of "n + 1"] assms
  by (simp_all add: addLocalDays_day_no search_days_def late_day_def add.commute)


text \<open>The instants at which a schedule occurs, read off the local day and the time of day.\<close>

definition time_of_day_ms :: "reminder_schedule \<Rightarrow> int" where
  "time_of_day_ms s = (60 * tm_hour (schedule_time s) + tm_minute (schedule_time s)) * ms_per_minute"

definition is_occurrence :: "int \<Rightarrow> reminder_schedule \<Rightarrow> int \<Rightarrow> bool" where
  "is_occurrence off s t \<longleftrightarrow>
     occursOn s (date_of_day (utc_day (t + off * ms_per_minute))) \<and>
     (t + off * ms_per_minute) mod ms_per_day = time_of_day_ms s"

definition nth_occurrence :: "int \<Rightarrow> reminder_schedule \<Rightarrow> int \<Rightarrow> int" where
  "nth_occurrence off s n = n * ms_per_day + time_of_day_ms s - off * ms_per_minute"

lemma time_of_day_range:
  "isValidLocalTime (schedule_time s) \<Longrightarrow> 0 \<le> time_of_day_ms s \<and> time_of_day_ms s < ms_per_day"
  by (auto simp: isValidLocalTime_def time_of_day_ms_def bound_simps)

lemma is_occurrence_iff:
  assumes "isValidLocalTime (schedule_time s)"
  shows "is_occurrence off s t \<longleftrightarrow> (\<exists>n. occursOn s (date_of_day n) \<and> t = nth_occurrence off s n)"
proof
  assume occ: "is_occurrence off s t"
  have "t + off * ms_per_minute
      = utc_day (t + off * ms_per_minute) * ms_per_day + (t + off * ms_per_minute) mod ms_per_day"
    unfolding utc_day_def by (rule div_mult_mod_eq [symmetric])
  with occ show "\<exists>n. occursOn s (date_of_day n) \<and> t = nth_occurrence off s n"
    unfolding is_occurrence_def nth_occurrence_def
    by (intro exI [of _ "utc_day (t + off * ms_per_minute)"]) linarith
next
  assume "\<exists>n. occursOn s (date_of_day n) \<and> t = nth_occurrence off s n"
  then obtain n where n: "occursOn s (date_of_day n)" "t = nth_occurrence off s n" by blast
  have t: "t + off * ms_per_minute = n * ms_per_day + time_of_day_ms s"
    using n by (simp add: nth_occurrence_def)
  have "utc_day (n * ms_per_day + time_of_day_ms s) = n"
    by (rule utc_day_of_days) (use time_of_day_range [OF assms] in auto)
  moreover have "(n * ms_per_day + time_of_day_ms s) mod ms_per_day = time_of_day_ms s"
    using time_of_day_range [OF assms] by simp
  ultimately show "is_occurrence off s t"
    using n(1) by (simp add: is_occurrence_def t)
qed

lemma isValidReminderSchedule_time:
  "isValidReminderSchedule s \<Longrightarrow> isRecurringSchedule s \<Longrightarrow> isValidLocalTime (schedule_time s)"
  by (cases s) (auto split: if_splits)

text \<open>Every window of seven consecutive days holds a day of a valid recurring schedule.\<close>

lemma occursOn_weekly_window:
  assumes "isValidReminderSchedule s" "isRecurringSchedule s" "late_day m"
  shows "\<exists>k. m \<le> k \<and> k \<le> m + 6 \<and> occursOn s (date_of_day k)"
proof (cases s)
  case (WEEKLY t ws)
  with assms obtain w where w: "w \<in> set ws" "0 \<le> w" "w \<le> 6"
    by (cases ws) (auto simp: weekdays_ok_iff split: if_splits)
  let ?k = "m + (w - 4 - m) mod 7"
  have "0 \<le> (w - 4 - m) mod 7" "(w - 4 - m) mod 7 < 7" by simp_all
  then have k: "m \<le> ?k" "?k \<le> m + 6" by linarith+
  then have "late_day ?k" using assms(3) by (simp add: late_day_def)
  then have "weekdayOf (date_of_day ?k) = (4 + ?k) mod 7"
    by (simp add: weekdayOf_day_no late_day_inverse)
  also have "\<dots> = (4 + m + (w - 4 - m)) mod 7"
    by (simp only: add.assoc [symmetric] mod_add_right_eq)
  also have "\<dots> = w" using w by simp
  finally show ?thesis using k w WEEKLY by (intro exI [of _ ?k]) simp
qed (use assms in \<open>auto intro: exI [of _ m]\<close>)

text \<open>What the searches look at, for an instant \<open>a\<close> whose local day is \<open>n\<close>.\<close>

lemma search_dates_fixed:
  fixes off a :: int
  defines "n \<equiv> utc_day (a + off * ms_per_minute)"
  assumes "0 \<le> a" "\<bar>off\<bar> \<le> 1440"
  shows "late_day (n - 9)"
    and "n * ms_per_day \<le> a + off * ms_per_minute" "a + off * ms_per_minute < (n + 1) * ms_per_day"
    and "localDateOf (fixed_zone off) a = date_of_day n"
proof -
  show lo: "n * ms_per_day \<le> a + off * ms_per_minute"
    and "a + off * ms_per_minute < (n + 1) * ms_per_day"
    unfolding n_def utc_day_def
    using int_div_bounds [of ms_per_day "a + off * ms_per_minute"] by (auto simp: bound_simps mult.commute)
  have "- 86400000 \<le> a + off * 60000"
    using assms(2,3) unfolding abs_le_iff by linarith
  then have "(- 1 * 86400000) div 86400000 \<le> (a + off * 60000) div 86400000"
    by (intro zdiv_mono1) auto
  then have "- 1 \<le> n" by (simp add: n_def utc_day_def bound_simps)
  then show "late_day (n - 9)" by (simp add: late_day_def day_from_year_def)
  show "localDateOf (fixed_zone off) a = date_of_day n"
    by (simp add: fixed_zone_local_date n_def)
qed

lemma next_fixed:
  assumes s: "isValidReminderSchedule s" "isRecurringSchedule s" and off: "\<bar>off\<bar> \<le> 1440"
    and a: "0 \<le> a" "a + 9 * ms_per_day \<le> max_time" and p: "date_parse after = Some a"
  shows "\<exists>t. nextOccurrenceAfter s (fixed_zone off) after = Inr (Some (Canon t)) \<and> a < t \<and>
    is_occurrence off s t \<and> (\<forall>u. a < u \<and> u < t \<longrightarrow> \<not> is_occurrence off s u)"
proof -
  define n where "n = utc_day (a + off * ms_per_minute)"
  let ?z = "fixed_zone off" and ?M = "ms_per_minute" and ?D = ms_per_day
  let ?ns = "[n - 1, n, n + 1, n + 2, n + 3, n + 4, n + 5, n + 6, n + 7]"
  let ?ds = "map date_of_day ?ns"
  note loc = search_dates_fixed [OF a(1) off, folded n_def]
  have D: "0 < ?D" by (simp add: bound_simps)
  have v: "isValidLocalTime (schedule_time s)" by (rule isValidReminderSchedule_time [OF s])
  note tod = time_of_day_range [OF v]
  have late: "late_day k" if "n - 9 \<le> k" for k using loc(1) that by (simp add: late_day_def)
  have occ: "occurrenceOn ?z s (date_of_day k) = nth_occurrence off s k" if "n - 9 \<le> k" for k
    using occurrenceOn_fixed [OF late [OF that] v off]
    by (simp add: nth_occurrence_def time_of_day_ms_def algebra_simps)
  have mono: "nth_occurrence off s j < nth_occurrence off s k \<longleftrightarrow> j < k" for j k
    using D by (simp add: nth_occurrence_def)
  have res: "nextOccurrenceAfter s ?z after = iso_result (first_after ?z s a ?ds)"
    unfolding nextOccurrenceAfter_recurring [OF s(2) p] loc(4) dates_from(1) [OF loc(1)] ..
  have after_day: "a < nth_occurrence off s k" if "n + 1 \<le> k" for k
  proof -
    have "(n + 1) * ?D \<le> k * ?D" using that D by simp
    with loc(3) tod show ?thesis unfolding nth_occurrence_def by linarith
  qed
  obtain k where k: "n + 1 \<le> k" "k \<le> n + 7" "occursOn s (date_of_day k)"
    using occursOn_weekly_window [OF s late, of "n + 1"] by auto
  then have "k \<in> set ?ns" by auto
  then have kd: "date_of_day k \<in> set ?ds" unfolding set_map by (rule imageI)
  have "first_after ?z s a ?ds \<noteq> None"
  proof
    assume "first_after ?z s a ?ds = None"
    then have "occurrenceOn ?z s (date_of_day k) \<le> a"
      using kd k(3) unfolding first_after_None_iff by blast
    with k(1) occ [of k] after_day [of k] show False by simp
  qed
  then obtain t where t: "first_after ?z s a ?ds = Some t" by blast
  obtain j where j: "j \<in> set ?ns" "occursOn s (date_of_day j)" "t = nth_occurrence off s j" and at: "a < t"
    using first_after_SomeD [OF t] occ by fastforce
  have "t \<le> a + 9 * ?D"
  proof -
    have "j * ?D \<le> (n + 7) * ?D" using j(1) D by (intro mult_right_mono) auto
    then show ?thesis using j(3) loc(2) tod D by (simp add: nth_occurrence_def algebra_simps)
  qed
  with at a have "nextOccurrenceAfter s ?z after = Inr (Some (Canon t))"
    unfolding res t iso_result_Some_iff by simp
  moreover have "is_occurrence off s t"
    using j by (auto simp: is_occurrence_iff [OF v])
  moreover have "\<not> is_occurrence off s u" if u: "a < u" "u < t" for u
  proof
    assume "is_occurrence off s u"
    then obtain m where m: "occursOn s (date_of_day m)" "u = nth_occurrence off s m"
      by (auto simp: is_occurrence_iff [OF v])
    have "n * ?D < (m + 1) * ?D"
      using u(1) loc(2) m(2) tod by (simp add: nth_occurrence_def algebra_simps)
    then have "n \<le> m" using D by simp
    moreover have "m < n + 7" using u(2) m(2) j mono [of m j] by auto
    ultimately have "m \<in> set ?ns" by auto
    moreover have "sorted_wrt (\<lambda>x y. occurrenceOn ?z s x \<le> occurrenceOn ?z s y) ?ds"
      using occ mono by (simp add: less_imp_le)
    ultimately have "t \<le> u"
      using first_after_least [OF t, of "date_of_day m"] m occ [of m] u(1) by auto
    with u(2) show False by simp
  qed
  ultimately show ?thesis using at by blast
qed


lemma latest_fixed:
  assumes s: "isValidReminderSchedule s" "isRecurringSchedule s" and off: "\<bar>off\<bar> \<le> 1440"
    and a: "0 \<le> a" "a \<le> max_time" and p: "date_parse at = Some a"
  shows "\<exists>t. latestOccurrenceAtOrBefore s (fixed_zone off) at = Inr (Some (Canon t)) \<and> t \<le> a \<and>
    is_occurrence off s t \<and> (\<forall>u. t < u \<and> u \<le> a \<longrightarrow> \<not> is_occurrence off s u)"
proof -
  define n where "n = utc_day (a + off * ms_per_minute)"
  let ?z = "fixed_zone off" and ?M = "ms_per_minute" and ?D = ms_per_day
  let ?ns = "[n + 1, n, n - 1, n - 2, n - 3, n - 4, n - 5, n - 6, n - 7]"
  let ?ds = "map date_of_day ?ns"
  note loc = search_dates_fixed [OF a(1) off, folded n_def]
  have D: "0 < ?D" by (simp add: bound_simps)
  have v: "isValidLocalTime (schedule_time s)" by (rule isValidReminderSchedule_time [OF s])
  note tod = time_of_day_range [OF v]
  have late: "late_day k" if "n - 9 \<le> k" for k using loc(1) that by (simp add: late_day_def)
  have occ: "occurrenceOn ?z s (date_of_day k) = nth_occurrence off s k" if "n - 9 \<le> k" for k
    using occurrenceOn_fixed [OF late [OF that] v off]
    by (simp add: nth_occurrence_def time_of_day_ms_def algebra_simps)
  have mono: "nth_occurrence off s j < nth_occurrence off s k \<longleftrightarrow> j < k" for j k
    using D by (simp add: nth_occurrence_def)
  have res: "latestOccurrenceAtOrBefore s ?z at = iso_result (first_at_or_before ?z s a ?ds)"
    unfolding latestOccurrence_recurring [OF s(2) p] loc(4) dates_from(2) [OF loc(1)] ..
  have before_day: "nth_occurrence off s k \<le> a" if "k \<le> n - 1" for k
  proof -
    have "(k + 1) * ?D \<le> n * ?D" using that D by simp
    then have "k * ?D + ?D \<le> n * ?D" by (simp add: distrib_right)
    with loc(2) tod show ?thesis unfolding nth_occurrence_def by linarith
  qed
  obtain k where k: "n - 7 \<le> k" "k \<le> n - 1" "occursOn s (date_of_day k)"
    using occursOn_weekly_window [OF s late, of "n - 7"] by auto
  then have "k \<in> set ?ns" by auto
  then have kd: "date_of_day k \<in> set ?ds" unfolding set_map by (rule imageI)
  have "first_at_or_before ?z s a ?ds \<noteq> None"
  proof
    assume "first_at_or_before ?z s a ?ds = None"
    then have "a < occurrenceOn ?z s (date_of_day k)"
      using kd k(3) unfolding first_at_or_before_None_iff by blast
    with k(1,2) occ [of k] before_day [of k] show False by simp
  qed
  then obtain t where t: "first_at_or_before ?z s a ?ds = Some t" by blast
  obtain j where j: "j \<in> set ?ns" "occursOn s (date_of_day j)" "t = nth_occurrence off s j" and at: "t \<le> a"
    using first_at_or_before_SomeD [OF t] occ by fastforce
  have "- 9 * ?D \<le> t"
  proof -
    have "(n - 7) * ?D \<le> j * ?D" using j(1) D by (intro mult_right_mono) auto
    moreover have "n * ?D + ?D > a + off * ?M" using loc(3) by (simp add: distrib_right)
    ultimately show ?thesis using j(3) tod a(1) unfolding nth_occurrence_def left_diff_distrib by linarith
  qed
  with at a have "\<bar>t\<bar> \<le> max_time" by (simp add: bound_simps)
  then have "latestOccurrenceAtOrBefore s ?z at = Inr (Some (Canon t))"
    unfolding res t iso_result_Some_iff by simp
  moreover have "is_occurrence off s t"
    using j by (auto simp: is_occurrence_iff [OF v])
  moreover have "\<not> is_occurrence off s u" if u: "t < u" "u \<le> a" for u
  proof
    assume "is_occurrence off s u"
    then obtain m where m: "occursOn s (date_of_day m)" "u = nth_occurrence off s m"
      by (auto simp: is_occurrence_iff [OF v])
    have "m * ?D < (n + 1) * ?D"
      using u(2) loc(3) m(2) tod unfolding nth_occurrence_def by linarith
    then have "m \<le> n" using D by simp
    moreover have "n - 7 < m" using u(1) m(2) j mono [of j m] by auto
    ultimately have "m \<in> set ?ns" by auto
    moreover have "sorted_wrt (\<lambda>x y. occurrenceOn ?z s y \<le> occurrenceOn ?z s x) ?ds"
      using occ mono by (simp add: less_imp_le)
    ultimately have "u \<le> t"
      using first_at_or_before_greatest [OF t, of "date_of_day m"] m occ [of m] u(2) by auto
    with u(1) show False by simp
  qed
  ultimately show ?thesis using at by blast
qed

section \<open>Laws of the missed-reminder policy\<close>

lemma decide_once:
  "decideMissedOccurrence (ONCE at) z (Canon o') (Canon n) =
     (if \<bar>o'\<bar> \<le> max_time then Inr (DELIVER (Canon o') (n - o' > lateLabelAfterMs)) else Inl RangeError)"
  by (auto simp: decideMissedOccurrence_def iso_or_range_def to_iso_def is_late_def Let_def)

lemma decide_deliver:
  assumes "isRecurringSchedule s" "decideMissedOccurrence s z (Canon o') (Canon n) = Inr (DELIVER t late)"
  shows "\<exists>d. t = Canon d \<and> o' \<le> d \<and> n - d \<le> recurringCatchUpGraceMs \<and> (d = o' \<or> d \<le> n) \<and>
    (late \<longleftrightarrow> n - d > lateLabelAfterMs)"
proof -
  from assms obtain l where l: "latestOccurrenceAtOrBefore s z (Canon n) = Inr l"
    by (cases s) (auto simp: decideMissedOccurrence_def Let_def err_bind_Inr_iff)
  define due where "due = (case l of None \<Rightarrow> Some o' | Some t' \<Rightarrow> nan_max (Some o') (date_parse t'))"
  have "nan_le (Some n) (map_option (\<lambda>d. d + recurringCatchUpGraceMs) due)"
    and t: "iso_or_range due = Inr t" and late: "late = is_late (Some n) due"
    using assms l
    by (cases s; auto simp: decideMissedOccurrence_def Let_def due_def err_bind_Inr_iff
        split: if_splits option.splits)+
  then obtain d where d: "due = Some d" "n \<le> d + recurringCatchUpGraceMs"
    by (cases due) auto
  have "t = Canon d" using t d(1) by (auto simp: iso_or_range_def to_iso_def split: if_splits)
  moreover have "o' \<le> d \<and> (d = o' \<or> d \<le> n)"
    using d(1) latestOccurrence_not_later [of s z "Canon n"] l
    by (auto simp: due_def nan_max_def max_def nan_le_def split: option.splits if_splits)
  ultimately show ?thesis using d late by (auto simp: is_late_def)
qed

lemma decide_skip:
  assumes "decideMissedOccurrence s z (Canon o') (Canon n) = Inr (SKIP sk nx)"
  shows "isRecurringSchedule s \<and> (\<exists>d. sk = Canon d \<and> o' \<le> d \<and> n - d > recurringCatchUpGraceMs) \<and>
    nan_lt (Some n) (date_parse nx)"
proof -
  have r: "\<not> is_once s"
    using assms by (auto simp: decideMissedOccurrence_def Let_def err_bind_Inr_iff)
  from assms r obtain l where l: "latestOccurrenceAtOrBefore s z (Canon n) = Inr l"
    by (auto simp: decideMissedOccurrence_def Let_def err_bind_Inr_iff)
  define due where "due = (case l of None \<Rightarrow> Some o' | Some t' \<Rightarrow> nan_max (Some o') (date_parse t'))"
  have c: "\<not> nan_le (Some n) (map_option (\<lambda>d. d + recurringCatchUpGraceMs) due)"
    and nx: "nextOccurrenceAfter s z (Canon n) = Inr (Some nx)" and sk: "iso_or_range due = Inr sk"
    using assms l r
    by (auto simp: decideMissedOccurrence_def Let_def due_def err_bind_Inr_iff
        split: if_splits option.splits)
  from sk obtain d where d: "due = Some d" "sk = Canon d"
    by (auto simp: iso_or_range_def to_iso_def split: option.splits if_splits)
  have "o' \<le> d"
    using d(1) by (auto simp: due_def nan_max_def split: option.splits)
  with d c r nextOccurrenceAfter_later [OF nx] show ?thesis
    by (auto simp: once_iff_not_recurring)
qed

text \<open>In a fixed zone the decision never fails.\<close>

lemma decide_total_fixed:
  assumes s: "isValidReminderSchedule s" "isRecurringSchedule s" and off: "\<bar>off\<bar> \<le> 1440"
    and n: "0 \<le> n" "n + 9 * ms_per_day \<le> max_time" and c: "\<bar>c\<bar> \<le> max_time"
  shows "\<exists>dec. decideMissedOccurrence s (fixed_zone off) (Canon c) (Canon n) = Inr dec"
proof -
  have once: "\<not> is_once s" using s(2) by (simp add: once_iff_not_recurring)
  have nmax: "n \<le> max_time" using n by (simp add: bound_simps)
  obtain t where t: "latestOccurrenceAtOrBefore s (fixed_zone off) (Canon n) = Inr (Some (Canon t))"
    using latest_fixed [OF s off n(1) nmax, of "Canon n"] by auto
  then have "\<bar>t\<bar> \<le> max_time"
    using s(2) by (auto simp: latestOccurrence_recurring iso_result_Some_iff)
  then have "\<bar>max c t\<bar> \<le> max_time" using c by (simp add: max_def)
  moreover obtain u where "nextOccurrenceAfter s (fixed_zone off) (Canon n) = Inr (Some (Canon u))"
    using next_fixed [OF s off n, of "Canon n"] by auto
  ultimately show ?thesis
    using once t by (simp add: decideMissedOccurrence_def Let_def nan_max_def iso_or_range_def)
qed

end
