(* ===== verification/Reminder_Dispatch.thy ===== *)
theory Reminder_Dispatch
  imports Reminder_Store Reminder_Schedule
begin

text \<open>
  \<open>packages/core/src/application/reminders/reminder-dispatch-service.ts\<close>: the bounded dispatch of due
  reminders and the startup recovery.

  A method of the service is a function on a \<open>tick\<close> (the database, the deliveries handed to the
  sink so far, the summary) that returns a thrown error or a value, with the tick as it is then.
  What is outside the service is the \<open>dispatch_env\<close>: the zone database, the sink, the calendar
  re-check, the surface check, whether a repository call loses its lock, and \<open>shouldContinue\<close>.
  A rejected promise is \<open>None\<close>. Texts are the composer's call with its arguments (\<open>message\<close>).
\<close>

section \<open>Data\<close>

datatype event_note = Note_none | Note_unverified | Note_moved_earlier

datatype message =
  Delivery_text int js_string iso bool string iso
  | Brief_text iso string "reminder list" Id iso bool
  | Event_delivery_text int js_string iso int event_note iso bool string iso
  | Event_canceled_text int js_string bool
  | With_withheld_note message

record notification =
  nt_reminder :: Id
  nt_occurrence :: iso
  nt_attempt :: nat
  nt_target :: conversation_context
  nt_kind :: reminder_body_kind
  nt_text :: message
  nt_recheck_dm :: "message option"

record calendar_event =
  ce_title :: js_string
  ce_start :: iso
  ce_all_day :: bool

datatype recheck = Found calendar_event | Gone | Unreadable_event

datatype surface_group = Group_reminder | Group_calendar

type_synonym sent_log = "(notification \<times> delivery_outcome) list"

record dispatch_env =
  env_zone :: "string \<Rightarrow> zone"
  env_sink :: "sent_log \<Rightarrow> notification \<Rightarrow> delivery_outcome option"
  env_calendar :: "(event_ref \<Rightarrow> iso \<Rightarrow> iso \<Rightarrow> recheck option) option"
  env_surface :: "(conversation_context \<Rightarrow> Id \<Rightarrow> surface_group list \<Rightarrow> bool option) option"
  env_busy :: "Id \<Rightarrow> bool"
  env_claim_busy :: bool
  env_continue :: "nat \<Rightarrow> bool"

record dispatch_summary =
  sm_claimed :: nat
  sm_delivered :: nat
  sm_delivered_late :: nat
  sm_via_dm :: nat
  sm_via_channel :: nat
  sm_retried :: nat
  sm_failed :: nat
  sm_uncertain :: nat
  sm_skipped_missed :: nat
  sm_stale_completions :: nat
  sm_errors :: nat
  sm_event_rescheduled :: nat
  sm_event_canceled :: nat
  sm_event_unverified :: nat

definition emptySummary :: dispatch_summary where
  "emptySummary = \<lparr>sm_claimed = 0, sm_delivered = 0, sm_delivered_late = 0, sm_via_dm = 0,
     sm_via_channel = 0, sm_retried = 0, sm_failed = 0, sm_uncertain = 0, sm_skipped_missed = 0,
     sm_stale_completions = 0, sm_errors = 0, sm_event_rescheduled = 0, sm_event_canceled = 0,
     sm_event_unverified = 0\<rparr>"

record tick =
  tk_db :: reminder_db
  tk_log :: sent_log
  tk_summary :: dispatch_summary

datatype dispatch_error =
  Time_failure time_error | Domain_failure reminder_error | Store_failure store_error | Rejected

type_synonym 'a run = "tick \<Rightarrow> (dispatch_error + 'a) \<times> tick"

definition run_return :: "'a \<Rightarrow> 'a run" where
  "run_return x t = (Inr x, t)"

definition run_bind :: "'a run \<Rightarrow> ('a \<Rightarrow> 'b run) \<Rightarrow> 'b run" where
  "run_bind m f t = (case m t of (Inl e, t') \<Rightarrow> (Inl e, t') | (Inr x, t') \<Rightarrow> f x t')"

definition run_lift :: "('e \<Rightarrow> dispatch_error) \<Rightarrow> 'e + 'a \<Rightarrow> 'a run" where
  "run_lift f m t = (case m of Inl e \<Rightarrow> (Inl (f e), t) | Inr x \<Rightarrow> (Inr x, t))"

definition tally :: "(dispatch_summary \<Rightarrow> dispatch_summary) \<Rightarrow> unit run" where
  "tally f t = (Inr (), t\<lparr>tk_summary := f (tk_summary t)\<rparr>)"

section \<open>The steps of one delivery\<close>

definition laterOf :: "iso \<Rightarrow> iso \<Rightarrow> iso" where
  "laterOf a b = (if nan_le (date_parse b) (date_parse a) then a else b)"

text \<open>The branch of \<open>count\<close> each outcome takes.\<close>

fun count_outcome :: "delivery_outcome \<Rightarrow> reminder \<Rightarrow> bool \<Rightarrow> dispatch_summary \<Rightarrow> dispatch_summary" where
  "count_outcome (SENT via) r late s =
     (let s1 = s\<lparr>sm_delivered := sm_delivered s + 1\<rparr>;
          s2 = (if late then s1\<lparr>sm_delivered_late := sm_delivered_late s1 + 1\<rparr> else s1) in
      if via = Via_dm then s2\<lparr>sm_via_dm := sm_via_dm s2 + 1\<rparr>
      else s2\<lparr>sm_via_channel := sm_via_channel s2 + 1\<rparr>)"
| "count_outcome (NOT_SENT reason retryable) r late s =
     (if retryable \<and> rem_attempt r < maxRetries then s\<lparr>sm_retried := sm_retried s + 1\<rparr>
      else s\<lparr>sm_failed := sm_failed s + 1\<rparr>)"
| "count_outcome (UNCERTAIN reason) r late s = s\<lparr>sm_uncertain := sm_uncertain s + 1\<rparr>"

definition isDirectConversation :: "conversation_context \<Rightarrow> bool" where
  "isDirectConversation c \<longleftrightarrow> ctx_direct c = Some True"

definition surface_groups :: "reminder \<Rightarrow> surface_group list" where
  "surface_groups r = (if rem_event r \<noteq> None then [Group_reminder, Group_calendar] else [Group_reminder])"

text \<open>Target, text and the text of the last-moment DM fallback.\<close>

definition surfaceRoute ::
  "dispatch_env \<Rightarrow> reminder \<Rightarrow> message \<Rightarrow> conversation_context \<times> message \<times> message option" where
  "surfaceRoute E r text =
     (let origin = rem_origin r in
      case env_surface E of
        None \<Rightarrow> (origin, text, None)
      | Some check \<Rightarrow>
          if rem_kind r \<noteq> TEXT \<or> isDirectConversation origin \<or> ctx_space_id origin = None
          then (origin, text, None)
          else let allowed = (check origin (rem_actor_id r) (surface_groups r) = Some True);
                   dmText = With_withheld_note text in
               if allowed then (origin, text, Some dmText)
               else (origin\<lparr>ctx_space_id := None, ctx_thread_id := None, ctx_direct := Some True\<rparr>, dmText, None))"

definition deliverOnce :: "dispatch_env \<Rightarrow> reminder \<Rightarrow> iso \<Rightarrow> message \<Rightarrow> delivery_outcome run" where
  "deliverOnce E r occurrenceAt text t =
     (let (target, body, dm) = surfaceRoute E r text;
          n = \<lparr>nt_reminder = rem_id r, nt_occurrence = occurrenceAt, nt_attempt = rem_attempt r,
               nt_target = target, nt_kind = rem_kind r, nt_text = body, nt_recheck_dm = dm\<rparr>;
          outcome = (case env_sink E (tk_log t) n of Some o' \<Rightarrow> o' | None \<Rightarrow> UNCERTAIN UNCLASSIFIED) in
      (Inr outcome, t\<lparr>tk_log := tk_log t @ [(n, outcome)]\<rparr>))"

definition composeText :: "reminder \<Rightarrow> iso \<Rightarrow> bool \<Rightarrow> iso \<Rightarrow> message run" where
  "composeText r occurrenceAt late now t =
     (Inr (if rem_kind r = TEXT
           then Delivery_text (rem_display_no r) (rem_body r) occurrenceAt late (rem_time_zone r) now
           else Brief_text now (rem_time_zone r) (listActiveByActor (tk_db t) (rem_actor_id r)) (rem_actor_id r)
                  occurrenceAt late), t)"

definition nextOccurrenceContext :: "dispatch_env \<Rightarrow> reminder \<Rightarrow> iso \<Rightarrow> time_error + iso option" where
  "nextOccurrenceContext E r after =
     (if \<not> isRecurringSchedule (rem_schedule r) then Inr None
      else let from = (case opt_or (rem_occurrence_at r) (rem_next_fire_at r) of
                         None \<Rightarrow> after | Some occurrence \<Rightarrow> laterOf after occurrence) in
           nextOccurrenceAfter (rem_schedule r) (env_zone E (rem_time_zone r)) from)"

definition complete :: "dispatch_env \<Rightarrow> reminder \<Rightarrow> Id \<Rightarrow> firing_completion \<Rightarrow> unit run" where
  "complete E r attemptId completion t =
     (if env_busy E (rem_id r) then (Inl Rejected, t)
      else (case completeFiring (tk_db t) (rem_id r) attemptId completion of
        Inl e \<Rightarrow> (Inl (Store_failure e), t)
      | Inr (db', CONFLICT) \<Rightarrow>
          tally (\<lambda>s. s\<lparr>sm_stale_completions := sm_stale_completions s + 1\<rparr>) (t\<lparr>tk_db := db'\<rparr>)
      | Inr (db', COMPLETED r') \<Rightarrow> (Inr (), t\<lparr>tk_db := db'\<rparr>)))"

section \<open>An event-relative reminder\<close>

definition date_iso :: "int option \<Rightarrow> iso run" where
  "date_iso ms = (case to_iso ms of None \<Rightarrow> run_lift Time_failure (Inl RangeError) | Some t \<Rightarrow> run_return t)"

definition send_event ::
  "dispatch_env \<Rightarrow> reminder \<Rightarrow> Id \<Rightarrow> iso \<Rightarrow> iso \<Rightarrow> bool \<Rightarrow> message \<Rightarrow> unit run" where
  "send_event E r attemptId now occurrenceAt late text =
     run_bind (deliverOnce E r occurrenceAt text) (\<lambda>outcome.
     run_bind (tally (count_outcome outcome r late)) (\<lambda>_.
     run_bind (run_lift Domain_failure (planFiringCompletion r (Delivered outcome)
         \<lparr>cc_at = now, cc_next_occurrence_at = None, cc_delivered_occurrence_at = None\<rparr>)) (\<lambda>completion.
     complete E r attemptId completion)))"

definition cancel_event ::
  "dispatch_env \<Rightarrow> reminder \<Rightarrow> Id \<Rightarrow> iso \<Rightarrow> iso \<Rightarrow> message \<Rightarrow> unit run" where
  "cancel_event E r attemptId now occurrenceAt text =
     run_bind (deliverOnce E r occurrenceAt text) (\<lambda>outcome.
     run_bind (tally (count_outcome outcome r False)) (\<lambda>_.
     run_bind (run_lift Domain_failure (planEventCanceledCompletion r outcome now)) (\<lambda>completion.
     run_bind (if fc_status completion \<noteq> RS_SCHEDULED
               then tally (\<lambda>s. s\<lparr>sm_event_canceled := sm_event_canceled s + 1\<rparr>) else run_return ()) (\<lambda>_.
     complete E r attemptId completion))))"

definition event_text :: "reminder \<Rightarrow> event_ref \<Rightarrow> js_string \<Rightarrow> iso \<Rightarrow> event_note \<Rightarrow> iso \<Rightarrow> bool \<Rightarrow> iso \<Rightarrow> message" where
  "event_text r ref title startAt note occurrenceAt late now =
     Event_delivery_text (rem_display_no r) title startAt (ev_offset_minutes ref) note occurrenceAt late
       (rem_time_zone r) now"

definition unverified :: "dispatch_summary \<Rightarrow> dispatch_summary" where
  "unverified s = s\<lparr>sm_event_unverified := sm_event_unverified s + 1\<rparr>"

definition dispatchEventReminder ::
  "dispatch_env \<Rightarrow> reminder \<Rightarrow> event_ref \<Rightarrow> Id \<Rightarrow> iso \<Rightarrow> iso \<Rightarrow> bool \<Rightarrow> unit run" where
  "dispatchEventReminder E r ref attemptId now occurrenceAt late =
     (let occurrenceMs = date_parse occurrenceAt; offsetMs = ev_offset_minutes ref * 60000 in
      run_bind (date_iso (map_option (\<lambda>ms. ms + offsetMs) occurrenceMs)) (\<lambda>expectedStart.
      let send = send_event E r attemptId now occurrenceAt;
          text = (\<lambda>title startAt note l. event_text r ref title startAt note occurrenceAt l now);
          unread = run_bind (tally unverified) (\<lambda>_.
            send late (text (rem_body r) expectedStart Note_unverified late)) in
      case env_calendar E of
        None \<Rightarrow> unread
      | Some check \<Rightarrow> (case check ref expectedStart now of
          None \<Rightarrow> run_lift (\<lambda>_. Rejected) (Inl ())
        | Some Gone \<Rightarrow>
            cancel_event E r attemptId now occurrenceAt (Event_canceled_text (rem_display_no r) (rem_body r) True)
        | Some Unreadable_event \<Rightarrow> unread
        | Some (Found ev) \<Rightarrow>
            if ce_all_day ev
            then cancel_event E r attemptId now occurrenceAt
                   (Event_canceled_text (rem_display_no r) (ce_title ev) False)
            else (case date_parse (ce_start ev) of
              None \<Rightarrow> unread
            | Some startMs \<Rightarrow>
                let dueMs = startMs - offsetMs in
                run_bind (date_iso (Some startMs)) (\<lambda>startAt.
                if Some dueMs = occurrenceMs then send late (text (ce_title ev) startAt Note_none late)
                else if nan_lt (date_parse now) (Some dueMs)
                then run_bind (date_iso (Some dueMs)) (\<lambda>due.
                     run_bind (run_lift Domain_failure (planEventRescheduleCompletion r now due)) (\<lambda>completion.
                     run_bind (tally (\<lambda>s. s\<lparr>sm_event_rescheduled := sm_event_rescheduled s + 1\<rparr>)) (\<lambda>_.
                     complete E r attemptId completion)))
                else send False (text (ce_title ev) startAt Note_moved_earlier False))))))"

section \<open>One reminder, one tick, and the recovery\<close>

definition skip_missed :: "dispatch_env \<Rightarrow> reminder \<Rightarrow> Id \<Rightarrow> iso \<Rightarrow> iso \<Rightarrow> iso \<Rightarrow> unit run" where
  "skip_missed E r attemptId now skipped next =
     run_bind (run_lift Domain_failure (planFiringCompletion r (SKIPPED_MISSED skipped)
         \<lparr>cc_at = now, cc_next_occurrence_at = Some next, cc_delivered_occurrence_at = None\<rparr>)) (\<lambda>completion.
     run_bind (tally (\<lambda>s. s\<lparr>sm_skipped_missed := sm_skipped_missed s + 1\<rparr>)) (\<lambda>_.
     complete E r attemptId completion))"

definition deliver_reminder :: "dispatch_env \<Rightarrow> reminder \<Rightarrow> Id \<Rightarrow> iso \<Rightarrow> iso \<Rightarrow> bool \<Rightarrow> unit run" where
  "deliver_reminder E r attemptId now occurrenceAt late =
     run_bind (composeText r occurrenceAt late now) (\<lambda>text.
     run_bind (deliverOnce E r occurrenceAt text) (\<lambda>outcome.
     run_bind (tally (count_outcome outcome r late)) (\<lambda>_.
     run_bind (run_lift Time_failure (nextOccurrenceContext E r (laterOf now occurrenceAt))) (\<lambda>next.
     run_bind (run_lift Domain_failure (planFiringCompletion r (Delivered outcome)
         \<lparr>cc_at = now, cc_next_occurrence_at = next,
          cc_delivered_occurrence_at =
            (if isRecurringSchedule (rem_schedule r) then Some occurrenceAt else None)\<rparr>)) (\<lambda>completion.
     complete E r attemptId completion)))))"

definition dispatchOne :: "dispatch_env \<Rightarrow> reminder \<Rightarrow> Id \<Rightarrow> iso \<Rightarrow> unit run" where
  "dispatchOne E r attemptId now =
     run_bind (run_lift Time_failure (decideMissedOccurrence (rem_schedule r) (env_zone E (rem_time_zone r))
                 (claimed_occurrence r now) now)) (\<lambda>decision.
     case decision of
       SKIP skipped next \<Rightarrow> skip_missed E r attemptId now skipped next
     | DELIVER occurrenceAt late \<Rightarrow>
         (case rem_event r of
            Some ref \<Rightarrow>
              if rem_kind r = TEXT \<and> is_once (rem_schedule r)
              then dispatchEventReminder E r ref attemptId now occurrenceAt late
              else deliver_reminder E r attemptId now occurrenceAt late
          | None \<Rightarrow> deliver_reminder E r attemptId now occurrenceAt late))"

text \<open>The loop over the batch; a thrown error is counted and the next reminder goes on.\<close>

definition note_error :: "dispatch_summary \<Rightarrow> dispatch_summary" where
  "note_error s = s\<lparr>sm_errors := sm_errors s + 1\<rparr>"

definition isolate :: "unit run \<Rightarrow> tick \<Rightarrow> tick" where
  "isolate m t = (case m t of
     (Inr _, t') \<Rightarrow> t' | (Inl _, t') \<Rightarrow> t'\<lparr>tk_summary := note_error (tk_summary t')\<rparr>)"

fun dispatch_batch :: "dispatch_env \<Rightarrow> Id \<Rightarrow> iso \<Rightarrow> nat \<Rightarrow> reminder list \<Rightarrow> tick \<Rightarrow> tick" where
  "dispatch_batch E a now index [] t = t"
| "dispatch_batch E a now index (r # rs) t =
     (if \<not> env_continue E index then t
      else dispatch_batch E a now (Suc index) rs (isolate (dispatchOne E r a now) t))"

definition dispatchDue :: "dispatch_env \<Rightarrow> Id \<Rightarrow> iso \<Rightarrow> reminder_db \<Rightarrow> sent_log \<Rightarrow> tick" where
  "dispatchDue E attemptId now db log =
     (let t0 = \<lparr>tk_db = db, tk_log = log, tk_summary = emptySummary\<rparr>;
          failed = t0\<lparr>tk_summary := note_error emptySummary\<rparr> in
      if env_claim_busy E then failed
      else (case claimDue db now (int maxDeliveriesPerTick) attemptId of
        Inl e \<Rightarrow> failed
      | Inr (db', claimed) \<Rightarrow>
          let batch = take maxDeliveriesPerTick claimed in
          dispatch_batch E attemptId now 0 batch
            (t0\<lparr>tk_db := db', tk_summary := emptySummary\<lparr>sm_claimed := length batch\<rparr>\<rparr>)))"

record recovery_summary =
  rv_recovered :: nat
  rv_stale_completions :: nat
  rv_errors :: nat

definition recover_one ::
  "dispatch_env \<Rightarrow> iso \<Rightarrow> reminder \<Rightarrow> reminder_db \<times> recovery_summary \<Rightarrow> reminder_db \<times> recovery_summary" where
  "recover_one E now r = (\<lambda>(db, s).
     let failed = (db, s\<lparr>rv_errors := rv_errors s + 1\<rparr>) in
     case rem_firing_attempt_id r of
       None \<Rightarrow> failed
     | Some attemptId \<Rightarrow> (case nextOccurrenceContext E r now of
         Inl e \<Rightarrow> failed
       | Inr next \<Rightarrow> (case planFiringCompletion r (Delivered (UNCERTAIN INTERRUPTED))
             \<lparr>cc_at = now, cc_next_occurrence_at = next, cc_delivered_occurrence_at = None\<rparr> of
           Inl e \<Rightarrow> failed
         | Inr completion \<Rightarrow>
             if env_busy E (rem_id r) then failed
             else (case completeFiring db (rem_id r) attemptId completion of
               Inl e \<Rightarrow> failed
             | Inr (db', COMPLETED r') \<Rightarrow> (db', s\<lparr>rv_recovered := rv_recovered s + 1\<rparr>)
             | Inr (db', CONFLICT) \<Rightarrow> (db', s\<lparr>rv_stale_completions := rv_stale_completions s + 1\<rparr>)))))"

definition recoverInterrupted :: "dispatch_env \<Rightarrow> iso \<Rightarrow> reminder_db \<Rightarrow> reminder_db \<times> recovery_summary" where
  "recoverInterrupted E now db =
     (if env_claim_busy E then (db, \<lparr>rv_recovered = 0, rv_stale_completions = 0, rv_errors = 1\<rparr>)
      else fold (recover_one E now) (listFiring db)
             (db, \<lparr>rv_recovered = 0, rv_stale_completions = 0, rv_errors = 0\<rparr>))"

end
