(* ===== verification/Reminder_Delivery.thy ===== *)
theory Reminder_Delivery
  imports Reminder_Dispatch
begin

text \<open>
  At-most-once delivery of the reminder dispatch (\<open>reminder-dispatch-service.ts\<close>, "At most once per
  occurrence"): what one dispatch may do to the database and to the log of deliveries, then a step
  relation of the whole reminder subsystem (claims, single deliveries, a process that stops at any
  point, startup recovery, the owner's create, cancel and undo) and its invariant.
\<close>

section \<open>What a planned completion does to the occurrence\<close>

fun retryable_outcome :: "delivery_outcome \<Rightarrow> bool" where
  "retryable_outcome (NOT_SENT reason retryable) = retryable"
| "retryable_outcome _ = False"

text \<open>A next occurrence with instants, later than \<open>lo\<close>, or the same one for the next attempt.\<close>

definition advances :: "int \<Rightarrow> delivery_outcome option \<Rightarrow> reminder \<Rightarrow> firing_completion \<Rightarrow> bool" where
  "advances lo out r c \<longleftrightarrow> wf_completion c \<and>
     (fc_status c = RS_SCHEDULED \<longrightarrow> (\<exists>t u m n. fc_occurrence_at c = Some t \<and> fc_next_fire_at c = Some u \<and>
        date_parse t = Some m \<and> date_parse u = Some n \<and> m \<le> n \<and>
        (lo < m \<or> (lo = m \<and> fc_attempt c = Suc (rem_attempt r) \<and>
           (case out of None \<Rightarrow> False | Some x \<Rightarrow> retryable_outcome x)))))"

lemma advances_mono: "advances hi out r c \<Longrightarrow> lo < hi \<Longrightarrow> advances lo None r c"
  by (fastforce simp: advances_def)

definition fired :: "reminder \<Rightarrow> int \<Rightarrow> int \<Rightarrow> bool" where
  "fired r c n \<longleftrightarrow> wf_reminder r \<and> rem_status r = RS_FIRING \<and>
     (\<exists>t. rem_occurrence_at r = Some t \<and> date_parse t = Some c) \<and> c \<le> n"

lemma is_retryable_Delivered [simp]: "is_retryable (Delivered out) = retryable_outcome out"
  by (cases out) auto

lemma retry_backoff_pos: "0 < retry_backoff k"
proof -
  have "k < 3 \<Longrightarrow> k = 0 \<or> k = 1 \<or> k = 2" by linarith
  then show ?thesis by (auto simp: retry_backoff_def retryBackoffMinutes_def)
qed

lemma addMinutes_Canon:
  "addMinutes (Canon n) k = Inr t \<Longrightarrow> t = Canon (n + k * 60000)"
  by (auto simp: addMinutes_def to_iso_def split: if_splits)

text \<open>The occurrence a completion stands for is the claimed one, or the one the service delivered.\<close>

lemma delivered_occurrence_ms:
  assumes "fired r c n" "delivered_occurrence r cc = Inr occ"
    "case cc_delivered_occurrence_at cc of None \<Rightarrow> d = c | Some t \<Rightarrow> date_parse t = Some d"
  shows "date_parse occ = Some d"
  using assms
  by (auto simp: delivered_occurrence_def claimed_occurrence_def fired_def split: option.splits if_splits
      dest: to_iso_SomeD)

lemma plan_advances:
  assumes f: "fired r c n" and plan: "planFiringCompletion r result cc = Inr cpl"
    and at: "cc_at cc = Canon n" and d: "d \<le> n"
    and del: "case cc_delivered_occurrence_at cc of None \<Rightarrow> d = c | Some t \<Rightarrow> date_parse t = Some d"
  shows "advances d (case result of Delivered out \<Rightarrow> Some out | SKIPPED_MISSED t \<Rightarrow> None) r cpl"
proof -
  have wf: "wf_completion cpl"
    using f plan by (intro wf_planFiringCompletion) (auto simp: fired_def)
  show ?thesis
    using plan
  proof (cases rule: planFiringCompletion_cases)
    case (retry occ fireAt)
    then obtain out where out: "result = Delivered out" "retryable_outcome out"
      by (cases result rule: is_retryable.cases) auto
    have "d \<le> n + retry_backoff (rem_attempt r) * 60000"
      using d retry_backoff_pos [of "rem_attempt r"] by linarith
    with retry wf out delivered_occurrence_ms [OF f _ del] show ?thesis
      by (auto simp: advances_def at dest!: addMinutes_Canon)
  next
    case (once occ)
    with wf show ?thesis by (auto simp: advances_def once_final_status_terminal)
  next
    case (recurring occ nxt)
    then obtain m where "date_parse nxt = Some m" by (auto simp: isIsoInstant_def)
    with recurring wf delivered_occurrence_ms [OF f _ del] show ?thesis
      by (auto simp: advances_def)
  qed
qed

lemma reschedule_advances:
  assumes f: "fired r c n" and plan: "planEventRescheduleCompletion r (Canon n) u = Inr cpl"
  shows "advances c None r cpl"
  using assms wf_planEventReschedule [OF plan]
  by (auto simp: planEventRescheduleCompletion_def advances_def fired_def err_bind_Inr_iff Let_def
      to_iso_def split: if_splits option.splits)

lemma canceled_advances:
  assumes f: "fired r c n" and plan: "planEventCanceledCompletion r out (Canon n) = Inr cpl"
  shows "advances c (Some out) r cpl"
proof -
  let ?cc = "\<lparr>cc_at = Canon n, cc_next_occurrence_at = None, cc_delivered_occurrence_at = None\<rparr>"
  from plan obtain p where p: "planFiringCompletion r (Delivered out) ?cc = Inr p"
    and d: "(if fc_status p = RS_SCHEDULED then Inr p else Inr (p\<lparr>fc_status := RS_CANCELED\<rparr>))
      = (Inr cpl :: reminder_error + firing_completion)"
    unfolding planEventCanceledCompletion_def err_bind_Inr_iff by blast
  have "advances c (Some out) r p"
    using plan_advances [OF f p, of c] f by (simp add: fired_def)
  with d wf_planEventCanceled [OF _ plan] f show ?thesis
    by (auto simp: advances_def fired_def split: if_splits)
qed

section \<open>What one dispatch does\<close>

text \<open>The end of a dispatch: nothing more is sent, and at most one completion of a kind is written.\<close>

definition closes :: "reminder \<Rightarrow> Id \<Rightarrow> (firing_completion \<Rightarrow> bool) \<Rightarrow> tick \<Rightarrow> tick \<Rightarrow> bool" where
  "closes r a P t t' \<longleftrightarrow> tk_log t' = tk_log t \<and>
     (tk_db t' = tk_db t \<or>
      (\<exists>c res. P c \<and> completeFiring (tk_db t) (rem_id r) a c = Inr (tk_db t', res)))"

lemma closes_refl [simp]: "closes r a P t t"
  by (simp add: closes_def)

lemma run_bind_lift [simp]:
  "run_bind (run_lift g (Inl e)) f t = (Inl (g e), t)"
  "run_bind (run_lift g (Inr x)) f t = f x t"
  by (simp_all add: run_bind_def run_lift_def)

lemma run_bind_tally [simp]: "run_bind (tally h) f t = f () (t\<lparr>tk_summary := h (tk_summary t)\<rparr>)"
  by (simp add: run_bind_def tally_def)

lemma run_bind_return [simp]: "run_bind (run_return x) f t = f x t"
  by (simp add: run_bind_def run_return_def)

text \<open>Two ticks that differ in the summary only.\<close>

definition same_work :: "tick \<Rightarrow> tick \<Rightarrow> bool" where
  "same_work t0 t \<longleftrightarrow> tk_log t0 = tk_log t \<and> tk_db t0 = tk_db t"

lemma same_work_simps [simp]:
  "same_work t t"
  "same_work t0 (t\<lparr>tk_summary := s\<rparr>) = same_work t0 t"
  by (simp_all add: same_work_def)

lemma run_bind_compose:
  "run_bind (composeText r o' late now) f t = f (projr (fst (composeText r o' late now t))) t"
  by (simp add: run_bind_def composeText_def)

lemma closes_same: "same_work t0 t \<Longrightarrow> closes r a P t0 t"
  by (simp add: same_work_def closes_def)

lemma closes_lift:
  "same_work t0 t \<Longrightarrow> (\<And>x. m = Inr x \<Longrightarrow> closes r a P t0 (snd (f x t))) \<Longrightarrow>
   closes r a P t0 (snd (run_bind (run_lift g m) f t))"
  by (cases m) (auto simp: closes_same)

lemma complete_closes: "same_work t0 t \<Longrightarrow> P c \<Longrightarrow> closes r a P t0 (snd (complete E r a c t))"
  by (auto simp: complete_def closes_def tally_def same_work_def split: sum.splits complete_result.splits)

text \<open>One delivery, for the attempt of the claimed reminder, then the end.\<close>

definition sends :: "reminder \<Rightarrow> Id \<Rightarrow> int \<Rightarrow> tick \<Rightarrow> tick \<Rightarrow> bool" where
  "sends r a d t t' \<longleftrightarrow> (\<exists>n out. nt_reminder n = rem_id r \<and> nt_attempt n = rem_attempt r \<and>
     date_parse (nt_occurrence n) = Some d \<and>
     closes r a (advances d (Some out) r) (t\<lparr>tk_log := tk_log t @ [(n, out)]\<rparr>) t')"

lemma deliverOnce_bind:
  assumes "date_parse o' = Some d" "same_work t0 t"
    "\<And>out t1. closes r a (advances d (Some out) r) t1 (snd (f out t1))"
  shows "sends r a d t0 (snd (run_bind (deliverOnce E r o' text) f t))"
proof -
  obtain n out where del: "deliverOnce E r o' text t = (Inr out, t\<lparr>tk_log := tk_log t @ [(n, out)]\<rparr>)"
    and n: "nt_reminder n = rem_id r" "nt_attempt n = rem_attempt r" "nt_occurrence n = o'"
    by (cases "surfaceRoute E r text") (simp add: deliverOnce_def Let_def)
  have "closes r a (advances d (Some out) r) (t0\<lparr>tk_log := tk_log t0 @ [(n, out)]\<rparr>) (snd (f out (t\<lparr>tk_log := tk_log t @ [(n, out)]\<rparr>)))"
    using assms(3) [of out "t\<lparr>tk_log := tk_log t @ [(n, out)]\<rparr>"] assms(2)
    by (simp add: closes_def same_work_def)
  with n assms(1) show ?thesis
    unfolding sends_def run_bind_def del by auto
qed

text \<open>A dispatch either sends nothing, or sends once for an occurrence not before the claimed one.\<close>

definition dispatched :: "reminder \<Rightarrow> Id \<Rightarrow> int \<Rightarrow> int \<Rightarrow> tick \<Rightarrow> tick \<Rightarrow> bool" where
  "dispatched r a c n t t' \<longleftrightarrow>
     closes r a (advances c None r) t t' \<or> (\<exists>d. c \<le> d \<and> d \<le> n \<and> sends r a d t t')"

lemma dispatched_same: "same_work t0 t \<Longrightarrow> dispatched r a c n t0 t"
  by (simp add: dispatched_def closes_same)

lemma dispatched_lift:
  "same_work t0 t \<Longrightarrow> (\<And>x. m = Inr x \<Longrightarrow> dispatched r a c n t0 (snd (f x t))) \<Longrightarrow>
   dispatched r a c n t0 (snd (run_bind (run_lift g m) f t))"
  by (cases m) (auto simp: dispatched_same)

lemma dispatched_date:
  "same_work t0 t \<Longrightarrow> (\<And>x. to_iso ms = Some x \<Longrightarrow> dispatched r a c n t0 (snd (f x t))) \<Longrightarrow>
   dispatched r a c n t0 (snd (run_bind (date_iso ms) f t))"
  by (cases "to_iso ms") (auto simp: date_iso_def dispatched_same)

lemma dispatched_sends: "sends r a d t t' \<Longrightarrow> c \<le> d \<Longrightarrow> d \<le> n \<Longrightarrow> dispatched r a c n t t'"
  unfolding dispatched_def by blast

lemma dispatched_closes: "closes r a (advances c None r) t t' \<Longrightarrow> dispatched r a c n t t'"
  by (simp add: dispatched_def)

lemma send_event_sends:
  assumes "fired r c n" "date_parse o' = Some c" "same_work t0 t"
  shows "sends r a c t0 (snd (send_event E r a (Canon n) o' late text t))"
proof -
  have le: "c \<le> n" using assms(1) by (simp add: fired_def)
  show ?thesis
    unfolding send_event_def
    by (intro deliverOnce_bind assms(2,3))
      (auto intro!: closes_lift complete_closes dest!: plan_advances [OF assms(1) _ _ le])
qed

lemma cancel_event_sends:
  assumes "fired r c n" "date_parse o' = Some c" "same_work t0 t"
  shows "sends r a c t0 (snd (cancel_event E r a (Canon n) o' text t))"
  unfolding cancel_event_def
  by (intro deliverOnce_bind assms(2,3))
    (auto intro!: closes_lift complete_closes dest!: canceled_advances [OF assms(1)])

lemma dispatchEventReminder_dispatched:
  assumes f: "fired r c n" and o': "date_parse o' = Some c"
  shows "dispatched r a c n t (snd (dispatchEventReminder E r ref a (Canon n) o' late t))"
proof -
  have le: "c \<le> n" using f by (simp add: fired_def)
  note sends = send_event_sends [OF f o', THEN dispatched_sends, OF _ order_refl le]
    cancel_event_sends [OF f o', THEN dispatched_sends, OF _ order_refl le]
  have resched: "dispatched r a c n t0 (snd (run_bind (run_lift Domain_failure
      (planEventRescheduleCompletion r (Canon n) due)) (\<lambda>completion.
      run_bind (tally h) (\<lambda>_. complete E r a completion)) t))" if "same_work t0 t" for due h t0 t
    using that by (intro dispatched_lift) (auto intro!: dispatched_closes complete_closes reschedule_advances [OF f])
  show ?thesis
    unfolding dispatchEventReminder_def Let_def
    by (intro dispatched_date)
      (auto split: option.splits recheck.splits
        simp: sends run_lift_def resched intro!: dispatched_date intro: dispatched_closes)
qed

lemma decide_Canon:
  assumes "date_parse t = Some c"
  shows "decideMissedOccurrence s z t now = decideMissedOccurrence s z (Canon c) now"
  by (simp add: decideMissedOccurrence_def assms)

lemma decide_deliver_bounds:
  assumes "date_parse t = Some c" "c \<le> n" "decideMissedOccurrence s z t (Canon n) = Inr (DELIVER o' late)"
  shows "\<exists>d. date_parse o' = Some d \<and> c \<le> d \<and> d \<le> n \<and> (is_once s \<longrightarrow> d = c)"
proof (cases "is_once s")
  case True
  then show ?thesis
    using assms(2,3) unfolding decide_Canon [OF assms(1)]
    by (cases s) (auto simp: decide_once split: if_splits)
next
  case False
  then have "isRecurringSchedule s" by (simp add: once_iff_not_recurring)
  from decide_deliver [OF this assms(3) [unfolded decide_Canon [OF assms(1)]]] False assms(2)
  show ?thesis by fastforce
qed

lemma skip_missed_dispatched:
  assumes "fired r c n"
  shows "dispatched r a c n t (snd (skip_missed E r a (Canon n) skipped next t))"
proof -
  have le: "c \<le> n" using assms by (simp add: fired_def)
  show ?thesis
    unfolding skip_missed_def
    by (intro dispatched_closes closes_lift)
      (auto intro!: complete_closes dest!: plan_advances [OF assms _ _ le])
qed

lemma deliver_reminder_sends:
  assumes f: "fired r c n" and d: "date_parse o' = Some d" "d \<le> n" "is_once (rem_schedule r) \<longrightarrow> d = c"
  shows "sends r a d t (snd (deliver_reminder E r a (Canon n) o' late t))"
proof -
  have adv: "advances d (Some out) r cpl" if "planFiringCompletion r (Delivered out)
      \<lparr>cc_at = Canon n, cc_next_occurrence_at = nx, cc_delivered_occurrence_at =
         (if isRecurringSchedule (rem_schedule r) then Some o' else None)\<rparr> = Inr cpl" for out nx cpl
    using plan_advances [OF f that _ d(2)] d by (auto simp: once_iff_not_recurring)
  show ?thesis
    unfolding deliver_reminder_def run_bind_compose
    by (intro deliverOnce_bind d(1)) (simp_all add: closes_lift complete_closes adv)
qed

lemma dispatchOne_dispatched:
  assumes f: "fired r c n"
  shows "dispatched r a c n t (snd (dispatchOne E r a (Canon n) t))"
proof -
  obtain occ where occ: "rem_occurrence_at r = Some occ" "date_parse occ = Some c" and le: "c \<le> n"
    using f by (auto simp: fired_def)
  have cl: "claimed_occurrence r (Canon n) = occ" by (simp add: claimed_occurrence_def occ)
  have deliver: "dispatched r a c n t (snd (case rem_event r of
      Some ref \<Rightarrow> if rem_kind r = TEXT \<and> is_once (rem_schedule r)
         then dispatchEventReminder E r ref a (Canon n) o' late t else deliver_reminder E r a (Canon n) o' late t
    | None \<Rightarrow> deliver_reminder E r a (Canon n) o' late t))"
    if dec: "decideMissedOccurrence (rem_schedule r) (env_zone E (rem_time_zone r)) occ (Canon n) = Inr (DELIVER o' late)"
    for o' late
  proof -
    obtain d where d: "date_parse o' = Some d" "c \<le> d" "d \<le> n" "is_once (rem_schedule r) \<longrightarrow> d = c"
      using decide_deliver_bounds [OF occ(2) le dec] by blast
    note plain = dispatched_sends [OF deliver_reminder_sends [OF f d(1,3,4)] d(2,3)]
    show ?thesis
      using d(1,4) by (auto split: option.splits simp: plain dispatchEventReminder_dispatched [OF f])
  qed
  show ?thesis
    unfolding dispatchOne_def cl
    by (intro dispatched_lift) (auto split: missed_decision.splits option.splits
        dest!: deliver simp: skip_missed_dispatched [OF f])
qed

section \<open>The reminder subsystem as a step relation\<close>

record reminder_system =
  sy_db :: reminder_db
  sy_log :: sent_log
  sy_pending :: "reminder list"
  sy_attempt :: Id
  sy_now :: int
  sy_clock :: int

definition plain_years :: "reminder_db \<Rightarrow> bool" where
  "plain_years db \<longleftrightarrow> (\<forall>w\<in>set (db_reminders db). row_status w = RS_SCHEDULED \<longrightarrow>
     (case row_next_fire_at w of None \<Rightarrow> True | Some ms \<Rightarrow> four_digit_year ms))"

text \<open>
  \<open>claim\<close> and \<open>deliver\<close> are the halves of \<open>dispatchDue\<close>; between two deliveries the owner may act, and
  the process may stop (\<open>stop\<close>), which leaves rows FIRING until \<open>recover\<close>. The clock never goes back,
  and scheduled instants have four-digit years, for which the text order of the store is the order
  of time.
\<close>

inductive reminder_step :: "reminder_system \<Rightarrow> reminder_system \<Rightarrow> bool" where
  claim: "sy_pending s = [] \<Longrightarrow> sy_clock s \<le> n \<Longrightarrow> four_digit_year n \<Longrightarrow> plain_years (sy_db s) \<Longrightarrow>
    claimDue (sy_db s) (Canon n) (int maxDeliveriesPerTick) a = Inr (db', rs) \<Longrightarrow>
    reminder_step s (s\<lparr>sy_db := db', sy_pending := rs, sy_attempt := a, sy_now := n, sy_clock := n\<rparr>)"
| deliver: "sy_pending s = r # rs \<Longrightarrow>
    t' = isolate (dispatchOne E r (sy_attempt s) (Canon (sy_now s)))
           \<lparr>tk_db = sy_db s, tk_log = sy_log s, tk_summary = sm\<rparr> \<Longrightarrow>
    reminder_step s (s\<lparr>sy_db := tk_db t', sy_log := tk_log t', sy_pending := rs\<rparr>)"
| stop: "reminder_step s (s\<lparr>sy_pending := []\<rparr>)"
| recover: "sy_pending s = [] \<Longrightarrow> sy_clock s \<le> n \<Longrightarrow>
    reminder_step s (s\<lparr>sy_db := fst (recoverInterrupted E (Canon n) (sy_db s)), sy_clock := n\<rparr>)"
| create: "createReminderDraft i = Inr d \<Longrightarrow> createWithinLimit (sy_db s) d m cond = Inr (db', res) \<Longrightarrow>
    reminder_step s (s\<lparr>sy_db := db'\<rparr>)"
| cancel: "cancel_reminder (sy_db s) actor no now cond = Inr (db', res) \<Longrightarrow>
    reminder_step s (s\<lparr>sy_db := db'\<rparr>)"
| reactivate: "sy_clock s \<le> n \<Longrightarrow> lookup_reminder (sy_db s) i = Some r \<Longrightarrow>
    reactivateReminder r (Canon n) fireAt sched = Inr nxt \<Longrightarrow>
    reactivate (sy_db s) actor nxt expected m cond = Inr (db', res) \<Longrightarrow>
    reminder_step s (s\<lparr>sy_db := db', sy_clock := n\<rparr>)"

definition initial_system :: "reminder_system \<Rightarrow> bool" where
  "initial_system s \<longleftrightarrow> db_reminders (sy_db s) = [] \<and> sy_log s = [] \<and> sy_pending s = [] \<and> sy_now s \<le> sy_clock s"

definition reachable_system :: "reminder_system \<Rightarrow> bool" where
  "reachable_system s \<longleftrightarrow> (\<exists>s0. initial_system s0 \<and> reminder_step\<^sup>*\<^sup>* s0 s)"

section \<open>The invariant\<close>

definition sent_id :: "notification \<times> delivery_outcome \<Rightarrow> Id" where
  "sent_id e = nt_reminder (fst e)"

definition sent_at :: "notification \<times> delivery_outcome \<Rightarrow> int option" where
  "sent_at e = date_parse (nt_occurrence (fst e))"

text \<open>An occurrence after \<open>e\<close>: a later one, or the next attempt after a confirmed, retryable failure.\<close>

definition follows :: "notification \<times> delivery_outcome \<Rightarrow> int \<Rightarrow> nat \<Rightarrow> bool" where
  "follows e m k \<longleftrightarrow> (\<exists>d. sent_at e = Some d \<and>
     (d < m \<or> (d = m \<and> retryable_outcome (snd e) \<and> nt_attempt (fst e) < k)))"

definition log_order :: "notification \<times> delivery_outcome \<Rightarrow> notification \<times> delivery_outcome \<Rightarrow> bool" where
  "log_order e f \<longleftrightarrow> (sent_id e = sent_id f \<longrightarrow>
     (\<exists>m. sent_at f = Some m \<and> follows e m (nt_attempt (fst f))))"

definition occurrence_ms :: "reminder \<Rightarrow> int option" where
  "occurrence_ms r = (case rem_occurrence_at r of None \<Rightarrow> None | Some t \<Rightarrow> date_parse t)"

text \<open>A row: its instants parse, and an occurrence that may still be sent follows everything sent.\<close>

definition timed :: "int \<Rightarrow> reminder \<Rightarrow> bool" where
  "timed clock r \<longleftrightarrow>
     (rem_status r = RS_SCHEDULED \<longrightarrow> (\<exists>m u n. occurrence_ms r = Some m \<and> rem_next_fire_at r = Some u \<and>
        date_parse u = Some n \<and> m \<le> n)) \<and>
     (rem_status r = RS_FIRING \<longrightarrow> (\<exists>m. occurrence_ms r = Some m \<and> m \<le> clock))"

definition fresh_occurrence :: "sent_log \<Rightarrow> reminder \<Rightarrow> bool" where
  "fresh_occurrence log r \<longleftrightarrow> (\<forall>e\<in>set log. sent_id e = rem_id r \<longrightarrow>
     (\<exists>m. occurrence_ms r = Some m \<and> follows e m (rem_attempt r)))"

definition pending_ok :: "reminder_system \<Rightarrow> reminder \<Rightarrow> bool" where
  "pending_ok s r \<longleftrightarrow> lookup_reminder (sy_db s) (rem_id r) = Some r \<and> rem_status r = RS_FIRING \<and>
     rem_firing_attempt_id r = Some (sy_attempt s) \<and>
     (\<exists>m. occurrence_ms r = Some m \<and> m \<le> sy_now s) \<and> fresh_occurrence (sy_log s) r"

definition row_ok :: "reminder_system \<Rightarrow> reminder \<Rightarrow> bool" where
  "row_ok s r \<longleftrightarrow> timed (sy_clock s) r \<and> (rem_status r = RS_SCHEDULED \<longrightarrow> fresh_occurrence (sy_log s) r)"

definition entry_ok :: "reminder_system \<Rightarrow> notification \<times> delivery_outcome \<Rightarrow> bool" where
  "entry_ok s e \<longleftrightarrow> lookup_reminder (sy_db s) (sent_id e) \<noteq> None \<and>
     (\<exists>d. sent_at e = Some d \<and> d \<le> sy_clock s) \<and> nt_attempt (fst e) \<le> maxRetries"

definition delivery_inv :: "reminder_system \<Rightarrow> bool" where
  "delivery_inv s \<longleftrightarrow> wf_db (sy_db s) \<and> sy_now s \<le> sy_clock s \<and>
     (\<forall>i r. lookup_reminder (sy_db s) i = Some r \<longrightarrow> row_ok s r) \<and>
     distinct (map rem_id (sy_pending s)) \<and> (\<forall>r\<in>set (sy_pending s). pending_ok s r) \<and>
     (\<forall>e\<in>set (sy_log s). entry_ok s e) \<and> sorted_wrt log_order (sy_log s)"

lemma delivery_invD:
  assumes "delivery_inv s"
  shows "wf_db (sy_db s)" "sy_now s \<le> sy_clock s" "distinct (map rem_id (sy_pending s))"
    "lookup_reminder (sy_db s) i = Some r \<Longrightarrow> row_ok s r"
    "r \<in> set (sy_pending s) \<Longrightarrow> pending_ok s r" "e \<in> set (sy_log s) \<Longrightarrow> entry_ok s e"
    "sorted_wrt log_order (sy_log s)"
  using assms unfolding delivery_inv_def by blast+

text \<open>Writing one row \<open>r'\<close> that is not (any more) pending, with at most a log entry of that row.\<close>

lemma delivery_inv_write:
  assumes inv: "delivery_inv s" and wf: "wf_db db'" and id: "rem_id r' = i"
    and look: "\<forall>j. lookup_reminder db' j = (if j = i then Some r' else lookup_reminder (sy_db s) j)"
    and clock: "sy_clock s \<le> clock"
    and timed: "timed clock r'" and log: "log = sy_log s @ es" "\<forall>e\<in>set es. sent_id e = i"
    and entries: "\<forall>e\<in>set es. (\<exists>d. sent_at e = Some d \<and> d \<le> clock) \<and> nt_attempt (fst e) \<le> maxRetries"
    and fresh: "rem_status r' = RS_SCHEDULED \<longrightarrow> fresh_occurrence log r'"
    and sorted: "sorted_wrt log_order log"
    and pending: "set ps \<subseteq> set (sy_pending s)" "distinct (map rem_id ps)" "i \<notin> rem_id ` set ps"
  shows "delivery_inv (s\<lparr>sy_db := db', sy_log := log, sy_pending := ps, sy_clock := clock\<rparr>)"
    (is "delivery_inv ?s'")
proof -
  note invs = delivery_invD [OF inv]
  have other: "fresh_occurrence log r = fresh_occurrence (sy_log s) r" if "rem_id r \<noteq> i" for r
    using that log by (auto simp: fresh_occurrence_def)
  have rows: "row_ok ?s' r" if r: "lookup_reminder db' j = Some r" for j r
  proof (cases "j = i")
    case True
    with r look timed fresh show ?thesis by (simp add: row_ok_def)
  next
    case False
    then have old: "lookup_reminder (sy_db s) j = Some r" using r look by simp
    then have "rem_id r \<noteq> i" using lookup_reminder_id [OF invs(1) old] False by simp
    with invs(4) [OF old] other clock show ?thesis
      by (auto simp: row_ok_def timed_def)
  qed
  have pend: "pending_ok ?s' r" if "r \<in> set ps" for r
  proof -
    have "rem_id r \<noteq> i" using that pending(3) by blast
    with invs(5) [of r] that pending(1) look other show ?thesis by (auto simp: pending_ok_def)
  qed
  have ents: "entry_ok ?s' e" if "e \<in> set log" for e
  proof (cases "e \<in> set es")
    case True
    with log(2) look entries show ?thesis by (auto simp: entry_ok_def)
  next
    case False
    then have "entry_ok s e" using that log(1) invs(6) by auto
    with look clock show ?thesis by (fastforce simp: entry_ok_def)
  qed
  show ?thesis
    using wf rows pend ents sorted invs(2) clock pending(2)
    unfolding delivery_inv_def by auto
qed

section \<open>Every step keeps the invariant\<close>

lemma applied_completion:
  assumes "applyFiringCompletion r a cpl = Inr r'" "advances lo out r cpl"
  shows "timed k r'" and "rem_status r' = RS_SCHEDULED \<Longrightarrow> (\<exists>m. occurrence_ms r' = Some m \<and>
     (lo < m \<or> (lo = m \<and> rem_attempt r' = Suc (rem_attempt r) \<and>
       (case out of None \<Rightarrow> False | Some x \<Rightarrow> retryable_outcome x))))"
  using assms
  by (auto simp: applyFiringCompletion_def advances_def timed_def occurrence_ms_def err_bind_Inr_iff
      split: if_splits option.splits)

lemma close_inv:
  assumes inv: "delivery_inv s" and look: "lookup_reminder (sy_db s) (rem_id r) = Some r"
    and firing: "rem_status r = RS_FIRING" "occurrence_ms r = Some c" "c \<le> clock"
    and clock: "sy_clock s \<le> clock"
    and log: "log = sy_log s @ es" "\<forall>e\<in>set es. sent_id e = rem_id r"
      "\<forall>e\<in>set es. (\<exists>d. sent_at e = Some d \<and> d \<le> clock) \<and> nt_attempt (fst e) \<le> maxRetries"
    and sorted: "sorted_wrt log_order log"
    and after: "\<And>e m k. e \<in> set log \<Longrightarrow> sent_id e = rem_id r \<Longrightarrow>
      lo < m \<or> (lo = m \<and> k = Suc (rem_attempt r) \<and> (case out of None \<Rightarrow> False | Some x \<Rightarrow> retryable_outcome x)) \<Longrightarrow>
      follows e m k"
    and "write": "db' = sy_db s \<or>
      (\<exists>cpl res. advances lo out r cpl \<and> completeFiring (sy_db s) (rem_id r) a cpl = Inr (db', res))"
    and pending: "set ps \<subseteq> set (sy_pending s)" "distinct (map rem_id ps)" "rem_id r \<notin> rem_id ` set ps"
  shows "delivery_inv (s\<lparr>sy_db := db', sy_log := log, sy_pending := ps, sy_clock := clock\<rparr>)"
proof -
  note wf = delivery_invD(1) [OF inv]
  have stays: "delivery_inv (s\<lparr>sy_db := sy_db s, sy_log := log, sy_pending := ps, sy_clock := clock\<rparr>)"
    by (rule delivery_inv_write [OF inv wf refl _ clock _ log _ sorted pending])
      (use look firing in \<open>auto simp: timed_def\<close>)
  from "write" show ?thesis
  proof (elim disjE exE conjE)
    fix cpl res
    assume adv: "advances lo out r cpl" and cf: "completeFiring (sy_db s) (rem_id r) a cpl = Inr (db', res)"
    have "wf_completion cpl" using adv by (simp add: advances_def)
    from completeFiring_Inr [OF wf this cf] have wf': "wf_db db'" and
      c: "case res of CONFLICT \<Rightarrow> db' = sy_db s
        | COMPLETED r' \<Rightarrow> applyFiringCompletion r a cpl = Inr r' \<and>
            (\<forall>j. lookup_reminder db' j = (if j = rem_id r then Some r' else lookup_reminder (sy_db s) j))"
      using look by (auto split: complete_result.splits)
    show ?thesis
    proof (cases res)
      case CONFLICT
      with c stays show ?thesis by simp
    next
      case (COMPLETED r')
      with c have ap: "applyFiringCompletion r a cpl = Inr r'"
        and l: "\<forall>j. lookup_reminder db' j = (if j = rem_id r then Some r' else lookup_reminder (sy_db s) j)"
        by simp_all
      have id: "rem_id r' = rem_id r"
        using same_identity_transitions(3) [OF ap] by (simp add: same_identity_def)
      have "fresh_occurrence log r'" if "rem_status r' = RS_SCHEDULED"
        using applied_completion(2) [OF ap adv that] after id by (auto simp: fresh_occurrence_def)
      then show ?thesis
        by (intro delivery_inv_write [OF inv wf' id l clock applied_completion(1) [OF ap adv] log _ sorted pending])
          simp
    qed
  qed (use stays in simp)
qed

lemma follows_trans: "follows e c k \<Longrightarrow> c < m \<or> (c = m \<and> k \<le> l) \<Longrightarrow> follows e m l"
  by (auto simp: follows_def)

lemma pending_fired: "wf_db (sy_db s) \<Longrightarrow> pending_ok s r \<Longrightarrow> occurrence_ms r = Some c \<Longrightarrow> fired r c (sy_now s)"
  using wf_db_lookup by (fastforce simp: pending_ok_def fired_def occurrence_ms_def split: option.splits)

lemma isolate_work:
  "tk_db (isolate m t) = tk_db (snd (m t))" "tk_log (isolate m t) = tk_log (snd (m t))"
  by (cases "m t"; cases "fst (m t)"; simp add: isolate_def)+

lemma deliver_inv:
  assumes inv: "delivery_inv s" and p: "sy_pending s = r # rs"
    and t': "t' = isolate (dispatchOne E r (sy_attempt s) (Canon (sy_now s)))
               \<lparr>tk_db = sy_db s, tk_log = sy_log s, tk_summary = sm\<rparr>"
  shows "delivery_inv (s\<lparr>sy_db := tk_db t', sy_log := tk_log t', sy_pending := rs\<rparr>)"
proof -
  let ?t = "\<lparr>tk_db = sy_db s, tk_log = sy_log s, tk_summary = sm\<rparr>"
  let ?a = "sy_attempt s"
  note invs = delivery_invD [OF inv]
  have ok: "pending_ok s r" using invs(5) p by simp
  then obtain c where c: "occurrence_ms r = Some c" "c \<le> sy_now s"
    and look: "lookup_reminder (sy_db s) (rem_id r) = Some r" and st: "rem_status r = RS_FIRING"
    and fresh: "\<And>e. e \<in> set (sy_log s) \<Longrightarrow> sent_id e = rem_id r \<Longrightarrow> follows e c (rem_attempt r)"
    by (auto simp: pending_ok_def fresh_occurrence_def)
  have ps: "set rs \<subseteq> set (sy_pending s)" "distinct (map rem_id rs)" "rem_id r \<notin> rem_id ` set rs"
    using invs(3) p by auto
  have f: "fired r c (sy_now s)" by (rule pending_fired [OF invs(1) ok c(1)])
  then have wf: "rem_attempt r \<le> maxRetries" by (simp add: fired_def wf_reminder_def)
  have goal: "delivery_inv (s\<lparr>sy_db := tk_db t', sy_log := tk_log t', sy_pending := rs, sy_clock := sy_clock s\<rparr>)"
    using dispatchOne_dispatched [OF f, of ?a ?t E] unfolding dispatched_def
  proof (elim disjE exE conjE)
    assume cl: "closes r ?a (advances c None r) ?t (snd (dispatchOne E r ?a (Canon (sy_now s)) ?t))"
    then have log: "tk_log t' = sy_log s @ []" by (simp add: t' isolate_work closes_def)
    have after: "follows e m k" if "e \<in> set (tk_log t')" "sent_id e = rem_id r"
      "c < m \<or> (c = m \<and> k = Suc (rem_attempt r) \<and> (case None :: delivery_outcome option of None \<Rightarrow> False | Some x \<Rightarrow> retryable_outcome x))"
      for e m k
      using fresh [of e] that log by (auto elim: follows_trans)
    show ?thesis
      by (rule close_inv [OF inv look st c(1) _ order_refl log _ _ _ after, where a = ?a])
        (use cl c(2) invs(2,7) ps log in \<open>auto simp: t' isolate_work closes_def\<close>)
  next
    fix d
    assume d: "c \<le> d" "d \<le> sy_now s"
      and "sends r ?a d ?t (snd (dispatchOne E r ?a (Canon (sy_now s)) ?t))"
    then obtain n out where n: "nt_reminder n = rem_id r" "nt_attempt n = rem_attempt r"
        "date_parse (nt_occurrence n) = Some d"
      and cl: "closes r ?a (advances d (Some out) r) (?t\<lparr>tk_log := tk_log ?t @ [(n, out)]\<rparr>)
        (snd (dispatchOne E r ?a (Canon (sy_now s)) ?t))"
      unfolding sends_def by blast
    have log: "tk_log t' = sy_log s @ [(n, out)]" using cl by (simp add: t' isolate_work closes_def)
    have before: "follows e d (rem_attempt r)" if "e \<in> set (sy_log s)" "sent_id e = rem_id r" for e
      using fresh [OF that] d(1) by (elim follows_trans) auto
    have after: "follows e m k" if "e \<in> set (tk_log t')" "sent_id e = rem_id r"
      "d < m \<or> (d = m \<and> k = Suc (rem_attempt r) \<and> (case Some out of None \<Rightarrow> False | Some x \<Rightarrow> retryable_outcome x))"
      for e m k
    proof (cases "e = (n, out)")
      case True
      with that(3) n show ?thesis by (auto simp: follows_def sent_at_def)
    next
      case False
      then have "follows e d (rem_attempt r)" using before that(1,2) by (auto simp: log)
      with that(3) show ?thesis by (elim follows_trans) auto
    qed
    have "sorted_wrt log_order (tk_log t')"
      using invs(7) before n
      by (auto simp: log sorted_wrt_append log_order_def sent_at_def sent_id_def)
    moreover have "tk_db t' = sy_db s \<or> (\<exists>cpl res. advances d (Some out) r cpl \<and>
        completeFiring (sy_db s) (rem_id r) ?a cpl = Inr (tk_db t', res))"
      using cl by (simp add: t' isolate_work closes_def)
    ultimately show ?thesis
      by (intro close_inv [OF inv look st c(1) _ order_refl log _ _ _ after _ ps])
        (use n d c(2) invs(2) wf in \<open>auto simp: sent_id_def sent_at_def\<close>)
  qed
  then show ?thesis by simp
qed

lemma delivery_inv_stop: "delivery_inv s \<Longrightarrow> delivery_inv (s\<lparr>sy_pending := []\<rparr>)"
  by (auto simp: delivery_inv_def row_ok_def entry_ok_def)

text \<open>The owner's writes: a row that is not FIRING is replaced by one that is not FIRING.\<close>

lemma not_pending:
  "delivery_inv s \<Longrightarrow> lookup_reminder (sy_db s) i = Some r \<Longrightarrow> rem_status r \<noteq> RS_FIRING \<Longrightarrow>
   i \<notin> rem_id ` set (sy_pending s)"
  using delivery_invD(5) by (fastforce simp: pending_ok_def)

lemma owner_write_inv:
  assumes inv: "delivery_inv s" and wf: "wf_db db'" and rep: "replaces_row (sy_db s) db' r'"
    and clock: "sy_clock s \<le> clock" and free: "rem_id r' \<notin> rem_id ` set (sy_pending s)"
    and timed: "timed clock r'" and fresh: "rem_status r' = RS_SCHEDULED \<longrightarrow> fresh_occurrence (sy_log s) r'"
  shows "delivery_inv (s\<lparr>sy_db := db', sy_clock := clock\<rparr>)"
proof -
  note invs = delivery_invD [OF inv]
  have "delivery_inv (s\<lparr>sy_db := db', sy_log := sy_log s, sy_pending := sy_pending s, sy_clock := clock\<rparr>)"
    by (rule delivery_inv_write [OF inv wf refl _ clock timed, where es = "[]"])
      (use rep fresh free invs(3,7) in \<open>auto simp: replaces_row_def\<close>)
  then show ?thesis by simp
qed

lemma cancel_inv:
  assumes inv: "delivery_inv s" and c: "cancel_reminder (sy_db s) actor no now cond = Inr (db', res)"
  shows "delivery_inv (s\<lparr>sy_db := db'\<rparr>)"
proof -
  note laws = cancel_reminder_Inr [OF delivery_invD(1) [OF inv] c]
  show ?thesis
  proof (cases "res \<in> range CANCELED")
    case True
    then obtain r' r where r: "lookup_reminder (sy_db s) (rem_id r') = Some r" "cancelReminder r now = Inr r'"
      "replaces_row (sy_db s) db' r'"
      using laws by auto
    have "timed (sy_clock s) r'" "rem_status r' \<noteq> RS_SCHEDULED"
      using cancelReminder_fields [OF r(2)] by (simp_all add: timed_def)
    moreover have "rem_id r' \<notin> rem_id ` set (sy_pending s)"
      using cancelReminder_fields [OF r(2)] by (intro not_pending [OF inv r(1)]) simp
    ultimately have "delivery_inv (s\<lparr>sy_db := db', sy_clock := sy_clock s\<rparr>)"
      using laws by (intro owner_write_inv [OF inv _ r(3)]) auto
    then show ?thesis by simp
  next
    case False
    with laws have "db' = sy_db s" by (cases res) auto
    with inv show ?thesis by simp
  qed
qed

lemma entry_before_clock:
  assumes "delivery_inv s" "e \<in> set (sy_log s)" "sy_clock s < m"
  shows "follows e m k"
  using delivery_invD(6) [OF assms(1,2)] assms(3) by (auto simp: entry_ok_def follows_def)

lemma clock_forward: "delivery_inv s \<Longrightarrow> sy_clock s \<le> n \<Longrightarrow> delivery_inv (s\<lparr>sy_clock := n\<rparr>)"
  by (fastforce simp: delivery_inv_def row_ok_def timed_def entry_ok_def pending_ok_def)

lemma reactivateReminder_fields:
  assumes "reactivateReminder r (Canon n) t sched = Inr nxt"
  shows "rem_status nxt = RS_SCHEDULED" "\<exists>m. date_parse t = Some m \<and> n < m"
    "rem_occurrence_at nxt = Some t" "rem_next_fire_at nxt = Some t" "rem_id nxt = rem_id r"
  using assms
  by (auto simp: reactivateReminder_def Let_def isIsoInstant_def split: if_splits option.splits)

lemma reactivate_inv:
  assumes inv: "delivery_inv s" and n: "sy_clock s \<le> n" and look: "lookup_reminder (sy_db s) i = Some r"
    and re: "reactivateReminder r (Canon n) t sched = Inr nxt"
    and c: "reactivate (sy_db s) actor nxt expected m cond = Inr (db', res)"
  shows "delivery_inv (s\<lparr>sy_db := db', sy_clock := n\<rparr>)"
proof -
  note wf = delivery_invD(1) [OF inv]
  have wfn: "wf_reminder nxt" by (rule wf_reactivateReminder [OF wf_db_lookup [OF wf look] re])
  note laws = reactivate_Inr [OF wf wfn c]
  show ?thesis
  proof (cases "res \<in> range REACTIVATED")
    case True
    then obtain q where q: "lookup_reminder (sy_db s) (rem_id nxt) = Some q" "rem_status q = RS_CANCELED"
      and rep: "replaces_row (sy_db s) db' nxt" and wf': "wf_db db'"
      using laws by auto
    obtain k where k: "date_parse t = Some k" "n < k" using reactivateReminder_fields(2) [OF re] by blast
    note fields = reactivateReminder_fields [OF re]
    have occ: "occurrence_ms nxt = Some k" by (simp add: occurrence_ms_def fields k)
    have "fresh_occurrence (sy_log s) nxt"
      using entry_before_clock [OF inv] n k(2) occ by (auto simp: fresh_occurrence_def)
    moreover have "timed n nxt" using k occ fields by (simp add: timed_def)
    moreover have "rem_id nxt \<notin> rem_id ` set (sy_pending s)" by (rule not_pending [OF inv q(1)]) (simp add: q)
    ultimately show ?thesis by (intro owner_write_inv [OF inv wf' rep n]) auto
  next
    case False
    with laws have "db' = sy_db s" by (cases res) auto
    with clock_forward [OF inv n] show ?thesis by simp
  qed
qed

lemma createReminderDraft_fields:
  assumes "createReminderDraft i = Inr d"
  shows "rem_status d = RS_SCHEDULED" "rem_occurrence_at d = rem_next_fire_at d"
    "\<exists>t m. rem_next_fire_at d = Some t \<and> date_parse t = Some m"
  using assms by (auto simp: createReminderDraft_def Let_def isIsoInstant_def split: if_splits)

lemma create_inv:
  assumes inv: "delivery_inv s" and d: "createReminderDraft i = Inr d"
    and c: "createWithinLimit (sy_db s) d m cond = Inr (db', res)"
  shows "delivery_inv (s\<lparr>sy_db := db'\<rparr>)"
proof -
  note laws = createWithinLimit_Inr [OF delivery_invD(1) [OF inv] d c]
  show ?thesis
  proof (cases "res \<in> range CREATED")
    case True
    then obtain r where r: "r = numbered d (max_display_no (sy_db s) (rem_actor_id d) + 1)"
      and none: "lookup_reminder (sy_db s) (rem_id r) = None" and rep: "replaces_row (sy_db s) db' r"
      and wf': "wf_db db'"
      using laws by (auto simp: adds_row_def)
    have "fresh_occurrence (sy_log s) r"
      using delivery_invD(6) [OF inv] none by (fastforce simp: fresh_occurrence_def entry_ok_def)
    moreover have "timed (sy_clock s) r"
      using createReminderDraft_fields [OF d] by (auto simp: r timed_def occurrence_ms_def)
    moreover have "rem_id r \<notin> rem_id ` set (sy_pending s)"
      using delivery_invD(5) [OF inv] none by (fastforce simp: pending_ok_def)
    ultimately have "delivery_inv (s\<lparr>sy_db := db', sy_clock := sy_clock s\<rparr>)"
      by (intro owner_write_inv [OF inv wf' rep]) auto
    then show ?thesis by simp
  next
    case False
    with laws have "db' = sy_db s" by (cases res) auto
    with inv show ?thesis by simp
  qed
qed

text \<open>Recovery: an interrupted occurrence ends, and the next one is later than now.\<close>

lemma laterOf_ge:
  "date_parse a = Some n \<Longrightarrow> date_parse t = Some m \<Longrightarrow> date_parse (laterOf a t) = Some (max n m)"
  by (auto simp: laterOf_def)

lemma nextOccurrenceContext_later:
  assumes "nextOccurrenceContext E r (Canon n) = Inr (Some t)" "occurrence_ms r = Some m"
  shows "\<exists>k. date_parse t = Some k \<and> n < k"
proof -
  obtain u where u: "rem_occurrence_at r = Some u" "date_parse u = Some m"
    using assms(2) by (auto simp: occurrence_ms_def split: option.splits)
  with assms(1) have "nextOccurrenceAfter (rem_schedule r) (env_zone E (rem_time_zone r)) (laterOf (Canon n) u) = Inr (Some t)"
    by (auto simp: nextOccurrenceContext_def split: if_splits)
  from nextOccurrenceAfter_later [OF this] laterOf_ge [of "Canon n" n u m] u show ?thesis
    by (auto simp: nan_lt_def split: option.splits)
qed

lemma recover_advances:
  assumes f: "fired r c n" and nx: "nextOccurrenceContext E r (Canon n) = Inr nx"
    and plan: "planFiringCompletion r (Delivered (UNCERTAIN INTERRUPTED))
      \<lparr>cc_at = Canon n, cc_next_occurrence_at = nx, cc_delivered_occurrence_at = None\<rparr> = Inr cpl"
  shows "advances n None r cpl"
proof -
  have wf: "wf_completion cpl"
    using f plan by (intro wf_planFiringCompletion) (auto simp: fired_def)
  have occ: "occurrence_ms r = Some c" using f by (auto simp: fired_def occurrence_ms_def)
  show ?thesis
    using plan
  proof (cases rule: planFiringCompletion_cases)
    case (once occ)
    with wf show ?thesis by (auto simp: advances_def once_final_status_terminal)
  next
    case (recurring occ' nxt)
    then obtain k where "date_parse nxt = Some k" "n < k"
      using nextOccurrenceContext_later [of E r n nxt c] nx occ by auto
    with recurring wf show ?thesis by (auto simp: advances_def)
  qed simp
qed

text \<open>One row of the recovery writes at most the completion of that row.\<close>

lemma recover_one_write:
  obtains "fst (recover_one E now r (db, sm)) = db"
  | a nx cpl res where "nextOccurrenceContext E r now = Inr nx"
      "planFiringCompletion r (Delivered (UNCERTAIN INTERRUPTED))
        \<lparr>cc_at = now, cc_next_occurrence_at = nx, cc_delivered_occurrence_at = None\<rparr> = Inr cpl"
      "completeFiring db (rem_id r) a cpl = Inr (fst (recover_one E now r (db, sm)), res)"
proof (cases "fst (recover_one E now r (db, sm)) = db")
  case False
  then obtain a nx cpl where *: "rem_firing_attempt_id r = Some a" "nextOccurrenceContext E r now = Inr nx"
    "planFiringCompletion r (Delivered (UNCERTAIN INTERRUPTED))
        \<lparr>cc_at = now, cc_next_occurrence_at = nx, cc_delivered_occurrence_at = None\<rparr> = Inr cpl"
    "\<not> env_busy E (rem_id r)"
    by (auto simp: recover_one_def Let_def split: option.splits sum.splits if_splits)
  with False obtain db' res where "completeFiring db (rem_id r) a cpl = Inr (db', res)"
    by (auto simp: recover_one_def Let_def split: sum.splits)
  with * that(2) show thesis
    by (cases res) (auto simp: recover_one_def)
qed (use that in blast)

lemma completeFiring_other:
  assumes "wf_db db" "wf_completion c" "completeFiring db i a c = Inr (db', res)" "j \<noteq> i"
  shows "lookup_reminder db' j = lookup_reminder db j"
  using completeFiring_Inr [OF assms(1-3)] assms(4) by (auto split: complete_result.splits)

lemma recover_one_inv:
  assumes inv: "delivery_inv s" and clock: "sy_clock s = n" and none: "sy_pending s = []"
    and look: "lookup_reminder (sy_db s) (rem_id r) = Some r" and st: "rem_status r = RS_FIRING"
  fixes E :: dispatch_env and sm :: recovery_summary
  defines "db' \<equiv> fst (recover_one E (Canon n) r (sy_db s, sm))"
  shows "delivery_inv (s\<lparr>sy_db := db'\<rparr>)"
    and "j \<noteq> rem_id r \<Longrightarrow> lookup_reminder db' j = lookup_reminder (sy_db s) j"
proof -
  note invs = delivery_invD [OF inv]
  obtain c where c: "occurrence_ms r = Some c" "c \<le> n"
    using invs(4) [OF look] st clock by (auto simp: row_ok_def timed_def)
  have f: "fired r c n"
    using wf_db_lookup [OF invs(1) look] c st by (auto simp: fired_def occurrence_ms_def split: option.splits)
  have after: "follows e m k" if "e \<in> set (sy_log s)" "sent_id e = rem_id r"
      "n < m \<or> (n = m \<and> k = Suc (rem_attempt r) \<and> (case None :: delivery_outcome option of None \<Rightarrow> False | Some x \<Rightarrow> retryable_outcome x))"
    for e m k
    using entry_before_clock [OF inv that(1)] that(3) clock by simp
  have "delivery_inv (s\<lparr>sy_db := db', sy_log := sy_log s, sy_pending := [], sy_clock := n\<rparr>) \<and>
      (j \<noteq> rem_id r \<longrightarrow> lookup_reminder db' j = lookup_reminder (sy_db s) j)"
  proof (cases rule: recover_one_write [of E "Canon n" r "sy_db s" sm, folded db'_def])
    case 1
    moreover have "s\<lparr>sy_pending := [], sy_clock := n\<rparr> = s" using clock none by (cases s) simp
    ultimately show ?thesis using inv by simp
  next
    case (2 a nx cpl res)
    have adv: "advances n None r cpl" by (rule recover_advances [OF f 2(1,2)])
    then have "wf_completion cpl" by (simp add: advances_def)
    with adv 2(3) show ?thesis
      by (intro conjI impI close_inv [OF inv look st c _ _ _ _ invs(7) after, where es = "[]" and a = a])
        (auto simp: clock intro: completeFiring_other [OF invs(1)])
  qed
  moreover have "s\<lparr>sy_db := db', sy_log := sy_log s, sy_pending := [], sy_clock := n\<rparr> = s\<lparr>sy_db := db'\<rparr>"
    using clock none by (cases s) simp
  ultimately show "delivery_inv (s\<lparr>sy_db := db'\<rparr>)"
    and "j \<noteq> rem_id r \<Longrightarrow> lookup_reminder db' j = lookup_reminder (sy_db s) j"
    by simp_all
qed

lemma recover_fold_inv:
  assumes "delivery_inv s" "sy_clock s = n" "sy_pending s = []" "distinct (map rem_id rs)"
    "\<forall>r\<in>set rs. lookup_reminder (sy_db s) (rem_id r) = Some r \<and> rem_status r = RS_FIRING"
  shows "delivery_inv (s\<lparr>sy_db := fst (fold (recover_one E (Canon n)) rs (sy_db s, sm))\<rparr>)"
  using assms
proof (induction rs arbitrary: s sm)
  case (Cons r rs)
  let ?p = "recover_one E (Canon n) r (sy_db s, sm)"
  let ?s = "s\<lparr>sy_db := fst ?p\<rparr>"
  have look: "lookup_reminder (sy_db s) (rem_id r) = Some r" "rem_status r = RS_FIRING"
    using Cons.prems(5) by simp_all
  note one = recover_one_inv [OF Cons.prems(1-3) look, where E = E and sm = sm]
  have "\<forall>q\<in>set rs. lookup_reminder (sy_db ?s) (rem_id q) = Some q \<and> rem_status q = RS_FIRING"
  proof
    fix q assume q: "q \<in> set rs"
    then have "rem_id q \<noteq> rem_id r" using Cons.prems(4) by (auto simp: image_iff)
    with q Cons.prems(5) one(2) show "lookup_reminder (sy_db ?s) (rem_id q) = Some q \<and> rem_status q = RS_FIRING"
      by simp
  qed
  then have "delivery_inv (?s\<lparr>sy_db := fst (fold (recover_one E (Canon n)) rs (sy_db ?s, snd ?p))\<rparr>)"
    using Cons.prems(2-4) one(1) by (intro Cons.IH) simp_all
  then show ?case by simp
qed simp

lemma listFiring_rows:
  assumes "wf_db db"
  shows "distinct (map rem_id (listFiring db))"
    and "r \<in> set (listFiring db) \<Longrightarrow> lookup_reminder db (rem_id r) = Some r \<and> rem_status r = RS_FIRING"
proof -
  let ?ws = "order_by_fire (filter (\<lambda>w. row_status w = RS_FIRING) (db_reminders db))"
  have wfs: "wf_row w" if "w \<in> set ?ws" for w
    using that assms by (simp add: wf_db_def)
  have "map rem_id (listFiring db) = map row_id ?ws"
    by (simp add: listFiring_def wf_row_mirrors(2) wfs del: set_order_by_fire)
  moreover have "distinct (map row_id (filter (\<lambda>w. row_status w = RS_FIRING) (db_reminders db)))"
    using assms by (simp add: wf_db_def distinct_map_filter)
  ultimately show "distinct (map rem_id (listFiring db))" by (simp add: distinct_order_by_fire)
  assume "r \<in> set (listFiring db)"
  then obtain w where w: "w \<in> set ?ws" "r = row_data w" by (auto simp: listFiring_def)
  then have "w \<in> set (db_reminders db)" "row_status w = RS_FIRING" by simp_all
  with w(2) show "lookup_reminder db (rem_id r) = Some r \<and> rem_status r = RS_FIRING"
    unfolding lookup_reminder_row [OF assms] w(2) wf_row_mirrors(1,2) [OF wfs [OF w(1)]] by blast
qed

lemma recover_inv:
  assumes inv: "delivery_inv s" and none: "sy_pending s = []" and n: "sy_clock s \<le> n"
  shows "delivery_inv (s\<lparr>sy_db := fst (recoverInterrupted E (Canon n) (sy_db s)), sy_clock := n\<rparr>)"
proof -
  let ?s = "s\<lparr>sy_clock := n\<rparr>"
  have inv': "delivery_inv ?s" by (rule clock_forward [OF inv n])
  note rows = listFiring_rows [OF delivery_invD(1) [OF inv]]
  have "delivery_inv (?s\<lparr>sy_db := fst (fold (recover_one E (Canon n)) (listFiring (sy_db ?s))
      (sy_db ?s, \<lparr>rv_recovered = 0, rv_stale_completions = 0, rv_errors = 0\<rparr>))\<rparr>)"
    using rows none by (intro recover_fold_inv [OF inv']) auto
  moreover have "s\<lparr>sy_clock := n\<rparr>\<lparr>sy_db := d\<rparr> = s\<lparr>sy_db := d, sy_clock := n\<rparr>" for d
    by (cases s) simp
  moreover have "s\<lparr>sy_db := sy_db s, sy_clock := n\<rparr> = ?s" by (cases s) simp
  ultimately show ?thesis
    using inv' by (simp add: recoverInterrupted_def)
qed

text \<open>A claim: due rows become pending, and what they stand for is new.\<close>

lemma due_in_time:
  assumes inv: "delivery_inv s" and plain: "plain_years (sy_db s)" and n: "four_digit_year n"
    and w: "w \<in> set (db_reminders (sy_db s))" "due_row n w"
  shows "rem_status (row_data w) = RS_SCHEDULED" "\<exists>m. occurrence_ms (row_data w) = Some m \<and> m \<le> n"
    "fresh_occurrence (sy_log s) (row_data w)"
proof -
  note invs = delivery_invD [OF inv]
  have wf: "wf_row w" using w(1) invs(1) by (simp add: wf_db_def)
  show st: "rem_status (row_data w) = RS_SCHEDULED" using w(2) wf_row_mirrors(1) [OF wf] by (simp add: due_row_def)
  have "lookup_reminder (sy_db s) (row_id w) = Some (row_data w)"
    unfolding lookup_reminder_row [OF invs(1)] using w(1) by blast
  from invs(4) [OF this] st obtain m u k where m: "occurrence_ms (row_data w) = Some m"
    "rem_next_fire_at (row_data w) = Some u" "date_parse u = Some k" "m \<le> k"
    and fresh: "fresh_occurrence (sy_log s) (row_data w)"
    by (auto simp: row_ok_def timed_def)
  have "mirror_next_fire (row_data w) = Inr (row_next_fire_at w)" using wf unfolding wf_row_def by blast
  then have nf: "row_next_fire_at w = Some k" using m st by (simp add: mirror_next_fire_def canonicalInstant_def)
  then have "iso_text k \<le> iso_text n" "four_digit_year k"
    using w plain by (auto simp: due_row_def plain_years_def)
  then have "k \<le> n" using n by (simp add: iso_text_le_iff)
  with m show "\<exists>m. occurrence_ms (row_data w) = Some m \<and> m \<le> n" by auto
  show "fresh_occurrence (sy_log s) (row_data w)" by (rule fresh)
qed

lemma limit_ok: "0 < int maxDeliveriesPerTick" "int maxDeliveriesPerTick \<le> max_safe_integer"
  by (simp_all add: bound_simps max_safe_integer_def)

lemma claim_inv:
  assumes inv: "delivery_inv s" and n: "sy_clock s \<le> n" "four_digit_year n" and plain: "plain_years (sy_db s)"
    and c: "claimDue (sy_db s) (Canon n) (int maxDeliveriesPerTick) a = Inr (db', rs)"
  shows "delivery_inv (s\<lparr>sy_db := db', sy_pending := rs, sy_attempt := a, sy_now := n, sy_clock := n\<rparr>)"
    (is "delivery_inv ?s'")
proof -
  note invs = delivery_invD [OF inv]
  note laws = claimDue_Inr [OF invs(1) c limit_ok]
  have pend: "pending_ok ?s' r" if r: "r \<in> set rs" for r
  proof -
    obtain w where w: "w \<in> set (db_reminders (sy_db s))" "due_row n w"
      and cl: "claimReminder (row_data w) a (Canon n) = Inr r"
      using laws(4) [OF r] by blast
    note due = due_in_time [OF inv plain n(2) w]
    note fields = claimed_fields [OF cl]
    have "occurrence_ms r = occurrence_ms (row_data w)" by (simp add: occurrence_ms_def fields)
    with due fields laws(5) [OF r] show ?thesis
      by (simp add: pending_ok_def fresh_occurrence_def)
  qed
  have rows: "row_ok ?s' r" if r: "lookup_reminder db' i = Some r" for i r
  proof (cases "i \<in> rem_id ` set rs")
    case True
    then obtain q where q: "q \<in> set rs" "i = rem_id q" by blast
    with laws(5) r have "r = q" by simp
    with pend [OF q(1)] show ?thesis by (auto simp: row_ok_def timed_def pending_ok_def)
  next
    case False
    with laws(6) r have "lookup_reminder (sy_db s) i = Some r" by simp
    from invs(4) [OF this] n(1) show ?thesis by (auto simp: row_ok_def timed_def)
  qed
  have ents: "entry_ok ?s' e" if e: "e \<in> set (sy_log s)" for e
  proof -
    have "lookup_reminder db' (sent_id e) \<noteq> None"
    proof (cases "sent_id e \<in> rem_id ` set rs")
      case True
      then show ?thesis using laws(5) by auto
    next
      case False
      with laws(6) invs(6) [OF e] show ?thesis by (simp add: entry_ok_def)
    qed
    with invs(6) [OF e] n(1) show ?thesis by (auto simp: entry_ok_def)
  qed
  show ?thesis
    using laws(1,3) pend rows ents invs(7) unfolding delivery_inv_def by simp
qed

lemma reminder_step_inv: "reminder_step s s' \<Longrightarrow> delivery_inv s \<Longrightarrow> delivery_inv s'"
proof (induction rule: reminder_step.induct)
  case claim then show ?case by (intro claim_inv)
next
  case deliver then show ?case by (intro deliver_inv)
qed (simp_all add: delivery_inv_stop recover_inv create_inv cancel_inv reactivate_inv)

lemma initial_inv: "initial_system s \<Longrightarrow> delivery_inv s"
  by (auto simp: initial_system_def delivery_inv_def wf_db_def lookup_reminder_def find_row_def)

lemma reachable_inv: "reachable_system s \<Longrightarrow> delivery_inv s"
proof -
  assume "reachable_system s"
  then obtain s0 where "initial_system s0" "reminder_step\<^sup>*\<^sup>* s0 s" by (auto simp: reachable_system_def)
  from this(2) initial_inv [OF this(1)] show ?thesis
    by (induction rule: rtranclp_induct) (auto intro: reminder_step_inv)
qed

section \<open>What the order of the log says\<close>

lemma sorted_wrt_filter_le1:
  assumes "sorted_wrt R xs" "\<And>x y. P x \<Longrightarrow> P y \<Longrightarrow> \<not> R x y"
  shows "length (filter P xs) \<le> 1"
proof -
  have "sorted_wrt R (filter P xs)" by (rule sorted_wrt_filter [OF assms(1)])
  moreover have "\<forall>x\<in>set (filter P xs). P x" by simp
  ultimately show ?thesis
    using assms(2) by (cases "filter P xs" rule: remdups_adj.cases) auto
qed

lemma sorted_wrt_key_length:
  fixes f :: "'a \<Rightarrow> nat"
  assumes "sorted_wrt (\<lambda>x y. f x < f y) xs" "\<forall>x\<in>set xs. f x \<le> b"
  shows "length xs \<le> Suc b"
proof -
  have "sorted_wrt (<) (map f xs)" using assms(1) by (simp add: sorted_wrt_map)
  then have "distinct (map f xs)" by (simp add: strict_sorted_iff)
  then have "length xs = card (set (map f xs))" using distinct_card [of "map f xs"] by simp
  also have "\<dots> \<le> card {..b}" by (intro card_mono) (use assms(2) in auto)
  finally show ?thesis by simp
qed

definition sends_for :: "Id \<Rightarrow> int \<Rightarrow> sent_log \<Rightarrow> sent_log" where
  "sends_for i m log = filter (\<lambda>e. sent_id e = i \<and> sent_at e = Some m) log"

lemma sends_for_order:
  assumes "sorted_wrt log_order log"
  shows "sorted_wrt (\<lambda>e f. retryable_outcome (snd e) \<and> nt_attempt (fst e) < nt_attempt (fst f)) (sends_for i m log)"
proof -
  have "sorted_wrt log_order (sends_for i m log)"
    unfolding sends_for_def by (rule sorted_wrt_filter [OF assms])
  then show ?thesis
    by (rule sorted_wrt_mono_rel [rotated]) (auto simp: log_order_def follows_def sends_for_def)
qed

lemma reachable_sends:
  assumes "reachable_system s"
  shows "sorted_wrt (\<lambda>e f. retryable_outcome (snd e) \<and> nt_attempt (fst e) < nt_attempt (fst f)) (sends_for i m (sy_log s))"
    and "\<forall>e\<in>set (sends_for i m (sy_log s)). nt_attempt (fst e) \<le> maxRetries"
proof -
  note inv = delivery_invD [OF reachable_inv [OF assms]]
  show "sorted_wrt (\<lambda>e f. retryable_outcome (snd e) \<and> nt_attempt (fst e) < nt_attempt (fst f)) (sends_for i m (sy_log s))"
    by (rule sends_for_order [OF inv(7)])
  show "\<forall>e\<in>set (sends_for i m (sy_log s)). nt_attempt (fst e) \<le> maxRetries"
    using inv(6) by (simp add: sends_for_def entry_ok_def)
qed

section \<open>A tick is a run of the step relation\<close>

lemma dispatch_batch_steps:
  assumes "sy_pending s = rs" "sy_attempt s = a" "sy_now s = n"
    "t' = dispatch_batch E a (Canon n) k rs \<lparr>tk_db = sy_db s, tk_log = sy_log s, tk_summary = sm\<rparr>"
  shows "reminder_step\<^sup>*\<^sup>* s (s\<lparr>sy_db := tk_db t', sy_log := tk_log t', sy_pending := []\<rparr>)"
  using assms
proof (induction rs arbitrary: s k sm)
  case Nil
  then show ?case by (cases s) simp
next
  case (Cons r rs)
  let ?t = "\<lparr>tk_db = sy_db s, tk_log = sy_log s, tk_summary = sm\<rparr>"
  show ?case
  proof (cases "env_continue E k")
    case False
    with Cons.prems have "s\<lparr>sy_db := tk_db t', sy_log := tk_log t', sy_pending := []\<rparr> = s\<lparr>sy_pending := []\<rparr>"
      by (cases s) simp
    with stop [of s] show ?thesis by simp
  next
    case True
    define t1 where "t1 = isolate (dispatchOne E r a (Canon n)) ?t"
    let ?s1 = "s\<lparr>sy_db := tk_db t1, sy_log := tk_log t1, sy_pending := rs\<rparr>"
    have first: "reminder_step s ?s1"
      using Cons.prems by (intro deliver [of s r rs t1 E sm]) (simp_all add: t1_def)
    have t1: "t1 = \<lparr>tk_db = sy_db ?s1, tk_log = sy_log ?s1, tk_summary = tk_summary t1\<rparr>" by (cases t1) simp
    have "t' = dispatch_batch E a (Canon n) (Suc k) rs t1" using Cons.prems True by (simp add: t1_def)
    also have "\<dots> = dispatch_batch E a (Canon n) (Suc k) rs
        \<lparr>tk_db = sy_db ?s1, tk_log = sy_log ?s1, tk_summary = tk_summary t1\<rparr>" using t1 by (rule arg_cong)
    finally have "reminder_step\<^sup>*\<^sup>* ?s1 (?s1\<lparr>sy_db := tk_db t', sy_log := tk_log t', sy_pending := []\<rparr>)"
      using Cons.prems by (intro Cons.IH [where sm = "tk_summary t1" and k = "Suc k"]) simp_all
    moreover have "?s1\<lparr>sy_db := tk_db t', sy_log := tk_log t', sy_pending := []\<rparr> =
        s\<lparr>sy_db := tk_db t', sy_log := tk_log t', sy_pending := []\<rparr>" by (cases s) simp
    ultimately show ?thesis using first by (metis converse_rtranclp_into_rtranclp)
  qed
qed

lemma dispatchDue_steps:
  assumes "sy_pending s = []" "sy_clock s \<le> n" "four_digit_year n" "plain_years (sy_db s)"
    and wf: "wf_db (sy_db s)"
    and t': "t' = dispatchDue E a (Canon n) (sy_db s) (sy_log s)"
  shows "\<exists>s'. reminder_step\<^sup>*\<^sup>* s s' \<and> sy_db s' = tk_db t' \<and> sy_log s' = tk_log t' \<and> sy_pending s' = []"
proof (cases "env_claim_busy E")
  case True
  with assms show ?thesis by (intro exI [of _ s]) (simp add: dispatchDue_def)
next
  case False
  obtain db' rs where c: "claimDue (sy_db s) (Canon n) (int maxDeliveriesPerTick) a = Inr (db', rs)"
    using claimDue_laws [OF wf date_parse.simps(1) limit_ok, of n a] by (elim exE conjE) (rule that)
  have len: "take maxDeliveriesPerTick rs = rs" using claimDue_Inr(2) [OF wf c limit_ok] by simp
  let ?s1 = "s\<lparr>sy_db := db', sy_pending := rs, sy_attempt := a, sy_now := n, sy_clock := n\<rparr>"
  have first: "reminder_step s ?s1" using assms(1-4) c by (rule claim)
  have "t' = dispatch_batch E a (Canon n) 0 rs \<lparr>tk_db = sy_db ?s1, tk_log = sy_log ?s1,
      tk_summary = emptySummary\<lparr>sm_claimed := length rs\<rparr>\<rparr>"
    using False c len by (simp add: t' dispatchDue_def Let_def)
  then have "reminder_step\<^sup>*\<^sup>* ?s1 (?s1\<lparr>sy_db := tk_db t', sy_log := tk_log t', sy_pending := []\<rparr>)"
    by (intro dispatch_batch_steps) simp_all
  with first show ?thesis
    by (intro exI [of _ "?s1\<lparr>sy_db := tk_db t', sy_log := tk_log t', sy_pending := []\<rparr>"])
      (simp add: converse_rtranclp_into_rtranclp)
qed

section \<open>What a recovery leaves behind\<close>

lemma recover_one_once:
  assumes wf: "wf_db db" and look: "lookup_reminder db (rem_id r) = Some r" and st: "rem_status r = RS_FIRING"
    and once: "is_once (rem_schedule r)" and free: "\<not> env_busy E (rem_id r)"
  shows "\<exists>r'. lookup_reminder (fst (recover_one E now r (db, sm))) (rem_id r) = Some r' \<and>
    rem_status r' = RS_DELIVERY_UNCERTAIN"
proof -
  have "wf_reminder r" by (rule wf_db_lookup [OF wf look])
  then obtain a where a: "rem_firing_attempt_id r = Some a" using st by (auto simp: wf_reminder_def)
  have rec: "\<not> isRecurringSchedule (rem_schedule r)" using once by (simp add: once_iff_not_recurring)
  define c where "c = \<lparr>fc_status = RS_DELIVERY_UNCERTAIN, fc_schedule = None, fc_occurrence_at = None,
    fc_next_fire_at = None, fc_attempt = rem_attempt r, fc_last_outcome =
      Some (finalOccurrenceOutcome (Delivered (UNCERTAIN INTERRUPTED)) (claimed_occurrence r now) now),
    fc_updated_at = now\<rparr>"
  have plan: "planFiringCompletion r (Delivered (UNCERTAIN INTERRUPTED))
      \<lparr>cc_at = now, cc_next_occurrence_at = None, cc_delivered_occurrence_at = None\<rparr> = Inr c"
    using st rec by (simp add: planFiringCompletion_def delivered_occurrence_def c_def mk_outcome_def)
  obtain r' where ap: "applyFiringCompletion r a c = Inr r'" and st': "rem_status r' = RS_DELIVERY_UNCERTAIN"
    using st a by (simp add: applyFiringCompletion_def c_def assertTransition_def)
  have wc: "wf_completion c"
    using wf_planFiringCompletion [OF \<open>wf_reminder r\<close> plan] .
  have "mirror_next_fire r' = Inr None" using st' by (simp add: mirror_next_fire_def split: option.split)
  then obtain db' where db': "completeFiring db (rem_id r) a c = Inr (db', COMPLETED r')"
    using completeFiring_succeeds [OF wf look st a ap] by blast
  have "fst (recover_one E now r (db, sm)) = db'"
    using a rec plan free db' by (simp add: recover_one_def nextOccurrenceContext_def)
  moreover have "lookup_reminder db' (rem_id r) = Some r'"
    using completeFiring_Inr [OF wf wc db'] by auto
  ultimately show ?thesis using st' by simp
qed

lemma recover_one_frame:
  assumes wf: "wf_db db" and look: "lookup_reminder db (rem_id r) = Some r"
  shows "wf_db (fst (recover_one E now r (db, sm)))"
    and "j \<noteq> rem_id r \<Longrightarrow> lookup_reminder (fst (recover_one E now r (db, sm))) j = lookup_reminder db j"
proof -
  have "wf_db (fst (recover_one E now r (db, sm))) \<and>
    (j \<noteq> rem_id r \<longrightarrow> lookup_reminder (fst (recover_one E now r (db, sm))) j = lookup_reminder db j)"
  proof (cases rule: recover_one_write [of E now r db sm])
    case (2 a nx cpl res)
    have "wf_completion cpl" by (rule wf_planFiringCompletion [OF wf_db_lookup [OF wf look] 2(2)])
    from completeFiring_Inr [OF wf this 2(3)] completeFiring_other [OF wf this 2(3)] show ?thesis by blast
  qed (use wf in simp)
  then show "wf_db (fst (recover_one E now r (db, sm)))"
    and "j \<noteq> rem_id r \<Longrightarrow> lookup_reminder (fst (recover_one E now r (db, sm))) j = lookup_reminder db j"
    by blast+
qed

lemma recover_fold_once:
  assumes "wf_db db" "distinct (map rem_id rs)" "\<forall>i. \<not> env_busy E i"
    "\<forall>r\<in>set rs. lookup_reminder db (rem_id r) = Some r \<and> rem_status r = RS_FIRING"
  shows "(\<forall>r\<in>set rs. is_once (rem_schedule r) \<longrightarrow>
      (\<exists>r'. lookup_reminder (fst (fold (recover_one E now) rs (db, sm))) (rem_id r) = Some r' \<and>
        rem_status r' = RS_DELIVERY_UNCERTAIN)) \<and>
    (\<forall>j. j \<notin> rem_id ` set rs \<longrightarrow>
      lookup_reminder (fst (fold (recover_one E now) rs (db, sm))) j = lookup_reminder db j)"
  using assms
proof (induction rs arbitrary: db sm)
  case (Cons r rs)
  obtain db1 sm1 where p: "recover_one E now r (db, sm) = (db1, sm1)" by (cases "recover_one E now r (db, sm)")
  have look: "lookup_reminder db (rem_id r) = Some r" "rem_status r = RS_FIRING" using Cons.prems(4) by simp_all
  have new: "rem_id r \<notin> rem_id ` set rs" using Cons.prems(2) by simp
  note frame = recover_one_frame [OF Cons.prems(1) look(1), where E = E and now = now and sm = sm, unfolded p fst_conv]
  have "\<forall>q\<in>set rs. lookup_reminder db1 (rem_id q) = Some q \<and> rem_status q = RS_FIRING"
  proof
    fix q assume q: "q \<in> set rs"
    then have "rem_id q \<noteq> rem_id r" using new by (auto simp: image_iff)
    with q Cons.prems(4) frame(2) show "lookup_reminder db1 (rem_id q) = Some q \<and> rem_status q = RS_FIRING" by simp
  qed
  from Cons.IH [OF frame(1) _ Cons.prems(3) this] Cons.prems(2)
  have IH: "\<forall>q\<in>set rs. is_once (rem_schedule q) \<longrightarrow>
      (\<exists>r'. lookup_reminder (fst (fold (recover_one E now) rs (db1, sm1))) (rem_id q) = Some r' \<and>
        rem_status r' = RS_DELIVERY_UNCERTAIN)"
    "\<forall>j. j \<notin> rem_id ` set rs \<longrightarrow>
      lookup_reminder (fst (fold (recover_one E now) rs (db1, sm1))) j = lookup_reminder db1 j"
    by simp_all
  have "\<exists>r'. lookup_reminder db1 (rem_id r) = Some r' \<and> rem_status r' = RS_DELIVERY_UNCERTAIN"
    if "is_once (rem_schedule r)"
    using recover_one_once [OF Cons.prems(1) look that, of E now sm] Cons.prems(3) p by simp
  with IH new frame(2) show ?case by (simp add: p)
qed simp

end
