(* ===== verification/Reminder_Port.thy ===== *)
theory Reminder_Port
  imports Reminder_Store
begin

text \<open>
  The part of \<open>packages/core/src/ports/reminder-repository.port.ts\<close> the dispatch service calls:
  \<open>claimDue\<close> and \<open>completeFiring\<close>, with what the port promises. A client lemma is proved here from
  these laws alone; the interpretation shows that the SQLite repository keeps them.
\<close>

locale firing_store =
  fixes inv :: "'d \<Rightarrow> bool"
    and lookup :: "'d \<Rightarrow> Id \<Rightarrow> reminder option"
    and claim :: "'d \<Rightarrow> int \<Rightarrow> int \<Rightarrow> Id \<Rightarrow> 'e + ('d \<times> reminder list)"
    and finish :: "'d \<Rightarrow> Id \<Rightarrow> Id \<Rightarrow> firing_completion \<Rightarrow> 'e + ('d \<times> complete_result)"
  assumes claim_inv: "inv d \<Longrightarrow> 0 < limit \<Longrightarrow> limit \<le> max_safe_integer \<Longrightarrow>
      claim d n limit a = Inr (d', rs) \<Longrightarrow> inv d' \<and> int (length rs) \<le> limit \<and> distinct (map rem_id rs)"
    and claim_fires: "inv d \<Longrightarrow> 0 < limit \<Longrightarrow> limit \<le> max_safe_integer \<Longrightarrow>
      claim d n limit a = Inr (d', rs) \<Longrightarrow> r \<in> set rs \<Longrightarrow>
      (\<exists>r0. lookup d (rem_id r) = Some r0 \<and> rem_status r0 = RS_SCHEDULED) \<and>
      lookup d' (rem_id r) = Some r \<and> rem_status r = RS_FIRING \<and> rem_firing_attempt_id r = Some a"
    and claim_frame: "inv d \<Longrightarrow> 0 < limit \<Longrightarrow> limit \<le> max_safe_integer \<Longrightarrow>
      claim d n limit a = Inr (d', rs) \<Longrightarrow> i \<notin> rem_id ` set rs \<Longrightarrow> lookup d' i = lookup d i"
    and finish_completed: "inv d \<Longrightarrow> wf_completion c \<Longrightarrow> finish d i a c = Inr (d', COMPLETED r) \<Longrightarrow>
      inv d' \<and> (\<exists>r0. lookup d i = Some r0 \<and> rem_status r0 = RS_FIRING \<and> rem_firing_attempt_id r0 = Some a) \<and>
      rem_status r \<noteq> RS_FIRING \<and> (\<forall>j. lookup d' j = (if j = i then Some r else lookup d j))"
    and finish_conflict: "inv d \<Longrightarrow> wf_completion c \<Longrightarrow> finish d i a c = Inr (d', CONFLICT) \<Longrightarrow>
      d' = d \<and> \<not> (\<exists>r. lookup d i = Some r \<and> rem_status r = RS_FIRING \<and> rem_firing_attempt_id r = Some a)"
begin

text \<open>Two claims never hand out the same reminder while the first has not completed it.\<close>

lemma claims_disjoint:
  assumes "inv d" "0 < m" "m \<le> max_safe_integer" "0 < m'" "m' \<le> max_safe_integer"
    "claim d n m a = Inr (d1, rs)" "claim d1 n' m' a' = Inr (d2, rs')"
  shows "rem_id ` set rs \<inter> rem_id ` set rs' = {}"
proof -
  have d1: "inv d1" using claim_inv [OF assms(1-3,6)] by blast
  have "rem_id r \<noteq> rem_id r'" if r: "r \<in> set rs" "r' \<in> set rs'" for r r'
    using claim_fires [OF assms(1-3,6) r(1)] claim_fires [OF d1 assms(4,5,7) r(2)] by auto
  then show ?thesis by blast
qed

text \<open>An attempt completes a reminder at most once.\<close>

lemma completes_once:
  assumes "inv d" "wf_completion c" "wf_completion c'" "finish d i a c = Inr (d1, COMPLETED r)"
    "finish d1 i a c' = Inr (d2, res)"
  shows "res = CONFLICT \<and> d2 = d1"
proof (cases res)
  case (COMPLETED r')
  with finish_completed [OF assms(1,2,4)] finish_completed [of d1 c' i a d2 r'] assms(3,5)
  show ?thesis by auto
next
  case CONFLICT
  with finish_completed [OF assms(1,2,4)] finish_conflict [of d1 c' i a d2] assms(3,5)
  show ?thesis by blast
qed

text \<open>Completing one reminder of a batch leaves the claim of every other one as it was.\<close>

lemma completes_alone:
  assumes "inv d" "wf_completion c" "finish d i a c = Inr (d1, res)" "j \<noteq> i"
  shows "lookup d1 j = lookup d j"
proof (cases res)
  case (COMPLETED r)
  with finish_completed [OF assms(1,2)] assms(3,4) show ?thesis by metis
next
  case CONFLICT
  with finish_conflict [OF assms(1,2)] assms(3) show ?thesis by metis
qed

end

interpretation reminders: firing_store wf_db lookup_reminder "\<lambda>db n. claimDue db (Canon n)" completeFiring
proof unfold_locales
  fix d d' :: reminder_db and n limit a rs
  assume c: "wf_db d" "0 < limit" "limit \<le> max_safe_integer" "claimDue d (Canon n) limit a = Inr (d', rs)"
  note laws = claimDue_Inr [OF c(1,4,2,3)]
  show "wf_db d' \<and> int (length rs) \<le> limit \<and> distinct (map rem_id rs)" using laws(1-3) by blast
  show "(\<exists>r0. lookup_reminder d (rem_id r) = Some r0 \<and> rem_status r0 = RS_SCHEDULED) \<and>
      lookup_reminder d' (rem_id r) = Some r \<and> rem_status r = RS_FIRING \<and> rem_firing_attempt_id r = Some a"
    if r: "r \<in> set rs" for r
  proof -
    obtain w :: reminder_row where w: "claimReminder (row_data w) a (Canon n) = Inr r"
        "lookup_reminder d (rem_id r) = Some (row_data w)"
      using laws(4) [OF r] by blast
    with claimed_fields(1,2,7) [OF w(1)] laws(5) [OF r] show ?thesis by simp
  qed
  show "lookup_reminder d' i = lookup_reminder d i" if "i \<notin> rem_id ` set rs" for i
    by (rule laws(6) [OF that])
next
  fix d d' :: reminder_db and c i a r
  assume a: "wf_db d" "wf_completion c" "completeFiring d i a c = Inr (d', COMPLETED r)"
  from completeFiring_Inr [OF this] a(2) show "wf_db d' \<and>
      (\<exists>r0. lookup_reminder d i = Some r0 \<and> rem_status r0 = RS_FIRING \<and> rem_firing_attempt_id r0 = Some a) \<and>
      rem_status r \<noteq> RS_FIRING \<and> (\<forall>j. lookup_reminder d' j = (if j = i then Some r else lookup_reminder d j))"
    by (auto simp: wf_completion_def dest: applyFiringCompletion_Inr)
next
  fix d d' :: reminder_db and c i a
  assume "wf_db d" "wf_completion c" "completeFiring d i a c = Inr (d', CONFLICT)"
  from completeFiring_Inr [OF this]
  show "d' = d \<and> \<not> (\<exists>r. lookup_reminder d i = Some r \<and> rem_status r = RS_FIRING \<and> rem_firing_attempt_id r = Some a)"
    by auto
qed

end
