(* ===== verification/Reminder_Properties.thy ===== *)
theory Reminder_Properties
  imports Reminder_Delivery Reminder_Port
begin

text \<open>
  The properties of the reminder components: delivery, store, lifecycle, schedule and calendar, each
  with an instance at a concrete input. The instances share one reminder of one owner
  (\<open>example_input\<close>) and a dispatch environment whose sink delivers by direct message.
\<close>

section \<open>A concrete reminder\<close>

definition example_input :: new_reminder_input where
  "example_input = \<lparr>nri_id = ''r1'', nri_actor_id = ''owner'', nri_kind = TEXT, nri_body = js ''stretch'',
     nri_schedule = ONCE (Canon 60000), nri_time_zone = ''Asia/Seoul'',
     nri_origin = \<lparr>ctx_platform = ''discord'', ctx_space_id = None, ctx_channel_id = ''c'', ctx_thread_id = None,
       ctx_user_id = ''u'', ctx_direct = Some True\<rparr>,
     nri_first_fire_at = Canon 60000, nri_created_at = Canon 0, nri_event = None\<rparr>"

definition example_env :: dispatch_env where
  "example_env = \<lparr>env_zone = (\<lambda>_. fixed_zone 540), env_sink = (\<lambda>log n. Some (SENT Via_dm)), env_calendar = None,
     env_surface = None, env_busy = (\<lambda>_. False), env_claim_busy = False, env_continue = (\<lambda>_. True)\<rparr>"

definition example_draft :: reminder_draft where
  "example_draft = \<lparr>rem_id = ''r1'', rem_actor_id = ''owner'', rem_status = RS_SCHEDULED, rem_kind = TEXT,
     rem_body = js ''stretch'', rem_schedule = ONCE (Canon 60000), rem_time_zone = ''Asia/Seoul'',
     rem_origin = \<lparr>ctx_platform = ''discord'', ctx_space_id = None, ctx_channel_id = ''c'', ctx_thread_id = None,
       ctx_user_id = ''u'', ctx_direct = Some True\<rparr>,
     rem_occurrence_at = Some (Canon 60000), rem_next_fire_at = Some (Canon 60000), rem_attempt = 0,
     rem_firing_attempt_id = None, rem_firing_started_at = None, rem_last_outcome = None, rem_event = None,
     rem_created_at = Canon 0, rem_updated_at = Canon 0\<rparr>"

lemma example_draft: "createReminderDraft example_input = Inr example_draft"
  by (simp add: example_input_def example_draft_def createReminderDraft_def reminderBodyLength_def js_def
      js_trim_def js_whitespace_def maxBodyChars_def isIsoInstant_def Let_def)

definition example_reminder :: reminder where
  "example_reminder = numbered example_draft 1"

lemma example_fields [simp]:
  "rem_id example_reminder = ''r1''" "rem_actor_id example_reminder = ''owner''"
  "rem_status example_reminder = RS_SCHEDULED" "rem_kind example_reminder = TEXT"
  "rem_schedule example_reminder = ONCE (Canon 60000)"
  "rem_occurrence_at example_reminder = Some (Canon 60000)"
  "rem_next_fire_at example_reminder = Some (Canon 60000)" "rem_attempt example_reminder = 0"
  "rem_event example_reminder = None" "rem_display_no example_reminder = 1"
  "rem_firing_attempt_id example_reminder = None" "rem_updated_at example_reminder = Canon 0"
  "rem_last_outcome example_reminder = None" "rem_firing_started_at example_reminder = None"
  by (simp_all add: example_reminder_def example_draft_def numbered_def reminder_draft.defs reminder.defs)

definition example_row :: "reminder \<Rightarrow> reminder_row" where
  "example_row r = \<lparr>row_id = ''r1'', row_actor_id = ''owner'', row_display_no = 1,
     row_status = rem_status r, row_next_fire_at = Some 60000, row_data = r\<rparr>"

definition example_db0 :: reminder_db where
  "example_db0 = \<lparr>db_reminders = [], db_actors = []\<rparr>"

definition example_db :: reminder_db where
  "example_db = \<lparr>db_reminders = [example_row example_reminder], db_actors = []\<rparr>"

lemma example_create: "createWithinLimit example_db0 example_draft 50 None = Inr (example_db, CREATED example_reminder)"
proof -
  have d: "rem_status example_draft = RS_SCHEDULED" "rem_next_fire_at example_draft = Some (Canon 60000)"
    "rem_actor_id example_draft = ''owner''"
    by (simp_all add: example_draft_def)
  show ?thesis
    by (simp add: createWithinLimit_def d invalid_limit_def max_safe_integer_def canonicalInstant_def
        actionWriteConditionHolds_def countActive_def max_display_no_def example_db0_def example_db_def
        example_row_def example_reminder_def [symmetric])
qed

lemma example_db_wf: "wf_db example_db"
  using createWithinLimit_Inr [OF _ example_draft example_create] by (simp add: example_db0_def wf_db_def)

definition example_claimed :: reminder where
  "example_claimed = example_reminder\<lparr>rem_status := RS_FIRING, rem_firing_attempt_id := Some ''a1'',
     rem_firing_started_at := Some (Canon 60000), rem_updated_at := Canon 60000\<rparr>"

definition example_db1 :: reminder_db where
  "example_db1 = \<lparr>db_reminders = [example_row example_claimed], db_actors = []\<rparr>"

lemma example_claim: "claimDue example_db (Canon 60000) 10 ''a1'' = Inr (example_db1, [example_claimed])"
  by (simp add: claimDue_def invalid_limit_def max_safe_integer_def canonicalInstant_def example_db_def
      example_db1_def example_row_def example_claimed_def due_row_def order_by_fire_def domain_def
      claimReminder_def assertTransition_def canTransitionReminder_def db_write_def mirror_next_fire_def
      write_matches_def)

lemma example_deliver:
  "\<exists>n. sent_id (n, SENT Via_dm) = ''r1'' \<and> sent_at (n, SENT Via_dm) = Some 60000 \<and>
     tk_log (isolate (dispatchOne example_env example_claimed ''a1'' (Canon 60000))
       \<lparr>tk_db = db, tk_log = [], tk_summary = emptySummary\<rparr>) = [(n, SENT Via_dm)]"
  by (simp add: isolate_work dispatchOne_def example_claimed_def claimed_occurrence_def decide_once max_time_eq
      deliver_reminder_def run_bind_compose example_env_def deliverOnce_def run_bind_def [of "deliverOnce _ _ _ _"]
      Let_def surfaceRoute_def nextOccurrenceContext_def planFiringCompletion_def delivered_occurrence_def
      maxRetries_def mk_outcome_def complete_def tally_def split: sum.splits prod.splits complete_result.splits)
    (simp add: sent_id_def sent_at_def)

definition example_system :: "reminder_db \<Rightarrow> reminder_system" where
  "example_system db = \<lparr>sy_db = db, sy_log = [], sy_pending = [], sy_attempt = '''', sy_now = 0, sy_clock = 0\<rparr>"

lemma example_four_digits: "four_digit_year 60000"
  by code_simp

text \<open>The run: create, claim at the fire time, deliver.\<close>

lemma example_run:
  "\<exists>s. reachable_system s \<and> sends_for ''r1'' 60000 (sy_log s) \<noteq> []"
proof -
  let ?s1 = "example_system example_db"
  have "reminder_step (example_system example_db0) (example_system example_db0\<lparr>sy_db := example_db\<rparr>)"
    by (rule create [OF example_draft, where m = 50 and cond = None and res = "CREATED example_reminder"])
      (simp add: example_system_def example_create)
  then have s1: "reminder_step (example_system example_db0) ?s1" by (simp add: example_system_def)
  let ?s2 = "?s1\<lparr>sy_db := example_db1, sy_pending := [example_claimed], sy_attempt := ''a1'', sy_now := 60000, sy_clock := 60000\<rparr>"
  have plain: "plain_years example_db"
    by (simp add: plain_years_def example_db_def example_row_def example_four_digits)
  have s2: "reminder_step ?s1 ?s2"
    by (rule claim) (simp_all add: example_system_def example_four_digits maxDeliveriesPerTick_def example_claim plain)
  define t where "t = isolate (dispatchOne example_env example_claimed ''a1'' (Canon 60000))
    \<lparr>tk_db = example_db1, tk_log = [], tk_summary = emptySummary\<rparr>"
  let ?s3 = "?s2\<lparr>sy_db := tk_db t, sy_log := tk_log t, sy_pending := []\<rparr>"
  have s3: "reminder_step ?s2 ?s3"
    by (rule deliver [where E = example_env and sm = emptySummary and r = example_claimed])
      (simp_all add: t_def example_system_def)
  obtain n where "sent_id (n, SENT Via_dm) = ''r1''" "sent_at (n, SENT Via_dm) = Some 60000"
    "tk_log t = [(n, SENT Via_dm)]"
    using example_deliver [of example_db1] unfolding t_def by blast
  then have "sends_for ''r1'' 60000 (sy_log ?s3) \<noteq> []" by (simp add: sends_for_def)
  moreover have "initial_system (example_system example_db0)"
    by (simp add: initial_system_def example_system_def example_db0_def)
  then have "reachable_system ?s3"
    unfolding reachable_system_def using s1 s2 s3 by (meson rtranclp.intros)
  ultimately show ?thesis by blast
qed

section \<open>Delivery\<close>

text \<open>
  C1. At most once per occurrence: in every state the reminder subsystem can reach (claims, single
  deliveries, crashes at any point, recoveries, and the owner's create, cancel and undo in any
  order), one occurrence of a reminder has at most one delivery that was or may have been received,
  at most four deliveries in all, and each delivery but the last was a confirmed, retryable failure.
\<close>

theorem reminder_at_most_once:
  assumes "reachable_system s"
  shows "length (filter (\<lambda>e. \<not> retryable_outcome (snd e)) (sends_for i m (sy_log s))) \<le> 1 \<and>
    length (sends_for i m (sy_log s)) \<le> 4 \<and>
    (\<forall>k. Suc k < length (sends_for i m (sy_log s)) \<longrightarrow> retryable_outcome (snd (sends_for i m (sy_log s) ! k)))"
proof (intro conjI allI impI)
  note order = reachable_sends(1) [OF assms, of i m]
  show "length (filter (\<lambda>e. \<not> retryable_outcome (snd e)) (sends_for i m (sy_log s))) \<le> 1"
    by (rule sorted_wrt_filter_le1 [OF order]) simp
  have "sorted_wrt (\<lambda>e f. nt_attempt (fst e) < nt_attempt (fst f)) (sends_for i m (sy_log s))"
    by (rule sorted_wrt_mono_rel [OF _ order]) simp
  from sorted_wrt_key_length [OF this reachable_sends(2) [OF assms]]
  show "length (sends_for i m (sy_log s)) \<le> 4" by (simp add: bound_simps)
  show "retryable_outcome (snd (sends_for i m (sy_log s) ! k))" if "Suc k < length (sends_for i m (sy_log s))" for k
    using sorted_wrt_nth_less [OF order, of k "Suc k"] that by simp
qed

theorem reminder_at_most_once_witness:
  "\<exists>s. reachable_system s \<and> sends_for ''r1'' 60000 (sy_log s) \<noteq> [] \<and>
     length (filter (\<lambda>e. \<not> retryable_outcome (snd e)) (sends_for ''r1'' 60000 (sy_log s))) \<le> 1"
  using example_run reminder_at_most_once by blast

text \<open>
  C11. One tick of \<open>dispatchDue\<close> is a run of the step relation from the state it starts in to a state
  with its database and log and nothing pending: C1 speaks of the service as it is called.
\<close>

theorem dispatchDue_is_steps:
  assumes "reachable_system s" "sy_pending s = []" "sy_clock s \<le> n" "four_digit_year n" "plain_years (sy_db s)"
  shows "\<exists>s'. reachable_system s' \<and> sy_db s' = tk_db (dispatchDue E a (Canon n) (sy_db s) (sy_log s)) \<and>
    sy_log s' = tk_log (dispatchDue E a (Canon n) (sy_db s) (sy_log s)) \<and> sy_pending s' = []"
  using dispatchDue_steps [OF assms(2-5) delivery_invD(1) [OF reachable_inv [OF assms(1)]] refl, of E a] assms(1)
  unfolding reachable_system_def by (meson rtranclp_trans)

theorem dispatchDue_is_steps_witness:
  "\<exists>s'. reachable_system s' \<and>
     sy_log s' = tk_log (dispatchDue example_env ''a1'' (Canon 60000) example_db0 []) \<and> sy_pending s' = []"
proof -
  let ?s = "example_system example_db0"
  have "reachable_system ?s"
    unfolding reachable_system_def
    by (intro exI [of _ ?s]) (simp add: initial_system_def example_system_def example_db0_def)
  from dispatchDue_is_steps [OF this, of 60000 example_env "''a1''"] show ?thesis
    by (auto simp: example_system_def example_four_digits plain_years_def example_db0_def)
qed

section \<open>The store\<close>

text \<open>The calls of the repository that return.\<close>

inductive store_call :: "reminder_db \<Rightarrow> reminder_db \<Rightarrow> bool" where
  "createReminderDraft i = Inr d \<Longrightarrow> createWithinLimit db d m cond = Inr (db', r1) \<Longrightarrow> store_call db db'"
| "cancel_reminder db actor no now cond = Inr (db', r2) \<Longrightarrow> store_call db db'"
| "claimDue db (Canon n) limit a = Inr (db', rs) \<Longrightarrow> store_call db db'"
| "wf_completion c \<Longrightarrow> completeFiring db j a c = Inr (db', r3) \<Longrightarrow> store_call db db'"
| "lookup_reminder db j = Some r \<Longrightarrow> reactivateReminder r now t sched = Inr nxt \<Longrightarrow>
    reactivate db actor nxt expected m cond = Inr (db', r4) \<Longrightarrow> store_call db db'"

text \<open>
  C12. Every repository method that returns keeps the store well-formed: primary key, display numbers
  unique per actor, columns mirroring the data, and the fields of each reminder agreeing with its
  status.
\<close>

theorem repository_keeps_wf:
  assumes "store_call db db'" "wf_db db"
  shows "wf_db db'"
  using assms
proof cases
  case (3 n limit a rs)
  show ?thesis
  proof (cases "invalid_limit limit \<or> limit = 0")
    case False
    then have "0 < limit" "limit \<le> max_safe_integer" by (auto simp: invalid_limit_def)
    then show ?thesis using claimDue_Inr(1) [OF assms(2) 3] by blast
  qed (use 3 assms in \<open>auto simp: claimDue_def split: if_splits\<close>)
next
  case (5 j r now t sched nxt actor expected m cond r4)
  then show ?thesis
    using reactivate_Inr [OF assms(2) wf_reactivateReminder [OF wf_db_lookup [OF assms(2) 5(1)] 5(2)] 5(3)] by blast
next
  case (1 i d m cond r1)
  then show ?thesis using createWithinLimit_Inr [OF assms(2) 1] by blast
next
  case (2 actor no now cond r2)
  then show ?thesis using cancel_reminder_Inr [OF assms(2) 2] by blast
next
  case (4 c j a r3)
  then show ?thesis using completeFiring_Inr [OF assms(2) 4] by blast
qed

theorem repository_keeps_wf_witness: "wf_db example_db1"
  by (rule repository_keeps_wf [OF store_call.intros(3) [OF example_claim] example_db_wf])

text \<open>
  C13. A claim always returns, hands out at most \<open>limit\<close> rows, all of them due, takes as many as there
  are, and never passes over a due row for one that is due later.
\<close>

theorem claim_takes_earliest:
  assumes "wf_db db" "0 < limit" "limit \<le> max_safe_integer"
  shows "\<exists>db' rs. claimDue db (Canon n) limit a = Inr (db', rs) \<and>
    length rs = min (nat limit) (length (filter (due_row n) (db_reminders db))) \<and>
    (\<forall>r\<in>set rs. \<exists>w\<in>set (db_reminders db). due_row n w \<and> claimReminder (row_data w) a (Canon n) = Inr r \<and>
      (\<forall>v\<in>set (db_reminders db). due_row n v \<and> row_id v \<notin> rem_id ` set rs \<longrightarrow> next_fire_key w \<le> next_fire_key v))"
proof -
  let ?ws = "order_by_fire (filter (due_row n) (db_reminders db))"
  obtain db' rs where c: "claimDue db (Canon n) limit a = Inr (db', rs)"
    and all2: "list_all2 (\<lambda>w r. claimReminder (row_data w) a (Canon n) = Inr r) (take (nat limit) ?ws) rs"
    using claimDue_laws [OF assms(1) date_parse.simps(1) assms(2,3), of n a] by (elim exE conjE) (rule that)
  have len: "length rs = min (nat limit) (length (filter (due_row n) (db_reminders db)))"
    using list_all2_lengthD [OF all2] by (simp add: order_by_fire_def)
  have sub: "w \<in> set (db_reminders db) \<and> due_row n w" if "w \<in> set ?ws" for w
    using that by simp
  have wfs: "wf_row w" if "w \<in> set ?ws" for w
    using sub [OF that] assms(1) by (simp add: wf_db_def)
  have "\<forall>w\<in>set (take (nat limit) ?ws). wf_row w" using wfs by (meson in_set_takeD)
  note keys = claimed_keys [OF all2 this]
  have sorted: "sorted (map next_fire_key (take (nat limit) ?ws @ drop (nat limit) ?ws))"
    by (simp add: order_by_fire_def)
  have early: "next_fire_key w \<le> next_fire_key v"
    if w: "w \<in> set (take (nat limit) ?ws)" and v: "v \<in> set (db_reminders db)" "due_row n v" "row_id v \<notin> rem_id ` set rs" for w v
  proof -
    have "v \<in> set ?ws" using v by simp
    then have "v \<in> set (take (nat limit) ?ws) \<or> v \<in> set (drop (nat limit) ?ws)"
      by (metis append_take_drop_id in_set_conv_decomp set_append Un_iff)
    moreover have "v \<notin> set (take (nat limit) ?ws)"
      using v(3) keys by (metis image_eqI list.set_map)
    ultimately have "v \<in> set (drop (nat limit) ?ws)" by blast
    with w sorted show ?thesis unfolding map_append sorted_append by simp
  qed
  have "\<exists>w\<in>set (db_reminders db). due_row n w \<and> claimReminder (row_data w) a (Canon n) = Inr r \<and>
      (\<forall>v\<in>set (db_reminders db). due_row n v \<and> row_id v \<notin> rem_id ` set rs \<longrightarrow> next_fire_key w \<le> next_fire_key v)"
    if r: "r \<in> set rs" for r
  proof -
    obtain w where w: "w \<in> set (take (nat limit) ?ws)" "claimReminder (row_data w) a (Canon n) = Inr r"
      using claimed_rows [OF all2 r] by blast
    have "w \<in> set (db_reminders db) \<and> due_row n w" by (rule sub [OF in_set_takeD [OF w(1)]])
    with w early show ?thesis by blast
  qed
  with c len show ?thesis by blast
qed

theorem claim_takes_earliest_witness:
  "\<exists>db' rs. claimDue example_db (Canon 60000) 10 ''a1'' = Inr (db', rs) \<and> length rs = 1"
  using claim_takes_earliest [OF example_db_wf, of 10 60000 "''a1''"]
  by (auto simp: max_safe_integer_def example_db_def example_row_def due_row_def)

text \<open>Two claims never hand out the same reminder while the first claim has not completed it.
\<close>

theorem claims_are_disjoint:
  assumes "wf_db db" "claimDue db (Canon n) (int maxDeliveriesPerTick) a = Inr (db1, rs)"
    "claimDue db1 (Canon n') (int maxDeliveriesPerTick) a' = Inr (db2, rs')"
  shows "rem_id ` set rs \<inter> rem_id ` set rs' = {}"
  by (rule reminders.claims_disjoint [OF assms(1) limit_ok limit_ok assms(2,3)])

theorem claims_are_disjoint_witness:
  "\<exists>db2 rs'. claimDue example_db1 (Canon 60000) (int maxDeliveriesPerTick) ''a2'' = Inr (db2, rs') \<and>
     ''r1'' \<notin> rem_id ` set rs'"
proof -
  have c: "claimDue example_db (Canon 60000) (int maxDeliveriesPerTick) ''a1'' = Inr (example_db1, [example_claimed])"
    by (simp add: maxDeliveriesPerTick_def example_claim)
  have "wf_db example_db1" by (rule claimDue_Inr(1) [OF example_db_wf c limit_ok])
  then obtain db2 rs' where c2: "claimDue example_db1 (Canon 60000) (int maxDeliveriesPerTick) ''a2'' = Inr (db2, rs')"
    using claimDue_laws [OF _ date_parse.simps(1) limit_ok, of example_db1 60000 "''a2''"] by blast
  with claims_are_disjoint [OF example_db_wf c c2] show ?thesis by (simp add: example_claimed_def)
qed

text \<open>A firing attempt completes its reminder at most once: after a completion, the same attempt id
  only meets a conflict, which writes nothing; and a completion changes no other reminder.
\<close>

theorem attempt_completes_once:
  assumes "wf_db db" "wf_completion c" "wf_completion c'" "completeFiring db i a c = Inr (db1, COMPLETED r)"
    "completeFiring db1 i a c' = Inr (db2, res)"
  shows "res = CONFLICT \<and> db2 = db1 \<and> (\<forall>j. j \<noteq> i \<longrightarrow> lookup_reminder db1 j = lookup_reminder db j)"
  using reminders.completes_once [OF assms] reminders.completes_alone [OF assms(1,2,4)] by blast

definition example_completion :: firing_completion where
  "example_completion = \<lparr>fc_status = RS_COMPLETED, fc_schedule = None, fc_occurrence_at = None,
     fc_next_fire_at = None, fc_attempt = 0, fc_last_outcome = None, fc_updated_at = Canon 60000\<rparr>"

theorem attempt_completes_once_witness:
  "\<exists>db1 r db2 res. completeFiring example_db1 ''r1'' ''a1'' example_completion = Inr (db1, COMPLETED r) \<and>
     completeFiring db1 ''r1'' ''a1'' example_completion = Inr (db2, res) \<and> res = CONFLICT"
proof -
  have c: "claimDue example_db (Canon 60000) (int maxDeliveriesPerTick) ''a1'' = Inr (example_db1, [example_claimed])"
    by (simp add: maxDeliveriesPerTick_def example_claim)
  have wf: "wf_db example_db1" by (rule claimDue_Inr(1) [OF example_db_wf c limit_ok])
  have wc: "wf_completion example_completion" by (simp add: example_completion_def wf_completion_def)
  obtain r where ap: "applyFiringCompletion example_claimed ''a1'' example_completion = Inr r"
    and r: "rem_id r = ''r1''" "rem_next_fire_at r = None" "rem_status r = RS_COMPLETED"
    by (simp add: applyFiringCompletion_def assertTransition_def example_completion_def example_claimed_def)
  let ?db1 = "example_db1\<lparr>db_reminders := [(example_row example_claimed)\<lparr>row_status := RS_COMPLETED,
        row_next_fire_at := None, row_data := r\<rparr>]\<rparr>"
  have c1: "completeFiring example_db1 ''r1'' ''a1'' example_completion = Inr (?db1, COMPLETED r)"
    using ap r by (simp add: completeFiring_def find_row_def example_db1_def example_row_def domain_def
        db_write_def mirror_next_fire_def write_matches_def Let_def) (simp add: example_claimed_def)
  have "completeFiring ?db1 ''r1'' ''a1'' example_completion = Inr (?db1, CONFLICT)"
    by (simp add: completeFiring_def find_row_def example_row_def)
  with c1 attempt_completes_once [OF wf wc wc c1 this] show ?thesis by blast
qed

text \<open>Creation respects the limit of active reminders and numbers a new reminder above every number
  its actor ever had; a refusal (limit reached, actions stopped) writes nothing.
\<close>

theorem create_respects_limit:
  assumes "wf_db db" "createReminderDraft i = Inr d" "createWithinLimit db d m cond = Inr (db', res)"
  shows "case res of
      CREATED r \<Rightarrow> countActive db' (rem_actor_id d) \<le> m \<and> lookup_reminder db' (rem_id d) = Some r \<and>
        (\<forall>w\<in>set (db_reminders db). row_actor_id w = rem_actor_id d \<longrightarrow> row_display_no w < rem_display_no r)
    | CREATE_LIMIT_REACHED n \<Rightarrow> db' = db \<and> n = countActive db (rem_actor_id d) \<and> m \<le> n
    | CREATE_STOPPED \<Rightarrow> db' = db \<and> \<not> actionWriteConditionHolds db cond"
proof (cases res)
  case (CREATED r)
  with createWithinLimit_Inr [OF assms] max_display_no_ge [of _ db "rem_actor_id d"] show ?thesis
    by (fastforce simp: adds_row_def replaces_row_def)
qed (use assms(3) in \<open>auto simp: createWithinLimit_def Let_def err_bind_Inr_iff split: if_splits option.splits\<close>)

theorem create_respects_limit_witness: "countActive example_db ''owner'' \<le> 50"
  using create_respects_limit [OF _ example_draft example_create]
  by (simp add: example_db0_def wf_db_def example_draft_def)

section \<open>The lifecycle\<close>

text \<open>How a firing ends: only a confirmed, retryable failure with attempts left goes back to the same
  occurrence, one attempt later, after 1, 5 or 15 minutes; otherwise a recurring reminder moves to a
  strictly later occurrence with its attempts reset, and a one-time reminder becomes terminal.
\<close>

theorem completion_plan:
  assumes "planFiringCompletion r result c = Inr d"
  shows "if is_retryable result \<and> rem_attempt r < maxRetries
    then fc_status d = RS_SCHEDULED \<and> fc_attempt d = rem_attempt r + 1 \<and> fc_last_outcome d = None \<and>
      (\<exists>occ t. delivered_occurrence r c = Inr occ \<and> fc_occurrence_at d = Some occ \<and> date_parse (cc_at c) = Some t \<and>
        fc_next_fire_at d = Some (Canon (t + 60000 * [1, 5, 15] ! rem_attempt r)))
    else if isRecurringSchedule (rem_schedule r)
    then fc_status d = RS_SCHEDULED \<and> fc_attempt d = 0 \<and> fc_last_outcome d \<noteq> None \<and>
      (\<exists>occ nxt. delivered_occurrence r c = Inr occ \<and> fc_occurrence_at d = Some nxt \<and> fc_next_fire_at d = Some nxt \<and>
        isIsoInstant nxt \<and> \<not> nan_le (date_parse nxt) (date_parse occ))
    else isTerminalReminderStatus (fc_status d) \<and> fc_next_fire_at d = None \<and> fc_last_outcome d \<noteq> None \<and>
      (fc_status d = RS_COMPLETED \<longleftrightarrow> (\<exists>via. result = Delivered (SENT via))) \<and>
      (fc_status d = RS_DELIVERY_UNCERTAIN \<longleftrightarrow> (\<exists>u. result = Delivered (UNCERTAIN u)))"
  using assms
proof (cases rule: planFiringCompletion_cases)
  case (retry occ fireAt)
  then have "rem_attempt r = 0 \<or> rem_attempt r = 1 \<or> rem_attempt r = 2" by (auto simp: bound_simps)
  with retry show ?thesis
    by (auto simp: addMinutes_def to_iso_def retry_backoff_def retryBackoffMinutes_def algebra_simps
        split: option.splits if_splits)
next
  case (once occ)
  show ?thesis
  proof (cases result)
    case (Delivered out)
    with once show ?thesis by (cases out) (auto simp: mk_outcome_def)
  qed (use once in auto)
next
  case (recurring occ nxt)
  then show ?thesis by auto
qed

theorem completion_plan_witness:
  "\<exists>d. planFiringCompletion example_claimed (Delivered (UNCERTAIN TIMEOUT))
      \<lparr>cc_at = Canon 60000, cc_next_occurrence_at = None, cc_delivered_occurrence_at = None\<rparr> = Inr d \<and>
     fc_status d = RS_DELIVERY_UNCERTAIN"
proof -
  let ?c = "\<lparr>cc_at = Canon 60000, cc_next_occurrence_at = None, cc_delivered_occurrence_at = None\<rparr>"
  obtain d where d: "planFiringCompletion example_claimed (Delivered (UNCERTAIN TIMEOUT)) ?c = Inr d"
    by (simp add: planFiringCompletion_def example_claimed_def delivered_occurrence_def mk_outcome_def)
  from completion_plan [OF this] d show ?thesis by (simp add: example_claimed_def)
qed

text \<open>Terminal means final: a reminder that is COMPLETED, FAILED or DELIVERY\_UNCERTAIN is unchanged by
  every call of the repository, and a CANCELED one is unchanged unless the owner reactivates it.
\<close>

theorem terminal_is_final:
  assumes "wf_db db" "store_call db db'" "lookup_reminder db i = Some r"
    "isTerminalReminderStatus (rem_status r)" "lookup_reminder db' i = Some r'"
  shows "r' = r \<or> (rem_status r = RS_CANCELED \<and> rem_status r' = RS_SCHEDULED)"
  using assms(2)
proof cases
  case (1 j d m cond r1)
  then show ?thesis
    using createWithinLimit_Inr [OF assms(1) 1] assms(3,5)
    by (cases r1) (auto simp: adds_row_def replaces_row_def split: if_splits)
next
  case (2 actor no now cond r2)
  show ?thesis
  proof (cases r2)
    case (CANCELED q)
    with cancel_reminder_Inr [OF assms(1) 2] obtain q0 where q: "lookup_reminder db (rem_id q) = Some q0"
      "cancelReminder q0 now = Inr q" "replaces_row db db' q" by auto
    then have "i \<noteq> rem_id q" using assms(3,4) cancelReminder_fields [OF q(2)] by auto
    with q(3) assms(3,5) show ?thesis by (simp add: replaces_row_def)
  qed (use cancel_reminder_Inr [OF assms(1) 2] assms(3,5) in auto)
next
  case (3 n limit a rs)
  show ?thesis
  proof (cases "invalid_limit limit \<or> limit = 0")
    case False
    then have lim: "0 < limit" "limit \<le> max_safe_integer" by (auto simp: invalid_limit_def)
    note laws = claimDue_Inr [OF assms(1) 3 lim]
    have "i \<notin> rem_id ` set rs"
    proof
      assume "i \<in> rem_id ` set rs"
      then obtain q where q: "q \<in> set rs" "i = rem_id q" by blast
      with laws(4) [OF q(1)] assms(3) obtain w :: reminder_row where "claimReminder (row_data w) a (Canon n) = Inr q" "r = row_data w"
        by auto
      with claimed_fields(7) assms(4) show False by fastforce
    qed
    with laws(6) assms(3,5) show ?thesis by simp
  qed (use 3 assms in \<open>auto simp: claimDue_def split: if_splits\<close>)
next
  case (4 c j a r3)
  show ?thesis
  proof (cases r3)
    case (COMPLETED q)
    with completeFiring_Inr [OF assms(1) 4] obtain q0 where q: "lookup_reminder db j = Some q0"
      "rem_status q0 = RS_FIRING" "lookup_reminder db' i = (if i = j then Some q else lookup_reminder db i)" by auto
    then have "i \<noteq> j" using assms(3,4) by auto
    with q(3) assms(3,5) show ?thesis by simp
  qed (use completeFiring_Inr [OF assms(1) 4] assms(3,5) in auto)
next
  case (5 j q now t sched nxt actor expected m cond r4)
  have "rem_status nxt = RS_SCHEDULED"
    using 5(2) by (auto simp: reactivateReminder_def Let_def split: if_splits)
  then show ?thesis
    using reactivate_Inr [OF assms(1) wf_reactivateReminder [OF wf_db_lookup [OF assms(1) 5(1)] 5(2)] 5(3)] assms(3,5)
    by (cases r4) (auto simp: replaces_row_def split: if_splits)
qed

definition example_done :: reminder where
  "example_done = example_reminder\<lparr>rem_status := RS_COMPLETED, rem_occurrence_at := None, rem_next_fire_at := None\<rparr>"

theorem terminal_is_final_witness:
  "\<exists>db db'. store_call db db' \<and> lookup_reminder db ''r1'' = Some example_done \<and>
     lookup_reminder db' ''r1'' = Some example_done"
proof -
  let ?db = "\<lparr>db_reminders = [(example_row example_done)\<lparr>row_next_fire_at := None\<rparr>], db_actors = []\<rparr>"
  have wf: "wf_db ?db"
    by (simp add: wf_db_def wf_row_def example_row_def example_done_def mirror_next_fire_def wf_reminder_def)
  have look: "lookup_reminder ?db ''r1'' = Some example_done"
    by (simp add: lookup_reminder_def find_row_def example_row_def)
  have "cancel_reminder ?db ''owner'' 1 (Canon 0) None = Inr (?db, ALREADY_FINAL example_done)"
    by (simp add: cancel_reminder_def actionWriteConditionHolds_def findByDisplayNo_def max_safe_integer_def
        example_row_def) (simp add: example_done_def)
  then have call: "store_call ?db ?db" by (rule store_call.intros(2))
  have "isTerminalReminderStatus (rem_status example_done)" by (simp add: example_done_def)
  from terminal_is_final [OF wf call look this look] call look show ?thesis by blast
qed



section \<open>Schedule and calendar\<close>



text \<open>The missed-reminder policy, in any zone: a delivered recurring occurrence is the claimed one or
  a later one that has passed, at most 60 minutes old, and labelled late exactly beyond two minutes; a
  skipped one is older than 60 minutes and the next one lies in the future.
\<close>

theorem missed_policy:
  assumes "isRecurringSchedule s" "decideMissedOccurrence s z (Canon c) (Canon n) = Inr dec"
  shows "case dec of
      DELIVER t late \<Rightarrow> \<exists>d. t = Canon d \<and> c \<le> d \<and> (d = c \<or> d \<le> n) \<and> n - d \<le> 60 * 60000 \<and>
        (late \<longleftrightarrow> n - d > 2 * 60000)
    | SKIP t nxt \<Rightarrow> \<exists>d m. t = Canon d \<and> c \<le> d \<and> n - d > 60 * 60000 \<and> date_parse nxt = Some m \<and> n < m"
proof (cases dec)
  case (DELIVER t late)
  with decide_deliver [OF assms(1)] assms(2) show ?thesis by (fastforce simp: bound_simps)
next
  case (SKIP t nxt)
  with decide_skip [of s z c n t nxt] assms(2) show ?thesis
    by (auto simp: bound_simps nan_lt_def split: option.splits)
qed

theorem missed_policy_witness:
  "\<exists>dec. decideMissedOccurrence (DAILY \<lparr>tm_hour = 9, tm_minute = 0\<rparr>) (fixed_zone 540) (Canon 32400000) (Canon 43200000) = Inr dec \<and>
     (\<forall>t late. dec = DELIVER t late \<longrightarrow> (\<exists>d. t = Canon d \<and> 43200000 - d \<le> 60 * 60000)) \<and>
     (\<forall>t nxt. dec = SKIP t nxt \<longrightarrow> (\<exists>m. date_parse nxt = Some m \<and> 43200000 < m))"
proof -
  obtain dec where dec: "decideMissedOccurrence (DAILY \<lparr>tm_hour = 9, tm_minute = 0\<rparr>) (fixed_zone 540)
      (Canon 32400000) (Canon 43200000) = Inr dec"
    using decide_total_fixed [of "DAILY \<lparr>tm_hour = 9, tm_minute = 0\<rparr>" 540 43200000 32400000]
    by (auto simp: isValidLocalTime_def bound_simps)
  from missed_policy [OF _ this] dec show ?thesis by (auto split: missed_decision.splits)
qed

text \<open>Wall clock to instant, in any zone: unless the time does not exist, the instant reads back as
  the wall-clock time and is the earliest candidate that does; it is reported NONEXISTENT exactly when
  no candidate does.
\<close>

theorem zonedToUtc_reads_back:
  "if \<exists>c\<in>set (zoned_candidates z l). sameLocal (toZonedDateTime z c) l
   then snd (zonedToUtc z l) \<noteq> NONEXISTENT \<and> sameLocal (toZonedDateTime z (fst (zonedToUtc z l))) l \<and>
     (\<forall>c\<in>set (zoned_candidates z l). sameLocal (toZonedDateTime z c) l \<longrightarrow> fst (zonedToUtc z l) \<le> c)
   else snd (zonedToUtc z l) = NONEXISTENT"
  using zonedToUtc_cases [where z = z and l = l] by auto

theorem zonedToUtc_reads_back_witness:
  "\<exists>t. fst (zonedToUtc (fixed_zone 540) \<lparr>ld_year = 2026, ld_month = 10, ld_day = 20, ldt_hour = 15, ldt_minute = 0\<rparr>) = t \<and>
     sameLocal (toZonedDateTime (fixed_zone 540) t) \<lparr>ld_year = 2026, ld_month = 10, ld_day = 20, ldt_hour = 15, ldt_minute = 0\<rparr>"
proof -
  let ?l = "\<lparr>ld_year = 2026, ld_month = 10, ld_day = 20, ldt_hour = 15, ldt_minute = 0\<rparr>"
  have "proper_local ?l"
    by (simp add: proper_local_def proper_date_def mk_date_def month_length_def)
  then have "snd (zonedToUtc (fixed_zone 540) ?l) = EXACT" by (subst zonedToUtc_fixed) simp_all
  with zonedToUtc_reads_back [of "fixed_zone 540" ?l] show ?thesis by (simp split: if_splits)
qed

text \<open>
  Calendar dates and day numbers correspond: a valid date shifted by \<open>m\<close> and then by \<open>n\<close> days is the
  date shifted by \<open>m + n\<close>, shifting back returns to it, and the weekday moves with the shift.
\<close>

lemma local_days_add:
  assumes "isValidLocalDate d" "isValidLocalDate (addLocalDays d m)"
  shows "addLocalDays (addLocalDays d m) n = addLocalDays d (m + n) \<and>
    addLocalDays (addLocalDays d m) (- m) = d \<and>
    weekdayOf (addLocalDays d m) = (weekdayOf d + m) mod 7"
proof -
  have p: "proper_date d" by (rule isValidLocalDate_proper [OF assms(1)])
  have e: "day_no (addLocalDays d m) = day_no d + m"
  proof -
    have "1970 \<le> ld_year (addLocalDays d m)" using assms(2) by (simp add: isValidLocalDate_def)
    then have "100 \<le> year_of_day (day_no d + m)"
      by (simp add: addLocalDays_day_no date_of_day_def date_of_utc_def utc_full_year_def mk_date_def)
    then show ?thesis unfolding addLocalDays_day_no by (intro day_no_date_of_day) simp
  qed
  have "addLocalDays (addLocalDays d m) (- m) = d"
    unfolding addLocalDays_day_no [of "addLocalDays d m"] e by (simp add: date_of_day_day_no(1) [OF p])
  moreover have "addLocalDays (addLocalDays d m) n = addLocalDays d (m + n)"
    unfolding addLocalDays_day_no [of "addLocalDays d m"] e by (simp add: addLocalDays_day_no add.assoc)
  moreover have "weekdayOf (addLocalDays d m) = (weekdayOf d + m) mod 7"
    unfolding weekdayOf_day_no e by (simp add: mod_simps algebra_simps)
  ultimately show ?thesis by blast
qed

lemma local_days_add_witness:
  "weekdayOf (addLocalDays \<lparr>ld_year = 2024, ld_month = 2, ld_day = 28\<rparr> 2) =
     (weekdayOf \<lparr>ld_year = 2024, ld_month = 2, ld_day = 28\<rparr> + 2) mod 7"
proof -
  have "isValidLocalDate \<lparr>ld_year = 2024, ld_month = 2, ld_day = 28\<rparr>"
    "isValidLocalDate (addLocalDays \<lparr>ld_year = 2024, ld_month = 2, ld_day = 28\<rparr> 2)"
    by code_simp+
  from local_days_add [OF this] show ?thesis by blast
qed

text \<open>The due query compares timestamps as text; for instants with four-digit years that is the order
  of time, so a scheduled row is due exactly when its fire instant is not later than now.
\<close>

theorem due_is_time_order:
  assumes "four_digit_year n" "row_next_fire_at w = Some ms" "four_digit_year ms"
  shows "due_row n w \<longleftrightarrow> row_status w = RS_SCHEDULED \<and> ms \<le> n"
  using iso_text_le_iff [OF assms(3,1)] by (simp add: due_row_def assms(2))

theorem due_is_time_order_witness: "due_row 60000 (example_row example_reminder)"
  using due_is_time_order [OF example_four_digits, of "example_row example_reminder" 60000] example_four_digits
  by (simp add: example_row_def)

section \<open>Recovery\<close>



end
