(* ===== verification/Connector_Writes.thy ===== *)
theory Connector_Writes
  imports Prelude
begin

text \<open>
  Irreversible writes to external connectors: the receipts
  (\<open>packages/storage-sqlite/src/connector-write-receipt-repository.ts\<close>) and the at-most-once step
  (\<open>packages/core/src/application/connector-writes/connector-write-executor.ts\<close>).

  The table is the list of its rows in rowid order; \<open>id\<close> and \<open>idempotency_key\<close> are unique. A method is
  one transaction. Texts whose characters are checked are byte strings (the patterns admit only ASCII)
  or \<open>js_string\<close> where a length in UTF-16 units is bounded. Timestamps are compared as text.
\<close>

section \<open>Data\<close>

datatype cw_operation =
  ISSUE_COMMENT | ISSUE_TRANSITION | CHANNEL_POST
  | CALENDAR_EVENT_CREATE | CALENDAR_EVENT_UPDATE | CALENDAR_EVENT_DELETE

datatype cw_status = CW_PREPARED | CW_SENT | CW_NOT_SENT | CW_UNCERTAIN

definition not_sent_reasons :: "string list" where
  "not_sent_reasons = [''TARGET_NOT_ALLOWED'', ''INVALID_REQUEST'', ''UNAUTHORIZED'', ''FORBIDDEN'',
     ''INSUFFICIENT_SCOPE'', ''NOT_FOUND'', ''RATE_LIMITED'', ''REJECTED'', ''TRANSITION_UNAVAILABLE'',
     ''RECURRING_SERIES_REFUSED'', ''ALREADY_EXISTS'', ''TARGET_CHANGED'', ''UNAVAILABLE'']"

definition uncertain_reasons :: "string list" where
  "uncertain_reasons = [''TRANSPORT'', ''SERVER_ERROR'', ''INVALID_RESPONSE'', ''UNKNOWN'']"

definition receipt_reasons :: "string list" where
  "receipt_reasons = not_sent_reasons @ uncertain_reasons @ [''INTERRUPTED'']"

text \<open>What a writer answers; \<open>Malformed\<close> is anything without one of the three shapes.\<close>

datatype cw_outcome =
  Out_sent js_string "js_string option" "js_string option"
  | Out_not_sent string
  | Out_uncertain string
  | Malformed

record receipt_data =
  rd_external_ref :: "js_string option"
  rd_url :: "js_string option"
  rd_version :: "js_string option"
  rd_reason :: "string option"

record receipt =
  rc_id :: Id
  rc_actor :: Id
  rc_key :: string
  rc_connector :: string
  rc_operation :: cw_operation
  rc_target :: js_string
  rc_sha :: string
  rc_status :: cw_status
  rc_created_at :: string
  rc_updated_at :: string
  rc_data :: receipt_data

type_synonym receipts = "receipt list"

datatype cw_error =
  CONNECTOR_WRITE_RECEIPT_INVALID | CONNECTOR_WRITE_OUTCOME_INVALID | CONNECTOR_WRITE_REQUEST_INVALID
  | RECEIPT_ID_CONSTRAINT

section \<open>Validation\<close>

definition ascii_lower :: "char \<Rightarrow> bool" where
  "ascii_lower c \<longleftrightarrow> CHR ''a'' \<le> c \<and> c \<le> CHR ''z''"

definition ascii_upper :: "char \<Rightarrow> bool" where
  "ascii_upper c \<longleftrightarrow> CHR ''A'' \<le> c \<and> c \<le> CHR ''Z''"

definition ascii_digit :: "char \<Rightarrow> bool" where
  "ascii_digit c \<longleftrightarrow> CHR ''0'' \<le> c \<and> c \<le> CHR ''9''"

text \<open>\<open>/^[0-9a-f]{64}$/\<close>.\<close>

definition sha256_hex :: "string \<Rightarrow> bool" where
  "sha256_hex s \<longleftrightarrow> length s = 64 \<and> list_all (\<lambda>c. ascii_digit c \<or> (CHR ''a'' \<le> c \<and> c \<le> CHR ''f'')) s"

text \<open>\<open>/^[A-Za-z0-9][A-Za-z0-9:._-]{7,199}$/\<close>.\<close>

definition isConnectorWriteIdempotencyKey :: "string \<Rightarrow> bool" where
  "isConnectorWriteIdempotencyKey s \<longleftrightarrow>
     (case s of [] \<Rightarrow> False
      | c # cs \<Rightarrow> (ascii_lower c \<or> ascii_upper c \<or> ascii_digit c) \<and> 7 \<le> length cs \<and> length cs \<le> 199 \<and>
          list_all (\<lambda>d. ascii_lower d \<or> ascii_upper d \<or> ascii_digit d \<or> d \<in> set '':._-'') cs)"

text \<open>\<open>/^[a-z][a-z0-9-]{0,39}$/\<close>.\<close>

definition connector_label :: "string \<Rightarrow> bool" where
  "connector_label s \<longleftrightarrow>
     (case s of [] \<Rightarrow> False
      | c # cs \<Rightarrow> ascii_lower c \<and> length cs \<le> 39 \<and>
          list_all (\<lambda>d. ascii_lower d \<or> ascii_digit d \<or> d = CHR ''-'') cs)"

definition target_max_length :: nat where "target_max_length = 300"
definition ref_max_length :: nat where "ref_max_length = 300"
definition url_max_length :: nat where "url_max_length = 2000"

text \<open>\<open>/^[\x21-\x7e]{1,200}$/\<close>.\<close>

definition version_pattern :: "js_string \<Rightarrow> bool" where
  "version_pattern s \<longleftrightarrow> 1 \<le> length s \<and> length s \<le> 200 \<and> list_all (\<lambda>u. 0x21 \<le> u \<and> u \<le> 0x7E) s"

definition js_starts_with :: "js_string \<Rightarrow> js_string \<Rightarrow> bool" where
  "js_starts_with s p \<longleftrightarrow> take (length p) s = p"

definition keep_if :: "('a \<Rightarrow> bool) \<Rightarrow> 'a option \<Rightarrow> 'a option" where
  "keep_if p x = (case x of None \<Rightarrow> None | Some v \<Rightarrow> if p v then Some v else None)"

lemma keep_if_idem [simp]: "keep_if p (keep_if p x) = keep_if p x"
  by (cases x) (auto simp: keep_if_def)

text \<open>The whitelist of the \<open>data\<close> column.\<close>

definition receiptData :: "receipt_data \<Rightarrow> receipt_data" where
  "receiptData d =
     \<lparr>rd_external_ref = keep_if (\<lambda>s. length s > 0 \<and> length s \<le> ref_max_length) (rd_external_ref d),
      rd_url = keep_if (\<lambda>s. js_starts_with s (js ''https://'') \<and> length s \<le> url_max_length) (rd_url d),
      rd_version = keep_if version_pattern (rd_version d),
      rd_reason = keep_if (\<lambda>s. s \<in> set receipt_reasons) (rd_reason d)\<rparr>"

definition no_data :: receipt_data where
  "no_data = \<lparr>rd_external_ref = None, rd_url = None, rd_version = None, rd_reason = None\<rparr>"

fun dataOfOutcome :: "cw_outcome \<Rightarrow> receipt_data" where
  "dataOfOutcome (Out_sent r u v) =
     receiptData \<lparr>rd_external_ref = Some r, rd_url = u, rd_version = v, rd_reason = None\<rparr>"
| "dataOfOutcome (Out_not_sent reason) = receiptData (no_data\<lparr>rd_reason := Some reason\<rparr>)"
| "dataOfOutcome (Out_uncertain reason) = receiptData (no_data\<lparr>rd_reason := Some reason\<rparr>)"
| "dataOfOutcome Malformed = no_data"

definition receiptOf :: "receipt \<Rightarrow> receipt" where
  "receiptOf row = row\<lparr>rc_data := receiptData (rc_data row)\<rparr>"

section \<open>The repository\<close>

definition findByIdempotencyKey :: "receipts \<Rightarrow> string \<Rightarrow> receipt option" where
  "findByIdempotencyKey rows key = map_option receiptOf (find (\<lambda>r. rc_key r = key) rows)"

definition prepare :: "receipts \<Rightarrow> receipt \<Rightarrow> cw_error + (receipts \<times> bool \<times> receipt)" where
  "prepare rows r =
     (if rc_status r \<noteq> CW_PREPARED then Inl CONNECTOR_WRITE_RECEIPT_INVALID
      else if \<not> sha256_hex (rc_sha r) then Inl CONNECTOR_WRITE_RECEIPT_INVALID
      else (case find (\<lambda>q. rc_key q = rc_key r) rows of
          Some q \<Rightarrow> Inr (rows, False, receiptOf q)
        | None \<Rightarrow>
            if list_ex (\<lambda>q. rc_id q = rc_id r) rows then Inl RECEIPT_ID_CONSTRAINT
            else let row = r\<lparr>rc_data := receiptData (rc_data r)\<rparr> in
                 Inr (rows @ [row], True, receiptOf row)))"

fun status_of_outcome :: "cw_outcome \<Rightarrow> cw_status option" where
  "status_of_outcome (Out_sent r u v) = Some CW_SENT"
| "status_of_outcome (Out_not_sent reason) = Some CW_NOT_SENT"
| "status_of_outcome (Out_uncertain reason) = Some CW_UNCERTAIN"
| "status_of_outcome Malformed = None"

definition complete_row :: "cw_status \<Rightarrow> cw_outcome \<Rightarrow> string \<Rightarrow> receipt \<Rightarrow> receipt" where
  "complete_row st out now r = r\<lparr>rc_status := st, rc_updated_at := now, rc_data := dataOfOutcome out\<rparr>"

definition complete_receipt :: "receipts \<Rightarrow> Id \<Rightarrow> cw_outcome \<Rightarrow> string \<Rightarrow> cw_error + (receipts \<times> receipt option)" where
  "complete_receipt rows i out now =
     (case status_of_outcome out of
        None \<Rightarrow> Inl CONNECTOR_WRITE_OUTCOME_INVALID
      | Some st \<Rightarrow>
          let hit = (\<lambda>r. rc_id r = i \<and> rc_status r = CW_PREPARED);
              rows' = map (\<lambda>r. if hit r then complete_row st out now r else r) rows in
          if \<not> list_ex hit rows then Inr (rows, None)
          else Inr (rows', map_option receiptOf (find (\<lambda>r. rc_id r = i) rows')))"

definition find_receipt_by_id :: "receipts \<Rightarrow> Id \<Rightarrow> Id \<Rightarrow> receipt option" where
  "find_receipt_by_id rows i actor =
     (if i = [] \<or> actor = [] then None
      else map_option receiptOf (find (\<lambda>r. rc_id r = i \<and> rc_actor r = actor) rows))"

text \<open>\<open>ORDER BY updated_at DESC, rowid DESC LIMIT 1\<close>.\<close>

definition newest :: "receipts \<Rightarrow> receipt option" where
  "newest rows = (case rev (sort_key rc_updated_at rows) of [] \<Rightarrow> None | r # rs \<Rightarrow> Some r)"

record cw_match =
  cm_actor :: Id
  cm_connector :: string
  cm_operation :: cw_operation
  cm_target :: js_string
  cm_sha :: string

definition matches :: "cw_match \<Rightarrow> receipt \<Rightarrow> bool" where
  "matches m r \<longleftrightarrow> rc_actor r = cm_actor m \<and> rc_connector r = cm_connector m \<and>
     rc_operation r = cm_operation m \<and> rc_target r = cm_target m \<and> rc_sha r = cm_sha m"

definition findLatestSent :: "receipts \<Rightarrow> cw_match \<Rightarrow> receipt option" where
  "findLatestSent rows m = map_option receiptOf (newest (filter (\<lambda>r. matches m r \<and> rc_status r = CW_SENT) rows))"

definition findLatestUnresolved :: "receipts \<Rightarrow> cw_match \<Rightarrow> receipt option" where
  "findLatestUnresolved rows m =
     map_option receiptOf (newest (filter (\<lambda>r. matches m r \<and> rc_status r \<in> {CW_UNCERTAIN, CW_PREPARED}) rows))"

definition findLatestForOperation :: "receipts \<Rightarrow> Id \<Rightarrow> cw_operation \<Rightarrow> receipt option" where
  "findLatestForOperation rows actor op' =
     map_option receiptOf (newest (filter (\<lambda>r. rc_actor r = actor \<and> rc_operation r = op') rows))"

definition markInterruptedPreparedUncertain :: "receipts \<Rightarrow> string \<Rightarrow> receipts \<times> nat" where
  "markInterruptedPreparedUncertain rows now =
     (map (\<lambda>r. if rc_status r = CW_PREPARED
        then r\<lparr>rc_status := CW_UNCERTAIN, rc_updated_at := now, rc_data := no_data\<lparr>rd_reason := Some ''INTERRUPTED''\<rparr>\<rparr>
        else r) rows,
      length (filter (\<lambda>r. rc_status r = CW_PREPARED) rows))"

section \<open>The executor\<close>

record cw_request =
  rq_actor :: Id
  rq_key :: string
  rq_connector :: string
  rq_operation :: cw_operation
  rq_target :: js_string
  rq_sha :: string

definition assertValidRequest :: "cw_request \<Rightarrow> cw_error + unit" where
  "assertValidRequest q = guard_err CONNECTOR_WRITE_REQUEST_INVALID
     (length (rq_actor q) > 0 \<and> isConnectorWriteIdempotencyKey (rq_key q) \<and> connector_label (rq_connector q) \<and>
      length (rq_target q) > 0 \<and> length (rq_target q) \<le> target_max_length \<and> sha256_hex (rq_sha q))"

text \<open>A \<open>send\<close> that throws is \<open>None\<close>.\<close>

definition normalizeOutcome :: "cw_outcome option \<Rightarrow> cw_outcome" where
  "normalizeOutcome x = (case x of
       None \<Rightarrow> Out_uncertain ''UNKNOWN''
     | Some (Out_sent r u v) \<Rightarrow> if length r > 0 then Out_sent r u v else Out_uncertain ''INVALID_RESPONSE''
     | Some (Out_not_sent reason) \<Rightarrow> Out_not_sent reason
     | Some (Out_uncertain reason) \<Rightarrow> Out_uncertain reason
     | Some Malformed \<Rightarrow> Out_uncertain ''INVALID_RESPONSE'')"

definition prepared_receipt :: "cw_request \<Rightarrow> Id \<Rightarrow> string \<Rightarrow> receipt" where
  "prepared_receipt q i now =
     \<lparr>rc_id = i, rc_actor = rq_actor q, rc_key = rq_key q, rc_connector = rq_connector q,
      rc_operation = rq_operation q, rc_target = rq_target q, rc_sha = rq_sha q, rc_status = CW_PREPARED,
      rc_created_at = now, rc_updated_at = now, rc_data = no_data\<rparr>"

datatype cw_execution = Executed cw_outcome "receipt option" | Already receipt

text \<open>
  \<open>executeOnce\<close> run alone: the receipts, what was sent (the key), and the result. \<open>send\<close> is the
  writer's answer; \<open>i\<close>, \<open>t1\<close> and \<open>t2\<close> are the new id and the two clock readings.
\<close>

definition executeOnce ::
  "receipts \<Rightarrow> cw_request \<Rightarrow> Id \<Rightarrow> string \<Rightarrow> string \<Rightarrow> cw_outcome option \<Rightarrow> cw_error + (receipts \<times> string list \<times> cw_execution)" where
  "executeOnce rows q i t1 t2 send =
     err_bind (assertValidRequest q) (\<lambda>_.
     err_bind (prepare rows (prepared_receipt q i t1)) (\<lambda>(rows1, created, r).
       if \<not> created then Inr (rows1, [], Already r)
       else let outcome = normalizeOutcome send in
         err_bind (complete_receipt rows1 (rc_id r) outcome t2) (\<lambda>(rows2, r2).
           Inr (rows2, [rq_key q], Executed outcome r2))))"

section \<open>Laws of the repository\<close>

text \<open>
  The contract of a store that hands out a key once: what the executor relies on.
\<close>

locale reservation =
  fixes reserve :: "'d \<Rightarrow> 'q \<Rightarrow> 'e + ('d \<times> bool \<times> 'r)"
    and request_key :: "'q \<Rightarrow> 'k"
    and taken :: "'d \<Rightarrow> 'k set"
  assumes granted: "reserve d q = Inr (d', True, r) \<Longrightarrow> request_key q \<notin> taken d \<and> taken d' = insert (request_key q) (taken d)"
    and refused: "reserve d q = Inr (d', False, r) \<Longrightarrow> d' = d \<and> request_key q \<in> taken d"
begin

lemma taken_grows:
  assumes "reserve d q = Inr (d', c, r)"
  shows "taken d \<subseteq> taken d'"
  using assms granted [of d q d' r] refused [of d q d' r] by (cases c) auto

text \<open>A key that was granted is refused ever after, as long as keys are not given back.\<close>

lemma granted_once:
  assumes "reserve d q = Inr (d1, True, r)" "taken d1 \<subseteq> taken d2" "request_key q' = request_key q"
    "reserve d2 q' = Inr (d3, c, r')"
  shows "\<not> c"
  using granted [OF assms(1)] granted [of d2 q' d3 r'] assms by (cases c) auto

end

definition receipt_keys :: "receipts \<Rightarrow> string set" where
  "receipt_keys rows = rc_key ` set rows"

lemma find_None_ball: "find P xs = None \<longleftrightarrow> (\<forall>x\<in>set xs. \<not> P x)"
  by (induction xs) auto

lemma find_Some_mem: "find P xs = Some x \<Longrightarrow> x \<in> set xs \<and> P x"
  by (induction xs) (auto split: if_splits)

interpretation receipts: reservation prepare rc_key receipt_keys
proof
  fix rows rows' :: receipts and q r :: receipt
  assume "prepare rows q = Inr (rows', True, r)"
  then show "rc_key q \<notin> receipt_keys rows \<and> receipt_keys rows' = insert (rc_key q) (receipt_keys rows)"
    by (auto simp: prepare_def receipt_keys_def find_None_ball Let_def split: if_splits option.splits)
next
  fix rows rows' :: receipts and q r :: receipt
  assume "prepare rows q = Inr (rows', False, r)"
  then show "rows' = rows \<and> rc_key q \<in> receipt_keys rows"
    by (auto simp: prepare_def receipt_keys_def Let_def image_iff dest!: find_Some_mem
        split: if_splits option.splits) (metis+)?
qed

definition wf_receipts :: "receipts \<Rightarrow> bool" where
  "wf_receipts rows \<longleftrightarrow> distinct (map rc_id rows) \<and> distinct (map rc_key rows) \<and>
     (\<forall>r\<in>set rows. receiptData (rc_data r) = rc_data r)"

lemma receiptData_idem [simp]: "receiptData (receiptData d) = receiptData d"
  by (simp add: receiptData_def)

lemma receiptData_no_data [simp]: "receiptData no_data = no_data"
  by (simp add: receiptData_def no_data_def keep_if_def)

lemma receiptData_dataOfOutcome [simp]: "receiptData (dataOfOutcome out) = dataOfOutcome out"
  by (cases out) auto

lemma prepare_granted:
  assumes "prepare rows q = Inr (rows', True, r)"
  shows "rows' = rows @ [r] \<and> rc_id r = rc_id q \<and> rc_key r = rc_key q \<and> rc_status r = CW_PREPARED \<and>
    rc_id q \<notin> rc_id ` set rows \<and> receiptData (rc_data r) = rc_data r"
  using assms
  by (auto simp: prepare_def Let_def receiptOf_def list_ex_iff split: if_splits option.splits)

lemma wf_prepare: "wf_receipts rows \<Longrightarrow> prepare rows q = Inr (rows', c, r) \<Longrightarrow> wf_receipts rows'"
proof (cases c)
  case True
  assume wf: "wf_receipts rows" and p: "prepare rows q = Inr (rows', c, r)"
  from p True have p': "prepare rows q = Inr (rows', True, r)" by simp
  from prepare_granted [OF p'] receipts.granted [OF p'] wf show ?thesis
    by (auto simp: wf_receipts_def receipt_keys_def)
next
  case False
  assume "wf_receipts rows" "prepare rows q = Inr (rows', c, r)"
  with False receipts.refused show ?thesis by fastforce
qed

lemma complete_row_simps [simp]:
  "rc_id (complete_row st out now r) = rc_id r" "rc_key (complete_row st out now r) = rc_key r"
  "rc_status (complete_row st out now r) = st" "rc_data (complete_row st out now r) = dataOfOutcome out"
  by (simp_all add: complete_row_def)

lemma complete_receipt_Inr:
  assumes "complete_receipt rows i out now = Inr (rows', res)"
  obtains st where "status_of_outcome out = Some st" "st \<noteq> CW_PREPARED"
    "rows' = map (\<lambda>r. if rc_id r = i \<and> rc_status r = CW_PREPARED then complete_row st out now r else r) rows"
proof -
  from assms obtain st where st: "status_of_outcome out = Some st"
    by (auto simp: complete_receipt_def split: option.splits)
  then have "st \<noteq> CW_PREPARED" by (cases out) auto
  moreover have "rows' = map (\<lambda>r. if rc_id r = i \<and> rc_status r = CW_PREPARED then complete_row st out now r else r) rows"
    using assms st by (auto simp: complete_receipt_def Let_def list_ex_iff intro!: map_idI [symmetric] split: if_splits)
  ultimately show thesis using st that by blast
qed

lemma map_keys_if:
  assumes "\<And>r. f (g r) = f r"
  shows "map f (map (\<lambda>r. if P r then g r else r) rows) = map f rows"
  by (induction rows) (simp_all add: assms)

lemma receipt_keys_map_if:
  assumes "\<And>r. rc_key (g r) = rc_key r"
  shows "receipt_keys (map (\<lambda>r. if P r then g r else r) rows) = receipt_keys rows"
  unfolding receipt_keys_def set_map [symmetric] map_keys_if [of rc_key, OF assms] ..

lemma wf_map_if:
  assumes "wf_receipts rows" "\<And>r. rc_id (g r) = rc_id r" "\<And>r. rc_key (g r) = rc_key r"
    "\<And>r. receiptData (rc_data (g r)) = rc_data (g r)"
  shows "wf_receipts (map (\<lambda>r. if P r then g r else r) rows)"
  unfolding wf_receipts_def map_keys_if [of rc_id, OF assms(2)] map_keys_if [of rc_key, OF assms(3)]
  using assms(1,4) by (auto simp: wf_receipts_def)

lemma wf_complete:
  assumes "wf_receipts rows" "complete_receipt rows i out now = Inr (rows', res)"
  shows "wf_receipts rows'"
  using assms(2) by (rule complete_receipt_Inr) (simp add: wf_map_if assms(1))

lemma receiptData_interrupted:
  "receiptData (no_data\<lparr>rd_reason := Some ''INTERRUPTED''\<rparr>) = no_data\<lparr>rd_reason := Some ''INTERRUPTED''\<rparr>"
  by (simp add: receiptData_def no_data_def keep_if_def receipt_reasons_def)

lemma wf_interrupted: "wf_receipts rows \<Longrightarrow> wf_receipts (fst (markInterruptedPreparedUncertain rows now))"
  by (simp add: markInterruptedPreparedUncertain_def wf_map_if receiptData_interrupted)

section \<open>Concurrent writes as a step relation\<close>

text \<open>
  Several \<open>executeOnce\<close> calls at once: each prepares, then sends, then completes. \<open>cs_ready\<close> are the
  granted writes not yet sent, \<open>cs_open\<close> those sent and not yet recorded, \<open>cs_sent\<close> the keys handed to
  a writer, in order. The process may stop between any two steps.
\<close>

record cw_system =
  cs_rows :: receipts
  cs_ready :: "(Id \<times> string) list"
  cs_open :: "(Id \<times> string) list"
  cs_sent :: "string list"

inductive cw_step :: "cw_system \<Rightarrow> cw_system \<Rightarrow> bool" where
  granted: "assertValidRequest q = Inr () \<Longrightarrow> prepare (cs_rows s) (prepared_receipt q i t) = Inr (rows', True, r) \<Longrightarrow>
    cw_step s (s\<lparr>cs_rows := rows', cs_ready := cs_ready s @ [(rc_id r, rq_key q)]\<rparr>)"
| refused: "prepare (cs_rows s) (prepared_receipt q i t) = Inr (rows', False, r) \<Longrightarrow>
    cw_step s (s\<lparr>cs_rows := rows'\<rparr>)"
| send: "(i, k) \<in> set (cs_ready s) \<Longrightarrow>
    cw_step s (s\<lparr>cs_ready := remove1 (i, k) (cs_ready s), cs_open := (i, k) # cs_open s, cs_sent := cs_sent s @ [k]\<rparr>)"
| finish: "(i, k) \<in> set (cs_open s) \<Longrightarrow> complete_receipt (cs_rows s) i (normalizeOutcome x) t = Inr (rows', res) \<Longrightarrow>
    cw_step s (s\<lparr>cs_rows := rows', cs_open := remove1 (i, k) (cs_open s)\<rparr>)"
| stop: "cw_step s (s\<lparr>cs_ready := [], cs_open := []\<rparr>)"
| startup: "cs_ready s = [] \<Longrightarrow> cs_open s = [] \<Longrightarrow>
    cw_step s (s\<lparr>cs_rows := fst (markInterruptedPreparedUncertain (cs_rows s) t)\<rparr>)"

definition cw_initial :: cw_system where
  "cw_initial = \<lparr>cs_rows = [], cs_ready = [], cs_open = [], cs_sent = []\<rparr>"

definition cw_reachable :: "cw_system \<Rightarrow> bool" where
  "cw_reachable s \<longleftrightarrow> cw_step\<^sup>*\<^sup>* cw_initial s"

definition has_row :: "receipts \<Rightarrow> Id \<times> string \<Rightarrow> bool" where
  "has_row rows p \<longleftrightarrow> (\<exists>r\<in>set rows. rc_id r = fst p \<and> rc_key r = snd p)"

definition cw_inv :: "cw_system \<Rightarrow> bool" where
  "cw_inv s \<longleftrightarrow> wf_receipts (cs_rows s) \<and> distinct (map snd (cs_ready s) @ cs_sent s) \<and>
     (\<forall>p\<in>set (cs_ready s) \<union> set (cs_open s). has_row (cs_rows s) p) \<and>
     snd ` set (cs_open s) \<subseteq> set (cs_sent s) \<and> set (cs_sent s) \<subseteq> receipt_keys (cs_rows s) \<and>
     (\<forall>r\<in>set (cs_rows s). rc_status r \<in> {CW_SENT, CW_NOT_SENT} \<longrightarrow> rc_key r \<in> set (cs_sent s))"

lemma distinct_remove1_move:
  "distinct (map snd xs @ ys) \<Longrightarrow> (i, k) \<in> set xs \<Longrightarrow> distinct (map snd (remove1 (i, k) xs) @ ys @ [k])"
proof -
  assume d: "distinct (map snd xs @ ys)" and m: "(i, k) \<in> set xs"
  then obtain us vs where xs: "xs = us @ (i, k) # vs" "(i, k) \<notin> set us" by (meson split_list_first)
  then have "remove1 (i, k) xs = us @ vs" by (simp add: remove1_append)
  with d xs(1) show ?thesis by auto
qed

lemma has_row_mono: "has_row rows p \<Longrightarrow> has_row (rows @ rows') p"
  by (auto simp: has_row_def)

lemma has_row_key: "has_row rows (i, k) \<Longrightarrow> k \<in> receipt_keys rows"
  by (auto simp: has_row_def receipt_keys_def)

lemma has_row_map_if:
  assumes "\<And>r. rc_id (g r) = rc_id r" "\<And>r. rc_key (g r) = rc_key r"
  shows "has_row (map (\<lambda>r. if P r then g r else r) rows) p \<longleftrightarrow> has_row rows p"
  unfolding has_row_def by (induction rows) (auto simp: assms)

lemma cw_step_inv: "cw_step s s' \<Longrightarrow> cw_inv s \<Longrightarrow> cw_inv s'"
proof (induction rule: cw_step.induct)
  case (granted q s i t rows' r)
  note p = prepare_granted [OF granted(2)]
  have key: "rq_key q \<notin> receipt_keys (cs_rows s)" "receipt_keys rows' = insert (rq_key q) (receipt_keys (cs_rows s))"
    using receipts.granted [OF granted(2)] by (simp_all add: prepared_receipt_def)
  have wf: "wf_receipts rows'" using granted wf_prepare by (auto simp: cw_inv_def)
  have rk: "rc_key r = rq_key q" using p by (simp add: prepared_receipt_def)
  have ks: "snd ` set (cs_ready s) \<subseteq> receipt_keys (cs_rows s)" "set (cs_sent s) \<subseteq> receipt_keys (cs_rows s)"
    using granted(3) by (force simp: cw_inv_def intro: has_row_key)+
  then have "rq_key q \<notin> set (cs_sent s)" "rq_key q \<notin> snd ` set (cs_ready s)"
    using key(1) by blast+
  moreover have "has_row rows' (rc_id r, rq_key q)" using p rk by (auto simp: has_row_def)
  ultimately show ?case
    using granted(3) wf key p has_row_mono by (auto simp: cw_inv_def)
next
  case (refused s q i t rows' r)
  then have "rows' = cs_rows s" using receipts.refused by blast
  with refused show ?case by simp
next
  case (send i k s)
  then have "distinct (map snd (remove1 (i, k) (cs_ready s)) @ cs_sent s @ [k])"
    unfolding cw_inv_def by (intro distinct_remove1_move) blast+
  moreover have row: "has_row (cs_rows s) (i, k)" using send by (simp add: cw_inv_def)
  moreover have "k \<in> receipt_keys (cs_rows s)" using row by (rule has_row_key)
  moreover have "set (remove1 (i, k) (cs_ready s)) \<subseteq> set (cs_ready s)" by (rule set_remove1_subset)
  ultimately show ?case using send(2) by (auto simp: cw_inv_def)
next
  case (finish i k s x t rows' res)
  obtain st where st: "rows' = map (\<lambda>r. if rc_id r = i \<and> rc_status r = CW_PREPARED
      then complete_row st (normalizeOutcome x) t r else r) (cs_rows s)"
    using finish(2) by (rule complete_receipt_Inr)
  have wf: "wf_receipts rows'" using finish wf_complete by (auto simp: cw_inv_def)
  have keys: "receipt_keys rows' = receipt_keys (cs_rows s)" by (simp add: st receipt_keys_map_if)
  have rows: "has_row rows' p" if "has_row (cs_rows s) p" for p
    using that by (simp add: st has_row_map_if)
  have k: "k \<in> set (cs_sent s)" using finish(1,3) by (force simp: cw_inv_def)
  have own: "rc_key r = k" if "r \<in> set (cs_rows s)" "rc_id r = i" for r
  proof -
    have "has_row (cs_rows s) (i, k)" using finish(1,3) by (simp add: cw_inv_def)
    then obtain q where q: "q \<in> set (cs_rows s)" "rc_id q = i" "rc_key q = k" by (auto simp: has_row_def)
    have "distinct (map rc_id (cs_rows s))" using finish(3) by (simp add: cw_inv_def wf_receipts_def)
    then have "r = q" using that q by (auto simp: distinct_map inj_on_def)
    with q(3) show ?thesis by simp
  qed
  have sent: "\<forall>r\<in>set rows'. rc_status r \<in> {CW_SENT, CW_NOT_SENT} \<longrightarrow> rc_key r \<in> set (cs_sent s)"
    using finish(3) own k by (auto simp: st cw_inv_def)
  have sub: "set (remove1 (i, k) (cs_open s)) \<subseteq> set (cs_open s)" by (rule set_remove1_subset)
  have opn: "snd ` set (remove1 (i, k) (cs_open s)) \<subseteq> set (cs_sent s)"
  proof -
    have "snd ` set (cs_open s) \<subseteq> set (cs_sent s)" using finish(3) by (simp add: cw_inv_def)
    with image_mono [OF sub, of snd] show ?thesis by (rule subset_trans)
  qed
  have own_rows: "\<forall>p\<in>set (cs_ready s) \<union> set (remove1 (i, k) (cs_open s)). has_row rows' p"
  proof
    fix p assume "p \<in> set (cs_ready s) \<union> set (remove1 (i, k) (cs_open s))"
    then have "p \<in> set (cs_ready s) \<union> set (cs_open s)" using sub by blast
    then have "has_row (cs_rows s) p" using finish(3) by (simp add: cw_inv_def)
    then show "has_row rows' p" by (rule rows)
  qed
  show ?case using finish(3) wf keys sent opn own_rows by (simp add: cw_inv_def)
next
  case (startup s t)
  then show ?case
    using wf_interrupted [of "cs_rows s" t]
    by (auto simp: cw_inv_def markInterruptedPreparedUncertain_def receipt_keys_map_if has_row_map_if)
qed (auto simp: cw_inv_def)

lemma cw_inv_initial: "cw_inv cw_initial"
  by (simp add: cw_inv_def cw_initial_def wf_receipts_def receipt_keys_def)

lemma cw_reachable_inv: "cw_reachable s \<Longrightarrow> cw_inv s"
  unfolding cw_reachable_def
  by (induction rule: rtranclp_induct) (auto intro: cw_step_inv cw_inv_initial)

section \<open>What the receipts guarantee\<close>

lemma complete_receipt_keeps:
  assumes "complete_receipt rows i out now = Inr (rows', res)" "r \<in> set rows" "rc_status r \<noteq> CW_PREPARED"
  shows "r \<in> set rows'"
  using assms(1) by (rule complete_receipt_Inr) (use assms(2,3) in \<open>auto simp: image_iff intro!: bexI [of _ r]\<close>)

lemma prepare_keeps:
  assumes "prepare rows q = Inr (rows', c, r)"
  shows "set rows \<subseteq> set rows'"
  using assms prepare_granted [of rows q rows' r] receipts.refused [of rows q rows' r] by (cases c) auto

lemma cw_step_settled:
  "cw_step s s' \<Longrightarrow> r \<in> set (cs_rows s) \<Longrightarrow> rc_status r \<noteq> CW_PREPARED \<Longrightarrow> r \<in> set (cs_rows s')"
proof (induction rule: cw_step.induct)
  case (granted q s i t rows' r')
  with prepare_keeps [OF granted(2)] show ?case by auto
next
  case (refused s q i t rows' r')
  with prepare_keeps [OF refused(1)] show ?case by auto
next
  case (finish i k s x t rows' res)
  with complete_receipt_keeps [OF finish(2)] show ?case by simp
qed (auto simp: markInterruptedPreparedUncertain_def image_iff intro!: bexI [of _ r])

definition example_cw_request :: cw_request where
  "example_cw_request = \<lparr>rq_actor = ''u1'', rq_key = ''confirm-0001'', rq_connector = ''github'',
     rq_operation = ISSUE_COMMENT, rq_target = js ''acme/app#7'', rq_sha = replicate 64 (CHR ''a'')\<rparr>"

definition example_receipt :: receipt where
  "example_receipt = prepared_receipt example_cw_request ''r1'' ''2026-05-01T10:00:00.000Z''"

definition example_outcome :: "cw_outcome option" where
  "example_outcome = Some (Out_sent (js ''901'') None None)"

definition example_sent :: receipt where
  "example_sent = complete_row CW_SENT (the example_outcome) ''2026-05-01T10:00:02.000Z'' example_receipt"

lemma example_valid: "assertValidRequest example_cw_request = Inr ()"
  by code_simp

lemma example_sha: "sha256_hex (replicate 64 (CHR ''a''))"
  by code_simp

lemma example_prepare: "prepare [] example_receipt = Inr ([example_receipt], True, example_receipt)"
  by (simp add: prepare_def example_receipt_def prepared_receipt_def example_cw_request_def receiptOf_def
      example_sha Let_def)

lemma normalize_example: "normalizeOutcome example_outcome = the example_outcome"
  by (simp add: normalizeOutcome_def example_outcome_def js_def)

lemma example_complete:
  "complete_receipt [example_receipt] ''r1'' (the example_outcome) ''2026-05-01T10:00:02.000Z'' =
     Inr ([example_sent], Some example_sent)"
  by (simp add: complete_receipt_def example_sent_def example_receipt_def prepared_receipt_def
      receiptOf_def complete_row_def example_outcome_def)

lemma example_execution:
  "executeOnce [] example_cw_request ''r1'' ''2026-05-01T10:00:00.000Z'' ''2026-05-01T10:00:02.000Z'' example_outcome =
     Inr ([example_sent], [''confirm-0001''], Executed (the example_outcome) (Some example_sent))"
proof -
  have "rc_id example_receipt = ''r1''" "rq_key example_cw_request = ''confirm-0001''"
    by (simp_all add: example_receipt_def prepared_receipt_def example_cw_request_def)
  then show ?thesis
    using example_prepare example_complete
    by (simp add: executeOnce_def example_valid normalize_example example_receipt_def)
qed

definition example_cw_system :: cw_system where
  "example_cw_system = \<lparr>cs_rows = [example_sent], cs_ready = [], cs_open = [], cs_sent = [''confirm-0001'']\<rparr>"

lemma example_reachable: "cw_reachable example_cw_system"
proof -
  let ?s1 = "cw_initial\<lparr>cs_rows := [example_receipt], cs_ready := [(''r1'', ''confirm-0001'')]\<rparr>"
  let ?s2 = "?s1\<lparr>cs_ready := [], cs_open := [(''r1'', ''confirm-0001'')], cs_sent := [''confirm-0001'']\<rparr>"
  have "cw_step cw_initial ?s1"
    using cw_step.granted [OF example_valid, of cw_initial "''r1''" "''2026-05-01T10:00:00.000Z''"] example_prepare
    by (simp add: cw_initial_def example_receipt_def prepared_receipt_def example_cw_request_def)
  moreover have "cw_step ?s1 ?s2"
    using cw_step.send [of "''r1''" "''confirm-0001''" ?s1] by (simp add: cw_initial_def)
  moreover have "cw_step ?s2 example_cw_system"
    using cw_step.finish [of "''r1''" "''confirm-0001''" ?s2 example_outcome "''2026-05-01T10:00:02.000Z''"]
      example_complete normalize_example
    by (simp add: cw_initial_def example_cw_system_def)
  ultimately show ?thesis by (auto simp: cw_reachable_def intro: converse_rtranclp_into_rtranclp)
qed

text \<open>
  C2. However the write calls, process stops and startups interleave, no idempotency key is handed to a
  connector writer twice, and a receipt that says the write was sent, or was refused by the connector,
  belongs to a key that was handed to a writer.
\<close>

theorem connector_write_at_most_once:
  assumes "cw_reachable s"
  shows "distinct (cs_sent s) \<and>
    (\<forall>r\<in>set (cs_rows s). rc_status r \<in> {CW_SENT, CW_NOT_SENT} \<longrightarrow> rc_key r \<in> set (cs_sent s))"
  using cw_reachable_inv [OF assms] by (simp add: cw_inv_def)

theorem connector_write_at_most_once_witness:
  "cw_reachable example_cw_system \<and> cs_sent example_cw_system = [''confirm-0001''] \<and>
     distinct (cs_sent example_cw_system) \<and> rc_status example_sent = CW_SENT \<and>
     rc_key example_sent \<in> set (cs_sent example_cw_system)"
proof -
  have "example_sent \<in> set (cs_rows example_cw_system)" "rc_status example_sent = CW_SENT"
    by (simp_all add: example_cw_system_def example_sent_def)
  with connector_write_at_most_once [OF example_reachable] example_reachable show ?thesis
    by (simp add: example_cw_system_def)
qed

text \<open>A receipt that left \<open>PREPARED\<close> (sent, not sent or uncertain) is never changed and never removed by
  any later step.
\<close>

theorem settled_receipts_stay:
  assumes "cw_step\<^sup>*\<^sup>* s s'" "r \<in> set (cs_rows s)" "rc_status r \<noteq> CW_PREPARED"
  shows "r \<in> set (cs_rows s')"
  using assms by (induction rule: rtranclp_induct) (auto intro: cw_step_settled)

theorem settled_receipts_stay_witness:
  "\<exists>s'. cw_step example_cw_system s' \<and> length (cs_rows s') = 2 \<and> example_sent \<in> set (cs_rows s')"
proof -
  let ?q = "example_cw_request\<lparr>rq_key := ''confirm-0002''\<rparr>"
  let ?r = "prepared_receipt ?q ''r2'' ''t''"
  have v: "assertValidRequest ?q = Inr ()" by code_simp
  have p: "prepare [example_sent] ?r = Inr ([example_sent, ?r], True, ?r)"
    by (simp add: prepare_def prepared_receipt_def example_cw_request_def receiptOf_def example_sent_def
        example_receipt_def complete_row_def example_sha Let_def)
  have "cw_step example_cw_system (example_cw_system\<lparr>cs_rows := [example_sent, ?r], cs_ready := [(''r2'', ''confirm-0002'')]\<rparr>)"
    using cw_step.granted [OF v, of example_cw_system "''r2''" "''t''"] p
    by (simp add: example_cw_system_def prepared_receipt_def example_cw_request_def)
  moreover have "rc_status example_sent \<noteq> CW_PREPARED" by (simp add: example_sent_def)
  moreover have "example_sent \<in> set (cs_rows example_cw_system)" by (simp add: example_cw_system_def)
  ultimately show ?thesis
    using settled_receipts_stay [OF r_into_rtranclp] by (intro exI conjI) (assumption, simp, blast)
qed

lemma executeOnce_key_taken:
  assumes "executeOnce rows q i t1 t2 send = Inr (rows1, sent1, ex1)"
  shows "rq_key q \<in> receipt_keys rows1"
proof -
  from assms obtain rows0 c r where p: "prepare rows (prepared_receipt q i t1) = Inr (rows0, c, r)"
    by (auto simp: executeOnce_def err_bind_Inr_iff)
  have k: "rq_key q \<in> receipt_keys rows0"
    using p receipts.granted [of rows "prepared_receipt q i t1" rows0 r]
      receipts.refused [of rows "prepared_receipt q i t1" rows0 r]
    by (cases c) (auto simp: prepared_receipt_def)
  show ?thesis
  proof (cases c)
    case True
    with assms p obtain r2 where "complete_receipt rows0 (rc_id r) (normalizeOutcome send) t2 = Inr (rows1, r2)"
      by (auto simp: executeOnce_def err_bind_Inr_iff Let_def)
    then show ?thesis using k by (auto elim!: complete_receipt_Inr simp: receipt_keys_map_if)
  next
    case False
    with assms p k show ?thesis by (auto simp: executeOnce_def err_bind_Inr_iff)
  qed
qed

text \<open>After any call of \<open>executeOnce\<close> that returned, a second call with the same idempotency key sends
  nothing and leaves the receipts as they are: it answers with a receipt of that key, whatever else its
  request says.
\<close>

theorem executeOnce_same_key:
  assumes "executeOnce rows q i t1 t2 send = Inr (rows1, sent1, ex1)"
    and "rq_key q' = rq_key q" and "assertValidRequest q' = Inr ()"
  shows "\<exists>r. executeOnce rows1 q' i' t1' t2' send' = Inr (rows1, [], Already r) \<and> rc_key r = rq_key q"
proof -
  let ?p = "prepared_receipt q' i' t1'"
  have "rq_key q \<in> receipt_keys rows1"
    using assms(1) by (rule executeOnce_key_taken)
  then obtain r where r: "find (\<lambda>r. rc_key r = rq_key q) rows1 = Some r" "rc_key r = rq_key q"
    by (cases "find (\<lambda>r. rc_key r = rq_key q) rows1") (auto simp: find_None_ball receipt_keys_def dest: find_Some_mem)
  have "prepare rows1 ?p = Inr (rows1, False, receiptOf r)"
    using assms(2,3) r(1) by (simp add: prepare_def prepared_receipt_def assertValidRequest_def)
  then show ?thesis
    using assms(3) r(2) by (auto simp: executeOnce_def receiptOf_def)
qed

theorem executeOnce_same_key_witness:
  "\<exists>r. executeOnce [example_sent] (example_cw_request\<lparr>rq_target := js ''acme/other#1''\<rparr>) ''r9'' ''a'' ''b'' None =
     Inr ([example_sent], [], Already r) \<and> rc_key r = ''confirm-0001''"
proof -
  have "assertValidRequest (example_cw_request\<lparr>rq_target := js ''acme/other#1''\<rparr>) = Inr ()" by code_simp
  moreover have "rq_key example_cw_request = ''confirm-0001''" by (simp add: example_cw_request_def)
  ultimately show ?thesis
    using executeOnce_same_key [OF example_execution] by simp
qed

text \<open>A valid request with a fresh key and id is sent exactly once, and its receipt records what the writer
  answered: a thrown error and a malformed answer become \<open>UNCERTAIN\<close>, and the stored data hold no
  field the whitelist rejects.
\<close>

theorem executeOnce_fresh:
  assumes "assertValidRequest q = Inr ()" "rq_key q \<notin> rc_key ` set rows" "i \<notin> rc_id ` set rows"
    and "out = normalizeOutcome send"
  shows "\<exists>st row. status_of_outcome out = Some st \<and>
    executeOnce rows q i t1 t2 send = Inr (rows @ [row], [rq_key q], Executed out (Some row)) \<and>
    row = (prepared_receipt q i t1)\<lparr>rc_status := st, rc_updated_at := t2, rc_data := dataOfOutcome out\<rparr> \<and>
    (send = None \<or> send = Some Malformed \<longrightarrow> st = CW_UNCERTAIN)"
proof -
  let ?p = "prepared_receipt q i t1"
  have proj: "rc_key ?p = rq_key q" "rc_id ?p = i" "rc_status ?p = CW_PREPARED" "rc_sha ?p = rq_sha q"
    "rc_data ?p = no_data" by (simp_all add: prepared_receipt_def)
  obtain st where st: "status_of_outcome out = Some st"
    using assms(4) by (cases "status_of_outcome out") (auto simp: normalizeOutcome_def split: option.splits cw_outcome.splits if_splits)
  have none: "find (\<lambda>r. rc_key r = rq_key q) rows = None" "\<not> list_ex (\<lambda>r. rc_id r = i) rows"
    using assms(2,3) by (auto simp: find_None_ball list_ex_iff image_iff)
  have prep: "prepare rows ?p = Inr (rows @ [?p], True, ?p)"
    using assms(1) none by (simp add: prepare_def proj assertValidRequest_def receiptOf_def Let_def prepared_receipt_def)
  have others: "find (\<lambda>r. rc_id r = i) rows = None" "\<And>P. filter (\<lambda>r. rc_id r = i \<and> P r) rows = []"
    using assms(3) by (auto simp: find_None_ball filter_empty_conv)
  have "map (\<lambda>r. if rc_id r = i \<and> rc_status r = CW_PREPARED then complete_row st out t2 r else r) rows = rows"
    using assms(3) by (auto intro!: map_idI)
  moreover have "find (\<lambda>r. rc_id r = i) (rows @ [complete_row st out t2 ?p]) = Some (complete_row st out t2 ?p)"
    using others(1) by (induction rows) (auto simp: proj split: if_splits)
  ultimately have "complete_receipt (rows @ [?p]) i out t2 =
      Inr (rows @ [complete_row st out t2 ?p], Some (complete_row st out t2 ?p))"
    by (simp add: complete_receipt_def st Let_def proj receiptOf_def)
  then have "executeOnce rows q i t1 t2 send =
      Inr (rows @ [complete_row st out t2 ?p], [rq_key q], Executed out (Some (complete_row st out t2 ?p)))"
    using assms(1) assms(4) by (simp add: executeOnce_def prep proj Let_def)
  moreover have "send = None \<or> send = Some Malformed \<longrightarrow> st = CW_UNCERTAIN"
    using st assms(4) by (auto simp: normalizeOutcome_def)
  ultimately show ?thesis using st by (auto simp: complete_row_def)
qed

theorem executeOnce_fresh_witness:
  "\<exists>row. executeOnce [] example_cw_request ''r1'' ''a'' ''b'' None =
     Inr ([row], [''confirm-0001''], Executed (Out_uncertain ''UNKNOWN'') (Some row)) \<and> rc_status row = CW_UNCERTAIN"
  using executeOnce_fresh [OF example_valid, of "[]" "''r1''" "Out_uncertain ''UNKNOWN''" None "''a''" "''b''"]
  by (auto simp: normalizeOutcome_def example_cw_request_def)

text \<open>At startup every receipt still \<open>PREPARED\<close> becomes \<open>UNCERTAIN\<close> with the reason
  \<open>INTERRUPTED\<close>, every other receipt stays as it is, and the number returned is the number changed.
\<close>

theorem startup_leaves_nothing_prepared:
  "case markInterruptedPreparedUncertain rows now of (rows', n) \<Rightarrow>
     list_all2 (\<lambda>r r'. if rc_status r = CW_PREPARED
       then rc_status r' = CW_UNCERTAIN \<and> rd_reason (rc_data r') = Some ''INTERRUPTED'' \<and> rc_key r' = rc_key r
       else r' = r) rows rows' \<and>
     filter (\<lambda>r. rc_status r = CW_PREPARED) rows' = [] \<and>
     n = length (filter (\<lambda>r. rc_status r = CW_PREPARED) rows)"
  by (auto simp: markInterruptedPreparedUncertain_def list_all2_conv_all_nth filter_empty_conv)

end
