(* ===== verification/Tables.thy ===== *)
theory Tables
  imports Prelude
begin

text \<open>
  A table with a primary key, as the list of its rows in rowid order. \<open>upsert\<close> is
  \<open>INSERT ... ON CONFLICT(id) DO UPDATE\<close> (the row keeps its rowid), \<open>select\<close> is
  \<open>SELECT ... WHERE id = ?\<close>. The locale \<open>keyed_store\<close> is the contract a repository keeps.
\<close>

definition select :: "('r \<Rightarrow> 'k) \<Rightarrow> 'r list \<Rightarrow> 'k \<Rightarrow> 'r option" where
  "select f rows k = find (\<lambda>r. f r = k) rows"

fun upsert :: "('r \<Rightarrow> 'k) \<Rightarrow> 'r \<Rightarrow> 'r list \<Rightarrow> 'r list" where
  "upsert f r [] = [r]"
| "upsert f r (x # xs) = (if f x = f r then r # xs else x # upsert f r xs)"

definition remove_row :: "('r \<Rightarrow> 'k) \<Rightarrow> 'k \<Rightarrow> 'r list \<Rightarrow> 'r list" where
  "remove_row f k rows = filter (\<lambda>r. f r \<noteq> k) rows"

lemma select_Nil [simp]: "select f [] k = None"
  by (simp add: select_def)

lemma select_Cons [simp]: "select f (x # xs) k = (if f x = k then Some x else select f xs k)"
  by (simp add: select_def)

lemma select_SomeD: "select f rows k = Some r \<Longrightarrow> r \<in> set rows \<and> f r = k"
  by (induction rows) (auto split: if_splits)

lemma select_None_iff: "select f rows k = None \<longleftrightarrow> k \<notin> f ` set rows"
  by (induction rows) auto

lemma select_mem: "distinct (map f rows) \<Longrightarrow> r \<in> set rows \<Longrightarrow> select f rows (f r) = Some r"
  by (induction rows) auto

lemma select_upsert: "select f (upsert f r rows) k = (if k = f r then Some r else select f rows k)"
  by (induction rows) auto

lemma upsert_keys: "f ` set (upsert f r rows) = insert (f r) (f ` set rows)"
  by (induction rows) auto

lemma upsert_set: "x \<in> set (upsert f r rows) \<Longrightarrow> x = r \<or> (x \<in> set rows)"
  by (induction rows) (auto split: if_splits)

lemma upsert_mem [simp]: "r \<in> set (upsert f r rows)"
  by (induction rows) auto

lemma upsert_other: "x \<in> set rows \<Longrightarrow> f x \<noteq> f r \<Longrightarrow> x \<in> set (upsert f r rows)"
  by (induction rows) auto

lemma upsert_distinct: "distinct (map f rows) \<Longrightarrow> distinct (map f (upsert f r rows))"
proof (induction rows)
  case (Cons x rows)
  then have "f x \<noteq> f r \<Longrightarrow> f x \<notin> f ` set (upsert f r rows)" by (auto simp: upsert_keys)
  with Cons show ?case by (cases "f x = f r") simp_all
qed simp

lemma upsert_in_iff:
  "distinct (map f rows) \<Longrightarrow> x \<in> set (upsert f r rows) \<longleftrightarrow> x = r \<or> (x \<in> set rows \<and> f x \<noteq> f r)"
proof (induction rows)
  case (Cons a rows)
  then have "x \<in> set rows \<Longrightarrow> f x \<noteq> f a" by (metis distinct.simps(2) image_eqI list.simps(9) set_map)
  with Cons show ?case by (cases "f a = f r") auto
qed simp

lemma upsert_fresh: "f r \<notin> f ` set rows \<Longrightarrow> upsert f r rows = rows @ [r]"
  by (induction rows) auto

lemma select_remove: "select f (remove_row f k rows) j = (if j = k then None else select f rows j)"
  by (induction rows) (auto simp: remove_row_def)

section \<open>The contract of a repository\<close>

locale keyed_store =
  fixes get :: "'d \<Rightarrow> 'k \<Rightarrow> 'r option"
    and save :: "'r \<Rightarrow> 'd \<Rightarrow> 'd"
    and key :: "'r \<Rightarrow> 'k"
  assumes get_save: "get (save r d) k = (if k = key r then Some r else get d k)"
begin

text \<open>A read, a change that keeps the key, and a write touch no other row.\<close>

lemma modify_frame:
  assumes "get d k = Some r" "key (f r) = key r" "key r = k"
  shows "get (save (f r) d) k = Some (f r)" "j \<noteq> k \<Longrightarrow> get (save (f r) d) j = get d j"
  using assms by (simp_all add: get_save)

lemma save_same: "get (save r (save r d)) k = get (save r d) k"
  by (simp add: get_save)

text \<open>A property of every stored row survives a write of a row that has it.\<close>

lemma rows_preserved:
  assumes "\<And>k r. get d k = Some r \<Longrightarrow> P r" "P r'" "get (save r' d) k = Some r"
  shows "P r"
  using assms by (auto simp: get_save split: if_splits)

end

interpretation table: keyed_store "select f" "upsert f" f for f
  by unfold_locales (rule select_upsert)

end
