(* ===== verification/Domain_Model.thy ===== *)
theory Domain_Model
  imports Tables Iso_Text
begin

text \<open>
  The value types of the core domain: the enumerations of \<open>packages/core/src/domain/enums.ts\<close>, resource
  references, work items, execution plans, approval requests, tasks. Free texts are UTF-16 strings,
  identifiers are opaque. Timestamps are the \<open>iso\<close> values of the prelude.
\<close>

section \<open>Enumerations\<close>

datatype task_status =
  T_PENDING | T_PLANNING | T_WAITING_APPROVAL | T_RUNNING | T_TESTING | T_FAILED | T_CANCELED | T_COMPLETED
  | T_NEEDS_REVIEW

datatype run_status = R_STARTED | R_SUCCEEDED | R_FAILED | R_CANCELED

datatype dispatch_state = PRE_DISPATCH | DISPATCH_COMMITTED | LEGACY_UNKNOWN

datatype risk_level = LOW | MEDIUM | HIGH | CRITICAL

datatype capability =
  GENERAL_CHAT | SUMMARIZATION | DOCUMENT_ANALYSIS | CODE_IMPLEMENTATION | CODE_REVIEW
  | ARCHITECTURE_PLANNING | TEST_EXECUTION | READONLY_LOOKUP | PROJECT_ANALYSIS | EMBEDDING
  | POLICY_SENSITIVE_CHAT | IMAGE_UNDERSTANDING | INTENT_SELECTION

datatype intent_type =
  CHAT | SUMMARIZE | ANALYZE_DOCUMENT | IMPLEMENT_CODE | REVIEW_CODE | PLAN_ARCHITECTURE | RUN_TESTS
  | LOOKUP | REGISTER_PROJECT | I_PROJECT_ANALYSIS | I_UNKNOWN

datatype artifact_kind =
  MARKDOWN_REPORT | CODE_DIFF | PATCH | TEST_LOG | JIRA_REPORT | SLACK_SUMMARY | CONFLUENCE_DRAFT
  | DOCUMENT_SUMMARY

datatype execution_status = X_PENDING | X_APPROVED | X_REJECTED | X_EXECUTING | X_COMPLETED | X_FAILED

datatype approval_status = A_PENDING | A_APPROVED | A_REJECTED

datatype work_item_status = W_ACTIVE | W_COMPLETED | W_CANCELED

datatype work_item_origin = From_conversation | From_connector

definition risk_index :: "risk_level \<Rightarrow> nat" where
  "risk_index l = (case l of LOW \<Rightarrow> 0 | MEDIUM \<Rightarrow> 1 | HIGH \<Rightarrow> 2 | CRITICAL \<Rightarrow> 3)"

lemma risk_index_inj: "risk_index a = risk_index b \<longleftrightarrow> a = b"
  by (cases a; cases b) (simp_all add: risk_index_def)

text \<open>Severity is a linear order.\<close>

instantiation risk_level :: linorder
begin

definition less_eq_risk_level where "a \<le> b \<longleftrightarrow> risk_index a \<le> risk_index b"
definition less_risk_level where "a < b \<longleftrightarrow> risk_index a < risk_index (b :: risk_level)"

instance
  by standard (auto simp: less_eq_risk_level_def less_risk_level_def risk_index_inj)

end

section \<open>Resource references\<close>

record resource_ref =
  rr_source :: js_string
  rr_external_id :: js_string

definition colon :: "16 word" where "colon = 0x3A"

definition identity_of :: "resource_ref \<Rightarrow> js_string" where
  "identity_of r = rr_source r @ colon # rr_external_id r"

text \<open>\<open>new ResourceRef\<close>: both parts are trimmed; a blank part throws.\<close>

definition requireIdentityPart :: "js_string \<Rightarrow> js_string option" where
  "requireIdentityPart s = (if js_trim s = [] then None else Some (js_trim s))"

definition mk_resource_ref :: "resource_ref \<Rightarrow> resource_ref option" where
  "mk_resource_ref r = (case (requireIdentityPart (rr_source r), requireIdentityPart (rr_external_id r)) of
     (Some s, Some e) \<Rightarrow> Some \<lparr>rr_source = s, rr_external_id = e\<rparr> | _ \<Rightarrow> None)"

definition ref_equals :: "resource_ref \<Rightarrow> resource_ref \<Rightarrow> bool" where
  "ref_equals a b \<longleftrightarrow> rr_source a = rr_source b \<and> rr_external_id a = rr_external_id b"

section \<open>Work items\<close>

record work_item =
  wi_id :: js_string
  wi_actor :: Id
  wi_project :: "Id option"
  wi_title :: "js_string option"
  wi_refs :: "resource_ref list"
  wi_status :: work_item_status
  wi_origin :: work_item_origin
  wi_created_at :: iso
  wi_updated_at :: iso

section \<open>Execution plans and approvals\<close>

record integrity_ref =
  ir_kind :: string
  ir_contract_version :: string
  ir_digest :: string

record estimated_changes =
  ec_file_count :: nat
  ec_changed_lines :: "nat option"
  ec_scope :: string

record execution_step =
  es_id :: Id
  es_title :: js_string
  es_description :: js_string
  es_capability :: capability
  es_status :: execution_status

record execution_plan =
  ep_id :: Id
  ep_goal :: js_string
  ep_summary :: js_string
  ep_steps :: "execution_step list"
  ep_capabilities :: "capability list"
  ep_resources :: "js_string list"
  ep_estimated :: estimated_changes
  ep_approval_required :: bool
  ep_overall_risk :: risk_level
  ep_artifacts :: "artifact_kind list"
  ep_status :: execution_status
  ep_integrity :: "integrity_ref option"
  ep_project :: "Id option"
  ep_created_at :: iso

record plan_ref =
  pr_id :: Id
  pr_goal :: js_string
  pr_integrity :: "integrity_ref option"

definition executionPlanRef :: "execution_plan \<Rightarrow> plan_ref" where
  "executionPlanRef p = \<lparr>pr_id = ep_id p, pr_goal = ep_goal p, pr_integrity = ep_integrity p\<rparr>"

record approval_request =
  ar_id :: Id
  ar_plan :: plan_ref
  ar_status :: approval_status
  ar_risk :: risk_level
  ar_reason :: js_string
  ar_requested_by :: js_string
  ar_decision :: "bool option"
  ar_decided_by :: "js_string option"
  ar_decided_at :: "iso option"
  ar_comment :: "js_string option"
  ar_task :: "Id option"
  ar_created_at :: iso
  ar_updated_at :: iso

record approval_decision =
  ad_approval :: Id
  ad_approved :: bool
  ad_decided_by :: js_string
  ad_decided_at :: iso
  ad_comment :: "js_string option"

record approval_ref =
  af_id :: Id
  af_status :: approval_status
  af_plan :: plan_ref

definition approvalRef :: "approval_request \<Rightarrow> approval_ref" where
  "approvalRef r = \<lparr>af_id = ar_id r, af_status = ar_status r, af_plan = ar_plan r\<rparr>"

end
