(* ===== verification/Work_Items.thy ===== *)
theory Work_Items
  imports Domain_Model Reminder_Store
begin

text \<open>
  Work items: \<open>domain/work-item.ts\<close>, \<open>application/work-manager.ts\<close> and
  \<open>SqliteWorkItemRepository\<close>. A table row is the item its \<open>data\<close> column holds. Mutations of one
  item run one after another (\<open>serialize\<close>), so a read-modify-write is one step of the model.
\<close>

section \<open>The aggregate\<close>

fun canTransitionWorkItem :: "work_item_status \<Rightarrow> work_item_status \<Rightarrow> bool" where
  "canTransitionWorkItem W_ACTIVE to = (to \<in> {W_COMPLETED, W_CANCELED})"
| "canTransitionWorkItem W_COMPLETED to = False"
| "canTransitionWorkItem W_CANCELED to = False"

datatype work_error =
  INVALID_WORK_TRANSITION work_item_status work_item_status | REOPEN_NOT_FINAL | REOPEN_CHANGED
  | TITLE_EMPTY | TITLE_TOO_LONG | CORRELATE_NOT_ACTIVE | TOO_MANY_REFS | WORK_ITEM_NOT_FOUND js_string
  | ACTION_WRITE_STOPPED

definition transitionWorkItem :: "work_item \<Rightarrow> work_item_status \<Rightarrow> iso \<Rightarrow> work_error + work_item" where
  "transitionWorkItem item to at =
     (if \<not> canTransitionWorkItem (wi_status item) to then Inl (INVALID_WORK_TRANSITION (wi_status item) to)
      else Inr (item\<lparr>wi_status := to, wi_updated_at := at\<rparr>))"

definition reopenWorkItem :: "work_item \<Rightarrow> iso \<Rightarrow> iso \<Rightarrow> work_error + work_item" where
  "reopenWorkItem item at expected =
     (if wi_status item \<noteq> W_COMPLETED \<and> wi_status item \<noteq> W_CANCELED then Inl REOPEN_NOT_FINAL
      else if wi_updated_at item \<noteq> expected then Inl REOPEN_CHANGED
      else Inr (item\<lparr>wi_status := W_ACTIVE, wi_updated_at := at\<rparr>))"

definition uniqueResourceRefs :: "resource_ref list \<Rightarrow> resource_ref list" where
  "uniqueResourceRefs refs = dedup_by identity_of [] refs"

definition work_item_max_resource_refs :: nat where "work_item_max_resource_refs = 10"
definition work_item_max_title_length :: nat where "work_item_max_title_length = 200"

text \<open>\<open>.replace(/\s+/g, ' ')\<close>.\<close>

definition space :: "16 word" where "space = 0x20"

fun collapse_white :: "bool \<Rightarrow> js_string \<Rightarrow> js_string" where
  "collapse_white in_run [] = []"
| "collapse_white in_run (u # us) =
     (if js_whitespace u then (if in_run then collapse_white True us else space # collapse_white True us)
      else u # collapse_white False us)"

definition invisible_title_char :: "16 word \<Rightarrow> bool" where
  "invisible_title_char u \<longleftrightarrow> u \<le> 0x1F \<or> (0x7F \<le> u \<and> u \<le> 0x9F) \<or> (0x200B \<le> u \<and> u \<le> 0x200F)
     \<or> (0x202A \<le> u \<and> u \<le> 0x202E) \<or> (0x2066 \<le> u \<and> u \<le> 0x2069) \<or> u = 0xFEFF"

text \<open>\<open>.replace(/ {2,}/g, ' ')\<close>.\<close>

fun collapse_spaces :: "bool \<Rightarrow> js_string \<Rightarrow> js_string" where
  "collapse_spaces in_run [] = []"
| "collapse_spaces in_run (u # us) =
     (if u = space then (if in_run then collapse_spaces True us else space # collapse_spaces True us)
      else u # collapse_spaces False us)"

definition normal_title :: "js_string \<Rightarrow> js_string" where
  "normal_title raw =
     js_trim (collapse_spaces False (filter (\<lambda>u. \<not> invisible_title_char u) (collapse_white False raw)))"

definition normalizeWorkItemTitle :: "js_string \<Rightarrow> work_error + js_string" where
  "normalizeWorkItemTitle raw =
     (let title = normal_title raw in
      if length title = 0 then Inl TITLE_EMPTY
      else if length (code_points title) > work_item_max_title_length then Inl TITLE_TOO_LONG
      else Inr title)"

definition assertResourceRefCapacity :: "resource_ref list \<Rightarrow> work_error + unit" where
  "assertResourceRefCapacity refs = guard_err TOO_MANY_REFS (length refs \<le> work_item_max_resource_refs)"

definition correlateWorkItem :: "work_item \<Rightarrow> resource_ref list \<Rightarrow> iso \<Rightarrow> work_error + work_item" where
  "correlateWorkItem item refs at =
     (if wi_status item \<noteq> W_ACTIVE then Inl CORRELATE_NOT_ACTIVE
      else let merged = uniqueResourceRefs (wi_refs item @ refs) in
        if length merged = length (wi_refs item) then Inr item
        else err_bind (assertResourceRefCapacity merged) (\<lambda>_.
          Inr (item\<lparr>wi_refs := merged, wi_updated_at := at\<rparr>)))"

section \<open>The repository\<close>

record work_db =
  wd_items :: "work_item list"
  wd_actors :: "(Id \<times> actor_row) list"

definition get_work_item :: "work_db \<Rightarrow> js_string \<Rightarrow> work_item option" where
  "get_work_item db i = select wi_id (wd_items db) i"

definition save_work_item :: "work_item \<Rightarrow> work_db \<Rightarrow> work_db" where
  "save_work_item item db = db\<lparr>wd_items := upsert wi_id item (wd_items db)\<rparr>"

definition condition_holds :: "work_db \<Rightarrow> Id option \<Rightarrow> bool" where
  "condition_holds db c = actionWriteConditionHolds \<lparr>db_reminders = [], db_actors = wd_actors db\<rparr> c"

definition saveIf :: "work_item \<Rightarrow> Id option \<Rightarrow> work_db \<Rightarrow> (work_db \<times> work_item) option" where
  "saveIf item c db = (if \<not> condition_holds db c then None else Some (save_work_item item db, item))"

text \<open>
  \<open>ORDER BY createdAt, id\<close>; the order of two UTF-8 texts is that of their code points. \<open>createdAt\<close>
  is compared as its text: a \<open>Raw\<close> text as it is.
\<close>

definition created_order :: "work_item list \<Rightarrow> work_item list" where
  "created_order items =
     sort_key (\<lambda>i. iso_string (wi_created_at i)) (sort_key (\<lambda>i. code_points (wi_id i)) items)"

definition list_by_actor :: "work_db \<Rightarrow> Id \<Rightarrow> work_item list" where
  "list_by_actor db actor = created_order (filter (\<lambda>i. wi_actor i = actor) (wd_items db))"

definition listByResource :: "work_db \<Rightarrow> resource_ref \<Rightarrow> work_item list" where
  "listByResource db ref = created_order (concat (map (\<lambda>i. map (\<lambda>_. i) (filter (ref_equals ref) (wi_refs i))) (wd_items db)))"

section \<open>The work manager\<close>

record create_work_input =
  cw_actor :: Id
  cw_project :: "Id option"
  cw_title :: "js_string option"
  cw_refs :: "resource_ref list"
  cw_origin :: work_item_origin

definition write_item :: "work_db \<Rightarrow> work_item \<Rightarrow> Id option \<Rightarrow> work_error + (work_db \<times> work_item)" where
  "write_item db item condition = (case condition of
       None \<Rightarrow> Inr (save_work_item item db, item)
     | Some _ \<Rightarrow> (case saveIf item condition db of None \<Rightarrow> Inl ACTION_WRITE_STOPPED | Some r \<Rightarrow> Inr r))"

definition create_work_item ::
  "work_db \<Rightarrow> create_work_input \<Rightarrow> Id option \<Rightarrow> js_string \<Rightarrow> iso \<Rightarrow> work_error + (work_db \<times> work_item)" where
  "create_work_item db input condition i ts =
     (let refs = uniqueResourceRefs (cw_refs input) in
      err_bind (assertResourceRefCapacity refs) (\<lambda>_.
      err_bind (case cw_title input of None \<Rightarrow> Inr None
                | Some t \<Rightarrow> err_bind (normalizeWorkItemTitle t) (\<lambda>n. Inr (Some n))) (\<lambda>title.
        write_item db \<lparr>wi_id = i, wi_actor = cw_actor input,
          wi_project = (case cw_project input of None \<Rightarrow> None | Some p \<Rightarrow> if p = [] then None else Some p),
          wi_title = title, wi_refs = refs, wi_status = W_ACTIVE, wi_origin = cw_origin input,
          wi_created_at = ts, wi_updated_at = ts\<rparr> condition)))"

definition listActiveByActor_work :: "work_db \<Rightarrow> Id \<Rightarrow> work_item list" where
  "listActiveByActor_work db actor = filter (\<lambda>i. wi_status i = W_ACTIVE) (list_by_actor db actor)"

definition transition_work_item ::
  "work_db \<Rightarrow> js_string \<Rightarrow> work_item_status \<Rightarrow> Id option \<Rightarrow> iso \<Rightarrow> work_error + (work_db \<times> work_item)" where
  "transition_work_item db i to condition ts = (case get_work_item db i of
       None \<Rightarrow> Inl (WORK_ITEM_NOT_FOUND i)
     | Some item \<Rightarrow> err_bind (transitionWorkItem item to ts) (\<lambda>u. write_item db u condition))"

definition reopen_work_item ::
  "work_db \<Rightarrow> js_string \<Rightarrow> iso \<Rightarrow> Id option \<Rightarrow> iso \<Rightarrow> work_error + (work_db \<times> work_item)" where
  "reopen_work_item db i expected condition ts = (case get_work_item db i of
       None \<Rightarrow> Inl (WORK_ITEM_NOT_FOUND i)
     | Some item \<Rightarrow> err_bind (reopenWorkItem item ts expected) (\<lambda>u. write_item db u condition))"

definition correlate_work_item ::
  "work_db \<Rightarrow> js_string \<Rightarrow> resource_ref list \<Rightarrow> iso \<Rightarrow> work_error + (work_db \<times> work_item)" where
  "correlate_work_item db i refs ts = (case get_work_item db i of
       None \<Rightarrow> Inl (WORK_ITEM_NOT_FOUND i)
     | Some item \<Rightarrow> err_bind (correlateWorkItem item refs ts) (\<lambda>u. Inr (save_work_item u db, u)))"

section \<open>Titles\<close>

lemma space_white [simp]: "js_whitespace space"
  by (simp add: js_whitespace_def space_def)

lemma space_visible [simp]: "\<not> invisible_title_char space"
  by (simp add: invisible_title_char_def space_def)

definition plain_char :: "16 word \<Rightarrow> bool" where
  "plain_char u \<longleftrightarrow> u = space \<or> (\<not> js_whitespace u \<and> \<not> invisible_title_char u)"

text \<open>No two adjacent spaces.\<close>

fun single_spaced :: "js_string \<Rightarrow> bool" where
  "single_spaced (u # v # us) \<longleftrightarrow> \<not> (u = space \<and> v = space) \<and> single_spaced (v # us)"
| "single_spaced us \<longleftrightarrow> True"

lemma collapse_white_chars:
  "u \<in> set (collapse_white b us) \<Longrightarrow> u = space \<or> (u \<in> set us \<and> \<not> js_whitespace u)"
  by (induction us arbitrary: b) (auto split: if_splits)

lemma collapse_spaces_chars: "u \<in> set (collapse_spaces b us) \<Longrightarrow> u \<in> set us"
  by (induction us arbitrary: b) (auto split: if_splits)

lemma collapse_spaces_head: "collapse_spaces True us = v # vs \<Longrightarrow> v \<noteq> space"
  by (induction us) (auto split: if_splits)

lemma single_spaced_Cons: "single_spaced (u # us) \<longleftrightarrow> single_spaced us \<and> (\<forall>v vs. us = v # vs \<longrightarrow> \<not> (u = space \<and> v = space))"
  by (cases us) auto

lemma collapse_spaces_single: "single_spaced (collapse_spaces b us)"
proof (induction us arbitrary: b)
  case (Cons u us)
  then show ?case by (auto simp: single_spaced_Cons dest: collapse_spaces_head)
qed simp

lemma single_spaced_tl: "single_spaced us \<Longrightarrow> single_spaced (drop n us)"
proof (induction n arbitrary: us)
  case (Suc n)
  then show ?case by (cases us) (auto simp: single_spaced_Cons)
qed simp

lemma single_spaced_rev: "single_spaced (us @ [u]) \<longleftrightarrow> single_spaced us \<and> (us = [] \<or> \<not> (last us = space \<and> u = space))"
proof (induction us)
  case (Cons a us)
  then show ?case by (cases us) (auto simp: single_spaced_Cons)
qed simp

lemma single_spaced_prefix: "single_spaced (us @ vs) \<Longrightarrow> single_spaced us"
proof (induction vs rule: rev_induct)
  case (snoc v vs)
  then show ?case by (metis append_assoc single_spaced_rev)
qed simp

lemma js_trim_single: "single_spaced us \<Longrightarrow> single_spaced (js_trim us)"
proof -
  assume s: "single_spaced us"
  obtain pre post where "us = pre @ js_trim us @ post" using js_trim_parts by blast
  then have "drop (length pre) us = js_trim us @ post" by (metis append_eq_conv_conj)
  with s show ?thesis by (metis single_spaced_prefix single_spaced_tl)
qed

lemma normal_title_shape:
  "set (normal_title raw) \<subseteq> {u. plain_char u} \<and> single_spaced (normal_title raw) \<and>
   (normal_title raw \<noteq> [] \<longrightarrow> hd (normal_title raw) \<noteq> space \<and> last (normal_title raw) \<noteq> space)"
proof -
  let ?m = "collapse_spaces False (filter (\<lambda>u. \<not> invisible_title_char u) (collapse_white False raw))"
  have n: "normal_title raw = js_trim ?m" by (simp add: normal_title_def)
  have "set ?m \<subseteq> {u. plain_char u}"
    by (auto simp: plain_char_def dest!: collapse_spaces_chars collapse_white_chars)
  then have "set (normal_title raw) \<subseteq> {u. plain_char u}" unfolding n using js_trim_set by blast
  moreover have "single_spaced (normal_title raw)" unfolding n by (intro js_trim_single collapse_spaces_single)
  ultimately show ?thesis using js_trim_ends [of ?m] space_white unfolding n by metis
qed

lemma collapse_white_id:
  "set us \<subseteq> {u. plain_char u} \<Longrightarrow> single_spaced us \<Longrightarrow> \<not> (b \<and> us \<noteq> [] \<and> hd us = space) \<Longrightarrow> collapse_white b us = us"
proof (induction us arbitrary: b)
  case (Cons u us)
  have "\<not> (u = space \<and> us \<noteq> [] \<and> hd us = space)" using Cons.prems(2) by (cases us) auto
  moreover have "single_spaced us" using Cons.prems(2) by (simp add: single_spaced_Cons)
  ultimately show ?case using Cons.prems Cons.IH by (auto simp: plain_char_def)
qed simp

lemma collapse_spaces_id:
  "single_spaced us \<Longrightarrow> \<not> (b \<and> us \<noteq> [] \<and> hd us = space) \<Longrightarrow> collapse_spaces b us = us"
proof (induction us arbitrary: b)
  case (Cons u us)
  have "\<not> (u = space \<and> us \<noteq> [] \<and> hd us = space)" using Cons.prems(1) by (cases us) auto
  moreover have "single_spaced us" using Cons.prems(1) by (simp add: single_spaced_Cons)
  ultimately show ?case using Cons.prems Cons.IH by auto
qed simp

lemma normal_title_idem: "normal_title (normal_title raw) = normal_title raw"
proof (cases "normal_title raw = []")
  case True
  have "normal_title [] = []" by (simp add: normal_title_def js_trim_def)
  then show ?thesis by (simp only: True)
next
  case False
  let ?n = "normal_title raw"
  have p: "set ?n \<subseteq> {u. plain_char u}" and s: "single_spaced ?n"
    and e: "hd ?n \<noteq> space" "last ?n \<noteq> space"
    using normal_title_shape [of raw] False by auto
  have "hd ?n \<in> set ?n" "last ?n \<in> set ?n" using False by simp_all
  then have w: "\<not> js_whitespace (hd ?n)" "\<not> js_whitespace (last ?n)" using p e by (auto simp: plain_char_def)
  have "filter (\<lambda>u. \<not> invisible_title_char u) ?n = ?n"
    using p by (intro filter_True) (auto simp: plain_char_def)
  then show ?thesis
    unfolding normal_title_def [of "normal_title raw"]
    using p s w False by (simp add: collapse_white_id collapse_spaces_id js_trim_id)
qed

section \<open>What every stored item satisfies\<close>

definition wf_title :: "js_string \<Rightarrow> bool" where
  "wf_title t \<longleftrightarrow> normalizeWorkItemTitle t = Inr t"

definition wf_item :: "work_item \<Rightarrow> bool" where
  "wf_item i \<longleftrightarrow> length (wi_refs i) \<le> 10 \<and> distinct (map identity_of (wi_refs i)) \<and>
     (case wi_title i of None \<Rightarrow> True | Some t \<Rightarrow> wf_title t)"

definition wf_work :: "work_db \<Rightarrow> bool" where
  "wf_work db \<longleftrightarrow> distinct (map wi_id (wd_items db)) \<and> (\<forall>i\<in>set (wd_items db). wf_item i)"

interpretation work_items_table: keyed_store get_work_item save_work_item wi_id
  by unfold_locales (simp add: get_work_item_def save_work_item_def select_upsert)

text \<open>Every way the table changes, and the actors' switches.\<close>

inductive work_step :: "work_db \<Rightarrow> work_db \<Rightarrow> bool" where
  created: "get_work_item db i = None \<Longrightarrow> create_work_item db input c i ts = Inr (db', item) \<Longrightarrow> work_step db db'"
| transitioned: "transition_work_item db i to c ts = Inr (db', item) \<Longrightarrow> work_step db db'"
| reopened: "reopen_work_item db i expected c ts = Inr (db', item) \<Longrightarrow> work_step db db'"
| correlated: "correlate_work_item db i refs ts = Inr (db', item) \<Longrightarrow> work_step db db'"
| switched: "work_step db (db\<lparr>wd_actors := actors\<rparr>)"

lemma write_item_Inr:
  "write_item db u c = Inr (db', item) \<Longrightarrow> db' = save_work_item u db \<and> item = u \<and> (c = None \<or> condition_holds db c)"
  by (auto simp: write_item_def saveIf_def split: option.splits if_splits)

lemma normalize_Inr: "normalizeWorkItemTitle raw = Inr t \<Longrightarrow> t = normal_title raw \<and> wf_title t"
  by (auto simp: normalizeWorkItemTitle_def wf_title_def Let_def normal_title_idem split: if_splits)

lemma assertResourceRefCapacity_iff: "assertResourceRefCapacity refs = Inr u \<longleftrightarrow> length refs \<le> 10"
  by (simp add: assertResourceRefCapacity_def work_item_max_resource_refs_def)

lemma get_work_item_SomeD: "get_work_item db i = Some item \<Longrightarrow> item \<in> set (wd_items db) \<and> wi_id item = i"
  by (auto simp: get_work_item_def dest: select_SomeD)

lemma create_Inr:
  assumes "create_work_item db input c i ts = Inr (db', item)"
  shows "db' = save_work_item item db \<and> wi_id item = i \<and> wi_status item = W_ACTIVE \<and> wf_item item \<and>
    (c = None \<or> condition_holds db c)"
proof -
  have d: "distinct (map identity_of (uniqueResourceRefs (cw_refs input)))"
    by (simp add: uniqueResourceRefs_def dedup_by_distinct)
  with assms show ?thesis
    by (auto simp: create_work_item_def err_bind_Inr_iff Let_def assertResourceRefCapacity_iff wf_item_def
        split: option.splits dest!: normalize_Inr write_item_Inr)
qed

lemma transition_Inr:
  assumes "transition_work_item db i to c ts = Inr (db', u)"
  obtains item where "get_work_item db i = Some item" "wi_status item = W_ACTIVE" "to \<noteq> W_ACTIVE"
    "u = item\<lparr>wi_status := to, wi_updated_at := ts\<rparr>" "db' = save_work_item u db" "c = None \<or> condition_holds db c"
proof -
  from assms obtain item where g: "get_work_item db i = Some item"
    by (auto simp: transition_work_item_def split: option.splits)
  moreover from this assms have "transitionWorkItem item to ts = Inr u" "db' = save_work_item u db"
    "c = None \<or> condition_holds db c"
    by (auto simp: transition_work_item_def err_bind_Inr_iff dest!: write_item_Inr)
  moreover from this have "wi_status item = W_ACTIVE" "to \<noteq> W_ACTIVE" "u = item\<lparr>wi_status := to, wi_updated_at := ts\<rparr>"
    by (cases "wi_status item"; auto simp: transitionWorkItem_def split: if_splits)+
  ultimately show thesis using that by blast
qed

lemma reopen_Inr:
  assumes "reopen_work_item db i expected c ts = Inr (db', u)"
  obtains item where "get_work_item db i = Some item" "wi_status item \<noteq> W_ACTIVE" "wi_updated_at item = expected"
    "u = item\<lparr>wi_status := W_ACTIVE, wi_updated_at := ts\<rparr>" "db' = save_work_item u db" "c = None \<or> condition_holds db c"
proof -
  from assms obtain item where g: "get_work_item db i = Some item"
    by (auto simp: reopen_work_item_def split: option.splits)
  then show thesis using assms that
    by (auto simp: reopen_work_item_def reopenWorkItem_def err_bind_Inr_iff split: if_splits dest!: write_item_Inr)
qed

lemma dedup_extends:
  "distinct (map identity_of xs) \<Longrightarrow> \<exists>zs. uniqueResourceRefs (xs @ ys) = xs @ zs"
  by (simp add: uniqueResourceRefs_def dedup_by_append_distinct)

lemma correlate_Inr:
  assumes "correlate_work_item db i refs ts = Inr (db', u)"
  obtains item where "get_work_item db i = Some item" "wi_status item = W_ACTIVE" "db' = save_work_item u db"
    "wi_id u = wi_id item" "wi_status u = W_ACTIVE" "wf_item item \<Longrightarrow> wf_item u"
proof -
  from assms obtain item where g: "get_work_item db i = Some item"
    by (auto simp: correlate_work_item_def split: option.splits)
  from assms g have c: "correlateWorkItem item refs ts = Inr u" and db: "db' = save_work_item u db"
    by (auto simp: correlate_work_item_def err_bind_Inr_iff)
  have d: "distinct (map identity_of (uniqueResourceRefs (wi_refs item @ refs)))"
    by (simp add: uniqueResourceRefs_def dedup_by_distinct)
  from c have "wi_status item = W_ACTIVE" "wi_id u = wi_id item" "wi_status u = W_ACTIVE" "wf_item item \<Longrightarrow> wf_item u"
    using d by (auto simp: correlateWorkItem_def Let_def err_bind_Inr_iff assertResourceRefCapacity_iff wf_item_def
        split: if_splits)
  with g db show thesis using that by blast
qed

lemma wf_save: "wf_work db \<Longrightarrow> wf_item u \<Longrightarrow> wf_work (save_work_item u db)"
  by (auto simp: wf_work_def save_work_item_def upsert_distinct dest: upsert_set)

lemma wf_get: "wf_work db \<Longrightarrow> get_work_item db i = Some item \<Longrightarrow> wf_item item"
  by (auto simp: wf_work_def dest: get_work_item_SomeD)

text \<open>
  C18. Every stored work item keeps at most ten references, no two of the same identity, and a title that
  is already in normal form; ids are unique. Creation, transition, reopening, correlation and a flip of a
  switch all keep this.
\<close>

theorem work_items_stay_wf:
  assumes "work_step db db'" "wf_work db"
  shows "wf_work db'"
  using assms
proof (induction rule: work_step.induct)
  case (created db i input c ts db' item)
  with create_Inr [OF created(2)] wf_save show ?case by simp
next
  case (transitioned db i to c ts db' item)
  from transitioned(1) show ?case
    by (rule transition_Inr) (use transitioned(2) wf_get in \<open>auto intro!: wf_save simp: wf_item_def\<close>)
next
  case (reopened db i expected c ts db' item)
  from reopened(1) show ?case
    by (rule reopen_Inr) (use reopened(2) wf_get in \<open>auto intro!: wf_save simp: wf_item_def\<close>)
next
  case (correlated db i refs ts db' item)
  from correlated(1) show ?case
    by (rule correlate_Inr) (use correlated(2) wf_get in \<open>auto intro!: wf_save\<close>)
qed (simp add: wf_work_def)

definition example_item_input :: create_work_input where
  "example_item_input = \<lparr>cw_actor = ''u1'', cw_project = None, cw_title = Some (js ''  buy   milk ''),
     cw_refs = [\<lparr>rr_source = js ''jira'', rr_external_id = js ''A-1''\<rparr>], cw_origin = From_conversation\<rparr>"

definition example_item :: work_item where
  "example_item = \<lparr>wi_id = js ''w1'', wi_actor = ''u1'', wi_project = None, wi_title = Some (js ''buy milk''),
     wi_refs = [\<lparr>rr_source = js ''jira'', rr_external_id = js ''A-1''\<rparr>], wi_status = W_ACTIVE,
     wi_origin = From_conversation, wi_created_at = Canon 7, wi_updated_at = Canon 7\<rparr>"

definition empty_work :: work_db where
  "empty_work = \<lparr>wd_items = [], wd_actors = [(''u1'', Readable None)]\<rparr>"

lemma example_title: "normalizeWorkItemTitle (js ''  buy   milk '') = Inr (js ''buy milk'')"
  by code_simp

lemma example_create_item:
  "create_work_item empty_work example_item_input (Some ''u1'') (js ''w1'') (Canon 7) =
     Inr (empty_work\<lparr>wd_items := [example_item]\<rparr>, example_item)"
  by (simp add: create_work_item_def example_item_input_def example_title uniqueResourceRefs_def assertResourceRefCapacity_def
      work_item_max_resource_refs_def write_item_def saveIf_def condition_holds_def actionWriteConditionHolds_def
      empty_work_def isActionSwitchRunning_def save_work_item_def example_item_def Let_def)

theorem work_items_stay_wf_witness:
  "work_step empty_work (empty_work\<lparr>wd_items := [example_item]\<rparr>) \<and> wf_work (empty_work\<lparr>wd_items := [example_item]\<rparr>)"
proof -
  have "get_work_item empty_work (js ''w1'') = None" by (simp add: get_work_item_def empty_work_def)
  then have "work_step empty_work (empty_work\<lparr>wd_items := [example_item]\<rparr>)"
    using example_create_item by (rule work_step.created)
  moreover have "wf_work empty_work" by (simp add: wf_work_def empty_work_def)
  ultimately show ?thesis using work_items_stay_wf by blast
qed

text \<open>A completed or canceled work item changes only by being reopened: the same item, active again, and
  only if it is still at the version the undo saw.
\<close>

theorem final_items_only_reopen:
  assumes "work_step db db'" "get_work_item db i = Some item" "wi_status item \<noteq> W_ACTIVE"
  shows "get_work_item db' i = Some item \<or>
    (\<exists>ts c. reopen_work_item db i (wi_updated_at item) c ts =
       Inr (db', item\<lparr>wi_status := W_ACTIVE, wi_updated_at := ts\<rparr>))"
  using assms
proof (induction rule: work_step.induct)
  case (created db j input c ts db' new)
  then have "j \<noteq> i" by auto
  with created create_Inr [OF created(2)] show ?case by (simp add: work_items_table.get_save)
next
  case (transitioned db j to c ts db' new)
  from transitioned(1) obtain x where x: "get_work_item db j = Some x" "wi_status x = W_ACTIVE"
    "new = x\<lparr>wi_status := to, wi_updated_at := ts\<rparr>" "db' = save_work_item new db" by (rule transition_Inr)
  then have "j \<noteq> i" using transitioned(2,3) by auto
  moreover have "wi_id new = j" using x get_work_item_SomeD [OF x(1)] by simp
  ultimately show ?case using x(4) transitioned(2) by (simp add: work_items_table.get_save)
next
  case (reopened db j expected c ts db' new)
  from reopened(1) obtain x where x: "get_work_item db j = Some x" "wi_updated_at x = expected"
    "new = x\<lparr>wi_status := W_ACTIVE, wi_updated_at := ts\<rparr>" "db' = save_work_item new db" by (rule reopen_Inr)
  show ?case
  proof (cases "j = i")
    case True
    then have "x = item" using x(1) reopened(2) by simp
    then show ?thesis using reopened(1) x(2,3) True by blast
  next
    case False
    moreover have "wi_id new = j" using x get_work_item_SomeD [OF x(1)] by simp
    ultimately show ?thesis using x(4) reopened(2) by (simp add: work_items_table.get_save)
  qed
next
  case (correlated db j refs ts db' new)
  from correlated(1) obtain x where x: "get_work_item db j = Some x" "wi_status x = W_ACTIVE"
    "db' = save_work_item new db" "wi_id new = wi_id x" by (rule correlate_Inr)
  then have "j \<noteq> i" using correlated(2,3) by auto
  moreover have "wi_id new = j" using x get_work_item_SomeD [OF x(1)] by simp
  ultimately show ?case using x(3) correlated(2) by (simp add: work_items_table.get_save)
qed (simp add: get_work_item_def)

definition example_final :: work_item where
  "example_final = example_item\<lparr>wi_status := W_COMPLETED, wi_updated_at := Canon 9\<rparr>"

theorem final_items_only_reopen_witness:
  "\<exists>db'. work_step (empty_work\<lparr>wd_items := [example_final]\<rparr>) db' \<and> get_work_item db' (js ''w1'') \<noteq> Some example_final \<and>
     (\<exists>ts c. reopen_work_item (empty_work\<lparr>wd_items := [example_final]\<rparr>) (js ''w1'') (Canon 9) c ts =
       Inr (db', example_final\<lparr>wi_status := W_ACTIVE, wi_updated_at := ts\<rparr>))"
proof -
  let ?db = "empty_work\<lparr>wd_items := [example_final]\<rparr>"
  let ?u = "example_final\<lparr>wi_status := W_ACTIVE, wi_updated_at := Canon 11\<rparr>"
  have id: "wi_id example_final = js ''w1''" "wi_status example_final = W_COMPLETED" "wi_updated_at example_final = Canon 9"
    by (simp_all add: example_final_def example_item_def)
  have r: "reopen_work_item ?db (js ''w1'') (Canon 9) None (Canon 11) = Inr (?db\<lparr>wd_items := [?u]\<rparr>, ?u)"
    by (simp add: reopen_work_item_def get_work_item_def id reopenWorkItem_def write_item_def save_work_item_def)
  then have s: "work_step ?db (?db\<lparr>wd_items := [?u]\<rparr>)" by (rule work_step.reopened)
  have g: "get_work_item ?db (js ''w1'') = Some example_final" by (simp add: get_work_item_def id)
  have n: "get_work_item (?db\<lparr>wd_items := [?u]\<rparr>) (js ''w1'') \<noteq> Some example_final"
    by (simp add: get_work_item_def id example_final_def example_item_def)
  from final_items_only_reopen [OF s g] n id have
    "\<exists>ts c. reopen_work_item ?db (js ''w1'') (Canon 9) c ts =
       Inr (?db\<lparr>wd_items := [?u]\<rparr>, example_final\<lparr>wi_status := W_ACTIVE, wi_updated_at := ts\<rparr>)" by simp
  with s n show ?thesis by blast
qed

text \<open>While an actor's action switch is stopped, or the actor's row is missing or unreadable, no
  conditioned call (create, transition, reopen) writes: each ends in an error and the store is unchanged.
\<close>

theorem stopped_switch_writes_nothing:
  assumes "\<not> condition_holds db (Some actor)"
  shows "(\<exists>e. create_work_item db input (Some actor) i ts = Inl e) \<and>
    (\<exists>e. transition_work_item db i to (Some actor) ts = Inl e) \<and>
    (\<exists>e. reopen_work_item db i expected (Some actor) ts = Inl e)"
proof -
  have "create_work_item db input (Some actor) i ts \<noteq> Inr (db', u)" for db' u
    using create_Inr [of db input "Some actor" i ts db' u] assms by auto
  moreover have "transition_work_item db i to (Some actor) ts \<noteq> Inr (db', u)" for db' u
    using assms by (auto elim: transition_Inr)
  moreover have "reopen_work_item db i expected (Some actor) ts \<noteq> Inr (db', u)" for db' u
    using assms by (auto elim: reopen_Inr)
  ultimately show ?thesis by (metis obj_sumE prod.collapse)
qed

theorem stopped_switch_writes_nothing_witness:
  "\<exists>e. transition_work_item (empty_work\<lparr>wd_items := [example_item],
       wd_actors := [(''u1'', Readable (Some [(''quoky.actionSwitch'', JObj [(''state'', JStr ''stopped'')])]))]\<rparr>)
     (js ''w1'') W_COMPLETED (Some ''u1'') (Canon 8) = Inl e"
proof -
  have "\<not> condition_holds (empty_work\<lparr>wd_items := [example_item],
       wd_actors := [(''u1'', Readable (Some [(''quoky.actionSwitch'', JObj [(''state'', JStr ''stopped'')])]))]\<rparr>) (Some ''u1'')"
    by (simp add: condition_holds_def actionWriteConditionHolds_def isActionSwitchRunning_def)
  from stopped_switch_writes_nothing [OF this] show ?thesis by blast
qed

text \<open>
  A normalised title is non-empty, at most 200 characters, has no control, invisible or bidirectional
  character, no white space except single inner spaces, and normalising it again gives it back.
\<close>

lemma title_normal_form:
  assumes "normalizeWorkItemTitle raw = Inr t"
  shows "t \<noteq> [] \<and> length (code_points t) \<le> 200 \<and>
    (\<forall>u\<in>set t. \<not> invisible_title_char u \<and> (js_whitespace u \<longrightarrow> u = space)) \<and>
    single_spaced t \<and> hd t \<noteq> space \<and> last t \<noteq> space \<and> normalizeWorkItemTitle t = Inr t"
proof -
  have n: "t = normal_title raw" and i: "normalizeWorkItemTitle t = Inr t"
    using normalize_Inr [OF assms] unfolding wf_title_def by blast+
  have ne: "t \<noteq> []" "length (code_points t) \<le> 200"
    using assms n by (auto simp: normalizeWorkItemTitle_def Let_def work_item_max_title_length_def split: if_splits)
  then show ?thesis
    using normal_title_shape [of raw] i unfolding n [symmetric] by (auto simp: plain_char_def)
qed

lemma title_normal_form_witness:
  "normalizeWorkItemTitle (js ''  buy   milk '') = Inr (js ''buy milk'') \<and>
   normalizeWorkItemTitle (js ''buy milk'') = Inr (js ''buy milk'') \<and> single_spaced (js ''buy milk'')"
  using title_normal_form [OF example_title] example_title by blast

text \<open>
  The identity that de-duplication compares does not tell all references apart: two valid references
  that \<open>equals\<close> distinguishes can have the same identity, and then one of them is dropped.
\<close>

lemma ref_identity_collides:
  "\<exists>a b. mk_resource_ref a = Some a \<and> mk_resource_ref b = Some b \<and> \<not> ref_equals a b \<and>
     identity_of a = identity_of b \<and> uniqueResourceRefs [a, b] = [a]"
proof -
  let ?a = "\<lparr>rr_source = js ''x:y'', rr_external_id = js ''z''\<rparr>"
  let ?b = "\<lparr>rr_source = js ''x'', rr_external_id = js ''y:z''\<rparr>"
  have "mk_resource_ref ?a = Some ?a" "mk_resource_ref ?b = Some ?b" by code_simp+
  moreover have "\<not> ref_equals ?a ?b" "identity_of ?a = identity_of ?b" by code_simp+
  ultimately show ?thesis by (intro exI [of _ ?a] exI [of _ ?b]) (simp add: uniqueResourceRefs_def)
qed

end
