(* ===== verification/Ip_Ranges.thy ===== *)
theory Ip_Ranges
  imports Prelude
begin

unbundle bit_operations_syntax

text \<open>
  The deny ranges of the egress guard (\<open>apps/quoky/src/security/ip-ranges.ts\<close>). An address text is a
  byte string (the patterns admit ASCII only). Numbers are integers; an IPv4 address is a number
  below \<open>2 ^ 32\<close>, an IPv6 address a list of 8 groups below \<open>2 ^ 16\<close>. \<open>isIP\<close> of \<open>node:net\<close> is a
  parameter of \<open>classifyAddress\<close>.
\<close>

section \<open>Text\<close>

text \<open>\<open>text.split(c)\<close>: always at least one part.\<close>

fun split_on :: "char \<Rightarrow> string \<Rightarrow> string list" where
  "split_on c [] = [[]]"
| "split_on c (x # xs) =
     (if x = c then [] # split_on c xs
      else case split_on c xs of [] \<Rightarrow> [[x]] | p # ps \<Rightarrow> (x # p) # ps)"

text \<open>\<open>indexOf\<close> and \<open>lastIndexOf\<close>; \<open>None\<close> is \<open>-1\<close>.\<close>

fun index_of :: "string \<Rightarrow> string \<Rightarrow> nat option" where
  "index_of p [] = (if p = [] then Some 0 else None)"
| "index_of p (x # xs) = (if take (length p) (x # xs) = p then Some 0 else map_option Suc (index_of p xs))"

fun last_index_of :: "string \<Rightarrow> string \<Rightarrow> nat option" where
  "last_index_of p [] = (if p = [] then Some 0 else None)"
| "last_index_of p (x # xs) = (case last_index_of p xs of
     Some i \<Rightarrow> Some (Suc i) | None \<Rightarrow> if take (length p) (x # xs) = p then Some 0 else None)"

definition is_digit :: "char \<Rightarrow> bool" where
  "is_digit c \<longleftrightarrow> 48 \<le> (of_char c :: int) \<and> (of_char c :: int) \<le> 57"

definition digit_val :: "char \<Rightarrow> int" where
  "digit_val c = of_char c - 48"

definition is_hex :: "char \<Rightarrow> bool" where
  "is_hex c \<longleftrightarrow> is_digit c \<or> (97 \<le> (of_char c :: int) \<and> (of_char c :: int) \<le> 102)"

definition hex_val :: "char \<Rightarrow> int" where
  "hex_val c = (if is_digit c then of_char c - 48 else of_char c - 87)"

definition to_lower :: "string \<Rightarrow> string" where
  "to_lower s = map (\<lambda>c. if 65 \<le> (of_char c :: int) \<and> (of_char c :: int) \<le> 90 then char_of ((of_char c :: int) + 32) else c) s"

definition decimal :: "string \<Rightarrow> int" where
  "decimal s = foldl (\<lambda>v c. v * 10 + digit_val c) 0 s"

definition hexadecimal :: "string \<Rightarrow> int" where
  "hexadecimal s = foldl (\<lambda>v c. v * 16 + hex_val c) 0 s"

section \<open>IPv4\<close>

datatype deny_category =
  Unspecified | Loopback | Private | Link_local | Metadata | Cgnat | Ula | Multicast | Documentation
  | Benchmark | Reserved | Invalid

text \<open>\<open>/^(?:0|[1-9][0-9]{0,2})$/\<close>.\<close>

definition octet_pattern :: "string \<Rightarrow> bool" where
  "octet_pattern s \<longleftrightarrow> s = ''0'' \<or> (case s of [] \<Rightarrow> False
     | c # cs \<Rightarrow> is_digit c \<and> c \<noteq> CHR ''0'' \<and> length cs \<le> 2 \<and> list_all is_digit cs)"

fun parse_octets :: "int \<Rightarrow> string list \<Rightarrow> int option" where
  "parse_octets v [] = Some v"
| "parse_octets v (p # ps) =
     (if \<not> octet_pattern p then None
      else if decimal p > 255 then None
      else parse_octets (v * 256 + decimal p) ps)"

definition parseIpv4 :: "string \<Rightarrow> int option" where
  "parseIpv4 t = (let parts = split_on (CHR ''.'') t in if length parts \<noteq> 4 then None else parse_octets 0 parts)"

record ipv4_rule =
  r4_base :: int
  r4_bits :: nat
  r4_category :: deny_category

text \<open>A rule whose base does not parse would throw when the module loads; all sixteen parse.\<close>

definition rule4 :: "string \<Rightarrow> nat \<Rightarrow> deny_category \<Rightarrow> ipv4_rule" where
  "rule4 a bits c = \<lparr>r4_base = (case parseIpv4 a of Some b \<Rightarrow> b | None \<Rightarrow> 0), r4_bits = bits, r4_category = c\<rparr>"

definition rule4_texts :: "(string \<times> nat \<times> deny_category) list" where
  "rule4_texts =
    [(''169.254.169.254'', 32, Metadata), (''0.0.0.0'', 8, Unspecified), (''10.0.0.0'', 8, Private),
     (''100.64.0.0'', 10, Cgnat), (''127.0.0.0'', 8, Loopback), (''169.254.0.0'', 16, Link_local),
     (''172.16.0.0'', 12, Private), (''192.0.0.0'', 24, Reserved), (''192.0.2.0'', 24, Documentation),
     (''192.88.99.0'', 24, Reserved), (''192.168.0.0'', 16, Private), (''198.18.0.0'', 15, Benchmark),
     (''198.51.100.0'', 24, Documentation), (''203.0.113.0'', 24, Documentation), (''224.0.0.0'', 4, Multicast),
     (''240.0.0.0'', 4, Reserved)]"

definition ipv4_rules :: "ipv4_rule list" where
  "ipv4_rules = map (\<lambda>(a, bits, c). rule4 a bits c) rule4_texts"

definition inIpv4Range :: "int \<Rightarrow> int \<Rightarrow> nat \<Rightarrow> bool" where
  "inIpv4Range v base bits \<longleftrightarrow> bits = 0 \<or> v div 2 ^ (32 - bits) = base div 2 ^ (32 - bits)"

fun first_rule :: "ipv4_rule list \<Rightarrow> int \<Rightarrow> deny_category option" where
  "first_rule [] v = None"
| "first_rule (r # rs) v = (if inIpv4Range v (r4_base r) (r4_bits r) then Some (r4_category r) else first_rule rs v)"

definition classifyIpv4 :: "int \<Rightarrow> deny_category option" where
  "classifyIpv4 v = first_rule ipv4_rules v"

section \<open>IPv6\<close>

fun parse_groups :: "string list \<Rightarrow> int list option" where
  "parse_groups [] = Some []"
| "parse_groups (g # gs) =
     (if 1 \<le> length g \<and> length g \<le> 4 \<and> list_all is_hex g
      then map_option ((#) (hexadecimal g)) (parse_groups gs) else None)"

definition parse_part :: "string \<Rightarrow> int list option" where
  "parse_part p = (if p = [] then Some [] else parse_groups (split_on (CHR '':'') p))"

definition ends_with :: "string \<Rightarrow> string \<Rightarrow> bool" where
  "ends_with s p \<longleftrightarrow> length p \<le> length s \<and> drop (length s - length p) s = p"

text \<open>The text before \<open>%\<close>, in lower case.\<close>

definition bare_address :: "string \<Rightarrow> string" where
  "bare_address t = to_lower (case index_of ''%'' t of Some z \<Rightarrow> take z t | None \<Rightarrow> t)"

text \<open>The dotted tail as two groups, and what is left of it.\<close>

definition ipv4_tail :: "string \<Rightarrow> (int list \<times> string) option" where
  "ipv4_tail a =
     (if CHR ''.'' \<notin> set a then Some ([], a)
      else let after = (case last_index_of '':'' a of Some i \<Rightarrow> Suc i | None \<Rightarrow> 0) in
        (case parseIpv4 (drop after a) of
           None \<Rightarrow> None
         | Some v4 \<Rightarrow> let head = take after a in
             Some ([v4 div 65536, v4 mod 65536],
               if ends_with head '':'' \<and> \<not> ends_with head ''::'' then butlast head else head)))"

definition eight_groups :: "int list \<Rightarrow> int list option" where
  "eight_groups gs = (if length gs = 8 then Some gs else None)"

definition parseIpv6 :: "string \<Rightarrow> int list option" where
  "parseIpv6 t =
     (let a = bare_address t in
      if a = [] \<or> \<not> list_all (\<lambda>c. is_hex c \<or> c = CHR '':'' \<or> c = CHR ''.'') a then None
      else (case ipv4_tail a of None \<Rightarrow> None | Some (tail, head) \<Rightarrow>
        if index_of ''::'' head \<noteq> last_index_of ''::'' head then None
        else (case index_of ''::'' head of
          Some i \<Rightarrow>
            (case (parse_part (take i head), parse_part (drop (i + 2) head)) of
               (Some left, Some right) \<Rightarrow>
                 if 8 < length left + length right + length tail + 1 then None
                 else eight_groups (left @ replicate (8 - length left - length right - length tail) 0 @ right @ tail)
             | _ \<Rightarrow> None)
        | None \<Rightarrow> (case parse_part head of None \<Rightarrow> None | Some all \<Rightarrow> eight_groups (all @ tail)))))"

text \<open>\<open>groups[i] ?? 0\<close>.\<close>

definition group_at :: "int list \<Rightarrow> nat \<Rightarrow> int" where
  "group_at gs i = (if i < length gs then gs ! i else 0)"

definition embeddedIpv4 :: "int list \<Rightarrow> nat \<Rightarrow> int" where
  "embeddedIpv4 gs i = group_at gs i * 65536 + group_at gs (i + 1)"

definition starts_with_groups :: "int list \<Rightarrow> int list \<Rightarrow> bool" where
  "starts_with_groups gs prefix \<longleftrightarrow> (\<forall>i<length prefix. i < length gs \<and> gs ! i = prefix ! i)"

definition group_mask :: "nat \<Rightarrow> int" where
  "group_mask n = (if n = 16 then 0xFFFF else push_bit (16 - n) 0xFFFF AND 0xFFFF)"

fun range6_from :: "nat list \<Rightarrow> int list \<Rightarrow> int list \<Rightarrow> nat \<Rightarrow> bool" where
  "range6_from [] gs prefix bits = True"
| "range6_from (i # is) gs prefix bits =
     (if bits = 0 then True
      else let n = min 16 bits in
        if (group_at gs i AND group_mask n) \<noteq> (group_at prefix i AND group_mask n) then False
        else range6_from is gs prefix (bits - n))"

definition inIpv6Range :: "int list \<Rightarrow> int list \<Rightarrow> nat \<Rightarrow> bool" where
  "inIpv6Range gs prefix bits = range6_from [0, 1, 2, 3, 4, 5, 6, 7] gs prefix bits"

definition or_reserved :: "deny_category option \<Rightarrow> deny_category option" where
  "or_reserved c = (case c of None \<Rightarrow> Some Reserved | Some x \<Rightarrow> Some x)"

definition zero_up_to :: "int list \<Rightarrow> nat \<Rightarrow> bool" where
  "zero_up_to gs n \<longleftrightarrow> list_all (\<lambda>g. g = 0) (take n gs)"

definition classifyIpv6 :: "int list \<Rightarrow> deny_category option" where
  "classifyIpv6 gs =
     (if zero_up_to gs 8 then Some Unspecified
      else if zero_up_to gs 7 \<and> group_at gs 7 = 1 then Some Loopback
      else if zero_up_to gs 5 \<and> group_at gs 5 = 0xFFFF then or_reserved (classifyIpv4 (embeddedIpv4 gs 6))
      else if zero_up_to gs 6 then or_reserved (classifyIpv4 (embeddedIpv4 gs 6))
      else if starts_with_groups gs [0x64, 0xFF9B, 0, 0, 0, 0] then classifyIpv4 (embeddedIpv4 gs 6)
      else if inIpv6Range gs [0x64, 0xFF9B, 1] 48 then Some Reserved
      else if inIpv6Range gs [0x0100, 0, 0, 0] 64 then Some Reserved
      else if inIpv6Range gs [0x0100, 0, 0, 1] 64 then Some Reserved
      else if inIpv6Range gs [0x2001, 0x0DB8] 32 then Some Documentation
      else if inIpv6Range gs [0x2001, 0x0002, 0] 48 then Some Benchmark
      else if inIpv6Range gs [0x2001] 23 then Some Reserved
      else if group_at gs 0 = 0x2002 then or_reserved (classifyIpv4 (embeddedIpv4 gs 1))
      else if inIpv6Range gs [0x3FFF] 20 then Some Documentation
      else if inIpv6Range gs [0x5F00] 16 then Some Reserved
      else if starts_with_groups gs [0xFD00, 0x0EC2, 0, 0, 0, 0, 0, 0x0254] then Some Metadata
      else if inIpv6Range gs [0xFC00] 7 then Some Ula
      else if inIpv6Range gs [0xFE80] 10 then Some Link_local
      else if inIpv6Range gs [0xFEC0] 10 then Some Reserved
      else if inIpv6Range gs [0xFF00] 8 then Some Multicast
      else if \<not> inIpv6Range gs [0x2000] 3 then Some Reserved
      else None)"

section \<open>Addresses\<close>

definition unbracket :: "string \<Rightarrow> string" where
  "unbracket a = (if a \<noteq> [] \<and> hd a = CHR ''['' \<and> last a = CHR '']'' then butlast (tl a) else a)"

definition before_zone :: "string \<Rightarrow> string" where
  "before_zone a = hd (split_on (CHR ''%'') a)"

definition classifyAddress :: "(string \<Rightarrow> nat) \<Rightarrow> string \<Rightarrow> deny_category option" where
  "classifyAddress isIP address =
     (let bare = unbracket address; family = isIP (before_zone bare) in
      if family = 4 then (case parseIpv4 bare of None \<Rightarrow> Some Invalid | Some v \<Rightarrow> classifyIpv4 v)
      else if family = 6 then (case parseIpv6 bare of None \<Rightarrow> Some Invalid | Some gs \<Rightarrow> classifyIpv6 gs)
      else Some Invalid)"

definition isIpLiteral :: "(string \<Rightarrow> nat) \<Rightarrow> string \<Rightarrow> bool" where
  "isIpLiteral isIP host \<longleftrightarrow> isIP (before_zone (unbracket host)) \<noteq> 0"

section \<open>Parsing and printing IPv4\<close>

lemma and_high_bits:
  fixes g :: int
  assumes "0 \<le> g" "g < 65536" "n \<le> 16"
  shows "g AND group_mask n = g div 2 ^ (16 - n) * 2 ^ (16 - n)"
proof -
  have m: "(0xFFFF :: int) = mask 16" by (simp add: mask_eq_exp_minus_1)
  have g: "take_bit 16 g = g" using assms by (simp add: take_bit_int_eq_self)
  have lt: "bit g i \<Longrightarrow> i < 16" for i using g by (metis bit_take_bit_iff)
  have "g AND group_mask n = push_bit (16 - n) (drop_bit (16 - n) g)"
  proof (cases "n = 16")
    case True
    then show ?thesis using g by (simp add: group_mask_def m take_bit_eq_mask [symmetric])
  next
    case False
    show ?thesis
      by (rule bit_eqI) (auto simp: group_mask_def m bit_simps False dest: lt)
  qed
  then show ?thesis by (simp add: push_bit_eq_mult drop_bit_eq_div)
qed

lemma split_on_nonempty [simp]: "split_on c s \<noteq> []"
  by (induction s) (auto split: list.splits)

fun join_with :: "char \<Rightarrow> string list \<Rightarrow> string" where
  "join_with c [] = []"
| "join_with c [p] = p"
| "join_with c (p # q # ps) = p @ c # join_with c (q # ps)"

lemma join_split: "join_with c (split_on c s) = s"
proof (induction s)
  case (Cons x xs)
  then show ?case by (cases "split_on c xs") (auto, (cases "tl (split_on c xs)"; auto)+)
qed simp

lemma split_part: "c \<notin> set p \<Longrightarrow> split_on c p = [p]"
  by (induction p) auto

lemma split_append: "c \<notin> set p \<Longrightarrow> split_on c (p @ c # s) = p # split_on c s"
  by (induction p) auto

lemma split_join: "ps \<noteq> [] \<Longrightarrow> \<forall>p\<in>set ps. c \<notin> set p \<Longrightarrow> split_on c (join_with c ps) = ps"
  by (induction c ps rule: join_with.induct) (auto simp: split_part split_append)

definition octet_text :: "int \<Rightarrow> string" where
  "octet_text n = (let d = (\<lambda>k. char_of (48 + k)) in
     if n < 10 then [d n] else if n < 100 then [d (n div 10), d (n mod 10)]
     else [d (n div 100), d (n div 10 mod 10), d (n mod 10)])"

lemma digit_code: "0 \<le> k \<Longrightarrow> k < 10 \<Longrightarrow> (of_char (char_of (48 + k :: int)) :: int) = 48 + k"
  by (simp add: of_char_of)

lemma is_digitD: "is_digit c \<Longrightarrow> \<exists>k::int. 0 \<le> k \<and> k < 10 \<and> c = char_of (48 + k)"
  by (rule exI [of _ "of_char c - 48"]) (auto simp: is_digit_def)

lemma digit_val_char: "0 \<le> k \<Longrightarrow> k < 10 \<Longrightarrow> digit_val (char_of (48 + k :: int)) = k"
  by (simp add: digit_val_def digit_code)

lemma digit_facts:
  assumes "0 \<le> k" "k < 10"
  shows "is_digit (char_of (48 + k :: int)) \<and> char_of (48 + k) \<noteq> CHR ''.'' \<and>
    (char_of (48 + k) = CHR ''0'' \<longleftrightarrow> k = 0) \<and> digit_val (char_of (48 + k)) = k"
proof -
  have "\<forall>k\<in>set [0..9]. is_digit (char_of (48 + k :: int)) \<and> char_of (48 + k) \<noteq> CHR ''.'' \<and>
    (char_of (48 + k) = CHR ''0'' \<longleftrightarrow> k = 0) \<and> digit_val (char_of (48 + k)) = k" by code_simp
  moreover have "k \<in> set [0..9]" using assms by simp
  ultimately show ?thesis by blast
qed

lemma div_100: "v div 100 = v div 10 div (10 :: int)"
  using zdiv_zmult2_eq [of 10 v 10] by simp

lemma base10: "0 \<le> d \<Longrightarrow> d < 10 \<Longrightarrow> (x * 10 + d) div 10 = x \<and> (x * 10 + d) mod 10 = (d :: int)"
  by simp

lemma digit_dot: "0 \<le> k \<Longrightarrow> k < 10 \<Longrightarrow> CHR ''.'' \<noteq> char_of (48 + k :: int)"
  using digit_facts [of k] by metis

lemma octet_text_ok:
  assumes "0 \<le> n" "n \<le> 255"
  shows "octet_pattern (octet_text n) \<and> decimal (octet_text n) = n \<and> CHR ''.'' \<notin> set (octet_text n)"
proof -
  have b: "0 \<le> n mod 10" "n mod 10 < 10" "0 \<le> n div 10 mod 10" "n div 10 mod 10 < 10" by simp_all
  have e: "n div 10 * 10 + n mod 10 = n" "n div 10 div 10 * 10 + n div 10 mod 10 = n div 10" by simp_all
  then have e3: "100 * (n div 100) + n div 10 mod 10 * 10 + n mod 10 = n" unfolding div_100 by linarith
  consider "n < 10" | "10 \<le> n" "n < 100" | "100 \<le> n" by linarith
  then show ?thesis
  proof cases
    case 1
    with assms(1) show ?thesis by (simp add: octet_text_def octet_pattern_def decimal_def digit_facts digit_dot)
  next
    case 2
    then have "0 \<le> n div 10" "n div 10 < 10" "n div 10 \<noteq> 0" by presburger+
    with 2 b show ?thesis by (simp add: octet_text_def octet_pattern_def decimal_def digit_facts digit_dot Let_def e)
  next
    case 3
    then have "0 \<le> n div 100" "n div 100 < 10" "n div 100 \<noteq> 0" using assms by presburger+
    with 3 b show ?thesis by (simp add: octet_text_def octet_pattern_def decimal_def digit_facts digit_dot Let_def e3)
  qed
qed

lemma octet_pattern_text:
  assumes "octet_pattern p" "decimal p \<le> 255"
  shows "0 \<le> decimal p \<and> p = octet_text (decimal p)"
proof (cases "p = ''0''")
  case True
  have "octet_text 0 = ''0''" "decimal ''0'' = 0" by code_simp+
  with True show ?thesis by simp
next
  case False
  with assms(1) obtain c cs where p: "p = c # cs" "is_digit c" "c \<noteq> CHR ''0''" "length cs \<le> 2" "list_all is_digit cs"
    by (auto simp: octet_pattern_def split: list.splits)
  from is_digitD [OF p(2)] obtain k where k: "0 \<le> k" "k < 10" "c = char_of (48 + k :: int)" by blast
  then have k0: "0 < k" using p(3) digit_facts [of k] by auto
  consider "cs = []" | d where "cs = [d]" | d e where "cs = [d, e]"
    using p(4) by (cases cs; cases "tl cs"; cases "tl (tl cs)") auto
  then show ?thesis
  proof cases
    case 1
    with p k show ?thesis by (simp add: decimal_def digit_facts octet_text_def)
  next
    case (2 d)
    with p(5) is_digitD obtain l where l: "0 \<le> l" "l < 10" "d = char_of (48 + l :: int)" by auto
    have "decimal p = k * 10 + l" using 2 p(1) k l by (simp add: decimal_def digit_facts)
    moreover have "(k * 10 + l) div 10 = k" "(k * 10 + l) mod 10 = l" using l(1,2) by (simp_all only: base10)
    ultimately show ?thesis using 2 p(1) k k0 l by (simp add: octet_text_def)
  next
    case (3 d e)
    with p(5) is_digitD [of d] obtain l where l: "0 \<le> l" "l < 10" "d = char_of (48 + l :: int)" by auto
    from 3 p(5) is_digitD [of e] obtain m where m: "0 \<le> m" "m < 10" "e = char_of (48 + m :: int)" by auto
    have "decimal p = (k * 10 + l) * 10 + m" using 3 p(1) k l m by (simp add: decimal_def digit_facts)
    moreover have "((k * 10 + l) * 10 + m) div 100 = k" "((k * 10 + l) * 10 + m) div 10 mod 10 = l"
      "((k * 10 + l) * 10 + m) mod 10 = m"
      unfolding div_100 using l(1,2) m(1,2) by (simp_all only: base10)
    ultimately show ?thesis using 3 p(1) k k0 l m by (simp add: octet_text_def)
  qed
qed

text \<open>The text of an address, as the resolver writes it.\<close>

definition quad :: "int \<Rightarrow> int \<Rightarrow> int \<Rightarrow> int \<Rightarrow> int" where
  "quad a b c d = ((a * 256 + b) * 256 + c) * 256 + d"

definition show_ipv4 :: "int \<Rightarrow> string" where
  "show_ipv4 v = join_with (CHR ''.'') (map octet_text
     [v div 16777216, v div 65536 mod 256, v div 256 mod 256, v mod 256])"

lemma base256: "0 \<le> d \<Longrightarrow> d < 256 \<Longrightarrow> (x * 256 + d) div 256 = x \<and> (x * 256 + d) mod 256 = (d :: int)"
  by simp

lemma div_65536: "v div 65536 = v div 256 div (256 :: int)"
  using zdiv_zmult2_eq [of 256 v 256] by simp

lemma div_16777216: "v div 16777216 = v div 256 div 256 div (256 :: int)"
proof -
  have "v div 16777216 = v div 256 div 65536" using zdiv_zmult2_eq [of 65536 v 256] by simp
  also have "\<dots> = v div 256 div 256 div 256" by (rule div_65536)
  finally show ?thesis .
qed

lemma quad_split:
  assumes "0 \<le> b" "b < 256" "0 \<le> c" "c < 256" "0 \<le> d" "d < 256"
  shows "quad a b c d div 16777216 = a" "quad a b c d div 65536 = a * 256 + b" "quad a b c d div 256 = (a * 256 + b) * 256 + c"
    "quad a b c d div 65536 mod 256 = b" "quad a b c d div 256 mod 256 = c" "quad a b c d mod 256 = d"
  unfolding div_65536 div_16777216 quad_def using assms by (simp_all only: base256)

lemma quad_of: "quad (v div 16777216) (v div 65536 mod 256) (v div 256 mod 256) (v mod 256) = v"
  using div_mult_mod_eq [of v 256] div_mult_mod_eq [of "v div 256" 256] div_mult_mod_eq [of "v div 256 div 256" 256]
  unfolding div_65536 div_16777216 quad_def by simp

lemma parseIpv4_show:
  assumes "0 \<le> v" "v < 2 ^ 32"
  shows "parseIpv4 (show_ipv4 v) = Some v"
proof -
  let ?ps = "[v div 16777216, v div 65536 mod 256, v div 256 mod 256, v mod 256]"
  have b: "\<forall>n\<in>set ?ps. 0 \<le> n \<and> n \<le> 255"
  proof -
    have "0 \<le> v div 16777216" "v div 16777216 < 256"
      using assms by (simp_all add: pos_imp_zdiv_nonneg_iff div_less_iff_less_mult)
    moreover have "0 \<le> x mod 256 \<and> x mod 256 \<le> 255" for x :: int using pos_mod_bound [of 256 x] by simp
    ultimately show ?thesis by simp
  qed
  then have "split_on (CHR ''.'') (show_ipv4 v) = map octet_text ?ps"
    unfolding show_ipv4_def by (intro split_join) (auto simp: octet_text_ok)
  moreover have "parse_octets 0 (map octet_text ?ps) = Some (quad (v div 16777216) (v div 65536 mod 256) (v div 256 mod 256) (v mod 256))"
    using b octet_text_ok by (simp add: quad_def)
  ultimately show ?thesis by (simp add: parseIpv4_def quad_of)
qed

lemma parse_octets_four:
  "parse_octets 0 [p, q, r, s] = Some v \<Longrightarrow>
   octet_pattern p \<and> octet_pattern q \<and> octet_pattern r \<and> octet_pattern s \<and>
   decimal p \<le> 255 \<and> decimal q \<le> 255 \<and> decimal r \<le> 255 \<and> decimal s \<le> 255 \<and>
   v = quad (decimal p) (decimal q) (decimal r) (decimal s)"
  by (auto simp: quad_def split: if_splits)

lemma parseIpv4_Some:
  assumes "parseIpv4 t = Some v"
  shows "0 \<le> v \<and> v < 2 ^ 32 \<and> t = show_ipv4 v"
proof -
  from assms have len: "length (split_on (CHR ''.'') t) = 4" and po: "parse_octets 0 (split_on (CHR ''.'') t) = Some v"
    by (auto simp: parseIpv4_def Let_def split: if_splits)
  from len obtain p q r s where sp: "split_on (CHR ''.'') t = [p, q, r, s]"
    by (auto simp: numeral_eq_Suc length_Suc_conv)
  note f = parse_octets_four [OF po [unfolded sp]]
  have o: "0 \<le> decimal x \<and> x = octet_text (decimal x)" if "x \<in> {p, q, r, s}" for x
    using f that octet_pattern_text by auto
  have bnd: "0 \<le> decimal p" "decimal p < 256" "0 \<le> decimal q" "decimal q < 256" "0 \<le> decimal r" "decimal r < 256"
    "0 \<le> decimal s" "decimal s < 256" using f o by force+
  have "t = join_with (CHR ''.'') [p, q, r, s]" using join_split [of "CHR ''.''" t] sp by simp
  also have "\<dots> = show_ipv4 v"
    using f o [of p] o [of q] o [of r] o [of s] quad_split [OF bnd(3-8), of "decimal p"] by (simp add: show_ipv4_def)
  finally show ?thesis using f bnd by (simp add: quad_def)
qed

section \<open>The IPv4 blocks\<close>

lemma div_eq_iff: "0 < k \<Longrightarrow> x div k = q \<longleftrightarrow> q * k \<le> x \<and> x < q * k + (k :: int)"
  using int_div_bounds [of k x] by (auto simp: algebra_simps intro: int_div_pos_eq [of x k q "x - k * q"])

lemma ipv4_rules_eq:
  "map (\<lambda>r. (r4_base r, r4_bits r)) ipv4_rules =
    [(2852039166, 32), (0, 8), (167772160, 8), (1681915904, 10), (2130706432, 8), (2851995648, 16),
     (2886729728, 12), (3221225472, 24), (3221225984, 24), (3227017984, 24), (3232235520, 16),
     (3323068416, 15), (3325256704, 24), (3405803776, 24), (3758096384, 4), (4026531840, 4)]"
  by code_simp

lemma first_rule_None:
  "first_rule rs v = None \<longleftrightarrow> list_all (\<lambda>(b, n). \<not> inIpv4Range v b n) (map (\<lambda>r. (r4_base r, r4_bits r)) rs)"
  by (induction rs) auto

lemma inIpv4Range_interval:
  "0 < n \<Longrightarrow> n \<le> 32 \<Longrightarrow> inIpv4Range v b n \<longleftrightarrow>
     b div 2 ^ (32 - n) * 2 ^ (32 - n) \<le> v \<and> v < b div 2 ^ (32 - n) * 2 ^ (32 - n) + 2 ^ (32 - n)"
  by (simp add: inIpv4Range_def div_eq_iff)

definition deny_intervals :: "(int \<times> int) list" where
  "deny_intervals =
    [(2852039166, 2852039167), (0, 16777216), (167772160, 184549376), (1681915904, 1686110208),
     (2130706432, 2147483648), (2851995648, 2852061184), (2886729728, 2887778304), (3221225472, 3221225728),
     (3221225984, 3221226240), (3227017984, 3227018240), (3232235520, 3232301056), (3323068416, 3323199488),
     (3325256704, 3325256960), (3405803776, 3405804032), (3758096384, 4026531840), (4026531840, 4294967296)]"

lemma classifyIpv4_None:
  "classifyIpv4 v = None \<longleftrightarrow> list_all (\<lambda>(lo, hi). \<not> (lo \<le> v \<and> v < hi)) deny_intervals"
  unfolding classifyIpv4_def first_rule_None ipv4_rules_eq deny_intervals_def
  by (simp add: inIpv4Range_interval)

text \<open>The blocks that are not public, by their dotted octets.\<close>

definition special_quad :: "int \<Rightarrow> int \<Rightarrow> int \<Rightarrow> int \<Rightarrow> bool" where
  "special_quad a b c d \<longleftrightarrow>
     a = 0 \<or> a = 10 \<or> (a = 100 \<and> 64 \<le> b \<and> b \<le> 127) \<or> a = 127 \<or> (a = 169 \<and> b = 254)
     \<or> (a = 172 \<and> 16 \<le> b \<and> b \<le> 31) \<or> (a = 192 \<and> b = 0 \<and> (c = 0 \<or> c = 2)) \<or> (a = 192 \<and> b = 88 \<and> c = 99)
     \<or> (a = 192 \<and> b = 168) \<or> (a = 198 \<and> (b = 18 \<or> b = 19)) \<or> (a = 198 \<and> b = 51 \<and> c = 100)
     \<or> (a = 203 \<and> b = 0 \<and> c = 113) \<or> 224 \<le> a"

lemma quad_block1:
  "0 \<le> b \<Longrightarrow> b < 256 \<Longrightarrow> 0 \<le> c \<Longrightarrow> c < 256 \<Longrightarrow> 0 \<le> d \<Longrightarrow> d < 256 \<Longrightarrow>
   lo * 16777216 \<le> quad a b c d \<and> quad a b c d < hi * 16777216 \<longleftrightarrow> lo \<le> a \<and> a < hi"
  unfolding quad_def by (rule iffI; elim conjE; intro conjI; simp; linarith)

lemma quad_block2:
  assumes "0 \<le> b" "b < 256" "0 \<le> c" "c < 256" "0 \<le> d" "d < 256" "0 \<le> lo" "hi \<le> 256"
  shows "(a0 * 256 + lo) * 65536 \<le> quad a b c d \<and> quad a b c d < (a0 * 256 + hi) * 65536 \<longleftrightarrow> a = a0 \<and> lo \<le> b \<and> b < hi"
proof -
  have q: "quad a b c d = (a * 256 + b) * 65536 + (c * 256 + d)" by (simp add: quad_def)
  have e: "0 \<le> c * 256 + d" "c * 256 + d < 65536" using assms(3-6) by linarith+
  have shift: "0 \<le> e \<Longrightarrow> e < 65536 \<Longrightarrow> x * 65536 \<le> y * 65536 + e \<longleftrightarrow> x \<le> y" for x y e :: int by linarith
  have lo: "x * 65536 \<le> quad a b c d \<longleftrightarrow> x \<le> a * 256 + b" for x unfolding q using shift [OF e] .
  have hi: "quad a b c d < x * 65536 \<longleftrightarrow> a * 256 + b < x" for x
    unfolding not_le [symmetric] lo ..
  show ?thesis unfolding lo hi
  proof
    assume h: "a0 * 256 + lo \<le> a * 256 + b \<and> a * 256 + b < a0 * 256 + hi"
    then have "a = a0" using assms(1,2,7,8) by linarith
    with h show "a = a0 \<and> lo \<le> b \<and> b < hi" by simp
  qed simp
qed

lemma quad_block3:
  "0 \<le> b \<Longrightarrow> b < 256 \<Longrightarrow> 0 \<le> c \<Longrightarrow> c < 256 \<Longrightarrow> 0 \<le> d \<Longrightarrow> d < 256 \<Longrightarrow> 0 \<le> b0 \<Longrightarrow> b0 < 256 \<Longrightarrow> 0 \<le> c0 \<Longrightarrow> c0 < 256 \<Longrightarrow>
   ((a0 * 256 + b0) * 256 + c0) * 256 \<le> quad a b c d \<and> quad a b c d < ((a0 * 256 + b0) * 256 + c0 + 1) * 256 \<longleftrightarrow>
   a = a0 \<and> b = b0 \<and> c = c0"
proof -
  assume r: "0 \<le> b" "b < 256" "0 \<le> c" "c < 256" "0 \<le> d" "d < 256" "0 \<le> b0" "b0 < 256" "0 \<le> c0" "c0 < 256"
  have "((a0 * 256 + b0) * 256 + c0) * 256 \<le> quad a b c d \<and> quad a b c d < ((a0 * 256 + b0) * 256 + c0 + 1) * 256 \<longleftrightarrow>
    quad a b c d div 256 = (a0 * 256 + b0) * 256 + c0" by (auto simp: div_eq_iff)
  also have "\<dots> \<longleftrightarrow> (a * 256 + b) * 256 + c = (a0 * 256 + b0) * 256 + c0" using quad_split(3) r by simp
  also have "\<dots> \<longleftrightarrow> a = a0 \<and> b = b0 \<and> c = c0"
    using r base256 [of c "a * 256 + b"] base256 [of c0 "a0 * 256 + b0"] base256 [of b a] base256 [of b0 a0] by metis
  finally show ?thesis .
qed

lemma deny_intervals_quad:
  assumes "0 \<le> a" "a < 256" "0 \<le> b" "b < 256" "0 \<le> c" "c < 256" "0 \<le> d" "d < 256"
  shows "list_all (\<lambda>(lo, hi). \<not> (lo \<le> quad a b c d \<and> quad a b c d < hi)) deny_intervals \<longleftrightarrow> \<not> special_quad a b c d"
proof -
  note r = assms(3-8)
  note b1 = quad_block1 [OF r, of 0 a 1, simplified] quad_block1 [OF r, of 10 a 11, simplified]
    quad_block1 [OF r, of 127 a 128, simplified] quad_block1 [OF r, of 224 a 240, simplified]
    quad_block1 [OF r, of 240 a 256, simplified]
  note b2 = quad_block2 [OF r, of 64 128 100 a, simplified] quad_block2 [OF r, of 254 255 169 a, simplified]
    quad_block2 [OF r, of 16 32 172 a, simplified] quad_block2 [OF r, of 168 169 192 a, simplified]
    quad_block2 [OF r, of 18 20 198 a, simplified]
  note b3 = quad_block3 [OF r, of 0 0 192 a, simplified] quad_block3 [OF r, of 0 2 192 a, simplified]
    quad_block3 [OF r, of 88 99 192 a, simplified] quad_block3 [OF r, of 51 100 198 a, simplified]
    quad_block3 [OF r, of 0 113 203 a, simplified]
  have m: "2852039166 \<le> quad a b c d \<and> quad a b c d < 2852039167 \<Longrightarrow> 2851995648 \<le> quad a b c d \<and> quad a b c d < 2852061184"
    by linarith
  have i: "0 \<le> a \<and> a < 1 \<longleftrightarrow> a = 0" "10 \<le> a \<and> a < 11 \<longleftrightarrow> a = 10" "127 \<le> a \<and> a \<le> 127 \<longleftrightarrow> a = 127"
    "254 \<le> b \<and> b < 255 \<longleftrightarrow> b = 254" "168 \<le> b \<and> b < 169 \<longleftrightarrow> b = 168" "18 \<le> b \<and> b < 20 \<longleftrightarrow> b = 18 \<or> b = 19"
    "b < 128 \<longleftrightarrow> b \<le> 127" "b < 32 \<longleftrightarrow> b \<le> 31" for a b :: int by auto
  have t: "(224 \<le> a \<and> a < 240) \<or> (240 \<le> a \<and> a < 256) \<longleftrightarrow> 224 \<le> a" using assms(2) by linarith
  have nil: "list_all P [] = True" for P :: "int \<times> int \<Rightarrow> bool" by simp
  have "list_all (\<lambda>(lo, hi). \<not> (lo \<le> quad a b c d \<and> quad a b c d < hi)) deny_intervals \<longleftrightarrow>
    \<not> (2852039166 \<le> quad a b c d \<and> quad a b c d < 2852039167) \<and> \<not> special_quad a b c d"
    unfolding deny_intervals_def list.pred_inject(2) nil prod.case b1 b2 b3 special_quad_def i
    using t by argo
  moreover have "2852039166 \<le> quad a b c d \<and> quad a b c d < 2852039167 \<Longrightarrow> special_quad a b c d"
    using m unfolding b2 i special_quad_def by blast
  ultimately show ?thesis by blast
qed

section \<open>IPv6 groups\<close>

definition wf_groups :: "int list \<Rightarrow> bool" where
  "wf_groups gs \<longleftrightarrow> length gs = 8 \<and> (\<forall>g\<in>set gs. 0 \<le> g \<and> g < 65536)"

lemma group_at_bounds: "\<forall>g\<in>set gs. 0 \<le> g \<and> g < 65536 \<Longrightarrow> 0 \<le> group_at gs i \<and> group_at gs i < 65536"
  by (simp add: group_at_def)

lemma range6_step:
  assumes "\<forall>g\<in>set gs. 0 \<le> g \<and> g < 65536" "\<forall>g\<in>set ps. 0 \<le> g \<and> g < 65536"
  shows "range6_from (i # is) gs ps bits \<longleftrightarrow> bits = 0 \<or>
    (group_at gs i div 2 ^ (16 - min 16 bits) = group_at ps i div 2 ^ (16 - min 16 bits) \<and>
     range6_from is gs ps (bits - min 16 bits))"
  using group_at_bounds [OF assms(1), of i] group_at_bounds [OF assms(2), of i]
  by (simp add: and_high_bits Let_def)

lemma range6_zero [simp]: "range6_from is gs ps 0"
  by (cases "is") simp_all

lemma range6_two:
  assumes "\<forall>g\<in>set gs. 0 \<le> g \<and> g < 65536" "\<forall>g\<in>set ps. 0 \<le> g \<and> g < 65536" "wf_groups gs"
  shows "inIpv6Range gs ps bits \<longleftrightarrow> bits = 0 \<or>
    (gs ! 0 div 2 ^ (16 - min 16 bits) = group_at ps 0 div 2 ^ (16 - min 16 bits) \<and>
     (bits - min 16 bits = 0 \<or>
      (gs ! 1 div 2 ^ (16 - min 16 (bits - min 16 bits)) = group_at ps 1 div 2 ^ (16 - min 16 (bits - min 16 bits)) \<and>
       range6_from [2, 3, 4, 5, 6, 7] gs ps (bits - min 16 bits - min 16 (bits - min 16 bits)))))"
proof -
  have "group_at gs 0 = gs ! 0" "group_at gs 1 = gs ! 1" using assms(3) by (simp_all add: wf_groups_def group_at_def)
  then show ?thesis
    unfolding inIpv6Range_def range6_step [OF assms(1,2), of 0] range6_step [OF assms(1,2), of 1] by (simp only:)
qed

lemma hex_val_bounds: "is_hex c \<Longrightarrow> 0 \<le> hex_val c \<and> hex_val c < 16"
  by (auto simp: is_hex_def is_digit_def hex_val_def)

lemma hexadecimal_bounds: "list_all is_hex s \<Longrightarrow> 0 \<le> hexadecimal s \<and> hexadecimal s < 16 ^ length s"
proof (induction s rule: rev_induct)
  case (snoc c s)
  then have "0 \<le> hexadecimal s" "hexadecimal s < 16 ^ length s" "0 \<le> hex_val c" "hex_val c < 16"
    using hex_val_bounds by auto
  moreover have "hexadecimal (s @ [c]) = hexadecimal s * 16 + hex_val c" by (simp add: hexadecimal_def)
  ultimately show ?case by simp
qed (simp add: hexadecimal_def)

lemma parse_groups_bounds: "parse_groups ps = Some gs \<Longrightarrow> \<forall>g\<in>set gs. 0 \<le> g \<and> g < 65536"
proof (induction ps arbitrary: gs)
  case (Cons p ps)
  then obtain gs' where p: "length p \<le> 4" "list_all is_hex p" "parse_groups ps = Some gs'" "gs = hexadecimal p # gs'"
    by (auto split: if_splits)
  have "16 ^ length p \<le> (16 :: int) ^ 4" using p(1) by (rule power_increasing) simp
  then show ?case using Cons.IH [OF p(3)] hexadecimal_bounds [OF p(2)] p(4) by auto
qed simp

lemma parse_part_bounds: "parse_part p = Some gs \<Longrightarrow> \<forall>g\<in>set gs. 0 \<le> g \<and> g < 65536"
  using parse_groups_bounds by (auto simp: parse_part_def split: if_splits)

lemma ipv4_tail_bounds: "ipv4_tail a = Some (tail, head) \<Longrightarrow> \<forall>g\<in>set tail. 0 \<le> g \<and> g < 65536"
proof -
  assume t: "ipv4_tail a = Some (tail, head)"
  show ?thesis
  proof (cases "tail = []")
    case False
    with t obtain s v where v: "parseIpv4 s = Some v" "tail = [v div 65536, v mod 65536]"
      by (auto simp: ipv4_tail_def Let_def split: if_splits option.splits)
    from parseIpv4_Some [OF v(1)] have "0 \<le> v div 65536" "v div 65536 < 65536"
      using int_div_bounds(1) [of 65536 v] by (auto simp: pos_imp_zdiv_nonneg_iff)
    with v(2) show ?thesis by simp
  qed simp
qed

lemma parseIpv6_wf:
  assumes "parseIpv6 t = Some gs"
  shows "wf_groups gs"
proof -
  have e: "eight_groups xs = Some gs \<longleftrightarrow> xs = gs \<and> length gs = 8" for xs by (auto simp: eight_groups_def)
  from assms obtain tail head where th: "ipv4_tail (bare_address t) = Some (tail, head)"
    by (auto simp: parseIpv6_def Let_def split: if_splits option.splits)
  show ?thesis
  proof (cases "index_of ''::'' head")
    case None
    with assms th obtain xs where "parse_part head = Some xs" "xs @ tail = gs" "length gs = 8"
      by (auto simp: parseIpv6_def Let_def e split: if_splits option.splits)
    then show ?thesis using parse_part_bounds ipv4_tail_bounds [OF th] by (auto simp: wf_groups_def)
  next
    case (Some i)
    with assms th obtain l r n where "parse_part (take i head) = Some l" "parse_part (drop (i + 2) head) = Some r"
      "l @ replicate n 0 @ r @ tail = gs" "length gs = 8"
      by (auto simp: parseIpv6_def Let_def e split: if_splits option.splits)
    then show ?thesis using parse_part_bounds ipv4_tail_bounds [OF th] by (auto simp: wf_groups_def)
  qed
qed

text \<open>What passes: global unicast without its special blocks, or NAT64 of a public IPv4 address.\<close>

definition public6 :: "int list \<Rightarrow> bool" where
  "public6 gs \<longleftrightarrow> (starts_with_groups gs [0x64, 0xFF9B, 0, 0, 0, 0] \<and> classifyIpv4 (embeddedIpv4 gs 6) = None) \<or>
     (0x2000 \<le> gs ! 0 \<and> gs ! 0 < 0x4000 \<and> gs ! 0 \<noteq> 0x2002 \<and>
      \<not> (gs ! 0 = 0x2001 \<and> (gs ! 1 < 0x200 \<or> gs ! 1 = 0xDB8)) \<and> \<not> (gs ! 0 = 0x3FFF \<and> gs ! 1 < 0x1000))"

lemma or_reserved_Some [simp]: "or_reserved c \<noteq> None"
  by (simp add: or_reserved_def split: option.splits)

lemma group_at_nth: "wf_groups gs \<Longrightarrow> i < 8 \<Longrightarrow> group_at gs i = gs ! i"
  by (simp add: wf_groups_def group_at_def)

lemma nth_bounds: "wf_groups gs \<Longrightarrow> i < 8 \<Longrightarrow> 0 \<le> gs ! i \<and> gs ! i < 65536"
  by (simp add: wf_groups_def)

lemma range_first:
  assumes wf: "wf_groups gs" and "n \<le> 16" "0 < n" "0 \<le> p" "p < 65536"
  shows "inIpv6Range gs [p] n \<longleftrightarrow> gs ! 0 div 2 ^ (16 - n) = p div 2 ^ (16 - n)"
proof -
  have b: "\<forall>g\<in>set gs. 0 \<le> g \<and> g < 65536" "\<forall>g\<in>set [p]. 0 \<le> g \<and> g < 65536"
    using assms by (auto simp: wf_groups_def)
  have "group_at [p] 0 = p" by (simp add: group_at_def)
  then show ?thesis
    using assms(2,3) unfolding range6_two [OF b wf] by (simp add: min_def)
qed

lemma range_second:
  assumes wf: "wf_groups gs" and "n \<le> 16" "0 < n" "0 \<le> p" "p < 65536" "0 \<le> q" "q < 65536" "ps = [p, q] \<or> (ps = [p] \<and> q = 0)"
  shows "inIpv6Range gs ps (16 + n) \<longleftrightarrow> gs ! 0 = p \<and> gs ! 1 div 2 ^ (16 - n) = q div 2 ^ (16 - n)"
proof -
  have b: "\<forall>g\<in>set gs. 0 \<le> g \<and> g < 65536" "\<forall>g\<in>set ps. 0 \<le> g \<and> g < 65536"
    using assms by (auto simp: wf_groups_def)
  have "group_at ps 0 = p" "group_at ps (Suc 0) = q" using assms(8) by (auto simp: group_at_def)
  then show ?thesis
    using assms(2,3) unfolding range6_two [OF b wf] by (simp add: min_def)
qed

lemma range_more:
  assumes wf: "wf_groups gs" and "\<forall>g\<in>set ps. 0 \<le> g \<and> g < 65536" "inIpv6Range gs ps bits" "32 \<le> bits"
  shows "gs ! 0 = group_at ps 0 \<and> gs ! 1 = group_at ps 1"
proof -
  have b: "\<forall>g\<in>set gs. 0 \<le> g \<and> g < 65536" using wf by (simp add: wf_groups_def)
  show ?thesis
    using assms(3,4) unfolding range6_two [OF b assms(2) wf] by (auto simp: min_def)
qed

lemma classifyIpv6_None:
  assumes "wf_groups gs"
  shows "classifyIpv6 gs = None \<longleftrightarrow> public6 gs"
proof -
  have len: "length gs = 8" using assms by (simp add: wf_groups_def)
  note b = nth_bounds [OF assms, of 0] nth_bounds [OF assms, of 1]
  have ga: "group_at gs 0 = gs ! 0" by (rule group_at_nth [OF assms]) simp
  have z: "zero_up_to gs n \<Longrightarrow> 0 < n \<Longrightarrow> gs ! 0 = 0" for n
    using len by (cases gs; cases n) (auto simp: zero_up_to_def)
  have nat64: "starts_with_groups gs [0x64, 0xFF9B, 0, 0, 0, 0] \<Longrightarrow> gs ! 0 = 0x64 \<and> gs ! 2 = 0"
    using len by (auto simp: starts_with_groups_def dest: spec [of _ 0] spec [of _ 2])
  have meta: "starts_with_groups gs [0xFD00, 0x0EC2, 0, 0, 0, 0, 0, 0x0254] \<Longrightarrow> gs ! 0 = 0xFD00"
    using len by (auto simp: starts_with_groups_def dest: spec [of _ 0])
  have r48: "inIpv6Range gs [0x64, 0xFF9B, 1] 48 \<Longrightarrow> gs ! 0 = 0x64"
    and r64a: "inIpv6Range gs [0x0100, 0, 0, 0] 64 \<Longrightarrow> gs ! 0 = 0x100"
    and r64b: "inIpv6Range gs [0x0100, 0, 0, 1] 64 \<Longrightarrow> gs ! 0 = 0x100"
    and bench: "inIpv6Range gs [0x2001, 0x0002, 0] 48 \<Longrightarrow> gs ! 0 = 0x2001 \<and> gs ! 1 = 2"
    by (drule range_more [OF assms, rotated]; simp add: group_at_def)+
  have doc: "inIpv6Range gs [0x2001, 0x0DB8] 32 \<longleftrightarrow> gs ! 0 = 0x2001 \<and> gs ! 1 = 0xDB8"
    using range_second [OF assms, where n = 16 and p = "0x2001" and q = "0xDB8" and ps = "[0x2001, 0x0DB8]"] by simp
  have ietf: "inIpv6Range gs [0x2001] 23 \<longleftrightarrow> gs ! 0 = 0x2001 \<and> gs ! 1 < 0x200"
    using range_second [OF assms, where n = 7 and p = "0x2001" and q = "0" and ps = "[0x2001]"] b by (simp add: div_eq_iff)
  have doc2: "inIpv6Range gs [0x3FFF] 20 \<longleftrightarrow> gs ! 0 = 0x3FFF \<and> gs ! 1 < 0x1000"
    using range_second [OF assms, where n = 4 and p = "0x3FFF" and q = "0" and ps = "[0x3FFF]"] b by (simp add: div_eq_iff)
  have first: "inIpv6Range gs [0x5F00] 16 \<longleftrightarrow> gs ! 0 = 0x5F00"
    "inIpv6Range gs [0xFC00] 7 \<longleftrightarrow> 0xFC00 \<le> gs ! 0 \<and> gs ! 0 < 0xFE00"
    "inIpv6Range gs [0xFE80] 10 \<longleftrightarrow> 0xFE80 \<le> gs ! 0 \<and> gs ! 0 < 0xFEC0"
    "inIpv6Range gs [0xFEC0] 10 \<longleftrightarrow> 0xFEC0 \<le> gs ! 0 \<and> gs ! 0 < 0xFF00"
    "inIpv6Range gs [0xFF00] 8 \<longleftrightarrow> 0xFF00 \<le> gs ! 0 \<and> gs ! 0 < 0x10000"
    "inIpv6Range gs [0x2000] 3 \<longleftrightarrow> 0x2000 \<le> gs ! 0 \<and> gs ! 0 < 0x4000"
    by (simp_all add: range_first [OF assms] div_eq_iff)
  show ?thesis
  proof (cases "0x2000 \<le> gs ! 0 \<and> gs ! 0 < 0x4000")
    case True
    then have "\<not> zero_up_to gs 5" "\<not> zero_up_to gs 6" "\<not> zero_up_to gs 7" "\<not> zero_up_to gs 8"
      "\<not> starts_with_groups gs [0x64, 0xFF9B, 0, 0, 0, 0]" "\<not> inIpv6Range gs [0x64, 0xFF9B, 1] 48"
      "\<not> inIpv6Range gs [0x0100, 0, 0, 0] 64" "\<not> inIpv6Range gs [0x0100, 0, 0, 1] 64"
      "\<not> starts_with_groups gs [0xFD00, 0x0EC2, 0, 0, 0, 0, 0, 0x0254]"
      using z [of 5] z [of 6] z [of 7] z [of 8] nat64 r48 r64a r64b meta by auto
    then show ?thesis
      using True bench unfolding classifyIpv6_def public6_def doc ietf doc2 first ga by auto
  next
    case False
    show ?thesis
    proof (cases "starts_with_groups gs [0x64, 0xFF9B, 0, 0, 0, 0]")
      case True
      then have "gs ! 0 = 0x64" using nat64 by simp
      then have "\<not> zero_up_to gs 5" "\<not> zero_up_to gs 6" "\<not> zero_up_to gs 7" "\<not> zero_up_to gs 8"
        using z [of 5] z [of 6] z [of 7] z [of 8] by auto
      then show ?thesis using True False by (auto simp: classifyIpv6_def public6_def)
    next
      case n: False
      then show ?thesis using False by (auto simp: classifyIpv6_def public6_def first)
    qed
  qed
qed

section \<open>What the guard lets through\<close>

text \<open>The IPv4 rules are exactly the special-purpose blocks: a dotted quad is let through if and only if
  none of its leading octets falls in one of them. The reference definition compares octets; the code
  compares quotients by powers of two.
\<close>

theorem ipv4_rules_are_the_blocks:
  assumes "0 \<le> a" "a < 256" "0 \<le> b" "b < 256" "0 \<le> c" "c < 256" "0 \<le> d" "d < 256"
  shows "classifyIpv4 (quad a b c d) = None \<longleftrightarrow> \<not> special_quad a b c d"
  unfolding classifyIpv4_None by (rule deny_intervals_quad [OF assms])

theorem ipv4_rules_are_the_blocks_witness:
  "classifyIpv4 (quad 8 8 8 8) = None \<and> classifyIpv4 (quad 172 31 255 255) \<noteq> None \<and> classifyIpv4 (quad 172 32 0 0) = None"
  using ipv4_rules_are_the_blocks [of 8 8 8 8] ipv4_rules_are_the_blocks [of 172 31 255 255]
    ipv4_rules_are_the_blocks [of 172 32 0 0]
  by (simp add: special_quad_def)

text \<open>\<open>parseIpv4\<close> accepts exactly the canonical dotted-decimal texts, each as the address it prints: no
  octal or padded octet, no missing or extra part, no value above 255, and no two texts for one address.
\<close>

theorem parseIpv4_exact: "parseIpv4 t = Some v \<longleftrightarrow> 0 \<le> v \<and> v < 2 ^ 32 \<and> t = show_ipv4 v"
  using parseIpv4_show parseIpv4_Some by blast


definition example_isIP :: "string \<Rightarrow> nat" where
  "example_isIP s = (if CHR '':'' \<in> set s then 6 else 4)"


end
