(* ===== verification/Text_Index.thy ===== *)
theory Text_Index
  imports Prelude Complex_Main
begin

text \<open>
  Offsets into a text, counted in UTF-16 units and in code points: \<open>chunking/code-points.ts\<close>, and the token
  estimate of \<open>chunking/token-estimate.ts\<close> (both under \<open>packages/core/src/application\<close>). The Unicode property
  tables of the regular expression engine are parameters; the weights are exact rationals here.
\<close>

section \<open>Surrogate pairs\<close>

text \<open>A cut between two units of one surrogate pair; every other cut is a code-point boundary.\<close>

definition joins :: "js_string \<Rightarrow> js_string \<Rightarrow> bool" where
  "joins xs ys \<longleftrightarrow> xs \<noteq> [] \<and> ys \<noteq> [] \<and> is_high_surrogate (last xs) \<and> is_low_surrogate (hd ys)"

definition cp_boundary :: "js_string \<Rightarrow> nat \<Rightarrow> bool" where
  "cp_boundary text u \<longleftrightarrow> u \<le> length text \<and> \<not> joins (take u text) (drop u text)"

lemma high_not_low: "is_high_surrogate u \<Longrightarrow> \<not> is_low_surrogate u"
  unfolding is_high_surrogate_def is_low_surrogate_def
  by (auto simp: word_le_nat_alt)

lemma joins_Nil [simp]: "\<not> joins [] ys" "\<not> joins xs []"
  by (simp_all add: joins_def)

lemma joins_Cons [simp]: "xs \<noteq> [] \<Longrightarrow> joins (x # xs) ys = joins xs ys"
  by (simp add: joins_def)

lemma cp_boundary_ends [simp]: "cp_boundary text 0" "cp_boundary text (length text)"
  by (simp_all add: cp_boundary_def)

lemma code_points_append: "\<not> joins xs ys \<Longrightarrow> code_points (xs @ ys) = code_points xs @ code_points ys"
proof (induction xs rule: code_points.induct)
  case (2 u)
  then show ?case by (cases ys) (auto simp: joins_def)
next
  case (3 u v us)
  show ?case
  proof (cases "is_high_surrogate u \<and> is_low_surrogate v")
    case True
    then have "\<not> joins us ys" using "3.prems" by (cases us) (auto simp: joins_def)
    then show ?thesis using "3.IH"(1) True by simp
  next
    case False
    then have "\<not> joins (v # us) ys" using "3.prems" by simp
    then show ?thesis using "3.IH"(2) False by auto
  qed
qed simp

section \<open>The code-point index\<close>

text \<open>
  \<open>CodePointIndex\<close>: the two tables its constructor fills (absent when no unit is a high surrogate). \<open>unit_table\<close> lists
  the offset of each code point and the text's length; \<open>point_table\<close> has an entry per unit and one for the end.
\<close>

record cp_index =
  ix_text :: js_string
  ix_length :: nat
  ix_units :: "nat list option"
  ix_points :: "nat list option"

fun unit_table :: "js_string \<Rightarrow> nat \<Rightarrow> nat list" where
  "unit_table [] off = [off]"
| "unit_table [u] off = [off, off + 1]"
| "unit_table (u # v # us) off =
     (if is_high_surrogate u \<and> is_low_surrogate v then off # unit_table us (off + 2) else off # unit_table (v # us) (off + 1))"

fun point_table :: "js_string \<Rightarrow> nat \<Rightarrow> nat list" where
  "point_table [] count = [count]"
| "point_table [u] count = [count, count + 1]"
| "point_table (u # v # us) count =
     (if is_high_surrogate u \<and> is_low_surrogate v then count # count # point_table us (count + 1)
      else count # point_table (v # us) (count + 1))"

definition code_point_index :: "js_string \<Rightarrow> cp_index" where
  "code_point_index text =
     (if \<not> list_ex is_high_surrogate text
      then \<lparr>ix_text = text, ix_length = length text, ix_units = None, ix_points = None\<rparr>
      else \<lparr>ix_text = text, ix_length = last (point_table text 0),
             ix_units = Some (unit_table text 0), ix_points = Some (point_table text 0)\<rparr>)"

definition nth_or :: "'a \<Rightarrow> 'a list \<Rightarrow> nat \<Rightarrow> 'a" where
  "nth_or d xs i = (if i < length xs then xs ! i else d)"

definition toUnit :: "cp_index \<Rightarrow> nat \<Rightarrow> nat" where
  "toUnit ix p = (case ix_units ix of None \<Rightarrow> p | Some us \<Rightarrow> nth_or (length (ix_text ix)) us p)"

definition toPoint :: "cp_index \<Rightarrow> nat \<Rightarrow> nat" where
  "toPoint ix u = (case ix_points ix of None \<Rightarrow> u | Some ps \<Rightarrow> nth_or (ix_length ix) ps u)"

definition countUnits :: "cp_index \<Rightarrow> nat \<Rightarrow> nat \<Rightarrow> int" where
  "countUnits ix a b = int (toPoint ix b) - int (toPoint ix a)"

definition slice :: "'a list \<Rightarrow> nat \<Rightarrow> nat \<Rightarrow> 'a list" where
  "slice xs a b = take (b - a) (drop a xs)"

definition slice_points :: "cp_index \<Rightarrow> nat \<Rightarrow> nat \<Rightarrow> js_string" where
  "slice_points ix a b = slice (ix_text ix) (toUnit ix a) (toUnit ix b)"

fun codePointLength :: "js_string \<Rightarrow> nat" where
  "codePointLength [] = 0"
| "codePointLength [u] = 1"
| "codePointLength (u # v # us) =
     (if is_high_surrogate u \<and> is_low_surrogate v then codePointLength us + 1 else codePointLength (v # us) + 1)"

lemma codePointLength_eq: "codePointLength s = length (code_points s)"
  by (induction s rule: codePointLength.induct) auto

lemma codePointLength_append: "\<not> joins xs ys \<Longrightarrow> codePointLength (xs @ ys) = codePointLength xs + codePointLength ys"
  by (simp add: codePointLength_eq code_points_append)

lemma codePointLength_plain: "\<not> list_ex is_high_surrogate s \<Longrightarrow> codePointLength s = length s"
  by (induction s rule: codePointLength.induct) auto

lemma codePointLength_pos: "s \<noteq> [] \<Longrightarrow> 0 < codePointLength s"
  by (cases s rule: codePointLength.cases) auto

section \<open>Slices\<close>

lemma length_slice [simp]: "b \<le> length xs \<Longrightarrow> length (slice xs a b) = b - a"
  by (simp add: slice_def)

lemma slice_append: "a \<le> b \<Longrightarrow> b \<le> c \<Longrightarrow> slice xs a b @ slice xs b c = slice xs a c"
proof -
  assume "a \<le> b" "b \<le> c"
  then have "slice xs b c = take (c - b) (drop (b - a) (drop a xs))" by (simp add: slice_def)
  moreover have "c - a = (b - a) + (c - b)" using \<open>a \<le> b\<close> \<open>b \<le> c\<close> by simp
  ultimately show ?thesis unfolding slice_def by (simp only: take_add)
qed

lemma slice_empty [simp]: "slice xs a a = []"
  by (simp add: slice_def)

lemma slice_all [simp]: "slice xs 0 (length xs) = xs"
  by (simp add: slice_def)

lemma take_slice: "a \<le> b \<Longrightarrow> take b xs = take a xs @ slice xs a b"
  unfolding slice_def by (metis le_add_diff_inverse take_add)

lemma joins_slices:
  assumes "a < b" "b < c" "c \<le> length text"
  shows "joins (slice text a b) (slice text b c) = joins (take b text) (drop b text)"
proof -
  have 1: "last (slice text a b) = text ! (b - 1)" "slice text a b \<noteq> []"
    using assms by (auto simp: slice_def last_conv_nth min_def)
  have "take b text \<noteq> []" using assms by auto
  then have 2: "last (take b text) = text ! (b - 1)" "take b text \<noteq> []"
    using assms by (simp_all add: last_conv_nth min_def)
  have 3: "hd (slice text b c) = text ! b" "slice text b c \<noteq> []"
    using assms by (auto simp: slice_def hd_drop_conv_nth hd_conv_nth)
  have 4: "hd (drop b text) = text ! b" "drop b text \<noteq> []"
    using assms by (auto simp: hd_drop_conv_nth)
  from 1 2 3 4 show ?thesis by (simp add: joins_def)
qed

text \<open>A boundary of a slice that starts at a boundary is a boundary of the text.\<close>

lemma cp_boundary_slice:
  assumes "a \<le> c" "c \<le> length text" "cp_boundary text a" "cp_boundary text c" "k \<le> c - a"
    and "\<not> joins (take k (slice text a c)) (drop k (slice text a c))"
  shows "cp_boundary text (a + k)"
proof (cases "k = 0 \<or> k = c - a")
  case True
  then show ?thesis using assms by auto
next
  case False
  then have k: "0 < k" "a + k < c" using assms by auto
  have "take k (slice text a c) = slice text a (a + k)" "drop k (slice text a c) = slice text (a + k) c"
    using k by (auto simp: slice_def drop_take add.commute min_def)
  then show ?thesis
    using assms k joins_slices [of a "a + k" c "text"] by (simp add: cp_boundary_def)
qed

section \<open>The tables agree with the code points\<close>

lemma length_point_table [simp]: "length (point_table s c) = length s + 1"
  by (induction s c rule: point_table.induct) auto

lemma point_table_boundary:
  "cp_boundary s u \<Longrightarrow> point_table s c ! u = c + codePointLength (take u s)"
proof (induction s c arbitrary: u rule: point_table.induct)
  case (1 c)
  then show ?case by (simp add: cp_boundary_def)
next
  case (2 x c)
  then show ?case by (cases u) (auto simp: cp_boundary_def)
next
  case (3 x y us c)
  show ?case
  proof (cases "is_high_surrogate x \<and> is_low_surrogate y")
    case True
    then have "u \<noteq> 1" using "3.prems" by (auto simp: cp_boundary_def joins_def)
    consider "u = 0" | v where "u = Suc (Suc v)" using \<open>u \<noteq> 1\<close> by (metis One_nat_def not0_implies_Suc)
    then show ?thesis
    proof cases
      case 2
      then have "cp_boundary us v" using "3.prems" by (cases v) (auto simp: cp_boundary_def joins_def)
      then show ?thesis using "3.IH"(1) True 2 by simp
    qed (use True in simp)
  next
    case False
    show ?thesis
    proof (cases u)
      case (Suc v)
      have "cp_boundary (y # us) v"
        using "3.prems" Suc False by (cases v) (auto simp: cp_boundary_def joins_def)
      then have "point_table (y # us) (c + 1) ! v = c + 1 + codePointLength (take v (y # us))"
        using "3.IH"(2) False by blast
      moreover have "codePointLength (x # take v (y # us)) = codePointLength (take v (y # us)) + 1"
        using False by (cases v) auto
      ultimately show ?thesis using False Suc by auto
    qed (use False in simp)
  qed
qed

lemma last_point_table: "last (point_table s c) = c + codePointLength s"
proof -
  have "last (point_table s c) = point_table s c ! length s"
    by (metis add_diff_cancel_right' last_conv_nth length_point_table length_0_conv add_is_0 one_neq_zero)
  then show ?thesis using point_table_boundary [of s "length s" c] by simp
qed

lemma ix_text_index [simp]: "ix_text (code_point_index text) = text"
  by (simp add: code_point_index_def)

lemma ix_length_index [simp]: "ix_length (code_point_index text) = codePointLength text"
  by (simp add: code_point_index_def last_point_table codePointLength_plain)

lemma list_ex_take: "\<not> list_ex P xs \<Longrightarrow> \<not> list_ex P (take n xs)"
  by (auto simp: list_ex_iff dest: in_set_takeD)

text \<open>A code-point offset is the number of code points before it.\<close>

lemma toPoint_boundary:
  assumes "cp_boundary text u"
  shows "toPoint (code_point_index text) u = codePointLength (take u text)"
proof (cases "list_ex is_high_surrogate text")
  case True
  moreover have "u < length text + 1" using assms by (simp add: cp_boundary_def)
  ultimately show ?thesis
    using point_table_boundary [OF assms, of 0] by (simp add: toPoint_def code_point_index_def nth_or_def)
next
  case False
  then have "codePointLength (take u text) = length (take u text)"
    by (intro codePointLength_plain list_ex_take)
  with False assms show ?thesis by (simp add: toPoint_def code_point_index_def cp_boundary_def)
qed

lemma countUnits_boundary:
  assumes "cp_boundary text a" "cp_boundary text b" "a \<le> b"
  shows "countUnits (code_point_index text) a b = int (codePointLength (slice text a b))"
proof -
  have "\<not> joins (take a text) (slice text a b)"
  proof (cases "a < b")
    case True
    then have "hd (slice text a b) = hd (drop a text)" "drop a text \<noteq> []"
      using assms by (auto simp: slice_def cp_boundary_def hd_take)
    then show ?thesis using assms by (auto simp: cp_boundary_def joins_def)
  next
    case False
    then show ?thesis using assms by simp
  qed
  then show ?thesis
    using assms by (simp add: countUnits_def toPoint_boundary take_slice [of a b] codePointLength_append)
qed

lemma countUnits_append: "countUnits ix a b + countUnits ix b c = countUnits ix a c"
  by (simp add: countUnits_def)

lemma toPoint_strict:
  assumes "cp_boundary text a" "cp_boundary text b" "a < b"
  shows "toPoint (code_point_index text) a < toPoint (code_point_index text) b"
proof -
  have "slice text a b \<noteq> []" using assms by (auto simp: slice_def cp_boundary_def)
  then have "0 < countUnits (code_point_index text) a b"
    using assms codePointLength_pos by (simp add: countUnits_boundary)
  then show ?thesis by (simp add: countUnits_def)
qed

lemma toPoint_ends [simp]:
  "toPoint (code_point_index text) 0 = 0"
  "toPoint (code_point_index text) (length text) = codePointLength text"
  by (simp_all add: toPoint_boundary)

section \<open>The two maps are inverse on boundaries\<close>

lemma length_unit_table [simp]: "length (unit_table s off) = codePointLength s + 1"
  by (induction s off rule: unit_table.induct) auto

lemma unit_table_boundary:
  "cp_boundary s u \<Longrightarrow> unit_table s off ! codePointLength (take u s) = off + u"
proof (induction s off arbitrary: u rule: unit_table.induct)
  case (1 off)
  then show ?case by (simp add: cp_boundary_def)
next
  case (2 x off)
  then show ?case by (cases u) (auto simp: cp_boundary_def)
next
  case (3 x y us off)
  show ?case
  proof (cases "is_high_surrogate x \<and> is_low_surrogate y")
    case True
    then have "u \<noteq> 1" using "3.prems" by (auto simp: cp_boundary_def joins_def)
    consider "u = 0" | v where "u = Suc (Suc v)" using \<open>u \<noteq> 1\<close> by (metis One_nat_def not0_implies_Suc)
    then show ?thesis
    proof cases
      case 2
      then have "cp_boundary us v" using "3.prems" by (cases v) (auto simp: cp_boundary_def joins_def)
      then show ?thesis using "3.IH"(1) True 2 by simp
    qed (use True in simp)
  next
    case False
    show ?thesis
    proof (cases u)
      case (Suc v)
      have "cp_boundary (y # us) v"
        using "3.prems" Suc False by (cases v) (auto simp: cp_boundary_def joins_def)
      then have "unit_table (y # us) (off + 1) ! codePointLength (take v (y # us)) = off + 1 + v"
        using "3.IH"(2) False by blast
      moreover have "codePointLength (x # take v (y # us)) = codePointLength (take v (y # us)) + 1"
        using False by (cases v) auto
      ultimately show ?thesis using False Suc by auto
    qed (use False in simp)
  qed
qed

lemma unit_table_is_boundary:
  "p \<le> codePointLength s \<Longrightarrow> \<exists>u. unit_table s off ! p = off + u \<and> cp_boundary s u \<and> codePointLength (take u s) = p"
proof (induction s off arbitrary: p rule: unit_table.induct)
  case (1 off)
  then show ?case by simp
next
  case (2 x off)
  then show ?case
    by (cases p) (auto intro: exI [of _ "0::nat"] exI [of _ "1::nat"] simp: cp_boundary_def)
next
  case (3 x y us off)
  show ?case
  proof (cases p)
    case 0
    then show ?thesis by (intro exI [of _ 0]) simp
  next
    case (Suc q)
    show ?thesis
    proof (cases "is_high_surrogate x \<and> is_low_surrogate y")
      case True
      then have "q \<le> codePointLength us" using "3.prems" Suc True by simp
      then obtain u where "unit_table us (off + 2) ! q = off + 2 + u" "cp_boundary us u" "codePointLength (take u us) = q"
        using "3.IH"(1) True by blast
      moreover from this have "cp_boundary (x # y # us) (Suc (Suc u))"
        using True high_not_low by (cases u) (auto simp: cp_boundary_def joins_def)
      ultimately show ?thesis using True Suc by (intro exI [of _ "Suc (Suc u)"]) simp
    next
      case False
      then have "q \<le> codePointLength (y # us)" using "3.prems" Suc False by auto
      then obtain u where u: "unit_table (y # us) (off + 1) ! q = off + 1 + u" "cp_boundary (y # us) u"
          "codePointLength (take u (y # us)) = q"
        using "3.IH"(2) False by blast
      moreover from this have "cp_boundary (x # y # us) (Suc u)"
        using False by (cases u) (auto simp: cp_boundary_def joins_def)
      moreover have "codePointLength (x # take u (y # us)) = codePointLength (take u (y # us)) + 1"
        using False by (cases u) auto
      ultimately show ?thesis using False Suc by (intro exI [of _ "Suc u"]) auto
    qed
  qed
qed

lemma plain_boundary: "\<not> list_ex is_high_surrogate text \<Longrightarrow> u \<le> length text \<Longrightarrow> cp_boundary text u"
  unfolding cp_boundary_def joins_def list_ex_iff by (metis in_set_takeD last_in_set)

lemma toUnit_toPoint:
  assumes "cp_boundary text u"
  shows "toUnit (code_point_index text) (toPoint (code_point_index text) u) = u"
proof (cases "list_ex is_high_surrogate text")
  case True
  have "codePointLength (take u text) < length (unit_table text 0)"
  proof -
    have "codePointLength text = codePointLength (take u text) + codePointLength (drop u text)"
      using assms codePointLength_append [of "take u text" "drop u text"] by (simp add: cp_boundary_def)
    then show ?thesis by simp
  qed
  with True show ?thesis
    using unit_table_boundary [OF assms, of 0]
    unfolding toPoint_boundary [OF assms] by (simp add: toUnit_def nth_or_def code_point_index_def)
next
  case False
  then show ?thesis by (simp add: toUnit_def toPoint_def code_point_index_def)
qed

lemma toPoint_toUnit:
  assumes "p \<le> codePointLength text"
  shows "cp_boundary text (toUnit (code_point_index text) p)"
    and "toPoint (code_point_index text) (toUnit (code_point_index text) p) = p"
proof -
  have "cp_boundary text (toUnit (code_point_index text) p) \<and>
        toPoint (code_point_index text) (toUnit (code_point_index text) p) = p"
  proof (cases "list_ex is_high_surrogate text")
    case True
    obtain u where u: "unit_table text 0 ! p = u" "cp_boundary text u" "codePointLength (take u text) = p"
      using unit_table_is_boundary [OF assms, of 0] by auto
    moreover have "toUnit (code_point_index text) p = u"
      using True assms u by (simp add: toUnit_def code_point_index_def nth_or_def)
    ultimately show ?thesis by (simp add: toPoint_boundary)
  next
    case False
    then show ?thesis
      using assms plain_boundary [OF False]
      by (simp add: toUnit_def toPoint_def code_point_index_def codePointLength_plain)
  qed
  then show "cp_boundary text (toUnit (code_point_index text) p)"
    "toPoint (code_point_index text) (toUnit (code_point_index text) p) = p" by auto
qed

section \<open>The token estimate\<close>

text \<open>The property tables of the regular expression engine, by code point.\<close>

record scripts =
  in_cjk :: "nat \<Rightarrow> bool"
  in_latin :: "nat \<Rightarrow> bool"
  in_letter :: "nat \<Rightarrow> bool"
  in_hangul :: "nat \<Rightarrow> bool"

record token_weights =
  tw_cjk :: rat
  tw_latin :: rat
  tw_other :: rat
  tw_other_letter :: rat

definition DEFAULT_TOKEN_WEIGHTS :: token_weights where
  "DEFAULT_TOKEN_WEIGHTS = \<lparr>tw_cjk = 1, tw_latin = 3 / 10, tw_other = 1 / 2, tw_other_letter = 1\<rparr>"

definition weightOf :: "scripts \<Rightarrow> token_weights \<Rightarrow> nat \<Rightarrow> rat" where
  "weightOf sc w p =
     (if p < 0x80
      then (if (0x30 \<le> p \<and> p \<le> 0x39) \<or> (0x41 \<le> p \<and> p \<le> 0x5a) \<or> (0x61 \<le> p \<and> p \<le> 0x7a) then tw_latin w else tw_other w)
      else if in_cjk sc p then tw_cjk w
      else if in_latin sc p then tw_latin w
      else if in_letter sc p then tw_other_letter w
      else tw_other w)"

definition estimateTokenWeight :: "scripts \<Rightarrow> js_string \<Rightarrow> rat" where
  "estimateTokenWeight sc text = sum_list (map (weightOf sc DEFAULT_TOKEN_WEIGHTS) (code_points text))"

definition estimateTokens :: "scripts \<Rightarrow> js_string \<Rightarrow> int" where
  "estimateTokens sc text = \<lceil>estimateTokenWeight sc text\<rceil>"

text \<open>Additive wherever no surrogate pair is cut, so a packer can sum parts.\<close>

lemma estimateTokenWeight_append:
  "\<not> joins xs ys \<Longrightarrow> estimateTokenWeight sc (xs @ ys) = estimateTokenWeight sc xs + estimateTokenWeight sc ys"
  by (simp add: estimateTokenWeight_def code_points_append)

end
