(* ===== verification/Regex.thy ===== *)
theory Regex
  imports Text_Index
begin

text \<open>
  Regular expressions of ECMAScript as the sources use them in \<open>test\<close>: the atoms are predicates on characters
  (code points under the flag \<open>u\<close>, code units without it), quantifiers are greedy, there are no captures.

  A match state is the text read so far, reversed, and the text that is left. \<open>rx_steps\<close> lists the states a
  backtracking matcher visits, in its order; \<open>test\<close> asks whether any start of the text has one. As in the
  standard, an optional iteration that reads nothing is dropped, which is what makes every list finite.
\<close>

section \<open>Expressions and matching\<close>

datatype rx =
    Chars "nat \<Rightarrow> bool"
  | Blank
  | Cat rx rx
  | Or rx rx
  | Rep nat "nat option" rx
  | Border "nat \<Rightarrow> bool"
  | Peek "nat \<Rightarrow> bool"
  | At_start
  | At_end

type_synonym rx_state = "nat list \<times> nat list"

fun rx_more :: "(rx_state \<Rightarrow> rx_state list) \<Rightarrow> nat \<Rightarrow> rx_state \<Rightarrow> rx_state list" where
  "rx_more f 0 s = [s]"
| "rx_more f (Suc n) s = concat (map (\<lambda>t. if snd t = snd s then [] else rx_more f n t) (f s)) @ [s]"

fun rx_times :: "(rx_state \<Rightarrow> rx_state list) \<Rightarrow> nat \<Rightarrow> rx_state \<Rightarrow> rx_state list" where
  "rx_times f 0 s = [s]"
| "rx_times f (Suc n) s = concat (map (rx_times f n) (f s))"

definition at_border :: "(nat \<Rightarrow> bool) \<Rightarrow> rx_state \<Rightarrow> bool" where
  "at_border word s \<longleftrightarrow>
     (case fst s of [] \<Rightarrow> False | c # _ \<Rightarrow> word c) \<noteq> (case snd s of [] \<Rightarrow> False | c # _ \<Rightarrow> word c)"

primrec rx_steps :: "rx \<Rightarrow> rx_state \<Rightarrow> rx_state list" where
  "rx_steps (Chars P) s = (case snd s of [] \<Rightarrow> [] | c # cs \<Rightarrow> if P c then [(c # fst s, cs)] else [])"
| "rx_steps Blank s = [s]"
| "rx_steps (Cat a b) s = concat (map (rx_steps b) (rx_steps a s))"
| "rx_steps (Or a b) s = rx_steps a s @ rx_steps b s"
| "rx_steps (Rep lo extra r) s =
     concat (map (\<lambda>t. rx_more (rx_steps r) (case extra of None \<Rightarrow> length (snd t) | Some k \<Rightarrow> k) t)
       (rx_times (rx_steps r) lo s))"
| "rx_steps (Border word) s = (if at_border word s then [s] else [])"
| "rx_steps (Peek P) s = (if (case snd s of [] \<Rightarrow> False | c # _ \<Rightarrow> P c) then [s] else [])"
| "rx_steps At_start s = (if fst s = [] then [s] else [])"
| "rx_steps At_end s = (if snd s = [] then [s] else [])"

definition rx_test :: "rx \<Rightarrow> nat list \<Rightarrow> bool" where
  "rx_test r cs \<longleftrightarrow> list_ex (\<lambda>i. rx_steps r (rev (take i cs), drop i cs) \<noteq> []) [0..<Suc (length cs)]"

section \<open>Building blocks\<close>

definition rx_seq :: "rx list \<Rightarrow> rx" where "rx_seq rs = foldr Cat rs Blank"

fun rx_any :: "rx list \<Rightarrow> rx" where
  "rx_any [] = Chars (\<lambda>_. False)"
| "rx_any [r] = r"
| "rx_any (r # rs) = Or r (rx_any rs)"

definition rx_star :: "rx \<Rightarrow> rx" where "rx_star = Rep 0 None"
definition rx_plus :: "rx \<Rightarrow> rx" where "rx_plus = Rep 1 None"
definition rx_opt :: "rx \<Rightarrow> rx" where "rx_opt = Rep 0 (Some 1)"
definition rx_exactly :: "nat \<Rightarrow> rx \<Rightarrow> rx" where "rx_exactly n = Rep n (Some 0)"
definition rx_least :: "nat \<Rightarrow> rx \<Rightarrow> rx" where "rx_least n = Rep n None"
definition rx_upto :: "nat \<Rightarrow> rx \<Rightarrow> rx" where "rx_upto n = Rep 0 (Some n)"

lemmas rx_blocks = rx_seq_def rx_star_def rx_plus_def rx_opt_def rx_exactly_def rx_least_def rx_upto_def

text \<open>A literal text, ASCII letters without regard to case when a fold is given.\<close>

definition rx_text :: "(nat \<Rightarrow> nat) \<Rightarrow> string \<Rightarrow> rx" where
  "rx_text fold_case s = rx_seq (map (\<lambda>c. Chars (\<lambda>x. fold_case x = of_char c)) s)"

definition rx_words :: "(nat \<Rightarrow> nat) \<Rightarrow> string list \<Rightarrow> rx" where
  "rx_words fold_case ws = rx_any (map (rx_text fold_case) ws)"

text \<open>
  Case folds onto lower-case ASCII: none; the flag \<open>i\<close> alone; \<open>i\<close> with \<open>u\<close>, where the long s and the
  Kelvin sign fold to \<open>s\<close> and \<open>k\<close>.
\<close>

definition fold_exact :: "nat \<Rightarrow> nat" where "fold_exact c = c"

definition fold_i :: "nat \<Rightarrow> nat" where "fold_i c = (if 65 \<le> c \<and> c \<le> 90 then c + 32 else c)"

definition fold_iu :: "nat \<Rightarrow> nat" where
  "fold_iu c = (if c = 0x17F then 115 else if c = 0x212A then 107 else fold_i c)"

definition ws_code :: "nat \<Rightarrow> bool" where "ws_code c \<longleftrightarrow> c < 0x10000 \<and> js_whitespace (word_of_nat c)"

definition line_code :: "nat \<Rightarrow> bool" where "line_code c \<longleftrightarrow> c = 10 \<or> c = 13 \<or> c = 0x2028 \<or> c = 0x2029"

definition word_code :: "(nat \<Rightarrow> nat) \<Rightarrow> nat \<Rightarrow> bool" where
  "word_code fold_case c \<longleftrightarrow> ascii_alnum (fold_case c) \<or> fold_case c = 95"

definition rx_space :: rx where "rx_space = Chars ws_code"
definition rx_dot :: rx where "rx_dot = Chars (\<lambda>c. \<not> line_code c)"
definition rx_b :: "(nat \<Rightarrow> nat) \<Rightarrow> rx" where "rx_b fold_case = Border (word_code fold_case)"
definition rx_char :: "char \<Rightarrow> rx" where "rx_char ch = Chars (\<lambda>c. c = of_char ch)"

section \<open>Reference semantics\<close>

text \<open>The words an expression relates: \<open>rx_match r u v w\<close> says that it can read \<open>v\<close> between \<open>u\<close> and \<open>w\<close>.\<close>

inductive rx_match :: "rx \<Rightarrow> nat list \<Rightarrow> nat list \<Rightarrow> nat list \<Rightarrow> bool" where
  chars: "P c \<Longrightarrow> rx_match (Chars P) u [c] w"
| blank: "rx_match Blank u [] w"
| cat: "rx_match a u v (x @ w) \<Longrightarrow> rx_match b (u @ v) x w \<Longrightarrow> rx_match (Cat a b) u (v @ x) w"
| or_left: "rx_match a u v w \<Longrightarrow> rx_match (Or a b) u v w"
| or_right: "rx_match b u v w \<Longrightarrow> rx_match (Or a b) u v w"
| rep_first: "rx_match r u v (x @ w) \<Longrightarrow> rx_match (Rep lo extra r) (u @ v) x w \<Longrightarrow>
    rx_match (Rep (Suc lo) extra r) u (v @ x) w"
| rep_more: "rx_match r u v (x @ w) \<Longrightarrow> rx_match (Rep 0 (Some k) r) (u @ v) x w \<Longrightarrow>
    rx_match (Rep 0 (Some (Suc k)) r) u (v @ x) w"
| rep_ever: "rx_match r u v (x @ w) \<Longrightarrow> rx_match (Rep 0 None r) (u @ v) x w \<Longrightarrow>
    rx_match (Rep 0 None r) u (v @ x) w"
| rep_stop: "rx_match (Rep 0 extra r) u [] w"
| border: "at_border word (rev u, w) \<Longrightarrow> rx_match (Border word) u [] w"
| peek: "P c \<Longrightarrow> rx_match (Peek P) u [] (c # w)"
| at_start: "rx_match At_start [] [] w"
| at_end: "rx_match At_end u [] []"

text \<open>The matcher computes exactly this relation.\<close>

definition runs :: "rx \<Rightarrow> rx_state \<Rightarrow> rx_state \<Rightarrow> bool" where
  "runs r s t \<longleftrightarrow> (\<exists>v. snd s = v @ snd t \<and> fst t = rev v @ fst s \<and> rx_match r (rev (fst s)) v (snd t))"

lemma runs_then:
  assumes "runs a s t" "runs b t u"
    and "\<And>v x w. rx_match a (rev (fst s)) v (x @ w) \<Longrightarrow> rx_match b (rev (fst s) @ v) x w \<Longrightarrow> rx_match c (rev (fst s)) (v @ x) w"
  shows "runs c s u"
proof -
  obtain v x where v: "snd s = v @ snd t" "fst t = rev v @ fst s" "rx_match a (rev (fst s)) v (snd t)"
    and x: "snd t = x @ snd u" "fst u = rev x @ fst t" "rx_match b (rev (fst t)) x (snd u)"
    using assms(1,2) unfolding runs_def by blast
  have "rx_match c (rev (fst s)) (v @ x) (snd u)" using assms(3) [of v x "snd u"] v x by simp
  then show ?thesis unfolding runs_def using v x by (intro exI [of _ "v @ x"]) simp
qed

lemma rx_more_sound:
  assumes "\<And>s t. t \<in> set (f s) \<Longrightarrow> runs r s t" "t \<in> set (rx_more f n s)" "extra = None \<or> extra = Some n"
  shows "runs (Rep 0 extra r) s t"
  using assms(2,3)
proof (induction n arbitrary: s extra)
  case 0
  then show ?case by (auto simp: runs_def intro: rep_stop)
next
  case (Suc n)
  show ?case
  proof (cases "t = s")
    case True
    then show ?thesis by (auto simp: runs_def intro: rep_stop)
  next
    case False
    then obtain m where m: "m \<in> set (f s)" "t \<in> set (rx_more f n m)" using Suc.prems(1) by (auto split: if_splits)
    let ?e = "map_option (\<lambda>_. n) extra"
    have "runs (Rep 0 ?e r) m t" by (rule Suc.IH [OF m(2)]) (cases extra; simp)
    with assms(1) [OF m(1)] show ?thesis
      by (rule runs_then) (use Suc.prems(2) in \<open>auto intro: rep_more rep_ever\<close>)
  qed
qed

lemma rx_times_sound:
  assumes "\<And>s t. t \<in> set (f s) \<Longrightarrow> runs r s t" "t \<in> set (rx_times f lo s)" "runs (Rep 0 extra r) t u"
  shows "runs (Rep lo extra r) s u"
  using assms(2)
proof (induction lo arbitrary: s)
  case 0
  then show ?case using assms(3) by simp
next
  case (Suc lo)
  then obtain m where m: "m \<in> set (f s)" "t \<in> set (rx_times f lo m)" by auto
  from assms(1) [OF m(1)] Suc.IH [OF m(2)] show ?case by (rule runs_then) (rule rep_first)
qed

lemma rx_steps_sound: "t \<in> set (rx_steps r s) \<Longrightarrow> runs r s t"
proof (induction r arbitrary: s t)
  case (Chars P)
  then show ?case by (auto simp: runs_def intro: chars split: list.splits if_splits)
next
  case (Cat a b)
  then obtain m where "m \<in> set (rx_steps a s)" "t \<in> set (rx_steps b m)" by auto
  from Cat.IH(1) [OF this(1)] Cat.IH(2) [OF this(2)] show ?case by (rule runs_then) (rule cat)
next
  case (Or a b)
  then have "t \<in> set (rx_steps a s) \<or> t \<in> set (rx_steps b s)" by simp
  then have "runs a s t \<or> runs b s t" using Or.IH by blast
  then show ?case unfolding runs_def by (blast intro: or_left or_right)
next
  case (Rep lo extra r)
  then obtain m where m: "m \<in> set (rx_times (rx_steps r) lo s)"
    "t \<in> set (rx_more (rx_steps r) (case extra of None \<Rightarrow> length (snd m) | Some k \<Rightarrow> k) m)" by auto
  show ?case
    by (rule rx_times_sound [OF Rep.IH m(1)], assumption, rule rx_more_sound [OF Rep.IH m(2)]) (auto split: option.splits)
next
  case (Peek P)
  then show ?case by (auto simp: runs_def intro: peek split: if_splits list.splits)
qed (auto simp: runs_def intro: rx_match.intros split: if_splits)

lemma rx_more_mono: "n \<le> m \<Longrightarrow> set (rx_more f n s) \<subseteq> set (rx_more f m s)"
proof (induction n arbitrary: m s)
  case 0
  then show ?case by (cases m) auto
next
  case (Suc n)
  then obtain k where "m = Suc k" "n \<le> k" by (cases m) auto
  with Suc.IH [of k] show ?case by fastforce
qed

lemma rx_more_self: "s \<in> set (rx_more f n s)"
  by (cases n) auto

lemma rx_more_step: "t \<in> set (f s) \<Longrightarrow> snd t \<noteq> snd s \<Longrightarrow> u \<in> set (rx_more f n t) \<Longrightarrow> u \<in> set (rx_more f (Suc n) s)"
  by auto

lemma rx_steps_complete: "rx_match r u v w \<Longrightarrow> (rev (u @ v), w) \<in> set (rx_steps r (rev u, v @ w))"
proof (induction rule: rx_match.induct)
  case (rep_more r u v x w k)
  show ?case
  proof (cases "v = []")
    case True
    have "(rev ((u @ v) @ x), w) \<in> set (rx_more (rx_steps r) k (rev (u @ v), x @ w))"
      using rep_more.IH(2) by simp
    then have "(rev ((u @ v) @ x), w) \<in> set (rx_more (rx_steps r) (Suc k) (rev (u @ v), x @ w))"
      using rx_more_mono [OF le_SucI [OF order_refl], of "rx_steps r" k] by blast
    then show ?thesis using True by simp
  next
    case False
    then show ?thesis using rep_more.IH by (auto intro: rx_more_step [rotated 2])
  qed
next
  case (rep_ever r u v x w)
  show ?case
  proof (cases v)
    case Nil
    then show ?thesis using rep_ever.IH(2) by simp
  next
    case (Cons c v')
    have 1: "(rev (u @ v), x @ w) \<in> set (rx_steps r (rev u, v @ x @ w))" using rep_ever.IH(1) by simp
    have "(rev ((u @ v) @ x), w) \<in> set (rx_more (rx_steps r) (length (x @ w)) (rev (u @ v), x @ w))"
      using rep_ever.IH(2) by simp
    moreover have "length (x @ w) \<le> length (v' @ x @ w)" by simp
    ultimately have "(rev ((u @ v) @ x), w) \<in> set (rx_more (rx_steps r) (length (v' @ x @ w)) (rev (u @ v), x @ w))"
      using rx_more_mono by blast
    from rx_more_step [OF 1 _ this] have
      "(rev ((u @ v) @ x), w) \<in> set (rx_more (rx_steps r) (Suc (length (v' @ x @ w))) (rev u, v @ x @ w))"
      by (simp add: Cons)
    then show ?thesis by (simp add: Cons)
  qed
next
  case (rep_stop extra r u w)
  show ?case by (cases extra) (simp_all add: rx_more_self)
qed (force simp: at_border_def split: list.splits)+

theorem rx_steps_correct: "t \<in> set (rx_steps r s) \<longleftrightarrow> runs r s t"
proof
  assume "runs r s t"
  then obtain v where v: "snd s = v @ snd t" "fst t = rev v @ fst s" "rx_match r (rev (fst s)) v (snd t)"
    unfolding runs_def by blast
  from rx_steps_complete [OF v(3)] v(1,2) show "t \<in> set (rx_steps r s)" by (metis prod.collapse rev_append rev_rev_ident)
qed (rule rx_steps_sound)

text \<open>\<open>test\<close>: some part of the text is read.\<close>

theorem rx_test_iff: "rx_test r cs \<longleftrightarrow> (\<exists>u v w. cs = u @ v @ w \<and> rx_match r u v w)"
proof
  assume "rx_test r cs"
  then obtain i where "rx_steps r (rev (take i cs), drop i cs) \<noteq> []"
    unfolding rx_test_def list_ex_iff by blast
  then obtain t where "t \<in> set (rx_steps r (rev (take i cs), drop i cs))" by (meson last_in_set)
  then obtain v where "drop i cs = v @ snd t" "rx_match r (take i cs) v (snd t)"
    by (auto simp: rx_steps_correct runs_def)
  then show "\<exists>u v w. cs = u @ v @ w \<and> rx_match r u v w" by (metis append_take_drop_id)
next
  assume "\<exists>u v w. cs = u @ v @ w \<and> rx_match r u v w"
  then obtain u v w where m: "cs = u @ v @ w" "rx_match r u v w" by blast
  from rx_steps_complete [OF m(2)] have "rx_steps r (rev (take (length u) cs), drop (length u) cs) \<noteq> []"
    by (auto simp: m(1))
  moreover have "length u < Suc (length cs)" by (simp add: m(1))
  ultimately show "rx_test r cs" unfolding rx_test_def list_ex_iff by (intro bexI [of _ "length u"]) auto
qed

end
