(* ===== verification/Text_Tests.thy ===== *)
theory Text_Tests
  imports Prelude
begin

text \<open>Tests of JavaScript strings against ASCII texts, unit by unit: \<open>startsWith\<close>, \<open>endsWith\<close>, \<open>includes\<close>, \<open>split\<close>.\<close>

definition begins :: "string \<Rightarrow> js_string \<Rightarrow> bool" where
  "begins p s \<longleftrightarrow> take (length p) s = js p"

definition finishes :: "string \<Rightarrow> js_string \<Rightarrow> bool" where
  "finishes p s \<longleftrightarrow> take (length p) (rev s) = rev (js p)"

definition has_part :: "string \<Rightarrow> js_string \<Rightarrow> bool" where
  "has_part p s \<longleftrightarrow> list_ex (\<lambda>k. begins p (drop k s)) [0..<Suc (length s)]"

definition one_of :: "string \<Rightarrow> 16 word \<Rightarrow> bool" where
  "one_of cs u \<longleftrightarrow> u \<in> set (js cs)"

definition between :: "char \<Rightarrow> char \<Rightarrow> 16 word \<Rightarrow> bool" where
  "between a b u \<longleftrightarrow> of_char a \<le> u \<and> u \<le> of_char b"

definition lower_unit :: "16 word \<Rightarrow> 16 word" where
  "lower_unit u = (if between (CHR ''A'') (CHR ''Z'') u then u + 32 else u)"

text \<open>The parts of a list between the elements of a class; always at least one.\<close>

fun split_where :: "('a \<Rightarrow> bool) \<Rightarrow> 'a list \<Rightarrow> 'a list list" where
  "split_where p [] = [[]]"
| "split_where p (x # xs) =
     (if p x then [] # split_where p xs else case split_where p xs of [] \<Rightarrow> [[x]] | y # ys \<Rightarrow> (x # y) # ys)"

end
