(* ===== verification/Egress_Policy.thy ===== *)
theory Egress_Policy
  imports Ip_Ranges Regex Text_Tests
begin

text \<open>
  The allowlist of the egress guard, its labels and the path templates of its ledger
  (\<open>apps/quoky/src/security/egress-policy.ts\<close>).

  \<^item> Host names, labels and protocols are byte strings, paths and configured hosts are UTF-16. \<open>new URL(s).hostname\<close>
    is a parameter, as \<open>isIP\<close> of \<open>node:net\<close> is.
  \<^item> A configuration value that is only compared with \<open>undefined\<close> is a flag.
  \<^item> The maps are lists of pairs in the order of insertion, with distinct keys.
\<close>

section \<open>The inventory\<close>

record inventory_source =
  is_telegram :: bool
  is_jira :: "js_string option"
  is_slack :: bool
  is_confluence :: "js_string option"
  is_slack_writes :: bool
  is_calendar :: bool
  is_gmail :: bool
  is_drive :: bool
  is_github_app :: bool
  is_github_token :: "js_string option"
  is_openai :: bool
  is_gemini :: bool
  is_ollama :: bool

record local_endpoint =
  le_host :: string
  le_port :: int
  le_label :: string

record egress_inventory =
  ei_hosts :: "(string \<times> string) list"
  ei_local :: "local_endpoint list"

definition OLLAMA_LOCAL_PORT :: int where "OLLAMA_LOCAL_PORT = 11434"
definition UNLISTED_LABEL :: string where "UNLISTED_LABEL = ''unlisted''"

definition code_between :: "char \<Rightarrow> char \<Rightarrow> nat \<Rightarrow> bool" where
  "code_between a b c \<longleftrightarrow> of_char a \<le> c \<and> c \<le> of_char b"

definition SCHEME_PATTERN :: rx where
  "SCHEME_PATTERN = rx_seq [At_start, Chars (\<lambda>c. code_between (CHR ''a'') (CHR ''z'') (fold_i c)),
     rx_star (Chars (\<lambda>c. code_between (CHR ''a'') (CHR ''z'') (fold_i c) \<or> code_between (CHR ''0'') (CHR ''9'') c \<or>
       c \<in> set (map of_char ''+.-''))), rx_text fold_exact ''://'']"

definition hostOf :: "(js_string \<Rightarrow> string option) \<Rightarrow> js_string \<Rightarrow> string option" where
  "hostOf hostname v =
     (let candidate = if rx_test SCHEME_PATTERN (map unat v) then v else js ''https://'' @ v in
      case hostname candidate of None \<Rightarrow> None
      | Some h \<Rightarrow> let host = to_lower h in if host = [] then None else Some host)"

definition add_host :: "string option \<Rightarrow> string \<Rightarrow> (string \<times> string) list \<Rightarrow> (string \<times> string) list" where
  "add_host host label hosts = (case host of None \<Rightarrow> hosts
     | Some h \<Rightarrow> if h \<in> fst ` set hosts then hosts else hosts @ [(h, label)])"

definition add_when :: "bool \<Rightarrow> string \<Rightarrow> string \<Rightarrow> (string \<times> string) list \<Rightarrow> (string \<times> string) list" where
  "add_when b host label hosts = (if b then add_host (Some host) label hosts else hosts)"

definition add_configured :: "(js_string \<Rightarrow> string option) \<Rightarrow> js_string option \<Rightarrow> string \<Rightarrow> (string \<times> string) list \<Rightarrow> (string \<times> string) list" where
  "add_configured hostname v label hosts = (case v of None \<Rightarrow> hosts | Some host \<Rightarrow> add_host (hostOf hostname host) label hosts)"

definition buildEgressInventory :: "(js_string \<Rightarrow> string option) \<Rightarrow> inventory_source \<Rightarrow> egress_inventory" where
  "buildEgressInventory hostname src =
     (let google = is_calendar src \<or> is_drive src;
          hosts = fold (\<lambda>f. f)
            [add_when True ''discord.com'' ''discord'',
             add_when True ''gateway.discord.gg'' ''discord'',
             add_when True ''cdn.discordapp.com'' ''discord-attachments'',
             add_when True ''media.discordapp.net'' ''discord-attachments'',
             add_when (is_telegram src) ''api.telegram.org'' ''telegram'',
             add_when google ''www.googleapis.com'' ''google'',
             add_when (is_drive src) ''sheets.googleapis.com'' ''google-sheets'',
             add_when (is_gmail src) ''gmail.googleapis.com'' ''gmail'',
             add_when (google \<or> is_gmail src) ''oauth2.googleapis.com'' ''google-oauth'',
             add_configured hostname (is_jira src) ''jira'',
             add_configured hostname (is_confluence src) ''confluence'',
             add_when (is_slack src \<or> is_slack_writes src) ''slack.com'' ''slack'',
             add_when (is_github_app src \<or> (case is_github_token src of None \<Rightarrow> [] | Some t \<Rightarrow> t) \<noteq> []) ''api.github.com'' ''github'',
             add_when (is_openai src) ''api.openai.com'' ''openai'',
             add_when (is_gemini src) ''generativelanguage.googleapis.com'' ''gemini''] []
      in \<lparr>ei_hosts = hosts,
          ei_local = (if is_ollama src then [\<lparr>le_host = ''127.0.0.1'', le_port = OLLAMA_LOCAL_PORT, le_label = ''ollama-local''\<rparr>] else [])\<rparr>)"

section \<open>Labels and destinations\<close>

definition normalizeHost :: "string \<Rightarrow> string" where
  "normalizeHost host = unbracket (to_lower host)"

definition localEndpointFor :: "egress_inventory \<Rightarrow> string \<Rightarrow> int \<Rightarrow> local_endpoint option" where
  "localEndpointFor table host port = List.find (\<lambda>e. le_host e = host \<and> le_port e = port) (ei_local table)"

definition TYPING_PATTERN :: rx where
  "TYPING_PATTERN = rx_seq [At_start, rx_text fold_exact ''/api/v'', rx_plus (Chars (code_between (CHR ''0'') (CHR ''9''))),
     rx_text fold_exact ''/channels/'', rx_plus (Chars (\<lambda>c. c \<noteq> of_char (CHR ''/''))), rx_text fold_exact ''/typing'', At_end]"

definition labelFor :: "egress_inventory \<Rightarrow> string \<Rightarrow> int \<Rightarrow> js_string \<Rightarrow> string" where
  "labelFor table host port path = (let normalized = normalizeHost host in
     case localEndpointFor table normalized port of
       Some e \<Rightarrow> le_label e
     | None \<Rightarrow> (case map_of (ei_hosts table) normalized of
         None \<Rightarrow> UNLISTED_LABEL
       | Some base \<Rightarrow> let p = takeWhile (\<lambda>u. \<not> one_of ''?'' u) path in
           if base = ''telegram'' then
             (if begins ''/file/'' p then ''telegram-file''
              else if finishes ''/sendChatAction'' p then ''telegram-typing''
              else if finishes ''/getUpdates'' p then ''telegram-poll'' else ''telegram'')
           else if base = ''discord'' then (if rx_test TYPING_PATTERN (map unat p) then ''discord-typing'' else ''discord'')
           else if base = ''google'' then
             (if begins ''/calendar/'' p then ''google-calendar'' else if begins ''/drive/'' p then ''google-drive'' else ''google'')
           else if base = ''slack'' then (if begins ''/api/search.'' p then ''slack-search'' else ''slack'')
           else if base = ''jira'' then (if begins ''/wiki/'' p then ''confluence'' else ''jira'')
           else base))"

datatype destination_finding = New_destination | Ip_literal | Insecure_scheme

record egress_destination =
  ed_protocol :: string
  ed_host :: string
  ed_port :: int

definition checkDestination :: "(string \<Rightarrow> nat) \<Rightarrow> egress_inventory \<Rightarrow> egress_destination \<Rightarrow> destination_finding list" where
  "checkDestination isIP table d = (let host = normalizeHost (ed_host d) in
     if localEndpointFor table host (ed_port d) \<noteq> None
     then (if ed_protocol d = ''http:'' \<or> ed_protocol d = ''https:'' then [] else [Insecure_scheme])
     else (if ed_protocol d \<noteq> ''https:'' \<and> ed_protocol d \<noteq> ''wss:'' then [Insecure_scheme] else []) @
       (if isIpLiteral isIP host then [Ip_literal]
        else if host \<notin> fst ` set (ei_hosts table) then [New_destination] else []))"

section \<open>Path templates\<close>

definition PATH_PREFIXES :: "(string \<times> string list) list" where
  "PATH_PREFIXES =
    [(''discord'', [''/api/{v}/channels'', ''/api/{v}/guilds'', ''/api/{v}/users'', ''/api/{v}/webhooks'', ''/api/{v}/gateway/bot'',
       ''/api/{v}/gateway'', ''/api/{v}/applications'', ''/api/{v}/interactions'', ''/api/{v}/oauth2'']),
     (''discord-typing'', [''/api/{v}/channels'']),
     (''discord-attachments'', [''/attachments'', ''/ephemeral-attachments'']),
     (''google-calendar'', [''/calendar/v3/calendars'', ''/calendar/v3/users/me/calendarList'', ''/calendar/v3/freeBusy'']),
     (''google-drive'', [''/drive/v3/files'', ''/drive/v3/drives'', ''/drive/v3/about'']),
     (''google-sheets'', [''/v4/spreadsheets'']),
     (''google'', [''/calendar/v3'', ''/drive/v3'']),
     (''gmail'', [''/gmail/v1/users/me/messages'', ''/gmail/v1/users/me/threads'', ''/gmail/v1/users/me/labels'',
       ''/gmail/v1/users/me/profile'']),
     (''google-oauth'', [''/token'']),
     (''jira'', [''/rest/api/{n}/search/jql'', ''/rest/api/{n}/search'', ''/rest/api/{n}/issue'', ''/rest/api/{n}/myself'',
       ''/rest/api/{n}/project'', ''/rest/api/{n}/user'', ''/rest/api/{n}'', ''/rest/agile/1.0/board'', ''/rest/agile/1.0/sprint'']),
     (''confluence'', [''/wiki/rest/api/content'', ''/wiki/rest/api/search'', ''/wiki/rest/api/space'', ''/wiki/rest/api'',
       ''/wiki/api/v2/pages'', ''/wiki/api/v2/spaces'', ''/wiki/api/v2'']),
     (''github'', [''/repos'', ''/user'', ''/users'', ''/orgs'', ''/installation/repositories'', ''/app/installations'',
       ''/search/issues'', ''/search/code'', ''/rate_limit'', ''/graphql'']),
     (''openai'', [''/v1/chat/completions'', ''/v1/responses'', ''/v1/models'']),
     (''gemini'', [''/{v}/models'']),
     (''ollama-local'', [''/api/tags'', ''/api/generate'', ''/api/chat'', ''/api/embed'', ''/api/embeddings'', ''/api/version'',
       ''/api/show'']),
     (''telegram-file'', [''/file''])]"

definition TELEGRAM_LABELS :: "string list" where
  "TELEGRAM_LABELS = [''telegram'', ''telegram-poll'', ''telegram-typing'']"

definition TELEGRAM_METHOD_NAMES :: "string list" where
  "TELEGRAM_METHOD_NAMES = [''getMe'', ''getUpdates'', ''sendMessage'', ''sendChatAction'', ''sendDocument'', ''getFile'', ''downloadFile'']"

definition SLACK_METHODS :: "string list" where
  "SLACK_METHODS = [''search.messages'', ''conversations.info'', ''conversations.history'', ''conversations.list'',
     ''conversations.replies'', ''chat.postMessage'', ''chat.getPermalink'']"

definition GOOGLE_SHEETS_METHODS :: "string list" where
  "GOOGLE_SHEETS_METHODS = [''values:batchGet'']"

definition METHOD_PLACEHOLDER :: js_string where "METHOD_PLACEHOLDER = js ''{method}''"
definition ID_PLACEHOLDER :: js_string where "ID_PLACEHOLDER = js ''{id}''"
definition MAX_ID_SEGMENTS :: nat where "MAX_ID_SEGMENTS = 6"

definition rx_digits :: "nat \<Rightarrow> nat \<Rightarrow> rx" where
  "rx_digits least extra = Rep least (Some extra) (Chars (code_between (CHR ''0'') (CHR ''9'')))"

definition VERSION_SEGMENT :: rx where
  "VERSION_SEGMENT = rx_seq [At_start, rx_text fold_exact ''v'', rx_digits 1 1,
     rx_opt (rx_any [rx_seq [rx_text fold_exact ''beta'', rx_digits 0 1], rx_seq [rx_text fold_exact ''alpha'', rx_digits 0 1]]),
     rx_opt (rx_seq [rx_text fold_exact ''.'', rx_digits 1 1]), At_end]"

definition split_segments :: "js_string \<Rightarrow> js_string list" where
  "split_segments s = filter (\<lambda>p. p \<noteq> []) (split_where (one_of ''/'') s)"

definition part_matches :: "js_string \<Rightarrow> js_string \<Rightarrow> bool" where
  "part_matches part segment \<longleftrightarrow>
     (if part = js ''{v}'' then rx_test VERSION_SEGMENT (map unat segment)
      else if part = js ''{n}'' then length segment = 1 \<and> list_all (between (CHR ''0'') (CHR ''9'')) segment
      else part = segment)"

definition matchPrefix :: "js_string list \<Rightarrow> string \<Rightarrow> js_string list option" where
  "matchPrefix segments prefix = (let parts = split_segments (js prefix) in
     if length parts > length segments then None
     else if list_all2 part_matches parts (take (length parts) segments) then Some (take (length parts) segments) else None)"

definition method_or_placeholder :: "string list \<Rightarrow> js_string \<Rightarrow> js_string" where
  "method_or_placeholder methods m = (if m \<in> js ` set methods then m else METHOD_PLACEHOLDER)"

definition longer_match :: "js_string list \<Rightarrow> string \<Rightarrow> js_string list \<Rightarrow> js_string list" where
  "longer_match segments prefix kept = (case matchPrefix segments prefix of
     Some found \<Rightarrow> if length found > length kept then found else kept | None \<Rightarrow> kept)"

definition ids :: "js_string list \<Rightarrow> js_string list" where
  "ids segments = map (\<lambda>_. ID_PLACEHOLDER) (take MAX_ID_SEGMENTS segments)"

text \<open>The segments of the template.\<close>

definition template_segments :: "string \<Rightarrow> js_string list \<Rightarrow> js_string list" where
  "template_segments label segments =
     (let rest = (\<lambda>kept. kept @ ids (drop (length kept) segments)) in
      if label \<in> set TELEGRAM_LABELS then
        (case segments of [_, m] \<Rightarrow> [ID_PLACEHOLDER, method_or_placeholder TELEGRAM_METHOD_NAMES m] | _ \<Rightarrow> ids segments)
      else if label = ''google-sheets'' then
        (case matchPrefix segments ''/v4/spreadsheets'' of
           None \<Rightarrow> rest []
         | Some prefix \<Rightarrow>
             if length segments = 3 then prefix @ [ID_PLACEHOLDER]
             else if length segments = 4
             then prefix @ [ID_PLACEHOLDER, method_or_placeholder GOOGLE_SHEETS_METHODS (segments ! 3)]
             else rest prefix)
      else if label = ''slack'' \<or> label = ''slack-search'' then
        (case segments of
           a # m # _ \<Rightarrow> if a = js ''api'' then rest [js ''api'', method_or_placeholder SLACK_METHODS m] else rest []
         | _ \<Rightarrow> rest [])
      else rest (fold (longer_match segments) (case map_of PATH_PREFIXES label of None \<Rightarrow> [] | Some ps \<Rightarrow> ps) []))"

fun joined :: "js_string list \<Rightarrow> js_string" where
  "joined [] = []"
| "joined [s] = s"
| "joined (s # ss) = s @ js ''/'' @ joined ss"

definition pathTemplate :: "string \<Rightarrow> js_string \<Rightarrow> js_string" where
  "pathTemplate label path =
     (let segments = split_segments (js_trim (takeWhile (\<lambda>u. \<not> one_of ''?#'' u) path)) in
      if segments = [] then js ''/'' else js ''/'' @ joined (template_segments label segments))"

section \<open>Cleared destinations\<close>

lemma localEndpointFor_Some: "localEndpointFor table host port \<noteq> None \<longleftrightarrow> (\<exists>e\<in>set (ei_local table). le_host e = host \<and> le_port e = port)"
  by (auto simp: localEndpointFor_def find_Some_iff find_None_iff)

lemma checkDestination_Nil:
  "checkDestination isIP table d = [] \<longleftrightarrow>
     (if localEndpointFor table (normalizeHost (ed_host d)) (ed_port d) \<noteq> None then ed_protocol d \<in> {''http:'', ''https:''}
      else ed_protocol d \<in> {''https:'', ''wss:''} \<and> \<not> isIpLiteral isIP (normalizeHost (ed_host d)) \<and>
        normalizeHost (ed_host d) \<in> fst ` set (ei_hosts table))"
  by (auto simp: checkDestination_def Let_def)

text \<open>What the configuration admits: the names of the services that are configured.\<close>

definition configured_host :: "(js_string \<Rightarrow> string option) \<Rightarrow> inventory_source \<Rightarrow> string \<Rightarrow> bool" where
  "configured_host hostname src h \<longleftrightarrow>
     h \<in> {''discord.com'', ''gateway.discord.gg'', ''cdn.discordapp.com'', ''media.discordapp.net''} \<or>
     (h = ''api.telegram.org'' \<and> is_telegram src) \<or>
     (h = ''www.googleapis.com'' \<and> (is_calendar src \<or> is_drive src)) \<or> (h = ''sheets.googleapis.com'' \<and> is_drive src) \<or>
     (h = ''gmail.googleapis.com'' \<and> is_gmail src) \<or>
     (h = ''oauth2.googleapis.com'' \<and> (is_calendar src \<or> is_drive src \<or> is_gmail src)) \<or>
     (\<exists>v\<in>set_option (is_jira src). hostOf hostname v = Some h) \<or> (\<exists>v\<in>set_option (is_confluence src). hostOf hostname v = Some h) \<or>
     (h = ''slack.com'' \<and> (is_slack src \<or> is_slack_writes src)) \<or>
     (h = ''api.github.com'' \<and> (is_github_app src \<or> (\<exists>t\<in>set_option (is_github_token src). t \<noteq> []))) \<or>
     (h = ''api.openai.com'' \<and> is_openai src) \<or> (h = ''generativelanguage.googleapis.com'' \<and> is_gemini src)"

lemma add_host_keys: "fst ` set (add_host h l hosts) = fst ` set hosts \<union> set_option h"
  by (auto simp: add_host_def split: option.split)

lemma add_when_keys: "fst ` set (add_when b h l hosts) = fst ` set hosts \<union> (if b then {h} else {})"
  by (simp add: add_when_def add_host_keys)

lemma add_configured_keys:
  "fst ` set (add_configured f v l hosts) = fst ` set hosts \<union> {h. \<exists>x\<in>set_option v. hostOf f x = Some h}"
  by (cases v) (auto simp: add_configured_def add_host_keys elem_set)

lemma in_if_singleton: "h \<in> (if b then {x} else {}) \<longleftrightarrow> h = x \<and> b"
  by simp

lemma some_token: "(case t of None \<Rightarrow> [] | Some x \<Rightarrow> x) \<noteq> [] \<longleftrightarrow> (\<exists>x\<in>set_option t. x \<noteq> [])"
  by (cases t) simp_all

lemma inventory_hosts: "h \<in> fst ` set (ei_hosts (buildEgressInventory hostname src)) \<longleftrightarrow> configured_host hostname src h"
proof -
  have "fst ` set (ei_hosts (buildEgressInventory hostname src)) = {} \<union> {''discord.com''} \<union> {''gateway.discord.gg''} \<union>
      {''cdn.discordapp.com''} \<union> {''media.discordapp.net''} \<union> (if is_telegram src then {''api.telegram.org''} else {}) \<union>
      (if is_calendar src \<or> is_drive src then {''www.googleapis.com''} else {}) \<union>
      (if is_drive src then {''sheets.googleapis.com''} else {}) \<union> (if is_gmail src then {''gmail.googleapis.com''} else {}) \<union>
      (if (is_calendar src \<or> is_drive src) \<or> is_gmail src then {''oauth2.googleapis.com''} else {}) \<union>
      {h. \<exists>v\<in>set_option (is_jira src). hostOf hostname v = Some h} \<union>
      {h. \<exists>v\<in>set_option (is_confluence src). hostOf hostname v = Some h} \<union>
      (if is_slack src \<or> is_slack_writes src then {''slack.com''} else {}) \<union>
      (if is_github_app src \<or> (case is_github_token src of None \<Rightarrow> [] | Some t \<Rightarrow> t) \<noteq> [] then {''api.github.com''} else {}) \<union>
      (if is_openai src then {''api.openai.com''} else {}) \<union>
      (if is_gemini src then {''generativelanguage.googleapis.com''} else {})"
    unfolding buildEgressInventory_def Let_def fold_simps comp_def egress_inventory.select_convs add_when_keys add_configured_keys
    by (simp only: if_True set_empty list.set image_empty id_apply)
  then show ?thesis unfolding configured_host_def by (simp only: Un_iff in_if_singleton some_token insert_iff empty_iff mem_Collect_eq simp_thms disj_assoc)
qed

lemma inventory_local:
  "localEndpointFor (buildEgressInventory hostname src) h p \<noteq> None \<longleftrightarrow> is_ollama src \<and> h = ''127.0.0.1'' \<and> p = OLLAMA_LOCAL_PORT"
proof -
  have "ei_local (buildEgressInventory hostname src) =
      (if is_ollama src then [\<lparr>le_host = ''127.0.0.1'', le_port = OLLAMA_LOCAL_PORT, le_label = ''ollama-local''\<rparr>] else [])"
    by (simp only: buildEgressInventory_def Let_def egress_inventory.select_convs)
  then show ?thesis unfolding localEndpointFor_Some by (auto split: if_splits)
qed

text \<open>C39. Which requests the name-level policy clears: exactly plain or secure http to port 11434 of 127.0.0.1 when the local model is
  enabled, and https or wss to the host of a configured service that is no IP literal. Nothing else passes without a finding.\<close>

theorem cleared_iff_configured:
  "checkDestination isIP (buildEgressInventory hostname src) d = [] \<longleftrightarrow>
     (if is_ollama src \<and> normalizeHost (ed_host d) = ''127.0.0.1'' \<and> ed_port d = OLLAMA_LOCAL_PORT
      then ed_protocol d = ''http:'' \<or> ed_protocol d = ''https:''
      else (ed_protocol d = ''https:'' \<or> ed_protocol d = ''wss:'') \<and> \<not> isIpLiteral isIP (normalizeHost (ed_host d)) \<and>
        configured_host hostname src (normalizeHost (ed_host d)))"
  unfolding checkDestination_Nil inventory_local inventory_hosts by auto

section \<open>What a template reveals\<close>

text \<open>The words a template is made of: placeholders, the closed lists, an API version and a single digit.\<close>

definition prefix_words :: "js_string set" where
  "prefix_words = (\<Union>(_, ps)\<in>set PATH_PREFIXES. \<Union>p\<in>set ps. set (split_segments (js p))) \<union> {js ''api''}"

definition safe_word :: "js_string \<Rightarrow> bool" where
  "safe_word w \<longleftrightarrow> w = ID_PLACEHOLDER \<or> w = METHOD_PLACEHOLDER \<or>
     w \<in> js ` set (TELEGRAM_METHOD_NAMES @ SLACK_METHODS @ GOOGLE_SHEETS_METHODS) \<or> w \<in> prefix_words \<or>
     rx_test VERSION_SEGMENT (map unat w) \<or> (\<exists>u. w = [u] \<and> between (CHR ''0'') (CHR ''9'') u)"

lemma safe_ids: "w \<in> set (ids segments) \<Longrightarrow> safe_word w"
  by (auto simp: ids_def safe_word_def)

lemma safe_method:
  "safe_word (method_or_placeholder TELEGRAM_METHOD_NAMES m)" "safe_word (method_or_placeholder SLACK_METHODS m)"
  "safe_word (method_or_placeholder GOOGLE_SHEETS_METHODS m)"
  by (auto simp: method_or_placeholder_def safe_word_def)

lemma part_matches_safe:
  assumes "part_matches part w" "part \<in> prefix_words"
  shows "safe_word w"
  using assms by (auto simp: part_matches_def safe_word_def length_Suc_conv split: if_splits)

lemma matchPrefix_Some:
  assumes "matchPrefix segments prefix = Some ws"
  shows "list_all2 part_matches (split_segments (js prefix)) ws \<and> ws = take (length ws) segments"
  using assms by (auto simp: matchPrefix_def Let_def split: if_splits)

lemma matchPrefix_safe:
  assumes "matchPrefix segments prefix = Some ws" "set (split_segments (js prefix)) \<subseteq> prefix_words" "w \<in> set ws"
  shows "safe_word w"
  using matchPrefix_Some [OF assms(1)] assms(2,3) part_matches_safe
  by (metis in_set_conv_nth list_all2_conv_all_nth nth_mem subsetD)

lemma label_prefixes:
  assumes "map_of PATH_PREFIXES label = Some ps" "p \<in> set ps"
  shows "set (split_segments (js p)) \<subseteq> prefix_words"
  using map_of_SomeD [OF assms(1)] assms(2) by (force simp: prefix_words_def)

lemma sheets_prefix: "set (split_segments (js ''/v4/spreadsheets'')) \<subseteq> prefix_words"
  by (rule label_prefixes [of "''google-sheets''" "[''/v4/spreadsheets'']"]) (simp_all add: PATH_PREFIXES_def)

lemma longest_safe:
  assumes "\<And>p. p \<in> set ps \<Longrightarrow> set (split_segments (js p)) \<subseteq> prefix_words" "\<And>w. w \<in> set kept \<Longrightarrow> safe_word w"
  shows "w \<in> set (fold (longer_match segments) ps kept) \<Longrightarrow> safe_word w"
  using assms
proof (induction ps arbitrary: kept)
  case (Cons p ps)
  have "safe_word v" if "v \<in> set (longer_match segments p kept)" for v
    using that Cons.prems(2) [of p] Cons.prems(3) matchPrefix_safe [of segments p]
    by (auto simp: longer_match_def split: option.splits if_splits)
  with Cons show ?case by simp
qed simp

lemma safe_rest: "w \<in> set (kept @ ids s) \<Longrightarrow> (\<And>v. v \<in> set kept \<Longrightarrow> safe_word v) \<Longrightarrow> safe_word w"
  using safe_ids by auto

lemma safe_placeholders: "safe_word (js ''api'')" "safe_word ID_PLACEHOLDER"
  by (simp_all add: safe_word_def prefix_words_def)

text \<open>One lemma for each branch of the template.\<close>

lemma telegram_safe:
  "w \<in> set (case segments of [_, m] \<Rightarrow> [ID_PLACEHOLDER, method_or_placeholder TELEGRAM_METHOD_NAMES m] | _ \<Rightarrow> ids segments) \<Longrightarrow> safe_word w"
  using safe_ids safe_method(1) safe_placeholders(2) by (auto split: list.splits)

lemma sheets_safe:
  assumes "w \<in> set (case matchPrefix segments ''/v4/spreadsheets'' of
     None \<Rightarrow> [] @ ids (drop (length ([] :: js_string list)) segments)
   | Some prefix \<Rightarrow>
       if length segments = 3 then prefix @ [ID_PLACEHOLDER]
       else if length segments = 4 then prefix @ [ID_PLACEHOLDER, method_or_placeholder GOOGLE_SHEETS_METHODS (segments ! 3)]
       else prefix @ ids (drop (length prefix) segments))"
  shows "safe_word w"
proof (cases "matchPrefix segments ''/v4/spreadsheets''")
  case None
  with assms show ?thesis using safe_ids by simp
next
  case (Some prefix)
  then have p: "v \<in> set prefix \<Longrightarrow> safe_word v" for v using matchPrefix_safe sheets_prefix by blast
  show ?thesis using assms Some p safe_ids safe_method(3) safe_placeholders(2) by (auto split: if_splits)
qed

lemma slack_safe:
  assumes "w \<in> set (case segments of
     a # m # _ \<Rightarrow> if a = js ''api'' then [js ''api'', method_or_placeholder SLACK_METHODS m] @
         ids (drop (length [js ''api'', method_or_placeholder SLACK_METHODS m]) segments)
       else [] @ ids (drop (length ([] :: js_string list)) segments)
   | _ \<Rightarrow> [] @ ids (drop (length ([] :: js_string list)) segments))"
  shows "safe_word w"
  using assms safe_ids safe_method(2) safe_placeholders(1) by (auto split: list.splits if_splits)

lemma listed_safe:
  "w \<in> set (fold (longer_match segments) (case map_of PATH_PREFIXES label of None \<Rightarrow> [] | Some ps \<Rightarrow> ps) []) \<Longrightarrow> safe_word w"
  using longest_safe [of "case map_of PATH_PREFIXES label of None \<Rightarrow> [] | Some ps \<Rightarrow> ps" "[]" w segments] label_prefixes
  by (cases "map_of PATH_PREFIXES label") auto

lemma template_safe:
  assumes "w \<in> set (template_segments label segments)"
  shows "safe_word w"
proof -
  consider "label \<in> set TELEGRAM_LABELS" | "label \<notin> set TELEGRAM_LABELS" "label = ''google-sheets''"
    | "label \<notin> set TELEGRAM_LABELS" "label \<noteq> ''google-sheets''" "label = ''slack'' \<or> label = ''slack-search''"
    | "label \<notin> set TELEGRAM_LABELS" "label \<noteq> ''google-sheets''" "\<not> (label = ''slack'' \<or> label = ''slack-search'')"
    by blast
  then show ?thesis
  proof cases
    case 1
    from assms show ?thesis unfolding template_segments_def Let_def if_P [OF 1] by (rule telegram_safe)
  next
    case 2
    from assms show ?thesis unfolding template_segments_def Let_def if_not_P [OF 2(1)] if_P [OF 2(2)] by (rule sheets_safe)
  next
    case 3
    from assms show ?thesis unfolding template_segments_def Let_def if_not_P [OF 3(1)] if_not_P [OF 3(2)] if_P [OF 3(3)]
      by (rule slack_safe)
  next
    case 4
    from assms show ?thesis unfolding template_segments_def Let_def if_not_P [OF 4(1)] if_not_P [OF 4(2)] if_not_P [OF 4(3)]
      by (rule safe_rest) (rule listed_safe)
  qed
qed

text \<open>C40. A template gives nothing of a path away: whatever the path, its template is a sequence of words that are placeholders, members of
  the closed lists of methods and prefixes, an API version or a single digit; no other segment, and nothing of the query or
  the fragment, is in it.\<close>

theorem template_reveals_no_segment:
  "\<exists>ws. pathTemplate label path = js ''/'' @ joined ws \<and> list_all safe_word ws"
proof (cases "split_segments (js_trim (takeWhile (\<lambda>u. \<not> one_of ''?#'' u) path)) = []")
  case True
  then show ?thesis by (intro exI [of _ "[]"]) (simp add: pathTemplate_def)
next
  case False
  let ?ws = "template_segments label (split_segments (js_trim (takeWhile (\<lambda>u. \<not> one_of ''?#'' u) path)))"
  have "pathTemplate label path = js ''/'' @ joined ?ws" using False by (simp only: pathTemplate_def Let_def if_False)
  moreover have "list_all safe_word ?ws" using template_safe by (simp add: list_all_iff)
  ultimately show ?thesis by blast
qed

end
