(* ===== verification/Egress_Budget.thy ===== *)
theory Egress_Budget
  imports Prelude
begin

text \<open>
  Per-destination request and volume budgets and the circuit breaker
  (\<open>apps/quoky/src/security/egress-budget.ts\<close>). Times are milliseconds; the clock reading \<open>nowMs()\<close> is
  an argument. The two lists of samples share their objects: a sample lives in a store and the lists hold
  its index, so \<open>addBytes\<close> on a ticket is seen through both.
\<close>

section \<open>Budgets\<close>

datatype traffic_initiator = Owner_turn | Inbound | Reminder_tick | Startup | Background

definition minute_ms :: int where "minute_ms = 60000"
definition hour_ms :: int where "hour_ms = 60 * minute_ms"
definition day_ms :: int where "day_ms = 24 * hour_ms"
definition mb :: int where "mb = 1000000"

lemmas ms_defs [bound_simps] = minute_ms_def hour_ms_def day_ms_def mb_def

record label_budget =
  lb_per_minute :: "int option"
  lb_per_hour :: "int option"
  lb_bytes_per_hour :: "int option"
  lb_bytes_down_per_day :: "int option"
  lb_breaker :: bool
  lb_rate_exempt :: "traffic_initiator list"

definition owner_turn_rate_factor :: int where "owner_turn_rate_factor = 3"
definition owner_delivery_exempt :: "traffic_initiator list" where "owner_delivery_exempt = [Owner_turn, Reminder_tick]"
definition owner_turn_exempt :: "traffic_initiator list" where "owner_turn_exempt = [Owner_turn]"
definition label_bytes_per_hour :: int where "label_bytes_per_hour = 50 * mb"

definition no_budget :: label_budget where
  "no_budget = \<lparr>lb_per_minute = None, lb_per_hour = None, lb_bytes_per_hour = None, lb_bytes_down_per_day = None,
     lb_breaker = False, lb_rate_exempt = []\<rparr>"

definition connector_budget :: label_budget where
  "connector_budget = no_budget\<lparr>lb_per_minute := Some 20, lb_per_hour := Some 300,
     lb_bytes_per_hour := Some label_bytes_per_hour, lb_breaker := True\<rparr>"

definition platform_budget :: "int \<Rightarrow> traffic_initiator list \<Rightarrow> label_budget" where
  "platform_budget n exempt = no_budget\<lparr>lb_per_minute := Some n, lb_bytes_per_hour := Some label_bytes_per_hour,
     lb_rate_exempt := exempt\<rparr>"

definition file_budget :: label_budget where
  "file_budget = no_budget\<lparr>lb_per_hour := Some 20, lb_bytes_per_hour := Some label_bytes_per_hour,
     lb_bytes_down_per_day := Some (100 * mb)\<rparr>"

definition egress_budgets :: "(string \<times> label_budget) list" where
  "egress_budgets =
    [(''telegram-poll'', platform_budget 60 []), (''telegram'', platform_budget 30 owner_delivery_exempt),
     (''telegram-typing'', platform_budget 30 owner_turn_exempt), (''telegram-file'', file_budget),
     (''discord'', platform_budget 30 owner_delivery_exempt), (''discord-typing'', platform_budget 20 owner_turn_exempt),
     (''discord-attachments'', file_budget), (''google'', connector_budget),
     (''google-calendar'', connector_budget\<lparr>lb_rate_exempt := owner_delivery_exempt\<rparr>),
     (''google-drive'', connector_budget), (''google-sheets'', connector_budget), (''gmail'', connector_budget),
     (''google-oauth'', connector_budget), (''jira'', connector_budget), (''confluence'', connector_budget),
     (''slack'', connector_budget), (''slack-search'', connector_budget\<lparr>lb_per_minute := Some 10\<rparr>),
     (''github'', connector_budget), (''openai'', connector_budget), (''gemini'', connector_budget),
     (''ollama-local'', no_budget\<lparr>lb_bytes_per_hour := Some (10 * label_bytes_per_hour)\<rparr>)]"

definition default_budget :: label_budget where
  "default_budget = no_budget\<lparr>lb_per_minute := Some 20, lb_per_hour := Some 300,
     lb_bytes_per_hour := Some label_bytes_per_hour\<rparr>"

definition global_down_per_day :: int where "global_down_per_day = 200 * mb"
definition global_up_per_day :: int where "global_up_per_day = 20 * mb"

definition breaker_threshold :: int where "breaker_threshold = 3"
definition breaker_base_ms :: int where "breaker_base_ms = 5 * minute_ms"
definition breaker_max_ms :: int where "breaker_max_ms = hour_ms"

datatype budget_refusal =
  Rate_minute | Rate_hour | Volume_hour | Volume_day | Global_volume_down | Global_volume_up | Backoff

datatype direction = Down | Up | Both

datatype budget_event = Backoff_open string int | Volume_alert direction

section \<open>State\<close>

record sample =
  sm_at :: int
  sm_up :: int
  sm_down :: int

record breaker_state =
  bs_failures :: int
  bs_opens :: nat
  bs_open_until :: int

record egress =
  eg_store :: "sample list"
  eg_labels :: "string \<Rightarrow> nat list"
  eg_global :: "nat list"
  eg_breakers :: "string \<Rightarrow> breaker_state option"
  eg_alerted_down :: "int option"
  eg_alerted_up :: "int option"

definition new_egress :: egress where
  "new_egress = \<lparr>eg_store = [], eg_labels = (\<lambda>_. []), eg_global = [], eg_breakers = (\<lambda>_. None),
     eg_alerted_down = None, eg_alerted_up = None\<rparr>"

type_synonym budget_table = "(string \<times> label_budget) list"

definition budgetOf :: "budget_table \<Rightarrow> string \<Rightarrow> label_budget" where
  "budgetOf table label = (case map_of table label of Some b \<Rightarrow> b | None \<Rightarrow> default_budget)"

text \<open>\<open>prune\<close>: the leading samples older than a day are dropped.\<close>

definition prune :: "sample list \<Rightarrow> nat list \<Rightarrow> int \<Rightarrow> nat list" where
  "prune store refs now = dropWhile (\<lambda>i. sm_at (store ! i) \<le> now - day_ms) refs"

text \<open>\<open>count\<close> and \<open>bytes\<close> walk back from the newest sample while it is newer than \<open>since\<close>.\<close>

definition recent :: "sample list \<Rightarrow> nat list \<Rightarrow> int \<Rightarrow> nat list" where
  "recent store refs since = takeWhile (\<lambda>i. sm_at (store ! i) > since) (rev refs)"

definition count_since :: "sample list \<Rightarrow> nat list \<Rightarrow> int \<Rightarrow> int" where
  "count_since store refs since = int (length (recent store refs since))"

definition sample_bytes :: "direction \<Rightarrow> sample \<Rightarrow> int" where
  "sample_bytes d s = (case d of Up \<Rightarrow> sm_up s | Down \<Rightarrow> sm_down s | Both \<Rightarrow> sm_up s + sm_down s)"

definition bytes_since :: "sample list \<Rightarrow> nat list \<Rightarrow> int \<Rightarrow> direction \<Rightarrow> int" where
  "bytes_since store refs since d = sum_list (map (\<lambda>i. sample_bytes d (store ! i)) (recent store refs since))"

section \<open>Operations\<close>

definition reaches :: "int \<Rightarrow> int option \<Rightarrow> bool" where
  "reaches n cap = (case cap of None \<Rightarrow> False | Some c \<Rightarrow> n \<ge> c)"

definition scaled :: "int \<Rightarrow> int option \<Rightarrow> int option" where
  "scaled f cap = map_option (\<lambda>c. c * f) cap"

definition check :: "budget_table \<Rightarrow> egress \<Rightarrow> string \<Rightarrow> traffic_initiator \<Rightarrow> int \<Rightarrow> egress \<times> budget_refusal option" where
  "check table s label who now =
     (let budget = budgetOf table label in
      if (case eg_breakers s label of Some b \<Rightarrow> bs_open_until b > now | None \<Rightarrow> False) then (s, Some Backoff)
      else let refs = prune (eg_store s) (eg_labels s label) now; s1 = s\<lparr>eg_labels := (eg_labels s)(label := refs)\<rparr>;
        applies = who \<notin> set (lb_rate_exempt budget);
        factor = (if who = Owner_turn then owner_turn_rate_factor else 1) in
      if applies \<and> reaches (count_since (eg_store s) refs (now - minute_ms)) (scaled factor (lb_per_minute budget))
        then (s1, Some Rate_minute)
      else if applies \<and> reaches (count_since (eg_store s) refs (now - hour_ms)) (scaled factor (lb_per_hour budget))
        then (s1, Some Rate_hour)
      else if reaches (bytes_since (eg_store s) refs (now - hour_ms) Both) (lb_bytes_per_hour budget)
        then (s1, Some Volume_hour)
      else if reaches (bytes_since (eg_store s) refs (now - day_ms) Down) (lb_bytes_down_per_day budget)
        then (s1, Some Volume_day)
      else if who \<noteq> Owner_turn
        then let all = prune (eg_store s) (eg_global s) now; s2 = s1\<lparr>eg_global := all\<rparr> in
          if bytes_since (eg_store s) all (now - day_ms) Down \<ge> global_down_per_day then (s2, Some Global_volume_down)
          else if bytes_since (eg_store s) all (now - day_ms) Up \<ge> global_up_per_day then (s2, Some Global_volume_up)
          else (s2, None)
      else (s1, None))"

text \<open>\<open>admit\<close>: the verdict (\<open>None\<close> is ok) and the ticket, the index of the new sample.\<close>

definition admit ::
  "budget_table \<Rightarrow> egress \<Rightarrow> string \<Rightarrow> traffic_initiator \<Rightarrow> bool \<Rightarrow> int \<Rightarrow> egress \<times> budget_refusal option \<times> nat option" where
  "admit table s label who countRefused now =
     (let (s1, verdict) = check table s label who now in
      if verdict \<noteq> None \<and> \<not> countRefused then (s1, verdict, None)
      else let i = length (eg_store s1) in
        (s1\<lparr>eg_store := eg_store s1 @ [\<lparr>sm_at = now, sm_up = 0, sm_down = 0\<rparr>],
            eg_labels := (eg_labels s1)(label := eg_labels s1 label @ [i]),
            eg_global := eg_global s1 @ [i]\<rparr>, verdict, Some i))"

definition addBytes :: "egress \<Rightarrow> nat option \<Rightarrow> int \<Rightarrow> int \<Rightarrow> egress" where
  "addBytes s ticket up down = (case ticket of
       None \<Rightarrow> s
     | Some i \<Rightarrow> if i < length (eg_store s) then
         s\<lparr>eg_store := (eg_store s)[i := (eg_store s ! i)
             \<lparr>sm_up := sm_up (eg_store s ! i) + max 0 up, sm_down := sm_down (eg_store s ! i) + max 0 down\<rparr>]\<rparr>
       else s)"

definition breaker_after ::
  "breaker_state \<Rightarrow> string \<Rightarrow> int \<Rightarrow> int option \<Rightarrow> int \<Rightarrow> breaker_state \<times> budget_event list" where
  "breaker_after b label status retryAfter now =
     (if status = 429 \<or> status \<ge> 500 then
        let failures = bs_failures b + 1 in
        if failures \<ge> breaker_threshold then
          let opens = Suc (bs_opens b);
              backoff = min breaker_max_ms (breaker_base_ms * 2 ^ (opens - 1));
              retry = (case retryAfter of Some r \<Rightarrow> min breaker_max_ms (r * 1000) | None \<Rightarrow> 0);
              openMs = max backoff retry in
          (\<lparr>bs_failures = 0, bs_opens = opens, bs_open_until = now + openMs\<rparr>, [Backoff_open label openMs])
        else (b\<lparr>bs_failures := failures\<rparr>, [])
      else if status < 400 then (\<lparr>bs_failures = 0, bs_opens = 0, bs_open_until = 0\<rparr>, [])
      else (b, []))"

definition closed_breaker :: breaker_state where
  "closed_breaker = \<lparr>bs_failures = 0, bs_opens = 0, bs_open_until = 0\<rparr>"

definition record_breaker :: "budget_table \<Rightarrow> egress \<Rightarrow> string \<Rightarrow> int option \<Rightarrow> int option \<Rightarrow> int \<Rightarrow> egress \<times> budget_event list" where
  "record_breaker table s label status retryAfter now =
     (case status of
        Some st \<Rightarrow>
          if lb_breaker (budgetOf table label) then
            let b = (case eg_breakers s label of Some b \<Rightarrow> b | None \<Rightarrow> closed_breaker);
                (b', evs) = breaker_after b label st retryAfter now in
            (s\<lparr>eg_breakers := (eg_breakers s)(label := Some b')\<rparr>, evs)
          else (s, [])
      | None \<Rightarrow> (s, []))"

definition record_alerts :: "egress \<Rightarrow> int \<Rightarrow> egress \<times> budget_event list" where
  "record_alerts s now =
     (let all = prune (eg_store s) (eg_global s) now; s1 = s\<lparr>eg_global := all\<rparr>; day = now div day_ms;
          down = eg_alerted_down s1 \<noteq> Some day \<and> bytes_since (eg_store s) all (now - day_ms) Down \<ge> global_down_per_day * 8 div 10;
          s2 = (if down then s1\<lparr>eg_alerted_down := Some day\<rparr> else s1);
          up = eg_alerted_up s2 \<noteq> Some day \<and> bytes_since (eg_store s) all (now - day_ms) Up \<ge> global_up_per_day * 8 div 10;
          s3 = (if up then s2\<lparr>eg_alerted_up := Some day\<rparr> else s2) in
      (s3, (if down then [Volume_alert Down] else []) @ (if up then [Volume_alert Up] else [])))"

definition recordOutcome ::
  "budget_table \<Rightarrow> egress \<Rightarrow> string \<Rightarrow> int option \<Rightarrow> int option \<Rightarrow> int \<Rightarrow> egress \<times> budget_event list" where
  "recordOutcome table s label status retryAfter now =
     (let (s1, e1) = record_breaker table s label status retryAfter now; (s2, e2) = record_alerts s1 now in (s2, e1 @ e2))"

text \<open>\<open>/^[0-9]{1,6}$/\<close> on the trimmed header value.\<close>

definition parseRetryAfterSeconds :: "js_string option \<Rightarrow> int option" where
  "parseRetryAfterSeconds v = (case v of None \<Rightarrow> None
     | Some t \<Rightarrow> let u = js_trim t in
         if 1 \<le> length u \<and> length u \<le> 6 \<and> list_all (\<lambda>c. 0x30 \<le> c \<and> c \<le> 0x39) u
         then Some (foldl (\<lambda>n c. n * 10 + (uint c - 48)) 0 u) else None)"

section \<open>Runs in enforce mode\<close>

text \<open>
  A run: the state, the last clock reading, and a log of the admitted requests (their label and time),
  oldest first. The clock does not go back. \<open>admit\<close> is called without \<open>countRefused\<close>, as enforce does.
\<close>

record egress_run =
  er_state :: egress
  er_clock :: int
  er_log :: "(string \<times> int) list"

definition egress_start :: egress_run where
  "egress_start = \<lparr>er_state = new_egress, er_clock = 0, er_log = []\<rparr>"

inductive egress_step :: "budget_table \<Rightarrow> egress_run \<Rightarrow> egress_run \<Rightarrow> bool" for table where
  admitted: "er_clock r \<le> now \<Longrightarrow> admit table (er_state r) label who False now = (s', None, ticket) \<Longrightarrow>
    egress_step table r \<lparr>er_state = s', er_clock = now, er_log = er_log r @ [(label, now)]\<rparr>"
| refused: "er_clock r \<le> now \<Longrightarrow> admit table (er_state r) label who False now = (s', Some reason, ticket) \<Longrightarrow>
    egress_step table r (r\<lparr>er_state := s', er_clock := now\<rparr>)"
| transferred: "egress_step table r (r\<lparr>er_state := addBytes (er_state r) ticket up down\<rparr>)"
| answered: "er_clock r \<le> now \<Longrightarrow> recordOutcome table (er_state r) label status retryAfter now = (s', events) \<Longrightarrow>
    egress_step table r (r\<lparr>er_state := s', er_clock := now\<rparr>)"

definition egress_reachable :: "budget_table \<Rightarrow> egress_run \<Rightarrow> bool" where
  "egress_reachable table r \<longleftrightarrow> (egress_step table)\<^sup>*\<^sup>* egress_start r"

definition times :: "egress \<Rightarrow> string \<Rightarrow> int list" where
  "times s label = map (\<lambda>i. sm_at (eg_store s ! i)) (eg_labels s label)"

definition logged :: "egress_run \<Rightarrow> string \<Rightarrow> int list" where
  "logged r label = map snd (filter (\<lambda>p. fst p = label) (er_log r))"

definition in_window :: "int \<Rightarrow> int \<Rightarrow> int list \<Rightarrow> nat" where
  "in_window w t xs = length (filter (\<lambda>x. t - w < x \<and> x \<le> t) xs)"

definition valid_refs :: "egress \<Rightarrow> bool" where
  "valid_refs s \<longleftrightarrow> (\<forall>label. \<forall>i\<in>set (eg_labels s label). i < length (eg_store s))"

text \<open>A cap that holds for every initiator, and the window it is for.\<close>

definition cap_of :: "budget_table \<Rightarrow> string \<Rightarrow> int \<Rightarrow> int \<Rightarrow> bool" where
  "cap_of table label w n \<longleftrightarrow> lb_rate_exempt (budgetOf table label) = [] \<and> 0 \<le> n \<and>
     ((w = minute_ms \<and> lb_per_minute (budgetOf table label) = Some n) \<or>
      (w = hour_ms \<and> lb_per_hour (budgetOf table label) = Some n))"

definition egress_inv :: "budget_table \<Rightarrow> egress_run \<Rightarrow> bool" where
  "egress_inv table r \<longleftrightarrow> valid_refs (er_state r) \<and>
     (\<forall>label. sorted (logged r label) \<and> (\<forall>x\<in>set (logged r label). x \<le> er_clock r) \<and>
        (\<exists>pre. logged r label = pre @ times (er_state r) label \<and> (\<forall>x\<in>set pre. x \<le> er_clock r - day_ms))) \<and>
     (\<forall>label w n t. cap_of table label w n \<longrightarrow> int (in_window w t (logged r label)) \<le> 3 * n)"

lemma sorted_takeWhile_rev:
  "sorted xs \<Longrightarrow> length (takeWhile (\<lambda>x. x > c) (rev xs)) = length (filter (\<lambda>x. x > c) xs)"
  for xs :: "int list"
proof (induction xs rule: rev_induct)
  case (snoc x xs)
  show ?case
  proof (cases "x > c")
    case True
    with snoc show ?thesis by (simp add: sorted_append)
  next
    case False
    then have "filter (\<lambda>x. x > c) xs = []" using snoc.prems by (auto simp: sorted_append filter_empty_conv)
    with False show ?thesis by simp
  qed
qed simp

lemma recent_length:
  "length (recent store refs since) = length (takeWhile (\<lambda>x. x > since) (rev (map (\<lambda>i. sm_at (store ! i)) refs)))"
  by (simp add: recent_def rev_map takeWhile_map comp_def)

lemma prune_times: "map (\<lambda>i. sm_at (store ! i)) (prune store refs now) = dropWhile (\<lambda>x. x \<le> now - day_ms) (map (\<lambda>i. sm_at (store ! i)) refs)"
  by (simp add: prune_def dropWhile_map comp_def)

lemma prune_set: "set (prune store refs now) \<subseteq> set refs"
  by (auto simp: prune_def dest: set_dropWhileD)

text \<open>What a check changes: at most the pruned lists.\<close>

lemma check_shape:
  assumes "check table s label who now = (s', v)"
  shows "eg_store s' = eg_store s \<and> eg_breakers s' = eg_breakers s \<and>
    (\<forall>l. l \<noteq> label \<longrightarrow> eg_labels s' l = eg_labels s l) \<and>
    (eg_labels s' label = eg_labels s label \<and> v = Some Backoff \<or>
     eg_labels s' label = prune (eg_store s) (eg_labels s label) now)"
  using assms by (auto simp: check_def Let_def split: if_splits)

lemma check_passed:
  assumes "check table s label who now = (s', None)" "cap_of table label w n"
  shows "eg_labels s' label = prune (eg_store s) (eg_labels s label) now \<and>
    count_since (eg_store s) (eg_labels s' label) (now - w) < 3 * n"
proof -
  have f: "x \<le> 3 * n - 1" if "x < n * (if who = Owner_turn then 3 else 1)" "0 \<le> n" for x :: int
    using that by (auto split: if_splits)
  show ?thesis
    using assms f
    by (auto simp: check_def Let_def cap_of_def reaches_def scaled_def owner_turn_rate_factor_def not_le
        split: if_splits)
qed

lemma admit_passed:
  assumes "admit table s label who False now = (s', None, ticket)"
  obtains s1 where "check table s label who now = (s1, None)"
    "s' = s1\<lparr>eg_store := eg_store s1 @ [\<lparr>sm_at = now, sm_up = 0, sm_down = 0\<rparr>],
       eg_labels := (eg_labels s1)(label := eg_labels s1 label @ [length (eg_store s1)]),
       eg_global := eg_global s1 @ [length (eg_store s1)]\<rparr>"
  using assms by (auto simp: admit_def Let_def split: prod.splits if_splits)

lemma admit_refused: "admit table s label who False now = (s', Some v, ticket) \<Longrightarrow> check table s label who now = (s', Some v)"
  by (auto simp: admit_def Let_def split: prod.splits if_splits)

lemma check_valid: "valid_refs s \<Longrightarrow> check table s label who now = (s', v) \<Longrightarrow> valid_refs s'"
  using check_shape [of table s label who now s' v] prune_set
  unfolding valid_refs_def by (metis subsetD)

lemma check_times:
  assumes "check table s label who now = (s', v)"
  shows "times s' l = times s l \<or> times s' l = dropWhile (\<lambda>x. x \<le> now - day_ms) (times s l)"
  using check_shape [OF assms] by (cases "l = label") (auto simp: times_def prune_times)

lemma admit_passed_times:
  assumes "admit table s label who False now = (s', None, ticket)" "valid_refs s"
  shows "times s' label = dropWhile (\<lambda>x. x \<le> now - day_ms) (times s label) @ [now] \<and>
    (\<forall>l. l \<noteq> label \<longrightarrow> times s' l = times s l) \<and> valid_refs s'"
  using assms(1)
proof (rule admit_passed)
  fix s1
  assume c: "check table s label who now = (s1, None)"
    and s': "s' = s1\<lparr>eg_store := eg_store s1 @ [\<lparr>sm_at = now, sm_up = 0, sm_down = 0\<rparr>],
       eg_labels := (eg_labels s1)(label := eg_labels s1 label @ [length (eg_store s1)]),
       eg_global := eg_global s1 @ [length (eg_store s1)]\<rparr>"
  have v: "valid_refs s1" using check_valid [OF assms(2) c] .
  have sh: "eg_store s1 = eg_store s" "l \<noteq> label \<Longrightarrow> eg_labels s1 l = eg_labels s l" for l
    using check_shape [OF c] by auto
  have lab: "eg_labels s1 label = prune (eg_store s) (eg_labels s label) now" using check_shape [OF c] by auto
  have old: "map (\<lambda>i. sm_at ((eg_store s1 @ [x]) ! i)) (eg_labels s1 l) = map (\<lambda>i. sm_at (eg_store s1 ! i)) (eg_labels s1 l)" for x l
    using v by (auto simp: valid_refs_def nth_append)
  show ?thesis
  proof (intro conjI allI impI)
    show "times s' label = dropWhile (\<lambda>x. x \<le> now - day_ms) (times s label) @ [now]"
      using old [of _ label] by (simp add: s' times_def lab sh prune_times [symmetric])
    show "times s' l = times s l" if "l \<noteq> label" for l
      using that old [of _ l] by (simp add: s' times_def sh)
    show "valid_refs s'" using v by (auto simp: valid_refs_def s' less_Suc_eq)
  qed
qed

lemma filter_dropWhile_le:
  "c \<le> d \<Longrightarrow> filter (\<lambda>x. x > d) (dropWhile (\<lambda>x. x \<le> c) xs) = filter (\<lambda>x. x > (d :: int)) xs"
  by (induction xs) auto

lemma in_window_snoc: "in_window w t (xs @ [x]) = in_window w t xs + (if t - w < x \<and> x \<le> t then 1 else 0)"
  by (simp add: in_window_def)

lemma in_window_le: "now \<le> t \<Longrightarrow> in_window w t xs \<le> length (filter (\<lambda>x. x > now - w) xs)"
  unfolding in_window_def by (induction xs) auto

lemma cap_window: "cap_of table label w n \<Longrightarrow> w \<le> day_ms \<and> 0 \<le> n"
  by (auto simp: cap_of_def minute_ms_def hour_ms_def day_ms_def)

text \<open>The window that ends at or after the new request still has room.\<close>

lemma window_has_room:
  assumes inv: "egress_inv table r" and now: "er_clock r \<le> now" "now \<le> t"
    and adm: "admit table (er_state r) label who False now = (s', None, ticket)" and cap: "cap_of table label w n"
  shows "int (in_window w t (logged r label)) < 3 * n"
proof -
  let ?s = "er_state r"
  from adm obtain s1 where c: "check table ?s label who now = (s1, None)" by (rule admit_passed)
  obtain pre where log: "logged r label = pre @ times ?s label" "\<forall>x\<in>set pre. x \<le> er_clock r - day_ms"
    and sorted: "sorted (logged r label)" using inv unfolding egress_inv_def by blast
  have w: "w \<le> day_ms" using cap_window [OF cap] by simp
  have st: "sorted (dropWhile (\<lambda>x. x \<le> now - day_ms) (times ?s label))"
    using sorted log(1) by (simp add: sorted_append sorted_wrt_dropWhile)
  have "in_window w t (logged r label) \<le> length (filter (\<lambda>x. x > now - w) (logged r label))"
    using now(2) by (rule in_window_le)
  also have "filter (\<lambda>x. x > now - w) (logged r label) = filter (\<lambda>x. x > now - w) (times ?s label)"
    using log w now(1) by (force simp: filter_empty_conv)
  also have "\<dots> = filter (\<lambda>x. x > now - w) (dropWhile (\<lambda>x. x \<le> now - day_ms) (times ?s label))"
    using w by (simp add: filter_dropWhile_le)
  also have "length \<dots> = length (recent (eg_store ?s) (eg_labels s1 label) (now - w))"
    using check_passed [OF c cap] st
    by (simp add: recent_length prune_times sorted_takeWhile_rev times_def)
  finally have le: "in_window w t (logged r label) \<le> length (recent (eg_store ?s) (eg_labels s1 label) (now - w))" .
  have "int (length (recent (eg_store ?s) (eg_labels s1 label) (now - w))) < 3 * n"
    using check_passed [OF c cap] unfolding count_since_def by blast
  with le show ?thesis by linarith
qed

lemma inv_kept:
  assumes "egress_inv table r" "er_clock r \<le> now" "er_log r' = er_log r" "er_clock r' = now"
    "valid_refs (er_state r')"
    "\<And>l. times (er_state r') l = times (er_state r) l \<or>
       times (er_state r') l = dropWhile (\<lambda>x. x \<le> now - day_ms) (times (er_state r) l)"
  shows "egress_inv table r'"
proof -
  have log: "logged r' l = logged r l" for l using assms(3) by (simp add: logged_def)
  have "\<exists>pre. logged r' l = pre @ times (er_state r') l \<and> (\<forall>x\<in>set pre. x \<le> er_clock r' - day_ms)" for l
  proof -
    obtain pre where pre: "logged r l = pre @ times (er_state r) l" "\<forall>x\<in>set pre. x \<le> er_clock r - day_ms"
      using assms(1) unfolding egress_inv_def by blast
    then have pre': "\<forall>x\<in>set pre. x \<le> er_clock r' - day_ms" using assms(2,4) by force
    show ?thesis
      using assms(6) [of l]
    proof
      assume "times (er_state r') l = times (er_state r) l"
      with pre(1) pre' log show ?thesis by auto
    next
      let ?P = "\<lambda>x. x \<le> now - day_ms"
      assume t: "times (er_state r') l = dropWhile ?P (times (er_state r) l)"
      have "logged r' l = (pre @ takeWhile ?P (times (er_state r) l)) @ times (er_state r') l"
        using pre(1) log t by simp
      moreover have "\<forall>x\<in>set (pre @ takeWhile ?P (times (er_state r) l)). x \<le> er_clock r' - day_ms"
        using pre' assms(4) by (auto dest: set_takeWhileD)
      ultimately show ?thesis by blast
    qed
  qed
  moreover have "\<forall>x\<in>set (logged r' l). x \<le> er_clock r'" for l
    using assms(1,2,4) unfolding log egress_inv_def by (meson order_trans)
  ultimately show ?thesis using assms(1,5) unfolding egress_inv_def log by blast
qed

lemma addBytes_same:
  "eg_labels (addBytes s ticket up down) = eg_labels s \<and> length (eg_store (addBytes s ticket up down)) = length (eg_store s) \<and>
   eg_breakers (addBytes s ticket up down) = eg_breakers s \<and>
   (\<forall>i<length (eg_store s). sm_at (eg_store (addBytes s ticket up down) ! i) = sm_at (eg_store s ! i))"
  by (auto simp: addBytes_def nth_list_update split: option.splits)

lemma recordOutcome_same:
  "recordOutcome table s label status retryAfter now = (s', evs) \<Longrightarrow>
   eg_labels s' = eg_labels s \<and> eg_store s' = eg_store s"
  by (auto simp: recordOutcome_def record_breaker_def record_alerts_def Let_def split: prod.splits option.splits if_splits)

lemma egress_step_inv:
  assumes "egress_step table r r'" "egress_inv table r"
  shows "egress_inv table r'"
  using assms
proof (induction rule: egress_step.induct)
  case (admitted r now label who s' ticket)
  let ?r' = "\<lparr>er_state = s', er_clock = now, er_log = er_log r @ [(label, now)]\<rparr>"
  have v: "valid_refs (er_state r)" using admitted(3) by (simp add: egress_inv_def)
  note t = admit_passed_times [OF admitted(2) v]
  have log: "logged ?r' l = (if l = label then logged r l @ [now] else logged r l)" for l
    by (simp add: logged_def)
  have le: "\<forall>x\<in>set (logged r l). x \<le> now" for l
    using admitted(1,3) unfolding egress_inv_def by (meson order_trans)
  have "sorted (logged ?r' l) \<and> (\<forall>x\<in>set (logged ?r' l). x \<le> er_clock ?r')" for l
    using le [of l] admitted(3) by (auto simp: log sorted_append egress_inv_def)
  moreover have "\<exists>pre. logged ?r' l = pre @ times s' l \<and> (\<forall>x\<in>set pre. x \<le> now - day_ms)" for l
  proof -
    obtain pre where pre: "logged r l = pre @ times (er_state r) l" "\<forall>x\<in>set pre. x \<le> er_clock r - day_ms"
      using admitted(3) unfolding egress_inv_def by blast
    then have pre': "\<forall>x\<in>set pre. x \<le> now - day_ms" using admitted(1) by force
    let ?P = "\<lambda>x. x \<le> now - day_ms"
    show ?thesis
    proof (cases "l = label")
      case True
      have "logged ?r' l = (pre @ takeWhile ?P (times (er_state r) l)) @ times s' l"
        using pre(1) t True by (simp add: log)
      moreover have "\<forall>x\<in>set (pre @ takeWhile ?P (times (er_state r) l)). x \<le> now - day_ms"
        using pre' by (auto dest: set_takeWhileD)
      ultimately show ?thesis by blast
    next
      case False
      with pre(1) pre' t show ?thesis by (auto simp: log)
    qed
  qed
  moreover have "int (in_window w u (logged ?r' l)) \<le> 3 * n" if cap: "cap_of table l w n" for l w n u
  proof (cases "l = label \<and> u - w < now \<and> now \<le> u")
    case True
    then have "int (in_window w u (logged r label)) < 3 * n"
      using window_has_room [OF admitted(3,1) _ admitted(2)] cap by blast
    with True show ?thesis by (simp add: log in_window_snoc)
  next
    case False
    have "int (in_window w u (logged r l)) \<le> 3 * n" using admitted(3) cap by (simp add: egress_inv_def)
    with False show ?thesis by (auto simp: log in_window_snoc)
  qed
  ultimately show ?case using t by (simp add: egress_inv_def)
next
  case (refused r now label who s' reason ticket)
  note c = admit_refused [OF refused(2)]
  have v: "valid_refs (er_state r)" using refused(3) by (simp add: egress_inv_def)
  show ?case
    by (rule inv_kept [OF refused(3,1)]) (use check_valid [OF v c] check_times [OF c] in simp_all)
next
  case (transferred r ticket up down)
  have v: "valid_refs (er_state r)" using transferred by (simp add: egress_inv_def)
  have "times (addBytes (er_state r) ticket up down) l = times (er_state r) l" for l
    using v addBytes_same [of "er_state r" ticket up down] by (simp add: times_def valid_refs_def)
  moreover have "valid_refs (addBytes (er_state r) ticket up down)"
    using v addBytes_same [of "er_state r" ticket up down] by (simp add: valid_refs_def)
  ultimately show ?case by (intro inv_kept [OF transferred order_refl]) simp_all
next
  case (answered r now label status retryAfter s' events)
  note same = recordOutcome_same [OF answered(2)]
  show ?case
    by (rule inv_kept [OF answered(3,1)])
      (use answered(3) same in \<open>simp_all add: egress_inv_def valid_refs_def times_def\<close>)
qed

lemma egress_reachable_inv: "egress_reachable table r \<Longrightarrow> egress_inv table r"
  unfolding egress_reachable_def
proof (induction rule: rtranclp_induct)
  case base
  show ?case
    by (auto simp: egress_inv_def egress_start_def new_egress_def valid_refs_def logged_def times_def in_window_def
        dest: cap_window)
qed (rule egress_step_inv)

section \<open>The breaker\<close>

definition breaker_inv :: "egress_run \<Rightarrow> bool" where
  "breaker_inv r \<longleftrightarrow> (\<forall>label b. eg_breakers (er_state r) label = Some b \<longrightarrow>
     0 \<le> bs_failures b \<and> bs_failures b < 3 \<and> bs_open_until b \<le> er_clock r + 3600000)"

lemma breaker_after_inv:
  assumes "breaker_after b label st retryAfter now = (b', evs)" "0 \<le> bs_failures b" "bs_failures b < 3"
    "bs_open_until b \<le> now + 3600000" "0 \<le> now"
  shows "0 \<le> bs_failures b' \<and> bs_failures b' < 3 \<and> bs_open_until b' \<le> now + 3600000"
  using assms
  by (auto simp: breaker_after_def Let_def breaker_threshold_def breaker_max_ms_def hour_ms_def minute_ms_def
      split: if_splits option.splits)

lemma admit_breakers: "admit table s label who cr now = (s', v, ticket) \<Longrightarrow> eg_breakers s' = eg_breakers s"
  using check_shape [of table s label who now] by (auto simp: admit_def Let_def split: prod.splits if_splits)

lemma record_alerts_breakers: "record_alerts s now = (s', evs) \<Longrightarrow> eg_breakers s' = eg_breakers s"
  by (auto simp: record_alerts_def Let_def split: if_splits)

lemma record_breaker_inv:
  assumes "record_breaker table s label status retryAfter now = (s', evs)" "0 \<le> now"
    "\<forall>l b. eg_breakers s l = Some b \<longrightarrow> 0 \<le> bs_failures b \<and> bs_failures b < 3 \<and> bs_open_until b \<le> now + 3600000"
  shows "\<forall>l b. eg_breakers s' l = Some b \<longrightarrow> 0 \<le> bs_failures b \<and> bs_failures b < 3 \<and> bs_open_until b \<le> now + 3600000"
proof (cases "status \<noteq> None \<and> lb_breaker (budgetOf table label)")
  case True
  let ?b = "case eg_breakers s label of Some b \<Rightarrow> b | None \<Rightarrow> closed_breaker"
  from True assms(1) obtain st b' evs' where st: "breaker_after ?b label st retryAfter now = (b', evs')"
    and s': "s' = s\<lparr>eg_breakers := (eg_breakers s)(label := Some b')\<rparr>"
    by (auto simp: record_breaker_def Let_def split: prod.splits)
  have "0 \<le> bs_failures ?b \<and> bs_failures ?b < 3 \<and> bs_open_until ?b \<le> now + 3600000"
    using assms(2,3) by (auto simp: closed_breaker_def split: option.splits)
  then have "0 \<le> bs_failures b' \<and> bs_failures b' < 3 \<and> bs_open_until b' \<le> now + 3600000"
    using breaker_after_inv [OF st] assms(2) by blast
  with assms(3) s' show ?thesis by auto
next
  case False
  then have "s' = s" using assms(1) by (auto simp: record_breaker_def split: option.splits)
  with assms(3) show ?thesis by simp
qed

lemma breaker_step_inv:
  assumes "egress_step table r r'" "breaker_inv r \<and> 0 \<le> er_clock r"
  shows "breaker_inv r' \<and> 0 \<le> er_clock r'"
  using assms
proof (induction rule: egress_step.induct)
  case (admitted r now label who s' ticket)
  then show ?case by (fastforce simp: breaker_inv_def dest!: admit_breakers)
next
  case (refused r now label who s' reason ticket)
  then show ?case by (fastforce simp: breaker_inv_def dest!: admit_breakers)
next
  case (transferred r ticket up down)
  then show ?case by (simp add: breaker_inv_def addBytes_same)
next
  case (answered r now label status retryAfter s' events)
  then obtain s1 e1 e2 where r: "record_breaker table (er_state r) label status retryAfter now = (s1, e1)"
    and a: "record_alerts s1 now = (s', e2)"
    by (auto simp: recordOutcome_def split: prod.splits)
  from answered have pre: "\<forall>l b. eg_breakers (er_state r) l = Some b \<longrightarrow>
      0 \<le> bs_failures b \<and> bs_failures b < 3 \<and> bs_open_until b \<le> now + 3600000"
    by (fastforce simp: breaker_inv_def)
  from answered have "0 \<le> now" by simp
  with record_breaker_inv [OF r _ pre] record_alerts_breakers [OF a] show ?case by (simp add: breaker_inv_def)
qed

lemma breaker_reachable_inv: "egress_reachable table r \<Longrightarrow> breaker_inv r \<and> 0 \<le> er_clock r"
  unfolding egress_reachable_def
proof (induction rule: rtranclp_induct)
  case base
  show ?case by (simp add: breaker_inv_def egress_start_def new_egress_def)
qed (rule breaker_step_inv)

lemma check_backoff:
  "snd (check table s label who now) = Some Backoff \<Longrightarrow>
   \<exists>b. eg_breakers s label = Some b \<and> now < bs_open_until b"
  by (auto simp: check_def Let_def split: if_splits option.splits)


lemma one_jira_admitted:
  "egress_reachable egress_budgets
     \<lparr>er_state = fst (admit egress_budgets new_egress ''jira'' Owner_turn False 5), er_clock = 5, er_log = [(''jira'', 5)]\<rparr>"
proof -
  let ?a = "admit egress_budgets new_egress ''jira'' Owner_turn False 5"
  have "?a = (fst ?a, None, Some 0)"
    by (simp add: admit_def check_def new_egress_def Let_def prune_def count_since_def bytes_since_def recent_def
        reaches_def scaled_def owner_turn_rate_factor_def budgetOf_def egress_budgets_def connector_budget_def no_budget_def
        label_bytes_per_hour_def mb_def)
  then have "egress_step egress_budgets egress_start \<lparr>er_state = fst ?a, er_clock = 5, er_log = er_log egress_start @ [(''jira'', 5)]\<rparr>"
    by (intro egress_step.admitted) (simp_all add: egress_start_def)
  then show ?thesis by (auto simp: egress_reachable_def egress_start_def)
qed

lemma jira_cap: "cap_of egress_budgets ''jira'' minute_ms 20"
  by (simp add: cap_of_def budgetOf_def egress_budgets_def connector_budget_def no_budget_def)


text \<open>A breaker never locks a destination out for more than an hour after the last event of the run, whatever
  \<open>Retry-After\<close> values the answers carried and however often it re-opened, and its failure count stays below
  the threshold.
\<close>

theorem backoff_at_most_an_hour:
  assumes "egress_reachable table r" "er_clock r + 3600000 \<le> now"
  shows "snd (check table (er_state r) label who now) \<noteq> Some Backoff \<and>
    (\<forall>b. eg_breakers (er_state r) label = Some b \<longrightarrow> 0 \<le> bs_failures b \<and> bs_failures b < 3)"
  using breaker_reachable_inv [OF assms(1)] assms(2) check_backoff [of table "er_state r" label who now]
  unfolding breaker_inv_def by fastforce

theorem backoff_at_most_an_hour_witness:
  "\<exists>r :: egress_run. er_log r = [(''jira'', 5)] \<and> snd (check egress_budgets (er_state r) ''jira'' Inbound 3600005) \<noteq> Some Backoff"
  using backoff_at_most_an_hour [OF one_jira_admitted, of 3600005 "''jira''" Inbound]
  by (intro exI [where x = "\<lparr>er_state = fst (admit egress_budgets new_egress ''jira'' Owner_turn False 5),
    er_clock = 5, er_log = [(''jira'', 5)]\<rparr>"] conjI) simp_all

text \<open>
  An answer between 400 and 499 other than 429 leaves the count as it is: three server errors open the breaker
  although other answers came between them, where the module's documentation says three consecutive ones.
\<close>

lemma breaker_counts_across_client_errors:
  "snd (breaker_after (fst (breaker_after (fst (breaker_after (fst (breaker_after (fst (breaker_after closed_breaker
     l 500 None 0)) l 404 None 1)) l 503 None 2)) l 403 None 3)) l 500 None 4) = [Backoff_open l 300000]"
  by (simp add: breaker_after_def closed_breaker_def breaker_threshold_def breaker_max_ms_def breaker_base_ms_def
      hour_ms_def minute_ms_def Let_def)

end
