(* ===== verification/Containment_Audit.thy ===== *)
theory Containment_Audit
  imports Tables
begin

text \<open>
  The bounded containment evidence of a continuation attempt:
  \<open>packages/core/src/ports/continuation-containment-audit.ts\<close> and
  \<open>application/continuation-containment-validation.ts\<close>. The values that are validated are plain JSON
  data (an object with accessors or symbol keys is not a value of the model, and the code rejects it).
  SHA-256 of a canonical shape is a parameter.
\<close>

section \<open>Vocabulary\<close>

definition containment_runtime_families :: "string list" where
  "containment_runtime_families = [''NONE'', ''CONTAINER_NO_NETWORK'', ''VM_NO_NIC'']"

definition containment_preflight_dispositions :: "string list" where
  "containment_preflight_dispositions = [''NOT_PERFORMED'', ''VERIFIED'', ''PREFLIGHT_FAILED'', ''UNAVAILABLE'']"

definition containment_model_integrity_statuses :: "string list" where
  "containment_model_integrity_statuses = [''VERIFIED_AT_BIND'', ''MATCHED'', ''MISMATCH'', ''NOT_REVERIFIED'', ''UNAVAILABLE'']"

definition containment_audit_failure_codes :: "string list" where
  "containment_audit_failure_codes =
    [''CONTAINMENT_UNAVAILABLE'', ''CONTAINMENT_CONFIGURATION_INVALID'', ''CONTAINMENT_PREFLIGHT_FAILED'',
     ''CONTAINMENT_BIND_FAILED'', ''MODEL_MISSING'', ''MODEL_DIGEST_MISMATCH'', ''PRIVATE_DAEMON_START_FAILED'',
     ''PRIVATE_DAEMON_NOT_READY'', ''CONTAINMENT_EVIDENCE_CONFLICT'', ''CONTAINMENT_FAILURE'', ''MODEL_DOWNLOAD_DETECTED'']"

definition containment_audit_schema :: string where
  "containment_audit_schema = ''continuation-containment-audit-v1''"

text \<open>The patterns of the texts. \<open>utf16_length\<close> counts the UTF-16 units of a UTF-8 text.\<close>

definition codes :: "string \<Rightarrow> nat list" where "codes s = map of_char s"

definition utf16_length :: "string \<Rightarrow> nat" where
  "utf16_length s = length (filter (\<lambda>c. c div 64 \<noteq> 2) (codes s)) + length (filter (\<lambda>c. 240 \<le> c) (codes s))"

definition is_id :: "string \<Rightarrow> bool" where "is_id s = ident_text [46, 95, 58, 45] (codes s)"
definition is_version :: "string \<Rightarrow> bool" where "is_version s = ident_text [46, 95, 45] (codes s)"

definition is_hex64 :: "string \<Rightarrow> bool" where
  "is_hex64 s \<longleftrightarrow> length s = 64 \<and> list_all (\<lambda>c. (48 \<le> c \<and> c \<le> 57) \<or> (97 \<le> c \<and> c \<le> 102)) (codes s)"

definition is_opaque :: "string \<Rightarrow> bool" where
  "is_opaque s \<longleftrightarrow> 1 \<le> utf16_length s \<and> utf16_length s \<le> 256 \<and> list_all (\<lambda>c. 32 \<le> c \<and> c \<noteq> 127) (codes s)"

section \<open>Projection\<close>

text \<open>An object with exactly the expected keys.\<close>

definition plainObject :: "string list \<Rightarrow> string list \<Rightarrow> json \<Rightarrow> (string \<times> json) list option" where
  "plainObject required optional v = (case v of
       JObj fs \<Rightarrow> if list_all (\<lambda>p. fst p \<in> set (required @ optional)) fs \<and> list_all (\<lambda>k. k \<in> fst ` set fs) required
                 then Some fs else None
     | _ \<Rightarrow> None)"

text \<open>The keys of the binding and the check of each text.\<close>

definition binding_fields :: "(string \<times> (string \<Rightarrow> bool)) list" where
  "binding_fields =
    [(''executionId'', is_id), (''taskRunId'', is_id), (''containmentPolicyId'', is_id),
     (''containmentPolicyVersion'', is_version), (''containmentPolicyDigest'', is_hex64),
     (''containmentBindingDigest'', is_hex64), (''providerId'', is_id), (''modelId'', is_opaque),
     (''modelDigest'', is_hex64), (''imageDigest'', is_hex64),
     (''runtimeFamily'', \<lambda>s. s \<in> set containment_runtime_families), (''runtimeVersion'', is_version),
     (''securityProfileDigest'', is_hex64), (''modelMountIdentityDigest'', is_hex64), (''verifierVersion'', is_version),
     (''channelAResultDigest'', is_hex64), (''channelBResultDigest'', is_hex64),
     (''preflightDisposition'', \<lambda>s. s \<in> set containment_preflight_dispositions),
     (''modelIntegrityStatus'', \<lambda>s. s = ''VERIFIED_AT_BIND'')]"

definition prepared_fields :: "(string \<times> (string \<Rightarrow> bool)) list" where
  "prepared_fields =
    [(''providerBindingDigest'', is_hex64), (''securityProfileId'', is_id), (''instanceIdentityDigest'', is_hex64),
     (''channelAVerifierVersion'', is_version), (''channelBVerifierVersion'', is_version)]"

definition binding_keys :: "string list" where "binding_keys = map fst binding_fields"
definition prepared_keys :: "string list" where "prepared_keys = map fst prepared_fields"

type_synonym texts = "(string \<times> string) list"

fun read_fields :: "(string \<times> (string \<Rightarrow> bool)) list \<Rightarrow> (string \<times> json) list \<Rightarrow> texts option" where
  "read_fields [] fs = Some []"
| "read_fields ((k, ok) # ks) fs = (case map_of fs k of
       Some (JStr s) \<Rightarrow> if ok s then map_option (\<lambda>r. (k, s) # r) (read_fields ks fs) else None
     | _ \<Rightarrow> None)"

definition field :: "texts \<Rightarrow> string \<Rightarrow> string" where
  "field b k = (case map_of b k of Some s \<Rightarrow> s | None \<Rightarrow> [])"

text \<open>\<open>containmentBindingDigest\<close>: the domain, and the shape in its fixed order.\<close>

definition text_members :: "texts \<Rightarrow> string list \<Rightarrow> (string \<times> json) list" where
  "text_members b ks = map (\<lambda>k. (k, JStr (field b k))) ks"

definition containment_binding_shape :: "texts \<Rightarrow> json" where
  "containment_binding_shape b = JObj (
     [(''schemaVersion'', JStr ''verified-containment-binding-v1''),
      (''executionContext'', JObj (text_members b
         [''executionId'', ''taskRunId'', ''containmentPolicyId'', ''containmentPolicyVersion'',
          ''containmentPolicyDigest'', ''runtimeFamily'', ''runtimeVersion'', ''modelMountIdentityDigest'']))]
     @ text_members b [''providerId'', ''providerBindingDigest'', ''securityProfileId'', ''securityProfileDigest'',
          ''instanceIdentityDigest'']
     @ [(''expectedModelId'', JStr (field b ''modelId'')), (''expectedModelDigest'', JStr (field b ''modelDigest''))]
     @ text_members b [''imageDigest'', ''channelAVerifierVersion'', ''channelBVerifierVersion'',
          ''channelAResultDigest'', ''channelBResultDigest''])"

type_synonym sha = "string \<Rightarrow> json \<Rightarrow> string"

definition containmentBindingDigest :: "sha \<Rightarrow> texts \<Rightarrow> string" where
  "containmentBindingDigest sha256Canonical b =
     sha256Canonical ''quoky.r3.containment.binding.v1'' (containment_binding_shape b)"

definition prepared_ok :: "texts \<Rightarrow> texts \<Rightarrow> bool" where
  "prepared_ok p b \<longleftrightarrow> field p ''channelAVerifierVersion'' \<noteq> field p ''channelBVerifierVersion'' \<and>
     field p ''providerBindingDigest'' \<noteq> field b ''containmentBindingDigest'' \<and>
     field b ''preflightDisposition'' = ''VERIFIED''"

definition projectBinding :: "sha \<Rightarrow> json \<Rightarrow> string \<Rightarrow> string \<Rightarrow> texts option" where
  "projectBinding sha v executionId taskRunId = (case plainObject binding_keys prepared_keys v of
       None \<Rightarrow> None
     | Some fs \<Rightarrow>
         let prep = list_ex (\<lambda>k. k \<in> fst ` set fs) prepared_keys in
         (case (if prep then read_fields prepared_fields fs else Some [], read_fields binding_fields fs) of
            (Some p, Some b) \<Rightarrow>
              if (prep \<longrightarrow> prepared_ok p b) \<and> field b ''executionId'' = executionId \<and> field b ''taskRunId'' = taskRunId \<and>
                (prep \<longrightarrow> executionId = taskRunId \<and>
                   containmentBindingDigest sha (p @ b) = field b ''containmentBindingDigest'')
              then Some (p @ b) else None
          | _ \<Rightarrow> None))"

record post_attempt =
  po_integrity :: string
  po_failure :: "string option"

record containment_audit =
  ca_binding :: texts
  ca_post :: "post_attempt option"

definition post_keys :: "string list" where
  "post_keys = [''attemptBoundaryCrossed'', ''postAttemptModelIntegrity'', ''failureCode'']"

definition projectPostAttempt :: "json \<Rightarrow> post_attempt option" where
  "projectPostAttempt v = (case plainObject post_keys [] v of
       None \<Rightarrow> None
     | Some fs \<Rightarrow>
         (case (map_of fs ''attemptBoundaryCrossed'', map_of fs ''postAttemptModelIntegrity'', map_of fs ''failureCode'') of
            (Some (JBool True), Some (JStr m), Some f) \<Rightarrow>
              if m \<in> set containment_model_integrity_statuses \<and> m \<noteq> ''VERIFIED_AT_BIND'' then
                (case f of JNull \<Rightarrow> Some \<lparr>po_integrity = m, po_failure = None\<rparr>
                 | JStr c \<Rightarrow> if c \<in> set containment_audit_failure_codes
                     then Some \<lparr>po_integrity = m, po_failure = Some c\<rparr> else None
                 | _ \<Rightarrow> None)
              else None
          | _ \<Rightarrow> None))"

definition snapshotContainmentAudit :: "sha \<Rightarrow> json \<Rightarrow> string \<Rightarrow> string \<Rightarrow> containment_audit option" where
  "snapshotContainmentAudit sha v executionId taskRunId =
     (case plainObject [''schemaVersion'', ''binding''] [''postAttempt''] v of
        None \<Rightarrow> None
      | Some fs \<Rightarrow>
          if map_of fs ''schemaVersion'' \<noteq> Some (JStr containment_audit_schema) then None
          else (case map_of fs ''binding'' of None \<Rightarrow> None | Some raw \<Rightarrow>
            (case projectBinding sha raw executionId taskRunId of
               None \<Rightarrow> None
             | Some b \<Rightarrow>
                 (case map_of fs ''postAttempt'' of
                    None \<Rightarrow> Some \<lparr>ca_binding = b, ca_post = None\<rparr>
                  | Some praw \<Rightarrow> (case projectPostAttempt praw of
                        None \<Rightarrow> None | Some p \<Rightarrow> Some \<lparr>ca_binding = b, ca_post = Some p\<rparr>)))))"

text \<open>The projected value as JSON data: what is stored and read back.\<close>

definition post_json :: "post_attempt \<Rightarrow> json" where
  "post_json p = JObj [(''attemptBoundaryCrossed'', JBool True), (''postAttemptModelIntegrity'', JStr (po_integrity p)),
     (''failureCode'', case po_failure p of None \<Rightarrow> JNull | Some c \<Rightarrow> JStr c)]"

definition audit_json :: "containment_audit \<Rightarrow> json" where
  "audit_json a = JObj ([(''schemaVersion'', JStr containment_audit_schema),
      (''binding'', JObj (map (\<lambda>(k, s). (k, JStr s)) (ca_binding a)))]
     @ (case ca_post a of None \<Rightarrow> [] | Some p \<Rightarrow> [(''postAttempt'', post_json p)]))"

section \<open>Comparators\<close>

definition bindingIdentical :: "texts \<Rightarrow> texts \<Rightarrow> bool" where
  "bindingIdentical a b \<longleftrightarrow> list_all (\<lambda>k. map_of a k = map_of b k) (binding_keys @ prepared_keys)"

definition postAttemptIdentical :: "post_attempt \<Rightarrow> post_attempt \<Rightarrow> bool" where
  "postAttemptIdentical a b \<longleftrightarrow> po_integrity a = po_integrity b \<and> po_failure a = po_failure b"

definition containmentEvidencePreserved :: "containment_audit option \<Rightarrow> containment_audit option \<Rightarrow> bool" where
  "containmentEvidencePreserved current incoming = (case (current, incoming) of
       (None, _) \<Rightarrow> True
     | (Some a, None) \<Rightarrow> False
     | (Some a, Some b) \<Rightarrow> bindingIdentical (ca_binding a) (ca_binding b) \<and>
         (case ca_post a of None \<Rightarrow> True | Some p \<Rightarrow>
            (case ca_post b of None \<Rightarrow> False | Some q \<Rightarrow> postAttemptIdentical p q)))"

definition containmentEvidenceIdentical :: "containment_audit option \<Rightarrow> containment_audit option \<Rightarrow> bool" where
  "containmentEvidenceIdentical current incoming = (case (current, incoming) of
       (Some a, Some b) \<Rightarrow> bindingIdentical (ca_binding a) (ca_binding b) \<and>
         (case (ca_post a, ca_post b) of
            (Some p, Some q) \<Rightarrow> postAttemptIdentical p q
          | (p, q) \<Rightarrow> p = None \<and> q = None)
     | (a, b) \<Rightarrow> a = None \<and> b = None)"

section \<open>Facts\<close>

lemma read_fields_Some:
  "read_fields ks fs = Some r \<longleftrightarrow>
   list_all2 (\<lambda>p q. fst q = fst p \<and> map_of fs (fst p) = Some (JStr (snd q)) \<and> snd p (snd q)) ks r"
proof (induction ks arbitrary: r)
  case (Cons p ks)
  obtain k ok where p: "p = (k, ok)" by fastforce
  show ?case
    unfolding p by (cases r) (auto simp: Cons.IH split: option.splits json.splits)
qed auto

lemma read_fields_keys: "read_fields ks fs = Some r \<Longrightarrow> map fst r = map fst ks"
  unfolding read_fields_Some by (induction rule: list_all2_induct) auto

lemma field_keys_distinct: "distinct (prepared_keys @ binding_keys)"
  by code_simp

lemma map_of_texts: "map_of (map (\<lambda>(k, s). (k, JStr s)) b) k = map_option JStr (map_of b k)"
  by (induction b) auto

lemma read_fields_again:
  assumes "read_fields ks fs = Some r" "\<And>q. q \<in> set r \<Longrightarrow> map_of fs' (fst q) = Some (JStr (snd q))"
  shows "read_fields ks fs' = Some r"
  using assms(1) unfolding read_fields_Some
  by (rule list.rel_mono_strong) (use assms(2) in auto)

text \<open>What a projected binding is.\<close>

definition binding_ok :: "sha \<Rightarrow> string \<Rightarrow> string \<Rightarrow> texts \<Rightarrow> bool" where
  "binding_ok sha e t b \<longleftrightarrow> field b ''executionId'' = e \<and> field b ''taskRunId'' = t \<and>
     (map fst b = binding_keys \<or>
      map fst b = prepared_keys @ binding_keys \<and> e = t \<and>
        containmentBindingDigest sha b = field b ''containmentBindingDigest'')"

lemma projectBinding_Some:
  assumes "projectBinding sha v e t = Some b"
  obtains p c fs where "b = p @ c" "read_fields binding_fields fs = Some c"
    "p = [] \<or> read_fields prepared_fields fs = Some p" "p \<noteq> [] \<longrightarrow> prepared_ok p c \<and> e = t \<and>
       containmentBindingDigest sha (p @ c) = field c ''containmentBindingDigest''"
    "field c ''executionId'' = e" "field c ''taskRunId'' = t"
proof -
  from assms obtain fs where pl: "plainObject binding_keys prepared_keys v = Some fs"
    by (auto simp: projectBinding_def split: option.splits)
  let ?prep = "list_ex (\<lambda>k. k \<in> fst ` set fs) prepared_keys"
  from assms pl obtain p c where pc: "(if ?prep then read_fields prepared_fields fs else Some []) = Some p"
    "read_fields binding_fields fs = Some c"
    by (auto simp: projectBinding_def Let_def split: option.splits)
  have "(?prep \<longrightarrow> prepared_ok p c) \<and> field c ''executionId'' = e \<and> field c ''taskRunId'' = t \<and>
      (?prep \<longrightarrow> e = t \<and> containmentBindingDigest sha (p @ c) = field c ''containmentBindingDigest'')" "b = p @ c"
    using assms pl pc unfolding projectBinding_def by (simp_all add: Let_def split: if_splits)
  with pc show thesis by (intro that [of p c fs]) (auto split: if_splits)
qed

lemma field_append: "k \<notin> fst ` set p \<Longrightarrow> field (p @ c) k = field c k"
  by (simp add: field_def map_add_def map_of_eq_None_iff [THEN iffD2] split: option.splits)

lemma prepared_not_binding: "k \<in> set binding_keys \<Longrightarrow> k \<notin> set prepared_keys"
  using field_keys_distinct by auto

lemma binding_key_mem [simp]:
  "''executionId'' \<in> set binding_keys" "''taskRunId'' \<in> set binding_keys" "''containmentBindingDigest'' \<in> set binding_keys"
  by (simp_all add: binding_keys_def binding_fields_def)

text \<open>Written as JSON and read back, a projected binding is itself.\<close>

lemma projectBinding_roundtrip:
  assumes "projectBinding sha v e t = Some b"
  shows "projectBinding sha (JObj (map (\<lambda>(k, s). (k, JStr s)) b)) e t = Some b \<and> binding_ok sha e t b"
proof -
  obtain p c fs where b: "b = p @ c" and c: "read_fields binding_fields fs = Some c"
    and p: "p = [] \<or> read_fields prepared_fields fs = Some p"
    and ok: "p \<noteq> [] \<longrightarrow> prepared_ok p c \<and> e = t \<and> containmentBindingDigest sha (p @ c) = field c ''containmentBindingDigest''"
    and ids: "field c ''executionId'' = e" "field c ''taskRunId'' = t"
    using projectBinding_Some [OF assms] by metis
  let ?fs = "map (\<lambda>(k, s). (k, JStr s)) b"
  have kc: "map fst c = binding_keys" using read_fields_keys [OF c] by (simp add: binding_keys_def)
  have kp: "p = [] \<or> map fst p = prepared_keys" using p read_fields_keys by (auto simp: prepared_keys_def)
  have keys: "map fst ?fs = map fst p @ binding_keys" by (simp add: b kc [symmetric] comp_def case_prod_beta)
  have "map fst b = binding_keys \<or> map fst b = prepared_keys @ binding_keys" using kp by (auto simp: b kc)
  then have dist: "distinct (map fst b)" using field_keys_distinct by (metis distinct_append)
  have look: "map_of ?fs (fst q) = Some (JStr (snd q))" if "q \<in> set b" for q
    using map_of_is_SomeI [OF dist, of "fst q" "snd q"] that by (simp add: map_of_texts)
  have keyset: "fst ` set ?fs = set (map fst p) \<union> set binding_keys" by (metis keys set_append set_map)
  have rc: "read_fields binding_fields ?fs = Some c" using read_fields_again [OF c] look by (simp add: b)
  have rp: "p = [] \<or> read_fields prepared_fields ?fs = Some p" using p read_fields_again look by (metis UnCI b set_append)
  have prep: "list_ex (\<lambda>k. k \<in> fst ` set ?fs) prepared_keys \<longleftrightarrow> p \<noteq> []"
  proof (cases "p = []")
    case True
    then show ?thesis using prepared_not_binding unfolding keyset by (auto simp: list_ex_iff)
  next
    case False
    then have "map fst p = prepared_keys" "hd prepared_keys \<in> set prepared_keys"
      using kp by (auto simp: prepared_keys_def prepared_fields_def)
    with False show ?thesis unfolding keyset list_ex_iff by (metis UnI1)
  qed
  have pl: "plainObject binding_keys prepared_keys (JObj ?fs) = Some ?fs"
  proof -
    have "\<forall>q\<in>set ?fs. fst q \<in> set (binding_keys @ prepared_keys)"
      using keyset kp by (metis (no_types, lifting) Un_iff empty_iff empty_set imageI list.simps(8) set_append)
    moreover have "\<forall>k\<in>set binding_keys. k \<in> fst ` set ?fs" unfolding keyset by blast
    ultimately show ?thesis unfolding plainObject_def list_all_iff by simp
  qed
  have f: "field b k = field c k" if "k \<in> set binding_keys" for k
    unfolding b using kp prepared_not_binding [OF that] by (intro field_append) (metis empty_iff empty_set list.simps(8) set_map)
  have "binding_ok sha e t b"
    using kp kc ok ids by (auto simp: binding_ok_def f) (auto simp: b)
  moreover have "projectBinding sha (JObj ?fs) e t = Some b"
    using pl rc rp prep ok ids unfolding projectBinding_def by (cases "p = []") (simp_all add: Let_def b)
  ultimately show ?thesis by blast
qed

lemma projectPostAttempt_roundtrip: "projectPostAttempt v = Some p \<Longrightarrow> projectPostAttempt (post_json p) = Some p"
  by (auto simp: projectPostAttempt_def post_json_def plainObject_def post_keys_def
      split: option.splits json.splits bool.splits if_splits)

lemma snapshot_parts:
  assumes "snapshotContainmentAudit sha v e t = Some a"
  obtains raw where "projectBinding sha raw e t = Some (ca_binding a)"
    "ca_post a = None \<or> (\<exists>praw. projectPostAttempt praw = ca_post a)"
proof -
  have "\<exists>raw. projectBinding sha raw e t = Some (ca_binding a) \<and> (ca_post a = None \<or> (\<exists>praw. projectPostAttempt praw = ca_post a))"
    using assms unfolding snapshotContainmentAudit_def by (auto split: option.splits if_splits)
  with that show thesis by blast
qed

lemma snapshot_json:
  assumes "snapshotContainmentAudit sha v e t = Some a"
  shows "snapshotContainmentAudit sha (audit_json a) e t = Some a"
proof -
  obtain raw where b: "projectBinding sha raw e t = Some (ca_binding a)"
    and p: "ca_post a = None \<or> (\<exists>praw. projectPostAttempt praw = ca_post a)"
    using snapshot_parts [OF assms] .
  note rb = projectBinding_roundtrip [OF b, THEN conjunct1]
  show ?thesis
  proof (cases "ca_post a")
    case None
    with rb show ?thesis by (simp add: snapshotContainmentAudit_def audit_json_def plainObject_def)
  next
    case (Some q)
    then have "projectPostAttempt (post_json q) = Some q" using p projectPostAttempt_roundtrip by auto
    with Some rb show ?thesis by (simp add: snapshotContainmentAudit_def audit_json_def plainObject_def)
  qed
qed

lemma alist_eqI:
  assumes "map fst a = map fst b" "distinct (map fst a)" "\<And>k. k \<in> set (map fst a) \<Longrightarrow> map_of a k = map_of b k"
  shows "a = b"
proof (rule nth_equalityI)
  show len: "length a = length b" using assms(1) by (metis length_map)
  fix i
  assume i: "i < length a"
  have keys: "fst (a ! i) = fst (b ! i)" using assms(1) i len by (metis nth_map)
  have "map_of a (fst (a ! i)) = Some (snd (a ! i))" using assms(2) i by (intro map_of_is_SomeI) auto
  moreover have "map_of b (fst (b ! i)) = Some (snd (b ! i))"
    using assms(1,2) i len by (intro map_of_is_SomeI) auto
  ultimately have "snd (a ! i) = snd (b ! i)" using assms(3) [of "fst (a ! i)"] i keys
    by (metis length_map nth_map nth_mem option.inject)
  with keys show "a ! i = b ! i" by (simp add: prod_eq_iff)
qed

text \<open>The comparators decide equality of projected values.\<close>

lemma bindingIdentical_eq:
  assumes "binding_ok sha e t a" "binding_ok sha e' t' b"
  shows "bindingIdentical a b \<longleftrightarrow> a = b"
proof
  assume id: "bindingIdentical a b"
  then have eq: "map_of a k = map_of b k" if "k \<in> set binding_keys \<union> set prepared_keys" for k
    using that by (auto simp: bindingIdentical_def list_all_iff)
  have shape: "map fst x = binding_keys \<or> map fst x = prepared_keys @ binding_keys" if "x = a \<or> x = b" for x
    using that assms by (auto simp: binding_ok_def)
  have first: "hd prepared_keys \<in> set prepared_keys" by code_simp
  have pres: "map fst x = prepared_keys @ binding_keys \<longleftrightarrow> map_of x (hd prepared_keys) \<noteq> None" if "x = a \<or> x = b" for x
  proof
    assume "map fst x = prepared_keys @ binding_keys"
    then have "hd prepared_keys \<in> fst ` set x" using first by (metis UnI1 set_append set_map)
    then show "map_of x (hd prepared_keys) \<noteq> None" by (simp add: map_of_eq_None_iff)
  next
    assume "map_of x (hd prepared_keys) \<noteq> None"
    then have "hd prepared_keys \<in> set (map fst x)" by (simp add: map_of_eq_None_iff)
    then have "map fst x \<noteq> binding_keys" using prepared_not_binding first by metis
    then show "map fst x = prepared_keys @ binding_keys" using shape [OF that] by blast
  qed
  have "map fst a = map fst b" using shape [of a] shape [of b] pres [of a] pres [of b] eq [of "hd prepared_keys"] first by auto
  moreover have "distinct (map fst a)" using shape [of a] field_keys_distinct by auto
  moreover have "map_of a k = map_of b k" if "k \<in> set (map fst a)" for k
    using that shape [of a] eq [of k] by (metis Un_iff set_append)
  ultimately show "a = b" by (rule alist_eqI)
qed (simp add: bindingIdentical_def list_all_iff)

lemma postAttemptIdentical_eq [simp]: "postAttemptIdentical p q \<longleftrightarrow> p = q"
  by (cases p; cases q) (simp add: postAttemptIdentical_def)

lemma snapshot_binding_ok:
  "snapshotContainmentAudit sha v e t = Some a \<Longrightarrow> binding_ok sha e t (ca_binding a)"
  by (erule snapshot_parts) (blast dest: projectBinding_roundtrip)

lemma evidence_identical_eq:
  assumes "\<And>x. x = a \<or> x = b \<Longrightarrow> case x of None \<Rightarrow> True | Some y \<Rightarrow> \<exists>v e t. snapshotContainmentAudit sha v e t = Some y"
  shows "containmentEvidenceIdentical a b \<longleftrightarrow> a = b"
proof (cases "a = None \<or> b = None")
  case False
  then obtain x y where xy: "a = Some x" "b = Some y" by auto
  have "bindingIdentical (ca_binding x) (ca_binding y) \<longleftrightarrow> ca_binding x = ca_binding y"
    using assms [of a] assms [of b] xy by (auto simp: bindingIdentical_eq dest!: snapshot_binding_ok)
  then show ?thesis
    unfolding xy by (cases x; cases y) (auto simp: containmentEvidenceIdentical_def split: option.splits)
qed (cases a; cases b; auto simp: containmentEvidenceIdentical_def)

text \<open>
  C19. Evidence survives storage: a validated record, written as JSON and read back after a restart, is accepted
  again and is the same; it names exactly the run it was validated for, and in its prepared form the binding
  digest is the digest of the stored facts, so evidence of one run is never attributed to another.
\<close>

theorem stored_evidence_reads_back:
  assumes "snapshotContainmentAudit sha v e t = Some a"
  shows "snapshotContainmentAudit sha (audit_json a) e t = Some a \<and>
    field (ca_binding a) ''executionId'' = e \<and> field (ca_binding a) ''taskRunId'' = t \<and>
    (map fst (ca_binding a) = binding_keys \<or>
     map fst (ca_binding a) = prepared_keys @ binding_keys \<and> e = t \<and>
       containmentBindingDigest sha (ca_binding a) = field (ca_binding a) ''containmentBindingDigest'')"
  using snapshot_json [OF assms] snapshot_binding_ok [OF assms] by (simp add: binding_ok_def)

definition example_evidence :: json where
  "example_evidence = JObj [(''schemaVersion'', JStr containment_audit_schema),
     (''binding'', JObj (map (\<lambda>(k, s). (k, JStr s)) (zip (binding_keys @ prepared_keys)
       [''r1'', ''r1'', ''pol'', ''1'', replicate 64 CHR ''a'', replicate 64 CHR ''b'', ''prov'', ''model x'', replicate 64 CHR ''c'',
        replicate 64 CHR ''d'', ''NONE'', ''1'', replicate 64 CHR ''e'', replicate 64 CHR ''f'', ''v1'', replicate 64 CHR ''0'',
        replicate 64 CHR ''1'', ''VERIFIED'', ''VERIFIED_AT_BIND'', replicate 64 CHR ''2'', ''sp'', replicate 64 CHR ''3'',
        ''a1'', ''b1''])))]"

lemma example_evidence_valid:
  "map_option ca_post (snapshotContainmentAudit (\<lambda>_ _. replicate 64 CHR ''b'') example_evidence ''r1'' ''r1'') = Some None"
  by code_simp

theorem stored_evidence_reads_back_witness:
  "\<exists>a. snapshotContainmentAudit (\<lambda>_ _. replicate 64 CHR ''b'') (audit_json a) ''r1'' ''r1'' = Some a"
proof -
  obtain a where a: "snapshotContainmentAudit (\<lambda>_ _. replicate 64 CHR ''b'') example_evidence ''r1'' ''r1'' = Some a"
    using example_evidence_valid by (auto simp: map_option_eq_Some)
  show ?thesis using stored_evidence_reads_back [OF a] by blast
qed

end
