(* ===== verification/Work_Handoffs.thy ===== *)
theory Work_Handoffs
  imports Domain_Model
begin

text \<open>
  Handoffs of work between agent profiles: \<open>domain/agent-profile.ts\<close>,
  \<open>application/agent-profile-registry.ts\<close>, \<open>domain/work-handoff.ts\<close>,
  \<open>application/work-handoff-manager.ts\<close> (under \<open>packages/core/src\<close>) and the insert-only
  \<open>SqliteWorkHandoffRepository\<close> of \<open>packages/storage-sqlite/src/index.ts\<close>. The inputs have their declared
  types, so the \<open>typeof\<close> and \<open>Array.isArray\<close> guards are always passed.
\<close>

section \<open>Agent profiles\<close>

datatype handoff_error =
  Non_empty string | Too_long string | Invalid_profile string | Same_profiles | Bad_resource_ref
  | Unknown_profile | Invalid_configuration string | Duplicate_profile js_string
  | Work_item_missing js_string | Artifact_missing js_string | Receipt_missing js_string
  | Idempotency_conflict | Row_exists

definition max_agent_profile_text :: nat where "max_agent_profile_text = 128"
definition max_agent_profile_purpose :: nat where "max_agent_profile_purpose = 1024"
definition max_agent_profile_instructions :: nat where "max_agent_profile_instructions = 16384"

text \<open>The codes of \<open>.\<close>, \<open>_\<close>, \<open>:\<close> and \<open>-\<close>.\<close>

definition isAgentProfileId :: "js_string \<Rightarrow> bool" where
  "isAgentProfileId s = ident_text [46, 95, 58, 45] (map unat s)"

record agent_profile =
  ap_id :: js_string
  ap_display_name :: js_string
  ap_role :: js_string
  ap_purpose :: js_string
  ap_instructions :: js_string

definition control_char :: "16 word \<Rightarrow> bool" where
  "control_char u \<longleftrightarrow> u \<le> 8 \<or> u = 0xB \<or> u = 0xC \<or> (0xE \<le> u \<and> u \<le> 0x1F) \<or> u = 0x7F"

definition requireBoundedText :: "string \<Rightarrow> nat \<Rightarrow> js_string \<Rightarrow> handoff_error + js_string" where
  "requireBoundedText field maximum v =
     (if js_trim v = [] \<or> length v > maximum \<or> list_ex control_char v then Inl (Invalid_configuration field) else Inr v)"

definition immutableProfile :: "agent_profile \<Rightarrow> handoff_error + agent_profile" where
  "immutableProfile p =
     err_bind (guard_err (Invalid_configuration ''id'') (isAgentProfileId (ap_id p))) (\<lambda>_.
     err_bind (requireBoundedText ''displayName'' max_agent_profile_text (ap_display_name p)) (\<lambda>d.
     err_bind (requireBoundedText ''role'' max_agent_profile_text (ap_role p)) (\<lambda>r.
     err_bind (requireBoundedText ''purpose'' max_agent_profile_purpose (ap_purpose p)) (\<lambda>u.
     err_bind (requireBoundedText ''instructions'' max_agent_profile_instructions (ap_instructions p)) (\<lambda>i.
       Inr \<lparr>ap_id = ap_id p, ap_display_name = d, ap_role = r, ap_purpose = u, ap_instructions = i\<rparr>)))))"

text \<open>The constructor: \<open>map\<close> with the set of seen ids, then \<open>sort\<close> (UTF-16 order of the ids).\<close>

fun collect_profiles :: "js_string list \<Rightarrow> agent_profile list \<Rightarrow> handoff_error + agent_profile list" where
  "collect_profiles seen [] = Inr []"
| "collect_profiles seen (p # ps) =
     err_bind (immutableProfile p) (\<lambda>q.
       if ap_id q \<in> set seen then Inl (Duplicate_profile (ap_id q))
       else err_bind (collect_profiles (ap_id q # seen) ps) (\<lambda>qs. Inr (q # qs)))"

definition agent_registry :: "agent_profile list \<Rightarrow> handoff_error + agent_profile list" where
  "agent_registry ps = err_bind (collect_profiles [] ps) (\<lambda>qs. Inr (sort_key ap_id qs))"

definition get_profile :: "agent_profile list \<Rightarrow> js_string \<Rightarrow> handoff_error + agent_profile" where
  "get_profile reg i = (case select ap_id reg i of None \<Rightarrow> Inl Unknown_profile | Some p \<Rightarrow> Inr p)"

section \<open>Handoffs\<close>

definition max_handoff_objective :: nat where "max_handoff_objective = 2000"

record work_handoff =
  wh_id :: js_string
  wh_work_item :: js_string
  wh_from :: js_string
  wh_to :: js_string
  wh_objective :: js_string
  wh_refs :: "resource_ref list"
  wh_artifacts :: "js_string list"
  wh_receipts :: "js_string list"
  wh_created_at :: js_string

definition requireText :: "string \<Rightarrow> nat option \<Rightarrow> js_string \<Rightarrow> handoff_error + js_string" where
  "requireText field maximum v =
     (if js_trim v = [] then Inl (Non_empty field)
      else if (case maximum of None \<Rightarrow> False | Some m \<Rightarrow> length (js_trim v) > m) then Inl (Too_long field)
      else Inr (js_trim v))"

definition uniqueIds :: "string \<Rightarrow> js_string list \<Rightarrow> handoff_error + js_string list" where
  "uniqueIds field vs = err_bind (traverse (requireText field None) vs) (\<lambda>ids. Inr (dedup_by id [] ids))"

definition copy_ref :: "resource_ref \<Rightarrow> handoff_error + resource_ref" where
  "copy_ref r = (case mk_resource_ref r of None \<Rightarrow> Inl Bad_resource_ref | Some c \<Rightarrow> Inr c)"

definition uniqueImmutableResourceRefs :: "resource_ref list \<Rightarrow> handoff_error + resource_ref list" where
  "uniqueImmutableResourceRefs vs = err_bind (traverse copy_ref vs) (\<lambda>refs. Inr (dedup_by identity_of [] refs))"

definition createWorkHandoff :: "work_handoff \<Rightarrow> handoff_error + work_handoff" where
  "createWorkHandoff h =
     err_bind (requireText ''id'' None (wh_id h)) (\<lambda>i.
     err_bind (requireText ''workItemId'' None (wh_work_item h)) (\<lambda>w.
     err_bind (guard_err (Invalid_profile ''from'') (isAgentProfileId (wh_from h))) (\<lambda>_.
     err_bind (guard_err (Invalid_profile ''to'') (isAgentProfileId (wh_to h))) (\<lambda>_.
     err_bind (guard_err Same_profiles (wh_from h \<noteq> wh_to h)) (\<lambda>_.
     err_bind (requireText ''objective'' (Some max_handoff_objective) (wh_objective h)) (\<lambda>obj.
     err_bind (uniqueImmutableResourceRefs (wh_refs h)) (\<lambda>refs.
     err_bind (uniqueIds ''artifactIds'' (wh_artifacts h)) (\<lambda>arts.
     err_bind (uniqueIds ''executionReceiptIds'' (wh_receipts h)) (\<lambda>recs.
     err_bind (requireText ''createdAt'' None (wh_created_at h)) (\<lambda>at.
       Inr \<lparr>wh_id = i, wh_work_item = w, wh_from = wh_from h, wh_to = wh_to h, wh_objective = obj, wh_refs = refs,
         wh_artifacts = arts, wh_receipts = recs, wh_created_at = at\<rparr>))))))))))"

section \<open>The repository\<close>

text \<open>The table, and the rows of the others the manager looks up.\<close>

record handoff_db =
  hd_rows :: "work_handoff list"
  hd_items :: "work_item list"
  hd_artifacts :: "js_string list"
  hd_receipts :: "js_string list"

definition insert_handoff :: "handoff_db \<Rightarrow> work_handoff \<Rightarrow> handoff_error + (handoff_db \<times> work_handoff)" where
  "insert_handoff db h =
     err_bind (createWorkHandoff h) (\<lambda>im.
       if wh_id im \<in> wh_id ` set (hd_rows db) then Inl Row_exists
       else Inr (db\<lparr>hd_rows := hd_rows db @ [im]\<rparr>, im))"

definition get_handoff :: "handoff_db \<Rightarrow> js_string \<Rightarrow> handoff_error + work_handoff option" where
  "get_handoff db i = (case select wh_id (hd_rows db) i of
       None \<Rightarrow> Inr None
     | Some row \<Rightarrow> err_bind (createWorkHandoff row) (\<lambda>h. Inr (Some h)))"

text \<open>\<open>ORDER BY created_at, id\<close>: UTF-8 texts compare as their code points.\<close>

definition listBy_handoff :: "(work_handoff \<Rightarrow> js_string) \<Rightarrow> handoff_db \<Rightarrow> js_string \<Rightarrow> handoff_error + work_handoff list" where
  "listBy_handoff column db v = traverse createWorkHandoff
     (sort_key (\<lambda>h. code_points (wh_created_at h)) (sort_key (\<lambda>h. code_points (wh_id h))
       (filter (\<lambda>h. column h = v) (hd_rows db))))"

section \<open>The manager\<close>

record create_handoff =
  ch_work_item :: js_string
  ch_from :: js_string
  ch_to :: js_string
  ch_objective :: js_string
  ch_refs :: "resource_ref list"
  ch_artifacts :: "js_string list"
  ch_receipts :: "js_string list"

definition validateRequest :: "create_handoff \<Rightarrow> handoff_error + unit" where
  "validateRequest r =
     err_bind (guard_err (Non_empty ''objective'') (js_trim (ch_objective r) \<noteq> [])) (\<lambda>_.
     err_bind (guard_err (Too_long ''objective'') (length (js_trim (ch_objective r)) \<le> max_handoff_objective)) (\<lambda>_.
     err_bind (guard_err (Non_empty ''workItemId'') (js_trim (ch_work_item r) \<noteq> [])) (\<lambda>_.
     err_bind (guard_err (Invalid_profile ''from'') (isAgentProfileId (ch_from r))) (\<lambda>_.
     err_bind (guard_err (Invalid_profile ''to'') (isAgentProfileId (ch_to r))) (\<lambda>_.
     guard_err (Non_empty ''reference ids'') (list_all (\<lambda>i. js_trim i \<noteq> []) (ch_artifacts r @ ch_receipts r)))))))"

fun all_present :: "('a \<Rightarrow> 'e) \<Rightarrow> 'a list \<Rightarrow> 'a list \<Rightarrow> 'e + unit" where
  "all_present err present [] = Inr ()"
| "all_present err present (x # xs) = (if x \<in> set present then all_present err present xs else Inl (err x))"

definition buildCanonical ::
  "agent_profile list \<Rightarrow> handoff_db \<Rightarrow> create_handoff \<Rightarrow> js_string \<Rightarrow> js_string \<Rightarrow> handoff_error + work_handoff" where
  "buildCanonical reg db r i ts =
     err_bind (validateRequest r) (\<lambda>_.
     (case select wi_id (hd_items db) (ch_work_item r) of
        None \<Rightarrow> Inl (Work_item_missing (ch_work_item r))
      | Some item \<Rightarrow>
     err_bind (get_profile reg (ch_from r)) (\<lambda>_.
     err_bind (get_profile reg (ch_to r)) (\<lambda>_.
     err_bind (guard_err Same_profiles (ch_from r \<noteq> ch_to r)) (\<lambda>_.
       let arts = dedup_by id [] (ch_artifacts r); recs = dedup_by id [] (ch_receipts r) in
     err_bind (all_present Artifact_missing (hd_artifacts db) arts) (\<lambda>_.
     err_bind (all_present Receipt_missing (hd_receipts db) recs) (\<lambda>_.
       createWorkHandoff \<lparr>wh_id = i, wh_work_item = wi_id item, wh_from = ch_from r, wh_to = ch_to r,
         wh_objective = ch_objective r, wh_refs = ch_refs r, wh_artifacts = arts, wh_receipts = recs,
         wh_created_at = ts\<rparr>)))))))"

definition create_work_handoff ::
  "agent_profile list \<Rightarrow> handoff_db \<Rightarrow> create_handoff \<Rightarrow> js_string \<Rightarrow> js_string \<Rightarrow> handoff_error + (handoff_db \<times> work_handoff)" where
  "create_work_handoff reg db r i ts = err_bind (buildCanonical reg db r i ts) (\<lambda>h. insert_handoff db h)"

definition requireSemanticEquality :: "work_handoff \<Rightarrow> work_handoff \<Rightarrow> handoff_error + work_handoff" where
  "requireSemanticEquality existing candidate =
     err_bind (createWorkHandoff existing) (\<lambda>canonical.
       if canonical \<noteq> candidate then Inl Idempotency_conflict else Inr canonical)"

text \<open>
  \<open>recordIdempotent\<close> waits between its look-up, its insertion and its second look-up; other writers may run
  there, so each of the three sees a database of its own. The result is the database after the insertion
  (unchanged when it did not happen) and the value.
\<close>

definition recordIdempotent ::
  "agent_profile list \<Rightarrow> handoff_db \<Rightarrow> handoff_db \<Rightarrow> handoff_db \<Rightarrow> create_handoff \<Rightarrow> js_string \<Rightarrow> js_string \<Rightarrow>
   handoff_db \<times> (handoff_error + work_handoff)" where
  "recordIdempotent reg db1 db2 db3 r i ts =
     (case buildCanonical reg db1 r i ts of
        Inl e \<Rightarrow> (db2, Inl e)
      | Inr candidate \<Rightarrow>
          (case get_handoff db1 (wh_id candidate) of
             Inl e \<Rightarrow> (db2, Inl e)
           | Inr (Some existing) \<Rightarrow> (db2, requireSemanticEquality existing candidate)
           | Inr None \<Rightarrow>
               (case insert_handoff db2 candidate of
                  Inr (db', h) \<Rightarrow> (db', Inr h)
                | Inl e \<Rightarrow>
                    (db2, case get_handoff db3 (wh_id candidate) of
                       Inl e' \<Rightarrow> Inl e'
                     | Inr None \<Rightarrow> Inl e
                     | Inr (Some concurrent) \<Rightarrow> requireSemanticEquality concurrent candidate))))"

section \<open>Normal forms\<close>

lemma requireText_Inr: "requireText field m v = Inr t \<Longrightarrow> t = js_trim v \<and> requireText field m t = Inr t"
  by (cases m) (auto simp: requireText_def split: if_splits)

lemma copy_ref_Inr: "copy_ref r = Inr c \<Longrightarrow> copy_ref c = Inr c"
  by (auto simp: copy_ref_def mk_resource_ref_def requireIdentityPart_def split: option.splits if_splits)

text \<open>Normalising a list and dropping duplicates: what comes out is left alone.\<close>

lemma unique_normal:
  assumes "\<And>x y. f x = Inr y \<Longrightarrow> f y = Inr y" "err_bind (traverse f vs) (\<lambda>ys. Inr (dedup_by g [] ys)) = Inr zs"
  shows "err_bind (traverse f zs) (\<lambda>ys. Inr (dedup_by g [] ys)) = Inr zs"
proof -
  obtain ys where ys: "list_all2 (\<lambda>x y. f x = Inr y) vs ys" and zs: "zs = dedup_by g [] ys"
    using assms(2) by (auto simp: err_bind_Inr_iff traverse_Inr)
  have "f y = Inr y" if "y \<in> set ys" for y
    using that ys assms(1) by (auto simp: list_all2_conv_all_nth in_set_conv_nth)
  then have "traverse f zs = Inr zs" unfolding zs by (intro traverse_id) (use dedup_by_subset in fastforce)
  moreover have "dedup_by g [] zs = zs" unfolding zs by (intro dedup_by_id dedup_by_distinct) simp
  ultimately show ?thesis by simp
qed

lemma uniqueIds_idem: "uniqueIds field vs = Inr ids \<Longrightarrow> uniqueIds field ids = Inr ids"
  unfolding uniqueIds_def by (rule unique_normal) (use requireText_Inr in blast)+

lemma unique_refs_idem: "uniqueImmutableResourceRefs vs = Inr refs \<Longrightarrow> uniqueImmutableResourceRefs refs = Inr refs"
  unfolding uniqueImmutableResourceRefs_def by (rule unique_normal) (use copy_ref_Inr in blast)+

lemma createWorkHandoff_Inr:
  assumes "createWorkHandoff h = Inr c"
  shows "createWorkHandoff c = Inr c" "wh_from c \<noteq> wh_to c" "wh_id c = js_trim (wh_id h)" "length (wh_objective c) \<le> 2000"
proof -
  obtain i w obj refs arts recs at where
    parts: "requireText ''id'' None (wh_id h) = Inr i" "requireText ''workItemId'' None (wh_work_item h) = Inr w"
      "requireText ''objective'' (Some max_handoff_objective) (wh_objective h) = Inr obj"
      "uniqueImmutableResourceRefs (wh_refs h) = Inr refs" "uniqueIds ''artifactIds'' (wh_artifacts h) = Inr arts"
      "uniqueIds ''executionReceiptIds'' (wh_receipts h) = Inr recs" "requireText ''createdAt'' None (wh_created_at h) = Inr at"
    and ok: "isAgentProfileId (wh_from h)" "isAgentProfileId (wh_to h)" "wh_from h \<noteq> wh_to h"
    and c: "c = \<lparr>wh_id = i, wh_work_item = w, wh_from = wh_from h, wh_to = wh_to h, wh_objective = obj, wh_refs = refs,
         wh_artifacts = arts, wh_receipts = recs, wh_created_at = at\<rparr>"
    using assms by (auto simp: createWorkHandoff_def err_bind_Inr_iff)
  note normal = parts(1,2,3,7) [THEN requireText_Inr, THEN conjunct2] parts(4) [THEN unique_refs_idem]
    parts(5,6) [THEN uniqueIds_idem]
  show "createWorkHandoff c = Inr c" by (simp add: createWorkHandoff_def c ok normal)
  show "wh_from c \<noteq> wh_to c" using ok by (simp add: c)
  show "wh_id c = js_trim (wh_id h)" using requireText_Inr [OF parts(1)] by (simp add: c)
  show "length (wh_objective c) \<le> 2000"
    using parts(3) by (auto simp: c requireText_def max_handoff_objective_def split: if_splits)
qed

definition canonical :: "work_handoff \<Rightarrow> bool" where
  "canonical h \<longleftrightarrow> createWorkHandoff h = Inr h"

lemma canonicalD: "canonical h \<Longrightarrow> createWorkHandoff h = Inr h"
  by (simp add: canonical_def)

lemma buildCanonical_canonical: "buildCanonical reg db r i ts = Inr c \<Longrightarrow> canonical c"
  by (auto simp: buildCanonical_def err_bind_Inr_iff Let_def canonical_def dest: createWorkHandoff_Inr split: option.splits)

section \<open>Every way the table changes\<close>

definition handoff_inv :: "handoff_db \<Rightarrow> bool" where
  "handoff_inv db \<longleftrightarrow> distinct (map wh_id (hd_rows db)) \<and> (\<forall>h\<in>set (hd_rows db). canonical h)"

text \<open>A recording call may have looked up any earlier state; the other tables change freely.\<close>

inductive handoff_step :: "agent_profile list \<Rightarrow> handoff_db \<Rightarrow> handoff_db \<Rightarrow> bool" for reg where
  created: "create_work_handoff reg db r i ts = Inr (db', h) \<Longrightarrow> handoff_step reg db db'"
| recorded: "recordIdempotent reg before db after r i ts = (db', res) \<Longrightarrow> handoff_step reg db db'"
| world: "handoff_step reg db (db\<lparr>hd_items := items, hd_artifacts := arts, hd_receipts := recs\<rparr>)"

definition no_handoffs :: handoff_db where
  "no_handoffs = \<lparr>hd_rows = [], hd_items = [], hd_artifacts = [], hd_receipts = []\<rparr>"

definition handoffs_reachable :: "agent_profile list \<Rightarrow> handoff_db \<Rightarrow> bool" where
  "handoffs_reachable reg db \<longleftrightarrow> (handoff_step reg)\<^sup>*\<^sup>* no_handoffs db"

lemma insert_handoff_Inr:
  assumes "insert_handoff db h = Inr (db', c)"
  shows "canonical c \<and> db' = db\<lparr>hd_rows := hd_rows db @ [c]\<rparr> \<and> wh_id c \<notin> wh_id ` set (hd_rows db)"
  using assms by (auto simp: insert_handoff_def err_bind_Inr_iff canonical_def dest: createWorkHandoff_Inr split: if_splits)

lemma insert_canonical:
  "canonical c \<Longrightarrow> insert_handoff db c =
     (if wh_id c \<in> wh_id ` set (hd_rows db) then Inl Row_exists else Inr (db\<lparr>hd_rows := hd_rows db @ [c]\<rparr>, c))"
  by (simp add: insert_handoff_def canonical_def)

lemma get_handoff_canonical: "handoff_inv db \<Longrightarrow> get_handoff db i = Inr (select wh_id (hd_rows db) i)"
  by (auto simp: get_handoff_def handoff_inv_def canonical_def dest: select_SomeD split: option.splits)

lemma recordIdempotent_db:
  "recordIdempotent reg before db after r i ts = (db', res) \<Longrightarrow>
   db' = db \<or> (\<exists>c h. insert_handoff db c = Inr (db', h))"
  by (auto simp: recordIdempotent_def split: sum.splits option.splits prod.splits)

lemma handoff_step_rows:
  assumes "handoff_step reg db db'"
  shows "hd_rows db' = hd_rows db \<or>
    (\<exists>c. canonical c \<and> hd_rows db' = hd_rows db @ [c] \<and> wh_id c \<notin> wh_id ` set (hd_rows db))"
proof -
  have new: "\<exists>c. canonical c \<and> hd_rows db' = hd_rows db @ [c] \<and> wh_id c \<notin> wh_id ` set (hd_rows db)"
    if "insert_handoff db h = Inr (db', c)" for h c
    using insert_handoff_Inr [OF that] by (intro exI [of _ c]) simp
  from assms show ?thesis
  proof cases
    case (created r i ts h)
    then show ?thesis using new by (auto simp: create_work_handoff_def err_bind_Inr_iff)
  next
    case (recorded before after r i ts res)
    then show ?thesis using recordIdempotent_db [OF recorded] new by auto
  qed simp
qed

lemma handoff_step_inv: "handoff_step reg db db' \<Longrightarrow> handoff_inv db \<Longrightarrow> handoff_inv db'"
  using handoff_step_rows [of reg db db'] by (auto simp: handoff_inv_def)

lemma handoff_steps_grow:
  "(handoff_step reg)\<^sup>*\<^sup>* db db' \<Longrightarrow> handoff_inv db \<Longrightarrow> handoff_inv db' \<and> (\<exists>zs. hd_rows db' = hd_rows db @ zs)"
proof (induction rule: rtranclp_induct)
  case (step y z)
  then show ?case using handoff_step_rows [OF step.hyps(2)] handoff_step_inv by fastforce
qed simp

lemma handoffs_reachable_inv: "handoffs_reachable reg db \<Longrightarrow> handoff_inv db"
  unfolding handoffs_reachable_def using handoff_steps_grow [of reg no_handoffs db]
  by (auto simp: handoff_inv_def no_handoffs_def)

lemma select_append: "select f (xs @ ys) k = (case select f xs k of None \<Rightarrow> select f ys k | Some r \<Rightarrow> Some r)"
  by (induction xs) auto

text \<open>A recorded handoff is permanent: in every later state each row is where it was, ids are unique, and every
  row is in normal form, from one agent profile to another.
\<close>

theorem handoffs_never_change:
  assumes "handoffs_reachable reg db" "(handoff_step reg)\<^sup>*\<^sup>* db db'"
  shows "\<exists>new. hd_rows db' = hd_rows db @ new \<and> distinct (map wh_id (hd_rows db')) \<and>
    (\<forall>h\<in>set (hd_rows db'). createWorkHandoff h = Inr h \<and> wh_from h \<noteq> wh_to h \<and> length (wh_objective h) \<le> 2000)"
proof -
  note g = handoff_steps_grow [OF assms(2) handoffs_reachable_inv [OF assms(1)]]
  have "createWorkHandoff h = Inr h \<and> wh_from h \<noteq> wh_to h \<and> length (wh_objective h) \<le> 2000" if "h \<in> set (hd_rows db')" for h
    using g that createWorkHandoff_Inr [of h h] by (simp add: handoff_inv_def canonical_def)
  with g show ?thesis by (auto simp: handoff_inv_def)
qed

text \<open>
  C8. Recording is atomic: whatever other writers do between its look-up, its insertion and its second look-up,
  the call does what one indivisible compare-or-insert does: an absent id is inserted, the same content is
  returned without a write, another content under the id is the typed conflict.
\<close>

theorem record_is_atomic:
  assumes "handoffs_reachable reg db1" "(handoff_step reg)\<^sup>*\<^sup>* db1 db2" "(handoff_step reg)\<^sup>*\<^sup>* db2 db3"
    "buildCanonical reg db1 r i ts = Inr c"
  shows "recordIdempotent reg db1 db2 db3 r i ts =
    (case select wh_id (hd_rows db2) (wh_id c) of
       None \<Rightarrow> (db2\<lparr>hd_rows := hd_rows db2 @ [c]\<rparr>, Inr c)
     | Some row \<Rightarrow> (db2, if row = c then Inr c else Inl Idempotency_conflict))"
proof -
  have c: "canonical c" using buildCanonical_canonical [OF assms(4)] .
  have inv1: "handoff_inv db1" using handoffs_reachable_inv [OF assms(1)] .
  note g2 = handoff_steps_grow [OF assms(2) inv1]
  then have inv2: "handoff_inv db2" by blast
  note g3 = handoff_steps_grow [OF assms(3) inv2]
  then have inv3: "handoff_inv db3" by blast
  have req: "requireSemanticEquality row c = (if row = c then Inr c else Inl Idempotency_conflict)"
    if "select wh_id (hd_rows db) k = Some row" "handoff_inv db" for row db k
    using that by (auto simp: requireSemanticEquality_def handoff_inv_def canonical_def dest!: select_SomeD)
  have up2: "select wh_id (hd_rows db2) k = Some row" if "select wh_id (hd_rows db1) k = Some row" for k row
    using that g2 by (auto simp: select_append)
  have up3: "select wh_id (hd_rows db3) k = Some row" if "select wh_id (hd_rows db2) k = Some row" for k row
    using that g3 by (auto simp: select_append)
  show ?thesis
  proof (cases "select wh_id (hd_rows db2) (wh_id c)")
    case None
    then have n1: "select wh_id (hd_rows db1) (wh_id c) = None" using up2 by (cases "select wh_id (hd_rows db1) (wh_id c)") auto
    have "wh_id c \<notin> wh_id ` set (hd_rows db2)" using None by (simp add: select_None_iff)
    with None n1 show ?thesis
      by (simp add: recordIdempotent_def assms(4) get_handoff_canonical [OF inv1] insert_canonical [OF c])
  next
    case (Some row)
    then have dup: "wh_id c \<in> wh_id ` set (hd_rows db2)" by (metis imageI select_SomeD)
    show ?thesis
    proof (cases "select wh_id (hd_rows db1) (wh_id c)")
      case None
      with Some up3 [OF Some] dup req [OF Some inv2] show ?thesis
        by (simp add: recordIdempotent_def assms(4) get_handoff_canonical [OF inv1] get_handoff_canonical [OF inv3]
            insert_canonical [OF c])
    next
      case (Some row1)
      then have "row1 = row" using up2 \<open>select wh_id (hd_rows db2) (wh_id c) = Some row\<close> by fastforce
      with Some req [OF Some inv1] \<open>select wh_id (hd_rows db2) (wh_id c) = Some row\<close> show ?thesis
        by (simp add: recordIdempotent_def assms(4) get_handoff_canonical [OF inv1])
    qed
  qed
qed

section \<open>An example\<close>

definition example_profile :: "string \<Rightarrow> agent_profile" where
  "example_profile i = \<lparr>ap_id = js i, ap_display_name = js ''A'', ap_role = js ''r'', ap_purpose = js ''p'',
     ap_instructions = js ''x''\<rparr>"

definition example_profiles :: "agent_profile list" where
  "example_profiles = [example_profile ''dev'', example_profile ''ops'']"

definition example_world :: handoff_db where
  "example_world = no_handoffs\<lparr>hd_items := [\<lparr>wi_id = js ''w1'', wi_actor = ''me'', wi_project = None, wi_title = None,
     wi_refs = [], wi_status = W_ACTIVE, wi_origin = From_conversation, wi_created_at = Canon 0, wi_updated_at = Canon 0\<rparr>]\<rparr>"

definition example_handoff_request :: "string \<Rightarrow> create_handoff" where
  "example_handoff_request obj = \<lparr>ch_work_item = js ''w1'', ch_from = js ''dev'', ch_to = js ''ops'', ch_objective = js obj,
     ch_refs = [], ch_artifacts = [], ch_receipts = []\<rparr>"

definition example_handoff :: "string \<Rightarrow> work_handoff" where
  "example_handoff obj = \<lparr>wh_id = js ''h1'', wh_work_item = js ''w1'', wh_from = js ''dev'', wh_to = js ''ops'',
     wh_objective = js obj, wh_refs = [], wh_artifacts = [], wh_receipts = [], wh_created_at = js ''t''\<rparr>"

lemma example_registry: "agent_registry example_profiles = Inr example_profiles"
  by code_simp

lemma example_build:
  "buildCanonical example_profiles example_world (example_handoff_request '' ship '') (js ''h1'') (js ''t'') = Inr (example_handoff ''ship'')"
  by code_simp

lemma example_build_other:
  "buildCanonical example_profiles (example_world\<lparr>hd_rows := [example_handoff ''ship'']\<rparr>) (example_handoff_request ''other'') (js ''h1'') (js ''t'')
     = Inr (example_handoff ''other'')"
  by code_simp

lemma example_world_reachable: "handoffs_reachable example_profiles example_world"
  using handoff_step.world [where reg = example_profiles and db = no_handoffs and items = "hd_items example_world"
    and arts = "[]" and recs = "[]"]
  by (auto simp: handoffs_reachable_def example_world_def no_handoffs_def)

lemma example_recorded:
  "handoff_step example_profiles example_world (example_world\<lparr>hd_rows := [example_handoff ''ship'']\<rparr>)"
proof (rule handoff_step.created)
  show "create_work_handoff example_profiles example_world (example_handoff_request '' ship '') (js ''h1'') (js ''t'')
    = Inr (example_world\<lparr>hd_rows := [example_handoff ''ship'']\<rparr>, example_handoff ''ship'')"
    by code_simp
qed

lemma example_recorded_reachable:
  "handoffs_reachable example_profiles (example_world\<lparr>hd_rows := [example_handoff ''ship'']\<rparr>)"
  using example_world_reachable example_recorded unfolding handoffs_reachable_def by (rule rtranclp.rtrancl_into_rtrancl)

theorem handoffs_never_change_witness:
  "\<exists>new. [example_handoff ''ship''] = hd_rows example_world @ new \<and> createWorkHandoff (example_handoff ''ship'') = Inr (example_handoff ''ship'')"
  using handoffs_never_change [OF example_world_reachable r_into_rtranclp [of "handoff_step example_profiles", OF example_recorded]] by auto

text \<open>Another request under the id of a recorded handoff is refused.\<close>

theorem record_is_atomic_witness:
  "snd (recordIdempotent example_profiles (example_world\<lparr>hd_rows := [example_handoff ''ship'']\<rparr>)
     (example_world\<lparr>hd_rows := [example_handoff ''ship'']\<rparr>) (example_world\<lparr>hd_rows := [example_handoff ''ship'']\<rparr>)
     (example_handoff_request ''other'') (js ''h1'') (js ''t'')) = Inl Idempotency_conflict"
  using record_is_atomic [OF example_recorded_reachable rtranclp.rtrancl_refl rtranclp.rtrancl_refl example_build_other]
  by (simp add: example_handoff_def js_def)

end
