(* ===== verification/Governance.thy ===== *)
theory Governance
  imports Domain_Model
begin

text \<open>
  Risk and approval: \<open>risk-policy.ts\<close>, \<open>approval-policy.ts\<close>, \<open>approval-manager.ts\<close> (under
  \<open>packages/core/src/application\<close>) and the approvals table (\<open>SqliteApprovalRepository\<close> in
  \<open>packages/storage-sqlite/src/index.ts\<close>). \<open>newId()\<close> and \<open>now()\<close> are arguments. The command
  patterns of \<open>assessCommand\<close> are in \<open>Command_Execution\<close>.
\<close>

section \<open>Policies\<close>

fun capability_risk :: "capability \<Rightarrow> risk_level" where
  "capability_risk CODE_IMPLEMENTATION = HIGH"
| "capability_risk TEST_EXECUTION = MEDIUM"
| "capability_risk c = LOW"

definition requiresApproval :: "risk_level \<Rightarrow> bool" where
  "requiresApproval level \<longleftrightarrow> level = HIGH \<or> level = CRITICAL"

text \<open>\<open>max\<close>: \<open>order.indexOf\<close> is \<open>risk_index\<close>.\<close>

definition max_risk :: "risk_level list \<Rightarrow> risk_level" where
  "max_risk levels = foldl (\<lambda>acc l. if risk_index l > risk_index acc then l else acc) LOW levels"

record approval_evaluation =
  ev_requires :: bool
  ev_reason :: js_string
  ev_risk :: risk_level
  ev_requested_by :: js_string

definition risk_name :: "risk_level \<Rightarrow> string" where
  "risk_name l = (case l of LOW \<Rightarrow> ''LOW'' | MEDIUM \<Rightarrow> ''MEDIUM'' | HIGH \<Rightarrow> ''HIGH'' | CRITICAL \<Rightarrow> ''CRITICAL'')"

definition evaluate :: "execution_plan \<Rightarrow> js_string \<Rightarrow> approval_evaluation" where
  "evaluate plan requestedBy =
     (let riskLevel = ep_overall_risk plan; req = requiresApproval riskLevel in
      \<lparr>ev_requires = req,
       ev_reason = (if req then js (risk_name riskLevel @ '' risk requires human approval'')
         else js (risk_name riskLevel @ '' risk is auto-approved (no human approval required)'')),
       ev_risk = riskLevel, ev_requested_by = requestedBy\<rparr>)"

section \<open>The approval manager\<close>

type_synonym approvals = "approval_request list"

datatype approval_error =
  APPROVAL_NOT_FOUND Id | APPROVAL_ALREADY_DECIDED Id approval_status
  | APPROVAL_CANNOT_BE_REVOKED Id approval_status | REASON_REQUIRED | REQUESTED_BY_REQUIRED | RISK_TOO_LOW

definition save_approval :: "approval_request \<Rightarrow> approvals \<Rightarrow> approvals" where
  "save_approval r rows = upsert ar_id r rows"

definition get_approval :: "approvals \<Rightarrow> Id \<Rightarrow> approval_request option" where
  "get_approval rows i = select ar_id rows i"

definition findByExecutionPlan :: "approvals \<Rightarrow> Id \<Rightarrow> approval_request list" where
  "findByExecutionPlan rows plan = filter (\<lambda>r. pr_id (ar_plan r) = plan) rows"

definition requestFor ::
  "approvals \<Rightarrow> execution_plan \<Rightarrow> js_string \<Rightarrow> Id \<Rightarrow> iso \<Rightarrow> approvals \<times> approval_request" where
  "requestFor rows plan requestedBy i ts =
     (let e = evaluate plan requestedBy; auto = \<not> ev_requires e;
          r = \<lparr>ar_id = i, ar_plan = executionPlanRef plan,
               ar_status = (if auto then A_APPROVED else A_PENDING), ar_risk = ev_risk e,
               ar_reason = ev_reason e, ar_requested_by = requestedBy,
               ar_decision = (if auto then Some True else None),
               ar_decided_by = (if auto then Some (js ''system'') else None),
               ar_decided_at = (if auto then Some ts else None),
               ar_comment = None, ar_task = None, ar_created_at = ts, ar_updated_at = ts\<rparr> in
      (save_approval r rows, r))"

text \<open>\<open>...(decision.comment ? { comment } : {})\<close>: an absent or empty comment leaves the stored one.\<close>

definition truthy_text :: "js_string option \<Rightarrow> js_string option" where
  "truthy_text c = (case c of None \<Rightarrow> None | Some t \<Rightarrow> if t = [] then None else Some t)"

definition decide ::
  "approvals \<Rightarrow> Id \<Rightarrow> approval_decision \<Rightarrow> iso \<Rightarrow> approval_error + (approvals \<times> approval_request)" where
  "decide rows i d ts = (case get_approval rows i of
       None \<Rightarrow> Inl (APPROVAL_NOT_FOUND i)
     | Some r \<Rightarrow>
         if ar_status r \<noteq> A_PENDING then Inl (APPROVAL_ALREADY_DECIDED i (ar_status r))
         else let u = r\<lparr>ar_status := (if ad_approved d then A_APPROVED else A_REJECTED),
                        ar_decision := Some (ad_approved d), ar_decided_by := Some (ad_decided_by d),
                        ar_decided_at := Some (ad_decided_at d),
                        ar_comment := (case truthy_text (ad_comment d) of None \<Rightarrow> ar_comment r | Some c \<Rightarrow> Some c),
                        ar_updated_at := ts\<rparr> in
              Inr (save_approval u rows, u))"

definition approval_revoked_comment :: js_string where
  "approval_revoked_comment = js ''revoked-before-execution''"

definition revoke ::
  "approvals \<Rightarrow> Id \<Rightarrow> approval_decision \<Rightarrow> iso \<Rightarrow> approval_error + (approvals \<times> approval_request)" where
  "revoke rows i d ts = (case get_approval rows i of
       None \<Rightarrow> Inl (APPROVAL_NOT_FOUND i)
     | Some r \<Rightarrow>
         if ar_status r \<noteq> A_APPROVED \<or> ad_approved d then Inl (APPROVAL_CANNOT_BE_REVOKED i (ar_status r))
         else let u = r\<lparr>ar_status := A_REJECTED, ar_decision := Some False,
                        ar_decided_by := Some (ad_decided_by d), ar_decided_at := Some (ad_decided_at d),
                        ar_comment := Some (case ad_comment d of None \<Rightarrow> approval_revoked_comment | Some c \<Rightarrow> c),
                        ar_updated_at := ts\<rparr> in
              Inr (save_approval u rows, u))"

definition requestForRisk ::
  "approvals \<Rightarrow> plan_ref \<Rightarrow> risk_level \<Rightarrow> js_string \<Rightarrow> js_string \<Rightarrow> Id \<Rightarrow> iso \<Rightarrow>
   approval_error + (approvals \<times> approval_request)" where
  "requestForRisk rows plan level reason requestedBy i ts =
     err_bind (guard_err REASON_REQUIRED (js_trim reason \<noteq> [])) (\<lambda>_.
     err_bind (guard_err REQUESTED_BY_REQUIRED (js_trim requestedBy \<noteq> [])) (\<lambda>_.
     err_bind (guard_err RISK_TOO_LOW (level = HIGH \<or> level = CRITICAL)) (\<lambda>_.
       let r = \<lparr>ar_id = i, ar_plan = plan, ar_status = A_PENDING, ar_risk = level, ar_reason = reason,
                ar_requested_by = requestedBy, ar_decision = None, ar_decided_by = None,
                ar_decided_at = None, ar_comment = None, ar_task = None, ar_created_at = ts,
                ar_updated_at = ts\<rparr> in
       Inr (save_approval r rows, r))))"

definition isApproved :: "approvals \<Rightarrow> Id \<Rightarrow> bool" where
  "isApproved rows plan = list_ex (\<lambda>r. ar_status r = A_APPROVED) (findByExecutionPlan rows plan)"

interpretation approvals_table: keyed_store get_approval save_approval ar_id
  by unfold_locales (simp add: get_approval_def save_approval_def select_upsert)

section \<open>Every way the table changes\<close>

text \<open>
  One call of the manager at a time (each ends in one write). \<open>gs_decisions\<close> records the human
  decisions the manager accepted, newest first: the approval, whether it was granted, and by whom.
\<close>

record governance =
  gs_rows :: approvals
  gs_decisions :: "(Id \<times> bool \<times> js_string) list"

inductive governance_step :: "governance \<Rightarrow> governance \<Rightarrow> bool" where
  ask: "i \<notin> ar_id ` set (gs_rows s) \<Longrightarrow> requestFor (gs_rows s) plan by i ts = (rows', r) \<Longrightarrow>
    governance_step s (s\<lparr>gs_rows := rows'\<rparr>)"
| ask_risk: "i \<notin> ar_id ` set (gs_rows s) \<Longrightarrow>
    requestForRisk (gs_rows s) plan level reason by i ts = Inr (rows', r) \<Longrightarrow>
    governance_step s (s\<lparr>gs_rows := rows'\<rparr>)"
| decided: "decide (gs_rows s) i d ts = Inr (rows', r) \<Longrightarrow>
    governance_step s (s\<lparr>gs_rows := rows', gs_decisions := (i, ad_approved d, ad_decided_by d) # gs_decisions s\<rparr>)"
| revoked: "revoke (gs_rows s) i d ts = Inr (rows', r) \<Longrightarrow>
    governance_step s (s\<lparr>gs_rows := rows', gs_decisions := (i, ad_approved d, ad_decided_by d) # gs_decisions s\<rparr>)"

inductive_cases governance_stepE: "governance_step s s'"

definition governance_start :: governance where
  "governance_start = \<lparr>gs_rows = [], gs_decisions = []\<rparr>"

definition governance_reachable :: "governance \<Rightarrow> bool" where
  "governance_reachable s \<longleftrightarrow> governance_step\<^sup>*\<^sup>* governance_start s"

text \<open>The last decision recorded for an approval.\<close>

definition last_decision :: "governance \<Rightarrow> Id \<Rightarrow> (bool \<times> js_string) option" where
  "last_decision s i = map_of (gs_decisions s) i"

definition approval_ok :: "governance \<Rightarrow> approval_request \<Rightarrow> bool" where
  "approval_ok s r \<longleftrightarrow> (case last_decision s (ar_id r) of
       None \<Rightarrow> ar_status r \<noteq> A_REJECTED \<and> (ar_status r = A_APPROVED \<longleftrightarrow> \<not> requiresApproval (ar_risk r)) \<and>
         (ar_status r = A_APPROVED \<longrightarrow> ar_decided_by r = Some (js ''system''))
     | Some (granted, by) \<Rightarrow> ar_status r = (if granted then A_APPROVED else A_REJECTED) \<and>
         ar_decision r = Some granted \<and> ar_decided_by r = Some by)"

definition governance_inv :: "governance \<Rightarrow> bool" where
  "governance_inv s \<longleftrightarrow> distinct (map ar_id (gs_rows s)) \<and>
     fst ` set (gs_decisions s) \<subseteq> ar_id ` set (gs_rows s) \<and>
     (\<forall>r\<in>set (gs_rows s). approval_ok s r)"

lemma decide_Inr:
  assumes "decide rows i d ts = Inr (rows', u)"
  obtains r where "get_approval rows i = Some r" "ar_status r = A_PENDING" "ar_id r = i" "rows' = save_approval u rows"
    "ar_id u = i" "ar_status u = (if ad_approved d then A_APPROVED else A_REJECTED)"
    "ar_decision u = Some (ad_approved d)" "ar_decided_by u = Some (ad_decided_by d)"
    "ar_risk u = ar_risk r" "ar_plan u = ar_plan r"
proof -
  from assms obtain r where r: "get_approval rows i = Some r" by (auto simp: decide_def split: option.splits)
  then have "ar_id r = i" by (auto simp: get_approval_def dest: select_SomeD)
  then show thesis using assms r that by (auto simp: decide_def Let_def split: if_splits)
qed

lemma revoke_Inr:
  assumes "revoke rows i d ts = Inr (rows', u)"
  obtains r where "get_approval rows i = Some r" "ar_status r = A_APPROVED" "ar_id r = i" "rows' = save_approval u rows"
    "ar_id u = i" "ar_status u = A_REJECTED" "\<not> ad_approved d" "ar_decision u = Some False"
    "ar_decided_by u = Some (ad_decided_by d)" "ar_risk u = ar_risk r" "ar_plan u = ar_plan r"
proof -
  from assms obtain r where r: "get_approval rows i = Some r" by (auto simp: revoke_def split: option.splits)
  then have "ar_id r = i" by (auto simp: get_approval_def dest: select_SomeD)
  then show thesis using assms r that by (auto simp: revoke_def Let_def split: if_splits)
qed

lemma requestFor_ok:
  assumes "requestFor rows plan by i ts = (rows', r)"
  shows "rows' = save_approval r rows \<and> ar_id r = i \<and> ar_status r \<noteq> A_REJECTED \<and>
    (ar_status r = A_APPROVED \<longleftrightarrow> \<not> requiresApproval (ar_risk r)) \<and>
    (ar_status r = A_APPROVED \<longrightarrow> ar_decided_by r = Some (js ''system'')) \<and>
    ar_risk r = ep_overall_risk plan \<and> ar_plan r = executionPlanRef plan"
  using assms by (cases "requiresApproval (ep_overall_risk plan)") (auto simp: requestFor_def evaluate_def Let_def)

lemma requestForRisk_ok:
  assumes "requestForRisk rows plan level reason by i ts = Inr (rows', r)"
  shows "rows' = save_approval r rows \<and> ar_id r = i \<and> ar_status r = A_PENDING \<and> requiresApproval (ar_risk r) \<and>
    ar_plan r = plan"
  using assms by (auto simp: requestForRisk_def err_bind_Inr_iff Let_def requiresApproval_def)

lemma save_approval_in_iff:
  "distinct (map ar_id rows) \<Longrightarrow> x \<in> set (save_approval r rows) \<longleftrightarrow> x = r \<or> (x \<in> set rows \<and> ar_id x \<noteq> ar_id r)"
  by (simp add: save_approval_def upsert_in_iff)

text \<open>A new row for a fresh id, without a decision, keeps the invariant.\<close>

lemma inv_new_row:
  assumes "governance_inv s" "ar_id r \<notin> ar_id ` set (gs_rows s)" "ar_status r \<noteq> A_REJECTED"
    "ar_status r = A_APPROVED \<longleftrightarrow> \<not> requiresApproval (ar_risk r)"
    "ar_status r = A_APPROVED \<longrightarrow> ar_decided_by r = Some (js ''system'')"
  shows "governance_inv (s\<lparr>gs_rows := save_approval r (gs_rows s)\<rparr>)"
proof -
  have "last_decision s (ar_id r) = None"
    using assms(1,2) by (auto simp: governance_inv_def last_decision_def map_of_eq_None_iff)
  then have "approval_ok (s\<lparr>gs_rows := rows\<rparr>) r" for rows
    using assms(3-5) by (simp add: approval_ok_def last_decision_def)
  moreover have "approval_ok (s\<lparr>gs_rows := rows\<rparr>) x" if "x \<in> set (gs_rows s)" for x rows
    using assms(1) that by (simp add: governance_inv_def approval_ok_def last_decision_def)
  ultimately show ?thesis
    using assms(1) by (auto simp: governance_inv_def save_approval_def upsert_distinct upsert_keys dest: upsert_set)
qed

text \<open>A decision recorded with the row it wrote keeps the invariant.\<close>

lemma inv_decision:
  assumes "governance_inv s" "ar_id u = i" "ar_status u = (if g then A_APPROVED else A_REJECTED)"
    "ar_decision u = Some g" "ar_decided_by u = Some by"
  shows "governance_inv (s\<lparr>gs_rows := save_approval u (gs_rows s), gs_decisions := (i, g, by) # gs_decisions s\<rparr>)"
proof -
  let ?s = "s\<lparr>gs_rows := save_approval u (gs_rows s), gs_decisions := (i, g, by) # gs_decisions s\<rparr>"
  have "approval_ok ?s u" using assms(2-5) by (simp add: approval_ok_def last_decision_def)
  moreover have "approval_ok ?s x" if "x \<in> set (gs_rows s)" "ar_id x \<noteq> i" for x
    using assms(1) that by (simp add: governance_inv_def approval_ok_def last_decision_def)
  ultimately show ?thesis
    using assms(1,2)
    by (auto simp: governance_inv_def save_approval_in_iff save_approval_def [symmetric])
      (auto simp: save_approval_def upsert_distinct upsert_keys)
qed

lemma governance_step_inv: "governance_step s s' \<Longrightarrow> governance_inv s \<Longrightarrow> governance_inv s'"
proof (induction rule: governance_step.induct)
  case (ask i s plan "by" ts rows' r)
  with inv_new_row [of s r] requestFor_ok [OF ask(2)] show ?case by simp
next
  case (ask_risk i s plan level reason "by" ts rows' r)
  with inv_new_row [of s r] requestForRisk_ok [OF ask_risk(2)] show ?case by simp
next
  case (decided s i d ts rows' r)
  from decided(1) show ?case by (rule decide_Inr) (simp add: inv_decision decided(2))
next
  case (revoked s i d ts rows' r)
  from revoked(1) show ?case by (rule revoke_Inr) (simp add: inv_decision revoked(2))
qed

lemma governance_reachable_inv: "governance_reachable s \<Longrightarrow> governance_inv s"
  unfolding governance_reachable_def
  by (induction rule: rtranclp_induct)
    (simp add: governance_inv_def governance_start_def, rule governance_step_inv)

section \<open>What approvals guarantee\<close>

lemma max_risk_ge: "l \<in> set levels \<or> l = acc \<Longrightarrow> l \<le> foldl (\<lambda>a l. if risk_index l > risk_index a then l else a) acc levels"
proof (induction levels arbitrary: acc l)
  case (Cons x levels)
  let ?acc = "if risk_index x > risk_index acc then x else acc"
  have le: "?acc \<le> foldl (\<lambda>a l. if risk_index l > risk_index a then l else a) ?acc levels"
    by (rule Cons.IH) simp
  show ?case
  proof (cases "l \<in> set levels")
    case True
    then have "l \<in> set levels \<or> l = ?acc" by simp
    from Cons.IH [OF this] show ?thesis by simp
  next
    case False
    with Cons.prems have "l \<le> ?acc" by (auto simp: less_eq_risk_level_def)
    with le show ?thesis by simp
  qed
qed simp

lemma max_risk_in: "foldl (\<lambda>a l. if risk_index l > risk_index a then l else a) acc levels \<in> insert acc (set levels)"
  by (induction levels arbitrary: acc) (auto split: if_splits)

definition example_plan :: execution_plan where
  "example_plan = \<lparr>ep_id = ''plan-1'', ep_goal = js ''ship'', ep_summary = [], ep_steps = [], ep_capabilities = [],
     ep_resources = [], ep_estimated = \<lparr>ec_file_count = 1, ec_changed_lines = None, ec_scope = ''local''\<rparr>,
     ep_approval_required = True, ep_overall_risk = HIGH, ep_artifacts = [], ep_status = X_PENDING,
     ep_integrity = None, ep_project = None, ep_created_at = Canon 0\<rparr>"

definition example_decision :: approval_decision where
  "example_decision = \<lparr>ad_approval = ''ap-1'', ad_approved = True, ad_decided_by = js ''owner'',
     ad_decided_at = Canon 5, ad_comment = None\<rparr>"

definition example_pending :: approval_request where
  "example_pending = snd (requestFor [] example_plan (js ''owner'') ''ap-1'' (Canon 1))"

definition example_granted :: approval_request where
  "example_granted = example_pending\<lparr>ar_status := A_APPROVED, ar_decision := Some True,
     ar_decided_by := Some (js ''owner''), ar_decided_at := Some (Canon 5), ar_updated_at := Canon 6\<rparr>"

definition example_governance :: governance where
  "example_governance = \<lparr>gs_rows = [example_granted], gs_decisions = [(''ap-1'', True, js ''owner'')]\<rparr>"

lemma example_pending_facts:
  "ar_id example_pending = ''ap-1''" "ar_status example_pending = A_PENDING" "ar_risk example_pending = HIGH"
  "ar_comment example_pending = None" "ar_plan example_pending = executionPlanRef example_plan"
  by (simp_all add: example_pending_def requestFor_def evaluate_def requiresApproval_def example_plan_def Let_def)

lemma example_requestFor:
  "requestFor [] example_plan (js ''owner'') ''ap-1'' (Canon 1) = ([example_pending], example_pending)"
  by (simp add: example_pending_def requestFor_def save_approval_def Let_def)

lemma example_decide:
  "decide [example_pending] ''ap-1'' example_decision (Canon 6) = Inr ([example_granted], example_granted)"
  by (simp add: decide_def get_approval_def example_pending_facts example_decision_def truthy_text_def
      save_approval_def example_granted_def Let_def)

lemma example_governance_reachable: "governance_reachable example_governance"
proof -
  let ?s1 = "governance_start\<lparr>gs_rows := [example_pending]\<rparr>"
  have "governance_step governance_start ?s1"
    using governance_step.ask [of "''ap-1''" governance_start example_plan "js ''owner''" "Canon 1"] example_requestFor
    by (simp add: governance_start_def)
  moreover have "governance_step ?s1 example_governance"
    using governance_step.decided [of ?s1 "''ap-1''" example_decision "Canon 6"] example_decide
    by (simp add: governance_start_def example_governance_def example_decision_def)
  ultimately show ?thesis
    by (auto simp: governance_reachable_def intro: converse_rtranclp_into_rtranclp)
qed

text \<open>
  C7. Nothing of HIGH or CRITICAL risk is ever approved without a human: in every state the manager can
  reach, an approved request of such a risk has, as the last decision recorded for it, a grant by the
  person the request names.
\<close>

theorem high_risk_needs_human:
  assumes "governance_reachable s" "r \<in> set (gs_rows s)" "ar_status r = A_APPROVED" "requiresApproval (ar_risk r)"
  shows "\<exists>by. last_decision s (ar_id r) = Some (True, by) \<and> ar_decided_by r = Some by"
proof -
  have "approval_ok s r" using governance_reachable_inv [OF assms(1)] assms(2) by (simp add: governance_inv_def)
  with assms(3,4) show ?thesis
    by (auto simp: approval_ok_def split: option.splits prod.splits if_splits)
qed

theorem high_risk_needs_human_witness:
  "last_decision example_governance ''ap-1'' = Some (True, js ''owner'') \<and> ar_risk example_granted = HIGH"
proof -
  have "ar_risk example_granted = HIGH" "ar_status example_granted = A_APPROVED" "ar_id example_granted = ''ap-1''"
    "ar_decided_by example_granted = Some (js ''owner'')"
    by (simp_all add: example_granted_def example_pending_facts)
  with high_risk_needs_human [OF example_governance_reachable, of example_granted] show ?thesis
    by (simp add: example_governance_def requiresApproval_def)
qed

text \<open>
  C17. A decision is made once: deciding is refused unless the request is pending, a rejected request is
  never changed by any call, and an approved one can only become rejected by a revocation.
\<close>

theorem decision_is_final:
  assumes "governance_step s s'" "governance_reachable s" "r \<in> set (gs_rows s)" "ar_status r \<noteq> A_PENDING"
  shows "r \<in> set (gs_rows s') \<or>
    (ar_status r = A_APPROVED \<and> (\<exists>u\<in>set (gs_rows s'). ar_id u = ar_id r \<and> ar_status u = A_REJECTED))"
proof -
  have d: "distinct (map ar_id (gs_rows s))"
    using governance_reachable_inv [OF assms(2)] by (simp add: governance_inv_def)
  have same: "get_approval (gs_rows s) i = Some q \<Longrightarrow> ar_id r = i \<Longrightarrow> q = r" for i q
    using select_mem [OF d assms(3)] by (simp add: get_approval_def)
  from assms(1) show ?thesis
  proof cases
    case (ask i plan "by" ts rows' q)
    have q: "rows' = save_approval q (gs_rows s)" "ar_id q = i" using requestFor_ok [OF ask(3)] by simp_all
    have "ar_id r \<noteq> i" using ask(2) assms(3) by blast
    then show ?thesis using q ask(1) assms(3) d by (simp add: save_approval_in_iff)
  next
    case (ask_risk i plan level reason "by" ts rows' q)
    have q: "rows' = save_approval q (gs_rows s)" "ar_id q = i" using requestForRisk_ok [OF ask_risk(3)] by simp_all
    have "ar_id r \<noteq> i" using ask_risk(2) assms(3) by blast
    then show ?thesis using q ask_risk(1) assms(3) d by (simp add: save_approval_in_iff)
  next
    case (decided i dd ts rows' u)
    from decided(2) show ?thesis
      by (rule decide_Inr) (use assms(3,4) d same decided(1) in \<open>auto simp: save_approval_in_iff\<close>)
  next
    case (revoked i dd ts rows' u)
    from revoked(2) obtain q where q: "get_approval (gs_rows s) i = Some q" "ar_status q = A_APPROVED"
      "rows' = save_approval u (gs_rows s)" "ar_id u = i" "ar_status u = A_REJECTED" by (rule revoke_Inr)
    show ?thesis
      using q revoked(1) assms(3) d same [OF q(1)] by (cases "ar_id r = i") (auto simp: save_approval_in_iff)
  qed
qed

theorem decision_is_final_witness:
  "\<exists>s'. governance_step example_governance s' \<and> length (gs_rows s') = 2 \<and> example_granted \<in> set (gs_rows s')"
proof -
  let ?r = "snd (requestFor [example_granted] example_plan (js ''owner'') ''ap-2'' (Canon 9))"
  have ids: "ar_id example_granted = ''ap-1''" "ar_status example_granted = A_APPROVED"
    by (simp_all add: example_granted_def example_pending_facts)
  have r: "requestFor [example_granted] example_plan (js ''owner'') ''ap-2'' (Canon 9) = ([example_granted, ?r], ?r)"
    by (simp add: requestFor_def save_approval_def ids Let_def)
  then have step: "governance_step example_governance (example_governance\<lparr>gs_rows := [example_granted, ?r]\<rparr>)"
    using governance_step.ask [of "''ap-2''" example_governance example_plan "js ''owner''" "Canon 9"]
    by (simp add: example_governance_def ids)
  have "example_granted \<in> set (gs_rows (example_governance\<lparr>gs_rows := [example_granted, ?r]\<rparr>))"
    using decision_is_final [OF step example_governance_reachable, of example_granted] ids
    by (auto simp: example_governance_def requestFor_def evaluate_def Let_def split: if_splits)
  with step show ?thesis by (intro exI conjI) (assumption, simp, assumption)
qed

text \<open>
  The approval a plan gets: it carries the plan's own risk and reference, it is automatically
  approved exactly when the policy does not ask for a human, and the risk of several levels is the most
  severe of them (\<open>LOW\<close> for none).
\<close>

lemma approval_follows_policy:
  "(let (rows', r) = requestFor rows plan by i ts in
      get_approval rows' i = Some r \<and> ar_plan r = executionPlanRef plan \<and> ar_risk r = ep_overall_risk plan \<and>
      (ar_status r = A_APPROVED \<longleftrightarrow> ep_overall_risk plan < HIGH) \<and>
      (ar_status r = A_PENDING \<longleftrightarrow> HIGH \<le> ep_overall_risk plan)) \<and>
   max_risk levels = Max (insert LOW (set levels))"
proof -
  have pol: "requiresApproval l \<longleftrightarrow> HIGH \<le> l" for l
    by (cases l) (simp_all add: requiresApproval_def less_eq_risk_level_def risk_index_def)
  have "max_risk levels = Max (insert LOW (set levels))"
  proof (rule sym, rule Max_eqI)
    show "finite (insert LOW (set levels))" by simp
    show "l \<le> max_risk levels" if "l \<in> insert LOW (set levels)" for l
      unfolding max_risk_def using that by (intro max_risk_ge) auto
    show "max_risk levels \<in> insert LOW (set levels)" unfolding max_risk_def by (rule max_risk_in)
  qed
  moreover have "\<not> (HIGH \<le> l) \<longleftrightarrow> l < HIGH" for l :: risk_level by (simp add: not_le)
  ultimately show ?thesis
    by (cases "HIGH \<le> ep_overall_risk plan")
      (simp_all add: requestFor_def evaluate_def Let_def pol get_approval_def save_approval_def select_upsert not_le)
qed

end
