(* ===== verification/Task_Runs.thy ===== *)
theory Task_Runs
  imports Containment_Audit Work_Handoffs Governance
begin

text \<open>
  Tasks, their attempts and the continuation bindings: \<open>domain/task.ts\<close>,
  \<open>application/task-manager.ts\<close> (under \<open>packages/core/src\<close>), \<open>SqliteTaskRepository\<close> and
  \<open>SqliteTaskRunRepository\<close> of \<open>packages/storage-sqlite/src/index.ts\<close>,
  \<open>continuation-binding-repository.ts\<close> and the triggers of migrations 10 and 11. Each repository method is one
  IMMEDIATE transaction, hence one step; \<open>busy\<close> says that the bounded wait for the lock ran out. A row is the
  value its \<open>data\<close> column holds; \<open>isDeepStrictEqual\<close> of two normalised values is equality.
  \<open>newId()\<close>, \<open>now()\<close> and the SHA-256 of a canonical shape are arguments.
\<close>

section \<open>Data\<close>

record intent =
  in_type :: intent_type
  in_capability :: capability
  in_confidence :: string
  in_requires_work :: bool
  in_summary :: js_string
  in_raw :: "(string \<times> json) list option"

record task =
  tk_id :: Id
  tk_title :: js_string
  tk_description :: js_string
  tk_status :: task_status
  tk_intent :: intent
  tk_risk :: risk_level
  tk_context :: conversation_context
  tk_actor :: "Id option"
  tk_session :: "Id option"
  tk_project :: "Id option"
  tk_workspace :: "Id option"
  tk_plan :: "Id option"
  tk_created_at :: iso
  tk_updated_at :: iso
  tk_metadata :: "(string \<times> json) list option"

text \<open>The dispatch state of a legacy row may be missing (\<open>None\<close>).\<close>

record task_run =
  rn_id :: Id
  rn_task :: Id
  rn_attempt :: int
  rn_status :: run_status
  rn_dispatch :: "dispatch_state option"
  rn_capability :: capability
  rn_provider :: "string option"
  rn_artifacts :: "Id list"
  rn_started :: iso
  rn_finished :: "iso option"
  rn_duration :: "int option"
  rn_error :: "js_string option"
  rn_metadata :: "(string \<times> json) list option"
  rn_usage :: "json option"

record continuation_binding =
  cb_handoff :: js_string
  cb_task :: Id
  cb_recorded_at :: iso

datatype guard_code =
  STALE_HANDOFF | BINDING_MISMATCH | WORK_ITEM_NOT_CONTINUABLE | TASK_NOT_EXECUTABLE | APPROVAL_STALE
  | UNRESOLVED_STARTED_RUN | CONTINUATION_GUARD_REQUIRED | CONTINUATION_RUN_DELETE_FORBIDDEN
  | CONTINUATION_TERMINALIZATION_REQUIRES_SECURE_PATH | TASK_RUN_STORAGE_BUSY

datatype evidence_reason =
  RUN_NOT_FOUND | RUN_NOT_STARTED | RUN_NOT_CONTINUATION_BOUND | CALLER_SUPPLIED_EVIDENCE
  | BINDING_DIGEST_CONFLICT | BINDING_MISSING | POST_ATTEMPT_CONFLICT | EVIDENCE_REMOVED | MALFORMED_EVIDENCE

datatype admission_code = INCONSISTENT_STATE | STALE_STATE | CONFLICT

datatype run_error =
  Guarded guard_code | Evidence evidence_reason | Admission admission_code | Plain string | Aborted string
  | Invalid_transition task_status task_status

record run_db =
  rd_handoffs :: "work_handoff list"
  rd_items :: "work_item list"
  rd_tasks :: "task list"
  rd_approvals :: "approval_request list"
  rd_bindings :: "continuation_binding list"
  rd_runs :: "task_run list"

section \<open>The row store\<close>

definition max_safe :: int where "max_safe = 9007199254740991"

text \<open>The triggers and the unique index of migration 11.\<close>

definition valid_run_row :: "task_run \<Rightarrow> bool" where
  "valid_run_row r \<longleftrightarrow> rn_id r \<noteq> [] \<and> rn_task r \<noteq> [] \<and> 1 \<le> rn_attempt r \<and> rn_attempt r \<le> max_safe"

definition same_start :: "task_run \<Rightarrow> task_run \<Rightarrow> bool" where
  "same_start a b \<longleftrightarrow> rn_task a = rn_task b \<and> rn_attempt a = rn_attempt b \<and> rn_started a = rn_started b \<and>
     rn_capability a = rn_capability b"

definition attempt_free :: "task_run \<Rightarrow> task_run list \<Rightarrow> bool" where
  "attempt_free r rows \<longleftrightarrow>
     list_all (\<lambda>x. rn_id x = rn_id r \<or> rn_task x \<noteq> rn_task r \<or> rn_attempt x \<noteq> rn_attempt r) rows"

definition upsert_run :: "task_run \<Rightarrow> run_db \<Rightarrow> run_error + run_db" where
  "upsert_run r db =
     err_bind (guard_err (Aborted ''INVALID_TASK_RUN_IDENTITY'') (valid_run_row r)) (\<lambda>_.
     err_bind (guard_err (Aborted ''TASK_RUN_START_IDENTITY_IMMUTABLE'')
       (case select rn_id (rd_runs db) (rn_id r) of None \<Rightarrow> True | Some old \<Rightarrow> same_start r old)) (\<lambda>_.
     err_bind (guard_err (Aborted ''UNIQUE'') (attempt_free r (rd_runs db))) (\<lambda>_.
       Inr (db\<lparr>rd_runs := upsert rn_id r (rd_runs db)\<rparr>))))"

definition insert_run :: "task_run \<Rightarrow> run_db \<Rightarrow> run_error + run_db" where
  "insert_run r db = (if rn_id r \<in> rn_id ` set (rd_runs db) then Inl (Aborted ''UNIQUE'') else upsert_run r db)"

definition decode_run :: "task_run \<Rightarrow> task_run" where
  "decode_run r = (case rn_dispatch r of
       Some _ \<Rightarrow> r
     | None \<Rightarrow> r\<lparr>rn_dispatch := Some (case rn_provider r of
           Some p \<Rightarrow> if p \<noteq> [] then DISPATCH_COMMITTED else LEGACY_UNKNOWN
         | None \<Rightarrow> LEGACY_UNKNOWN)\<rparr>)"

definition isBound :: "run_db \<Rightarrow> Id \<Rightarrow> bool" where
  "isBound db t \<longleftrightarrow> list_ex (\<lambda>b. cb_task b = t) (rd_bindings db)"

definition get_run :: "run_db \<Rightarrow> Id \<Rightarrow> task_run option" where
  "get_run db i = map_option decode_run (select rn_id (rd_runs db) i)"

definition audit_key :: string where "audit_key = ''containmentAudit''"

definition metadata_of :: "task_run \<Rightarrow> (string \<times> json) list" where
  "metadata_of r = (case rn_metadata r of None \<Rightarrow> [] | Some m \<Rightarrow> m)"

definition extractContainmentAudit :: "sha \<Rightarrow> task_run \<Rightarrow> containment_audit option" where
  "extractContainmentAudit sha r = (case map_of (metadata_of r) audit_key of
       None \<Rightarrow> None
     | Some raw \<Rightarrow> snapshotContainmentAudit sha raw (rn_id r) (rn_id r))"

text \<open>\<open>{ ...a, ...b }\<close>.\<close>

definition set_member :: "string \<Rightarrow> json \<Rightarrow> (string \<times> json) list \<Rightarrow> (string \<times> json) list" where
  "set_member k v m = upsert fst (k, v) m"

definition spread :: "(string \<times> json) list \<Rightarrow> (string \<times> json) list \<Rightarrow> (string \<times> json) list" where
  "spread a b = fold (\<lambda>(k, v). set_member k v) b a"

section \<open>Continuation bindings\<close>

definition admit_continuation ::
  "work_handoff \<Rightarrow> work_item \<Rightarrow> task \<Rightarrow> iso \<Rightarrow> run_db \<Rightarrow> run_error + (run_db \<times> continuation_binding)" where
  "admit_continuation handoff item task ts db =
     (if select wh_id (rd_handoffs db) (wh_id handoff) \<noteq> Some handoff \<or> select wi_id (rd_items db) (wi_id item) \<noteq> Some item
        \<or> select tk_id (rd_tasks db) (tk_id task) \<noteq> Some task
      then Inl (Admission STALE_STATE)
      else if wh_work_item handoff \<noteq> wi_id item \<or> wi_status item \<noteq> W_ACTIVE \<or> tk_status task \<noteq> T_PENDING \<or>
        wi_actor item = [] \<or> tk_actor task \<noteq> Some (wi_actor item) \<or> tk_project task \<noteq> wi_project item
      then Inl (Admission INCONSISTENT_STATE)
      else (case filter (\<lambda>b. cb_handoff b = wh_id handoff \<or> cb_task b = tk_id task) (rd_bindings db) of
          row # rest \<Rightarrow>
            if rest \<noteq> [] \<or> cb_handoff row \<noteq> wh_id handoff \<or> cb_task row \<noteq> tk_id task then Inl (Admission CONFLICT)
            else Inr (db, row)
        | [] \<Rightarrow>
            if list_ex (\<lambda>r. rn_task r = tk_id task) (rd_runs db) then Inl (Admission STALE_STATE)
            else let b = \<lparr>cb_handoff = wh_id handoff, cb_task = tk_id task, cb_recorded_at = ts\<rparr> in
              Inr (db\<lparr>rd_bindings := rd_bindings db @ [b]\<rparr>, b)))"

section \<open>Attempts\<close>

definition noContention :: "bool \<Rightarrow> run_error + 'a \<Rightarrow> run_error + 'a" where
  "noContention busy operation = (if busy then Inl (Guarded TASK_RUN_STORAGE_BUSY) else operation)"

definition commitProviderDispatchIfPreDispatch :: "Id \<Rightarrow> Id \<Rightarrow> run_db \<Rightarrow> run_error + (run_db \<times> task_run)" where
  "commitProviderDispatchIfPreDispatch i e db =
     (if i = [] \<or> i \<noteq> e then Inl (Plain ''PROVIDER_DISPATCH_IDENTITY_MISMATCH'')
      else (case get_run db i of
          None \<Rightarrow> Inl (Plain ''PROVIDER_DISPATCH_RUN_NOT_FOUND'')
        | Some run \<Rightarrow>
            if rn_status run \<noteq> R_STARTED \<or> rn_dispatch run \<noteq> Some PRE_DISPATCH
            then Inl (Plain ''PROVIDER_DISPATCH_NOT_PRE_DISPATCH'')
            else let c = run\<lparr>rn_dispatch := Some DISPATCH_COMMITTED\<rparr> in
              err_bind (upsert_run c db) (\<lambda>db'. Inr (db', c))))"

definition insertStarted :: "Id \<Rightarrow> capability \<Rightarrow> Id \<Rightarrow> iso \<Rightarrow> run_db \<Rightarrow> run_error + (run_db \<times> task_run)" where
  "insertStarted t cap i ts db =
     (let attempts = map rn_attempt (filter (\<lambda>r. rn_task r = t) (rd_runs db));
          attempt = (if attempts = [] then 0 else Max (set attempts)) + 1 in
      if attempt > max_safe \<or> attempt < 1 then Inl (Plain ''TASK_RUN_ATTEMPT_EXHAUSTED'')
      else let run = \<lparr>rn_id = i, rn_task = t, rn_attempt = attempt, rn_status = R_STARTED, rn_dispatch = Some PRE_DISPATCH,
            rn_capability = cap, rn_provider = None, rn_artifacts = [], rn_started = ts, rn_finished = None,
            rn_duration = None, rn_error = None, rn_metadata = None, rn_usage = None\<rparr> in
        err_bind (insert_run run db) (\<lambda>db'. Inr (db', run)))"

definition start_run :: "task \<Rightarrow> capability \<Rightarrow> Id \<Rightarrow> iso \<Rightarrow> run_db \<Rightarrow> run_error + (run_db \<times> task_run)" where
  "start_run task cap i ts db =
     (if isBound db (tk_id task) then Inl (Guarded CONTINUATION_GUARD_REQUIRED)
      else if tk_status task \<noteq> T_RUNNING \<or> select tk_id (rd_tasks db) (tk_id task) \<noteq> Some task
      then Inl (Plain ''TASK_RUN_START_INVALID_OR_STALE_TASK'')
      else insertStarted (tk_id task) cap i ts db)"

datatype approval_fact = Not_required "plan_ref option" | Approved_by approval_request plan_ref

record start_facts =
  sf_handoff :: work_handoff
  sf_binding :: continuation_binding
  sf_item :: work_item
  sf_task :: task
  sf_approval :: approval_fact

definition fact_plan :: "approval_fact \<Rightarrow> Id option" where
  "fact_plan f = (case f of Not_required p \<Rightarrow> map_option pr_id p | Approved_by _ p \<Rightarrow> Some (pr_id p))"

definition fact_holds :: "run_db \<Rightarrow> approval_fact \<Rightarrow> bool" where
  "fact_holds db f = (case f of Not_required _ \<Rightarrow> True
     | Approved_by request p \<Rightarrow> (case select ar_id (rd_approvals db) (ar_id request) of
           None \<Rightarrow> False
         | Some persisted \<Rightarrow> ar_status persisted = A_APPROVED \<and> persisted = request \<and> ar_plan persisted = p))"

definition guardedStart :: "start_facts \<Rightarrow> capability \<Rightarrow> Id \<Rightarrow> iso \<Rightarrow> run_db \<Rightarrow> run_error + (run_db \<times> task_run)" where
  "guardedStart f cap i ts db =
     (let handoff = sf_handoff f; item = sf_item f; task = sf_task f; b = sf_binding f in
      err_bind (guard_err (Guarded STALE_HANDOFF) (select wh_id (rd_handoffs db) (wh_id handoff) = Some handoff)) (\<lambda>_.
      err_bind (guard_err (Guarded WORK_ITEM_NOT_CONTINUABLE) (select wi_id (rd_items db) (wi_id item) = Some item)) (\<lambda>_.
      err_bind (guard_err (Guarded TASK_NOT_EXECUTABLE) (select tk_id (rd_tasks db) (tk_id task) = Some task)) (\<lambda>_.
      err_bind (guard_err (Guarded BINDING_MISMATCH)
        (case select cb_handoff (rd_bindings db) (wh_id handoff) of
           None \<Rightarrow> False
         | Some bound \<Rightarrow> cb_handoff b = wh_id handoff \<and> cb_task b = tk_id task \<and> bound = b)) (\<lambda>_.
      err_bind (guard_err (Guarded WORK_ITEM_NOT_CONTINUABLE)
        (wh_work_item handoff = wi_id item \<and> wi_status item = W_ACTIVE)) (\<lambda>_.
      err_bind (guard_err (Guarded TASK_NOT_EXECUTABLE)
        (tk_status task = T_RUNNING \<and> wi_actor item \<noteq> [] \<and> tk_actor task = Some (wi_actor item) \<and>
         tk_project task = wi_project item \<and> cap = in_capability (tk_intent task))) (\<lambda>_.
      err_bind (guard_err (Guarded APPROVAL_STALE) (tk_plan task = fact_plan (sf_approval f))) (\<lambda>_.
      err_bind (guard_err (Guarded APPROVAL_STALE) (fact_holds db (sf_approval f))) (\<lambda>_.
      err_bind (guard_err (Guarded UNRESOLVED_STARTED_RUN)
        (\<not> list_ex (\<lambda>r. rn_task r = tk_id task \<and> rn_status r = R_STARTED) (rd_runs db))) (\<lambda>_.
        insertStarted (tk_id task) cap i ts db))))))))))"

definition save_run :: "sha \<Rightarrow> task_run \<Rightarrow> run_db \<Rightarrow> run_error + (run_db \<times> task_run)" where
  "save_run sha run db =
     (let existing = select rn_id (rd_runs db) (rn_id run); persisted = map_option decode_run existing in
      if (case persisted of None \<Rightarrow> False | Some p \<Rightarrow>
            rn_dispatch run = Some DISPATCH_COMMITTED \<and> rn_dispatch p \<noteq> Some DISPATCH_COMMITTED)
      then Inl (Plain ''PROVIDER_DISPATCH_GENERIC_SAVE_FORBIDDEN'')
      else let saved = run\<lparr>rn_dispatch := (case persisted of
            Some p \<Rightarrow> rn_dispatch p
          | None \<Rightarrow> Some (if rn_dispatch run = Some PRE_DISPATCH then PRE_DISPATCH else LEGACY_UNKNOWN))\<rparr> in
      if (case persisted of None \<Rightarrow> False | Some p \<Rightarrow>
            rn_status p = R_STARTED \<and> rn_status run \<noteq> R_STARTED \<and> audit_key \<in> fst ` set (metadata_of p))
      then Inl (Guarded CONTINUATION_GUARD_REQUIRED)
      else if (case persisted of None \<Rightarrow> False | Some p \<Rightarrow>
            rn_status p = R_STARTED \<and> (rn_status run = R_SUCCEEDED \<or> rn_status run = R_FAILED) \<and> isBound db (rn_task p))
      then Inl (Guarded CONTINUATION_TERMINALIZATION_REQUIRES_SECURE_PATH)
      else err_bind (if \<not> isBound db (rn_task run) then Inr ()
          else (case existing of
              None \<Rightarrow> Inl (Guarded CONTINUATION_GUARD_REQUIRED)
            | Some old \<Rightarrow>
                if rn_status run = R_STARTED \<and> rn_status old \<noteq> R_STARTED then Inl (Guarded CONTINUATION_GUARD_REQUIRED)
                else let current = extractContainmentAudit sha old; incoming = extractContainmentAudit sha run in
                  if containmentEvidenceIdentical current incoming then Inr ()
                  else Inl (Evidence (if current = None then MALFORMED_EVIDENCE
                     else if incoming = None then EVIDENCE_REMOVED else BINDING_DIGEST_CONFLICT)))) (\<lambda>_.
        err_bind (upsert_run saved db) (\<lambda>db'. Inr (db', saved))))"

definition loadStartedRunOrThrow :: "Id \<Rightarrow> run_db \<Rightarrow> run_error + task_run" where
  "loadStartedRunOrThrow i db = (case get_run db i of
       None \<Rightarrow> Inl (Evidence RUN_NOT_FOUND)
     | Some run \<Rightarrow>
         if \<not> isBound db (rn_task run) then Inl (Evidence RUN_NOT_CONTINUATION_BOUND)
         else if rn_status run \<noteq> R_STARTED then Inl (Evidence RUN_NOT_STARTED)
         else Inr run)"

definition writeContainmentAudit :: "task_run \<Rightarrow> containment_audit \<Rightarrow> run_db \<Rightarrow> run_error + (run_db \<times> task_run)" where
  "writeContainmentAudit run audit db =
     (let n = run\<lparr>rn_metadata := Some (set_member audit_key (audit_json audit) (metadata_of run))\<rparr> in
      err_bind (upsert_run n db) (\<lambda>db'. Inr (db', n)))"

definition recordContainmentBindingIfAbsent :: "sha \<Rightarrow> Id \<Rightarrow> json \<Rightarrow> run_db \<Rightarrow> run_error + (run_db \<times> task_run)" where
  "recordContainmentBindingIfAbsent sha i audit db =
     err_bind (loadStartedRunOrThrow i db) (\<lambda>run.
     (case snapshotContainmentAudit sha audit i i of
        None \<Rightarrow> Inl (Evidence MALFORMED_EVIDENCE)
      | Some projected \<Rightarrow>
          if ca_post projected \<noteq> None then Inl (Evidence MALFORMED_EVIDENCE)
          else (case extractContainmentAudit sha run of
              Some current \<Rightarrow>
                if bindingIdentical (ca_binding current) (ca_binding projected) then Inr (db, run)
                else Inl (Evidence BINDING_DIGEST_CONFLICT)
            | None \<Rightarrow> writeContainmentAudit run projected db)))"

definition recordContainmentPostEvidenceIfAbsent :: "sha \<Rightarrow> Id \<Rightarrow> json \<Rightarrow> run_db \<Rightarrow> run_error + (run_db \<times> task_run)" where
  "recordContainmentPostEvidenceIfAbsent sha i audit db =
     err_bind (loadStartedRunOrThrow i db) (\<lambda>run.
     (case snapshotContainmentAudit sha audit i i of
        None \<Rightarrow> Inl (Evidence MALFORMED_EVIDENCE)
      | Some projected \<Rightarrow>
          (case ca_post projected of
             None \<Rightarrow> Inl (Evidence MALFORMED_EVIDENCE)
           | Some post \<Rightarrow>
               (case extractContainmentAudit sha run of
                  None \<Rightarrow> Inl (Evidence BINDING_MISSING)
                | Some current \<Rightarrow>
                    if \<not> bindingIdentical (ca_binding current) (ca_binding projected)
                    then Inl (Evidence BINDING_DIGEST_CONFLICT)
                    else (case ca_post current of
                        Some p \<Rightarrow> if postAttemptIdentical p post then Inr (db, run) else Inl (Evidence POST_ATTEMPT_CONFLICT)
                      | None \<Rightarrow> writeContainmentAudit run projected db)))))"

record terminal_request =
  tq_succeeded :: bool
  tq_finished :: iso
  tq_artifacts :: "Id list option"
  tq_provider :: "string option"
  tq_error :: "js_string option"
  tq_metadata :: "(string \<times> json) list option"

definition elapsed :: "iso \<Rightarrow> iso \<Rightarrow> int option" where
  "elapsed started finished = (case (date_parse started, date_parse finished) of
       (Some a, Some b) \<Rightarrow> Some (max 0 (b - a)) | _ \<Rightarrow> None)"

definition truthy :: "'a list option \<Rightarrow> 'a list option \<Rightarrow> 'a list option" where
  "truthy v old = (case v of Some (x # xs) \<Rightarrow> v | _ \<Rightarrow> old)"

definition uncertain :: "containment_audit option \<Rightarrow> bool" where
  "uncertain a = (case a of None \<Rightarrow> False | Some x \<Rightarrow> (case ca_post x of None \<Rightarrow> False
     | Some p \<Rightarrow> po_integrity p = ''MISMATCH'' \<or> po_failure p \<noteq> None))"

definition merged_metadata :: "task_run \<Rightarrow> containment_audit option \<Rightarrow> terminal_request \<Rightarrow> (string \<times> json) list" where
  "merged_metadata run preserved q =
     (let merged = spread (metadata_of run) (case tq_metadata q of None \<Rightarrow> [] | Some m \<Rightarrow> m) in
      case preserved of Some a \<Rightarrow> set_member audit_key (audit_json a) merged
      | None \<Rightarrow> remove_row fst audit_key merged)"

definition terminal_run :: "task_run \<Rightarrow> containment_audit option \<Rightarrow> terminal_request \<Rightarrow> task_run" where
  "terminal_run run preserved q =
     (let m = merged_metadata run preserved q in
      run\<lparr>rn_status := (if tq_succeeded q then R_SUCCEEDED else R_FAILED), rn_finished := Some (tq_finished q),
          rn_duration := elapsed (rn_started run) (tq_finished q),
          rn_artifacts := (case tq_artifacts q of Some a \<Rightarrow> a | None \<Rightarrow> rn_artifacts run),
          rn_provider := truthy (tq_provider q) (rn_provider run), rn_error := truthy (tq_error q) (rn_error run),
          rn_metadata := (if m \<noteq> [] then Some m else rn_metadata run)\<rparr>)"

definition terminalizePreservingSecurityEvidence ::
  "sha \<Rightarrow> Id \<Rightarrow> terminal_request \<Rightarrow> run_db \<Rightarrow> run_error + (run_db \<times> task_run)" where
  "terminalizePreservingSecurityEvidence sha i q db =
     err_bind (loadStartedRunOrThrow i db) (\<lambda>run.
       if (case tq_metadata q of None \<Rightarrow> False | Some m \<Rightarrow> audit_key \<in> fst ` set m)
       then Inl (Evidence CALLER_SUPPLIED_EVIDENCE)
       else let preserved = extractContainmentAudit sha run in
       if uncertain preserved then Inr (db, run)
       else let t = terminal_run run preserved q in err_bind (upsert_run t db) (\<lambda>db'. Inr (db', t)))"

definition delete_run :: "Id \<Rightarrow> run_db \<Rightarrow> run_error + run_db" where
  "delete_run i db = (case select rn_id (rd_runs db) i of
       None \<Rightarrow> Inr db
     | Some row \<Rightarrow>
         if isBound db (rn_task row) then Inl (Guarded CONTINUATION_RUN_DELETE_FORBIDDEN)
         else Inr (db\<lparr>rd_runs := remove_row rn_id i (rd_runs db)\<rparr>))"

definition listByTask :: "run_db \<Rightarrow> Id \<Rightarrow> task_run list" where
  "listByTask db t = map decode_run (sort_key rn_attempt (filter (\<lambda>r. rn_task r = t) (rd_runs db)))"

section \<open>The task manager\<close>

fun task_transitions :: "task_status \<Rightarrow> task_status list" where
  "task_transitions T_PENDING = [T_PLANNING, T_CANCELED]"
| "task_transitions T_PLANNING = [T_WAITING_APPROVAL, T_RUNNING, T_FAILED, T_CANCELED]"
| "task_transitions T_WAITING_APPROVAL = [T_RUNNING, T_CANCELED]"
| "task_transitions T_RUNNING = [T_TESTING, T_NEEDS_REVIEW, T_COMPLETED, T_FAILED, T_CANCELED]"
| "task_transitions T_TESTING = [T_COMPLETED, T_NEEDS_REVIEW, T_FAILED]"
| "task_transitions T_NEEDS_REVIEW = [T_RUNNING, T_COMPLETED, T_CANCELED]"
| "task_transitions T_FAILED = [T_PLANNING]"
| "task_transitions T_CANCELED = []"
| "task_transitions T_COMPLETED = []"

definition canTransition :: "task_status \<Rightarrow> task_status \<Rightarrow> bool" where
  "canTransition from to \<longleftrightarrow> to \<in> set (task_transitions from)"

definition save_task :: "task \<Rightarrow> run_db \<Rightarrow> run_db" where
  "save_task t db = db\<lparr>rd_tasks := upsert tk_id t (rd_tasks db)\<rparr>"

definition list_tasks_by_context :: "run_db \<Rightarrow> string \<Rightarrow> string option \<Rightarrow> task list" where
  "list_tasks_by_context db channel thread =
     filter (\<lambda>t. ctx_channel_id (tk_context t) = channel \<and> ctx_thread_id (tk_context t) = thread) (rd_tasks db)"

record task_options =
  to_text :: js_string
  to_actor :: "Id option"
  to_session :: "Id option"
  to_project :: "Id option"

definition createTask ::
  "intent \<Rightarrow> conversation_context \<Rightarrow> task_options \<Rightarrow> Id \<Rightarrow> iso \<Rightarrow> run_db \<Rightarrow> run_db \<times> task" where
  "createTask intent context opts i ts db =
     (let t = \<lparr>tk_id = i, tk_title = take 80 (in_summary intent), tk_description = to_text opts, tk_status = T_PENDING,
        tk_intent = intent, tk_risk = LOW, tk_context = context, tk_actor = truthy (to_actor opts) None,
        tk_session = truthy (to_session opts) None, tk_project = truthy (to_project opts) None, tk_workspace = None,
        tk_plan = None, tk_created_at = ts, tk_updated_at = ts, tk_metadata = None\<rparr> in
      (save_task t db, t))"

definition transition_task :: "task \<Rightarrow> task_status \<Rightarrow> iso \<Rightarrow> run_db \<Rightarrow> run_error + (run_db \<times> task)" where
  "transition_task t to ts db =
     (if \<not> canTransition (tk_status t) to then Inl (Invalid_transition (tk_status t) to)
      else let u = t\<lparr>tk_status := to, tk_updated_at := ts\<rparr> in Inr (save_task u db, u))"

definition completeRun ::
  "sha \<Rightarrow> task_run \<Rightarrow> Id list \<Rightarrow> string option \<Rightarrow> (string \<times> json) list option \<Rightarrow> json option \<Rightarrow> iso \<Rightarrow> run_db \<Rightarrow>
   run_error + (run_db \<times> task_run)" where
  "completeRun sha run artifacts provider metadata usage ts db =
     save_run sha (run\<lparr>rn_status := R_SUCCEEDED, rn_artifacts := artifacts, rn_finished := Some ts,
       rn_duration := elapsed (rn_started run) ts, rn_provider := truthy provider (rn_provider run),
       rn_metadata := (case metadata of Some m \<Rightarrow> Some m | None \<Rightarrow> rn_metadata run),
       rn_usage := (case usage of Some u \<Rightarrow> Some u | None \<Rightarrow> rn_usage run)\<rparr>) db"

definition failRun ::
  "sha \<Rightarrow> task_run \<Rightarrow> js_string \<Rightarrow> string option \<Rightarrow> (string \<times> json) list option \<Rightarrow> iso \<Rightarrow> run_db \<Rightarrow>
   run_error + (run_db \<times> task_run)" where
  "failRun sha run error provider metadata ts db =
     save_run sha (run\<lparr>rn_status := R_FAILED, rn_error := Some error, rn_finished := Some ts,
       rn_duration := elapsed (rn_started run) ts, rn_provider := truthy provider (rn_provider run),
       rn_metadata := (case metadata of Some m \<Rightarrow> Some m | None \<Rightarrow> rn_metadata run)\<rparr>) db"

section \<open>Every way the tables change\<close>

text \<open>
  One transaction at a time; the rows of the other tables are written by their own repositories. Failures leave
  the database as it is.
\<close>

inductive run_step :: "sha \<Rightarrow> run_db \<Rightarrow> run_db \<Rightarrow> bool" for sha where
  admitted: "admit_continuation handoff item task ts db = Inr (db', b) \<Longrightarrow> run_step sha db db'"
| committed: "noContention busy (commitProviderDispatchIfPreDispatch i e db) = Inr (db', r) \<Longrightarrow> run_step sha db db'"
| started: "noContention busy (start_run task cap i ts db) = Inr (db', r) \<Longrightarrow> run_step sha db db'"
| guarded: "noContention busy (guardedStart facts cap i ts db) = Inr (db', r) \<Longrightarrow> run_step sha db db'"
| saved: "noContention busy (save_run sha run db) = Inr (db', r) \<Longrightarrow> run_step sha db db'"
| bound: "noContention busy (recordContainmentBindingIfAbsent sha i audit db) = Inr (db', r) \<Longrightarrow> run_step sha db db'"
| observed: "noContention busy (recordContainmentPostEvidenceIfAbsent sha i audit db) = Inr (db', r) \<Longrightarrow> run_step sha db db'"
| terminalized: "noContention busy (terminalizePreservingSecurityEvidence sha i q db) = Inr (db', r) \<Longrightarrow> run_step sha db db'"
| deleted: "noContention busy (delete_run i db) = Inr db' \<Longrightarrow> run_step sha db db'"
| world: "run_step sha db (db\<lparr>rd_handoffs := hs, rd_items := ws, rd_tasks := tasks, rd_approvals := as\<rparr>)"

definition no_runs :: run_db where
  "no_runs = \<lparr>rd_handoffs = [], rd_items = [], rd_tasks = [], rd_approvals = [], rd_bindings = [], rd_runs = []\<rparr>"

definition runs_reachable :: "sha \<Rightarrow> run_db \<Rightarrow> bool" where
  "runs_reachable sha db \<longleftrightarrow> (run_step sha)\<^sup>*\<^sup>* no_runs db"

text \<open>What a stored attempt of a bound task may become.\<close>

definition evidence_le :: "containment_audit option \<Rightarrow> containment_audit option \<Rightarrow> bool" where
  "evidence_le a b \<longleftrightarrow> (case a of None \<Rightarrow> True
     | Some x \<Rightarrow> (case b of None \<Rightarrow> False | Some y \<Rightarrow> ca_binding y = ca_binding x \<and> (ca_post x \<noteq> None \<longrightarrow> y = x)))"

definition evolves :: "sha \<Rightarrow> task_run \<Rightarrow> task_run \<Rightarrow> bool" where
  "evolves sha old new \<longleftrightarrow> rn_id new = rn_id old \<and> same_start new old \<and>
     (rn_status old \<noteq> R_STARTED \<longrightarrow> rn_status new \<noteq> R_STARTED) \<and>
     (rn_dispatch old = Some DISPATCH_COMMITTED \<longrightarrow> rn_dispatch new = Some DISPATCH_COMMITTED) \<and>
     evidence_le (extractContainmentAudit sha old) (extractContainmentAudit sha new) \<and>
     (uncertain (extractContainmentAudit sha old) \<and> rn_status old = R_STARTED \<longrightarrow> rn_status new = R_STARTED)"

lemma evidence_le_refl [simp]: "evidence_le a a"
  by (simp add: evidence_le_def split: option.splits)

lemma evidence_le_trans: "evidence_le a b \<Longrightarrow> evidence_le b c \<Longrightarrow> evidence_le a c"
  by (auto simp: evidence_le_def split: option.splits)

lemma evidence_le_uncertain: "evidence_le a b \<Longrightarrow> uncertain a \<Longrightarrow> uncertain b"
  by (auto simp: evidence_le_def uncertain_def split: option.splits)

lemma evolves_refl [simp]: "evolves sha r r"
  by (simp add: evolves_def same_start_def)

lemma evolves_trans: "evolves sha a b \<Longrightarrow> evolves sha b c \<Longrightarrow> evolves sha a c"
  unfolding evolves_def same_start_def by (metis evidence_le_trans evidence_le_uncertain)

text \<open>The abstract contract of a transaction, on the attempts and the bindings.\<close>

inductive run_change :: "sha \<Rightarrow> run_db \<Rightarrow> run_db \<Rightarrow> bool" for sha where
  same: "rd_runs db' = rd_runs db \<Longrightarrow> rd_bindings db' = rd_bindings db \<Longrightarrow> run_change sha db db'"
| bind: "rd_runs db' = rd_runs db \<Longrightarrow> rd_bindings db' = rd_bindings db @ [b] \<Longrightarrow>
    cb_handoff b \<notin> cb_handoff ` set (rd_bindings db) \<Longrightarrow> cb_task b \<notin> cb_task ` set (rd_bindings db) \<Longrightarrow>
    cb_task b \<notin> rn_task ` set (rd_runs db) \<Longrightarrow> run_change sha db db'"
| update: "rd_bindings db' = rd_bindings db \<Longrightarrow> select rn_id (rd_runs db) (rn_id n) = Some old \<Longrightarrow> same_start n old \<Longrightarrow>
    rd_runs db' = upsert rn_id n (rd_runs db) \<Longrightarrow> (isBound db (rn_task n) \<Longrightarrow> evolves sha old n) \<Longrightarrow> run_change sha db db'"
| insert: "rd_bindings db' = rd_bindings db \<Longrightarrow> rn_id n \<notin> rn_id ` set (rd_runs db) \<Longrightarrow> rd_runs db' = rd_runs db @ [n] \<Longrightarrow>
    valid_run_row n \<Longrightarrow> attempt_free n (rd_runs db) \<Longrightarrow>
    (isBound db (rn_task n) \<Longrightarrow> rn_status n = R_STARTED \<and>
       (\<forall>r\<in>set (rd_runs db). rn_task r = rn_task n \<longrightarrow> rn_status r \<noteq> R_STARTED)) \<Longrightarrow> run_change sha db db'"
| delete: "rd_bindings db' = rd_bindings db \<Longrightarrow> select rn_id (rd_runs db) i = Some old \<Longrightarrow> \<not> isBound db (rn_task old) \<Longrightarrow>
    rd_runs db' = remove_row rn_id i (rd_runs db) \<Longrightarrow> run_change sha db db'"

section \<open>Each operation keeps the contract\<close>

lemma noContention_Inr [simp]: "noContention busy m = Inr x \<longleftrightarrow> \<not> busy \<and> m = Inr x"
  by (simp add: noContention_def)

lemma upsert_run_Inr:
  "upsert_run r db = Inr db' \<Longrightarrow> db' = db\<lparr>rd_runs := upsert rn_id r (rd_runs db)\<rparr> \<and> valid_run_row r \<and>
     attempt_free r (rd_runs db) \<and> (\<forall>old. select rn_id (rd_runs db) (rn_id r) = Some old \<longrightarrow> same_start r old)"
  by (auto simp: upsert_run_def err_bind_Inr_iff split: option.splits)

lemma decode_run_same [simp]:
  "rn_id (decode_run r) = rn_id r" "rn_task (decode_run r) = rn_task r" "rn_status (decode_run r) = rn_status r"
  "rn_attempt (decode_run r) = rn_attempt r"
  "rn_metadata (decode_run r) = rn_metadata r" "metadata_of (decode_run r) = metadata_of r"
  "same_start (decode_run r) s = same_start r s" "same_start s (decode_run r) = same_start s r"
  "rn_dispatch r = Some d \<Longrightarrow> rn_dispatch (decode_run r) = Some d"
  by (simp_all add: decode_run_def metadata_of_def same_start_def split: option.splits)

lemma extract_decode [simp]: "extractContainmentAudit sha (decode_run r) = extractContainmentAudit sha r"
  by (simp only: extractContainmentAudit_def decode_run_same)

lemma extract_cong:
  "rn_id a = rn_id b \<Longrightarrow> metadata_of a = metadata_of b \<Longrightarrow> extractContainmentAudit sha a = extractContainmentAudit sha b"
  by (simp only: extractContainmentAudit_def)

lemma evolves_decode: "evolves sha (decode_run old) new \<Longrightarrow> evolves sha old new"
  by (simp add: evolves_def)

lemma update_change:
  assumes "get_run db i = Some run" "upsert_run n db = Inr db'" "rn_id n = i" "isBound db (rn_task n) \<Longrightarrow> evolves sha run n"
  shows "run_change sha db db'"
proof -
  obtain old where old: "select rn_id (rd_runs db) (rn_id n) = Some old" "run = decode_run old"
    using assms(1,3) by (auto simp: get_run_def)
  show ?thesis
    using upsert_run_Inr [OF assms(2)] old assms(4) by (intro run_change.update [OF _ old(1)]) (auto intro: evolves_decode)
qed

lemma insert_run_change:
  assumes "insert_run n db = Inr db'" "isBound db (rn_task n) \<Longrightarrow> rn_status n = R_STARTED \<and>
       (\<forall>r\<in>set (rd_runs db). rn_task r = rn_task n \<longrightarrow> rn_status r \<noteq> R_STARTED)"
  shows "run_change sha db db'"
proof -
  have fresh: "rn_id n \<notin> rn_id ` set (rd_runs db)" and up: "upsert_run n db = Inr db'"
    using assms(1) by (auto simp: insert_run_def split: if_splits)
  show ?thesis
    using upsert_run_Inr [OF up] fresh assms(2) by (intro run_change.insert [of _ _ n]) (auto simp: upsert_fresh)
qed

lemma insertStarted_Inr:
  "insertStarted t cap i ts db = Inr (db', r) \<Longrightarrow> insert_run r db = Inr db' \<and> rn_task r = t \<and> rn_status r = R_STARTED"
  by (auto simp: insertStarted_def Let_def err_bind_Inr_iff split: if_splits)

lemma admit_change:
  assumes "admit_continuation handoff item task ts db = Inr (db', b)"
  shows "run_change sha db db'"
proof -
  let ?f = "filter (\<lambda>b. cb_handoff b = wh_id handoff \<or> cb_task b = tk_id task) (rd_bindings db)"
  show ?thesis
  proof (cases ?f)
    case Nil
    then have new: "\<forall>b\<in>set (rd_bindings db). cb_handoff b \<noteq> wh_id handoff \<and> cb_task b \<noteq> tk_id task"
      by (simp add: filter_empty_conv)
    from Nil assms have "\<not> list_ex (\<lambda>r. rn_task r = tk_id task) (rd_runs db)"
      "db' = db\<lparr>rd_bindings := rd_bindings db @ [\<lparr>cb_handoff = wh_id handoff, cb_task = tk_id task, cb_recorded_at = ts\<rparr>]\<rparr>"
      by (auto simp: admit_continuation_def Let_def split: if_splits)
    with new show ?thesis by (intro run_change.bind) (auto simp: list_ex_iff)
  next
    case (Cons row rest)
    with assms have "db' = db" by (auto simp: admit_continuation_def split: if_splits)
    then show ?thesis by (simp add: run_change.same)
  qed
qed

lemma commit_change:
  assumes "commitProviderDispatchIfPreDispatch i e db = Inr (db', r)"
  shows "run_change sha db db' \<and> (\<exists>run. get_run db i = Some run \<and> rn_status run = R_STARTED \<and>
    rn_dispatch run = Some PRE_DISPATCH \<and> r = run\<lparr>rn_dispatch := Some DISPATCH_COMMITTED\<rparr> \<and> upsert_run r db = Inr db')"
proof -
  from assms obtain run where run: "get_run db i = Some run" "rn_status run = R_STARTED" "rn_dispatch run = Some PRE_DISPATCH"
    "r = run\<lparr>rn_dispatch := Some DISPATCH_COMMITTED\<rparr>" "upsert_run r db = Inr db'"
    by (auto simp: commitProviderDispatchIfPreDispatch_def err_bind_Inr_iff Let_def split: if_splits option.splits)
  have "rn_id r = i" using run by (auto simp: get_run_def dest: select_SomeD)
  moreover have "evolves sha run r"
  proof -
    have "extractContainmentAudit sha r = extractContainmentAudit sha run"
      by (rule extract_cong) (simp_all add: run(4) metadata_of_def)
    then show ?thesis using run(3,4) by (simp add: evolves_def same_start_def)
  qed
  ultimately show ?thesis using run update_change by blast
qed

lemma guarded_change:
  assumes "guardedStart f cap i ts db = Inr (db', r)"
  shows "run_change sha db db'"
proof -
  have n: "\<not> list_ex (\<lambda>r. rn_task r = tk_id (sf_task f) \<and> rn_status r = R_STARTED) (rd_runs db)"
    and i: "insertStarted (tk_id (sf_task f)) cap i ts db = Inr (db', r)"
    using assms by (auto simp: guardedStart_def Let_def err_bind_Inr_iff)
  show ?thesis
    using n insertStarted_Inr [OF i] by (intro insert_run_change [of r]) (auto simp: list_ex_iff)
qed

lemma start_change:
  assumes "start_run task cap i ts db = Inr (db', r)"
  shows "run_change sha db db'"
proof -
  have b: "\<not> isBound db (tk_id task)" and i: "insertStarted (tk_id task) cap i ts db = Inr (db', r)"
    using assms by (auto simp: start_run_def split: if_splits)
  then show ?thesis using insertStarted_Inr [OF i] by (intro insert_run_change [of r]) auto
qed

lemma extract_snapshot: "case extractContainmentAudit sha r of None \<Rightarrow> True | Some y \<Rightarrow> \<exists>v e t. snapshotContainmentAudit sha v e t = Some y"
  by (auto simp: extractContainmentAudit_def split: option.splits)

lemma extracts_identical:
  "containmentEvidenceIdentical (extractContainmentAudit sha a) (extractContainmentAudit sha b) \<longleftrightarrow>
   extractContainmentAudit sha a = extractContainmentAudit sha b"
  by (rule evidence_identical_eq) (erule disjE; hypsubst; rule extract_snapshot)

lemma uncertain_has_key: "uncertain (extractContainmentAudit sha r) \<Longrightarrow> audit_key \<in> fst ` set (metadata_of r)"
  by (rule ccontr) (simp add: extractContainmentAudit_def uncertain_def map_of_eq_None_iff [THEN iffD2])

lemma save_run_parts:
  assumes "save_run sha run db = Inr (db', r)"
  shows "upsert_run r db = Inr db'" "\<exists>d. r = run\<lparr>rn_dispatch := d\<rparr>"
    "\<And>old. select rn_id (rd_runs db) (rn_id run) = Some old \<Longrightarrow> rn_dispatch r = rn_dispatch (decode_run old) \<and>
      (rn_status old = R_STARTED \<and> audit_key \<in> fst ` set (metadata_of old) \<longrightarrow> rn_status run = R_STARTED)"
    "isBound db (rn_task run) \<Longrightarrow> \<exists>old. select rn_id (rd_runs db) (rn_id run) = Some old \<and>
      (rn_status old \<noteq> R_STARTED \<longrightarrow> rn_status run \<noteq> R_STARTED) \<and>
      extractContainmentAudit sha old = extractContainmentAudit sha run"
proof -
  note parts = save_run_def [of sha run db] Let_def err_bind_Inr_iff extracts_identical
  show "upsert_run r db = Inr db'" "\<exists>d. r = run\<lparr>rn_dispatch := d\<rparr>"
    using assms by (auto simp: parts split: if_split_asm)
  show "rn_dispatch r = rn_dispatch (decode_run old) \<and>
      (rn_status old = R_STARTED \<and> audit_key \<in> fst ` set (metadata_of old) \<longrightarrow> rn_status run = R_STARTED)"
    if "select rn_id (rd_runs db) (rn_id run) = Some old" for old
    using assms that by (auto simp: parts split: if_split_asm)
  show "\<exists>old. select rn_id (rd_runs db) (rn_id run) = Some old \<and>
      (rn_status old \<noteq> R_STARTED \<longrightarrow> rn_status run \<noteq> R_STARTED) \<and>
      extractContainmentAudit sha old = extractContainmentAudit sha run"
    if "isBound db (rn_task run)"
    using assms that by (cases "select rn_id (rd_runs db) (rn_id run)") (auto simp: parts split: if_split_asm)
qed

lemma save_change:
  assumes "save_run sha run db = Inr (db', r)"
  shows "run_change sha db db'"
proof -
  note p = save_run_parts [OF assms]
  have up: "upsert_run r db = Inr db'" using p(1) .
  obtain d where r: "r = run\<lparr>rn_dispatch := d\<rparr>" using p(2) by blast
  have ex: "extractContainmentAudit sha r = extractContainmentAudit sha run"
    by (rule extract_cong) (simp_all add: r metadata_of_def)
  show ?thesis
  proof (cases "select rn_id (rd_runs db) (rn_id r)")
    case None
    then have "insert_run r db = Inr db'" using up by (simp add: insert_run_def select_None_iff)
    moreover have "\<not> isBound db (rn_task r)" using p(4) None by (auto simp: r)
    ultimately show ?thesis by (intro insert_run_change [of r]) auto
  next
    case (Some old)
    have "evolves sha old r" if "isBound db (rn_task r)"
    proof -
      have same: "extractContainmentAudit sha old = extractContainmentAudit sha r"
        and st: "rn_status old \<noteq> R_STARTED \<longrightarrow> rn_status r \<noteq> R_STARTED"
        and d: "rn_dispatch r = rn_dispatch (decode_run old)"
        and k: "rn_status old = R_STARTED \<and> audit_key \<in> fst ` set (metadata_of old) \<longrightarrow> rn_status r = R_STARTED"
        using p(3) [of old] p(4) Some that ex by (auto simp: r)
      have "rn_id old = rn_id r" using Some by (auto dest: select_SomeD)
      moreover have "same_start r old" using upsert_run_Inr [OF up] Some by blast
      ultimately show ?thesis using same st d k uncertain_has_key [of sha old] by (auto simp: evolves_def)
    qed
    with Some upsert_run_Inr [OF up] show ?thesis by (intro run_change.update [OF _ Some]) auto
  qed
qed

lemma map_of_set_member: "map_of (set_member k v m) j = (if j = k then Some v else map_of m j)"
  by (induction m) (auto simp: set_member_def)

lemma set_member_nonempty: "set_member k v m \<noteq> []"
  by (cases m) (simp_all add: set_member_def)

lemma loadStarted_Inr:
  "loadStartedRunOrThrow i db = Inr run \<Longrightarrow> get_run db i = Some run \<and> rn_status run = R_STARTED \<and> isBound db (rn_task run) \<and> rn_id run = i"
  by (auto simp: loadStartedRunOrThrow_def get_run_def split: option.splits if_splits dest: select_SomeD)

lemma extract_written:
  "snapshotContainmentAudit sha v (rn_id run) (rn_id run) = Some a \<Longrightarrow>
   extractContainmentAudit sha (run\<lparr>rn_metadata := Some (set_member audit_key (audit_json a) m)\<rparr>) = Some a"
  by (simp add: extractContainmentAudit_def metadata_of_def map_of_set_member snapshot_json)

lemma write_change:
  assumes "loadStartedRunOrThrow i db = Inr run" "writeContainmentAudit run a db = Inr (db', r)"
    "snapshotContainmentAudit sha v i i = Some a" "evidence_le (extractContainmentAudit sha run) (Some a)"
  shows "run_change sha db db'"
proof -
  note l = loadStarted_Inr [OF assms(1)]
  let ?n = "run\<lparr>rn_metadata := Some (set_member audit_key (audit_json a) (metadata_of run))\<rparr>"
  have "upsert_run ?n db = Inr db'" using assms(2) by (auto simp: writeContainmentAudit_def Let_def err_bind_Inr_iff)
  moreover have "evolves sha run ?n"
    using l assms(4) extract_written [of sha v run a] assms(3) by (simp add: evolves_def same_start_def)
  ultimately show ?thesis using l by (intro update_change [of db i run ?n]) simp_all
qed

lemma record_binding_change:
  assumes "recordContainmentBindingIfAbsent sha i audit db = Inr (db', r)"
  shows "run_change sha db db'"
proof -
  obtain run where run: "loadStartedRunOrThrow i db = Inr run"
    using assms by (auto simp: recordContainmentBindingIfAbsent_def err_bind_Inr_iff)
  obtain a where a: "snapshotContainmentAudit sha audit i i = Some a"
    using assms run by (auto simp: recordContainmentBindingIfAbsent_def split: option.splits)
  show ?thesis
  proof (cases "extractContainmentAudit sha run")
    case None
    with assms run a have "writeContainmentAudit run a db = Inr (db', r)"
      by (simp add: recordContainmentBindingIfAbsent_def split: if_split_asm)
    then show ?thesis by (rule write_change [OF run _ a]) (simp add: None evidence_le_def)
  next
    case (Some c)
    with assms run a have "db' = db" by (simp add: recordContainmentBindingIfAbsent_def split: if_split_asm)
    then show ?thesis by (simp add: run_change.same)
  qed
qed

lemma record_post_change:
  assumes "recordContainmentPostEvidenceIfAbsent sha i audit db = Inr (db', r)"
  shows "run_change sha db db'"
proof -
  obtain run where run: "loadStartedRunOrThrow i db = Inr run"
    using assms by (auto simp: recordContainmentPostEvidenceIfAbsent_def err_bind_Inr_iff)
  obtain a where a: "snapshotContainmentAudit sha audit i i = Some a"
    using assms run by (auto simp: recordContainmentPostEvidenceIfAbsent_def split: option.splits)
  obtain post where post: "ca_post a = Some post"
    using assms run a by (auto simp: recordContainmentPostEvidenceIfAbsent_def split: option.split_asm)
  obtain c where c: "extractContainmentAudit sha run = Some c"
    using assms run a post by (auto simp: recordContainmentPostEvidenceIfAbsent_def split: option.split_asm)
  have id: "bindingIdentical (ca_binding c) (ca_binding a)"
    using assms run a post c by (simp add: recordContainmentPostEvidenceIfAbsent_def split: if_split_asm)
  obtain v e t where "snapshotContainmentAudit sha v e t = Some c" using extract_snapshot [of sha run] c by auto
  then have eq: "ca_binding c = ca_binding a"
    using id a bindingIdentical_eq snapshot_binding_ok by metis
  show ?thesis
  proof (cases "ca_post c")
    case None
    with assms run a post c id have "writeContainmentAudit run a db = Inr (db', r)"
      by (simp add: recordContainmentPostEvidenceIfAbsent_def)
    then show ?thesis by (rule write_change [OF run _ a]) (simp add: c None evidence_le_def eq)
  next
    case (Some p)
    with assms run a post c id have "db' = db"
      by (simp add: recordContainmentPostEvidenceIfAbsent_def split: if_split_asm)
    then show ?thesis by (simp add: run_change.same)
  qed
qed

lemma terminalize_change:
  assumes "terminalizePreservingSecurityEvidence sha i q db = Inr (db', r)"
  shows "run_change sha db db'"
proof -
  from assms obtain run where l: "loadStartedRunOrThrow i db = Inr run"
    by (auto simp: terminalizePreservingSecurityEvidence_def err_bind_Inr_iff)
  note run = loadStarted_Inr [OF l]
  show ?thesis
  proof (cases "uncertain (extractContainmentAudit sha run)")
    case True
    then have "db' = db" using assms l by (auto simp: terminalizePreservingSecurityEvidence_def split: if_splits)
    then show ?thesis by (simp add: run_change.same)
  next
    case False
    from assms l False have up: "upsert_run r db = Inr db'"
      and r: "r = terminal_run run (extractContainmentAudit sha run) q"
      by (auto simp: terminalizePreservingSecurityEvidence_def Let_def err_bind_Inr_iff split: if_split_asm)
    have start: "rn_id r = rn_id run" "same_start r run" "rn_dispatch r = rn_dispatch run"
      by (simp_all add: r terminal_run_def Let_def same_start_def)
    have keep: "\<exists>m. rn_metadata r = Some (set_member audit_key (audit_json a) m)"
      if "extractContainmentAudit sha run = Some a" for a
      using that by (simp add: r terminal_run_def merged_metadata_def Let_def set_member_nonempty) blast
    have "extractContainmentAudit sha r = Some a" if a: "extractContainmentAudit sha run = Some a" for a
    proof -
      obtain v where "snapshotContainmentAudit sha v (rn_id run) (rn_id run) = Some a"
        using a by (auto simp: extractContainmentAudit_def split: option.splits)
      then show ?thesis using keep [OF a] start(1) snapshot_json
        by (auto simp: extractContainmentAudit_def metadata_of_def map_of_set_member)
    qed
    then have "evidence_le (extractContainmentAudit sha run) (extractContainmentAudit sha r)"
      by (auto simp: evidence_le_def split: option.splits)
    then have "evolves sha run r" using start False run by (simp add: evolves_def)
    with up run start show ?thesis by (intro update_change [of db i run r]) simp_all
  qed
qed

lemma run_step_change: "run_step sha db db' \<Longrightarrow> run_change sha db db'"
proof (induction rule: run_step.induct)
  case (deleted busy i db db')
  then show ?case
    by (auto simp: delete_run_def intro: run_change.same run_change.delete split: option.splits if_splits)
next
  case (world db hs ws tasks as)
  then show ?case by (simp add: run_change.same)
qed (use admit_change commit_change start_change guarded_change save_change record_binding_change record_post_change
      terminalize_change in auto)

end
