(* ===== verification/Task_Run_Safety.thy ===== *)
theory Task_Run_Safety
  imports Task_Runs
begin

text \<open>
  The guarantees of the attempt store, from the contract \<open>run_change\<close> that every operation of \<open>Task_Runs\<close>
  keeps: at most one live attempt of a continuation-bound task, append-only containment evidence, at most one
  provider dispatch per attempt, and an uncertain attempt that stays unresolved.
\<close>

section \<open>The invariant\<close>

definition run_inv :: "run_db \<Rightarrow> bool" where
  "run_inv db \<longleftrightarrow> distinct (map rn_id (rd_runs db)) \<and>
     distinct (map cb_handoff (rd_bindings db)) \<and> distinct (map cb_task (rd_bindings db)) \<and>
     (\<forall>a\<in>set (rd_runs db). \<forall>b\<in>set (rd_runs db). rn_task a = rn_task b \<longrightarrow>
        (rn_attempt a = rn_attempt b \<longrightarrow> a = b) \<and>
        (isBound db (rn_task a) \<and> rn_status a = R_STARTED \<and> rn_status b = R_STARTED \<longrightarrow> a = b))"

lemma isBound_iff: "isBound db t \<longleftrightarrow> t \<in> cb_task ` set (rd_bindings db)"
  by (auto simp: isBound_def list_ex_iff)

lemma isBound_cong: "rd_bindings db' = rd_bindings db \<Longrightarrow> isBound db' t = isBound db t"
  by (simp add: isBound_def)

lemma run_invI:
  assumes "distinct (map rn_id (rd_runs db))" "distinct (map cb_handoff (rd_bindings db))" "distinct (map cb_task (rd_bindings db))"
    "\<And>a b. a \<in> set (rd_runs db) \<Longrightarrow> b \<in> set (rd_runs db) \<Longrightarrow> rn_task a = rn_task b \<Longrightarrow> rn_attempt a = rn_attempt b \<Longrightarrow> a = b"
    "\<And>a b. a \<in> set (rd_runs db) \<Longrightarrow> b \<in> set (rd_runs db) \<Longrightarrow> rn_task a = rn_task b \<Longrightarrow> isBound db (rn_task a) \<Longrightarrow>
       rn_status a = R_STARTED \<Longrightarrow> rn_status b = R_STARTED \<Longrightarrow> a = b"
  shows "run_inv db"
  using assms unfolding run_inv_def by blast

lemma run_invD:
  assumes "run_inv db"
  shows "distinct (map rn_id (rd_runs db))" "distinct (map cb_handoff (rd_bindings db))" "distinct (map cb_task (rd_bindings db))"
    "\<And>a b. a \<in> set (rd_runs db) \<Longrightarrow> b \<in> set (rd_runs db) \<Longrightarrow> rn_task a = rn_task b \<Longrightarrow> rn_attempt a = rn_attempt b \<Longrightarrow> a = b"
    "\<And>a b. a \<in> set (rd_runs db) \<Longrightarrow> b \<in> set (rd_runs db) \<Longrightarrow> rn_task a = rn_task b \<Longrightarrow> isBound db (rn_task a) \<Longrightarrow>
       rn_status a = R_STARTED \<Longrightarrow> rn_status b = R_STARTED \<Longrightarrow> a = b"
  using assms unfolding run_inv_def by blast+

lemma run_change_inv:
  assumes "run_change sha db db'" "run_inv db"
  shows "run_inv db'"
  using assms
proof (induction rule: run_change.induct)
  case (same db' db)
  then show ?case by (simp add: run_inv_def isBound_def)
next
  case (bind db' db b)
  note inv = run_invD [OF bind.prems]
  show ?case
  proof (rule run_invI)
    fix x y
    assume x: "x \<in> set (rd_runs db')" "y \<in> set (rd_runs db')" "rn_task x = rn_task y" "isBound db' (rn_task x)"
      "rn_status x = R_STARTED" "rn_status y = R_STARTED"
    have "rn_task x \<noteq> cb_task b" using x(1) bind.hyps(1,5) by (metis imageI)
    then have "isBound db (rn_task x)" using x(4) bind.hyps(2) by (simp add: isBound_def)
    then show "x = y" using inv(5) x bind.hyps(1) by simp
  qed (use inv bind.hyps in auto)
next
  case (update db' db n old)
  note inv = run_invD [OF update.prems]
  have old: "old \<in> set (rd_runs db)" "rn_id old = rn_id n" using update.hyps(2) by (auto dest: select_SomeD)
  have rows: "x \<in> set (rd_runs db') \<longleftrightarrow> x = n \<or> (x \<in> set (rd_runs db) \<and> rn_id x \<noteq> rn_id n)" for x
    using update.hyps(4) upsert_in_iff [OF inv(1)] by simp
  have start: "rn_task n = rn_task old" "rn_attempt n = rn_attempt old" using update.hyps(3) by (simp_all add: same_start_def)
  have live: "rn_status old = R_STARTED" if "isBound db (rn_task n)" "rn_status n = R_STARTED"
    using update.hyps(5) that by (auto simp: evolves_def)
  show ?case
  proof (rule run_invI)
    show "distinct (map rn_id (rd_runs db'))" using upsert_distinct [OF inv(1)] update.hyps(4) by simp
    show "a = b" if "a \<in> set (rd_runs db')" "b \<in> set (rd_runs db')" "rn_task a = rn_task b" "rn_attempt a = rn_attempt b" for a b
      using that old start inv(4) unfolding rows by metis
    show "a = b" if "a \<in> set (rd_runs db')" "b \<in> set (rd_runs db')" "rn_task a = rn_task b" "isBound db' (rn_task a)"
      "rn_status a = R_STARTED" "rn_status b = R_STARTED" for a b
      using that old start inv(5) live unfolding rows isBound_cong [OF update.hyps(1)] by metis
  qed (use inv update.hyps in auto)
next
  case (insert db' db n)
  note inv = run_invD [OF insert.prems]
  have free: "rn_task x \<noteq> rn_task n \<or> rn_attempt x \<noteq> rn_attempt n" if "x \<in> set (rd_runs db)" for x
  proof -
    have "rn_id x \<noteq> rn_id n" using insert.hyps(2) that by (metis imageI)
    then show ?thesis using insert.hyps(5) that by (auto simp: attempt_free_def list_all_iff)
  qed
  show ?case
  proof (rule run_invI)
    show "distinct (map rn_id (rd_runs db'))" using inv(1) insert.hyps by auto
    show "a = b" if "a \<in> set (rd_runs db')" "b \<in> set (rd_runs db')" "rn_task a = rn_task b" "rn_attempt a = rn_attempt b" for a b
      using that free [of a] free [of b] inv(4) insert.hyps(3) by auto
    show "a = b" if "a \<in> set (rd_runs db')" "b \<in> set (rd_runs db')" "rn_task a = rn_task b" "isBound db' (rn_task a)"
      "rn_status a = R_STARTED" "rn_status b = R_STARTED" for a b
      using that inv(5) insert.hyps(3,6) unfolding isBound_cong [OF insert.hyps(1)] by auto
  qed (use inv insert.hyps in auto)
next
  case (delete db' db i old)
  note inv = run_invD [OF delete.prems]
  have sub: "x \<in> set (rd_runs db)" if "x \<in> set (rd_runs db')" for x
    using that delete.hyps(4) by (simp add: remove_row_def)
  show ?case
  proof (rule run_invI)
    show "distinct (map rn_id (rd_runs db'))" using inv(1) delete.hyps(4) by (simp add: remove_row_def distinct_map_filter)
  qed (use inv delete.hyps(1) sub isBound_cong [OF delete.hyps(1)] in auto)
qed

lemma run_step_inv: "run_step sha db db' \<Longrightarrow> run_inv db \<Longrightarrow> run_inv db'"
  using run_step_change run_change_inv by blast

lemma run_steps_inv: "(run_step sha)\<^sup>*\<^sup>* db db' \<Longrightarrow> run_inv db \<Longrightarrow> run_inv db'"
  by (induction rule: rtranclp_induct) (simp_all add: run_step_inv)

lemma runs_reachable_inv: "runs_reachable sha db \<Longrightarrow> run_inv db"
  unfolding runs_reachable_def by (erule run_steps_inv) (simp add: no_runs_def run_inv_def)

section \<open>Attempts of bound tasks evolve\<close>

lemma run_change_evolves:
  assumes "run_change sha db db'" "isBound db t"
  shows "isBound db' t \<and> (\<forall>i r. select rn_id (rd_runs db) i = Some r \<and> rn_task r = t \<longrightarrow>
    (\<exists>r'. select rn_id (rd_runs db') i = Some r' \<and> evolves sha r r'))"
  using assms
proof (induction rule: run_change.induct)
  case (same db' db)
  then show ?case using evolves_refl by (auto simp: isBound_def)
next
  case (bind db' db b)
  then show ?case using evolves_refl by (auto simp: isBound_def)
next
  case (update db' db n old)
  have "rn_id old = rn_id n" "rn_task n = rn_task old"
    using update.hyps(2,3) by (auto simp: same_start_def dest: select_SomeD)
  with update show ?case by (auto simp: isBound_cong [OF update.hyps(1)] select_upsert)
next
  case (insert db' db n)
  have "select rn_id (rd_runs db') i = Some r" if "select rn_id (rd_runs db) i = Some r" for i r
    using that insert.hyps(3) by (simp add: select_append)
  with insert show ?case using evolves_refl by (auto simp: isBound_cong [OF insert.hyps(1)])
next
  case (delete db' db i old)
  then show ?case using evolves_refl by (auto simp: isBound_cong [OF delete.hyps(1)] select_remove)
qed

lemma run_steps_evolve:
  assumes "(run_step sha)\<^sup>*\<^sup>* db db'" "isBound db t" "select rn_id (rd_runs db) i = Some r" "rn_task r = t"
  shows "isBound db' t \<and> (\<exists>r'. select rn_id (rd_runs db') i = Some r' \<and> evolves sha r r')"
  using assms(1)
proof (induction rule: rtranclp_induct)
  case base
  show ?case using assms evolves_refl by auto
next
  case (step y z)
  then obtain r' where r': "select rn_id (rd_runs y) i = Some r'" "evolves sha r r'" by blast
  then have "rn_task r' = t" using assms(4) by (simp add: evolves_def same_start_def)
  with step r' show ?case using run_change_evolves [OF run_step_change [OF step.hyps(2)]] evolves_trans by blast
qed

lemma get_run_select: "get_run db i = Some r \<Longrightarrow> \<exists>s. select rn_id (rd_runs db) i = Some s \<and> r = decode_run s"
  by (auto simp: get_run_def)

lemma all_equal_length:
  assumes "distinct xs" "\<And>x y. x \<in> set xs \<Longrightarrow> y \<in> set xs \<Longrightarrow> x = y"
  shows "length xs \<le> 1"
proof (cases xs)
  case (Cons a ys)
  then have "ys = []" using assms(1) assms(2) [of a "hd ys"] by (cases ys) auto
  with Cons show ?thesis by simp
qed simp

section \<open>The guarantees\<close>

text \<open>
  C4. A continuation-bound task has at most one live attempt; the attempts of a task have distinct ordinals; a
  handoff is bound to one task and a task to one handoff.
\<close>

theorem one_live_attempt:
  assumes "runs_reachable sha db" "isBound db t"
  shows "length (filter (\<lambda>r. rn_task r = t \<and> rn_status r = R_STARTED) (rd_runs db)) \<le> 1 \<and>
    distinct (map rn_attempt (filter (\<lambda>r. rn_task r = t) (rd_runs db))) \<and>
    distinct (map cb_handoff (rd_bindings db)) \<and> distinct (map cb_task (rd_bindings db))"
proof -
  note inv = run_invD [OF runs_reachable_inv [OF assms(1)]]
  have d: "distinct (rd_runs db)" using inv(1) by (simp add: distinct_map)
  let ?live = "filter (\<lambda>r. rn_task r = t \<and> rn_status r = R_STARTED) (rd_runs db)"
  have "x = y" if "x \<in> set ?live" "y \<in> set ?live" for x y using that inv(5) [of x y] assms(2) by auto
  then have "length ?live \<le> 1" using d by (intro all_equal_length) simp_all
  moreover have "inj_on rn_attempt (set (filter (\<lambda>r. rn_task r = t) (rd_runs db)))"
    using inv(4) by (auto simp: inj_on_def)
  ultimately show ?thesis using d inv(2,3) by (simp add: distinct_map)
qed

text \<open>
  C5. Containment evidence is append-only: whatever operations follow, an attempt of a bound task keeps its
  identity and its recorded binding, and once the post-attempt observation is recorded the whole record is fixed.
\<close>

theorem evidence_is_permanent:
  assumes "isBound db (rn_task r)" "get_run db i = Some r" "extractContainmentAudit sha r = Some a" "(run_step sha)\<^sup>*\<^sup>* db db'"
  shows "\<exists>r' b. get_run db' i = Some r' \<and> rn_task r' = rn_task r \<and> rn_attempt r' = rn_attempt r \<and>
    extractContainmentAudit sha r' = Some b \<and> ca_binding b = ca_binding a \<and> (ca_post a \<noteq> None \<longrightarrow> b = a)"
proof -
  obtain s where s: "select rn_id (rd_runs db) i = Some s" "r = decode_run s" using get_run_select [OF assms(2)] by blast
  then have "rn_task s = rn_task r" by simp
  then obtain s' where s': "select rn_id (rd_runs db') i = Some s'" "evolves sha s s'"
    using run_steps_evolve [OF assms(4,1) s(1)] by blast
  have "extractContainmentAudit sha s = Some a" using assms(3) s(2) by simp
  then obtain b where "extractContainmentAudit sha s' = Some b" "ca_binding b = ca_binding a" "ca_post a \<noteq> None \<longrightarrow> b = a"
    using s'(2) by (auto simp: evolves_def evidence_le_def split: option.splits)
  moreover have "get_run db' i = Some (decode_run s')" using s'(1) by (simp add: get_run_def)
  moreover have "rn_attempt (decode_run s') = rn_attempt r" "rn_task (decode_run s') = rn_task r"
    using s'(2) s(2) by (auto simp: evolves_def same_start_def decode_run_def split: option.splits)
  ultimately show ?thesis by (intro exI [of _ "decode_run s'"] exI [of _ b] conjI) simp_all
qed

text \<open>
  C3. A provider is dispatched at most once for an attempt of a bound task: after a successful commit every later
  one is refused, whatever saves, crashes between operations and other attempts come in between.
\<close>

theorem dispatch_commits_once:
  assumes "commitProviderDispatchIfPreDispatch i e db = Inr (db1, r)" "isBound db (rn_task r)" "(run_step sha)\<^sup>*\<^sup>* db1 db2"
  shows "commitProviderDispatchIfPreDispatch i i db2 = Inl (Plain ''PROVIDER_DISPATCH_NOT_PRE_DISPATCH'')"
proof -
  have i: "i \<noteq> []" using assms(1) by (auto simp: commitProviderDispatchIfPreDispatch_def)
  from commit_change [OF assms(1)] obtain run where run: "get_run db i = Some run"
    "r = run\<lparr>rn_dispatch := Some DISPATCH_COMMITTED\<rparr>" "upsert_run r db = Inr db1" by blast
  have "rn_id r = i" using run(1,2) by (auto simp: get_run_def dest: select_SomeD)
  then have sel: "select rn_id (rd_runs db1) i = Some r" and b: "isBound db1 (rn_task r)"
    using upsert_run_Inr [OF run(3)] assms(2) by (auto simp: select_upsert isBound_def)
  obtain r' where r': "select rn_id (rd_runs db2) i = Some r'" "evolves sha r r'"
    using run_steps_evolve [OF assms(3) b sel refl] by blast
  then have "rn_dispatch r' = Some DISPATCH_COMMITTED" using run(2) by (simp add: evolves_def)
  with r'(1) i show ?thesis by (simp add: commitProviderDispatchIfPreDispatch_def get_run_def)
qed

text \<open>
  C6. Recorded uncertainty is never turned into a definite outcome: a live attempt of a bound task whose evidence
  says the model did not match, or carries a failure code, stays STARTED in every later state, and no further
  attempt of the task can be started.
\<close>

theorem uncertain_attempt_stays_unresolved:
  assumes "isBound db (rn_task r)" "get_run db i = Some r" "rn_status r = R_STARTED"
    "uncertain (extractContainmentAudit sha r)" "(run_step sha)\<^sup>*\<^sup>* db db'"
  shows "(\<exists>r'. get_run db' i = Some r' \<and> rn_status r' = R_STARTED) \<and>
    (tk_id (sf_task f) = rn_task r \<longrightarrow> (\<forall>x. guardedStart f cap j ts db' \<noteq> Inr x)) \<and>
    (tk_id task = rn_task r \<longrightarrow> (\<forall>x. start_run task cap j ts db' \<noteq> Inr x))"
proof -
  obtain s where s: "select rn_id (rd_runs db) i = Some s" "r = decode_run s" using get_run_select [OF assms(2)] by blast
  then have t: "rn_task s = rn_task r" by simp
  obtain s' where s': "select rn_id (rd_runs db') i = Some s'" "evolves sha s s'" and b: "isBound db' (rn_task r)"
    using run_steps_evolve [OF assms(5,1) s(1) t] by blast
  have st: "rn_status s' = R_STARTED" "rn_task s' = rn_task r"
    using s'(2) assms(3,4) s(2) by (auto simp: evolves_def same_start_def)
  have "list_ex (\<lambda>x. rn_task x = rn_task r \<and> rn_status x = R_STARTED) (rd_runs db')"
    using st s'(1) by (auto simp: list_ex_iff dest: select_SomeD)
  then have "guardedStart f cap j ts db' \<noteq> Inr x" if "tk_id (sf_task f) = rn_task r" for x
    using that by (auto simp: guardedStart_def Let_def err_bind_Inr_iff)
  moreover have "start_run task cap j ts db' \<noteq> Inr x" if "tk_id task = rn_task r" for x
    using that b by (simp add: start_run_def)
  ultimately show ?thesis using s'(1) st by (simp add: get_run_def)
qed

section \<open>An example run\<close>

text \<open>A handoff is admitted, its task started, dispatched, bound to its containment and observed to mismatch.\<close>

definition ex_sha :: sha where "ex_sha d j = []"

definition ex_task :: "task_status \<Rightarrow> task" where
  "ex_task st = \<lparr>tk_id = ''t1'', tk_title = js ''ship'', tk_description = js ''ship it'', tk_status = st,
     tk_intent = \<lparr>in_type = IMPLEMENT_CODE, in_capability = CODE_REVIEW, in_confidence = ''1'', in_requires_work = True,
       in_summary = js ''ship'', in_raw = None\<rparr>,
     tk_risk = LOW, tk_context = \<lparr>ctx_platform = ''p'', ctx_space_id = None, ctx_channel_id = ''c'', ctx_thread_id = None, ctx_user_id = ''u'',
       ctx_direct = Some True\<rparr>,
     tk_actor = Some ''me'', tk_session = None, tk_project = None, tk_workspace = None, tk_plan = None,
     tk_created_at = Canon 0, tk_updated_at = Canon 0, tk_metadata = None\<rparr>"

definition ex_loaded :: "task_status \<Rightarrow> run_db" where
  "ex_loaded st = no_runs\<lparr>rd_handoffs := [example_handoff ''ship''], rd_items := hd_items example_world, rd_tasks := [ex_task st]\<rparr>"

definition ex_binding :: continuation_binding where
  "ex_binding = \<lparr>cb_handoff = js ''h1'', cb_task = ''t1'', cb_recorded_at = Canon 5\<rparr>"

definition ex_bound :: "task_status \<Rightarrow> task_run list \<Rightarrow> run_db" where
  "ex_bound st rs = (ex_loaded st)\<lparr>rd_bindings := [ex_binding], rd_runs := rs\<rparr>"

definition ex_run :: "dispatch_state \<Rightarrow> containment_audit option \<Rightarrow> task_run" where
  "ex_run d a = \<lparr>rn_id = ''r1'', rn_task = ''t1'', rn_attempt = 1, rn_status = R_STARTED, rn_dispatch = Some d,
     rn_capability = CODE_REVIEW, rn_provider = None, rn_artifacts = [], rn_started = Canon 7, rn_finished = None,
     rn_duration = None, rn_error = None, rn_metadata = map_option (\<lambda>x. [(audit_key, audit_json x)]) a, rn_usage = None\<rparr>"

definition ex_audit :: "post_attempt option \<Rightarrow> containment_audit" where
  "ex_audit p = \<lparr>ca_binding = zip binding_keys
     [''r1'', ''r1'', ''pol'', ''1'', replicate 64 CHR ''a'', replicate 64 CHR ''b'', ''prov'', ''model x'', replicate 64 CHR ''c'',
      replicate 64 CHR ''d'', ''NONE'', ''1'', replicate 64 CHR ''e'', replicate 64 CHR ''f'', ''v1'', replicate 64 CHR ''0'',
      replicate 64 CHR ''1'', ''NOT_PERFORMED'', ''VERIFIED_AT_BIND''], ca_post = p\<rparr>"

definition ex_post :: post_attempt where "ex_post = \<lparr>po_integrity = ''MISMATCH'', po_failure = None\<rparr>"

definition ex_facts :: start_facts where
  "ex_facts = \<lparr>sf_handoff = example_handoff ''ship'', sf_binding = ex_binding, sf_item = hd (hd_items example_world),
     sf_task = ex_task T_RUNNING, sf_approval = Not_required None\<rparr>"

lemma ex_admit:
  "admit_continuation (example_handoff ''ship'') (hd (hd_items example_world)) (ex_task T_PENDING) (Canon 5) (ex_loaded T_PENDING)
   = Inr (ex_bound T_PENDING [], ex_binding)"
  by code_simp

lemma ex_guarded:
  "guardedStart ex_facts CODE_REVIEW ''r1'' (Canon 7) (ex_bound T_RUNNING []) =
   Inr (ex_bound T_RUNNING [ex_run PRE_DISPATCH None], ex_run PRE_DISPATCH None)"
  by code_simp

lemma ex_commit:
  "commitProviderDispatchIfPreDispatch ''r1'' ''r1'' (ex_bound T_RUNNING [ex_run PRE_DISPATCH None]) =
   Inr (ex_bound T_RUNNING [ex_run DISPATCH_COMMITTED None], ex_run DISPATCH_COMMITTED None)"
  by code_simp

lemma ex_record:
  "recordContainmentBindingIfAbsent ex_sha ''r1'' (audit_json (ex_audit None)) (ex_bound T_RUNNING [ex_run DISPATCH_COMMITTED None]) =
   Inr (ex_bound T_RUNNING [ex_run DISPATCH_COMMITTED (Some (ex_audit None))], ex_run DISPATCH_COMMITTED (Some (ex_audit None)))"
  by code_simp

lemma ex_observe:
  "recordContainmentPostEvidenceIfAbsent ex_sha ''r1'' (audit_json (ex_audit (Some ex_post)))
     (ex_bound T_RUNNING [ex_run DISPATCH_COMMITTED (Some (ex_audit None))]) =
   Inr (ex_bound T_RUNNING [ex_run DISPATCH_COMMITTED (Some (ex_audit (Some ex_post)))],
     ex_run DISPATCH_COMMITTED (Some (ex_audit (Some ex_post))))"
  by code_simp

lemma ex_steps:
  "run_step ex_sha (ex_loaded T_PENDING) (ex_bound T_PENDING [])"
  "run_step ex_sha (ex_bound T_RUNNING []) (ex_bound T_RUNNING [ex_run PRE_DISPATCH None])"
  "run_step ex_sha (ex_bound T_RUNNING [ex_run DISPATCH_COMMITTED None])
     (ex_bound T_RUNNING [ex_run DISPATCH_COMMITTED (Some (ex_audit None))])"
  "run_step ex_sha (ex_bound T_RUNNING [ex_run DISPATCH_COMMITTED (Some (ex_audit None))])
     (ex_bound T_RUNNING [ex_run DISPATCH_COMMITTED (Some (ex_audit (Some ex_post)))])"
  using run_step.admitted [OF ex_admit] run_step.guarded [of False, simplified noContention_Inr, OF conjI [OF notI ex_guarded]]
    run_step.bound [of False, simplified noContention_Inr, OF conjI [OF notI ex_record]]
    run_step.observed [of False, simplified noContention_Inr, OF conjI [OF notI ex_observe]]
  by blast+

lemma ex_world_steps:
  "run_step ex_sha no_runs (ex_loaded T_PENDING)" "run_step ex_sha (ex_bound T_PENDING []) (ex_bound T_RUNNING [])"
  using run_step.world [where sha = ex_sha and db = no_runs and hs = "[example_handoff ''ship'']"
      and ws = "hd_items example_world" and tasks = "[ex_task T_PENDING]" and as = "[]"]
    run_step.world [where sha = ex_sha and db = "ex_bound T_PENDING []" and hs = "[example_handoff ''ship'']"
      and ws = "hd_items example_world" and tasks = "[ex_task T_RUNNING]" and as = "[]"]
  by (simp_all add: ex_loaded_def ex_bound_def no_runs_def)

lemma runs_reachable_step: "runs_reachable sha db \<Longrightarrow> run_step sha db db' \<Longrightarrow> runs_reachable sha db'"
  unfolding runs_reachable_def by (rule rtranclp.rtrancl_into_rtrancl)

lemma ex_live_reachable: "runs_reachable ex_sha (ex_bound T_RUNNING [ex_run PRE_DISPATCH None])"
proof -
  have "runs_reachable ex_sha no_runs" by (simp add: runs_reachable_def)
  then show ?thesis using ex_world_steps ex_steps(1,2) runs_reachable_step by blast
qed

lemma ex_isBound: "isBound (ex_bound st rs) ''t1''"
  by (simp add: isBound_def ex_bound_def ex_binding_def)

lemma ex_get_run: "get_run (ex_bound st [ex_run d a]) ''r1'' = Some (ex_run d a)"
  by (simp add: get_run_def ex_bound_def ex_run_def decode_run_def)

lemma ex_extract:
  "extractContainmentAudit ex_sha (ex_run d (Some (ex_audit None))) = Some (ex_audit None)"
  "extractContainmentAudit ex_sha (ex_run d (Some (ex_audit (Some ex_post)))) = Some (ex_audit (Some ex_post))"
  by (simp_all only: extractContainmentAudit_def) (code_simp+)

lemma ex_run_simps [simp]: "rn_task (ex_run d a) = ''t1''" "rn_status (ex_run d a) = R_STARTED" "rn_attempt (ex_run d a) = 1"
  by (simp_all add: ex_run_def)

theorem one_live_attempt_witness:
  "\<exists>db. runs_reachable ex_sha db \<and> length (filter (\<lambda>r. rn_task r = ''t1'' \<and> rn_status r = R_STARTED) (rd_runs db)) \<le> 1 \<and> rd_runs db \<noteq> []"
  using one_live_attempt [OF ex_live_reachable ex_isBound] ex_live_reachable
  by (intro exI [of _ "ex_bound T_RUNNING [ex_run PRE_DISPATCH None]"]) (simp add: ex_bound_def)

theorem evidence_is_permanent_witness:
  "\<exists>b. ca_binding b = ca_binding (ex_audit None) \<and>
     (\<exists>r'. get_run (ex_bound T_RUNNING [ex_run DISPATCH_COMMITTED (Some (ex_audit (Some ex_post)))]) ''r1'' = Some r' \<and>
        extractContainmentAudit ex_sha r' = Some b)"
  using evidence_is_permanent [OF _ ex_get_run ex_extract(1) r_into_rtranclp [of "run_step ex_sha", OF ex_steps(4)]]
  by (auto simp: ex_isBound)

theorem dispatch_commits_once_witness:
  "commitProviderDispatchIfPreDispatch ''r1'' ''r1'' (ex_bound T_RUNNING [ex_run DISPATCH_COMMITTED (Some (ex_audit None))]) =
   Inl (Plain ''PROVIDER_DISPATCH_NOT_PRE_DISPATCH'')"
  using dispatch_commits_once [OF ex_commit _ r_into_rtranclp [of "run_step ex_sha", OF ex_steps(3)]] by (simp add: ex_isBound)

theorem uncertain_attempt_stays_unresolved_witness:
  "\<forall>x. guardedStart ex_facts CODE_REVIEW ''r2'' (Canon 9)
     (ex_bound T_RUNNING [ex_run DISPATCH_COMMITTED (Some (ex_audit (Some ex_post)))]) \<noteq> Inr x"
proof -
  have u: "uncertain (extractContainmentAudit ex_sha (ex_run DISPATCH_COMMITTED (Some (ex_audit (Some ex_post)))))"
    by (simp only: ex_extract) (simp add: uncertain_def ex_audit_def ex_post_def)
  have t: "tk_id (sf_task ex_facts) = ''t1''" by (simp add: ex_facts_def ex_task_def)
  show ?thesis
    using uncertain_attempt_stays_unresolved [OF _ ex_get_run _ u rtranclp.rtrancl_refl, of T_RUNNING ex_facts] t
    by (simp add: ex_isBound)
qed

end
