(* ===== verification/Keyed_Mutex.thy ===== *)
theory Keyed_Mutex
  imports Prelude
begin

text \<open>
  The keyed in-process mutex (\<open>packages/core/src/util/keyed-mutex.ts\<close>) as a transition system. A call of
  \<open>run\<close> that queues is a ticket, numbered in arrival order; it remembers the promise it waits for (the tail of
  the key's queue at that moment, or none). Promise reactions run in any order the model allows: a ticket whose
  predecessor has settled may enter at any later time, and the clean-up of a drained queue may run before or after
  that.
\<close>

section \<open>State and operations\<close>

datatype work_phase = Queued | Inside | Settled

record mutex_work =
  wk_key :: string
  wk_prev :: "nat option"
  wk_phase :: work_phase

record mutex =
  mx_works :: "mutex_work list"
  mx_queues :: "string \<Rightarrow> nat option"

definition new_mutex :: mutex where
  "new_mutex = \<lparr>mx_works = [], mx_queues = (\<lambda>_. None)\<rparr>"

abbreviation work_of :: "mutex \<Rightarrow> nat \<Rightarrow> mutex_work" where "work_of m t \<equiv> mx_works m ! t"
abbreviation tickets :: "mutex \<Rightarrow> nat" where "tickets m \<equiv> length (mx_works m)"

text \<open>A hold is the ticket it was given to; it is live while that ticket is in its critical section.\<close>

definition holds :: "mutex \<Rightarrow> nat option \<Rightarrow> string \<Rightarrow> bool" where
  "holds m hold key = (case hold of None \<Rightarrow> False
     | Some t \<Rightarrow> t < tickets m \<and> wk_key (work_of m t) = key \<and> wk_phase (work_of m t) = Inside)"

datatype run_mode = Inline nat | Ticket nat

definition run_mutex :: "mutex \<Rightarrow> string \<Rightarrow> nat option \<Rightarrow> mutex \<times> run_mode" where
  "run_mutex m key held =
     (if holds m held key then (m, Inline (the held))
      else let t = tickets m in
        (\<lparr>mx_works = mx_works m @ [\<lparr>wk_key = key, wk_prev = mx_queues m key, wk_phase = Queued\<rparr>],
          mx_queues = (mx_queues m)(key := Some t)\<rparr>, Ticket t))"

definition set_phase :: "mutex \<Rightarrow> nat \<Rightarrow> work_phase \<Rightarrow> mutex" where
  "set_phase m t p = m\<lparr>mx_works := (mx_works m)[t := (work_of m t)\<lparr>wk_phase := p\<rparr>]\<rparr>"

definition settled :: "mutex \<Rightarrow> nat option \<Rightarrow> bool" where
  "settled m prev = (case prev of None \<Rightarrow> True | Some p \<Rightarrow> wk_phase (work_of m p) = Settled)"

definition ready :: "mutex \<Rightarrow> nat \<Rightarrow> bool" where
  "ready m t \<longleftrightarrow> t < tickets m \<and> wk_phase (work_of m t) = Queued \<and> settled m (wk_prev (work_of m t))"

definition enter_mutex :: "mutex \<Rightarrow> nat \<Rightarrow> mutex option" where
  "enter_mutex m t = (if ready m t then Some (set_phase m t Inside) else None)"

text \<open>The work returned or rejected: \<open>finally\<close> ends the hold and the tail settles either way.\<close>

definition leave_mutex :: "mutex \<Rightarrow> nat \<Rightarrow> mutex option" where
  "leave_mutex m t = (if t < tickets m \<and> wk_phase (work_of m t) = Inside then Some (set_phase m t Settled) else None)"

definition cleanup_mutex :: "mutex \<Rightarrow> nat \<Rightarrow> mutex option" where
  "cleanup_mutex m t =
     (if t < tickets m \<and> wk_phase (work_of m t) = Settled then
        (if mx_queues m (wk_key (work_of m t)) = Some t then Some (m\<lparr>mx_queues := (mx_queues m)(wk_key (work_of m t) := None)\<rparr>)
         else Some m)
      else None)"

inductive mutex_step :: "mutex \<Rightarrow> mutex \<Rightarrow> bool" where
  call: "run_mutex m key held = (m', r) \<Longrightarrow> mutex_step m m'"
| enter: "enter_mutex m t = Some m' \<Longrightarrow> mutex_step m m'"
| leave: "leave_mutex m t = Some m' \<Longrightarrow> mutex_step m m'"
| cleanup: "cleanup_mutex m t = Some m' \<Longrightarrow> mutex_step m m'"

inductive_cases mutex_stepE: "mutex_step m m'"

definition mutex_reachable :: "mutex \<Rightarrow> bool" where
  "mutex_reachable m \<longleftrightarrow> mutex_step\<^sup>*\<^sup>* new_mutex m"

section \<open>The invariant\<close>

text \<open>
  A ticket waits for the last earlier ticket of its key; one that waits for nothing has only settled tickets of its
  key before it; the recorded tail is the last ticket of its key, and a key without a tail has only settled tickets;
  the tickets before one that has entered are settled.
\<close>

definition before :: "mutex \<Rightarrow> nat \<Rightarrow> nat \<Rightarrow> bool" where
  "before m u t \<longleftrightarrow> u < t \<and> t < tickets m \<and> wk_key (work_of m u) = wk_key (work_of m t)"

definition waits_for_last :: "mutex \<Rightarrow> bool" where
  "waits_for_last m \<longleftrightarrow>
     (\<forall>t p. t < tickets m \<and> wk_prev (work_of m t) = Some p \<longrightarrow> before m p t \<and> (\<forall>u. before m u t \<longrightarrow> u \<le> p))"

definition first_is_free :: "mutex \<Rightarrow> bool" where
  "first_is_free m \<longleftrightarrow> (\<forall>t u. wk_prev (work_of m t) = None \<and> before m u t \<longrightarrow> wk_phase (work_of m u) = Settled)"

definition tail_is_last :: "mutex \<Rightarrow> bool" where
  "tail_is_last m \<longleftrightarrow> (\<forall>t key. mx_queues m key = Some t \<longrightarrow> t < tickets m \<and> wk_key (work_of m t) = key \<and>
     (\<forall>u<tickets m. wk_key (work_of m u) = key \<longrightarrow> u \<le> t))"

definition no_tail_drained :: "mutex \<Rightarrow> bool" where
  "no_tail_drained m \<longleftrightarrow> (\<forall>u<tickets m. mx_queues m (wk_key (work_of m u)) = None \<longrightarrow> wk_phase (work_of m u) = Settled)"

definition entered_in_order :: "mutex \<Rightarrow> bool" where
  "entered_in_order m \<longleftrightarrow> (\<forall>u t. before m u t \<and> wk_phase (work_of m t) \<noteq> Queued \<longrightarrow> wk_phase (work_of m u) = Settled)"

definition mutex_inv :: "mutex \<Rightarrow> bool" where
  "mutex_inv m \<longleftrightarrow> waits_for_last m \<and> first_is_free m \<and> tail_is_last m \<and> no_tail_drained m \<and> entered_in_order m"

lemma mutex_invD:
  assumes "mutex_inv m"
  shows "t < tickets m \<Longrightarrow> wk_prev (work_of m t) = Some p \<Longrightarrow> before m p t"
    "t < tickets m \<Longrightarrow> wk_prev (work_of m t) = Some p \<Longrightarrow> before m u t \<Longrightarrow> u \<le> p"
    "wk_prev (work_of m t) = None \<Longrightarrow> before m u t \<Longrightarrow> wk_phase (work_of m u) = Settled"
    "mx_queues m key = Some t \<Longrightarrow> t < tickets m \<and> wk_key (work_of m t) = key"
    "mx_queues m key = Some t \<Longrightarrow> u < tickets m \<Longrightarrow> wk_key (work_of m u) = key \<Longrightarrow> u \<le> t"
    "u < tickets m \<Longrightarrow> mx_queues m (wk_key (work_of m u)) = None \<Longrightarrow> wk_phase (work_of m u) = Settled"
    "before m u t \<Longrightarrow> wk_phase (work_of m t) \<noteq> Queued \<Longrightarrow> wk_phase (work_of m u) = Settled"
proof -
  have p: "waits_for_last m" "first_is_free m" "tail_is_last m" "no_tail_drained m" "entered_in_order m"
    using assms by (simp_all add: mutex_inv_def)
  show "before m p t" if "t < tickets m" "wk_prev (work_of m t) = Some p" using p(1) that unfolding waits_for_last_def by blast
  show "u \<le> p" if "t < tickets m" "wk_prev (work_of m t) = Some p" "before m u t"
    using p(1) that unfolding waits_for_last_def by blast
  show "wk_phase (work_of m u) = Settled" if "wk_prev (work_of m t) = None" "before m u t"
    using p(2) that unfolding first_is_free_def by blast
  show "t < tickets m \<and> wk_key (work_of m t) = key" if "mx_queues m key = Some t" using p(3) that unfolding tail_is_last_def by blast
  show "u \<le> t" if "mx_queues m key = Some t" "u < tickets m" "wk_key (work_of m u) = key"
    using p(3) that unfolding tail_is_last_def by blast
  show "wk_phase (work_of m u) = Settled" if "u < tickets m" "mx_queues m (wk_key (work_of m u)) = None"
    using p(4) that unfolding no_tail_drained_def by blast
  show "wk_phase (work_of m u) = Settled" if "before m u t" "wk_phase (work_of m t) \<noteq> Queued"
    using p(5) that unfolding entered_in_order_def by blast
qed

lemma set_phase_simps [simp]:
  "tickets (set_phase m t p) = tickets m" "mx_queues (set_phase m t p) = mx_queues m"
  "t < tickets m \<Longrightarrow> work_of (set_phase m t p) u = (if u = t then (work_of m t)\<lparr>wk_phase := p\<rparr> else work_of m u)"
  by (auto simp: set_phase_def nth_list_update)

lemma set_phase_before [simp]: "t < tickets m \<Longrightarrow> before (set_phase m t p) u v \<longleftrightarrow> before m u v"
  by (auto simp: before_def)

text \<open>A phase change that moves forward, with everything before the ticket settled.\<close>

lemma set_phase_inv:
  assumes "mutex_inv m" "t < tickets m" "\<And>u. before m u t \<Longrightarrow> wk_phase (work_of m u) = Settled"
    "p = Settled \<or> (p = Inside \<and> wk_phase (work_of m t) = Queued)"
  shows "mutex_inv (set_phase m t p)"
proof -
  note inv = mutex_invD [OF assms(1)]
  have mono: "wk_phase (work_of m u) = Settled \<Longrightarrow> wk_phase (work_of (set_phase m t p) u) = Settled" for u
    using assms(2,4) by auto
  have prev: "wk_prev (work_of (set_phase m t p) u) = wk_prev (work_of m u)" "wk_key (work_of (set_phase m t p) u) = wk_key (work_of m u)" for u
    using assms(2) by auto
  have entered: "wk_phase (work_of (set_phase m t p) u) = Settled"
    if "before m u v" "wk_phase (work_of (set_phase m t p) v) \<noteq> Queued" for u v
  proof (cases "v = t")
    case True
    then show ?thesis using that assms(3) mono by blast
  next
    case False
    then have "wk_phase (work_of m v) \<noteq> Queued" using that(2) assms(2) by simp
    then show ?thesis using that(1) inv(7) mono by blast
  qed
  have "waits_for_last (set_phase m t p)"
    using inv(1,2) unfolding waits_for_last_def set_phase_before [OF assms(2)] set_phase_simps(1) prev by blast
  moreover have "first_is_free (set_phase m t p)"
    using inv(3) mono unfolding first_is_free_def set_phase_before [OF assms(2)] prev by blast
  moreover have "tail_is_last (set_phase m t p)"
    using inv(4,5) unfolding tail_is_last_def set_phase_simps(1,2) prev by blast
  moreover have "no_tail_drained (set_phase m t p)"
    using inv(6) mono unfolding no_tail_drained_def set_phase_simps(1,2) prev by blast
  moreover have "entered_in_order (set_phase m t p)"
    using entered unfolding entered_in_order_def set_phase_before [OF assms(2)] by blast
  ultimately show ?thesis by (simp add: mutex_inv_def)
qed

lemma ready_before_settled:
  assumes "mutex_inv m" "ready m t" "before m u t"
  shows "wk_phase (work_of m u) = Settled"
proof (cases "wk_prev (work_of m t)")
  case None
  then show ?thesis using mutex_invD(3) [OF assms(1)] assms(3) by blast
next
  case (Some p)
  then have p: "wk_phase (work_of m p) = Settled" "before m p t" "u \<le> p"
    using assms mutex_invD(1,2) [OF assms(1)] by (auto simp: ready_def settled_def)
  then show ?thesis using mutex_invD(7) [OF assms(1), of u p] assms(3)
    by (cases "u = p") (auto simp: before_def)
qed

lemma run_mutex_inv:
  assumes "mutex_inv m" "run_mutex m key held = (m', r)"
  shows "mutex_inv m'"
proof (cases "holds m held key")
  case False
  note inv = mutex_invD [OF assms(1)]
  let ?t = "tickets m"
  from False assms(2) have m': "mx_works m' = mx_works m @ [\<lparr>wk_key = key, wk_prev = mx_queues m key, wk_phase = Queued\<rparr>]"
    "mx_queues m' = (mx_queues m)(key := Some ?t)"
    by (auto simp: run_mutex_def Let_def)
  have old: "work_of m' u = work_of m u" if "u < ?t" for u using that by (simp add: m' nth_append)
  have new: "work_of m' ?t = \<lparr>wk_key = key, wk_prev = mx_queues m key, wk_phase = Queued\<rparr>" by (simp add: m')
  have len: "tickets m' = Suc ?t" by (simp add: m')
  have before: "before m' u t \<longleftrightarrow> before m u t \<or> (t = ?t \<and> u < ?t \<and> wk_key (work_of m u) = key)" for u t
    using old new by (cases "t = ?t") (auto simp: before_def len less_Suc_eq)
  have lt: "before m u t \<Longrightarrow> u < ?t \<and> t < ?t" for u t by (auto simp: before_def)
  have cases: "t < ?t \<or> t = ?t" if "t < tickets m'" for t using that by (simp add: len less_Suc_eq)
  have "waits_for_last m'"
    unfolding waits_for_last_def
  proof (intro allI impI)
    fix t p
    assume "t < tickets m' \<and> wk_prev (work_of m' t) = Some p"
    then show "before m' p t \<and> (\<forall>u. before m' u t \<longrightarrow> u \<le> p)"
      using cases [of t] inv(1) [of t p] inv(2) [of t p] inv(4) [of key p] inv(5) [of key p] lt
      by (auto simp: before new old)
  qed
  moreover have "first_is_free m'"
    unfolding first_is_free_def
  proof (intro allI impI)
    fix t u
    assume a: "wk_prev (work_of m' t) = None \<and> before m' u t"
    show "wk_phase (work_of m' u) = Settled"
    proof (cases "t = ?t")
      case True
      with a have "u < ?t" "wk_key (work_of m u) = key" "mx_queues m key = None" using lt by (auto simp: before new)
      then show ?thesis using inv(6) [of u] by (simp add: old)
    next
      case False
      with a have "before m u t" by (simp add: before)
      with a show ?thesis using inv(3) [of t u] lt [of u t] by (simp add: old)
    qed
  qed
  moreover have "tail_is_last m'"
    unfolding tail_is_last_def
  proof (intro allI impI)
    fix t k
    assume a: "mx_queues m' k = Some t"
    show "t < tickets m' \<and> wk_key (work_of m' t) = k \<and> (\<forall>u<tickets m'. wk_key (work_of m' u) = k \<longrightarrow> u \<le> t)"
    proof (cases "k = key")
      case True
      with a have "t = ?t" by (simp add: m'(2))
      with True show ?thesis by (simp add: len new)
    next
      case False
      with a have q: "mx_queues m k = Some t" by (simp add: m'(2))
      have "u \<le> t" if "u < tickets m'" "wk_key (work_of m' u) = k" for u
        using cases [OF that(1)] that(2) inv(5) [OF q, of u] False by (auto simp: new old)
      then show ?thesis using inv(4) [OF q] by (auto simp: len old)
    qed
  qed
  moreover have "no_tail_drained m'"
    unfolding no_tail_drained_def
  proof (intro allI impI)
    fix u
    assume a: "u < tickets m'" "mx_queues m' (wk_key (work_of m' u)) = None"
    then have "u < ?t" using cases [OF a(1)] by (auto simp: m'(2) new)
    with a(2) show "wk_phase (work_of m' u) = Settled" using inv(6) [of u] by (simp add: m'(2) old split: if_splits)
  qed
  moreover have "entered_in_order m'"
    unfolding entered_in_order_def
  proof (intro allI impI)
    fix u t
    assume b: "before m' u t \<and> wk_phase (work_of m' t) \<noteq> Queued"
    then have "t \<noteq> ?t" using new by auto
    with b have "before m u t" by (simp add: before)
    with b show "wk_phase (work_of m' u) = Settled" using inv(7) [of u t] lt [of u t] by (simp add: old)
  qed
  ultimately show ?thesis by (simp add: mutex_inv_def)
qed (use assms in \<open>auto simp: run_mutex_def\<close>)

lemma cleanup_inv:
  assumes "mutex_inv m" "cleanup_mutex m t = Some m'"
  shows "mutex_inv m'"
proof (cases "mx_queues m (wk_key (work_of m t)) = Some t")
  case True
  note inv = mutex_invD [OF assms(1)]
  let ?k = "wk_key (work_of m t)"
  have t: "t < tickets m" "wk_phase (work_of m t) = Settled" and m': "m' = m\<lparr>mx_queues := (mx_queues m)(?k := None)\<rparr>"
    using assms(2) True by (auto simp: cleanup_mutex_def split: if_splits)
  have done_all: "wk_phase (work_of m u) = Settled" if "u < tickets m" "wk_key (work_of m u) = ?k" for u
    using inv(5) [OF True that] inv(7) [of u t] t that by (cases "u = t") (auto simp: before_def)
  have b: "before m' u v \<longleftrightarrow> before m u v" for u v by (simp add: before_def m')
  have "waits_for_last m'" "first_is_free m'" "entered_in_order m'"
    using assms(1) by (simp_all add: mutex_inv_def waits_for_last_def first_is_free_def entered_in_order_def b)
      (simp_all add: m')
  moreover have "tail_is_last m'" using inv(4,5) unfolding tail_is_last_def by (auto simp: m' split: if_splits)
  moreover have "no_tail_drained m'" using inv(6) done_all unfolding no_tail_drained_def by (auto simp: m' split: if_splits)
  ultimately show ?thesis by (simp add: mutex_inv_def)
next
  case False
  then show ?thesis using assms by (auto simp: cleanup_mutex_def split: if_splits)
qed

lemma mutex_step_inv:
  assumes "mutex_step m m'" "mutex_inv m"
  shows "mutex_inv m'"
  using assms
proof (induction rule: mutex_step.induct)
  case (enter m t m')
  then have "ready m t" "m' = set_phase m t Inside" by (auto simp: enter_mutex_def split: if_splits)
  with enter.prems show ?case using ready_before_settled by (auto intro!: set_phase_inv simp: ready_def)
next
  case (leave m t m')
  then have t: "t < tickets m" "wk_phase (work_of m t) = Inside" "m' = set_phase m t Settled"
    by (auto simp: leave_mutex_def split: if_splits)
  with leave.prems show ?case using mutex_invD(7) [OF leave.prems] by (auto intro!: set_phase_inv)
qed (use run_mutex_inv cleanup_inv in blast)+

lemma mutex_reachable_inv: "mutex_reachable m \<Longrightarrow> mutex_inv m"
  unfolding mutex_reachable_def
proof (induction rule: rtranclp_induct)
  case base
  show ?case
    by (simp add: mutex_inv_def waits_for_last_def first_is_free_def tail_is_last_def no_tail_drained_def
        entered_in_order_def new_mutex_def before_def)
qed (rule mutex_step_inv)

section \<open>Guarantees\<close>

lemma inside_exclusive:
  assumes "mutex_inv m" "t < tickets m" "u < tickets m" "wk_key (work_of m t) = wk_key (work_of m u)"
    "wk_phase (work_of m t) = Inside" "wk_phase (work_of m u) = Inside"
  shows "t = u"
  using mutex_invD(7) [OF assms(1), of t u] mutex_invD(7) [OF assms(1), of u t] assms
  by (cases t u rule: linorder_cases) (auto simp: before_def)

text \<open>One key runs one work at a time, in arrival order: in every reachable state at most one ticket of a key is in
  its critical section, and whenever one is, every earlier ticket of the key has finished.
\<close>

theorem critical_sections_exclusive:
  assumes "mutex_reachable m" "t < tickets m" "wk_phase (work_of m t) = Inside" "u < tickets m"
    "wk_key (work_of m u) = wk_key (work_of m t)"
  shows "(wk_phase (work_of m u) = Inside \<longrightarrow> u = t) \<and> (u < t \<longrightarrow> wk_phase (work_of m u) = Settled)"
  using inside_exclusive [OF mutex_reachable_inv [OF assms(1)] assms(4,2,5)]
    mutex_invD(7) [OF mutex_reachable_inv [OF assms(1)], of u t] assms
  by (simp add: before_def)

text \<open>A queue never stalls: as long as a ticket waits, some ticket of the same key that came no later is either in
  its critical section or can enter; a rejected work settles its ticket like any other, so it blocks nobody.
\<close>

theorem queue_never_stalls:
  assumes "mutex_reachable m" "t < tickets m" "wk_phase (work_of m t) = Queued"
  shows "\<exists>u\<le>t. u < tickets m \<and> wk_key (work_of m u) = wk_key (work_of m t) \<and>
    (wk_phase (work_of m u) = Inside \<or> enter_mutex m u \<noteq> None)"
  using assms(2,3)
proof (induction t rule: less_induct)
  case (less t)
  note inv = mutex_invD [OF mutex_reachable_inv [OF assms(1)]]
  show ?case
  proof (cases "wk_prev (work_of m t)")
    case None
    with less.prems show ?thesis by (intro exI [of _ t]) (simp add: enter_mutex_def ready_def settled_def)
  next
    case (Some p)
    have p: "p < t" "p < tickets m" "wk_key (work_of m p) = wk_key (work_of m t)"
      using inv(1) [OF less.prems(1) Some] by (auto simp: before_def)
    show ?thesis
    proof (cases "wk_phase (work_of m p)")
      case Queued
      then obtain u where "u \<le> p" "u < tickets m" "wk_key (work_of m u) = wk_key (work_of m p)"
        "wk_phase (work_of m u) = Inside \<or> enter_mutex m u \<noteq> None" using less.IH [OF p(1,2)] by blast
      with p show ?thesis by (intro exI [of _ u]) simp
    next
      case Inside
      with p show ?thesis by (intro exI [of _ p]) simp
    next
      case Settled
      with less.prems Some show ?thesis by (intro exI [of _ t]) (simp add: enter_mutex_def ready_def settled_def)
    qed
  qed
qed

definition example_mutex :: mutex where
  "example_mutex = \<lparr>mx_works = [\<lparr>wk_key = ''s'', wk_prev = None, wk_phase = Inside\<rparr>,
     \<lparr>wk_key = ''s'', wk_prev = Some 0, wk_phase = Queued\<rparr>], mx_queues = (\<lambda>_. None)(''s'' := Some 1)\<rparr>"

lemma mutex_reachable_step: "mutex_reachable m \<Longrightarrow> mutex_step m m' \<Longrightarrow> mutex_reachable m'"
  unfolding mutex_reachable_def by (rule rtranclp.rtrancl_into_rtrancl)

lemma mutex_reachable_new: "mutex_reachable new_mutex"
  by (simp add: mutex_reachable_def)

lemma run_mutex_step: "mutex_step m (fst (run_mutex m key held))"
  by (rule mutex_step.call [of m key held _ "snd (run_mutex m key held)"]) simp

lemma example_mutex_reachable: "mutex_reachable example_mutex"
proof -
  let ?m = "fst (run_mutex (fst (run_mutex new_mutex ''s'' None)) ''s'' None)"
  have r: "mutex_reachable ?m"
    by (rule mutex_reachable_step [OF mutex_reachable_step [OF mutex_reachable_new run_mutex_step] run_mutex_step])
  have "enter_mutex ?m 0 = Some example_mutex"
    by (simp add: run_mutex_def new_mutex_def holds_def enter_mutex_def ready_def settled_def set_phase_def example_mutex_def
        Let_def)
  then show ?thesis by (rule mutex_reachable_step [OF r mutex_step.enter])
qed

theorem critical_sections_exclusive_witness: "wk_phase (work_of example_mutex 1) \<noteq> Inside"
  using critical_sections_exclusive [OF example_mutex_reachable, of 0 1] by (simp add: example_mutex_def)

theorem queue_never_stalls_witness: "\<exists>u\<le>1. wk_phase (work_of example_mutex u) = Inside \<or> enter_mutex example_mutex u \<noteq> None"
  using queue_never_stalls [OF example_mutex_reachable, of 1] by (auto simp: example_mutex_def)

end
