(* ===== verification/Session_Writes.thy ===== *)
theory Session_Writes
  imports Keyed_Mutex Tables Iso_Text
begin

text \<open>
  Conversation sessions under the per-session write lock: \<open>domain/session.ts\<close>,
  \<open>application/session-manager.ts\<close>, \<open>application/session-write-lock.ts\<close> (under
  \<open>packages/core/src\<close>) and \<open>SqliteSessionRepository\<close> of \<open>packages/storage-sqlite/src/index.ts\<close>.
  A write reads the live row and saves in two separate steps with an \<open>await\<close> between them; everything else may
  run there. A work that holds the lock may write several times, passing its hold on (re-entrancy).
\<close>

section \<open>Sessions and their repository\<close>

datatype session_status = S_ACTIVE | S_IDLE | S_CLOSED

type_synonym metadata = "(string \<times> json) list"

record session =
  se_id :: Id
  se_actor :: Id
  se_context :: conversation_context
  se_status :: session_status
  se_project :: "Id option"
  se_active_project :: "Id option"
  se_active_task :: "Id option"
  se_created :: iso
  se_last :: iso
  se_metadata :: "metadata option"

text \<open>The conditional UPSERT: a CLOSED row is not reopened; the stored session is returned then.\<close>

definition save_session :: "session \<Rightarrow> session list \<Rightarrow> session list \<times> session" where
  "save_session s rows = (case select se_id rows (se_id s) of
       Some old \<Rightarrow> if se_status old \<noteq> S_CLOSED \<or> se_status s = S_CLOSED then (upsert se_id s rows, s) else (rows, old)
     | None \<Rightarrow> (upsert se_id s rows, s))"

text \<open>
  \<open>ORDER BY lastActivityAt DESC LIMIT 1\<close> over the texts of the timestamps; among equal ones the row inserted
  first.
\<close>

definition active_in_context :: "string \<Rightarrow> string \<Rightarrow> string option \<Rightarrow> session \<Rightarrow> bool" where
  "active_in_context platform channel thread s \<longleftrightarrow> se_status s = S_ACTIVE \<and> ctx_platform (se_context s) = platform \<and>
     ctx_channel_id (se_context s) = channel \<and> ctx_thread_id (se_context s) = thread"

fun newest_session :: "session list \<Rightarrow> session option" where
  "newest_session [] = None"
| "newest_session (s # ss) = (case newest_session ss of
       None \<Rightarrow> Some s
     | Some n \<Rightarrow> if iso_string (se_last n) > iso_string (se_last s) then Some n else Some s)"

definition findActiveByContext :: "session list \<Rightarrow> string \<Rightarrow> string \<Rightarrow> string option \<Rightarrow> session option" where
  "findActiveByContext rows platform channel thread = newest_session (filter (active_in_context platform channel thread) rows)"

section \<open>Field-scoped writes\<close>

text \<open>\<open>Partial<Session>\<close>: an absent member is \<open>None\<close>; an optional member may be present as \<open>undefined\<close>.\<close>

record session_fields =
  sf_actor :: "Id option"
  sf_context :: "conversation_context option"
  sf_status :: "session_status option"
  sf_project :: "Id option option"
  sf_active_project :: "Id option option"
  sf_active_task :: "Id option option"
  sf_last :: "iso option"
  sf_metadata :: "metadata option option"

definition no_fields :: session_fields where
  "no_fields = \<lparr>sf_actor = None, sf_context = None, sf_status = None, sf_project = None, sf_active_project = None,
     sf_active_task = None, sf_last = None, sf_metadata = None\<rparr>"

definition given :: "'a option \<Rightarrow> 'a \<Rightarrow> 'a" where
  "given v old = (case v of Some x \<Rightarrow> x | None \<Rightarrow> old)"

definition apply_fields :: "session_fields \<Rightarrow> session \<Rightarrow> session" where
  "apply_fields f s = s\<lparr>se_actor := given (sf_actor f) (se_actor s), se_context := given (sf_context f) (se_context s),
     se_status := given (sf_status f) (se_status s), se_project := given (sf_project f) (se_project s),
     se_active_project := given (sf_active_project f) (se_active_project s),
     se_active_task := given (sf_active_task f) (se_active_task s), se_last := given (sf_last f) (se_last s),
     se_metadata := given (sf_metadata f) (se_metadata s)\<rparr>"

text \<open>
  The writes of a session row. Each has the id whose lock it takes, and what it saves (if anything) when the live
  row it read is the given one.
\<close>

datatype session_op =
  Save_fields session session_fields
| Release_pointer session Id session_fields
| Close_session session iso
| Update_metadata_entry Id string "json option \<Rightarrow> json option"

fun op_id :: "session_op \<Rightarrow> Id" where
  "op_id (Save_fields s f) = se_id s"
| "op_id (Release_pointer s t f) = se_id s"
| "op_id (Close_session s ts) = se_id s"
| "op_id (Update_metadata_entry i k u) = i"

definition live_or :: "session option \<Rightarrow> session \<Rightarrow> session" where
  "live_or live s = (case live of Some l \<Rightarrow> l | None \<Rightarrow> s)"

definition saveFields_value :: "session \<Rightarrow> session_fields \<Rightarrow> session option \<Rightarrow> session option" where
  "saveFields_value s f live = Some (apply_fields f (live_or live s))"

definition releasePointer_value :: "session \<Rightarrow> Id \<Rightarrow> session_fields \<Rightarrow> session option \<Rightarrow> session option" where
  "releasePointer_value s t f live =
     (let l = live_or live s in
      if se_active_task l \<noteq> Some t then None else Some ((apply_fields f l)\<lparr>se_active_task := None\<rparr>))"

definition updateMetadataEntry_value :: "string \<Rightarrow> (json option \<Rightarrow> json option) \<Rightarrow> session option \<Rightarrow> session option" where
  "updateMetadataEntry_value k u live = (case live of
       None \<Rightarrow> None
     | Some l \<Rightarrow>
         if se_status l \<noteq> S_ACTIVE then None
         else let m = (case se_metadata l of None \<Rightarrow> [] | Some m \<Rightarrow> m);
                  m' = (case u (map_of m k) of None \<Rightarrow> remove_row fst k m | Some v \<Rightarrow> upsert fst (k, v) m) in
              Some (l\<lparr>se_metadata := (if m' \<noteq> [] then Some m' else None)\<rparr>))"

fun op_value :: "session_op \<Rightarrow> session option \<Rightarrow> session option" where
  "op_value (Save_fields s f) live = saveFields_value s f live"
| "op_value (Release_pointer s t f) live = releasePointer_value s t f live"
| "op_value (Close_session s ts) live = Some (s\<lparr>se_status := S_CLOSED, se_last := ts\<rparr>)"
| "op_value (Update_metadata_entry i k u) live = updateMetadataEntry_value k u live"

definition touch :: "session \<Rightarrow> iso \<Rightarrow> session_op" where
  "touch s ts = Save_fields s (no_fields\<lparr>sf_last := Some ts\<rparr>)"

definition setActiveProject :: "session \<Rightarrow> Id \<Rightarrow> iso \<Rightarrow> session_op" where
  "setActiveProject s p ts = Save_fields s (no_fields\<lparr>sf_active_project := Some (Some p), sf_last := Some ts\<rparr>)"

definition openForContext ::
  "conversation_context \<Rightarrow> Id \<Rightarrow> Id \<Rightarrow> iso \<Rightarrow> session list \<Rightarrow> session list \<times> session" where
  "openForContext ctx actor i ts rows =
     (case findActiveByContext rows (ctx_platform ctx) (ctx_channel_id ctx) (ctx_thread_id ctx) of
        Some s \<Rightarrow> (rows, s)
      | None \<Rightarrow> save_session \<lparr>se_id = i, se_actor = actor, se_context = ctx, se_status = S_ACTIVE, se_project = None,
          se_active_project = None, se_active_task = None, se_created = ts, se_last = ts, se_metadata = None\<rparr> rows)"

text \<open>The write of a value that was computed from \<open>live\<close>.\<close>

definition commit_op :: "session_op \<Rightarrow> session option \<Rightarrow> session list \<Rightarrow> session list" where
  "commit_op op live rows = (case op_value op live of None \<Rightarrow> rows | Some s \<Rightarrow> fst (save_session s rows))"

text \<open>The whole operation as one indivisible step: the specification.\<close>

definition atomic_op :: "session_op \<Rightarrow> session list \<Rightarrow> session list" where
  "atomic_op op rows = commit_op op (select se_id rows (op_id op)) rows"

section \<open>The system\<close>

text \<open>
  Every ticket of the mutex is a work: the operations it still has to do, and the live row it has read for the next
  one. The log lists the committed writes, oldest first.
\<close>

record session_work =
  sw_todo :: "session_op list"
  sw_read :: "session option option"

datatype log_entry = Wrote session_op | Opened conversation_context Id Id iso

record session_system =
  ss_mutex :: mutex
  ss_works :: "session_work list"
  ss_rows :: "session list"
  ss_log :: "log_entry list"

definition session_start :: session_system where
  "session_start = \<lparr>ss_mutex = new_mutex, ss_works = [], ss_rows = [], ss_log = []\<rparr>"

abbreviation sw :: "session_system \<Rightarrow> nat \<Rightarrow> session_work" where "sw s t \<equiv> ss_works s ! t"

definition inside :: "session_system \<Rightarrow> nat \<Rightarrow> bool" where
  "inside s t \<longleftrightarrow> t < tickets (ss_mutex s) \<and> wk_phase (work_of (ss_mutex s) t) = Inside"

text \<open>
  A request queues its work under its session's key; \<open>read_row\<close> and \<open>write_row\<close> are the two halves of
  the next operation, which runs with the work's own hold; a work may stop early (a rejection). Opening a session
  is one statement with a fresh identifier.
\<close>

inductive session_step :: "session_system \<Rightarrow> session_system \<Rightarrow> bool" where
  request: "ops \<noteq> [] \<Longrightarrow> list_all (\<lambda>op. op_id op = key) ops \<Longrightarrow> run_mutex (ss_mutex s) key None = (m', Ticket t) \<Longrightarrow>
    session_step s (s\<lparr>ss_mutex := m', ss_works := ss_works s @ [\<lparr>sw_todo = ops, sw_read = None\<rparr>]\<rparr>)"
| entered: "enter_mutex (ss_mutex s) t = Some m' \<Longrightarrow> session_step s (s\<lparr>ss_mutex := m'\<rparr>)"
| drained: "cleanup_mutex (ss_mutex s) t = Some m' \<Longrightarrow> session_step s (s\<lparr>ss_mutex := m'\<rparr>)"
| read_row: "sw_todo (sw s t) = op # rest \<Longrightarrow> run_mutex (ss_mutex s) (op_id op) (Some t) = (ss_mutex s, Inline t) \<Longrightarrow>
    sw_read (sw s t) = None \<Longrightarrow>
    session_step s (s\<lparr>ss_works := (ss_works s)[t := (sw s t)\<lparr>sw_read := Some (select se_id (ss_rows s) (op_id op))\<rparr>]\<rparr>)"
| write_row: "inside s t \<Longrightarrow> sw_todo (sw s t) = op # rest \<Longrightarrow> sw_read (sw s t) = Some live \<Longrightarrow>
    session_step s (s\<lparr>ss_works := (ss_works s)[t := \<lparr>sw_todo = rest, sw_read = None\<rparr>],
      ss_rows := commit_op op live (ss_rows s), ss_log := ss_log s @ [Wrote op]\<rparr>)"
| left: "leave_mutex (ss_mutex s) t = Some m' \<Longrightarrow> session_step s (s\<lparr>ss_mutex := m'\<rparr>)"
| opened: "i \<notin> se_id ` set (ss_rows s) \<Longrightarrow> i \<notin> wk_key ` set (mx_works (ss_mutex s)) \<Longrightarrow>
    openForContext ctx actor i ts (ss_rows s) = (rows', r) \<Longrightarrow>
    session_step s (s\<lparr>ss_rows := rows', ss_log := ss_log s @ [Opened ctx actor i ts]\<rparr>)"

definition session_reachable :: "session_system \<Rightarrow> bool" where
  "session_reachable s \<longleftrightarrow> session_step\<^sup>*\<^sup>* session_start s"

fun replay :: "log_entry \<Rightarrow> session list \<Rightarrow> session list" where
  "replay (Wrote op) rows = atomic_op op rows"
| "replay (Opened ctx actor i ts) rows = fst (openForContext ctx actor i ts rows)"

section \<open>Facts\<close>

lemma save_session_select:
  "j \<noteq> se_id s \<Longrightarrow> select se_id (fst (save_session s rows)) j = select se_id rows j"
  by (auto simp: save_session_def select_upsert split: option.splits)

lemma apply_fields_id [simp]: "se_id (apply_fields f s) = se_id s"
  by (simp add: apply_fields_def)

definition read_for :: "Id \<Rightarrow> session option \<Rightarrow> bool" where
  "read_for i live \<longleftrightarrow> (case live of None \<Rightarrow> True | Some l \<Rightarrow> se_id l = i)"

lemma read_for_select: "read_for i (select se_id rows i)"
  by (auto simp: read_for_def split: option.splits dest: select_SomeD)

lemma live_or_id: "read_for (se_id s) live \<Longrightarrow> se_id (live_or live s) = se_id s"
  by (cases live) (simp_all add: live_or_def read_for_def)

lemma op_value_id: "op_value op live = Some s \<Longrightarrow> read_for (op_id op) live \<Longrightarrow> se_id s = op_id op"
proof (induction op live rule: op_value.induct)
  case (1 s0 f live)
  then show ?case using live_or_id [of s0 live] by (auto simp: saveFields_value_def)
next
  case (2 s0 t f live)
  then show ?case using live_or_id [of s0 live] by (auto simp: releasePointer_value_def Let_def split: if_split_asm)
next
  case (3 s0 ts live)
  then show ?case by auto
next
  case (4 i k u live)
  then show ?case by (cases live) (auto simp: updateMetadataEntry_value_def Let_def read_for_def split: if_split_asm)
qed

lemma commit_select:
  assumes "live = select se_id rows (op_id op)" "j \<noteq> op_id op"
  shows "select se_id (commit_op op live rows) j = select se_id rows j"
proof (cases "op_value op live")
  case (Some s)
  have "se_id s = op_id op" using op_value_id [OF Some] read_for_select assms(1) by blast
  with Some assms(2) show ?thesis by (simp add: commit_op_def save_session_select)
qed (simp add: commit_op_def)

lemma open_select:
  "openForContext ctx actor i ts rows = (rows', r) \<Longrightarrow> j \<noteq> i \<Longrightarrow> select se_id rows' j = select se_id rows j"
  using save_session_select [of j "\<lparr>se_id = i, se_actor = actor, se_context = ctx, se_status = S_ACTIVE, se_project = None,
          se_active_project = None, se_active_task = None, se_created = ts, se_last = ts, se_metadata = None\<rparr>" rows]
  by (simp add: openForContext_def split: option.splits)

lemma run_mutex_queued:
  assumes "run_mutex m key None = (m', Ticket t)"
  shows "t = tickets m \<and> tickets m' = Suc t \<and> (\<forall>u<t. work_of m' u = work_of m u) \<and>
    wk_key (work_of m' t) = key \<and> wk_phase (work_of m' t) = Queued"
  using assms by (auto simp: run_mutex_def holds_def Let_def nth_append)

lemma run_mutex_inline: "run_mutex m key (Some t) = (m, Inline t) \<Longrightarrow> t < tickets m \<and> wk_key (work_of m t) = key \<and> wk_phase (work_of m t) = Inside"
  by (auto simp: run_mutex_def holds_def Let_def split: if_splits)

section \<open>The invariant\<close>

text \<open>What holds of one ticket: its operations are its key's, and what it has read is the current row.\<close>

definition work_ok :: "session list \<Rightarrow> mutex_work \<Rightarrow> session_work \<Rightarrow> bool" where
  "work_ok rows k w \<longleftrightarrow> (\<forall>op\<in>set (sw_todo w). op_id op = wk_key k) \<and>
     (wk_phase k = Queued \<longrightarrow> sw_read w = None) \<and>
     (wk_phase k = Inside \<longrightarrow> sw_read w = None \<or> sw_read w = Some (select se_id rows (wk_key k)))"

definition session_inv :: "session_system \<Rightarrow> bool" where
  "session_inv s \<longleftrightarrow> mutex_inv (ss_mutex s) \<and> length (ss_works s) = tickets (ss_mutex s) \<and>
     (\<forall>t<tickets (ss_mutex s). work_ok (ss_rows s) (work_of (ss_mutex s) t) (sw s t)) \<and>
     fold replay (ss_log s) [] = ss_rows s"

lemma session_invI:
  assumes "mutex_inv (ss_mutex s)" "length (ss_works s) = tickets (ss_mutex s)"
    "\<And>t. t < tickets (ss_mutex s) \<Longrightarrow> work_ok (ss_rows s) (work_of (ss_mutex s) t) (sw s t)"
    "fold replay (ss_log s) [] = ss_rows s"
  shows "session_inv s"
  using assms by (simp add: session_inv_def)

lemma work_ok_rows:
  "work_ok rows k w \<Longrightarrow> (wk_phase k = Inside \<Longrightarrow> select se_id rows' (wk_key k) = select se_id rows (wk_key k)) \<Longrightarrow> work_ok rows' k w"
  by (auto simp: work_ok_def)

lemma phase_change_ok:
  assumes "session_inv s" "t < tickets (ss_mutex s)" "mutex_inv (set_phase (ss_mutex s) t p)"
    "p = Inside \<and> wk_phase (work_of (ss_mutex s) t) = Queued \<or> p = Settled"
  shows "session_inv (s\<lparr>ss_mutex := set_phase (ss_mutex s) t p\<rparr>)"
  using assms by (intro session_invI) (auto simp: session_inv_def work_ok_def)

lemma session_step_inv:
  assumes "session_step s s'" "session_inv s"
  shows "session_inv s'"
  using assms
proof (induction rule: session_step.induct)
  case (request ops key s m' t)
  note q = run_mutex_queued [OF request.hyps(3)]
  have inv: "mutex_inv (ss_mutex s)" "length (ss_works s) = t" "fold replay (ss_log s) [] = ss_rows s"
    and ok: "u < t \<Longrightarrow> work_ok (ss_rows s) (work_of (ss_mutex s) u) (sw s u)" for u
    using request.prems q unfolding session_inv_def by blast+
  show ?case
  proof (rule session_invI)
    fix u
    assume "u < tickets (ss_mutex (s\<lparr>ss_mutex := m', ss_works := ss_works s @ [\<lparr>sw_todo = ops, sw_read = None\<rparr>]\<rparr>))"
    then consider "u < t" | "u = t" using q by fastforce
    then show "work_ok (ss_rows (s\<lparr>ss_mutex := m', ss_works := ss_works s @ [\<lparr>sw_todo = ops, sw_read = None\<rparr>]\<rparr>))
        (work_of (ss_mutex (s\<lparr>ss_mutex := m', ss_works := ss_works s @ [\<lparr>sw_todo = ops, sw_read = None\<rparr>]\<rparr>)) u)
        (sw (s\<lparr>ss_mutex := m', ss_works := ss_works s @ [\<lparr>sw_todo = ops, sw_read = None\<rparr>]\<rparr>) u)"
    proof cases
      case 1
      then show ?thesis using ok [of u] q inv(2) by (simp add: nth_append)
    next
      case 2
      have "(ss_works s @ [\<lparr>sw_todo = ops, sw_read = None\<rparr>]) ! t = \<lparr>sw_todo = ops, sw_read = None\<rparr>"
        using inv(2) by (metis nth_append_length)
      moreover have "wk_key (work_of m' t) = key" "wk_phase (work_of m' t) = Queued" using q by blast+
      ultimately show ?thesis using 2 request.hyps(2) by (simp add: work_ok_def list_all_iff)
    qed
  qed (use q inv run_mutex_inv [OF inv(1) request.hyps(3)] in simp_all)
next
  case (entered s t m')
  then have r: "ready (ss_mutex s) t" "m' = set_phase (ss_mutex s) t Inside" by (auto simp: enter_mutex_def split: if_splits)
  have "mutex_inv m'" using mutex_step_inv [OF mutex_step.enter [OF entered.hyps]] entered.prems by (simp add: session_inv_def)
  then show ?case using phase_change_ok [OF entered.prems, of t Inside] r by (simp add: ready_def)
next
  case (drained s t m')
  have "mutex_inv m'" using cleanup_inv [OF _ drained.hyps] drained.prems by (simp add: session_inv_def)
  moreover have "mx_works m' = mx_works (ss_mutex s)" using drained.hyps by (auto simp: cleanup_mutex_def split: if_splits)
  ultimately show ?case using drained.prems unfolding session_inv_def by auto
next
  case (read_row s t op rest)
  note h = run_mutex_inline [OF read_row.hyps(2)]
  show ?case
    using read_row.prems h read_row.hyps(1)
    by (intro session_invI) (auto simp: session_inv_def work_ok_def nth_list_update)
next
  case (write_row s t op rest live)
  have t: "t < tickets (ss_mutex s)" "wk_phase (work_of (ss_mutex s) t) = Inside" using write_row.hyps(1) by (simp_all add: inside_def)
  have m: "mutex_inv (ss_mutex s)" and len: "length (ss_works s) = tickets (ss_mutex s)"
    and ok: "\<And>u. u < tickets (ss_mutex s) \<Longrightarrow> work_ok (ss_rows s) (work_of (ss_mutex s) u) (sw s u)"
    and rows: "fold replay (ss_log s) [] = ss_rows s"
    using write_row.prems by (simp_all add: session_inv_def)
  have key: "op_id op = wk_key (work_of (ss_mutex s) t)" and live: "live = select se_id (ss_rows s) (op_id op)"
    using ok [OF t(1)] t(2) write_row.hyps(2,3) by (auto simp: work_ok_def)
  let ?rows = "commit_op op live (ss_rows s)"
  show ?case
  proof (rule session_invI, goal_cases)
    case (3 u)
    then have u: "u < tickets (ss_mutex s)" by simp
    show ?case
    proof (cases "u = t")
      case True
      have "work_ok ?rows (work_of (ss_mutex s) t) \<lparr>sw_todo = rest, sw_read = None\<rparr>"
        using ok [OF t(1)] write_row.hyps(2) t(2) by (auto simp: work_ok_def)
      with True t len show ?thesis by simp
    next
      case False
      have "work_ok ?rows (work_of (ss_mutex s) u) (sw s u)"
      proof (rule work_ok_rows [OF ok [OF u]])
        assume "wk_phase (work_of (ss_mutex s) u) = Inside"
        then have "wk_key (work_of (ss_mutex s) u) \<noteq> op_id op"
          using inside_exclusive [OF m t(1) u] t(2) key False by auto
        then show "select se_id ?rows (wk_key (work_of (ss_mutex s) u)) = select se_id (ss_rows s) (wk_key (work_of (ss_mutex s) u))"
          using commit_select [OF live] by blast
      qed
      with False show ?thesis by simp
    qed
  next
    case 4
    then show ?case using rows live by (simp add: atomic_op_def)
  qed (simp_all add: m len)
next
  case (left s t m')
  then have t: "t < tickets (ss_mutex s)" "m' = set_phase (ss_mutex s) t Settled" by (auto simp: leave_mutex_def split: if_splits)
  have "mutex_inv m'" using mutex_step_inv [OF mutex_step.leave [OF left.hyps]] left.prems by (simp add: session_inv_def)
  then show ?case using phase_change_ok [OF left.prems t(1), of Settled] t by simp
next
  case (opened i s ctx actor ts rows' r)
  have ok: "\<And>u. u < tickets (ss_mutex s) \<Longrightarrow> work_ok (ss_rows s) (work_of (ss_mutex s) u) (sw s u)"
    using opened.prems by (simp add: session_inv_def)
  have "work_ok rows' (work_of (ss_mutex s) u) (sw s u)" if u: "u < tickets (ss_mutex s)" for u
  proof (rule work_ok_rows [OF ok [OF u]])
    have "wk_key (work_of (ss_mutex s) u) \<noteq> i" using opened.hyps(2) u by (metis imageI nth_mem)
    then show "select se_id rows' (wk_key (work_of (ss_mutex s) u)) = select se_id (ss_rows s) (wk_key (work_of (ss_mutex s) u))"
      using open_select [OF opened.hyps(3)] by blast
  qed
  then show ?case using opened.prems opened.hyps(3) by (intro session_invI) (simp_all add: session_inv_def)
qed

lemma session_reachable_inv: "session_reachable s \<Longrightarrow> session_inv s"
  unfolding session_reachable_def
proof (induction rule: rtranclp_induct)
  case base
  show ?case
    by (simp add: session_inv_def session_start_def mutex_reachable_inv [OF mutex_reachable_new])
      (simp add: new_mutex_def)
qed (rule session_step_inv)


text \<open>A closed session is never reopened, whoever writes.\<close>

lemma save_keeps_closed:
  "select se_id rows i = Some r \<Longrightarrow> se_status r = S_CLOSED \<Longrightarrow>
   \<exists>r'. select se_id (fst (save_session s rows)) i = Some r' \<and> se_status r' = S_CLOSED"
  by (cases "i = se_id s") (auto simp: save_session_def select_upsert split: option.splits)

lemma session_step_rows: "session_step s s' \<Longrightarrow> ss_rows s' = ss_rows s \<or> (\<exists>x. ss_rows s' = fst (save_session x (ss_rows s)))"
proof (induction rule: session_step.induct)
  case (write_row s t op rest live)
  show ?case by (simp add: commit_op_def split: option.splits) blast
next
  case (opened i s ctx actor ts rows' r)
  then show ?case by (simp add: openForContext_def split: option.splits) (metis fst_conv)
qed simp_all

lemma closed_sessions_stay_closed:
  assumes "session_step\<^sup>*\<^sup>* s s'" "select se_id (ss_rows s) i = Some r" "se_status r = S_CLOSED"
  shows "\<exists>r'. select se_id (ss_rows s') i = Some r' \<and> se_status r' = S_CLOSED"
  using assms(1)
proof (induction rule: rtranclp_induct)
  case base
  show ?case using assms(2,3) by blast
next
  case (step y z)
  then obtain r' where "select se_id (ss_rows y) i = Some r'" "se_status r' = S_CLOSED" by blast
  then show ?case using session_step_rows [OF step.hyps(2)] save_keeps_closed by metis
qed

section \<open>An example\<close>

definition example_session :: "iso \<Rightarrow> session" where
  "example_session ts = \<lparr>se_id = ''s1'', se_actor = ''me'', se_context = \<lparr>ctx_platform = ''p'', ctx_space_id = None,
     ctx_channel_id = ''c'', ctx_thread_id = None, ctx_user_id = ''u'', ctx_direct = Some True\<rparr>,
     se_status = S_ACTIVE, se_project = None, se_active_project = None, se_active_task = None, se_created = Canon 1,
     se_last = ts, se_metadata = None\<rparr>"

definition example_sessions :: "iso \<Rightarrow> session_system" where
  "example_sessions ts = session_start\<lparr>ss_rows := [example_session ts], ss_log := [Opened (se_context (example_session ts)) ''me'' ''s1'' (Canon 1)]\<rparr>"

lemma example_opened: "session_step session_start (example_sessions (Canon 1))"
proof -
  have "openForContext (se_context (example_session (Canon 1))) ''me'' ''s1'' (Canon 1) [] = ([example_session (Canon 1)], example_session (Canon 1))"
    by code_simp
  then show ?thesis
    using session_step.opened [of "''s1''" session_start "se_context (example_session (Canon 1))" "''me''" "Canon 1"]
    by (simp add: session_start_def new_mutex_def example_sessions_def)
qed


end
