(* ===== verification/Text_Boundaries.thy ===== *)
theory Text_Boundaries
  imports Text_Index
begin

text \<open>
  Where a text may be cut: \<open>chunking/boundaries.ts\<close> (under \<open>packages/core/src/application\<close>). Ranges are
  half-open, in UTF-16 units of one text. \<open>Intl.Segmenter\<close> and the Unicode tables are the parameter \<open>intl\<close>; what
  the code relies on is that the segments of a text are not empty, give the text back in order, and never cut a
  surrogate pair (\<open>segments_of\<close>).
\<close>

section \<open>Ranges that tile a stretch\<close>

record range =
  r_start :: nat
  r_end :: nat

definition rng :: "nat \<Rightarrow> nat \<Rightarrow> range" where
  "rng a b = \<lparr>r_start = a, r_end = b\<rparr>"

lemma rng_sel [simp]: "r_start (rng a b) = a" "r_end (rng a b) = b"
  by (simp_all add: rng_def)

text \<open>\<open>tiles ok a b rs\<close>: the ranges are not empty, follow one another from \<open>a\<close> to \<open>b\<close>, and every cut is \<open>ok\<close>.\<close>

fun tiles :: "(nat \<Rightarrow> bool) \<Rightarrow> nat \<Rightarrow> nat \<Rightarrow> (nat \<times> nat) list \<Rightarrow> bool" where
  "tiles ok a b [] \<longleftrightarrow> a = b \<and> ok a"
| "tiles ok a b (r # rs) \<longleftrightarrow> fst r = a \<and> ok a \<and> a < snd r \<and> tiles ok (snd r) b rs"

definition ends :: "('z) range_scheme \<Rightarrow> nat \<times> nat" where
  "ends r = (r_start r, r_end r)"

lemma ends_sel [simp]: "fst (ends r) = r_start r" "snd (ends r) = r_end r"
  by (simp_all add: ends_def)

lemma ends_rng [simp]: "ends (rng a b) = (a, b)"
  by (simp add: ends_def)

lemma tiles_append: "tiles ok a b (xs @ ys) \<longleftrightarrow> (\<exists>c. tiles ok a c xs \<and> tiles ok c b ys)"
  by (induction xs arbitrary: a) (auto elim: tiles.elims)

lemma tiles_snoc: "tiles ok a b xs \<Longrightarrow> b < c \<Longrightarrow> ok c \<Longrightarrow> tiles ok a c (xs @ [(b, c)])"
  by (induction xs arbitrary: a) auto

lemma tiles_le: "tiles ok a b xs \<Longrightarrow> a \<le> b"
  by (induction xs arbitrary: a) (auto, fastforce)

lemma tiles_ok: "tiles ok a b xs \<Longrightarrow> ok a \<and> ok b"
  by (induction xs arbitrary: a) auto

lemma tiles_member:
  "tiles ok a b xs \<Longrightarrow> r \<in> set xs \<Longrightarrow> a \<le> fst r \<and> fst r < snd r \<and> snd r \<le> b \<and> ok (fst r) \<and> ok (snd r)"
proof (induction xs arbitrary: a)
  case (Cons x xs)
  show ?case
  proof (cases "r = x")
    case True
    then show ?thesis using Cons.prems tiles_le [of ok "snd x" b xs] tiles_ok [of ok "snd x" b xs] by auto
  next
    case False
    then show ?thesis using Cons by fastforce
  qed
qed simp

text \<open>Cutting every piece of a tiling again gives a tiling.\<close>

lemma tiles_concat:
  assumes "tiles ok a b xs" "\<And>r. r \<in> set xs \<Longrightarrow> tiles ok (fst r) (snd r) (f r)"
  shows "tiles ok a b (concat (map f xs))"
  using assms
proof (induction xs arbitrary: a)
  case (Cons x xs)
  have "tiles ok (fst x) (snd x) (f x)" using Cons.prems(2) [of x] by simp
  moreover have "tiles ok (snd x) b (concat (map f xs))" using Cons by simp
  moreover have "fst x = a" using Cons.prems(1) by simp
  ultimately show ?case by (auto simp: tiles_append)
qed simp

lemma tiles_one: "ok a \<Longrightarrow> ok b \<Longrightarrow> a < b \<Longrightarrow> tiles ok a b [(a, b)]"
  by simp

text \<open>The last piece of a tiling can be extended.\<close>

lemma tiles_extend: "tiles ok a b (xs @ [(c, b)]) \<Longrightarrow> b < d \<Longrightarrow> ok d \<Longrightarrow> tiles ok a d (xs @ [(c, d)])"
  by (induction xs arbitrary: a) auto

text \<open>The pieces put together are the stretch.\<close>

lemma tiles_text: "tiles ok a b xs \<Longrightarrow> concat (map (\<lambda>r. slice text (fst r) (snd r)) xs) = slice text a b"
proof (induction xs arbitrary: a)
  case (Cons x xs)
  then show ?case using tiles_le [of ok "snd x" b xs] by (auto simp: slice_append)
qed simp

section \<open>What the engine provides\<close>

text \<open>
  \<open>Intl.Segmenter\<close> by sentences (Korean rules when the flag is set) and by grapheme clusters, as the list of segments,
  and the script tables.
\<close>

record intl =
  sentences :: "bool \<Rightarrow> js_string \<Rightarrow> js_string list"
  graphemes :: "js_string \<Rightarrow> js_string list"
  tables :: scripts

definition segments_of :: "js_string \<Rightarrow> js_string list \<Rightarrow> bool" where
  "segments_of s parts \<longleftrightarrow> concat parts = s \<and> [] \<notin> set parts \<and> successively (\<lambda>p q. \<not> joins p q) parts"

definition segmenter_ok :: "intl \<Rightarrow> bool" where
  "segmenter_ok I \<longleftrightarrow> (\<forall>s. segments_of s (graphemes I s)) \<and> (\<forall>ko s. segments_of s (sentences I ko s))"

text \<open>The segments of a stretch as ranges: each starts where \<open>part.index\<close> says.\<close>

fun segment_ranges :: "nat \<Rightarrow> js_string list \<Rightarrow> range list" where
  "segment_ranges off [] = []"
| "segment_ranges off (p # ps) = rng off (off + length p) # segment_ranges (off + length p) ps"

lemma segment_ranges_tile:
  assumes "segments_of (slice text a b) parts" "a \<le> b" "b \<le> length text"
    and "cp_boundary text a" "cp_boundary text b"
  shows "tiles (cp_boundary text) a b (map ends (segment_ranges a parts))"
proof -
  have "concat parts = slice text c b \<Longrightarrow> [] \<notin> set parts \<Longrightarrow> successively (\<lambda>p q. \<not> joins p q) parts \<Longrightarrow>
        c \<le> b \<Longrightarrow> cp_boundary text c \<Longrightarrow> tiles (cp_boundary text) c b (map ends (segment_ranges c parts))" for c
  proof (induction parts arbitrary: c)
    case Nil
    then have "length (slice text c b) = 0" by simp
    then show ?case using Nil assms by simp
  next
    case (Cons p ps)
    let ?d = "c + length p"
    have eq: "p @ concat ps = slice text c b" using Cons.prems by simp
    then have len: "length p + length (concat ps) = b - c"
      using assms(3) by (metis length_append length_slice)
    then have d: "?d \<le> b" "c < ?d" using Cons.prems by auto
    have p: "p = take (length p) (slice text c b)" "concat ps = drop (length p) (slice text c b)"
      using eq by (metis append_eq_conv_conj)+
    have rest: "concat ps = slice text ?d b"
      using p(2) by (simp add: slice_def drop_take add.commute diff_diff_add)
    have "\<not> joins p (concat ps)"
    proof (cases ps)
      case (Cons q qs)
      then have "\<not> joins p q" "q \<noteq> []" using Cons.prems by auto
      then show ?thesis using Cons by (auto simp: joins_def)
    qed simp
    then have "cp_boundary text ?d"
      using cp_boundary_slice [of c b "text" "length p"] Cons.prems assms d p by auto
    moreover have "successively (\<lambda>p q. \<not> joins p q) ps" using Cons.prems by (cases ps) auto
    ultimately have "tiles (cp_boundary text) ?d b (map ends (segment_ranges ?d ps))"
      using Cons.IH [of ?d] Cons.prems rest d by auto
    then show ?case using Cons.prems d by simp
  qed
  from this [of a] show ?thesis using assms by (auto simp: segments_of_def)
qed

section \<open>Lines\<close>

definition NL :: "16 word" where
  "NL = 10"

text \<open>\<open>text.indexOf(newline, at)\<close>, then the end of the line that starts at \<open>at\<close>.\<close>

definition line_end :: "js_string \<Rightarrow> nat \<Rightarrow> nat \<Rightarrow> nat" where
  "line_end text pos e = (case js_index_of NL (drop pos text) of
       None \<Rightarrow> e
     | Some i \<Rightarrow> if pos + i \<ge> e then e else pos + i + 1)"

lemma line_end_bounds: "pos < e \<Longrightarrow> pos < line_end text pos e \<and> line_end text pos e \<le> e"
  by (auto simp: line_end_def split: option.splits)

function lines_from :: "js_string \<Rightarrow> nat \<Rightarrow> nat \<Rightarrow> range list" where
  "lines_from text pos e =
     (if pos < e then rng pos (line_end text pos e) # lines_from text (line_end text pos e) e else [])"
  by pat_completeness auto
termination
  by (relation "measure (\<lambda>(text, pos, e). e - pos)") (use line_end_bounds in \<open>auto intro: diff_less_mono2\<close>)

declare lines_from.simps [simp del]

definition lineRanges :: "js_string \<Rightarrow> range \<Rightarrow> range list" where
  "lineRanges text r = lines_from text (r_start r) (r_end r)"

definition lineBody :: "js_string \<Rightarrow> range \<Rightarrow> js_string" where
  "lineBody text line =
     (let e = (if 0 < r_end line \<and> r_end line \<le> length text \<and> text ! (r_end line - 1) = NL then r_end line - 1 else r_end line)
      in slice text (r_start line) e)"

lemma boundary_after_newline:
  assumes "i < length text" "text ! i = NL"
  shows "cp_boundary text (i + 1)"
proof -
  have "take (i + 1) text = take i text @ [NL]" using assms by (simp add: take_Suc_conv_app_nth)
  then show ?thesis using assms by (auto simp: cp_boundary_def joins_def NL_def is_high_surrogate_def)
qed

lemma line_end_boundary:
  assumes "cp_boundary text e" "pos < e"
  shows "cp_boundary text (line_end text pos e)"
proof (cases "js_index_of NL (drop pos text)")
  case (Some i)
  then have "pos + i < length text" "text ! (pos + i) = NL" using js_index_of_SomeD [OF Some] by auto
  then show ?thesis using Some assms boundary_after_newline by (auto simp: line_end_def)
qed (use assms in \<open>simp add: line_end_def\<close>)

lemma lines_from_tile:
  "cp_boundary text a \<Longrightarrow> cp_boundary text e \<Longrightarrow> a \<le> e \<Longrightarrow> tiles (cp_boundary text) a e (map ends (lines_from text a e))"
proof (induction "text" a e rule: lines_from.induct)
  case (1 "text" a e)
  show ?case
  proof (cases "a < e")
    case True
    then show ?thesis
      using "1.IH" "1.prems" line_end_boundary [of "text" e a] line_end_bounds [of a e "text"]
      by (auto simp: lines_from.simps [of "text" a e] )
  next
    case False
    then show ?thesis using "1.prems" by (subst lines_from.simps) simp
  qed
qed

lemma lineRanges_tile:
  "cp_boundary text (r_start r) \<Longrightarrow> cp_boundary text (r_end r) \<Longrightarrow> r_start r \<le> r_end r \<Longrightarrow>
   tiles (cp_boundary text) (r_start r) (r_end r) (map ends (lineRanges text r))"
  by (simp add: lineRanges_def lines_from_tile)

section \<open>Line shapes\<close>

definition blank_unit :: "16 word \<Rightarrow> bool" where
  "blank_unit u \<longleftrightarrow> u = 0x20 \<or> u = 0x9"

definition digit_unit :: "16 word \<Rightarrow> bool" where
  "digit_unit u \<longleftrightarrow> 0x30 \<le> u \<and> u \<le> 0x39"

text \<open>\<open>/^#{1,6}[ \t]/u\<close>: the run of \<open>#\<close> cannot give back, since \<open>#\<close> is not blank.\<close>

definition heading_line :: "js_string \<Rightarrow> bool" where
  "heading_line s \<longleftrightarrow> (let hs = takeWhile (\<lambda>u. u = 0x23) s; rest = dropWhile (\<lambda>u. u = 0x23) s in
     1 \<le> length hs \<and> length hs \<le> 6 \<and> rest \<noteq> [] \<and> blank_unit (hd rest))"

text \<open>\<open>/^[ \t]*(?:```|~~~)/u\<close>.\<close>

definition fence_line :: "js_string \<Rightarrow> bool" where
  "fence_line s \<longleftrightarrow> take 3 (dropWhile blank_unit s) \<in> {[0x60, 0x60, 0x60], [0x7e, 0x7e, 0x7e]}"

text \<open>\<open>/^[ \t]{0,3}(?:[-*+]|\d{1,3}[.)])[ \t]+/u\<close>.\<close>

definition list_item_line :: "js_string \<Rightarrow> bool" where
  "list_item_line s \<longleftrightarrow>
     (let rest = dropWhile blank_unit s; ds = takeWhile digit_unit rest; after = dropWhile digit_unit rest in
      length (takeWhile blank_unit s) \<le> 3 \<and>
      (if ds = [] then length rest \<ge> 2 \<and> hd rest \<in> {0x2d, 0x2a, 0x2b} \<and> blank_unit (rest ! 1)
       else length ds \<le> 3 \<and> length after \<ge> 2 \<and> hd after \<in> {0x2e, 0x29} \<and> blank_unit (after ! 1)))"

text \<open>\<open>/^[ \t]*>/u\<close> and \<open>/^[ \t]+\S/u\<close>.\<close>

definition quote_line :: "js_string \<Rightarrow> bool" where
  "quote_line s \<longleftrightarrow> (let rest = dropWhile blank_unit s in rest \<noteq> [] \<and> hd rest = 0x3e)"

definition indented_line :: "js_string \<Rightarrow> bool" where
  "indented_line s \<longleftrightarrow> (let rest = dropWhile blank_unit s in
     takeWhile blank_unit s \<noteq> [] \<and> rest \<noteq> [] \<and> \<not> js_whitespace (hd rest))"

section \<open>Blocks\<close>

datatype passage_kind = Prose | List_Items | Table | Code | Quote

record block = range +
  b_kind :: passage_kind
  b_heading :: bool

definition block_of :: "nat \<Rightarrow> nat \<Rightarrow> passage_kind \<Rightarrow> bool \<Rightarrow> block" where
  "block_of a b k h = \<lparr>r_start = a, r_end = b, b_kind = k, b_heading = h\<rparr>"

lemma block_of_sel [simp]:
  "r_start (block_of a b k h) = a" "r_end (block_of a b k h) = b"
  "b_kind (block_of a b k h) = k" "b_heading (block_of a b k h) = h"
  by (simp_all add: block_of_def)

lemma ends_block_of [simp]: "ends (block_of a b k h) = (a, b)"
  by (simp add: ends_def)

record scan =
  sc_blocks :: "block list"
  sc_current :: "block option"
  sc_fence :: bool
  sc_previous_blank :: bool
  sc_carry :: "nat option"

definition flush_block :: "scan \<Rightarrow> scan" where
  "flush_block s = s\<lparr>sc_blocks := sc_blocks s @ (case sc_current s of None \<Rightarrow> [] | Some b \<Rightarrow> [b]), sc_current := None\<rparr>"

definition or_else :: "'a option \<Rightarrow> 'a \<Rightarrow> 'a" where
  "or_else ov d = (case ov of Some x \<Rightarrow> x | None \<Rightarrow> d)"

definition extend_last :: "nat \<Rightarrow> block list \<Rightarrow> block list" where
  "extend_last e bs = (if bs = [] then [] else butlast bs @ [(last bs)\<lparr>r_end := e\<rparr>])"

definition start_block :: "range \<Rightarrow> passage_kind \<Rightarrow> bool \<Rightarrow> scan \<Rightarrow> scan" where
  "start_block line k h s =
     (flush_block s)\<lparr>sc_current := Some (block_of (or_else (sc_carry s) (r_start line)) (r_end line) k h), sc_carry := None\<rparr>"

definition line_kind :: "js_string \<Rightarrow> passage_kind" where
  "line_kind body = (if quote_line body then Quote else if list_item_line body then List_Items else Prose)"

text \<open>One line of the loop of \<open>blockRanges\<close>.\<close>

definition scan_line :: "js_string \<Rightarrow> scan \<Rightarrow> range \<Rightarrow> scan" where
  "scan_line text s line =
     (let body = lineBody text line; e = r_end line in
      if sc_fence s then
        (let s1 = s\<lparr>sc_current := map_option (r_end_update (\<lambda>_. e)) (sc_current s)\<rparr> in
         if fence_line body then flush_block (s1\<lparr>sc_fence := False\<rparr>) else s1)
      else if fence_line body then
        (start_block line Code False s)\<lparr>sc_fence := True, sc_previous_blank := False\<rparr>
      else if js_trim body = [] then
        (case sc_current s of
           Some b \<Rightarrow> s\<lparr>sc_current := Some (b\<lparr>r_end := e\<rparr>), sc_previous_blank := True\<rparr>
         | None \<Rightarrow>
             if sc_blocks s \<noteq> [] then s\<lparr>sc_blocks := extend_last e (sc_blocks s), sc_previous_blank := True\<rparr>
             else s\<lparr>sc_carry := Some (or_else (sc_carry s) (r_start line)), sc_previous_blank := True\<rparr>)
      else if heading_line body then
        (flush_block (start_block line Prose True s))\<lparr>sc_previous_blank := False\<rparr>
      else
        (let k = line_kind body; fresh = (start_block line k False s)\<lparr>sc_previous_blank := False\<rparr> in
         case sc_current s of
           Some b \<Rightarrow>
             if \<not> sc_previous_blank s \<and> (b_kind b = k \<or> (b_kind b = List_Items \<and> k = Prose \<and> indented_line body))
             then s\<lparr>sc_current := Some (b\<lparr>r_end := e\<rparr>), sc_previous_blank := False\<rparr> else fresh
         | None \<Rightarrow> fresh))"

definition empty_scan :: scan where
  "empty_scan = \<lparr>sc_blocks = [], sc_current = None, sc_fence = False, sc_previous_blank = False, sc_carry = None\<rparr>"

definition blockRanges :: "js_string \<Rightarrow> range \<Rightarrow> block list" where
  "blockRanges text r =
     (let blocks = sc_blocks (flush_block (foldl (scan_line text) empty_scan (lineRanges text r))) in
      if blocks = [] \<and> r_end r > r_start r then [block_of (r_start r) (r_end r) Prose False] else blocks)"

text \<open>
  After the lines up to \<open>e\<close> the blocks tile the stretch from \<open>a\<close> to \<open>e\<close>, unless only blank lines came so far: then
  nothing was built and \<open>carry\<close> remembers \<open>a\<close>. Inside a fence a block is open.
\<close>

definition held :: "scan \<Rightarrow> block list" where
  "held s = sc_blocks s @ (case sc_current s of None \<Rightarrow> [] | Some b \<Rightarrow> [b])"

definition scan_inv :: "js_string \<Rightarrow> nat \<Rightarrow> nat \<Rightarrow> scan \<Rightarrow> bool" where
  "scan_inv text a e s \<longleftrightarrow>
     (if held s = [] then sc_carry s = (if a = e then None else Some a) else sc_carry s = None) \<and>
     (held s \<noteq> [] \<longrightarrow> tiles (cp_boundary text) a e (map ends (held s))) \<and>
     (sc_fence s \<longrightarrow> sc_current s \<noteq> None)"

lemma held_flush [simp]: "held (flush_block s) = held s" "sc_carry (flush_block s) = sc_carry s"
  "sc_current (flush_block s) = None" "sc_fence (flush_block s) = sc_fence s" "sc_blocks (flush_block s) = held s"
  by (auto simp: held_def flush_block_def split: option.splits)

lemma held_start:
  "held (start_block line k h s) = held s @ [block_of (or_else (sc_carry s) (r_start line)) (r_end line) k h]"
  by (simp add: start_block_def held_def flush_block_def split: option.splits)

lemma start_sel [simp]: "sc_carry (start_block line k h s) = None" "sc_fence (start_block line k h s) = sc_fence s"
  "sc_current (start_block line k h s) \<noteq> None"
  by (simp_all add: start_block_def flush_block_def)

lemma held_cong: "sc_blocks s = sc_blocks t \<Longrightarrow> sc_current s = sc_current t \<Longrightarrow> held s = held t"
  by (simp add: held_def)

lemma ends_update [simp]: "ends (b\<lparr>r_end := e\<rparr>) = (r_start b, e)" for b :: "'a range_scheme"
  by (simp add: ends_def)

lemma tiles_extend_last:
  assumes "tiles ok a e (map ends bs)" "bs \<noteq> []" "e < d" "ok d"
  shows "tiles ok a d (map ends (butlast bs @ [(last bs)\<lparr>r_end := d\<rparr>]))"
proof -
  have "bs = butlast bs @ [last bs]" using assms(2) by simp
  then have "tiles ok a e (map ends (butlast bs) @ [ends (last bs)])"
    using assms(1) by (metis list.simps(8) list.simps(9) map_append)
  then obtain c where "tiles ok a c (map ends (butlast bs))" "r_start (last bs) = c" "ok c" "c < r_end (last bs)" "r_end (last bs) = e"
    by (auto simp: tiles_append)
  then show ?thesis using assms(3,4) by (auto simp: tiles_append)
qed

text \<open>Starting a block at a line keeps the tiling.\<close>

lemma start_keeps:
  assumes "scan_inv text a e s" "r_start line = e" "e < r_end line" "cp_boundary text a" "cp_boundary text (r_end line)" "a \<le> e"
  shows "tiles (cp_boundary text) a (r_end line) (map ends (held (start_block line k h s)))"
proof (cases "held s = []")
  case True
  then have "or_else (sc_carry s) (r_start line) = a"
    using assms by (auto simp: scan_inv_def or_else_def)
  then show ?thesis using True assms by (simp add: held_start )
next
  case False
  then have "sc_carry s = None" "tiles (cp_boundary text) a e (map ends (held s))"
    using assms by (auto simp: scan_inv_def)
  then show ?thesis using assms tiles_snoc by (simp add: held_start  or_else_def)
qed

text \<open>Extending the last block to the end of a line keeps the tiling.\<close>

lemma extend_keeps:
  assumes "scan_inv text a e s" "held s \<noteq> []" "e < d" "cp_boundary text d"
  shows "tiles (cp_boundary text) a d (map ends (butlast (held s) @ [(last (held s))\<lparr>r_end := d\<rparr>]))"
  using assms tiles_extend_last [of "cp_boundary text" a e "held s" d] by (auto simp: scan_inv_def)

lemma scan_line_keeps:
  assumes inv: "scan_inv text a e s" and line: "r_start line = e" "e < r_end line"
    and ok: "cp_boundary text a" "cp_boundary text (r_end line)" "a \<le> e"
  shows "scan_inv text a (r_end line) (scan_line text s line)"
proof -
  let ?d = "r_end line"
  have ext: "sc_current s = Some b \<Longrightarrow>
      tiles (cp_boundary text) a ?d (map ends (sc_blocks s) @ [(r_start b, ?d)])" for b
    using extend_keeps [OF inv _ line(2) ok(2)] by (auto simp: held_def)
  have carry: "sc_current s = Some b \<Longrightarrow> sc_carry s = None" for b
    using inv by (auto simp: scan_inv_def held_def)
  note start = start_keeps [OF inv line ok]
  show ?thesis
  proof (cases "sc_fence s")
    case True
    then obtain b where b: "sc_current s = Some b" using inv by (auto simp: scan_inv_def)
    then show ?thesis
      using True ext [OF b] carry [OF b]
      by (auto simp: scan_line_def Let_def scan_inv_def held_def flush_block_def)
  next
    case False
    note fence = False
    show ?thesis
    proof (cases "fence_line (lineBody text line)")
      case True
      have "held (scan_line text s line) = held (start_block line Code False s)"
        using fence True by (simp add: scan_line_def Let_def held_def)
      then show ?thesis
        using fence True start [of Code False] by (auto simp: scan_inv_def held_start scan_line_def Let_def)
    next
      case False
      note nofence = False
      show ?thesis
      proof (cases "js_trim (lineBody text line) = []")
        case True
        note blank = True
        show ?thesis
        proof (cases "sc_current s")
          case (Some b)
          then show ?thesis
            using fence nofence blank ext [OF Some] carry [OF Some]
            by (auto simp: scan_line_def Let_def scan_inv_def held_def)
        next
          case None
          show ?thesis
          proof (cases "sc_blocks s = []")
            case True
            then show ?thesis
              using inv None fence nofence blank line ok
              by (auto simp: scan_line_def Let_def scan_inv_def held_def or_else_def)
          next
            case False
            then show ?thesis
              using inv None fence nofence blank line ok extend_keeps [OF inv _ line(2) ok(2)]
              by (auto simp: scan_line_def Let_def scan_inv_def held_def extend_last_def)
          qed
        qed
      next
        case False
        note text_line = False
        show ?thesis
        proof (cases "heading_line (lineBody text line)")
          case True
          have eq: "scan_line text s line = (flush_block (start_block line Prose True s))\<lparr>sc_previous_blank := False\<rparr>"
            using fence nofence text_line True by (simp add: scan_line_def Let_def)
          have "held (scan_line text s line) = held (start_block line Prose True s)"
            unfolding eq by (simp add: held_def)
          then show ?thesis
            using fence start [of Prose True] by (auto simp: scan_inv_def held_start eq)
        next
          case False
          let ?k = "line_kind (lineBody text line)"
          have "(\<exists>b. sc_current s = Some b \<and> scan_line text s line = s\<lparr>sc_current := Some (b\<lparr>r_end := ?d\<rparr>), sc_previous_blank := False\<rparr>)
              \<or> scan_line text s line = (start_block line ?k False s)\<lparr>sc_previous_blank := False\<rparr>"
            using fence nofence text_line False by (cases "sc_current s") (auto simp: scan_line_def Let_def)
          then consider b where "sc_current s = Some b"
                "scan_line text s line = s\<lparr>sc_current := Some (b\<lparr>r_end := ?d\<rparr>), sc_previous_blank := False\<rparr>"
            | "scan_line text s line = (start_block line ?k False s)\<lparr>sc_previous_blank := False\<rparr>" by blast
          then show ?thesis
          proof cases
            case 1
            then show ?thesis
              using fence ext [OF 1(1)] carry [OF 1(1)] by (auto simp: scan_inv_def held_def)
          next
            case 2
            have "held (scan_line text s line) = held (start_block line ?k False s)"
              unfolding 2 by (simp add: held_def)
            then show ?thesis
              using fence start [of ?k False] by (auto simp: scan_inv_def held_start 2)
          qed
        qed
      qed
    qed
  qed
qed

lemma scan_lines_keep:
  "scan_inv text a e s \<Longrightarrow> tiles (cp_boundary text) e d (map ends lines) \<Longrightarrow> cp_boundary text a \<Longrightarrow> a \<le> e \<Longrightarrow>
   scan_inv text a d (foldl (scan_line text) s lines)"
proof (induction lines arbitrary: e s)
  case (Cons l ls)
  then have "scan_inv text a (r_end l) (scan_line text s l)"
    using tiles_ok [of "cp_boundary text" "r_end l" d "map ends ls"] by (intro scan_line_keeps) auto
  then show ?case using Cons by auto
qed simp

text \<open>The blocks of a stretch partition it.\<close>

lemma blockRanges_tile:
  assumes "cp_boundary text (r_start r)" "cp_boundary text (r_end r)" "r_start r < r_end r"
  shows "tiles (cp_boundary text) (r_start r) (r_end r) (map ends (blockRanges text r))"
proof -
  let ?s = "foldl (scan_line text) empty_scan (lineRanges text r)"
  have "scan_inv text (r_start r) (r_start r) empty_scan"
    by (simp add: scan_inv_def held_def empty_scan_def)
  then have "scan_inv text (r_start r) (r_end r) ?s"
    using assms by (intro scan_lines_keep) (auto intro: lineRanges_tile)
  then show ?thesis
    using assms by (auto simp: blockRanges_def Let_def scan_inv_def )
qed

section \<open>Sentences and list items\<close>

definition sentenceRanges :: "intl \<Rightarrow> js_string \<Rightarrow> range \<Rightarrow> range list" where
  "sentenceRanges I text r =
     (let s = slice text (r_start r) (r_end r) in
      segment_ranges (r_start r) (sentences I (list_ex (in_hangul (tables I)) (code_points s)) s))"

lemma sentenceRanges_tile:
  assumes "segmenter_ok I" "cp_boundary text (r_start r)" "cp_boundary text (r_end r)" "r_start r \<le> r_end r"
  shows "tiles (cp_boundary text) (r_start r) (r_end r) (map ends (sentenceRanges I text r))"
  using assms segment_ranges_tile [of "text" "r_start r" "r_end r"]
  by (simp add: sentenceRanges_def segmenter_ok_def Let_def cp_boundary_def)

fun ranges_from_starts :: "nat list \<Rightarrow> nat \<Rightarrow> range list" where
  "ranges_from_starts [] e = []"
| "ranges_from_starts [a] e = [rng a e]"
| "ranges_from_starts (a # b # bs) e = rng a b # ranges_from_starts (b # bs) e"

definition listItemRanges :: "js_string \<Rightarrow> range \<Rightarrow> range list" where
  "listItemRanges text r =
     (let starts = map r_start (filter (\<lambda>l. list_item_line (lineBody text l)) (lineRanges text r));
          starts' = (if starts = [] \<or> hd starts \<noteq> r_start r then r_start r # starts else starts)
      in ranges_from_starts starts' (r_end r))"

lemma starts_tile:
  "sorted_wrt (<) (a # bs) \<Longrightarrow> \<forall>b\<in>set (a # bs). ok b \<and> b < e \<Longrightarrow> ok e \<Longrightarrow>
   tiles ok a e (map ends (ranges_from_starts (a # bs) e))"
  by (induction bs arbitrary: a) auto

lemma tiles_starts: "tiles ok a e (map ends rs) \<Longrightarrow>
  sorted_wrt (<) (map r_start rs) \<and> (\<forall>r\<in>set rs. a \<le> r_start r \<and> r_start r < e \<and> ok (r_start r))"
proof (induction rs arbitrary: a)
  case (Cons r rs)
  then have r: "r_start r = a" "a < r_end r" and rest: "tiles ok (r_end r) e (map ends rs)" by auto
  have "r_end r \<le> e" using tiles_le [OF rest] .
  with Cons.IH [OF rest] r Cons.prems show ?case by fastforce
qed simp

lemma listItemRanges_tile:
  assumes "cp_boundary text (r_start r)" "cp_boundary text (r_end r)" "r_start r < r_end r"
  shows "tiles (cp_boundary text) (r_start r) (r_end r) (map ends (listItemRanges text r))"
proof -
  let ?f = "filter (\<lambda>l. list_item_line (lineBody text l)) (lineRanges text r)"
  let ?starts = "map r_start ?f"
  let ?starts' = "if ?starts = [] \<or> hd ?starts \<noteq> r_start r then r_start r # ?starts else ?starts"
  have t: "sorted_wrt (<) (map r_start (lineRanges text r))"
    "\<forall>l\<in>set (lineRanges text r). r_start r \<le> r_start l \<and> r_start l < r_end r \<and> cp_boundary text (r_start l)"
    using tiles_starts [OF lineRanges_tile [of "text" r]] assms by auto
  have srt: "sorted_wrt (<) ?starts"
    using t(1) by (simp add: sorted_wrt_map sorted_wrt_filter)
  have hd: "\<exists>bs. ?starts' = r_start r # bs"
    by (cases ?starts) auto
  then obtain bs where bs: "?starts' = r_start r # bs" by blast
  have "sorted_wrt (<) ?starts'"
  proof (cases "?starts = [] \<or> hd ?starts \<noteq> r_start r")
    case True
    have "\<forall>x\<in>set ?starts. r_start r < x"
    proof (cases ?starts)
      case (Cons y ys)
      then have "r_start r \<noteq> y" using True by (metis list.sel(1) list.simps(3))
      moreover have "y \<in> set ?starts" unfolding Cons by simp
      then have "r_start r \<le> y" using t(2) by auto
      moreover have "\<forall>x\<in>set ys. y < x" using srt unfolding Cons by simp
      ultimately show ?thesis unfolding Cons by auto
    qed simp
    then show ?thesis using True srt by simp
  qed (use srt in simp)
  moreover have "\<forall>b\<in>set ?starts'. cp_boundary text b \<and> b < r_end r"
    using t(2) assms by auto
  ultimately show ?thesis
    using starts_tile [of "r_start r" bs "cp_boundary text" "r_end r"] assms(2)
    unfolding bs listItemRanges_def Let_def by simp
qed

section \<open>Grapheme clusters\<close>

text \<open>A bound of \<open>None\<close> tokens is \<open>Infinity\<close>.\<close>

record piece_limit =
  max_points :: int
  max_tokens :: "rat option"

definition over_tokens :: "rat \<Rightarrow> rat option \<Rightarrow> bool" where
  "over_tokens w bound = (case bound of None \<Rightarrow> False | Some m \<Rightarrow> w > m)"

record cut =
  cu_out :: "range list"
  cu_start :: nat
  cu_points :: int
  cu_weight :: rat

definition close_piece :: "nat \<Rightarrow> cut \<Rightarrow> cut" where
  "close_piece e c = \<lparr>cu_out = cu_out c @ (if e > cu_start c then [rng (cu_start c) e] else []),
     cu_start = e, cu_points = 0, cu_weight = 0\<rparr>"

text \<open>One cluster of the loop of \<open>graphemeRanges\<close>.\<close>

definition cut_cluster :: "intl \<Rightarrow> js_string \<Rightarrow> piece_limit \<Rightarrow> cut \<Rightarrow> range \<Rightarrow> cut" where
  "cut_cluster I text limit c part =
     (let ix = code_point_index text;
          size = countUnits ix (r_start part) (r_end part);
          cost = estimateTokenWeight (tables I) (slice text (r_start part) (r_end part));
          c1 = (if cu_points c > 0 \<and> (cu_points c + size > max_points limit \<or> over_tokens (cu_weight c + cost) (max_tokens limit))
                then close_piece (r_start part) c else c)
      in if size > max_points limit
         then close_piece (r_end part) (c1\<lparr>cu_start := r_start part\<rparr>)
         else c1\<lparr>cu_points := cu_points c1 + size, cu_weight := cu_weight c1 + cost\<rparr>)"

definition graphemeRanges :: "intl \<Rightarrow> js_string \<Rightarrow> range \<Rightarrow> piece_limit \<Rightarrow> range list" where
  "graphemeRanges I text r limit =
     (let clusters = segment_ranges (r_start r) (graphemes I (slice text (r_start r) (r_end r))) in
      cu_out (close_piece (r_end r)
        (foldl (cut_cluster I text limit) \<lparr>cu_out = [], cu_start = r_start r, cu_points = 0, cu_weight = 0\<rparr> clusters)))"

text \<open>A piece within the code-point limit, or one whole cluster.\<close>

definition piece_ok :: "js_string \<Rightarrow> int \<Rightarrow> range set \<Rightarrow> range \<Rightarrow> bool" where
  "piece_ok text m cs p \<longleftrightarrow> countUnits (code_point_index text) (r_start p) (r_end p) \<le> m \<or> p \<in> cs"

definition cut_inv :: "js_string \<Rightarrow> int \<Rightarrow> range set \<Rightarrow> nat \<Rightarrow> nat \<Rightarrow> cut \<Rightarrow> bool" where
  "cut_inv text m cs a e c \<longleftrightarrow>
     tiles (cp_boundary text) a (cu_start c) (map ends (cu_out c)) \<and> cu_start c \<le> e \<and> cp_boundary text e \<and>
     cu_points c = countUnits (code_point_index text) (cu_start c) e \<and> cu_points c \<le> m \<and>
     (\<forall>p\<in>set (cu_out c). piece_ok text m cs p)"

lemma close_keeps:
  assumes "cut_inv text m cs a e c" "0 \<le> m"
  shows "cut_inv text m cs a e (close_piece e c) \<and> cu_start (close_piece e c) = e"
proof (cases "cu_start c < e")
  case True
  then show ?thesis
    using assms tiles_snoc [of "cp_boundary text" a "cu_start c" "map ends (cu_out c)" e]
    by (auto simp: cut_inv_def close_piece_def  piece_ok_def countUnits_def)
next
  case False
  then show ?thesis
    using assms by (auto simp: cut_inv_def close_piece_def countUnits_def)
qed

lemma positive_stretch:
  assumes "cp_boundary text a" "cp_boundary text b" "a \<le> b" "\<not> 0 < countUnits (code_point_index text) a b"
  shows "a = b"
  using assms toPoint_strict [of "text" a b] by (cases "a < b") (auto simp: countUnits_def)

lemma cut_cluster_keeps:
  assumes inv: "cut_inv text m cs a e c" and part: "r_start part = e" "e < r_end part" "cp_boundary text (r_end part)"
    and m: "0 \<le> m" "max_points limit = m" and cs: "part \<in> cs"
  shows "cut_inv text m cs a (r_end part) (cut_cluster I text limit c part)"
proof -
  let ?size = "countUnits (code_point_index text) e (r_end part)"
  let ?cost = "estimateTokenWeight (tables I) (slice text e (r_end part))"
  let ?closes = "cu_points c > 0 \<and> (cu_points c + ?size > m \<or> over_tokens (cu_weight c + ?cost) (max_tokens limit))"
  define c1 where "c1 = (if ?closes then close_piece e c else c)"
  have step: "cut_cluster I text limit c part =
      (if ?size > m then close_piece (r_end part) (c1\<lparr>cu_start := e\<rparr>)
       else c1\<lparr>cu_points := cu_points c1 + ?size, cu_weight := cu_weight c1 + ?cost\<rparr>)"
    unfolding cut_cluster_def Let_def c1_def part(1) m(2) by (rule refl)
  have inv1: "cut_inv text m cs a e c1"
    using close_keeps [OF inv m(1)] inv by (simp add: c1_def)
  have bnd: "cp_boundary text (cu_start c1)"
    using inv1 tiles_ok by (auto simp: cut_inv_def)
  show ?thesis
  proof (cases "?size > m")
    case True
    have "cu_start c1 = e"
    proof (cases "cu_points c > 0")
      case True
      then show ?thesis
        using \<open>?size > m\<close> close_keeps [OF inv m(1)] by (simp add: c1_def)
    next
      case False
      then show ?thesis
        using inv bnd positive_stretch [of "text" "cu_start c" e] by (auto simp: cut_inv_def c1_def)
    qed
    then have "tiles (cp_boundary text) a (r_end part) (map ends (cu_out c1) @ [(e, r_end part)])"
      using inv1 part tiles_snoc by (auto simp: cut_inv_def)
    moreover have "rng e (r_end part) \<in> cs" using cs part(1) by (cases part) (auto simp: rng_def)
    ultimately show ?thesis
      using step True inv1 part m
      by (auto simp: cut_inv_def close_piece_def  piece_ok_def countUnits_def)
  next
    case False
    have sum: "cu_points c1 + ?size \<le> m"
      using False close_keeps [OF inv m(1)] inv m by (auto simp: c1_def cut_inv_def close_piece_def)
    then show ?thesis
      using step False inv1 part by (auto simp: cut_inv_def countUnits_append)
  qed
qed

lemma cut_clusters_keep:
  "cut_inv text m cs a e c \<Longrightarrow> tiles (cp_boundary text) e d (map ends parts) \<Longrightarrow> set parts \<subseteq> cs \<Longrightarrow> 0 \<le> m \<Longrightarrow>
   max_points limit = m \<Longrightarrow> cut_inv text m cs a d (foldl (cut_cluster I text limit) c parts)"
proof (induction parts arbitrary: e c)
  case (Cons p ps)
  then have "cut_inv text m cs a (r_end p) (cut_cluster I text limit c p)"
    using tiles_ok [of "cp_boundary text" "r_end p" d "map ends ps"] by (intro cut_cluster_keeps) auto
  then show ?case using Cons by auto
qed simp

definition clusters_of :: "intl \<Rightarrow> js_string \<Rightarrow> range \<Rightarrow> range list" where
  "clusters_of I text r = segment_ranges (r_start r) (graphemes I (slice text (r_start r) (r_end r)))"

lemma graphemeRanges_ok:
  assumes "segmenter_ok I" "cp_boundary text (r_start r)" "cp_boundary text (r_end r)" "r_start r \<le> r_end r" "0 \<le> max_points limit"
  shows "tiles (cp_boundary text) (r_start r) (r_end r) (map ends (graphemeRanges I text r limit)) \<and>
         (\<forall>p\<in>set (graphemeRanges I text r limit). piece_ok text (max_points limit) (set (clusters_of I text r)) p)"
proof -
  let ?c0 = "\<lparr>cu_out = [], cu_start = r_start r, cu_points = 0, cu_weight = 0\<rparr>"
  have "tiles (cp_boundary text) (r_start r) (r_end r) (map ends (clusters_of I text r))"
    using assms segment_ranges_tile [of "text" "r_start r" "r_end r"]
    by (simp add: clusters_of_def segmenter_ok_def cp_boundary_def)
  then have "cut_inv text (max_points limit) (set (clusters_of I text r)) (r_start r) (r_end r)
      (foldl (cut_cluster I text limit) ?c0 (clusters_of I text r))"
    using assms by (intro cut_clusters_keep) (auto simp: cut_inv_def countUnits_def)
  from close_keeps [OF this assms(5)] show ?thesis
    unfolding graphemeRanges_def clusters_of_def [symmetric] Let_def by (auto simp: cut_inv_def)
qed

end
