(* ===== verification/Passages.thy ===== *)
theory Passages
  imports Text_Boundaries
begin

text \<open>
  Splitting one prepared item into passages: \<open>chunking/passages.ts\<close> and the types of \<open>chunking/types.ts\<close>
  (under \<open>packages/core/src/application\<close>). The digest of \<open>node:crypto\<close> is a parameter. The list of previous drafts
  that the source keeps in a \<open>Map\<close> by identity is a list of pairs here.
\<close>

section \<open>Bounds and types\<close>

definition PASSAGE_TARGET_CODE_POINTS :: int where "PASSAGE_TARGET_CODE_POINTS = 800"
definition PASSAGE_MAX_CODE_POINTS :: int where "PASSAGE_MAX_CODE_POINTS = 1200"
definition PASSAGE_MAX_TOKENS :: rat where "PASSAGE_MAX_TOKENS = 600"
definition OVERLAP_MAX_CODE_POINTS :: int where "OVERLAP_MAX_CODE_POINTS = 150"
definition TABLE_HEADER_REPEAT_MAX_CODE_POINTS :: int where "TABLE_HEADER_REPEAT_MAX_CODE_POINTS = 300"
definition FRAME_MAX_CODE_POINTS :: int where "FRAME_MAX_CODE_POINTS = 120"
definition CODE_OVERLAP_LINES :: nat where "CODE_OVERLAP_LINES = 2"

lemmas passage_bounds [bound_simps] = PASSAGE_TARGET_CODE_POINTS_def PASSAGE_MAX_CODE_POINTS_def PASSAGE_MAX_TOKENS_def
  OVERLAP_MAX_CODE_POINTS_def TABLE_HEADER_REPEAT_MAX_CODE_POINTS_def FRAME_MAX_CODE_POINTS_def CODE_OVERLAP_LINES_def

definition PASSAGE_LIMIT :: piece_limit where
  "PASSAGE_LIMIT = \<lparr>max_points = PASSAGE_MAX_CODE_POINTS, max_tokens = Some PASSAGE_MAX_TOKENS\<rparr>"

text \<open>Offsets of a span are code points.\<close>

type_synonym span = "nat \<times> nat"

record passage_rows =
  pr_first :: int
  pr_last :: int
  pr_header :: "span option"

record passage =
  p_ordinal :: nat
  p_total :: nat
  p_frame :: js_string
  p_kind :: passage_kind
  p_span :: span
  p_overlap :: "span option"
  p_rows :: "passage_rows option"
  p_over_cap :: bool
  p_est_tokens :: int
  p_hash :: string

record chunk_section =
  cs_frame :: js_string
  cs_start :: nat
  cs_end :: nat
  cs_table :: bool
  cs_first_row :: "int option"

record unit_piece = range +
  u_kind :: passage_kind
  u_origin :: nat
  u_split :: bool
  u_heading :: bool
  u_row :: "nat option"
  u_points :: int
  u_weight :: rat

record header_row = range +
  h_points :: int
  h_weight :: rat

record draft =
  d_units :: "unit_piece list"
  d_frame :: js_string
  d_table :: bool
  d_header :: "header_row option"
  d_points :: int
  d_weight :: rat

section \<open>Units\<close>

text \<open>\<open>replace(/\s+/gu, ' ').trim()\<close>: a run of white space becomes one space.\<close>

fun collapse_runs :: "js_string \<Rightarrow> js_string" where
  "collapse_runs [] = []"
| "collapse_runs [u] = [if js_whitespace u then 0x20 else u]"
| "collapse_runs (u # v # us) =
     (if js_whitespace u then (if js_whitespace v then collapse_runs (v # us) else 0x20 # collapse_runs (v # us))
      else u # collapse_runs (v # us))"

definition oneLineFrame :: "intl \<Rightarrow> js_string \<Rightarrow> js_string" where
  "oneLineFrame I frame =
     (let t = js_trim (collapse_runs frame) in
      if int (length (code_points t)) \<le> FRAME_MAX_CODE_POINTS then t
      else (case graphemeRanges I t (rng 0 (length t)) \<lparr>max_points = FRAME_MAX_CODE_POINTS, max_tokens = None\<rparr> of
              [] \<Rightarrow> []
            | r # _ \<Rightarrow> slice t (r_start r) (r_end r)))"

definition weight_of :: "intl \<Rightarrow> js_string \<Rightarrow> nat \<Rightarrow> nat \<Rightarrow> rat" where
  "weight_of I text a b = estimateTokenWeight (tables I) (slice text a b)"

definition unitOf :: "intl \<Rightarrow> js_string \<Rightarrow> 'z range_scheme \<Rightarrow> passage_kind \<Rightarrow> nat \<Rightarrow> bool \<Rightarrow> bool \<Rightarrow> nat option \<Rightarrow> unit_piece" where
  "unitOf I text r k origin split heading row =
     \<lparr>r_start = r_start r, r_end = r_end r, u_kind = k, u_origin = origin, u_split = split, u_heading = heading, u_row = row,
      u_points = countUnits (code_point_index text) (r_start r) (r_end r), u_weight = weight_of I text (r_start r) (r_end r)\<rparr>"

lemma unitOf_sel [simp]:
  "r_start (unitOf I text r k og sp h row) = r_start r" "r_end (unitOf I text r k og sp h row) = r_end r"
  "ends (unitOf I text r k og sp h row) = ends r"
  "u_points (unitOf I text r k og sp h row) = countUnits (code_point_index text) (r_start r) (r_end r)"
  "u_split (unitOf I text r k og sp h row) = sp" "u_heading (unitOf I text r k og sp h row) = h"
  by (simp_all add: unitOf_def ends_def)

definition fitsLimit :: "int \<Rightarrow> rat \<Rightarrow> piece_limit \<Rightarrow> bool" where
  "fitsLimit points weight limit \<longleftrightarrow> points \<le> max_points limit \<and> \<not> over_tokens weight (max_tokens limit)"

definition piece_fits :: "intl \<Rightarrow> js_string \<Rightarrow> piece_limit \<Rightarrow> range \<Rightarrow> bool" where
  "piece_fits I text limit p \<longleftrightarrow>
     fitsLimit (countUnits (code_point_index text) (r_start p) (r_end p)) (weight_of I text (r_start p) (r_end p)) limit"

text \<open>Cut every range that does not fit with the next rule.\<close>

definition cut_oversized :: "intl \<Rightarrow> js_string \<Rightarrow> piece_limit \<Rightarrow> (range \<Rightarrow> range list) \<Rightarrow> range list \<Rightarrow> range list" where
  "cut_oversized I text limit f ps = concat (map (\<lambda>p. if piece_fits I text limit p then [p] else f p) ps)"

definition splitOversized :: "intl \<Rightarrow> js_string \<Rightarrow> range \<Rightarrow> passage_kind \<Rightarrow> piece_limit \<Rightarrow> range list" where
  "splitOversized I text r k limit =
     (let clusters = (\<lambda>p. graphemeRanges I text p limit);
          bySentence = (\<lambda>p. cut_oversized I text limit clusters (sentenceRanges I text p));
          first = (if k = Code then lineRanges text r else if k = List_Items then listItemRanges text r else sentenceRanges I text r)
      in cut_oversized I text limit (if k = Code \<or> k = List_Items then bySentence else clusters) first)"

definition plain_range :: "'z range_scheme \<Rightarrow> range" where
  "plain_range r = rng (r_start r) (r_end r)"

lemma plain_range_sel [simp]: "r_start (plain_range r) = r_start r" "r_end (plain_range r) = r_end r"
  "ends (plain_range r) = ends r"
  by (simp_all add: plain_range_def ends_def)

lemma plain_range_id [simp]: "plain_range (q :: range) = q"
  by (cases q) (simp add: plain_range_def rng_def)

definition block_units :: "intl \<Rightarrow> js_string \<Rightarrow> nat \<Rightarrow> nat \<times> block \<Rightarrow> unit_piece list" where
  "block_units I text originBase ob =
     (let origin = originBase + fst ob; b = snd ob; u = unitOf I text b (b_kind b) origin False (b_heading b) None in
      if fitsLimit (u_points u) (u_weight u) PASSAGE_LIMIT then [u]
      else map (\<lambda>p. unitOf I text p (b_kind b) origin True False None)
             (splitOversized I text (plain_range b) (b_kind b) PASSAGE_LIMIT))"

definition textUnits :: "intl \<Rightarrow> js_string \<Rightarrow> range \<Rightarrow> nat \<Rightarrow> unit_piece list" where
  "textUnits I text r originBase = concat (map (block_units I text originBase) (enumerate 0 (blockRanges text r)))"

text \<open>A blank line belongs to the row before it.\<close>

definition add_row :: "js_string \<Rightarrow> range list \<Rightarrow> range \<Rightarrow> range list" where
  "add_row text rows line =
     (if js_trim (slice text (r_start line) (r_end line)) = [] \<and> rows \<noteq> []
      then butlast rows @ [rng (r_start (last rows)) (r_end line)] else rows @ [line])"

definition table_limit :: "int \<Rightarrow> rat \<Rightarrow> piece_limit" where
  "table_limit headerPoints headerWeight =
     \<lparr>max_points = max 1 (PASSAGE_MAX_CODE_POINTS - headerPoints), max_tokens = Some (max 1 (PASSAGE_MAX_TOKENS - headerWeight))\<rparr>"

definition row_units :: "intl \<Rightarrow> js_string \<Rightarrow> nat \<Rightarrow> piece_limit \<Rightarrow> nat \<times> range \<Rightarrow> unit_piece list" where
  "row_units I text originBase limit orow =
     (let order = fst orow; whole = unitOf I text (snd orow) Table (originBase + order) False False (Some order) in
      if fitsLimit (u_points whole) (u_weight whole) limit then [whole]
      else map (\<lambda>p. unitOf I text p Table (originBase + order) True False (Some order))
             (splitOversized I text (snd orow) Prose limit))"

definition tableUnits :: "intl \<Rightarrow> js_string \<Rightarrow> range \<Rightarrow> nat \<Rightarrow> int \<Rightarrow> rat \<Rightarrow> unit_piece list" where
  "tableUnits I text r originBase headerPoints headerWeight =
     concat (map (row_units I text originBase (table_limit headerPoints headerWeight))
       (enumerate 0 (foldl (add_row text) [] (lineRanges text r))))"

section \<open>Packing units into drafts\<close>

definition ALLOWANCE :: piece_limit where
  "ALLOWANCE = PASSAGE_LIMIT"

definition header_points :: "header_row option \<Rightarrow> int" where
  "header_points h = (case h of None \<Rightarrow> 0 | Some r \<Rightarrow> h_points r)"

definition header_weight :: "header_row option \<Rightarrow> rat" where
  "header_weight h = (case h of None \<Rightarrow> 0 | Some r \<Rightarrow> h_weight r)"

definition draft_with :: "js_string \<Rightarrow> bool \<Rightarrow> header_row option \<Rightarrow> draft" where
  "draft_with frame table h =
     \<lparr>d_units = [], d_frame = frame, d_table = table, d_header = h, d_points = header_points h, d_weight = header_weight h\<rparr>"

text \<open>The first draft of a table holds its header row itself; later ones repeat it.\<close>

definition open_draft :: "js_string \<Rightarrow> bool \<Rightarrow> header_row option \<Rightarrow> draft list \<Rightarrow> draft" where
  "open_draft frame table header drafts = draft_with frame table (if table \<and> drafts \<noteq> [] then header else None)"

definition flush_draft :: "draft list \<Rightarrow> draft option \<Rightarrow> draft list" where
  "flush_draft drafts current = drafts @ (case current of Some d \<Rightarrow> if d_units d \<noteq> [] then [d] else [] | None \<Rightarrow> [])"

definition overflows :: "draft \<Rightarrow> unit_piece \<Rightarrow> bool" where
  "overflows d u \<longleftrightarrow> \<not> fitsLimit (d_points d + u_points u) (d_weight d + u_weight u) ALLOWANCE"

definition add_unit :: "unit_piece \<Rightarrow> draft \<Rightarrow> draft" where
  "add_unit u d = d\<lparr>d_units := d_units d @ [u], d_points := d_points d + u_points u, d_weight := d_weight d + u_weight u\<rparr>"

text \<open>One unit of the loop of \<open>pack\<close>: the drafts closed so far and the open one.\<close>

definition pack_unit :: "js_string \<Rightarrow> bool \<Rightarrow> header_row option \<Rightarrow> draft list \<times> draft option \<Rightarrow> unit_piece \<Rightarrow> draft list \<times> draft option" where
  "pack_unit frame table header st u =
     (let drafts = fst st;
          d0 = (case snd st of Some d \<Rightarrow> d | None \<Rightarrow> open_draft frame table header drafts);
          startsSection = (u_heading u \<and> d_units d0 \<noteq> [] \<and> \<not> list_all u_heading (d_units d0));
          cutNow = (startsSection \<or> (d_units d0 \<noteq> [] \<and> overflows d0 u));
          drafts1 = (if cutNow then flush_draft drafts (Some d0) else drafts);
          d1 = (if cutNow then open_draft frame table header drafts1 else d0);
          d2 = (if d_units d1 = [] \<and> d_header d1 \<noteq> None \<and> overflows d1 u then draft_with frame table None else d1);
          d3 = add_unit u d2
      in if d_points d3 \<ge> PASSAGE_TARGET_CODE_POINTS \<or> d_weight d3 \<ge> PASSAGE_MAX_TOKENS
         then (flush_draft drafts1 (Some d3), None) else (drafts1, Some d3))"

definition pack_units :: "unit_piece list \<Rightarrow> js_string \<Rightarrow> bool \<Rightarrow> header_row option \<Rightarrow> draft list" where
  "pack_units units frame table header =
     (let st = foldl (pack_unit frame table header) ([], None) units in flush_draft (fst st) (snd st))"

section \<open>Sections\<close>

datatype chunk_error = Sections_must_tile

fun validateSections :: "nat \<Rightarrow> chunk_section list \<Rightarrow> nat \<Rightarrow> chunk_error + unit" where
  "validateSections at_pos [] len = guard_err Sections_must_tile (at_pos = len)"
| "validateSections at_pos (s # ss) len =
     (if cs_start s \<noteq> at_pos \<or> cs_end s < cs_start s then Inl Sections_must_tile else validateSections (cs_end s) ss len)"

record section_part =
  sp_frame :: js_string
  sp_body :: js_string
  sp_table :: bool
  sp_first_row :: "int option"

fun join_from :: "nat \<Rightarrow> section_part list \<Rightarrow> js_string \<times> chunk_section list" where
  "join_from pos [] = ([], [])"
| "join_from pos (p # ps) =
     (let body = (if ps \<noteq> [] then sp_body p @ [NL, NL] else sp_body p);
          e = pos + length (code_points body);
          rest = join_from e ps
      in (body @ fst rest, \<lparr>cs_frame = sp_frame p, cs_start = pos, cs_end = e, cs_table = sp_table p, cs_first_row = sp_first_row p\<rparr> # snd rest))"

definition joinSections :: "section_part list \<Rightarrow> js_string \<times> chunk_section list" where
  "joinSections parts = join_from 0 parts"

section \<open>Passages\<close>

definition spanOf :: "cp_index \<Rightarrow> 'z range_scheme \<Rightarrow> span" where
  "spanOf ix r = (toPoint ix (r_start r), toPoint ix (r_end r))"

definition kindOf :: "unit_piece list \<Rightarrow> bool \<Rightarrow> passage_kind" where
  "kindOf units table =
     (if table then Table
      else (let first = (case units of u # _ \<Rightarrow> u_kind u | [] \<Rightarrow> Prose) in
            if list_all (\<lambda>u. u_kind u = first) units then first else Prose))"

text \<open>How far back the overlap reaches: the last unit, or up to two lines of one code block.\<close>

fun overlap_from :: "unit_piece list \<Rightarrow> nat \<Rightarrow> nat \<Rightarrow> nat \<Rightarrow> nat" where
  "overlap_from us origin taken 0 = 0"
| "overlap_from us origin taken (Suc n) =
     (if taken < CODE_OVERLAP_LINES \<and> u_origin (us ! n) = origin then overlap_from us origin (Suc taken) n else Suc n)"

definition overlapFor :: "cp_index \<Rightarrow> draft option \<Rightarrow> draft \<Rightarrow> range option" where
  "overlapFor ix previous d = (case previous of
       None \<Rightarrow> None
     | Some p \<Rightarrow>
         if d_table d \<or> d_units p = [] \<or> d_units d = [] then None
         else (let l = last (d_units p); f = hd (d_units d) in
           if \<not> u_split l \<or> \<not> u_split f \<or> u_origin l \<noteq> u_origin f then None
           else (let n = length (d_units p) - 1;
                     from_i = (if u_kind l = Code then overlap_from (d_units p) (u_origin l) 1 n else n);
                     start = r_start (d_units p ! from_i);
                     points = countUnits ix start (r_end l);
                     cap = min OVERLAP_MAX_CODE_POINTS \<lfloor>15 / 100 * rat_of_int (d_points d)\<rfloor>
                 in if points > 0 \<and> points \<le> cap \<and> d_points d + points \<le> PASSAGE_MAX_CODE_POINTS
                    then Some (rng start (r_end l)) else None)))"

definition sectionFirstRow :: "chunk_section list \<Rightarrow> cp_index \<Rightarrow> range \<Rightarrow> int" where
  "sectionFirstRow secs ix r =
     (let p = toPoint ix (r_start r) in
      case find (\<lambda>s. cs_start s \<le> p \<and> p < cs_end s) secs of
        Some s \<Rightarrow> (case cs_first_row s of Some n \<Rightarrow> n | None \<Rightarrow> 1)
      | None \<Rightarrow> 1)"

definition section_drafts :: "intl \<Rightarrow> js_string \<Rightarrow> nat \<Rightarrow> chunk_section \<Rightarrow> draft list" where
  "section_drafts I text originBase s =
     (let ix = code_point_index text; r = rng (toUnit ix (cs_start s)) (toUnit ix (cs_end s)); frame = oneLineFrame I (cs_frame s) in
      if cs_table s then
        (let ls = lineRanges text r;
             hr = (case ls of [] \<Rightarrow> None | l # _ \<Rightarrow> Some l);
             headerPoints = (case hr of None \<Rightarrow> 0 | Some l \<Rightarrow> countUnits ix (r_start l) (r_end l));
             header = (case hr of
               Some l \<Rightarrow> if length ls > 1 \<and> headerPoints \<le> TABLE_HEADER_REPEAT_MAX_CODE_POINTS
                 then Some \<lparr>r_start = r_start l, r_end = r_end l, h_points = headerPoints, h_weight = weight_of I text (r_start l) (r_end l)\<rparr>
                 else None
             | None \<Rightarrow> None)
         in pack_units (tableUnits I text r originBase (header_points header) (header_weight header)) frame True header)
      else pack_units (textUnits I text r originBase) frame False None)"

text \<open>The drafts of the sections in order, each with the one before it in its section; empty sections are skipped.\<close>

fun with_previous :: "draft option \<Rightarrow> draft list \<Rightarrow> (draft \<times> draft option) list" where
  "with_previous prev [] = []"
| "with_previous prev (d # ds) = (d, prev) # with_previous (Some d) ds"

fun all_drafts :: "intl \<Rightarrow> js_string \<Rightarrow> nat \<Rightarrow> chunk_section list \<Rightarrow> (draft \<times> draft option) list" where
  "all_drafts I text originBase [] = []"
| "all_drafts I text originBase (s # ss) =
     (let ix = code_point_index text in
      if toUnit ix (cs_end s) \<le> toUnit ix (cs_start s) then all_drafts I text originBase ss
      else with_previous None (section_drafts I text originBase s) @ all_drafts I text (originBase + 1000000) ss)"

definition draft_range :: "draft \<Rightarrow> range" where
  "draft_range d = rng (r_start (hd (d_units d))) (r_end (last (d_units d)))"

definition passage_of :: "intl \<Rightarrow> (js_string \<Rightarrow> string) \<Rightarrow> js_string \<Rightarrow> chunk_section list \<Rightarrow> nat \<Rightarrow> nat \<times> draft \<times> draft option \<Rightarrow> passage" where
  "passage_of I sha256 text secs count od =
     (let ix = code_point_index text; d = fst (snd od); r = draft_range d;
          body = slice text (r_start r) (r_end r);
          overlap = overlapFor ix (snd (snd od)) d;
          w1 = estimateTokenWeight (tables I) body;
          w2 = (case overlap of None \<Rightarrow> w1 | Some q \<Rightarrow> w1 + weight_of I text (r_start q) (r_end q));
          w3 = (if d_table d then w2 + header_weight (d_header d) else w2);
          numbers = map (\<lambda>u. int (case u_row u of Some n \<Rightarrow> n | None \<Rightarrow> 0)) (d_units d);
          base = sectionFirstRow secs ix r
      in \<lparr>p_ordinal = fst od, p_total = count, p_frame = d_frame d, p_kind = kindOf (d_units d) (d_table d),
          p_span = spanOf ix r, p_overlap = map_option (spanOf ix) overlap,
          p_rows = (if d_table d
             then Some \<lparr>pr_first = base + Min (set numbers), pr_last = base + Max (set numbers), pr_header = map_option (spanOf ix) (d_header d)\<rparr>
             else None),
          p_over_cap = (d_points d > PASSAGE_MAX_CODE_POINTS),
          p_est_tokens = \<lceil>w3\<rceil>, p_hash = sha256 (js_trim body)\<rparr>)"

definition chunk :: "intl \<Rightarrow> (js_string \<Rightarrow> string) \<Rightarrow> js_string \<Rightarrow> chunk_section list \<Rightarrow> chunk_error + passage list" where
  "chunk I sha256 prepared sections =
     (if prepared = [] then Inr []
      else (let ix = code_point_index prepared;
                secs = (if sections \<noteq> [] then sections
                  else [\<lparr>cs_frame = [], cs_start = 0, cs_end = ix_length ix, cs_table = False, cs_first_row = None\<rparr>])
            in err_bind (validateSections 0 secs (ix_length ix)) (\<lambda>_.
                 let all = all_drafts I prepared 0 secs in
                 Inr (map (passage_of I sha256 prepared secs (length all)) (enumerate 0 all)))))"

section \<open>Units partition a section\<close>

text \<open>Cutting the ranges of a tiling again.\<close>

lemma tiles_cut:
  "tiles ok a b (map ends xs) \<Longrightarrow> (\<And>x. x \<in> set xs \<Longrightarrow> tiles ok (r_start x) (r_end x) (map ends (f x))) \<Longrightarrow>
   tiles ok a b (map ends (concat (map f xs)))"
proof (induction xs arbitrary: a)
  case (Cons x xs)
  have "tiles ok (r_start x) (r_end x) (map ends (f x))" using Cons.prems(2) [of x] by simp
  moreover have "tiles ok (r_end x) b (map ends (concat (map f xs)))" using Cons by simp
  moreover have "r_start x = a" using Cons.prems(1) by simp
  ultimately show ?case by (auto simp: tiles_append)
qed simp

lemma tiles_range:
  "tiles ok a b (map ends xs) \<Longrightarrow> x \<in> set xs \<Longrightarrow>
   a \<le> r_start x \<and> r_start x < r_end x \<and> r_end x \<le> b \<and> ok (r_start x) \<and> ok (r_end x)"
  using tiles_member [of ok a b "map ends xs" "ends x"] by auto

lemma tiles_cut_enumerate:
  "tiles ok a b (map ends xs) \<Longrightarrow>
   (\<And>n x. x \<in> set xs \<Longrightarrow> tiles ok (r_start x) (r_end x) (map ends (f (n, x)))) \<Longrightarrow>
   tiles ok a b (map ends (concat (map f (enumerate m xs))))"
proof (induction xs arbitrary: a m)
  case (Cons x xs)
  have "tiles ok (r_start x) (r_end x) (map ends (f (m, x)))" using Cons.prems(2) [of x] by simp
  moreover have "tiles ok (r_end x) b (map ends (concat (map f (enumerate (Suc m) xs))))" using Cons by simp
  moreover have "r_start x = a" using Cons.prems(1) by simp
  ultimately show ?case by (auto simp: tiles_append)
qed simp

text \<open>A stretch between two boundaries of the text.\<close>

definition stretch :: "js_string \<Rightarrow> 'z range_scheme \<Rightarrow> bool" where
  "stretch text r \<longleftrightarrow> cp_boundary text (r_start r) \<and> cp_boundary text (r_end r) \<and> r_start r < r_end r"

lemma stretch_plain [simp]: "stretch text (plain_range r) = stretch text r"
  by (simp add: stretch_def)

lemma tiles_stretch: "tiles (cp_boundary text) a b (map ends xs) \<Longrightarrow> x \<in> set xs \<Longrightarrow> stretch text x"
  using tiles_range [of "cp_boundary text" a b xs x] by (auto simp: stretch_def)

text \<open>Within the code-point bound, or one whole grapheme cluster.\<close>

definition small_or_cluster :: "intl \<Rightarrow> js_string \<Rightarrow> int \<Rightarrow> 'z range_scheme \<Rightarrow> bool" where
  "small_or_cluster I text m p \<longleftrightarrow> countUnits (code_point_index text) (r_start p) (r_end p) \<le> m \<or>
     (\<exists>r. stretch text r \<and> plain_range p \<in> set (clusters_of I text r))"

lemma clusters_small_or_cluster:
  fixes p q :: range
  assumes "segmenter_ok I" "stretch text p" "0 \<le> max_points limit"
  shows "tiles (cp_boundary text) (r_start p) (r_end p) (map ends (graphemeRanges I text p limit))"
    and "q \<in> set (graphemeRanges I text p limit) \<Longrightarrow> small_or_cluster I text (max_points limit) q"
proof -
  have *: "tiles (cp_boundary text) (r_start p) (r_end p) (map ends (graphemeRanges I text p limit)) \<and>
    (\<forall>q\<in>set (graphemeRanges I text p limit). piece_ok text (max_points limit) (set (clusters_of I text p)) q)"
    using assms by (intro graphemeRanges_ok) (auto simp: stretch_def)
  show "tiles (cp_boundary text) (r_start p) (r_end p) (map ends (graphemeRanges I text p limit))"
    using * by blast
  show "q \<in> set (graphemeRanges I text p limit) \<Longrightarrow> small_or_cluster I text (max_points limit) q"
    using * assms(2) by (auto simp: piece_ok_def small_or_cluster_def)
qed

lemma cut_oversized_ok:
  fixes ps :: "range list"
  assumes "tiles (cp_boundary text) a b (map ends ps)"
    and "\<And>p. stretch text p \<Longrightarrow> tiles (cp_boundary text) (r_start p) (r_end p) (map ends (f p))"
    and "\<And>p q. stretch text p \<Longrightarrow> q \<in> set (f p) \<Longrightarrow> small_or_cluster I text (max_points limit) q"
  shows "tiles (cp_boundary text) a b (map ends (cut_oversized I text limit f ps))"
    and "q \<in> set (cut_oversized I text limit f ps) \<Longrightarrow> small_or_cluster I text (max_points limit) q"
proof -
  note st = tiles_stretch [OF assms(1)]
  show "tiles (cp_boundary text) a b (map ends (cut_oversized I text limit f ps))"
    unfolding cut_oversized_def
  proof (rule tiles_cut [OF assms(1)])
    fix x assume x: "x \<in> set ps"
    show "tiles (cp_boundary text) (r_start x) (r_end x) (map ends (if piece_fits I text limit x then [x] else f x))"
      using st [OF x] assms(2) [of x] by (auto simp: stretch_def)
  qed
  show "q \<in> set (cut_oversized I text limit f ps) \<Longrightarrow> small_or_cluster I text (max_points limit) q"
    using st assms(3)
    by (auto simp: cut_oversized_def piece_fits_def fitsLimit_def small_or_cluster_def split: if_splits)
qed

lemma splitOversized_ok:
  fixes r q :: range
  assumes ok: "segmenter_ok I" and r: "stretch text r" and m: "0 \<le> max_points limit"
  shows "tiles (cp_boundary text) (r_start r) (r_end r) (map ends (splitOversized I text r k limit))"
    and "q \<in> set (splitOversized I text r k limit) \<Longrightarrow> small_or_cluster I text (max_points limit) q"
proof -
  let ?clusters = "\<lambda>p. graphemeRanges I text p limit"
  let ?bySentence = "\<lambda>p. cut_oversized I text limit ?clusters (sentenceRanges I text p)"
  have sent: "tiles (cp_boundary text) (r_start p) (r_end p) (map ends (sentenceRanges I text p))"
    if "stretch text p" for p :: range
    using sentenceRanges_tile [OF ok] that by (simp add: stretch_def)
  note cl = clusters_small_or_cluster [OF ok _ m]
  have s1: "tiles (cp_boundary text) (r_start p) (r_end p) (map ends (?bySentence p))" if "stretch text p" for p :: range
    using cut_oversized_ok(1) [OF sent [OF that], of ?clusters I limit] cl by blast
  have s2: "small_or_cluster I text (max_points limit) x" if "stretch text p" "x \<in> set (?bySentence p)" for p x :: range
    using cut_oversized_ok(2) [OF sent [OF that(1)], of ?clusters I limit x] cl that(2) by blast
  let ?first = "if k = Code then lineRanges text r else if k = List_Items then listItemRanges text r else sentenceRanges I text r"
  have first: "tiles (cp_boundary text) (r_start r) (r_end r) (map ends ?first)"
    using lineRanges_tile listItemRanges_tile sent r by (auto simp: stretch_def)
  show "tiles (cp_boundary text) (r_start r) (r_end r) (map ends (splitOversized I text r k limit))"
    unfolding splitOversized_def Let_def
    by (rule cut_oversized_ok(1) [OF first]) (use s1 s2 cl in \<open>auto split: if_splits\<close>)
  show "q \<in> set (splitOversized I text r k limit) \<Longrightarrow> small_or_cluster I text (max_points limit) q"
    unfolding splitOversized_def Let_def
    by (rule cut_oversized_ok(2) [OF first]) (use s1 s2 cl in \<open>auto split: if_splits\<close>)
qed

definition unit_ok :: "intl \<Rightarrow> js_string \<Rightarrow> unit_piece \<Rightarrow> bool" where
  "unit_ok I text u \<longleftrightarrow> u_points u = countUnits (code_point_index text) (r_start u) (r_end u) \<and>
     small_or_cluster I text PASSAGE_MAX_CODE_POINTS u"

lemma unitOf_ok:
  "small_or_cluster I text PASSAGE_MAX_CODE_POINTS r \<Longrightarrow> unit_ok I text (unitOf I text r k og sp h row)"
  by (simp add: unit_ok_def small_or_cluster_def plain_range_def)

lemma small_or_cluster_mono: "small_or_cluster I text m p \<Longrightarrow> m \<le> m' \<Longrightarrow> small_or_cluster I text m' p"
  by (auto simp: small_or_cluster_def)

lemma map_ends_unitOf: "map (ends \<circ> (\<lambda>p. unitOf I text p k og sp h row)) ps = map ends ps"
  by simp

lemma block_units_ok:
  assumes ok: "segmenter_ok I" and b: "stretch text (snd ob)"
  shows "tiles (cp_boundary text) (r_start (snd ob)) (r_end (snd ob)) (map ends (block_units I text base ob))"
    and "u \<in> set (block_units I text base ob) \<Longrightarrow> unit_ok I text u"
proof -
  let ?u = "unitOf I text (snd ob) (b_kind (snd ob)) (base + fst ob) False (b_heading (snd ob)) None"
  let ?ps = "splitOversized I text (plain_range (snd ob)) (b_kind (snd ob)) PASSAGE_LIMIT"
  have m: "0 \<le> max_points PASSAGE_LIMIT" "max_points PASSAGE_LIMIT = PASSAGE_MAX_CODE_POINTS"
    by (simp_all add: PASSAGE_LIMIT_def bound_simps)
  have split: "tiles (cp_boundary text) (r_start (snd ob)) (r_end (snd ob)) (map ends ?ps)"
    "\<And>p. p \<in> set ?ps \<Longrightarrow> small_or_cluster I text PASSAGE_MAX_CODE_POINTS p"
    using splitOversized_ok [OF ok _ m(1), of "text" "plain_range (snd ob)"] b m(2) by auto
  have "(block_units I text base ob = [?u] \<and> u_points ?u \<le> PASSAGE_MAX_CODE_POINTS) \<or>
      block_units I text base ob = map (\<lambda>p. unitOf I text p (b_kind (snd ob)) (base + fst ob) True False None) ?ps"
    using m(2) by (simp add: block_units_def Let_def fitsLimit_def del: unitOf_sel)
  then consider "block_units I text base ob = [?u]" "u_points ?u \<le> PASSAGE_MAX_CODE_POINTS"
    | "block_units I text base ob = map (\<lambda>p. unitOf I text p (b_kind (snd ob)) (base + fst ob) True False None) ?ps" by blast
  note cases = this
  show "tiles (cp_boundary text) (r_start (snd ob)) (r_end (snd ob)) (map ends (block_units I text base ob))"
    using cases by cases (use b split in \<open>simp_all add: stretch_def map_ends_unitOf\<close>)
  show "u \<in> set (block_units I text base ob) \<Longrightarrow> unit_ok I text u"
    using cases
  proof cases
    case 1
    then show "u \<in> set (block_units I text base ob) \<Longrightarrow> ?thesis"
      by (auto simp: small_or_cluster_def intro!: unitOf_ok)
  next
    case 2
    then show "u \<in> set (block_units I text base ob) \<Longrightarrow> ?thesis"
      using split(2) by (auto intro!: unitOf_ok)
  qed
qed

text \<open>The units of a text section tile it.\<close>

lemma textUnits_ok:
  assumes ok: "segmenter_ok I" and r: "stretch text r"
  shows "tiles (cp_boundary text) (r_start r) (r_end r) (map ends (textUnits I text r base))"
    and "u \<in> set (textUnits I text r base) \<Longrightarrow> unit_ok I text u"
proof -
  have blocks: "tiles (cp_boundary text) (r_start r) (r_end r) (map ends (blockRanges text r))"
    using r blockRanges_tile by (simp add: stretch_def)
  have st: "b \<in> set (blockRanges text r) \<Longrightarrow> stretch text b" for b
    using tiles_stretch [OF blocks] .
  show "tiles (cp_boundary text) (r_start r) (r_end r) (map ends (textUnits I text r base))"
    unfolding textUnits_def
    by (rule tiles_cut_enumerate [OF blocks]) (use block_units_ok(1) [OF ok] st in fastforce)
  show "u \<in> set (textUnits I text r base) \<Longrightarrow> unit_ok I text u"
    using block_units_ok(2) [OF ok] st
    by (auto simp: textUnits_def in_set_enumerate_eq) (metis nth_mem snd_conv)
qed

lemma add_row_tiles:
  assumes "tiles (cp_boundary text) a e (map ends rows)" "r_start line = e" "e < r_end line" "cp_boundary text (r_end line)"
  shows "tiles (cp_boundary text) a (r_end line) (map ends (add_row text rows line))"
proof (cases "rows = []")
  case True
  then show ?thesis using assms by (auto simp: add_row_def)
next
  case False
  then have "(last rows)\<lparr>r_end := r_end line\<rparr> = rng (r_start (last rows)) (r_end line)"
    by (cases "last rows") (simp add: rng_def)
  then have "tiles (cp_boundary text) a (r_end line) (map ends (butlast rows @ [rng (r_start (last rows)) (r_end line)]))"
    using tiles_extend_last [OF assms(1) False assms(3,4)] by simp
  moreover have "tiles (cp_boundary text) a (r_end line) (map ends rows @ [(e, r_end line)])"
    using assms tiles_snoc by blast
  ultimately show ?thesis using assms(2) by (simp add: add_row_def ends_def)
qed

lemma add_rows_tiles:
  "tiles (cp_boundary text) a e (map ends rows) \<Longrightarrow> tiles (cp_boundary text) e d (map ends ls) \<Longrightarrow>
   tiles (cp_boundary text) a d (map ends (foldl (add_row text) rows ls))"
proof (induction ls arbitrary: e rows)
  case (Cons l ls)
  then have "tiles (cp_boundary text) a (r_end l) (map ends (add_row text rows l))"
    using tiles_ok [of "cp_boundary text" "r_end l" d "map ends ls"] by (intro add_row_tiles) auto
  then show ?case using Cons by simp
qed simp

lemma row_units_ok:
  assumes ok: "segmenter_ok I" and b: "stretch text (snd ob)" and m: "0 \<le> max_points limit" "max_points limit \<le> PASSAGE_MAX_CODE_POINTS"
  shows "tiles (cp_boundary text) (r_start (snd ob)) (r_end (snd ob)) (map ends (row_units I text base limit ob))"
    and "u \<in> set (row_units I text base limit ob) \<Longrightarrow> unit_ok I text u"
proof -
  let ?u = "unitOf I text (snd ob) Table (base + fst ob) False False (Some (fst ob))"
  let ?ps = "splitOversized I text (snd ob) Prose limit"
  have split: "tiles (cp_boundary text) (r_start (snd ob)) (r_end (snd ob)) (map ends ?ps)"
    "\<And>p. p \<in> set ?ps \<Longrightarrow> small_or_cluster I text PASSAGE_MAX_CODE_POINTS p"
    using splitOversized_ok [OF ok b m(1)] small_or_cluster_mono [OF _ m(2)] by blast+
  have "(row_units I text base limit ob = [?u] \<and> u_points ?u \<le> PASSAGE_MAX_CODE_POINTS) \<or>
      row_units I text base limit ob = map (\<lambda>p. unitOf I text p Table (base + fst ob) True False (Some (fst ob))) ?ps"
    using m(2) by (simp add: row_units_def Let_def fitsLimit_def del: unitOf_sel)
  then consider "row_units I text base limit ob = [?u]" "u_points ?u \<le> PASSAGE_MAX_CODE_POINTS"
    | "row_units I text base limit ob = map (\<lambda>p. unitOf I text p Table (base + fst ob) True False (Some (fst ob))) ?ps" by blast
  note cases = this
  show "tiles (cp_boundary text) (r_start (snd ob)) (r_end (snd ob)) (map ends (row_units I text base limit ob))"
    using cases by cases (use b split in \<open>simp_all add: stretch_def map_ends_unitOf\<close>)
  show "u \<in> set (row_units I text base limit ob) \<Longrightarrow> unit_ok I text u"
    using cases
  proof cases
    case 1
    then show "u \<in> set (row_units I text base limit ob) \<Longrightarrow> ?thesis"
      by (auto simp: small_or_cluster_def intro!: unitOf_ok)
  next
    case 2
    then show "u \<in> set (row_units I text base limit ob) \<Longrightarrow> ?thesis"
      using split(2) by (auto intro!: unitOf_ok)
  qed
qed

lemma tableUnits_ok:
  assumes ok: "segmenter_ok I" and r: "stretch text r" and h: "0 \<le> hp"
  shows "tiles (cp_boundary text) (r_start r) (r_end r) (map ends (tableUnits I text r base hp hw))"
    and "u \<in> set (tableUnits I text r base hp hw) \<Longrightarrow> unit_ok I text u"
proof -
  let ?rows = "foldl (add_row text) [] (lineRanges text r)"
  have rows: "tiles (cp_boundary text) (r_start r) (r_end r) (map ends ?rows)"
    using r lineRanges_tile [of "text" r] by (intro add_rows_tiles [where e = "r_start r"]) (auto simp: stretch_def)
  have st: "b \<in> set ?rows \<Longrightarrow> stretch text b" for b
    using tiles_stretch [OF rows] .
  have m: "0 \<le> max_points (table_limit hp hw)" "max_points (table_limit hp hw) \<le> PASSAGE_MAX_CODE_POINTS"
    using h by (auto simp: table_limit_def bound_simps)
  show "tiles (cp_boundary text) (r_start r) (r_end r) (map ends (tableUnits I text r base hp hw))"
    unfolding tableUnits_def
    by (rule tiles_cut_enumerate [OF rows]) (use row_units_ok(1) [OF ok _ m] st in fastforce)
  show "u \<in> set (tableUnits I text r base hp hw) \<Longrightarrow> unit_ok I text u"
    using row_units_ok(2) [OF ok _ m] st
    by (auto simp: tableUnits_def in_set_enumerate_eq) (metis nth_mem snd_conv)
qed

section \<open>Drafts hold the units in order\<close>

definition draft_sum :: "draft \<Rightarrow> bool" where
  "draft_sum d \<longleftrightarrow> d_points d = header_points (d_header d) + sum_list (map u_points (d_units d)) \<and> 0 \<le> header_points (d_header d)"

text \<open>A closed draft is not empty, and exceeds the bound only as one unit with no repeated header.\<close>

definition draft_ok :: "draft \<Rightarrow> bool" where
  "draft_ok d \<longleftrightarrow> d_units d \<noteq> [] \<and> draft_sum d \<and>
     (d_points d \<le> PASSAGE_MAX_CODE_POINTS \<or> length (d_units d) = 1 \<and> d_header d = None)"

lemma max_points_ALLOWANCE [simp]: "max_points ALLOWANCE = PASSAGE_MAX_CODE_POINTS"
  by (simp add: ALLOWANCE_def PASSAGE_LIMIT_def)

lemma draft_with_sum [simp]:
  "0 \<le> header_points h \<Longrightarrow> draft_sum (draft_with frame table h)"
  "d_units (draft_with frame table h) = []" "d_header (draft_with frame table h) = h"
  "d_units (open_draft frame table header ds) = []"
  by (simp_all add: draft_with_def draft_sum_def open_draft_def)

lemma open_draft_sum [simp]: "0 \<le> header_points header \<Longrightarrow> draft_sum (open_draft frame table header ds)"
  by (simp add: open_draft_def header_points_def)

lemma add_unit_ok:
  assumes "draft_sum d" "\<not> overflows d u \<or> d_units d = [] \<and> d_header d = None"
  shows "draft_ok (add_unit u d)"
  using assms by (auto simp: draft_ok_def draft_sum_def add_unit_def overflows_def fitsLimit_def)

lemma d_units_add [simp]: "d_units (add_unit u d) = d_units d @ [u]"
  by (simp add: add_unit_def)

definition open_list :: "draft option \<Rightarrow> draft list" where
  "open_list current = (case current of None \<Rightarrow> [] | Some d \<Rightarrow> [d])"

definition pack_inv :: "unit_piece list \<Rightarrow> draft list \<times> draft option \<Rightarrow> bool" where
  "pack_inv us st \<longleftrightarrow> concat (map d_units (fst st @ open_list (snd st))) = us \<and> list_all draft_ok (fst st @ open_list (snd st))"

lemma flush_draft_ok: "list_all draft_ok (ds @ open_list c) \<Longrightarrow> flush_draft ds c = ds @ open_list c"
  by (auto simp: flush_draft_def open_list_def draft_ok_def split: option.splits)

lemma pack_unit_keeps:
  assumes inv: "pack_inv us st" and h: "0 \<le> header_points header"
  shows "pack_inv (us @ [u]) (pack_unit frame table header st u)"
proof -
  define d0 where "d0 = (case snd st of Some d \<Rightarrow> d | None \<Rightarrow> open_draft frame table header (fst st))"
  define cutNow where "cutNow \<longleftrightarrow> (u_heading u \<and> d_units d0 \<noteq> [] \<and> \<not> list_all u_heading (d_units d0)) \<or> (d_units d0 \<noteq> [] \<and> overflows d0 u)"
  define ds1 where "ds1 = (if cutNow then flush_draft (fst st) (Some d0) else fst st)"
  define d1 where "d1 = (if cutNow then open_draft frame table header ds1 else d0)"
  define d2 where "d2 = (if d_units d1 = [] \<and> d_header d1 \<noteq> None \<and> overflows d1 u then draft_with frame table None else d1)"
  have step: "pack_unit frame table header st u =
      (if d_points (add_unit u d2) \<ge> PASSAGE_TARGET_CODE_POINTS \<or> d_weight (add_unit u d2) \<ge> PASSAGE_MAX_TOKENS
       then (flush_draft ds1 (Some (add_unit u d2)), None) else (ds1, Some (add_unit u d2)))"
    unfolding pack_unit_def Let_def d0_def cutNow_def ds1_def d1_def d2_def by (rule refl)
  have d0: "draft_sum d0" "d_units d0 \<noteq> [] \<longleftrightarrow> snd st \<noteq> None" "snd st = Some d \<Longrightarrow> d0 = d" for d
    using inv h by (auto simp: d0_def pack_inv_def open_list_def draft_ok_def split: option.splits)
  have cut_some: "cutNow \<Longrightarrow> snd st = Some d0"
    using d0(2,3) by (auto simp: cutNow_def)
  have ds1: "list_all draft_ok ds1" "concat (map d_units ds1) @ d_units d2 = us"
  proof -
    show "list_all draft_ok ds1"
      using inv cut_some by (auto simp: ds1_def pack_inv_def flush_draft_def open_list_def draft_ok_def)
    have "d_units d2 = d_units d1" by (auto simp: d2_def)
    moreover have "concat (map d_units ds1) @ d_units d1 = us"
    proof (cases cutNow)
      case True
      then show ?thesis
        using inv cut_some by (auto simp: ds1_def d1_def pack_inv_def flush_draft_def open_list_def draft_ok_def)
    next
      case False
      then show ?thesis
        using inv by (auto simp: ds1_def d1_def d0_def pack_inv_def open_list_def split: option.splits)
    qed
    ultimately show "concat (map d_units ds1) @ d_units d2 = us" by simp
  qed
  have d1: "draft_sum d1" "d_units d1 = [] \<or> \<not> overflows d1 u"
    using d0(1) h by (auto simp: d1_def cutNow_def)
  then have "draft_ok (add_unit u d2)"
    by (intro add_unit_ok) (auto simp: d2_def header_points_def)
  then have "list_all draft_ok (ds1 @ [add_unit u d2])" "concat (map d_units (ds1 @ [add_unit u d2])) = us @ [u]"
    "flush_draft ds1 (Some (add_unit u d2)) = ds1 @ [add_unit u d2]"
    using ds1 flush_draft_ok [of ds1 "Some (add_unit u d2)"] by (auto simp: open_list_def)
  then show ?thesis unfolding step pack_inv_def by (auto simp: open_list_def)
qed

lemma pack_units_ok:
  assumes "0 \<le> header_points header"
  shows "concat (map d_units (pack_units us frame table header)) = us"
    and "list_all draft_ok (pack_units us frame table header)"
proof -
  have "pack_inv us (foldl (pack_unit frame table header) ([], None) us)"
  proof (induction us rule: rev_induct)
    case Nil
    show ?case by (simp add: pack_inv_def open_list_def)
  next
    case (snoc u us)
    then show ?case using pack_unit_keeps [OF _ assms] by simp
  qed
  then show "concat (map d_units (pack_units us frame table header)) = us"
    "list_all draft_ok (pack_units us frame table header)"
    using flush_draft_ok by (auto simp: pack_units_def Let_def pack_inv_def)
qed

text \<open>Groups of consecutive units tile the same stretch.\<close>

lemma tiles_group:
  "tiles ok a b (map ends (concat gs)) \<Longrightarrow> \<forall>g\<in>set gs. g \<noteq> [] \<Longrightarrow>
   tiles ok a b (map (\<lambda>g. (r_start (hd g), r_end (last g))) gs)"
proof (induction gs arbitrary: a)
  case (Cons g gs)
  then obtain c where c: "tiles ok a c (map ends g)" "tiles ok c b (map ends (concat gs))"
    by (auto simp: tiles_append)
  have g: "g \<noteq> []" using Cons.prems by simp
  have "r_start (hd g) = a" using c(1) g by (cases g) auto
  moreover have "tiles ok a c (map ends (butlast g) @ [ends (last g)])"
    using c(1) g by (metis append_butlast_last_id list.simps(8) list.simps(9) map_append)
  then have "r_end (last g) = c" "a < c" "ok a"
    using tiles_le by (auto simp: tiles_append dest: tiles_ok) (metis le_less_trans tiles_le)
  ultimately show ?case using Cons c(2) by simp
qed simp

lemma sum_units:
  "tiles ok a b (map ends us) \<Longrightarrow> \<forall>u\<in>set us. u_points u = countUnits ix (r_start u) (r_end u) \<Longrightarrow>
   sum_list (map u_points us) = countUnits ix a b"
proof (induction us arbitrary: a)
  case Nil
  then show ?case by (simp add: countUnits_def)
next
  case (Cons u us)
  then show ?case using countUnits_append [of ix a "r_end u" b] by auto
qed

text \<open>What a section gives: drafts whose ranges tile it, each made of good units.\<close>

lemma draft_range_sel [simp]: "ends (draft_range d) = (r_start (hd (d_units d)), r_end (last (d_units d)))"
  by (simp add: draft_range_def)

definition draft_good :: "intl \<Rightarrow> js_string \<Rightarrow> draft \<Rightarrow> bool" where
  "draft_good I text d \<longleftrightarrow> draft_ok d \<and> (\<forall>u\<in>set (d_units d). unit_ok I text u) \<and>
     (\<exists>a b. tiles (cp_boundary text) a b (map ends (d_units d)))"

lemma tiles_groups_each: "tiles ok a b (map ends (concat gs)) \<Longrightarrow> g \<in> set gs \<Longrightarrow> \<exists>a b. tiles ok a b (map ends g)"
proof (induction gs arbitrary: a)
  case (Cons h gs)
  then obtain c where "tiles ok a c (map ends h)" "tiles ok c b (map ends (concat gs))" by (auto simp: tiles_append)
  then show ?case using Cons by auto
qed simp

lemma packed_section:
  assumes "tiles (cp_boundary text) a b (map ends us)" "\<And>u. u \<in> set us \<Longrightarrow> unit_ok I text u" "0 \<le> header_points header"
  shows "tiles (cp_boundary text) a b (map (\<lambda>d. ends (draft_range d)) (pack_units us frame table header))"
    and "d \<in> set (pack_units us frame table header) \<Longrightarrow> draft_good I text d"
proof -
  let ?ds = "pack_units us frame table header"
  note p = pack_units_ok [OF assms(3), of us frame table]
  have t: "tiles (cp_boundary text) a b (map ends (concat (map d_units ?ds)))"
    using assms(1) p(1) by simp
  have ne: "\<forall>g\<in>set (map d_units ?ds). g \<noteq> []" using p(2) by (auto simp: list_all_iff draft_ok_def)
  show "tiles (cp_boundary text) a b (map (\<lambda>d. ends (draft_range d)) ?ds)"
    using tiles_group [OF t ne] by (simp add: comp_def)
  assume d: "d \<in> set ?ds"
  then have "set (d_units d) \<subseteq> set us" using p(1) by (metis UN_upper set_concat set_map image_eqI Sup_upper)
  then show "draft_good I text d"
    using d p(2) assms(2) tiles_groups_each [OF t, of "d_units d"] by (auto simp: draft_good_def list_all_iff)
qed

lemma section_drafts_ok:
  fixes tx :: js_string and s :: chunk_section
  defines "r \<equiv> rng (toUnit (code_point_index tx) (cs_start s)) (toUnit (code_point_index tx) (cs_end s))"
  assumes ok: "segmenter_ok I" and r: "stretch tx r"
  shows "tiles (cp_boundary tx) (r_start r) (r_end r) (map (\<lambda>d. ends (draft_range d)) (section_drafts I tx base s))"
    and "d \<in> set (section_drafts I tx base s) \<Longrightarrow> draft_good I tx d"
proof -
  let ?ix = "code_point_index tx"
  let ?frame = "oneLineFrame I (cs_frame s)"
  have "\<exists>us header table. section_drafts I tx base s = pack_units us ?frame table header \<and>
      tiles (cp_boundary tx) (r_start r) (r_end r) (map ends us) \<and> (\<forall>u\<in>set us. unit_ok I tx u) \<and> 0 \<le> header_points header"
  proof (cases "cs_table s")
    case True
    have "\<exists>header. section_drafts I tx base s =
        pack_units (tableUnits I tx r base (header_points header) (header_weight header)) ?frame True header \<and> 0 \<le> header_points header"
    proof -
      have lines: "tiles (cp_boundary tx) (r_start r) (r_end r) (map ends (lineRanges tx r))"
        using r lineRanges_tile by (simp add: stretch_def)
      have pos: "l \<in> set (lineRanges tx r) \<Longrightarrow> 0 \<le> countUnits ?ix (r_start l) (r_end l)" for l
        using tiles_stretch [OF lines, of l] by (simp add: stretch_def countUnits_boundary)
      define header where "header = (case (case lineRanges tx r of [] \<Rightarrow> None | l # _ \<Rightarrow> Some l) of
          Some l \<Rightarrow> if length (lineRanges tx r) > 1 \<and>
              (case (case lineRanges tx r of [] \<Rightarrow> None | l # _ \<Rightarrow> Some l) of None \<Rightarrow> 0 | Some l \<Rightarrow> countUnits ?ix (r_start l) (r_end l))
                \<le> TABLE_HEADER_REPEAT_MAX_CODE_POINTS
            then Some \<lparr>r_start = r_start l, r_end = r_end l,
              h_points = (case (case lineRanges tx r of [] \<Rightarrow> None | l # _ \<Rightarrow> Some l) of None \<Rightarrow> 0 | Some l \<Rightarrow> countUnits ?ix (r_start l) (r_end l)),
              h_weight = weight_of I tx (r_start l) (r_end l)\<rparr> else None
        | None \<Rightarrow> None)"
      have "section_drafts I tx base s =
        pack_units (tableUnits I tx r base (header_points header) (header_weight header)) ?frame True header"
        using True unfolding section_drafts_def Let_def r_def header_def by simp
      moreover have "0 \<le> header_points header"
        using pos by (cases "lineRanges tx r") (auto simp: header_def header_points_def)
      ultimately show ?thesis by blast
    qed
    then obtain header where "section_drafts I tx base s =
        pack_units (tableUnits I tx r base (header_points header) (header_weight header)) ?frame True header"
      "0 \<le> header_points header" by blast
    with tableUnits_ok [OF ok r] show ?thesis by blast
  next
    case False
    then have "section_drafts I tx base s = pack_units (textUnits I tx r base) ?frame False None"
      unfolding section_drafts_def Let_def r_def by simp
    with textUnits_ok [OF ok r, where base = base] show ?thesis
      by (intro exI [of _ "textUnits I tx r base"] exI [of _ None] exI [of _ False]) (simp add: header_points_def)
  qed
  then obtain us header table where *: "section_drafts I tx base s = pack_units us ?frame table header"
    "tiles (cp_boundary tx) (r_start r) (r_end r) (map ends us)" "\<And>u. u \<in> set us \<Longrightarrow> unit_ok I tx u" "0 \<le> header_points header"
    by blast
  show "tiles (cp_boundary tx) (r_start r) (r_end r) (map (\<lambda>d. ends (draft_range d)) (section_drafts I tx base s))"
    "d \<in> set (section_drafts I tx base s) \<Longrightarrow> draft_good I tx d"
    unfolding *(1) using packed_section [OF *(2,3,4)] by blast+
qed

section \<open>Sections tile the text\<close>

lemma validateSections_le: "validateSections k ss n = Inr () \<Longrightarrow> k \<le> n \<and> (\<forall>s\<in>set ss. k \<le> cs_start s \<and> cs_start s \<le> cs_end s \<and> cs_end s \<le> n)"
proof (induction ss arbitrary: k)
  case (Cons s ss)
  then have s: "cs_start s = k" "k \<le> cs_end s" "validateSections (cs_end s) ss n = Inr ()"
    by (auto split: if_splits)
  show ?case using Cons.IH [OF s(3)] s by fastforce
qed simp

lemma validateSections_iff:
  "validateSections k ss n = Inr () \<longleftrightarrow>
   (case ss of [] \<Rightarrow> k = n | s # ss' \<Rightarrow> cs_start s = k \<and> k \<le> cs_end s \<and> validateSections (cs_end s) ss' n = Inr ())"
  by (cases ss) auto

lemma with_previous_fst [simp]: "map fst (with_previous p ds) = ds"
  by (induction ds arbitrary: p) auto

lemma with_previous_mem: "x \<in> set (with_previous p ds) \<Longrightarrow> fst x \<in> set ds"
  by (metis with_previous_fst imageI set_map)

text \<open>The draft lies in one of the sections.\<close>

definition in_section :: "cp_index \<Rightarrow> chunk_section list \<Rightarrow> draft \<Rightarrow> bool" where
  "in_section ix secs d \<longleftrightarrow> (\<exists>s\<in>set secs. toUnit ix (cs_start s) \<le> r_start (hd (d_units d)) \<and>
     r_end (last (d_units d)) \<le> toUnit ix (cs_end s))"

lemma all_drafts_ok:
  fixes tx :: js_string
  defines "ix \<equiv> code_point_index tx"
  assumes ok: "segmenter_ok I"
  shows "validateSections k ss (codePointLength tx) = Inr () \<Longrightarrow>
     tiles (cp_boundary tx) (toUnit ix k) (length tx) (map (\<lambda>x. ends (draft_range (fst x))) (all_drafts I tx base ss)) \<and>
     (\<forall>x\<in>set (all_drafts I tx base ss). draft_good I tx (fst x) \<and> in_section ix ss (fst x))"
proof (induction ss arbitrary: k base)
  case Nil
  then have "k = codePointLength tx" by simp
  then have "toUnit ix k = length tx"
    using toUnit_toPoint [of tx "length tx"] by (simp add: ix_def)
  then show ?case by simp
next
  case (Cons s ss)
  then have s: "cs_start s = k" "k \<le> cs_end s" "validateSections (cs_end s) ss (codePointLength tx) = Inr ()"
    by (auto split: if_splits)
  have le: "cs_end s \<le> codePointLength tx" using validateSections_le [OF s(3)] by blast
  have bk: "cp_boundary tx (toUnit ix k)" "toPoint ix (toUnit ix k) = k"
    using toPoint_toUnit [of k tx] s le by (simp_all add: ix_def)
  have be: "cp_boundary tx (toUnit ix (cs_end s))" "toPoint ix (toUnit ix (cs_end s)) = cs_end s"
    using toPoint_toUnit [of "cs_end s" tx] le by (simp_all add: ix_def)
  have sub: "in_section ix ss d \<Longrightarrow> in_section ix (s # ss) d" for d by (auto simp: in_section_def)
  note IH = Cons.IH [OF s(3)]
  show ?case
  proof (cases "toUnit ix (cs_end s) \<le> toUnit ix k")
    case True
    then have "toUnit ix (cs_end s) = toUnit ix k"
      using toPoint_strict [OF be(1) bk(1)] bk be s(2) by (fastforce simp: ix_def)
    moreover have "all_drafts I tx base (s # ss) = all_drafts I tx base ss"
      using True s(1) by (simp add: Let_def ix_def)
    ultimately show ?thesis using IH [of base] sub by auto
  next
    case False
    let ?r = "rng (toUnit ix (cs_start s)) (toUnit ix (cs_end s))"
    have st: "stretch tx ?r" using False bk be s(1) by (simp add: stretch_def)
    note sd = section_drafts_ok [where tx = tx and s = s and base = base, folded ix_def, OF ok st]
    have eq: "all_drafts I tx base (s # ss) =
        with_previous None (section_drafts I tx base s) @ all_drafts I tx (base + 1000000) ss"
      using False s(1) by (simp add: Let_def ix_def)
    have map: "map (\<lambda>x. ends (draft_range (fst x))) (with_previous None (section_drafts I tx base s)) =
        map (\<lambda>d. ends (draft_range d)) (section_drafts I tx base s)"
      by (metis (no_types, lifting) comp_apply map_eq_conv map_map with_previous_fst)
    have "in_section ix (s # ss) d" if "d \<in> set (section_drafts I tx base s)" for d
    proof -
      have "(r_start (hd (d_units d)), r_end (last (d_units d))) \<in> set (map (\<lambda>d. ends (draft_range d)) (section_drafts I tx base s))"
        using that by auto
      from tiles_member [OF sd(1) this] show ?thesis by (auto simp: in_section_def)
    qed
    then show ?thesis
      using IH [of "base + 1000000"] sd sub s(1) unfolding eq map_append map
      by (auto simp: tiles_append dest!: with_previous_mem)
  qed
qed

section \<open>What chunk returns\<close>

lemma draft_range_points:
  assumes "draft_good I tx d"
  shows "countUnits (code_point_index tx) (r_start (draft_range d)) (r_end (draft_range d)) \<le> d_points d"
    and "d_points d > PASSAGE_MAX_CODE_POINTS \<Longrightarrow> \<exists>r. stretch tx r \<and> draft_range d \<in> set (clusters_of I tx r)"
    and "d_points d > PASSAGE_MAX_CODE_POINTS \<Longrightarrow>
      countUnits (code_point_index tx) (r_start (draft_range d)) (r_end (draft_range d)) = d_points d"
proof -
  let ?ix = "code_point_index tx"
  obtain a b where t: "tiles (cp_boundary tx) a b (map ends (d_units d))" using assms by (auto simp: draft_good_def)
  have ne: "d_units d \<noteq> []" and sum: "draft_sum d" using assms by (auto simp: draft_good_def draft_ok_def)
  have ab: "r_start (hd (d_units d)) = a" "r_end (last (d_units d)) = b"
    using tiles_group [of "cp_boundary tx" a b "[d_units d]"] t ne by simp_all
  have total: "sum_list (map u_points (d_units d)) = countUnits ?ix a b"
    using sum_units [OF t, of ?ix] assms by (auto simp: draft_good_def unit_ok_def)
  then show "countUnits ?ix (r_start (draft_range d)) (r_end (draft_range d)) \<le> d_points d"
    using sum ab by (simp add: draft_sum_def draft_range_def)
  assume over: "d_points d > PASSAGE_MAX_CODE_POINTS"
  then have one: "length (d_units d) = 1" "d_header d = None" using assms by (auto simp: draft_good_def draft_ok_def)
  then obtain u where u: "d_units d = [u]" by (auto simp: length_Suc_conv)
  then have "u_points u = d_points d" "unit_ok I tx u" "plain_range u = draft_range d"
    using sum one assms by (auto simp: draft_sum_def header_points_def draft_good_def plain_range_def draft_range_def)
  then show "\<exists>r. stretch tx r \<and> draft_range d \<in> set (clusters_of I tx r)"
    using over by (auto simp: unit_ok_def small_or_cluster_def)
  show "countUnits ?ix (r_start (draft_range d)) (r_end (draft_range d)) = d_points d"
    using sum one total ab by (simp add: draft_sum_def header_points_def draft_range_def)
qed

text \<open>A cluster range holds one segment of a stretch.\<close>

lemma segment_ranges_text:
  "r \<in> set (segment_ranges a parts) \<Longrightarrow> concat parts = slice tx a b \<Longrightarrow> slice tx (r_start r) (r_end r) \<in> set parts"
proof (induction parts arbitrary: a)
  case (Cons p ps)
  have eq: "p @ concat ps = slice tx a b" using Cons.prems by simp
  have p: "p = take (length p) (slice tx a b)" "concat ps = drop (length p) (slice tx a b)"
    using eq by (metis append_eq_conv_conj)+
  have "length p \<le> b - a" using arg_cong [OF eq, of length] by (simp add: slice_def)
  then have "slice tx a (a + length p) = p" using p(1) by (simp add: slice_def min_def)
  moreover have "concat ps = slice tx (a + length p) b"
    using p(2) by (simp add: slice_def drop_take add.commute diff_diff_add)
  ultimately show ?case using Cons by auto
qed simp

lemma cluster_text:
  assumes "segmenter_ok I" "r \<in> set (clusters_of I tx s)"
  shows "\<exists>t. slice tx (r_start r) (r_end r) \<in> set (graphemes I t)"
  using assms segment_ranges_text [of r "r_start s" _ tx "r_end s"]
  by (auto simp: clusters_of_def segmenter_ok_def segments_of_def)

text \<open>The drafts behind the passages.\<close>

lemma chunk_drafts:
  assumes ok: "segmenter_ok I" and c: "chunk I sha tx secs = Inr ps" and ne: "tx \<noteq> []"
  obtains secs' ds where "secs' = (if secs \<noteq> [] then secs
      else [\<lparr>cs_frame = [], cs_start = 0, cs_end = codePointLength tx, cs_table = False, cs_first_row = None\<rparr>])"
    "ps = map (passage_of I sha tx secs' (length ds)) (enumerate 0 ds)"
    "validateSections 0 secs' (codePointLength tx) = Inr ()"
    "tiles (cp_boundary tx) 0 (length tx) (map (\<lambda>x. ends (draft_range (fst x))) ds)"
    "\<forall>x\<in>set ds. draft_good I tx (fst x) \<and> in_section (code_point_index tx) secs' (fst x)"
proof -
  let ?secs = "if secs \<noteq> [] then secs
      else [\<lparr>cs_frame = [], cs_start = 0, cs_end = codePointLength tx, cs_table = False, cs_first_row = None\<rparr>]"
  have v: "validateSections 0 ?secs (codePointLength tx) = Inr ()" and
    ps: "ps = map (passage_of I sha tx ?secs (length (all_drafts I tx 0 ?secs))) (enumerate 0 (all_drafts I tx 0 ?secs))"
    using c ne by (auto simp: chunk_def Let_def err_bind_Inr_iff)
  have "toUnit (code_point_index tx) 0 = 0"
    using toUnit_toPoint [of tx 0] by simp
  with all_drafts_ok [OF ok v, of 0] show ?thesis using that [OF refl ps v] by simp
qed

text \<open>The text of a passage, read from the item by its span.\<close>

definition passage_text :: "cp_index \<Rightarrow> passage \<Rightarrow> js_string" where
  "passage_text ix p = slice_points ix (fst (p_span p)) (snd (p_span p))"

lemma passage_of_sel [simp]:
  "p_span (passage_of I sha tx secs n od) = spanOf (code_point_index tx) (draft_range (fst (snd od)))"
  "p_ordinal (passage_of I sha tx secs n od) = fst od" "p_total (passage_of I sha tx secs n od) = n"
  "p_frame (passage_of I sha tx secs n od) = d_frame (fst (snd od))"
  "p_over_cap (passage_of I sha tx secs n od) \<longleftrightarrow> d_points (fst (snd od)) > PASSAGE_MAX_CODE_POINTS"
  "p_overlap (passage_of I sha tx secs n od) = map_option (spanOf (code_point_index tx)) (overlapFor (code_point_index tx) (snd (snd od)) (fst (snd od)))"
  "\<not> d_table (fst (snd od)) \<Longrightarrow> p_rows (passage_of I sha tx secs n od) = None"
  by (simp_all add: passage_of_def Let_def)

lemma spanOf_sel [simp]: "fst (spanOf ix r) = toPoint ix (r_start r)" "snd (spanOf ix r) = toPoint ix (r_end r)"
  by (simp_all add: spanOf_def)

lemma passage_text_of:
  assumes "stretch tx (draft_range (fst (snd od)))"
  shows "passage_text (code_point_index tx) (passage_of I sha tx secs n od) =
    slice tx (r_start (draft_range (fst (snd od)))) (r_end (draft_range (fst (snd od))))"
  using assms by (simp add: passage_text_def slice_points_def toUnit_toPoint stretch_def)

lemma tiles_points:
  assumes "tiles (cp_boundary tx) a b rs"
  shows "tiles (\<lambda>_. True) (toPoint (code_point_index tx) a) (toPoint (code_point_index tx) b)
    (map (\<lambda>r. (toPoint (code_point_index tx) (fst r), toPoint (code_point_index tx) (snd r))) rs)"
  using assms
proof (induction rs arbitrary: a)
  case (Cons r rs)
  then have "cp_boundary tx (snd r)" using tiles_ok [of "cp_boundary tx" "snd r" b rs] by auto
  then show ?case using Cons toPoint_strict [of tx a "snd r"] by auto
qed simp

lemma enumerate_mem: "nx \<in> set (enumerate n xs) \<Longrightarrow> snd nx \<in> set xs"
  by (cases nx) (auto simp: enumerate_eq_zip dest: set_zip_rightD)

lemma map_enumerate_snd: "map (\<lambda>nx. f (snd nx)) (enumerate n xs) = map f xs"
  by (induction xs arbitrary: n) auto

text \<open>
  An engine for the witnesses: every code point is a cluster, and a text is one sentence.
\<close>

fun cp_segments :: "js_string \<Rightarrow> js_string list" where
  "cp_segments [] = []"
| "cp_segments [u] = [[u]]"
| "cp_segments (u # v # us) =
     (if is_high_surrogate u \<and> is_low_surrogate v then [u, v] # cp_segments us else [u] # cp_segments (v # us))"

definition plain_engine :: intl where
  "plain_engine = \<lparr>sentences = (\<lambda>ko s. if s = [] then [] else [s]), graphemes = cp_segments,
     tables = \<lparr>in_cjk = (\<lambda>p. False), in_latin = (\<lambda>p. False), in_letter = (\<lambda>p. True), in_hangul = (\<lambda>p. False)\<rparr>\<rparr>"

lemma cp_segments_hd: "s \<noteq> [] \<Longrightarrow> \<exists>q qs. cp_segments s = q # qs \<and> q \<noteq> [] \<and> hd q = hd s"
  by (cases s rule: cp_segments.cases) auto

lemma cp_segments_ok: "segments_of s (cp_segments s)"
proof (induction s rule: cp_segments.induct)
  case (3 u v us)
  show ?case
  proof (cases "is_high_surrogate u \<and> is_low_surrogate v")
    case True
    then have "\<not> is_high_surrogate v" using high_not_low by blast
    then show ?thesis
      using 3(1) True cp_segments_hd [of us] by (cases "us = []") (auto simp: segments_of_def joins_def)
  next
    case False
    obtain q qs where "cp_segments (v # us) = q # qs" "q \<noteq> []" "hd q = v"
      using cp_segments_hd [of "v # us"] by auto
    then show ?thesis using 3(2) False by (auto simp: segments_of_def joins_def)
  qed
qed (simp_all add: segments_of_def)

lemma plain_engine_ok: "segmenter_ok plain_engine"
  using cp_segments_ok by (auto simp: segmenter_ok_def plain_engine_def segments_of_def)

section \<open>The properties of chunking\<close>

lemma chunk_not_empty:
  assumes "segmenter_ok I" "chunk I sha tx secs = Inr ps" "tx \<noteq> []"
  shows "ps \<noteq> []"
proof -
  obtain secs' ds where "ps = map (passage_of I sha tx secs' (length ds)) (enumerate 0 ds)"
    and "tiles (cp_boundary tx) 0 (length tx) (map (\<lambda>x. ends (draft_range (fst x))) ds)"
    using chunk_drafts [OF assms] by metis
  then show ?thesis using assms(3) by (cases ds) auto
qed

lemma chunk_facts:
  assumes "segmenter_ok I" "chunk I sha tx secs = Inr ps"
  shows "tiles (\<lambda>_. True) 0 (codePointLength tx) (map p_span ps) \<and>
    concat (map (passage_text (code_point_index tx)) ps) = tx \<and>
    map p_ordinal ps = [0..<length ps] \<and> (\<forall>p\<in>set ps. p_total p = length ps)"
proof (cases "tx = []")
  case True
  then have "ps = []" using assms(2) by (simp add: chunk_def)
  then show ?thesis using True by simp
next
  case False
  let ?ix = "code_point_index tx"
  obtain secs' ds where ps: "ps = map (passage_of I sha tx secs' (length ds)) (enumerate 0 ds)"
    and t: "tiles (cp_boundary tx) 0 (length tx) (map (\<lambda>x. ends (draft_range (fst x))) ds)"
    using chunk_drafts [OF assms False] by metis
  have t': "tiles (cp_boundary tx) 0 (length tx) (map ends (map (\<lambda>x. draft_range (fst x)) ds))"
    using t by (simp add: comp_def)
  have "map p_span ps = map (\<lambda>nx. spanOf ?ix (draft_range (fst (snd nx)))) (enumerate 0 ds)"
    unfolding ps by (simp add: comp_def)
  also have "\<dots> = map (\<lambda>x. spanOf ?ix (draft_range (fst x))) ds"
    by (rule map_enumerate_snd)
  finally have spans: "map p_span ps = map (\<lambda>r. (toPoint ?ix (fst r), toPoint ?ix (snd r))) (map (\<lambda>x. ends (draft_range (fst x))) ds)"
    by (simp add: comp_def spanOf_def del: draft_range_sel)
  have st: "x \<in> set ds \<Longrightarrow> stretch tx (draft_range (fst x))" for x
    using tiles_stretch [OF t', of "draft_range (fst x)"] by auto
  have "map (passage_text ?ix) ps = map (\<lambda>nx. slice tx (r_start (draft_range (fst (snd nx)))) (r_end (draft_range (fst (snd nx))))) (enumerate 0 ds)"
    unfolding ps map_map comp_def using st
    by (intro map_cong refl passage_text_of) (auto dest: enumerate_mem)
  also have "\<dots> = map (\<lambda>x. slice tx (r_start (draft_range (fst x))) (r_end (draft_range (fst x)))) ds"
    by (rule map_enumerate_snd)
  also have "\<dots> = map (\<lambda>r. slice tx (fst r) (snd r)) (map (\<lambda>x. ends (draft_range (fst x))) ds)"
    by (simp add: comp_def del: draft_range_sel)
  finally have "concat (map (passage_text ?ix) ps) = slice tx 0 (length tx)"
    using tiles_text [OF t, of tx] by simp
  moreover have "map p_ordinal ps = [0..<length ps]" unfolding ps by (simp add: comp_def)
  moreover have "\<forall>p\<in>set ps. p_total p = length ps" unfolding ps by auto
  moreover have "tiles (\<lambda>_. True) 0 (codePointLength tx) (map p_span ps)"
    unfolding spans using tiles_points [OF t] by simp
  ultimately show ?thesis by simp
qed

text \<open>C21. The passages of an item partition it exactly: in code points their spans follow one another from the start
  to the end with none empty, the texts they name put together are the item, and they are numbered from zero with the
  right total. Nothing is lost, read twice or cut inside a surrogate pair.\<close>

theorem chunk_partitions:
  assumes "segmenter_ok I" "chunk I sha tx secs = Inr ps"
  shows "tiles (\<lambda>_. True) 0 (codePointLength tx) (map p_span ps) \<and>
    concat (map (passage_text (code_point_index tx)) ps) = tx \<and>
    map p_ordinal ps = [0..<length ps] \<and> (\<forall>p\<in>set ps. p_total p = length ps)"
  by (rule chunk_facts [OF assms])

definition demo_item :: js_string where
  "demo_item = [0x23, 0x20, 0x54, 0x0A, 0x61, 0xD83D, 0xDE00]"

lemma chunk_without_sections: "\<exists>ps. chunk I sha tx [] = Inr ps"
  by (simp add: chunk_def Let_def)

theorem chunk_partitions_witness:
  "\<exists>ps. chunk plain_engine (\<lambda>s. []) demo_item [] = Inr ps \<and> ps \<noteq> [] \<and> tiles (\<lambda>_. True) 0 6 (map p_span ps) \<and>
     concat (map (passage_text (code_point_index demo_item)) ps) = demo_item"
proof -
  obtain ps where ps: "chunk plain_engine (\<lambda>s. []) demo_item [] = Inr ps" using chunk_without_sections by blast
  have "codePointLength demo_item = 6" by (simp add: demo_item_def is_high_surrogate_def is_low_surrogate_def)
  moreover have "demo_item \<noteq> []" by (simp add: demo_item_def)
  ultimately show ?thesis
    using chunk_partitions [OF plain_engine_ok ps] ps by (intro exI [of _ ps]) auto
qed

lemma passage_facts:
  assumes "segmenter_ok I" "chunk I sha tx secs = Inr ps" "p \<in> set ps"
  shows "(p_over_cap p \<longleftrightarrow> int (snd (p_span p)) - int (fst (p_span p)) > PASSAGE_MAX_CODE_POINTS) \<and>
    (p_over_cap p \<longrightarrow> (\<exists>t. passage_text (code_point_index tx) p \<in> set (graphemes I t))) \<and>
    (secs \<noteq> [] \<longrightarrow> (\<exists>s\<in>set secs. cs_start s \<le> fst (p_span p) \<and> snd (p_span p) \<le> cs_end s))"
proof -
  let ?ix = "code_point_index tx"
  have ne: "tx \<noteq> []" using assms by (auto simp: chunk_def)
  obtain secs' ds where secs': "secs \<noteq> [] \<Longrightarrow> secs' = secs" and v: "validateSections 0 secs' (codePointLength tx) = Inr ()"
    and ps: "ps = map (passage_of I sha tx secs' (length ds)) (enumerate 0 ds)"
    and t: "tiles (cp_boundary tx) 0 (length tx) (map (\<lambda>x. ends (draft_range (fst x))) ds)"
    and good: "\<forall>x\<in>set ds. draft_good I tx (fst x) \<and> in_section ?ix secs' (fst x)"
    using chunk_drafts [OF assms(1,2) ne] by metis
  obtain n d prev where p: "p = passage_of I sha tx secs' (length ds) (n, d, prev)" and d: "(d, prev) \<in> set ds"
    using assms(3) unfolding ps by (auto simp: in_set_enumerate_eq) (metis nth_mem prod.collapse)
  have g: "draft_good I tx d" "in_section ?ix secs' d" using good d by auto
  have t': "tiles (cp_boundary tx) 0 (length tx) (map ends (map (\<lambda>x. draft_range (fst x)) ds))"
    using t by (simp add: comp_def)
  have st: "stretch tx (draft_range d)" using tiles_stretch [OF t', of "draft_range d"] d by force
  have "p_over_cap p \<longleftrightarrow> int (snd (p_span p)) - int (fst (p_span p)) > PASSAGE_MAX_CODE_POINTS"
    using draft_range_points(1,3) [OF g(1)] unfolding p by (auto simp: countUnits_def)
  moreover have "p_over_cap p \<Longrightarrow> \<exists>t. passage_text ?ix p \<in> set (graphemes I t)"
    using draft_range_points(2) [OF g(1)] cluster_text [OF assms(1), of "draft_range d" tx] passage_text_of [of tx "(n, d, prev)"] st
    unfolding p by auto
  moreover have "\<exists>s\<in>set secs. cs_start s \<le> fst (p_span p) \<and> snd (p_span p) \<le> cs_end s" if "secs \<noteq> []"
  proof -
    obtain s where s: "s \<in> set secs'" "toUnit ?ix (cs_start s) \<le> r_start (draft_range d)" "r_end (draft_range d) \<le> toUnit ?ix (cs_end s)"
      using g(2) by (auto simp: in_section_def draft_range_def)
    have le: "cs_start s \<le> codePointLength tx" "cs_end s \<le> codePointLength tx"
      using validateSections_le [OF v] s(1) by fastforce+
    have mono: "toPoint ?ix a \<le> toPoint ?ix b" if "cp_boundary tx a" "cp_boundary tx b" "a \<le> b" for a b
      using toPoint_strict [of tx a b] that by (cases "a = b") auto
    have "cs_start s \<le> fst (p_span p)"
      using mono [OF toPoint_toUnit(1) [OF le(1)] _ s(2)] toPoint_toUnit(2) [OF le(1)] st unfolding p by (simp add: stretch_def)
    moreover have "snd (p_span p) \<le> cs_end s"
      using mono [OF _ toPoint_toUnit(1) [OF le(2)] s(3)] toPoint_toUnit(2) [OF le(2)] st unfolding p by (simp add: stretch_def)
    ultimately show ?thesis using s(1) secs' that by auto
  qed
  ultimately show ?thesis by blast
qed

lemma over_cap_iff:
  assumes "segmenter_ok I" "chunk I sha tx secs = Inr ps" "p \<in> set ps"
  shows "p_over_cap p \<longleftrightarrow> int (snd (p_span p)) - int (fst (p_span p)) > PASSAGE_MAX_CODE_POINTS"
  using passage_facts [OF assms] by blast

text \<open>A passage is marked over the cap exactly when it is longer than 1,200 code points, and then it is one whole grapheme
  cluster, which is never cut; and a passage lies inside one section.\<close>

theorem passages_within_cap:
  assumes "segmenter_ok I" "chunk I sha tx secs = Inr ps" "p \<in> set ps"
  shows "(p_over_cap p \<longleftrightarrow> int (snd (p_span p)) - int (fst (p_span p)) > PASSAGE_MAX_CODE_POINTS) \<and>
    (p_over_cap p \<longrightarrow> (\<exists>t. passage_text (code_point_index tx) p \<in> set (graphemes I t))) \<and>
    (secs \<noteq> [] \<longrightarrow> (\<exists>s\<in>set secs. cs_start s \<le> fst (p_span p) \<and> snd (p_span p) \<le> cs_end s))"
  by (rule passage_facts [OF assms])

theorem passages_within_cap_witness:
  "\<exists>ps p. chunk plain_engine (\<lambda>s. []) demo_item [] = Inr ps \<and> p \<in> set ps \<and>
     (p_over_cap p \<longleftrightarrow> int (snd (p_span p)) - int (fst (p_span p)) > 1200)"
proof -
  obtain ps where ps: "chunk plain_engine (\<lambda>s. []) demo_item [] = Inr ps" using chunk_without_sections by blast
  then obtain p where p: "p \<in> set ps"
    using chunk_not_empty [OF plain_engine_ok ps] by (cases ps) (auto simp: demo_item_def)
  show ?thesis using passages_within_cap [OF plain_engine_ok ps p] ps p unfolding PASSAGE_MAX_CODE_POINTS_def by blast
qed

text \<open>The only error is a list of sections that does not tile the item.\<close>

theorem chunk_fails_iff:
  "(\<exists>e. chunk I sha tx secs = Inl e) \<longleftrightarrow>
   tx \<noteq> [] \<and> secs \<noteq> [] \<and> \<not> (cs_start (hd secs) = 0 \<and> cs_end (last secs) = codePointLength tx \<and>
     list_all (\<lambda>s. cs_start s \<le> cs_end s) secs \<and> successively (\<lambda>s s'. cs_end s = cs_start s') secs)"
proof -
  have iff: "validateSections k ss n = Inr () \<longleftrightarrow> (case ss of [] \<Rightarrow> k = n | _ \<Rightarrow> cs_start (hd ss) = k \<and> cs_end (last ss) = n \<and>
      list_all (\<lambda>s. cs_start s \<le> cs_end s) ss \<and> successively (\<lambda>s s'. cs_end s = cs_start s') ss)" for k ss n
  proof (induction ss arbitrary: k)
    case (Cons s ss)
    have A: "validateSections k (s # ss) n = Inr () \<longleftrightarrow>
        cs_start s = k \<and> cs_start s \<le> cs_end s \<and> validateSections (cs_end s) ss n = Inr ()" by auto
    show ?case
    proof (cases ss)
      case Nil
      then show ?thesis unfolding A by auto
    next
      case IHc: (Cons s' ss')
      have B: "validateSections (cs_end s) ss n = Inr () \<longleftrightarrow> cs_end s = cs_start s' \<and> cs_end (last ss) = n \<and>
          list_all (\<lambda>s. cs_start s \<le> cs_end s) ss \<and> successively (\<lambda>s s'. cs_end s = cs_start s') ss"
        using Cons.IH [of "cs_end s"] unfolding IHc by (simp add: eq_commute [of "cs_end s"])
      have C: "successively (\<lambda>s s'. cs_end s = cs_start s') (s # ss) \<longleftrightarrow>
          cs_end s = cs_start s' \<and> successively (\<lambda>s s'. cs_end s = cs_start s') ss"
        unfolding IHc by simp
      have D: "last (s # ss) = last ss" using IHc by simp
      show ?thesis unfolding A B list.case C D list.sel list.pred_inject by blast
    qed
  qed simp
  have "(\<exists>e. chunk I sha tx secs = Inl e) \<longleftrightarrow> tx \<noteq> [] \<and>
      validateSections 0 (if secs \<noteq> [] then secs
        else [\<lparr>cs_frame = [], cs_start = 0, cs_end = codePointLength tx, cs_table = False, cs_first_row = None\<rparr>]) (codePointLength tx) \<noteq> Inr ()"
    by (simp add: chunk_def Let_def err_bind_def split: sum.splits)
  then show ?thesis unfolding iff by (cases secs) simp_all
qed

text \<open>The sections that \<open>joinSections\<close> returns tile the text it returns.\<close>

lemma not_joins_newline: "\<not> joins (xs @ [NL, NL]) ys"
  by (simp add: joins_def NL_def is_high_surrogate_def)

lemma join_from_tiles:
  "validateSections pos (snd (join_from pos ps)) (pos + codePointLength (fst (join_from pos ps))) = Inr ()"
proof (induction ps arbitrary: pos)
  case (Cons p ps)
  show ?case
  proof (cases "ps = []")
    case True
    then show ?thesis by (simp add: Let_def codePointLength_eq)
  next
    case False
    let ?body = "sp_body p @ [NL, NL]"
    let ?e = "pos + codePointLength ?body"
    have body: "fst (join_from pos (p # ps)) = ?body @ fst (join_from ?e ps)"
      and secs: "snd (join_from pos (p # ps)) = \<lparr>cs_frame = sp_frame p, cs_start = pos, cs_end = ?e, cs_table = sp_table p,
        cs_first_row = sp_first_row p\<rparr> # snd (join_from ?e ps)"
      using False by (simp_all add: Let_def codePointLength_eq)
    have "codePointLength (fst (join_from pos (p # ps))) = codePointLength ?body + codePointLength (fst (join_from ?e ps))"
      unfolding body by (rule codePointLength_append [OF not_joins_newline])
    then show ?thesis
      using Cons.IH [of ?e] unfolding secs by (simp add: add.assoc)
  qed
qed simp

text \<open>Whatever parts are joined, \<open>chunk\<close> accepts the joined text with its sections: it never fails on them.\<close>

theorem chunk_accepts_joined: "\<exists>ps. chunk I sha (fst (joinSections parts)) (snd (joinSections parts)) = Inr ps"
proof (cases "fst (joinSections parts) = []")
  case True
  then show ?thesis by (simp add: chunk_def)
next
  case False
  then have "snd (joinSections parts) \<noteq> []"
    by (cases parts) (auto simp: joinSections_def Let_def)
  then show ?thesis
    using False join_from_tiles [of 0 parts] by (simp add: chunk_def Let_def joinSections_def)
qed

end
