(* ===== verification/Passage_Windows.thy ===== *)
theory Passage_Windows
  imports Passages "HOL-Library.While_Combinator" "HOL-Library.Sublist"
begin

text \<open>
  Packing passages into the windows a model reads, the stratified selection, and the coverage of a reading:
  \<open>chunking/pack.ts\<close> and \<open>chunking/coverage.ts\<close> (under \<open>packages/core/src/application\<close>). An \<open>Infinity\<close> token bound
  is \<open>None\<close>; a selection is a list of integers, in any order and with repeats.
\<close>

section \<open>Pieces and windows\<close>

record window =
  w_text :: js_string
  w_ordinals :: "nat list"
  w_code_points :: int
  w_est_tokens :: int

record window_budget =
  wb_points :: int
  wb_tokens :: "int option"

definition DEFAULT_WINDOW_BUDGET :: window_budget where
  "DEFAULT_WINDOW_BUDGET = \<lparr>wb_points = 3000, wb_tokens = Some 1800\<rparr>"

definition WINDOW_GAP_MARKER :: js_string where
  "WINDOW_GAP_MARKER = js ''[...]''"

record piece =
  pc_separator :: js_string
  pc_lead :: js_string
  pc_text :: js_string
  pc_adjacent :: bool

definition trimEnd :: "js_string \<Rightarrow> js_string" where
  "trimEnd s = rev (dropWhile js_whitespace (rev s))"

fun join_lines :: "js_string list \<Rightarrow> js_string" where
  "join_lines [] = []"
| "join_lines [l] = l"
| "join_lines (l # m # ls) = l @ [NL] @ join_lines (m # ls)"

definition adjacent_to :: "passage \<Rightarrow> passage option \<Rightarrow> bool" where
  "adjacent_to p previous = (case previous of None \<Rightarrow> False
     | Some q \<Rightarrow> snd (p_span q) = fst (p_span p) \<and> p_frame q = p_frame p)"

definition piece_for :: "cp_index \<Rightarrow> passage \<Rightarrow> passage option \<Rightarrow> piece" where
  "piece_for ix p previous =
     (let adj = adjacent_to p previous;
          newFrame = (p_frame p \<noteq> [] \<and> (case previous of None \<Rightarrow> True | Some q \<Rightarrow> p_frame q \<noteq> p_frame p));
          gap = (\<not> newFrame \<and> previous \<noteq> None \<and> \<not> adj);
          separator = (if gap then [NL]
            else (case previous of None \<Rightarrow> [] | Some q \<Rightarrow> if p_frame q \<noteq> p_frame p then [NL, NL] else []));
          lead1 = (if newFrame then [p_frame p] else if gap then [WINDOW_GAP_MARKER] else []);
          header = (case p_rows p of None \<Rightarrow> None | Some r \<Rightarrow> pr_header r);
          lead2 = (if adj then [] else (case header of
              Some h \<Rightarrow> [trimEnd (slice_points ix (fst h) (snd h))]
            | None \<Rightarrow> (case p_overlap p of Some q \<Rightarrow> [trimEnd (slice_points ix (fst q) (snd q))] | None \<Rightarrow> [])));
          lead = lead1 @ lead2
      in \<lparr>pc_separator = separator, pc_lead = (if lead = [] then [] else join_lines lead @ [NL]),
          pc_text = passage_text ix p, pc_adjacent = adj\<rparr>)"

definition clipToBound :: "intl \<Rightarrow> js_string \<Rightarrow> int \<Rightarrow> js_string" where
  "clipToBound I tx m =
     (let ix = code_point_index tx in
      if int (ix_length ix) \<le> m then tx
      else (case graphemeRanges I tx (rng 0 (length tx)) \<lparr>max_points = m, max_tokens = None\<rparr> of
              [] \<Rightarrow> []
            | r # _ \<Rightarrow> (let s = slice tx (r_start r) (r_end r) in if int (codePointLength s) > m then [] else s)))"

text \<open>The loop of \<open>packWindows\<close>: the closed windows, and the text, the ordinals and the last passage of the open one.\<close>

record packing =
  pk_windows :: "window list"
  pk_text :: js_string
  pk_ordinals :: "nat list"
  pk_previous :: "passage option"

definition wanted :: "passage list \<Rightarrow> int list \<Rightarrow> nat list" where
  "wanted ps selected =
     sort (map nat (filter (\<lambda>n. 0 \<le> n \<and> n < int (length ps) \<and> \<not> p_over_cap (ps ! nat n)) (remdups selected)))"

definition close_window :: "intl \<Rightarrow> packing \<Rightarrow> packing" where
  "close_window I k =
     \<lparr>pk_windows = (if pk_ordinals k \<noteq> []
        then pk_windows k @ [(let t = trimEnd (pk_text k) in
          \<lparr>w_text = t, w_ordinals = pk_ordinals k, w_code_points = int (codePointLength t), w_est_tokens = estimateTokens (tables I) t\<rparr>)]
        else pk_windows k),
      pk_text = [], pk_ordinals = [], pk_previous = None\<rparr>"

definition over_budget :: "intl \<Rightarrow> window_budget \<Rightarrow> js_string \<Rightarrow> bool" where
  "over_budget I b value \<longleftrightarrow> (let t = trimEnd value in int (codePointLength t) > wb_points b \<or>
     (case wb_tokens b of None \<Rightarrow> False | Some m \<Rightarrow> estimateTokens (tables I) t > m))"

definition candidate_for :: "packing \<Rightarrow> piece \<Rightarrow> js_string" where
  "candidate_for k next =
     (if pk_ordinals k = [] then pc_lead next @ pc_text next
      else if pc_adjacent next then pk_text k @ pc_text next
      else trimEnd (pk_text k) @ pc_separator next @ pc_lead next @ pc_text next)"

definition fit_single :: "intl \<Rightarrow> window_budget \<Rightarrow> piece \<Rightarrow> js_string \<Rightarrow> js_string" where
  "fit_single I b next candidate =
     (if int (codePointLength (trimEnd candidate)) > wb_points b
      then (if int (codePointLength (trimEnd (pc_text next))) \<le> wb_points b then pc_text next else clipToBound I (pc_text next) (wb_points b))
      else candidate)"

definition pack_passage :: "intl \<Rightarrow> cp_index \<Rightarrow> passage list \<Rightarrow> window_budget \<Rightarrow> packing \<Rightarrow> nat \<Rightarrow> packing" where
  "pack_passage I ix ps b k n =
     (let p = ps ! n;
          next0 = piece_for ix p (pk_previous k);
          cand0 = candidate_for k next0;
          closes = (pk_ordinals k \<noteq> [] \<and> over_budget I b cand0);
          k1 = (if closes then close_window I k else k);
          next = (if closes then piece_for ix p None else next0);
          cand = (if closes then pc_lead next @ pc_text next else cand0);
          tooLong = (pk_ordinals k1 = [] \<and> int (codePointLength (trimEnd cand)) > wb_points b);
          final = (if tooLong then fit_single I b next cand else cand)
      in if tooLong \<and> final = [] then k1
         else k1\<lparr>pk_text := final, pk_ordinals := pk_ordinals k1 @ [n], pk_previous := Some p\<rparr>)"

definition empty_packing :: packing where
  "empty_packing = \<lparr>pk_windows = [], pk_text = [], pk_ordinals = [], pk_previous = None\<rparr>"

definition packWindows :: "intl \<Rightarrow> js_string \<Rightarrow> passage list \<Rightarrow> int list \<Rightarrow> window_budget \<Rightarrow> window list" where
  "packWindows I prepared ps selected b =
     pk_windows (close_window I (foldl (pack_passage I (code_point_index prepared) ps b) empty_packing (wanted ps selected)))"

definition singleWindow :: "intl \<Rightarrow> js_string \<Rightarrow> passage list \<Rightarrow> window_budget \<Rightarrow> window option" where
  "singleWindow I prepared ps b =
     (if list_ex p_over_cap ps then None
      else (case packWindows I prepared ps (map (\<lambda>p. int (p_ordinal p)) ps) \<lparr>wb_points = wb_points b, wb_tokens = None\<rparr> of
              [w] \<Rightarrow> Some w
            | _ \<Rightarrow> None))"

section \<open>Stratified selection\<close>

text \<open>\<open>Math.round(step * (count - 1) / (picks - 1))\<close>: halves round up.\<close>

definition evenly :: "nat \<Rightarrow> nat \<Rightarrow> nat list" where
  "evenly count picks =
     (if picks \<ge> count then [0..<count]
      else if picks \<le> 1 then [0]
      else sort (remdups (map (\<lambda>step. (2 * step * (count - 1) + (picks - 1)) div (2 * (picks - 1))) [0..<picks])))"

definition packs_into :: "intl \<Rightarrow> js_string \<Rightarrow> passage list \<Rightarrow> int \<Rightarrow> window_budget \<Rightarrow> nat list \<Rightarrow> bool" where
  "packs_into I prepared ps maxWindows b picks \<longleftrightarrow> int (length (packWindows I prepared ps (map int picks) b)) \<le> maxWindows"

definition search_step :: "(nat list \<Rightarrow> bool) \<Rightarrow> nat \<Rightarrow> nat list \<times> nat \<times> nat \<Rightarrow> nat list \<times> nat \<times> nat" where
  "search_step fits count = (\<lambda>(best, low, high).
     let middle = (low + high) div 2; picks = evenly count middle in
     if fits picks then (picks, middle + 1, high) else (best, low, middle - 1))"

text \<open>\<open>None\<close> would be a search that never ends.\<close>

definition selectStratified :: "intl \<Rightarrow> js_string \<Rightarrow> passage list \<Rightarrow> int \<Rightarrow> window_budget \<Rightarrow> nat list option" where
  "selectStratified I prepared ps maxWindows b =
     (let count = length ps; fits = packs_into I prepared ps maxWindows b in
      if count = 0 \<or> maxWindows < 1 then Some []
      else if fits (evenly count count) then Some (evenly count count)
      else map_option fst (while_option (\<lambda>(best, low, high). low \<le> high) (search_step fits count) ([0], 1, count - 1)))"

section \<open>Coverage\<close>

record coverage =
  cv_total :: nat
  cv_read :: nat
  cv_complete :: bool
  cv_points_total :: nat
  cv_points_read :: nat

definition span_size :: "passage \<Rightarrow> nat" where
  "span_size p = snd (p_span p) - fst (p_span p)"

definition computeCoverage :: "passage list \<Rightarrow> nat list \<Rightarrow> coverage" where
  "computeCoverage ps readOrdinals =
     (let readNow = filter (\<lambda>p. p_ordinal p \<in> set readOrdinals \<and> \<not> p_over_cap p) ps in
      \<lparr>cv_total = length ps, cv_read = length readNow, cv_complete = (length readNow = length ps),
       cv_points_total = sum_list (map span_size ps), cv_points_read = sum_list (map span_size readNow)\<rparr>)"

section \<open>The end of a text\<close>

lemma trimEnd_append: "\<exists>ws. s = trimEnd s @ ws \<and> list_all js_whitespace ws"
proof -
  have "rev s = takeWhile js_whitespace (rev s) @ dropWhile js_whitespace (rev s)" by simp
  then have "s = trimEnd s @ rev (takeWhile js_whitespace (rev s))"
    unfolding trimEnd_def by (metis rev_append rev_rev_ident)
  moreover have "list_all js_whitespace (rev (takeWhile js_whitespace (rev s)))"
    by (auto simp: list_all_iff dest: set_takeWhileD)
  ultimately show ?thesis by blast
qed

lemma listed_whitespace_not_low:
  "\<forall>u \<in> {0x9, 0xA, 0xB, 0xC, 0xD, 0x20, 0xA0, 0x1680, 0x2028, 0x2029, 0x202F, 0x205F, 0x3000, 0xFEFF}. \<not> is_low_surrogate u"
  unfolding ball_simps is_low_surrogate_def by simp

lemma whitespace_not_low:
  assumes "js_whitespace u"
  shows "\<not> is_low_surrogate u"
proof (cases "0x2000 \<le> u \<and> u \<le> 0x200A")
  case True
  then have "unat u \<le> 0x200A" by (simp add: word_le_nat_alt)
  then show ?thesis by (simp add: is_low_surrogate_def word_le_nat_alt)
next
  case False
  with assms have "u \<in> {0x9, 0xA, 0xB, 0xC, 0xD, 0x20, 0xA0, 0x1680, 0x2028, 0x2029, 0x202F, 0x205F, 0x3000, 0xFEFF}"
    unfolding js_whitespace_def by blast
  with listed_whitespace_not_low show ?thesis by blast
qed

lemma trimEnd_no_join: "\<exists>ws. s = trimEnd s @ ws \<and> \<not> joins (trimEnd s) ws"
proof -
  obtain ws where ws: "s = trimEnd s @ ws" "list_all js_whitespace ws" using trimEnd_append by blast
  then have "\<not> joins (trimEnd s) ws"
    using whitespace_not_low by (cases ws) (auto simp: joins_def)
  with ws show ?thesis by blast
qed

lemma codePointLength_trimEnd: "codePointLength (trimEnd s) \<le> codePointLength s"
proof -
  obtain ws where "s = trimEnd s @ ws" "\<not> joins (trimEnd s) ws" using trimEnd_no_join by blast
  then show ?thesis using codePointLength_append by (metis le_add1)
qed

lemma weightOf_nonneg: "0 \<le> weightOf sc DEFAULT_TOKEN_WEIGHTS p"
  by (simp add: weightOf_def DEFAULT_TOKEN_WEIGHTS_def)

lemma estimateTokenWeight_nonneg: "0 \<le> estimateTokenWeight sc s"
  unfolding estimateTokenWeight_def by (rule sum_list_nonneg) (auto simp: weightOf_nonneg)

lemma estimateTokens_prefix: "\<not> joins xs ys \<Longrightarrow> estimateTokens sc xs \<le> estimateTokens sc (xs @ ys)"
  unfolding estimateTokens_def
  by (intro ceiling_mono) (simp add: estimateTokenWeight_append estimateTokenWeight_nonneg)

lemma estimateTokens_trimEnd: "estimateTokens sc (trimEnd s) \<le> estimateTokens sc s"
  using trimEnd_no_join [of s] estimateTokens_prefix by metis

section \<open>Windows stay within the budget\<close>

lemma wanted_mem: "n \<in> set (wanted ps sel) \<Longrightarrow> n < length ps \<and> \<not> p_over_cap (ps ! n) \<and> int n \<in> set sel"
  by (auto simp: wanted_def)

lemma sorted_wanted: "sorted_wrt (<) (wanted ps sel)"
proof -
  have "distinct (map nat (filter (\<lambda>n. 0 \<le> n \<and> n < int (length ps) \<and> \<not> p_over_cap (ps ! nat n)) (remdups sel)))"
    by (auto simp: distinct_map inj_on_def)
  then show ?thesis unfolding wanted_def strict_sorted_iff by simp
qed

lemma length_wanted: "length (wanted ps sel) \<le> length sel"
  unfolding wanted_def length_sort length_map
  by (meson length_filter_le length_remdups_leq order_trans)

lemma codePointLength_clip: "0 \<le> m \<Longrightarrow> int (codePointLength (clipToBound I tx m)) \<le> m"
  by (auto simp: clipToBound_def Let_def split: list.splits)

lemma fit_single_bound:
  assumes "0 \<le> wb_points b"
  shows "int (codePointLength (trimEnd (fit_single I b next cand))) \<le> wb_points b"
proof -
  have "int (codePointLength (trimEnd (clipToBound I (pc_text next) (wb_points b)))) \<le> wb_points b"
    using codePointLength_clip [OF assms, of I "pc_text next"] codePointLength_trimEnd [of "clipToBound I (pc_text next) (wb_points b)"]
    by linarith
  then show ?thesis by (simp add: fit_single_def)
qed

definition window_ok :: "intl \<Rightarrow> window_budget \<Rightarrow> window \<Rightarrow> bool" where
  "window_ok I b w \<longleftrightarrow> w_ordinals w \<noteq> [] \<and> w_code_points w = int (codePointLength (w_text w)) \<and> w_code_points w \<le> wb_points b \<and>
     w_est_tokens w = estimateTokens (tables I) (w_text w) \<and>
     (1 < length (w_ordinals w) \<longrightarrow> (case wb_tokens b of None \<Rightarrow> True | Some m \<Rightarrow> w_est_tokens w \<le> m))"

text \<open>Which ordinals the windows and the open one hold, in order.\<close>

definition packed :: "packing \<Rightarrow> nat list" where
  "packed k = concat (map w_ordinals (pk_windows k)) @ pk_ordinals k"

definition packing_ok :: "intl \<Rightarrow> window_budget \<Rightarrow> packing \<Rightarrow> bool" where
  "packing_ok I b k \<longleftrightarrow> list_all (window_ok I b) (pk_windows k) \<and>
     (pk_ordinals k \<noteq> [] \<longrightarrow> int (codePointLength (trimEnd (pk_text k))) \<le> wb_points b) \<and>
     (1 < length (pk_ordinals k) \<longrightarrow> \<not> over_budget I b (pk_text k))"

lemma close_window_ok: "packing_ok I b k \<Longrightarrow> packing_ok I b (close_window I k)"
  by (auto simp: packing_ok_def close_window_def window_ok_def over_budget_def Let_def split: option.splits)

lemma packed_close [simp]: "packed (close_window I k) = packed k" "pk_ordinals (close_window I k) = []"
  by (simp_all add: packed_def close_window_def Let_def)

lemma pack_passage_keeps:
  assumes ok: "packing_ok I b k" and m: "0 \<le> wb_points b"
  shows "packing_ok I b (pack_passage I ix ps b k n)"
    and "packed (pack_passage I ix ps b k n) \<in> {packed k, packed k @ [n]}"
proof -
  define next0 where "next0 = piece_for ix (ps ! n) (pk_previous k)"
  define cand0 where "cand0 = candidate_for k next0"
  define closes where "closes \<longleftrightarrow> pk_ordinals k \<noteq> [] \<and> over_budget I b cand0"
  define k1 where "k1 = (if closes then close_window I k else k)"
  define nx where "nx = (if closes then piece_for ix (ps ! n) None else next0)"
  define cand where "cand = (if closes then pc_lead nx @ pc_text nx else cand0)"
  define tooLong where "tooLong \<longleftrightarrow> pk_ordinals k1 = [] \<and> int (codePointLength (trimEnd cand)) > wb_points b"
  define final where "final = (if tooLong then fit_single I b nx cand else cand)"
  have step: "pack_passage I ix ps b k n = (if tooLong \<and> final = [] then k1
      else k1\<lparr>pk_text := final, pk_ordinals := pk_ordinals k1 @ [n], pk_previous := Some (ps ! n)\<rparr>)"
    unfolding pack_passage_def Let_def next0_def cand0_def closes_def k1_def nx_def cand_def tooLong_def final_def by (rule refl)
  have k1: "packing_ok I b k1" "packed k1 = packed k"
    using ok close_window_ok by (auto simp: k1_def)
  show "packed (pack_passage I ix ps b k n) \<in> {packed k, packed k @ [n]}"
    using k1(2) unfolding step by (auto simp: packed_def)
  have empty: "pk_ordinals k1 = [] \<Longrightarrow> int (codePointLength (trimEnd final)) \<le> wb_points b"
    using fit_single_bound [OF m, of I nx cand] by (auto simp: final_def tooLong_def)
  have "pk_ordinals k1 \<noteq> [] \<Longrightarrow> \<not> over_budget I b final"
    by (auto simp: final_def tooLong_def cand_def k1_def closes_def)
  then have "pk_ordinals k1 \<noteq> [] \<Longrightarrow> int (codePointLength (trimEnd final)) \<le> wb_points b \<and> \<not> over_budget I b final"
    by (auto simp: over_budget_def Let_def)
  then show "packing_ok I b (pack_passage I ix ps b k n)"
    using k1(1) empty unfolding step packing_ok_def by (cases "pk_ordinals k1 = []") auto
qed

lemma pack_all_keeps:
  assumes "0 \<le> wb_points b"
  shows "packing_ok I b (foldl (pack_passage I ix ps b) empty_packing ns) \<and>
         subseq (packed (foldl (pack_passage I ix ps b) empty_packing ns)) ns"
proof (induction ns rule: rev_induct)
  case Nil
  show ?case by (simp add: packing_ok_def empty_packing_def packed_def)
next
  case (snoc n ns)
  let ?k = "foldl (pack_passage I ix ps b) empty_packing ns"
  have "subseq (packed ?k) (ns @ [n])" using snoc.IH subseq_append_le_same_iff
    by (meson subseq_order.order_trans list_emb_append2 subseq_order.refl prefix_imp_subseq prefixI)
  moreover have "subseq (packed ?k @ [n]) (ns @ [n])" using snoc.IH by (simp add: list_emb_append_mono)
  ultimately show ?case
    using pack_passage_keeps [of I b ?k ix ps n] snoc.IH assms by auto
qed

lemma windows_ok:
  assumes "0 \<le> wb_points b"
  shows "list_all (window_ok I b) (packWindows I tx ps sel b)"
    and "subseq (concat (map w_ordinals (packWindows I tx ps sel b))) (wanted ps sel)"
proof -
  let ?k = "close_window I (foldl (pack_passage I (code_point_index tx) ps b) empty_packing (wanted ps sel))"
  have "packing_ok I b ?k" "subseq (packed ?k) (wanted ps sel)"
    using pack_all_keeps [OF assms] close_window_ok by auto
  then show "list_all (window_ok I b) (packWindows I tx ps sel b)"
    "subseq (concat (map w_ordinals (packWindows I tx ps sel b))) (wanted ps sel)"
    by (auto simp: packWindows_def packing_ok_def packed_def)
qed

lemma length_windows_le:
  assumes "0 \<le> wb_points b"
  shows "length (packWindows I tx ps sel b) \<le> length sel"
proof -
  let ?ws = "packWindows I tx ps sel b"
  have "length ws \<le> length (concat (map w_ordinals ws))" if "list_all (window_ok I b) ws" for ws
    using that
  proof (induction ws)
    case (Cons w ws)
    then obtain x xs where "w_ordinals w = x # xs" by (cases "w_ordinals w") (auto simp: window_ok_def)
    then show ?case using Cons by simp
  qed simp
  from this [OF windows_ok(1) [OF assms, of I tx ps sel]] show ?thesis
    using list_emb_length [OF windows_ok(2) [OF assms, of I tx ps sel]] length_wanted [of ps sel] by linarith
qed

section \<open>Even spacing\<close>

definition rounded :: "nat \<Rightarrow> nat \<Rightarrow> nat \<Rightarrow> nat" where
  "rounded count picks step = (2 * step * (count - 1) + (picks - 1)) div (2 * (picks - 1))"

lemma rounded_step:
  assumes "2 \<le> picks" "picks \<le> count"
  shows "rounded count picks step < rounded count picks (Suc step)"
proof -
  let ?d = "2 * (picks - 1)"
  let ?a = "2 * step * (count - 1) + (picks - 1)"
  have "?a + ?d \<le> 2 * Suc step * (count - 1) + (picks - 1)"
    using assms by (simp add: algebra_simps)
  then have "(?a + ?d) div ?d \<le> rounded count picks (Suc step)"
    unfolding rounded_def by (rule div_le_mono)
  moreover have "(?a + ?d) div ?d = ?a div ?d + 1" using assms by (intro div_add_self2) simp
  ultimately show ?thesis unfolding rounded_def by linarith
qed

lemma rounded_strict: "2 \<le> picks \<Longrightarrow> picks \<le> count \<Longrightarrow> i < j \<Longrightarrow> rounded count picks i < rounded count picks j"
  by (rule lift_Suc_mono_less) (rule rounded_step)

lemma rounded_ends:
  assumes "2 \<le> picks"
  shows "rounded count picks 0 = 0" "rounded count picks (picks - 1) = count - 1"
proof -
  define q where "q = picks - 2"
  have q: "picks - 1 = Suc q" using assms by (simp add: q_def)
  show "rounded count picks 0 = 0" unfolding rounded_def q by simp
  have eq: "2 * Suc q * (count - 1) + Suc q = (count - 1) * (2 * Suc q) + Suc q"
    by (simp only: mult.commute [of "2 * Suc q" "count - 1"])
  have "(2 * Suc q * (count - 1) + Suc q) div (2 * Suc q) = count - 1 + Suc q div (2 * Suc q)"
    unfolding eq by (rule div_mult_self3) simp
  then show "rounded count picks (picks - 1) = count - 1" unfolding rounded_def q by simp
qed

lemma evenly_eq:
  assumes "2 \<le> picks" "picks < count"
  shows "evenly count picks = map (rounded count picks) [0..<picks]"
proof -
  have srt: "sorted_wrt (<) (map (rounded count picks) [0..<picks])"
    using rounded_strict assms by (auto simp: sorted_wrt_map sorted_wrt_iff_nth_less)
  then have "sort (remdups (map (rounded count picks) [0..<picks])) = map (rounded count picks) [0..<picks]"
    unfolding strict_sorted_iff by (simp add: distinct_remdups_id sorted_sort_id)
  then show ?thesis using assms by (simp add: evenly_def rounded_def [abs_def])
qed

text \<open>An even selection is strictly sorted, has as many ordinals as asked, and holds both ends.\<close>

lemma evenly_spaced:
  assumes "1 \<le> k" "k \<le> count"
  shows "sorted_wrt (<) (evenly count k)" "length (evenly count k) = k" "hd (evenly count k) = 0"
    "\<forall>n\<in>set (evenly count k). n < count" "2 \<le> k \<Longrightarrow> last (evenly count k) = count - 1"
proof -
  consider "k = count" | "k = 1" "k < count" | "2 \<le> k" "k < count" using assms by linarith
  then have "sorted_wrt (<) (evenly count k) \<and> length (evenly count k) = k \<and> hd (evenly count k) = 0 \<and>
    (\<forall>n\<in>set (evenly count k). n < count) \<and> (2 \<le> k \<longrightarrow> last (evenly count k) = count - 1)"
  proof cases
    case 1
    then show ?thesis using assms by (simp add: evenly_def hd_upt)
  next
    case 2
    then show ?thesis by (simp add: evenly_def)
  next
    case 3
    have "rounded count k i < count" if "i < k" for i
    proof (cases "i = k - 1")
      case False
      then have "rounded count k i < rounded count k (k - 1)"
        using that 3 by (intro rounded_strict) auto
      then show ?thesis using rounded_ends(2) [OF 3(1), of count] by linarith
    qed (use rounded_ends(2) [OF 3(1), of count] 3 in simp)
    moreover have "sorted_wrt (<) (map (rounded count k) [0..<k])"
      using rounded_strict 3 by (auto simp: sorted_wrt_map sorted_wrt_iff_nth_less)
    ultimately show ?thesis
      using 3 rounded_ends [OF 3(1), of count] by (auto simp: evenly_eq hd_map last_map hd_upt)
  qed
  then show "sorted_wrt (<) (evenly count k)" "length (evenly count k) = k" "hd (evenly count k) = 0"
    "\<forall>n\<in>set (evenly count k). n < count" "2 \<le> k \<Longrightarrow> last (evenly count k) = count - 1" by auto
qed

section \<open>The binary search\<close>

text \<open>
  What holds of the two ends: \<open>best\<close> is the selection of \<open>low - 1\<close> picks (of one at the start) and fits, and one pick
  more than \<open>high\<close> does not fit.
\<close>

definition search_inv :: "(nat list \<Rightarrow> bool) \<Rightarrow> nat \<Rightarrow> nat list \<times> nat \<times> nat \<Rightarrow> bool" where
  "search_inv fits count = (\<lambda>(best, low, high). 1 \<le> low \<and> low \<le> high + 1 \<and> high < count \<and>
     best = evenly count (max 1 (low - 1)) \<and> fits best \<and> \<not> fits (evenly count (high + 1)))"

lemma search_step_keeps:
  assumes "search_inv fits count (best, low, high)" "low \<le> high"
  shows "search_inv fits count (search_step fits count (best, low, high))"
proof -
  let ?m = "(low + high) div 2"
  have m: "1 \<le> ?m" "low \<le> ?m" "?m \<le> high" using assms by (auto simp: search_inv_def)
  show ?thesis
  proof (cases "fits (evenly count ?m)")
    case True
    then show ?thesis using assms m by (simp add: search_inv_def search_step_def Let_def max_def)
  next
    case False
    then show ?thesis using assms m by (auto simp: search_inv_def search_step_def Let_def)
  qed
qed

lemma search_ends: "\<exists>r. while_option (\<lambda>(best, low, high). low \<le> high) (search_step fits count) (best, Suc low, high) = Some r"
  by (rule measure_while_option_Some [where P = "\<lambda>(best, low, high). 1 \<le> low" and f = "\<lambda>(best, low, high). high + 1 - low"])
    (auto simp: search_step_def Let_def split: if_splits)

lemma search_result:
  assumes "search_inv fits count s" "while_option (\<lambda>(best, low, high). low \<le> high) (search_step fits count) s = Some r"
    and "fits (evenly count 1)"
  shows "\<exists>k. 1 \<le> k \<and> k < count \<and> fst r = evenly count k \<and> fits (fst r) \<and> \<not> fits (evenly count (k + 1))"
proof -
  obtain best low high where r: "r = (best, low, high)" by (cases r) auto
  have "search_inv fits count r"
    by (rule while_option_rule [where P = "search_inv fits count", OF _ assms(2,1)]) (auto intro: search_step_keeps)
  moreover have "\<not> low \<le> high" using while_option_stop [OF assms(2)] r by simp
  ultimately have low: "low = high + 1"
    and *: "high < count" "best = evenly count (max 1 (low - 1))" "fits best" "\<not> fits (evenly count (high + 1))"
    using r by (auto simp: search_inv_def)
  note * = * [unfolded low diff_add_inverse2]
  have "high \<noteq> 0" using *(4) assms(3) by (cases high) auto
  then have "max 1 high = high" by simp
  then show ?thesis using * r \<open>high \<noteq> 0\<close> by (intro exI [of _ high]) auto
qed

lemma fits_one:
  assumes "0 \<le> wb_points b" "1 \<le> m" "0 < count"
  shows "packs_into I tx ps m b (evenly count 1)"
proof -
  have "length (evenly count 1) = 1" using evenly_spaced(2) [of 1 count] assms by simp
  then have "length (packWindows I tx ps (map int (evenly count 1)) b) \<le> 1"
    using length_windows_le [OF assms(1), of I tx ps "map int (evenly count 1)"] by simp
  then show ?thesis using assms by (simp add: packs_into_def)
qed

section \<open>An item that fits is one window\<close>

lemma pack_unit_labels:
  assumes "\<forall>d\<in>set (fst st @ open_list (snd st)). d_frame d = frame \<and> d_table d = table"
  shows "\<forall>d\<in>set (fst (pack_unit frame table header st u) @ open_list (snd (pack_unit frame table header st u))).
    d_frame d = frame \<and> d_table d = table"
proof -
  have "d_frame (draft_with frame table h) = frame" "d_table (draft_with frame table h) = table"
    "d_frame (open_draft frame table header ds) = frame" "d_table (open_draft frame table header ds) = table" for h ds
    by (simp_all add: draft_with_def open_draft_def)
  then show ?thesis
    using assms by (cases "snd st") (auto simp: pack_unit_def Let_def flush_draft_def open_list_def add_unit_def split: if_splits)
qed

lemma pack_units_labels:
  assumes "d \<in> set (pack_units us frame table header)"
  shows "d_frame d = frame \<and> d_table d = table"
proof -
  have "\<forall>d\<in>set (fst (foldl (pack_unit frame table header) ([], None) us) @
      open_list (snd (foldl (pack_unit frame table header) ([], None) us))). d_frame d = frame \<and> d_table d = table"
  proof (induction us rule: rev_induct)
    case (snoc u us)
    show ?case unfolding foldl_append foldl.simps by (rule pack_unit_labels [OF snoc.IH])
  qed (simp add: open_list_def)
  then show ?thesis
    using assms by (auto simp: pack_units_def Let_def flush_draft_def open_list_def split: option.splits if_splits)
qed

lemma oneLineFrame_Nil [simp]: "oneLineFrame I [] = []"
  by (simp add: oneLineFrame_def js_trim_def bound_simps)

lemma with_previous_nth: "i < length ds \<Longrightarrow> with_previous prev ds ! i = (ds ! i, if i = 0 then prev else Some (ds ! (i - 1)))"
  by (induction ds arbitrary: i prev) (auto simp: nth_Cons split: nat.splits)

text \<open>What the packer needs of the passages of an item without sections.\<close>

definition plain_run :: "js_string \<Rightarrow> passage list \<Rightarrow> bool" where
  "plain_run tx ps \<longleftrightarrow> (\<forall>p\<in>set ps. p_frame p = [] \<and> p_rows p = None) \<and> (ps \<noteq> [] \<longrightarrow> p_overlap (hd ps) = None) \<and>
     (\<forall>m \<le> length ps. \<exists>u. cp_boundary tx u \<and> concat (map (passage_text (code_point_index tx)) (take m ps)) = take u tx) \<and>
     (\<forall>i. Suc i < length ps \<longrightarrow> snd (p_span (ps ! i)) = fst (p_span (ps ! Suc i)))"

lemma tiles_consecutive: "tiles ok a b rs \<Longrightarrow> Suc i < length rs \<Longrightarrow> snd (rs ! i) = fst (rs ! Suc i)"
proof (induction rs arbitrary: a i)
  case (Cons r rs)
  then show ?case by (cases i; cases rs) auto
qed simp

lemma tiles_take: "tiles ok a b rs \<Longrightarrow> \<exists>c. tiles ok a c (take m rs)"
  by (metis append_take_drop_id tiles_append)

lemma chunk_plain_run:
  assumes ok: "segmenter_ok I" and c: "chunk I sha tx [] = Inr ps" and ne: "tx \<noteq> []"
  shows "plain_run tx ps"
proof -
  let ?ix = "code_point_index tx"
  let ?s = "\<lparr>cs_frame = [], cs_start = 0, cs_end = codePointLength tx, cs_table = False, cs_first_row = None\<rparr>"
  have u0: "toUnit ?ix 0 = 0" "toUnit ?ix (codePointLength tx) = length tx"
    using toUnit_toPoint [of tx 0] toUnit_toPoint [of tx "length tx"] by simp_all
  define ds where "ds = section_drafts I tx 0 ?s"
  have all: "all_drafts I tx 0 [?s] = with_previous None ds" using ne u0 by (simp add: ds_def Let_def)
  have ps: "ps = map (passage_of I sha tx [?s] (length (with_previous None ds))) (enumerate 0 (with_previous None ds))"
    using c ne by (simp add: chunk_def Let_def all del: all_drafts.simps)
  have labels: "d \<in> set ds \<Longrightarrow> d_frame d = [] \<and> \<not> d_table d" for d
    using pack_units_labels [of d] by (auto simp: ds_def section_drafts_def Let_def)
  have st: "stretch tx (rng 0 (length tx))" using ne by (simp add: stretch_def)
  have t: "tiles (cp_boundary tx) 0 (length tx) (map (\<lambda>d. ends (draft_range d)) ds)"
    using section_drafts_ok(1) [of I tx ?s 0] ok st u0 by (simp add: ds_def)
  have t': "tiles (cp_boundary tx) 0 (length tx) (map ends (map draft_range ds))" using t by (simp add: comp_def)
  have "length (with_previous None ds) = length ds" by (metis length_map with_previous_fst)
  then have len: "length ps = length ds" unfolding ps by simp
  have nth: "i < length ds \<Longrightarrow> ps ! i = passage_of I sha tx [?s] (length ds) (i, ds ! i, if i = 0 then None else Some (ds ! (i - 1)))" for i
    unfolding ps using \<open>length (with_previous None ds) = length ds\<close>
    by (simp add: nth_enumerate_eq with_previous_nth)
  have 1: "\<forall>p\<in>set ps. p_frame p = [] \<and> p_rows p = None"
  proof -
    have "p_frame (ps ! i) = [] \<and> p_rows (ps ! i) = None" if "i < length ds" for i
      using nth [OF that] labels [OF nth_mem [OF that]] by simp
    then show ?thesis using len by (auto simp: in_set_conv_nth)
  qed
  have 2: "ps \<noteq> [] \<longrightarrow> p_overlap (hd ps) = None"
    using nth [of 0] len by (cases ps) (auto simp: overlapFor_def hd_conv_nth simp flip: length_greater_0_conv)
  have span: "i < length ds \<Longrightarrow> p_span (ps ! i) = spanOf ?ix (draft_range (ds ! i))" for i using nth by simp
  have 4: "\<forall>i. Suc i < length ps \<longrightarrow> snd (p_span (ps ! i)) = fst (p_span (ps ! Suc i))"
    using tiles_consecutive [OF t'] len span by (simp del: draft_range_sel)
  have "passage_text ?ix (ps ! i) = slice tx (r_start (draft_range (ds ! i))) (r_end (draft_range (ds ! i)))" if "i < length ds" for i
    using passage_text_of [of tx "(i, ds ! i, if i = 0 then None else Some (ds ! (i - 1)))"] nth [OF that]
      tiles_stretch [OF t', of "draft_range (ds ! i)"] that by simp
  then have texts: "map (passage_text ?ix) ps = map (\<lambda>r. slice tx (fst r) (snd r)) (map ends (map draft_range ds))"
    using len by (intro nth_equalityI) (simp_all del: draft_range_sel)
  have 3: "\<exists>u. cp_boundary tx u \<and> concat (map (passage_text ?ix) (take m ps)) = take u tx" for m
  proof -
    obtain u where u: "tiles (cp_boundary tx) 0 u (take m (map ends (map draft_range ds)))" using tiles_take [OF t'] by blast
    have "map (passage_text ?ix) (take m ps) = map (\<lambda>r. slice tx (fst r) (snd r)) (take m (map ends (map draft_range ds)))"
      by (metis texts take_map)
    then have "concat (map (passage_text ?ix) (take m ps)) = slice tx 0 u" using tiles_text [OF u, of tx] by simp
    then show ?thesis using tiles_ok [OF u] by (auto simp: slice_def)
  qed
  show ?thesis unfolding plain_run_def using 1 2 3 4 by blast
qed

lemma prefix_within:
  assumes "cp_boundary tx u"
  shows "codePointLength (trimEnd (take u tx)) \<le> codePointLength tx" "estimateTokens sc (trimEnd (take u tx)) \<le> estimateTokens sc tx"
proof -
  have nj: "\<not> joins (take u tx) (drop u tx)" using assms by (simp add: cp_boundary_def)
  have "codePointLength (take u tx) \<le> codePointLength tx" using codePointLength_append [OF nj] by simp
  then show "codePointLength (trimEnd (take u tx)) \<le> codePointLength tx"
    using codePointLength_trimEnd [of "take u tx"] by linarith
  have "estimateTokens sc (take u tx) \<le> estimateTokens sc tx" using estimateTokens_prefix [OF nj, of sc] by simp
  then show "estimateTokens sc (trimEnd (take u tx)) \<le> estimateTokens sc tx"
    using estimateTokens_trimEnd [of sc "take u tx"] by linarith
qed

lemma pack_plain_run:
  assumes run: "plain_run tx ps" and fit: "int (codePointLength tx) \<le> wb_points b"
    "case wb_tokens b of None \<Rightarrow> True | Some m \<Rightarrow> estimateTokens (tables I) tx \<le> m"
    and m: "m \<le> length ps"
  shows "foldl (pack_passage I (code_point_index tx) ps b) empty_packing [0..<m] =
    \<lparr>pk_windows = [], pk_text = concat (map (passage_text (code_point_index tx)) (take m ps)), pk_ordinals = [0..<m],
     pk_previous = (if m = 0 then None else Some (ps ! (m - 1)))\<rparr>"
  using m
proof (induction m)
  case 0
  then show ?case by (simp add: empty_packing_def)
next
  case (Suc m)
  let ?ix = "code_point_index tx"
  let ?t = "concat (map (passage_text ?ix) (take (Suc m) ps))"
  have t: "?t = concat (map (passage_text ?ix) (take m ps)) @ passage_text ?ix (ps ! m)"
    using Suc.prems by (simp add: take_Suc_conv_app_nth)
  obtain u where u: "cp_boundary tx u" "?t = take u tx" using run Suc.prems unfolding plain_run_def by blast
  have len: "int (codePointLength (trimEnd ?t)) \<le> wb_points b"
    using prefix_within(1) [OF u(1)] fit(1) unfolding u(2) by linarith
  have tok: "case wb_tokens b of None \<Rightarrow> True | Some m \<Rightarrow> estimateTokens (tables I) (trimEnd ?t) \<le> m"
    using prefix_within(2) [OF u(1), of "tables I"] fit(2) unfolding u(2) by (auto split: option.splits)
  have small: "\<not> over_budget I b ?t"
    using len tok by (auto simp: over_budget_def Let_def split: option.splits)
  have p: "p_frame (ps ! m) = []" "p_rows (ps ! m) = None" using run Suc.prems by (auto simp: plain_run_def)
  have "pack_passage I ?ix ps b \<lparr>pk_windows = [], pk_text = concat (map (passage_text ?ix) (take m ps)), pk_ordinals = [0..<m],
     pk_previous = (if m = 0 then None else Some (ps ! (m - 1)))\<rparr> m =
     \<lparr>pk_windows = [], pk_text = ?t, pk_ordinals = [0..<m] @ [m], pk_previous = Some (ps ! m)\<rparr>"
  proof (cases m)
    case 0
    have "p_overlap (ps ! 0) = None" using run Suc.prems 0 by (cases ps) (auto simp: plain_run_def)
    then show ?thesis
      using p len t 0 by (simp add: pack_passage_def Let_def piece_for_def adjacent_to_def candidate_for_def)
  next
    case (Suc k)
    have "p_frame (ps ! k) = []" "snd (p_span (ps ! k)) = fst (p_span (ps ! m))"
      using run Suc Suc.prems by (auto simp: plain_run_def)
    then show ?thesis
      using p small t Suc by (simp add: pack_passage_def Let_def piece_for_def adjacent_to_def candidate_for_def)
  qed
  then show ?case using Suc by simp
qed

lemma wanted_all:
  assumes "\<not> list_ex p_over_cap ps"
  shows "wanted ps (map int [0..<length ps]) = [0..<length ps]"
proof -
  have "distinct (map int [0..<length ps])" by (simp add: distinct_map)
  then have 1: "remdups (map int [0..<length ps]) = map int [0..<length ps]" by (rule distinct_remdups_id)
  have 2: "filter (\<lambda>n. 0 \<le> n \<and> n < int (length ps) \<and> \<not> p_over_cap (ps ! nat n)) (map int [0..<length ps]) = map int [0..<length ps]"
    using assms by (auto simp: filter_id_conv list_ex_iff)
  show ?thesis unfolding wanted_def 1 2 by (simp add: comp_def sorted_sort_id)
qed

lemma sum_span_sizes: "tiles (\<lambda>_. True) a e (map p_span ps) \<Longrightarrow> a + sum_list (map span_size ps) = e"
proof (induction ps arbitrary: a)
  case (Cons p ps)
  then have IH: "snd (p_span p) + sum_list (map span_size ps) = e" using Cons.IH [of "snd (p_span p)"] by simp
  moreover have "span_size p = snd (p_span p) - fst (p_span p)" by (simp add: span_size_def)
  moreover have "fst (p_span p) = a" "a < snd (p_span p)" using Cons.prems by simp_all
  ultimately show ?case by simp
qed simp

lemma subseq_set: "subseq xs ys \<Longrightarrow> set xs \<subseteq> set ys"
  by (auto elim: list_emb_set)

lemma sorted_wrt_subseq: "subseq xs ys \<Longrightarrow> sorted_wrt P ys \<Longrightarrow> sorted_wrt P xs"
proof (induction rule: list_emb.induct)
  case (list_emb_Cons2 x y xs ys)
  then have "set xs \<subseteq> set ys" by (auto dest: subseq_set)
  then show ?case using list_emb_Cons2 by auto
qed simp_all

section \<open>The properties of windows\<close>

text \<open>C22. Every window is within the code-point bound, its recorded length and estimate are those of its text, and only a
  window of a single passage may exceed the token bound. The ordinals of all windows, in order, strictly increase, were
  asked for, exist, and none is over the cap; so no passage is read twice.\<close>

theorem windows_within_budget:
  assumes "0 \<le> wb_points b" "ws = packWindows I tx ps sel b"
  shows "(\<forall>w\<in>set ws. w_code_points w = int (codePointLength (w_text w)) \<and> w_code_points w \<le> wb_points b \<and>
       w_est_tokens w = estimateTokens (tables I) (w_text w) \<and>
       (case wb_tokens b of None \<Rightarrow> True | Some m \<Rightarrow> w_est_tokens w \<le> m \<or> length (w_ordinals w) = 1)) \<and>
    sorted_wrt (<) (concat (map w_ordinals ws)) \<and>
    (\<forall>n\<in>set (concat (map w_ordinals ws)). int n \<in> set sel \<and> n < length ps \<and> \<not> p_over_cap (ps ! n))"
proof -
  note ok = windows_ok [OF assms(1), of I tx ps sel, folded assms(2)]
  have "sorted_wrt (<) (concat (map w_ordinals ws))"
    using sorted_wrt_subseq [OF ok(2) sorted_wanted] .
  moreover have "\<forall>n\<in>set (concat (map w_ordinals ws)). int n \<in> set sel \<and> n < length ps \<and> \<not> p_over_cap (ps ! n)"
    using subseq_set [OF ok(2)] wanted_mem [of _ ps sel] by blast
  moreover have "w_code_points w = int (codePointLength (w_text w)) \<and> w_code_points w \<le> wb_points b \<and>
       w_est_tokens w = estimateTokens (tables I) (w_text w) \<and>
       (case wb_tokens b of None \<Rightarrow> True | Some m \<Rightarrow> w_est_tokens w \<le> m \<or> length (w_ordinals w) = 1)" if "w \<in> set ws" for w
  proof -
    have w: "window_ok I b w" using ok(1) that by (simp add: list_all_iff)
    then have "1 < length (w_ordinals w) \<or> length (w_ordinals w) = 1"
      unfolding window_ok_def by (cases "w_ordinals w") auto
    with w show ?thesis by (auto simp: window_ok_def split: option.splits)
  qed
  ultimately show ?thesis by blast
qed

text \<open>An item that fits the code-point bound, cut into passages none of which is over the cap, is packed into the one
  window that holds the item itself without its trailing white space, with every passage counted as read.\<close>

theorem whole_item_is_one_window:
  assumes "segmenter_ok I" "chunk I sha tx [] = Inr ps" "tx \<noteq> []" "\<not> list_ex p_over_cap ps"
    and "int (codePointLength tx) \<le> wb_points b"
  shows "\<exists>w. singleWindow I tx ps b = Some w \<and> w_text w = trimEnd tx \<and> w_ordinals w = [0..<length ps] \<and>
    cv_complete (computeCoverage ps (w_ordinals w)) \<and> cv_points_read (computeCoverage ps (w_ordinals w)) = codePointLength tx"
proof -
  let ?b = "\<lparr>wb_points = wb_points b, wb_tokens = None\<rparr>"
  have part: "concat (map (passage_text (code_point_index tx)) ps) = tx" "map p_ordinal ps = [0..<length ps]"
    "tiles (\<lambda>_. True) 0 (codePointLength tx) (map p_span ps)"
    using chunk_facts [OF assms(1,2)] by auto
  have ne: "ps \<noteq> []" using chunk_not_empty [OF assms(1,2,3)] .
  have ords: "map (\<lambda>p. int (p_ordinal p)) ps = map int [0..<length ps]"
    unfolding part(2) [symmetric] by simp
  have "packWindows I tx ps (map int [0..<length ps]) ?b =
      [\<lparr>w_text = trimEnd tx, w_ordinals = [0..<length ps], w_code_points = int (codePointLength (trimEnd tx)),
        w_est_tokens = estimateTokens (tables I) (trimEnd tx)\<rparr>]"
    unfolding packWindows_def wanted_all [OF assms(4)]
    using pack_plain_run [OF chunk_plain_run [OF assms(1,2,3)], of ?b I "length ps"] assms(5) ne part(1)
    by (simp add: close_window_def Let_def)
  moreover have read: "filter (\<lambda>p. p_ordinal p < length ps \<and> \<not> p_over_cap p) ps = ps"
  proof -
    have "p_ordinal p < length ps" if "p \<in> set ps" for p
    proof -
      have "p_ordinal p \<in> set (map p_ordinal ps)" using that by simp
      then show ?thesis unfolding part(2) by simp
    qed
    then show ?thesis using assms(4) by (auto simp: filter_id_conv list_ex_iff)
  qed
  moreover have "sum_list (map span_size ps) = codePointLength tx"
    using sum_span_sizes [OF part(3)] by simp
  ultimately show ?thesis
    using assms(4) unfolding singleWindow_def ords computeCoverage_def Let_def by (simp add: read)
qed

lemma search_total: "\<exists>sel. selectStratified I tx ps maxWindows b = Some sel"
proof -
  obtain r where "while_option (\<lambda>(best, low, high). low \<le> high)
      (search_step (packs_into I tx ps maxWindows b) (length ps)) ([0], Suc 0, length ps - 1) = Some r"
    using search_ends by blast
  then show ?thesis by (simp add: selectStratified_def Let_def)
qed

text \<open>C23. The stratified selection always ends.\<close>

theorem selectStratified_terminates: "\<exists>sel. selectStratified I tx ps maxWindows b = Some sel"
  by (rule search_total)

text \<open>With at least one passage and one window, the selection is an even one: strictly increasing positions with the first
  passage among them, and the last one too when there are two or more; it packs into the windows allowed; and it is
  everything, or the even selection with one position more does not pack.\<close>

theorem stratified_selection_fits:
  assumes "ps \<noteq> []" "1 \<le> maxWindows" "0 \<le> wb_points b" "selectStratified I tx ps maxWindows b = Some sel"
  shows "int (length (packWindows I tx ps (map int sel) b)) \<le> maxWindows \<and>
    sorted_wrt (<) sel \<and> hd sel = 0 \<and> (\<forall>n\<in>set sel. n < length ps) \<and> (2 \<le> length sel \<longrightarrow> last sel = length ps - 1) \<and>
    sel = evenly (length ps) (length sel) \<and>
    (length sel = length ps \<or> \<not> packs_into I tx ps maxWindows b (evenly (length ps) (length sel + 1)))"
proof -
  let ?fits = "packs_into I tx ps maxWindows b" and ?n = "length ps"
  have n: "0 < ?n" using assms(1) by simp
  have "\<exists>k. 1 \<le> k \<and> k \<le> ?n \<and> sel = evenly ?n k \<and> ?fits sel \<and> (k = ?n \<or> \<not> ?fits (evenly ?n (k + 1)))"
  proof (cases "?fits (evenly ?n ?n)")
    case True
    then show ?thesis using assms n by (intro exI [of _ ?n]) (auto simp: selectStratified_def Let_def Suc_le_eq)
  next
    case False
    then obtain r where r: "while_option (\<lambda>(best, low, high). low \<le> high) (search_step ?fits ?n) ([0], 1, ?n - 1) = Some r" "sel = fst r"
      using assms n by (auto simp: selectStratified_def Let_def)
    have one: "evenly ?n 1 = [0]" using n evenly_spaced(2,3) [of 1 ?n] by (cases "evenly ?n 1") (auto simp: Suc_le_eq)
    have "search_inv ?fits ?n ([0], 1, ?n - 1)"
      using False n fits_one [OF assms(3,2) n, of I tx ps] one by (auto simp: search_inv_def)
    from search_result [OF this r(1) fits_one [OF assms(3,2) n]] show ?thesis using r(2) by (auto intro: less_imp_le)
  qed
  then obtain k where k: "1 \<le> k" "k \<le> ?n" "sel = evenly ?n k" "?fits sel" "k = ?n \<or> \<not> ?fits (evenly ?n (k + 1))" by blast
  note e = evenly_spaced [OF k(1,2)]
  show ?thesis
    using k e by (auto simp: packs_into_def)
qed

section \<open>Witnesses\<close>

lemma demo_length: "codePointLength demo_item = 6" "demo_item \<noteq> []"
  by (simp_all add: demo_item_def is_high_surrogate_def is_low_surrogate_def)

lemma demo_passages:
  obtains ps where "chunk plain_engine (\<lambda>s. []) demo_item [] = Inr ps" "\<not> list_ex p_over_cap ps" "ps \<noteq> []"
proof -
  obtain ps where ps: "chunk plain_engine (\<lambda>s. []) demo_item [] = Inr ps" using chunk_without_sections by blast
  have "\<not> p_over_cap p" if "p \<in> set ps" for p
  proof -
    have "snd (p_span p) \<le> 6"
      using chunk_facts [OF plain_engine_ok ps] tiles_member [of "\<lambda>_. True" 0 6 "map p_span ps" "p_span p"] that demo_length
      by auto
    then show ?thesis using over_cap_iff [OF plain_engine_ok ps that] by (simp add: bound_simps)
  qed
  then show ?thesis using that [OF ps] chunk_not_empty [OF plain_engine_ok ps demo_length(2)] by (auto simp: list_ex_iff)
qed

theorem whole_item_is_one_window_witness:
  "\<exists>ps w. chunk plain_engine (\<lambda>s. []) demo_item [] = Inr ps \<and>
     singleWindow plain_engine demo_item ps DEFAULT_WINDOW_BUDGET = Some w \<and> w_text w = trimEnd demo_item"
proof -
  obtain ps where ps: "chunk plain_engine (\<lambda>s. []) demo_item [] = Inr ps" "\<not> list_ex p_over_cap ps" by (rule demo_passages)
  then show ?thesis
    using whole_item_is_one_window [OF plain_engine_ok ps(1) demo_length(2) ps(2), of DEFAULT_WINDOW_BUDGET] demo_length
    by (auto simp: DEFAULT_WINDOW_BUDGET_def)
qed

theorem windows_within_budget_witness:
  "\<exists>ps. chunk plain_engine (\<lambda>s. []) demo_item [] = Inr ps \<and> ps \<noteq> [] \<and>
     (\<forall>w\<in>set (packWindows plain_engine demo_item ps [0, -1, 0, 7] DEFAULT_WINDOW_BUDGET). w_code_points w \<le> 3000) \<and>
     sorted_wrt (<) (concat (map w_ordinals (packWindows plain_engine demo_item ps [0, -1, 0, 7] DEFAULT_WINDOW_BUDGET)))"
proof -
  obtain ps where ps: "chunk plain_engine (\<lambda>s. []) demo_item [] = Inr ps" "\<not> list_ex p_over_cap ps" "ps \<noteq> []" by (rule demo_passages)
  have b: "0 \<le> wb_points DEFAULT_WINDOW_BUDGET" "wb_points DEFAULT_WINDOW_BUDGET = 3000" by (simp_all add: DEFAULT_WINDOW_BUDGET_def)
  show ?thesis
    using windows_within_budget [OF b(1) refl, where I = plain_engine and tx = demo_item and ps = ps and sel = "[0, -1, 0, 7]"] ps b(2)
    by (intro exI [of _ ps]) auto
qed

theorem stratified_selection_fits_witness:
  "\<exists>ps sel. chunk plain_engine (\<lambda>s. []) demo_item [] = Inr ps \<and>
     selectStratified plain_engine demo_item ps 1 DEFAULT_WINDOW_BUDGET = Some sel \<and> hd sel = 0 \<and>
     length (packWindows plain_engine demo_item ps (map int sel) DEFAULT_WINDOW_BUDGET) \<le> 1"
proof -
  obtain ps where ps: "chunk plain_engine (\<lambda>s. []) demo_item [] = Inr ps" "ps \<noteq> []" by (rule demo_passages)
  have one: "(1::int) \<le> 1" and b: "0 \<le> wb_points DEFAULT_WINDOW_BUDGET" by (simp_all add: DEFAULT_WINDOW_BUDGET_def)
  obtain sel where sel: "selectStratified plain_engine demo_item ps 1 DEFAULT_WINDOW_BUDGET = Some sel"
    using search_total by blast
  show ?thesis
    using stratified_selection_fits [OF ps(2) one b sel] ps sel by (intro exI [of _ ps] exI [of _ sel]) auto
qed

section \<open>The selection is not always the largest\<close>

text \<open>
  Packing is not monotone in the number of positions: of five passages of which only the middle one is long, positions
  0, 1, 3, 4 pack into one window and positions 0, 2, 4 do not, so the search settles for 0 and 4.
\<close>

definition five_passage :: "nat \<Rightarrow> nat \<Rightarrow> nat \<Rightarrow> passage" where
  "five_passage n a b = \<lparr>p_ordinal = n, p_total = 5, p_frame = [], p_kind = Prose, p_span = (a, b), p_overlap = None,
     p_rows = None, p_over_cap = False, p_est_tokens = 0, p_hash = []\<rparr>"

definition five_passages :: "passage list" where
  "five_passages = [five_passage 0 0 1, five_passage 1 1 2, five_passage 2 2 10, five_passage 3 10 11, five_passage 4 11 12]"

definition five_text :: js_string where
  "five_text = [0x61, 0x61, 0x61, 0x61, 0x61, 0x61, 0x61, 0x61, 0x61, 0x61, 0x61, 0x61]"

text \<open>Passages with no frame, no rows and no overlap: the steps of the packer on them.\<close>

definition bare_passage :: "passage \<Rightarrow> bool" where
  "bare_passage p \<longleftrightarrow> p_frame p = [] \<and> p_rows p = None \<and> p_overlap p = None"

definition joined :: "packing \<Rightarrow> passage \<Rightarrow> passage \<Rightarrow> js_string \<Rightarrow> js_string" where
  "joined k q p t = (if snd (p_span q) = fst (p_span p) then pk_text k @ t else trimEnd (pk_text k) @ [NL] @ WINDOW_GAP_MARKER @ [NL] @ t)"

lemma pack_bare_first:
  assumes "pk_ordinals k = []" "pk_previous k = None" "bare_passage (ps ! n)"
    "int (codePointLength (trimEnd (passage_text ix (ps ! n)))) \<le> wb_points b"
  shows "pack_passage I ix ps b k n = k\<lparr>pk_text := passage_text ix (ps ! n), pk_ordinals := [n], pk_previous := Some (ps ! n)\<rparr>"
  using assms by (simp add: pack_passage_def Let_def piece_for_def adjacent_to_def candidate_for_def bare_passage_def)

lemma pack_bare_next:
  assumes "pk_ordinals k \<noteq> []" "pk_previous k = Some q" "bare_passage q" "bare_passage (ps ! n)"
    "\<not> over_budget I b (joined k q (ps ! n) (passage_text ix (ps ! n)))"
  shows "pack_passage I ix ps b k n = k\<lparr>pk_text := joined k q (ps ! n) (passage_text ix (ps ! n)),
    pk_ordinals := pk_ordinals k @ [n], pk_previous := Some (ps ! n)\<rparr>"
  using assms
  by (simp add: pack_passage_def Let_def piece_for_def adjacent_to_def candidate_for_def bare_passage_def joined_def split: if_splits)

lemma pack_bare_split:
  assumes "pk_ordinals k \<noteq> []" "pk_previous k = Some q" "bare_passage q" "bare_passage (ps ! n)"
    "over_budget I b (joined k q (ps ! n) (passage_text ix (ps ! n)))"
    "int (codePointLength (trimEnd (passage_text ix (ps ! n)))) \<le> wb_points b"
  shows "pack_passage I ix ps b k n = (close_window I k)\<lparr>pk_text := passage_text ix (ps ! n),
    pk_ordinals := [n], pk_previous := Some (ps ! n)\<rparr>"
  using assms
  by (simp add: pack_passage_def Let_def piece_for_def adjacent_to_def candidate_for_def bare_passage_def joined_def close_window_def split: if_splits)

definition five_budget :: window_budget where
  "five_budget = \<lparr>wb_points = 11, wb_tokens = None\<rparr>"

text \<open>Five passages, the middle one long, in a window of eleven code points.\<close>

lemma five_index: "code_point_index five_text = \<lparr>ix_text = five_text, ix_length = 12, ix_units = None, ix_points = None\<rparr>"
  by (simp add: code_point_index_def five_text_def is_high_surrogate_def)

lemma five_texts:
  "passage_text (code_point_index five_text) (five_passage n a b) = slice five_text a b"
  by (simp add: passage_text_def slice_points_def toUnit_def five_index five_passage_def)

lemma five_nth: "five_passages ! 0 = five_passage 0 0 1" "five_passages ! Suc 0 = five_passage 1 1 2" "five_passages ! 2 = five_passage 2 2 10"
  "five_passages ! 3 = five_passage 3 10 11" "five_passages ! 4 = five_passage 4 11 12" "length five_passages = 5"
  by (simp_all add: five_passages_def)

lemma bare_five [simp]: "bare_passage (five_passage n a b)"
  by (simp add: bare_passage_def five_passage_def)

lemma five_slices: "slice five_text 0 1 = [0x61]" "slice five_text 1 2 = [0x61]" "slice five_text 2 10 = [0x61, 0x61, 0x61, 0x61, 0x61, 0x61, 0x61, 0x61]"
  "slice five_text 10 11 = [0x61]" "slice five_text 11 12 = [0x61]" "slice five_text 0 (Suc 0) = [0x61]" "slice five_text (Suc 0) 2 = [0x61]"
  by (simp_all add: slice_def five_text_def numeral_eq_Suc)

lemma wanted_five: "wanted five_passages [0, 4] = [0, 4]" "wanted five_passages [0, 2, 4] = [0, 2, 4]" "wanted five_passages [0, 1, 3, 4] = [0, 1, 3, 4]"
  "wanted five_passages [0, 1, 2, 3, 4] = [0, 1, 2, 3, 4]"
  by (simp_all add: wanted_def five_passages_def five_passage_def)

lemma five_not_white: "\<not> js_whitespace 0x61" "\<not> js_whitespace 0x5D" by (simp_all add: js_whitespace_def)

lemma five_marker: "WINDOW_GAP_MARKER = [0x5B, 0x2E, 0x2E, 0x2E, 0x5D]" by (simp add: WINDOW_GAP_MARKER_def js_def)

lemma cpl_plain: "list_all (\<lambda>u. \<not> is_high_surrogate u) s \<Longrightarrow> codePointLength s = length s"
  by (intro codePointLength_plain) (auto simp: list_all_iff list_ex_iff)

lemma five_plain: "\<not> is_high_surrogate 0x61" "\<not> is_high_surrogate 0x5B" "\<not> is_high_surrogate 0x2E" "\<not> is_high_surrogate 0x5D" "\<not> is_high_surrogate NL"
  by (simp_all add: is_high_surrogate_def NL_def)

lemma over_five: "trimEnd s = s \<Longrightarrow> list_all (\<lambda>u. \<not> is_high_surrogate u) s \<Longrightarrow> over_budget I five_budget s \<longleftrightarrow> 11 < length s"
  by (simp add: over_budget_def five_budget_def cpl_plain)

lemma five_span [simp]: "p_span (five_passage n a b) = (a, b)" by (simp add: five_passage_def)

lemma trimEnd_id: "s \<noteq> [] \<Longrightarrow> \<not> js_whitespace (last s) \<Longrightarrow> trimEnd s = s"
  by (cases s rule: rev_cases) (simp_all add: trimEnd_def)

lemma five_bound: "wb_points five_budget = 11" by (simp add: five_budget_def)

lemmas five_eval = five_nth five_texts five_slices joined_def five_marker five_plain five_not_white over_five trimEnd_id cpl_plain five_bound
  packWindows_def wanted_five empty_packing_def pack_bare_first pack_bare_next pack_bare_split close_window_def

lemma five_1: "length (packWindows I five_text five_passages [0, 4] five_budget) = 1"
  by (simp add: five_eval)

lemma five_2: "length (packWindows I five_text five_passages [0, 1, 3, 4] five_budget) = 1"
  by (simp add: five_eval)

lemma five_3: "length (packWindows I five_text five_passages [0, 2, 4] five_budget) = 3"
  by (simp add: five_eval)

lemma five_4: "length (packWindows I five_text five_passages [0, 1, 2, 3, 4] five_budget) = 2"
  by (simp add: five_eval)

lemma five_even: "evenly 5 2 = [0, 4]" "evenly 5 3 = [0, 2, 4]" "evenly 5 4 = [0, 1, 3, 4]" "evenly 5 5 = [0, 1, 2, 3, 4]"
  by code_simp+

lemma selection_not_largest:
  "selectStratified I five_text five_passages 1 five_budget = Some [0, 4] \<and>
   packs_into I five_text five_passages 1 five_budget (evenly 5 4) \<and> length (evenly 5 4) = 4"
  by (simp add: selectStratified_def five_nth packs_into_def five_even five_1 five_2 five_3 five_4 while_option_unfold search_step_def)

end
