(* ===== verification/Agent_Budget.thy ===== *)
theory Agent_Budget
  imports Complex_Main
begin

text \<open>
  The run budget of the bounded read agent: \<open>packages/core/src/application/agent/run-bounds.ts\<close>. The clock is an
  argument of every operation that reads it; token counts are rationals (a \<open>NaN\<close> is not modelled). The bounds are the
  ratified ones unless a test overrides them.
\<close>

section \<open>State\<close>

record agent_bounds =
  maxSteps :: int
  maxReplans :: int
  maxConnectorQueries :: int
  maxHttpRequests :: int
  maxModelCalls :: int
  maxM2Calls :: int
  wallMs :: int
  maxInputTokens :: int
  maxRefValues :: int

definition AGENT_RUN_BOUNDS :: agent_bounds where
  "AGENT_RUN_BOUNDS = \<lparr>maxSteps = 6, maxReplans = 1, maxConnectorQueries = 10, maxHttpRequests = 50, maxModelCalls = 5,
     maxM2Calls = 3, wallMs = 45000, maxInputTokens = 40000, maxRefValues = 10\<rparr>"

datatype bound_kind =
  B_steps | B_replans | B_connector_queries | B_http_requests | B_model_calls | B_m2_calls | B_wall_time | B_input_tokens | B_ref_values

datatype model_call = Planner | Replan | M2

record agent_usage =
  steps :: int
  replans :: int
  connectorQueries :: int
  httpRequests :: int
  modelCalls :: int
  m2Calls :: int
  inputTokens :: int
  refValues :: int

record run_budget =
  rb_bounds :: agent_bounds
  rb_started :: int
  rb_breach :: "bound_kind option"
  rb_usage :: agent_usage

definition new_run_budget :: "agent_bounds \<Rightarrow> int \<Rightarrow> run_budget" where
  "new_run_budget bs now = \<lparr>rb_bounds = bs, rb_started = now, rb_breach = None,
     rb_usage = \<lparr>steps = 0, replans = 0, connectorQueries = 0, httpRequests = 0, modelCalls = 0, m2Calls = 0, inputTokens = 0,
       refValues = 0\<rparr>\<rparr>"

section \<open>Operations\<close>

text \<open>The first breach wins.\<close>

definition fail_bound :: "bound_kind \<Rightarrow> run_budget \<Rightarrow> run_budget" where
  "fail_bound k r = (if rb_breach r = None then r\<lparr>rb_breach := Some k\<rparr> else r)"

definition elapsedMs :: "int \<Rightarrow> run_budget \<Rightarrow> int" where
  "elapsedMs now r = max 0 (now - rb_started r)"

definition remainingMs :: "int \<Rightarrow> run_budget \<Rightarrow> int" where
  "remainingMs now r = max 0 (wallMs (rb_bounds r) - elapsedMs now r)"

definition checkWall :: "int \<Rightarrow> run_budget \<Rightarrow> run_budget \<times> bool" where
  "checkWall now r =
     (if elapsedMs now r \<ge> wallMs (rb_bounds r) then (fail_bound B_wall_time r, False) else (r, rb_breach r = None))"

definition remainingInputTokens :: "run_budget \<Rightarrow> int" where
  "remainingInputTokens r = max 0 (maxInputTokens (rb_bounds r) - inputTokens (rb_usage r))"

definition nonNegative :: "rat \<Rightarrow> int" where
  "nonNegative v = (if v > 0 then \<lfloor>v\<rfloor> else 0)"

text \<open>What \<open>if (!this.checkWall()) return false;\<close> does before the rest.\<close>

definition walled :: "int \<Rightarrow> (run_budget \<Rightarrow> run_budget \<times> bool) \<Rightarrow> run_budget \<Rightarrow> run_budget \<times> bool" where
  "walled now f r = (let (r1, fine) = checkWall now r in if \<not> fine then (r1, False) else f r1)"

definition reserveStep :: "int \<Rightarrow> run_budget \<Rightarrow> run_budget \<times> bool" where
  "reserveStep now = walled now (\<lambda>r.
     if steps (rb_usage r) \<ge> maxSteps (rb_bounds r) then (fail_bound B_steps r, False)
     else (r\<lparr>rb_usage := (rb_usage r)\<lparr>steps := steps (rb_usage r) + 1\<rparr>\<rparr>, True))"

definition mayReadConnector :: "int \<Rightarrow> run_budget \<Rightarrow> run_budget \<times> bool" where
  "mayReadConnector now = walled now (\<lambda>r.
     if connectorQueries (rb_usage r) \<ge> maxConnectorQueries (rb_bounds r) then (fail_bound B_connector_queries r, False)
     else if httpRequests (rb_usage r) \<ge> maxHttpRequests (rb_bounds r) then (fail_bound B_http_requests r, False)
     else (r, True))"

definition reserveQuery :: "int \<Rightarrow> run_budget \<Rightarrow> run_budget \<times> bool" where
  "reserveQuery now = walled now (\<lambda>r.
     if connectorQueries (rb_usage r) \<ge> maxConnectorQueries (rb_bounds r) then (fail_bound B_connector_queries r, False)
     else (r\<lparr>rb_usage := (rb_usage r)\<lparr>connectorQueries := connectorQueries (rb_usage r) + 1\<rparr>\<rparr>, True))"

definition reserveHttp :: "int \<Rightarrow> run_budget \<Rightarrow> run_budget \<times> bool" where
  "reserveHttp now = walled now (\<lambda>r.
     if httpRequests (rb_usage r) \<ge> maxHttpRequests (rb_bounds r) then (fail_bound B_http_requests r, False)
     else (r\<lparr>rb_usage := (rb_usage r)\<lparr>httpRequests := httpRequests (rb_usage r) + 1\<rparr>\<rparr>, True))"

definition reserveRefValues :: "int \<Rightarrow> run_budget \<Rightarrow> run_budget \<times> bool" where
  "reserveRefValues count r =
     (if rb_breach r \<noteq> None then (r, False)
      else if refValues (rb_usage r) + count > maxRefValues (rb_bounds r) then (fail_bound B_ref_values r, False)
      else (r\<lparr>rb_usage := (rb_usage r)\<lparr>refValues := refValues (rb_usage r) + count\<rparr>\<rparr>, True))"

definition reserveModelCall :: "int \<Rightarrow> model_call \<Rightarrow> run_budget \<Rightarrow> run_budget \<times> bool" where
  "reserveModelCall now kind = walled now (\<lambda>r. let u = rb_usage r; b = rb_bounds r in
     if modelCalls u \<ge> maxModelCalls b then (fail_bound B_model_calls r, False)
     else if kind = Replan \<and> replans u \<ge> maxReplans b then (fail_bound B_replans r, False)
     else if kind = M2 \<and> m2Calls u \<ge> maxM2Calls b then (fail_bound B_m2_calls r, False)
     else (r\<lparr>rb_usage := u\<lparr>modelCalls := modelCalls u + 1, replans := (if kind = Replan then replans u + 1 else replans u),
         m2Calls := (if kind = M2 then m2Calls u + 1 else m2Calls u)\<rparr>\<rparr>, True))"

definition reserveInputTokens :: "rat \<Rightarrow> run_budget \<Rightarrow> run_budget \<times> bool" where
  "reserveInputTokens tokens r =
     (if rb_breach r \<noteq> None then (r, False)
      else if of_int (inputTokens (rb_usage r)) + tokens > of_int (maxInputTokens (rb_bounds r)) then (fail_bound B_input_tokens r, False)
      else (r\<lparr>rb_usage := (rb_usage r)\<lparr>inputTokens := inputTokens (rb_usage r) + nonNegative tokens\<rparr>\<rparr>, True))"

definition markBreach :: "bound_kind \<Rightarrow> run_budget \<Rightarrow> run_budget" where
  "markBreach k r = fail_bound k r"

text \<open>The calls of a run, each with the clock reading of its time.\<close>

datatype run_call =
  Check_wall | Reserve_step | May_read | Reserve_query | Reserve_http | Reserve_ref_values int | Reserve_model_call model_call
  | Reserve_input_tokens rat | Mark_breach bound_kind

fun budget_call :: "int \<Rightarrow> run_call \<Rightarrow> run_budget \<Rightarrow> run_budget \<times> bool" where
  "budget_call now Check_wall r = checkWall now r"
| "budget_call now Reserve_step r = reserveStep now r"
| "budget_call now May_read r = mayReadConnector now r"
| "budget_call now Reserve_query r = reserveQuery now r"
| "budget_call now Reserve_http r = reserveHttp now r"
| "budget_call now (Reserve_ref_values n) r = reserveRefValues n r"
| "budget_call now (Reserve_model_call k) r = reserveModelCall now k r"
| "budget_call now (Reserve_input_tokens n) r = reserveInputTokens n r"
| "budget_call now (Mark_breach k) r = (markBreach k r, False)"

text \<open>The state after the calls, and what each call answered.\<close>

fun budget_run :: "(int \<times> run_call) list \<Rightarrow> run_budget \<Rightarrow> run_budget \<times> bool list" where
  "budget_run [] r = (r, [])"
| "budget_run ((now, c) # cs) r = (let (r1, a) = budget_call now c r; (r2, as) = budget_run cs r1 in (r2, a # as))"

section \<open>Lemmas\<close>

lemmas budget_defs = fail_bound_def checkWall_def walled_def reserveStep_def mayReadConnector_def reserveQuery_def reserveHttp_def
  reserveRefValues_def reserveModelCall_def reserveInputTokens_def markBreach_def Let_def

definition within_bounds :: "run_budget \<Rightarrow> bool" where
  "within_bounds r \<longleftrightarrow> (let u = rb_usage r; b = rb_bounds r in
     steps u \<le> maxSteps b \<and> replans u \<le> maxReplans b \<and> connectorQueries u \<le> maxConnectorQueries b \<and>
     httpRequests u \<le> maxHttpRequests b \<and> modelCalls u \<le> maxModelCalls b \<and> m2Calls u \<le> maxM2Calls b \<and>
     inputTokens u \<le> maxInputTokens b \<and> refValues u \<le> maxRefValues b)"

lemma tokens_fit:
  assumes "\<not> of_int used + v > (of_int m :: rat)" "used \<le> m"
  shows "used + nonNegative v \<le> m"
proof (cases "v > 0")
  case True
  have "of_int used + of_int \<lfloor>v\<rfloor> \<le> (of_int m :: rat)" using assms(1) of_int_floor_le [of v] by linarith
  then have "of_int (used + \<lfloor>v\<rfloor>) \<le> (of_int m :: rat)" by (simp only: of_int_add)
  then have "used + \<lfloor>v\<rfloor> \<le> m" by (simp only: of_int_le_iff)
  then show ?thesis using True by (simp add: nonNegative_def)
qed (use assms in \<open>simp add: nonNegative_def\<close>)

lemma budget_call_within:
  assumes "within_bounds r"
  shows "within_bounds (fst (budget_call now c r))"
  using assms tokens_fit by (cases c) (auto simp: budget_defs within_bounds_def)

lemma budget_call_bounds [simp]: "rb_bounds (fst (budget_call now c r)) = rb_bounds r" "rb_started (fst (budget_call now c r)) = rb_started r"
  by (cases c; simp add: budget_defs)+

lemma budget_call_breach:
  assumes "rb_breach r = Some k"
  shows "fst (budget_call now c r) = r \<and> \<not> snd (budget_call now c r)"
  using assms by (cases c) (auto simp: budget_defs)

text \<open>What an accepted call means.\<close>

definition clocked :: "run_call \<Rightarrow> bool" where
  "clocked c \<longleftrightarrow> c \<in> {Check_wall, Reserve_step, May_read, Reserve_query, Reserve_http} \<or> (\<exists>k. c = Reserve_model_call k)"

lemma accepted_in_time: "snd (budget_call now c r) \<Longrightarrow> clocked c \<Longrightarrow> elapsedMs now r < wallMs (rb_bounds r)"
  by (auto simp: clocked_def budget_defs split: if_splits)

lemma counted_query:
  "connectorQueries (rb_usage (fst (budget_call now c r))) = connectorQueries (rb_usage r) + (if c = Reserve_query \<and> snd (budget_call now c r) then 1 else 0)"
  "httpRequests (rb_usage (fst (budget_call now c r))) = httpRequests (rb_usage r) + (if c = Reserve_http \<and> snd (budget_call now c r) then 1 else 0)"
  "steps (rb_usage (fst (budget_call now c r))) = steps (rb_usage r) + (if c = Reserve_step \<and> snd (budget_call now c r) then 1 else 0)"
  by (cases c; auto simp: budget_defs)+

lemma counted_model_calls:
  "modelCalls (rb_usage (fst (budget_call now c r))) = modelCalls (rb_usage r) + (if (\<exists>k. c = Reserve_model_call k) \<and> snd (budget_call now c r) then 1 else 0)"
  "m2Calls (rb_usage (fst (budget_call now c r))) = m2Calls (rb_usage r) + (if c = Reserve_model_call M2 \<and> snd (budget_call now c r) then 1 else 0)"
  by (cases c; auto simp: budget_defs)+

text \<open>How often calls of one kind were answered yes.\<close>

definition accepted :: "(run_call \<Rightarrow> bool) \<Rightarrow> (int \<times> run_call) list \<Rightarrow> bool list \<Rightarrow> int" where
  "accepted is_kind cs as = int (length (filter (\<lambda>(c, a). is_kind (snd c) \<and> a) (zip cs as)))"

lemma accepted_Cons: "accepted f (c # cs) (a # as) = (if f (snd c) \<and> a then 1 else 0) + accepted f cs as"
  by (simp add: accepted_def)

lemma accepted_Nil [simp]: "accepted f [] as = 0"
  by (simp add: accepted_def)

lemma budget_run_counts:
  assumes "budget_run cs r = (r', as)"
  shows "rb_bounds r' = rb_bounds r \<and> rb_started r' = rb_started r \<and> length as = length cs \<and> (within_bounds r \<longrightarrow> within_bounds r') \<and>
    connectorQueries (rb_usage r') = connectorQueries (rb_usage r) + accepted (\<lambda>c. c = Reserve_query) cs as \<and>
    httpRequests (rb_usage r') = httpRequests (rb_usage r) + accepted (\<lambda>c. c = Reserve_http) cs as \<and>
    steps (rb_usage r') = steps (rb_usage r) + accepted (\<lambda>c. c = Reserve_step) cs as \<and>
    modelCalls (rb_usage r') = modelCalls (rb_usage r) + accepted (\<lambda>c. \<exists>k. c = Reserve_model_call k) cs as \<and>
    m2Calls (rb_usage r') = m2Calls (rb_usage r) + accepted (\<lambda>c. c = Reserve_model_call M2) cs as"
  using assms
proof (induction cs arbitrary: r r' as)
  case (Cons x cs)
  obtain now c where x: "x = (now, c)" by (cases x)
  obtain r2 bs where run: "budget_run cs (fst (budget_call now c r)) = (r2, bs)" by (cases "budget_run cs (fst (budget_call now c r))")
  have eq: "r' = r2" "as = snd (budget_call now c r) # bs"
    using Cons.prems run unfolding x by (auto simp: case_prod_beta Let_def)
  show ?case
    using Cons.IH [OF run] budget_call_within [of r now c] unfolding eq x
    by (simp add: accepted_Cons counted_query counted_model_calls)
qed simp

lemma budget_run_stopped:
  assumes "rb_breach r = Some k" "budget_run cs r = (r', as)"
  shows "r' = r \<and> True \<notin> set as"
  using assms
proof (induction cs arbitrary: r' as)
  case (Cons x cs)
  obtain now c where x: "x = (now, c)" by (cases x)
  have c: "budget_call now c r = (r, False)" using budget_call_breach [OF Cons.prems(1), of now c] by (simp add: prod_eq_iff)
  obtain r2 bs where run: "budget_run cs r = (r2, bs)" by (cases "budget_run cs r")
  then show ?case using Cons x c by auto
qed simp

lemma budget_run_append: "budget_run (xs @ ys) r = (let (r1, as) = budget_run xs r; (r2, bs) = budget_run ys r1 in (r2, as @ bs))"
  by (induction xs arbitrary: r) (auto simp: case_prod_beta Let_def)

section \<open>The properties of a run\<close>

text \<open>C24. Whatever a run asks for, and whenever: the queries, HTTP requests, steps and model calls that were allowed to start
  are at most what the bounds say, and so are the tokens and the referenced values counted.\<close>

theorem run_work_bounded:
  assumes "budget_run cs (new_run_budget AGENT_RUN_BOUNDS t0) = (r, as)"
  shows "accepted (\<lambda>c. c = Reserve_query) cs as \<le> 10 \<and> accepted (\<lambda>c. c = Reserve_http) cs as \<le> 50 \<and>
    accepted (\<lambda>c. c = Reserve_step) cs as \<le> 6 \<and> accepted (\<lambda>c. \<exists>k. c = Reserve_model_call k) cs as \<le> 5 \<and>
    accepted (\<lambda>c. c = Reserve_model_call M2) cs as \<le> 3 \<and> replans (rb_usage r) \<le> 1 \<and>
    inputTokens (rb_usage r) \<le> 40000 \<and> refValues (rb_usage r) \<le> 10"
proof -
  have "within_bounds (new_run_budget AGENT_RUN_BOUNDS t0)"
    by (simp add: within_bounds_def new_run_budget_def AGENT_RUN_BOUNDS_def)
  then show ?thesis
    using budget_run_counts [OF assms]
    by (auto simp: within_bounds_def Let_def new_run_budget_def AGENT_RUN_BOUNDS_def)
qed

text \<open>Once a bound is breached nothing starts again: the state, with its first breach, stays the same and every later
  call is refused; and a call that the wall clock guards is never allowed at or after the wall.\<close>

theorem first_breach_is_final:
  assumes "budget_run (xs @ [(now, c)] @ ys) (new_run_budget bs t0) = (r, as)"
    and "budget_run xs (new_run_budget bs t0) = (r1, as1)"
  shows "(rb_breach r1 \<noteq> None \<longrightarrow> r = r1 \<and> True \<notin> set (drop (length xs) as)) \<and>
    (as ! length xs \<and> clocked c \<longrightarrow> now - t0 < wallMs bs \<and> rb_breach r1 = None)"
proof -
  let ?z = "new_run_budget bs t0"
  obtain r2 as2 where rest: "budget_run ((now, c) # ys) r1 = (r2, as2)" by (cases "budget_run ((now, c) # ys) r1")
  have all: "r = r2" "as = as1 @ as2"
    using assms rest unfolding append_Cons append_Nil budget_run_append [of xs] by simp_all
  note counts = budget_run_counts [OF assms(2)]
  have len: "length as1 = length xs" using counts by blast
  have hd: "as2 = snd (budget_call now c r1) # snd (budget_run ys (fst (budget_call now c r1)))"
    using rest by (auto simp: case_prod_beta Let_def)
  have "rb_breach r1 \<noteq> None \<Longrightarrow> r = r1 \<and> True \<notin> set (drop (length xs) as)"
    using budget_run_stopped [OF _ rest] len unfolding all by auto
  moreover have "now - t0 < wallMs bs \<and> rb_breach r1 = None" if "as ! length xs" "clocked c"
  proof -
    have yes: "snd (budget_call now c r1)" using that(1) len unfolding all hd by (simp add: nth_append)
    have "rb_breach r1 = None" using budget_call_breach [of r1 _ now c] yes by (cases "rb_breach r1") auto
    moreover have "elapsedMs now r1 < wallMs (rb_bounds r1)" by (rule accepted_in_time [OF yes that(2)])
    ultimately show ?thesis using counts by (simp add: elapsedMs_def new_run_budget_def)
  qed
  ultimately show ?thesis by blast
qed

definition demo_calls :: "(int \<times> run_call) list" where
  "demo_calls = [(0, Reserve_step), (1, Reserve_ref_values 11), (2, Reserve_query)]"

theorem run_work_bounded_witness:
  "\<exists>r. budget_run demo_calls (new_run_budget AGENT_RUN_BOUNDS 0) = (r, [True, False, False]) \<and> refValues (rb_usage r) \<le> 10"
proof -
  obtain r as where run: "budget_run demo_calls (new_run_budget AGENT_RUN_BOUNDS 0) = (r, as)"
    by (cases "budget_run demo_calls (new_run_budget AGENT_RUN_BOUNDS 0)")
  have "as = [True, False, False]"
    using run by (auto simp: demo_calls_def budget_defs new_run_budget_def AGENT_RUN_BOUNDS_def elapsedMs_def)
  then show ?thesis using run_work_bounded [OF run] run by auto
qed

theorem first_breach_is_final_witness:
  "\<exists>r. budget_run ([(0, Reserve_step), (1, Reserve_ref_values 11)] @ [(2, Reserve_query)] @ [])
       (new_run_budget AGENT_RUN_BOUNDS 0) = (r, [True, False, False]) \<and> rb_breach r = Some B_ref_values"
proof -
  obtain r as where run: "budget_run ([(0, Reserve_step), (1, Reserve_ref_values 11)] @ [(2, Reserve_query)] @ [])
      (new_run_budget AGENT_RUN_BOUNDS 0) = (r, as)" by fastforce
  obtain r1 as1 where run1: "budget_run [(0, Reserve_step), (1, Reserve_ref_values 11)] (new_run_budget AGENT_RUN_BOUNDS 0) = (r1, as1)"
    by fastforce
  have "rb_breach r1 = Some B_ref_values"
    using run1 by (auto simp: budget_defs new_run_budget_def AGENT_RUN_BOUNDS_def elapsedMs_def)
  moreover have "as = [True, False, False]"
    using run by (auto simp: budget_defs new_run_budget_def AGENT_RUN_BOUNDS_def elapsedMs_def)
  ultimately show ?thesis using first_breach_is_final [OF run run1] run by auto
qed

end
