(* ===== verification/Flow_Labels.thy ===== *)
theory Flow_Labels
  imports Prelude
begin

text \<open>
  Information-flow labels of the bounded read agent: \<open>domain/flow-label.ts\<close>, the read sources and labels of
  \<open>application/agent/flow-policy.ts\<close>, and the projector \<open>application/agent/structure-projector.ts\<close> (under
  \<open>packages/core/src\<close>). Source names and ids are byte strings; what a port returns as an id is a string or not one.
\<close>

section \<open>Labels\<close>

datatype flow_trust = TRUSTED | STRUCTURE | UNTRUSTED
datatype flow_egress = REMOTE_OK | REMOTE_ON_SUMMARY_REQUEST | LOCAL_MODEL_ONLY | HOST_ONLY
datatype flow_scope = WORK_CHANNEL_OK | OWNER_DM_ONLY

definition FLOW_TRUST_ORDER :: "flow_trust list" where
  "FLOW_TRUST_ORDER = [TRUSTED, STRUCTURE, UNTRUSTED]"

definition FLOW_EGRESS_ORDER :: "flow_egress list" where
  "FLOW_EGRESS_ORDER = [REMOTE_OK, REMOTE_ON_SUMMARY_REQUEST, LOCAL_MODEL_ONLY, HOST_ONLY]"

definition FLOW_SCOPE_ORDER :: "flow_scope list" where
  "FLOW_SCOPE_ORDER = [WORK_CHANNEL_OK, OWNER_DM_ONLY]"

record flow_label =
  fl_trust :: flow_trust
  fl_egress :: flow_egress
  fl_scope :: flow_scope
  fl_sources :: "string list"

text \<open>\<open>order.indexOf(x)\<close>.\<close>

definition order_index :: "'a list \<Rightarrow> 'a \<Rightarrow> int" where
  "order_index order x = (case js_index_of x order of Some i \<Rightarrow> int i | None \<Rightarrow> -1)"

definition stricter :: "'a list \<Rightarrow> 'a \<Rightarrow> 'a \<Rightarrow> 'a" where
  "stricter order a b = (if order_index order a \<ge> order_index order b then a else b)"

definition flowLabel :: "flow_trust \<Rightarrow> flow_egress \<Rightarrow> flow_scope \<Rightarrow> string list \<Rightarrow> flow_label" where
  "flowLabel t e s sources = \<lparr>fl_trust = t, fl_egress = e, fl_scope = s, fl_sources = sort (remdups sources)\<rparr>"

definition join_label :: "flow_label \<Rightarrow> flow_label \<Rightarrow> flow_label" where
  "join_label acc l = \<lparr>fl_trust = stricter FLOW_TRUST_ORDER (fl_trust acc) (fl_trust l),
     fl_egress = stricter FLOW_EGRESS_ORDER (fl_egress acc) (fl_egress l),
     fl_scope = stricter FLOW_SCOPE_ORDER (fl_scope acc) (fl_scope l), fl_sources = fl_sources acc @ fl_sources l\<rparr>"

definition joinFlowLabels :: "flow_label list \<Rightarrow> flow_label" where
  "joinFlowLabels labels =
     (let acc = foldl join_label \<lparr>fl_trust = TRUSTED, fl_egress = REMOTE_OK, fl_scope = WORK_CHANNEL_OK, fl_sources = []\<rparr> labels
      in flowLabel (fl_trust acc) (fl_egress acc) (fl_scope acc) (fl_sources acc))"

definition flowLabelWithin :: "flow_label \<Rightarrow> flow_trust \<Rightarrow> flow_egress \<Rightarrow> flow_scope \<Rightarrow> bool" where
  "flowLabelWithin l t e s \<longleftrightarrow> order_index FLOW_TRUST_ORDER (fl_trust l) \<le> order_index FLOW_TRUST_ORDER t \<and>
     order_index FLOW_EGRESS_ORDER (fl_egress l) \<le> order_index FLOW_EGRESS_ORDER e \<and>
     order_index FLOW_SCOPE_ORDER (fl_scope l) \<le> order_index FLOW_SCOPE_ORDER s"

definition OWNER_TEXT_FLOW_LABEL :: flow_label where
  "OWNER_TEXT_FLOW_LABEL = flowLabel TRUSTED REMOTE_OK WORK_CHANNEL_OK [''owner'']"

definition CATALOG_FLOW_LABEL :: flow_label where
  "CATALOG_FLOW_LABEL = flowLabel TRUSTED REMOTE_OK WORK_CHANNEL_OK [''catalog'']"

definition PREVIOUS_SELECTION_FLOW_LABEL :: flow_label where
  "PREVIOUS_SELECTION_FLOW_LABEL = flowLabel STRUCTURE REMOTE_OK WORK_CHANNEL_OK [''selection'']"

definition QUOTED_MATERIAL_FLOW_LABEL :: flow_label where
  "QUOTED_MATERIAL_FLOW_LABEL = flowLabel UNTRUSTED REMOTE_OK WORK_CHANNEL_OK [''quoted'']"

section \<open>Read sources\<close>

datatype read_entry =
  Jira_issues | Jira_release | Github_items | Slack_search | Confluence_search | Calendar_events | Mail_list | Drive_files
  | Todo_list | Reminder_list | Brief_today | Help_topic

record agent_source =
  rs_source :: string
  rs_origin :: string
  rs_ref_field :: "string option"
  rs_item_entry :: "read_entry option"
  rs_queries :: nat

definition read_source :: "string \<Rightarrow> string \<Rightarrow> string option \<Rightarrow> read_entry option \<Rightarrow> nat \<Rightarrow> agent_source" where
  "read_source s og f i q = \<lparr>rs_source = s, rs_origin = og, rs_ref_field = f, rs_item_entry = i, rs_queries = q\<rparr>"

fun AGENT_READ_SOURCES :: "read_entry \<Rightarrow> agent_source" where
  "AGENT_READ_SOURCES Jira_issues = read_source ''jira'' ''jira:configured-site'' (Some ''issueKeys'') (Some Jira_issues) 1"
| "AGENT_READ_SOURCES Jira_release = read_source ''jira'' ''jira:configured-site'' (Some ''issueKeys'') (Some Jira_issues) 8"
| "AGENT_READ_SOURCES Github_items = read_source ''github'' ''github:configured-host'' (Some ''itemIds'') None 1"
| "AGENT_READ_SOURCES Slack_search = read_source ''slack'' ''slack:configured-workspace'' (Some ''messageIds'') (Some Slack_search) 1"
| "AGENT_READ_SOURCES Confluence_search = read_source ''confluence'' ''confluence:configured-site'' (Some ''pageIds'') None 1"
| "AGENT_READ_SOURCES Calendar_events = read_source ''calendar'' ''calendar:owner'' (Some ''eventIds'') None 1"
| "AGENT_READ_SOURCES Mail_list = read_source ''mail'' ''mail:owner'' (Some ''messageIds'') (Some Mail_list) 1"
| "AGENT_READ_SOURCES Drive_files = read_source ''drive'' ''drive:owner'' (Some ''fileIds'') (Some Drive_files) 1"
| "AGENT_READ_SOURCES Todo_list = read_source ''todo'' ''host'' None None 2"
| "AGENT_READ_SOURCES Reminder_list = read_source ''reminder'' ''host'' None None 0"
| "AGENT_READ_SOURCES Brief_today = read_source ''brief'' ''host'' None None 4"
| "AGENT_READ_SOURCES Help_topic = read_source ''help'' ''host'' None None 0"

definition readOutputLabel :: "read_entry \<Rightarrow> flow_label" where
  "readOutputLabel entry = (let source = rs_source (AGENT_READ_SOURCES entry) in
     if source \<in> {''calendar'', ''brief''} then flowLabel UNTRUSTED LOCAL_MODEL_ONLY OWNER_DM_ONLY [source]
     else if source \<in> {''mail'', ''drive''} then flowLabel UNTRUSTED REMOTE_ON_SUMMARY_REQUEST OWNER_DM_ONLY [source]
     else if source \<in> {''todo'', ''reminder''} then flowLabel UNTRUSTED REMOTE_OK OWNER_DM_ONLY [source]
     else if source = ''help'' then flowLabel TRUSTED REMOTE_OK WORK_CHANNEL_OK [source]
     else flowLabel UNTRUSTED REMOTE_OK WORK_CHANNEL_OK [source])"

datatype flow_refusal = Untrusted_input

definition checkPlannerInputs :: "flow_label list \<Rightarrow> flow_refusal option" where
  "checkPlannerInputs parts =
     (if list_ex (\<lambda>l. fl_trust l \<noteq> TRUSTED \<and> fl_trust l \<noteq> STRUCTURE) parts then Some Untrusted_input else None)"

section \<open>The structure projector\<close>

definition char_codes :: "string \<Rightarrow> nat list" where
  "char_codes s = map of_char s"

definition upper_code :: "nat \<Rightarrow> bool" where "upper_code c \<longleftrightarrow> 65 \<le> c \<and> c \<le> 90"
definition decimal_code :: "nat \<Rightarrow> bool" where "decimal_code c \<longleftrightarrow> 48 \<le> c \<and> c \<le> 57"

text \<open>\<open>/^[class]{lo,hi}$/\<close>.\<close>

definition code_run :: "(nat \<Rightarrow> bool) \<Rightarrow> nat \<Rightarrow> nat \<Rightarrow> nat list \<Rightarrow> bool" where
  "code_run f lo hi s \<longleftrightarrow> lo \<le> length s \<and> length s \<le> hi \<and> list_all f s"

text \<open>\<open>/^[A-Z][A-Z0-9_]{1,19}-[1-9][0-9]{0,9}$/\<close>: no character of the first part is a hyphen.\<close>

definition issue_key :: "nat list \<Rightarrow> bool" where
  "issue_key s \<longleftrightarrow> (let a = takeWhile (\<lambda>c. c \<noteq> 45) s; b = drop (length a + 1) s in
     a \<noteq> [] \<and> upper_code (hd a) \<and> code_run (\<lambda>c. upper_code c \<or> decimal_code c \<or> c = 95) 1 19 (tl a) \<and>
     length a < length s \<and> b \<noteq> [] \<and> decimal_code (hd b) \<and> hd b \<noteq> 48 \<and> code_run decimal_code 0 9 (tl b))"

definition FIELD_PATTERNS :: "string \<Rightarrow> (nat list \<Rightarrow> bool) option" where
  "FIELD_PATTERNS field =
     (if field = ''issueKeys'' then Some issue_key
      else if field = ''messageIds'' then Some (code_run (\<lambda>c. ascii_alnum c \<or> c \<in> {46, 95, 58, 45}) 1 128)
      else if field = ''eventIds'' then Some (code_run (\<lambda>c. ascii_alnum c \<or> c \<in> {95, 45}) 1 256)
      else if field = ''fileIds'' then Some (code_run (\<lambda>c. ascii_alnum c \<or> c \<in> {95, 45}) 6 128)
      else if field = ''pageIds'' then Some (code_run decimal_code 1 20)
      else if field = ''itemIds'' then Some (code_run (\<lambda>c. ascii_alnum c \<or> c \<in> {46, 95, 47, 35, 58, 45}) 1 200)
      else None)"

definition isProjectedId :: "string \<Rightarrow> string option \<Rightarrow> bool" where
  "isProjectedId field v = (case FIELD_PATTERNS field of None \<Rightarrow> False
     | Some pattern \<Rightarrow> (case v of None \<Rightarrow> False | Some s \<Rightarrow> pattern (char_codes s)))"

record projection =
  pj_entry :: read_entry
  pj_source :: string
  pj_origin :: string
  pj_field :: "string option"
  pj_ids :: "string list"
  pj_slots :: "string option list"
  pj_item_count :: nat
  pj_dropped :: nat
  pj_label :: flow_label

text \<open>The loop: the ids seen, the slots and the number dropped so far.\<close>

definition project_item :: "string \<Rightarrow> string list \<times> string option list \<times> nat \<Rightarrow> string option \<Rightarrow> string list \<times> string option list \<times> nat" where
  "project_item field st item = (case st of (ids, slots, dropped) \<Rightarrow> (case item of
       Some s \<Rightarrow> if \<not> isProjectedId field item \<or> s \<in> set ids then (ids, slots @ [None], dropped + 1)
         else (ids @ [s], slots @ [Some s], dropped)
     | None \<Rightarrow> (ids, slots @ [None], dropped + 1)))"

definition projectStructure :: "read_entry \<Rightarrow> string option list \<Rightarrow> projection" where
  "projectStructure entry items =
     (let src = AGENT_READ_SOURCES entry; out = readOutputLabel entry;
          base = (\<lambda>field ids slots dropped. \<lparr>pj_entry = entry, pj_source = rs_source src, pj_origin = rs_origin src, pj_field = field,
            pj_ids = ids, pj_slots = slots, pj_item_count = length items, pj_dropped = dropped,
            pj_label = flowLabel STRUCTURE (fl_egress out) (fl_scope out) (fl_sources out)\<rparr>)
      in case rs_ref_field src of
           None \<Rightarrow> base None [] (map (\<lambda>_. None) items) 0
         | Some field \<Rightarrow> (case foldl (project_item field) ([], [], 0) items of (ids, slots, dropped) \<Rightarrow> base (Some field) ids slots dropped))"

section \<open>The order of labels\<close>

lemma order_index_stricter: "order_index od (stricter od a b) = max (order_index od a) (order_index od b)"
  by (auto simp: stricter_def max_def)

lemma order_index_trust: "order_index FLOW_TRUST_ORDER t = (case t of TRUSTED \<Rightarrow> 0 | STRUCTURE \<Rightarrow> 1 | UNTRUSTED \<Rightarrow> 2)"
  by (cases t) (simp_all add: order_index_def FLOW_TRUST_ORDER_def)

lemma order_index_egress: "order_index FLOW_EGRESS_ORDER e =
    (case e of REMOTE_OK \<Rightarrow> 0 | REMOTE_ON_SUMMARY_REQUEST \<Rightarrow> 1 | LOCAL_MODEL_ONLY \<Rightarrow> 2 | HOST_ONLY \<Rightarrow> 3)"
  by (cases e) (simp_all add: order_index_def FLOW_EGRESS_ORDER_def)

lemma order_index_scope: "order_index FLOW_SCOPE_ORDER s = (case s of WORK_CHANNEL_OK \<Rightarrow> 0 | OWNER_DM_ONLY \<Rightarrow> 1)"
  by (cases s) (simp_all add: order_index_def FLOW_SCOPE_ORDER_def)

lemmas order_indexes = order_index_trust order_index_egress order_index_scope

lemma flowLabel_sel [simp]: "fl_trust (flowLabel t e s ss) = t" "fl_egress (flowLabel t e s ss) = e" "fl_scope (flowLabel t e s ss) = s"
  "fl_sources (flowLabel t e s ss) = sort (remdups ss)"
  by (simp_all add: flowLabel_def)

lemma within_join: "flowLabelWithin (join_label a l) t e s \<longleftrightarrow> flowLabelWithin a t e s \<and> flowLabelWithin l t e s"
  by (auto simp: flowLabelWithin_def join_label_def order_index_stricter)

lemma within_foldl: "flowLabelWithin (foldl join_label a ls) t e s \<longleftrightarrow> flowLabelWithin a t e s \<and> (\<forall>l\<in>set ls. flowLabelWithin l t e s)"
  by (induction ls arbitrary: a) (auto simp: within_join)

lemma sources_foldl: "fl_sources (foldl join_label a ls) = fl_sources a @ concat (map fl_sources ls)"
  by (induction ls arbitrary: a) (auto simp: join_label_def)

lemma least_within: "flowLabelWithin \<lparr>fl_trust = TRUSTED, fl_egress = REMOTE_OK, fl_scope = WORK_CHANNEL_OK, fl_sources = ss\<rparr> t e s"
  by (cases t; cases e; cases s) (simp_all add: flowLabelWithin_def order_indexes)

lemma join_within: "flowLabelWithin (joinFlowLabels ls) t e s \<longleftrightarrow> (\<forall>l\<in>set ls. flowLabelWithin l t e s)"
proof -
  have "flowLabelWithin (joinFlowLabels ls) t e s \<longleftrightarrow>
      flowLabelWithin (foldl join_label \<lparr>fl_trust = TRUSTED, fl_egress = REMOTE_OK, fl_scope = WORK_CHANNEL_OK, fl_sources = []\<rparr> ls) t e s"
    by (simp add: joinFlowLabels_def Let_def flowLabelWithin_def)
  then show ?thesis by (simp add: within_foldl least_within)
qed

lemma join_sources: "fl_sources (joinFlowLabels ls) = sort (remdups (concat (map fl_sources ls)))"
  by (simp add: joinFlowLabels_def Let_def sources_foldl)

lemma within_antisym:
  assumes "\<And>t e s. flowLabelWithin a t e s \<longleftrightarrow> flowLabelWithin b t e s" "fl_sources a = fl_sources b"
  shows "a = b"
proof -
  have self: "flowLabelWithin l (fl_trust l) (fl_egress l) (fl_scope l)" for l by (simp add: flowLabelWithin_def)
  have "flowLabelWithin a (fl_trust b) (fl_egress b) (fl_scope b)" "flowLabelWithin b (fl_trust a) (fl_egress a) (fl_scope a)"
    using assms(1) self by auto
  then have "fl_trust a = fl_trust b" "fl_egress a = fl_egress b" "fl_scope a = fl_scope b"
    by (auto simp: flowLabelWithin_def order_indexes split: flow_trust.splits flow_egress.splits flow_scope.splits)
  with assms(2) show ?thesis by (cases a; cases b) simp
qed

lemma sort_remdups_cong: "set xs = set ys \<Longrightarrow> sort (remdups xs) = sort (remdups ys)" for xs ys :: "'a::linorder list"
  by (rule sorted_distinct_set_unique) auto

text \<open>A planner prompt is accepted exactly when the join of its parts is not \<open>UNTRUSTED\<close>.\<close>

lemma planner_inputs_join: "checkPlannerInputs parts = None \<longleftrightarrow> fl_trust (joinFlowLabels parts) \<noteq> UNTRUSTED"
proof -
  have bound: "flowLabelWithin l STRUCTURE HOST_ONLY OWNER_DM_ONLY \<longleftrightarrow> fl_trust l \<noteq> UNTRUSTED" for l
    by (cases "fl_trust l"; cases "fl_egress l"; cases "fl_scope l") (simp_all add: flowLabelWithin_def order_indexes)
  have "checkPlannerInputs parts = None \<longleftrightarrow> (\<forall>l\<in>set parts. fl_trust l \<noteq> UNTRUSTED)"
    by (auto simp: checkPlannerInputs_def list_ex_iff) (metis flow_trust.exhaust)
  then show ?thesis
    using join_within [of parts STRUCTURE HOST_ONLY OWNER_DM_ONLY] unfolding bound by simp
qed

section \<open>What the projector keeps\<close>

lemma project_items:
  assumes "foldl (project_item field) ([], [], 0) items = (ids, slots, dropped)"
  shows "distinct ids \<and> (\<forall>i\<in>set ids. isProjectedId field (Some i)) \<and> length slots = length items \<and>
    ids = map the (filter (\<lambda>x. x \<noteq> None) slots) \<and> dropped = length (filter (\<lambda>x. x = None) slots) \<and>
    list_all2 (\<lambda>slot item. slot = None \<or> slot = item) slots items"
  using assms
proof (induction items arbitrary: ids slots dropped rule: rev_induct)
  case (snoc x xs)
  obtain ids0 slots0 d0 where 0: "foldl (project_item field) ([], [], 0) xs = (ids0, slots0, d0)" by (cases "foldl (project_item field) ([], [], 0) xs")
  note IH = snoc.IH [OF 0]
  from snoc.prems 0 have "(ids, slots, dropped) = project_item field (ids0, slots0, d0) x" by simp
  then have "slots = slots0 @ [None] \<and> ids = ids0 \<and> dropped = d0 + 1 \<or>
      (\<exists>s. x = Some s \<and> isProjectedId field (Some s) \<and> s \<notin> set ids0 \<and> slots = slots0 @ [Some s] \<and> ids = ids0 @ [s] \<and> dropped = d0)"
    by (auto simp: project_item_def split: option.splits if_splits)
  then show ?case
    using IH by (auto simp: list_all2_append list_all2_lengthD)
qed simp

section \<open>The properties of labels and projections\<close>

text \<open>The join of labels is their least upper bound: it stays within a bound exactly when every label does; and it does not
  depend on the order of the labels, on repeats or on how they are grouped.\<close>

theorem join_is_least_upper_bound:
  "(flowLabelWithin (joinFlowLabels ls) t e s \<longleftrightarrow> list_all (\<lambda>l. flowLabelWithin l t e s) ls) \<and>
   joinFlowLabels (ls @ ms) = joinFlowLabels [joinFlowLabels ls, joinFlowLabels ms] \<and>
   joinFlowLabels (rev ls) = joinFlowLabels ls \<and> joinFlowLabels (ls @ ls) = joinFlowLabels ls"
proof (intro conjI)
  show "flowLabelWithin (joinFlowLabels ls) t e s \<longleftrightarrow> list_all (\<lambda>l. flowLabelWithin l t e s) ls" by (simp add: join_within list_all_iff)
  show "joinFlowLabels (ls @ ms) = joinFlowLabels [joinFlowLabels ls, joinFlowLabels ms]"
    by (rule within_antisym) (auto simp: join_within join_sources intro: sort_remdups_cong)
  show "joinFlowLabels (rev ls) = joinFlowLabels ls"
    by (rule within_antisym) (auto simp: join_within join_sources intro!: sort_remdups_cong)
  show "joinFlowLabels (ls @ ls) = joinFlowLabels ls"
    by (rule within_antisym) (auto simp: join_within join_sources intro!: sort_remdups_cong)
qed

text \<open>Whatever a read port returns, the projection keeps structure only: one slot per item, each the item's own id or
  nothing; the ids are the filled slots in order, distinct, every one matching the closed pattern of the source's field;
  the rest is counted; and the label is \<open>STRUCTURE\<close> but goes no further than the label of the source's content.\<close>

theorem projection_is_structure:
  "let p = projectStructure entry items in
   length (pj_slots p) = length items \<and> pj_item_count p = length items \<and>
   list_all2 (\<lambda>slot item. slot = None \<or> slot = item) (pj_slots p) items \<and>
   pj_ids p = map the (filter (\<lambda>x. x \<noteq> None) (pj_slots p)) \<and> distinct (pj_ids p) \<and>
   list_all (\<lambda>i. case pj_field p of None \<Rightarrow> False | Some f \<Rightarrow> isProjectedId f (Some i)) (pj_ids p) \<and>
   (pj_field p = None \<or> pj_dropped p + length (pj_ids p) = length items) \<and>
   fl_trust (pj_label p) = STRUCTURE \<and> fl_egress (pj_label p) = fl_egress (readOutputLabel entry) \<and>
   fl_scope (pj_label p) = fl_scope (readOutputLabel entry)"
proof (cases "rs_ref_field (AGENT_READ_SOURCES entry)")
  case None
  then show ?thesis by (simp add: projectStructure_def Let_def list_all2_conv_all_nth)
next
  case (Some field)
  obtain ids slots d where f: "foldl (project_item field) ([], [], 0) items = (ids, slots, d)"
    by (cases "foldl (project_item field) ([], [], 0) items")
  note k = project_items [OF f]
  have "d + length ids = length items"
    using k sum_length_filter_compl [of "\<lambda>x. x = None" slots] by simp
  with k show ?thesis using Some f by (auto simp: projectStructure_def Let_def list_all_iff)
qed

end
