(* ===== verification/Provider_Registry.thy ===== *)
theory Provider_Registry
  imports Domain_Model Containment_Audit
begin

text \<open>
  The vocabulary of AI provider routing (\<open>application/provider-routing-contracts.ts\<close>) and the registry of
  provider descriptors (\<open>application/provider-registry.ts\<close>): the checks of the constructor, the canonical
  descriptors, the availability snapshot.

  \<^item> An enumeration is a datatype, so \<open>assertEnum\<close> of a typed value never throws and is left out; the
    texts of the constructors serve sorting and digests.
  \<^item> \<open>localeCompare\<close> (the collation of the runtime's locale) is the argument \<open>lc\<close>; the SHA-256 of
    \<open>JSON.stringify(v)\<close> is the argument \<open>digest\<close> applied to the JSON value \<open>v\<close>.
  \<^item> A \<open>RoutingConfigurationError\<close> is its message.
\<close>

section \<open>Enumerations\<close>

datatype request_type = Q_CONVERSATIONAL | Q_WORK | Q_CODE_GENERATION | Q_UNKNOWN

datatype semantic_risk = SR_LOW | SR_STANDARD | SR_HIGH | SR_UNKNOWN

datatype latency_class = LC_INTERACTIVE | LC_BALANCED | LC_BATCH | LC_UNKNOWN

datatype requirement = RQ_REQUIRED | RQ_NOT_REQUIRED | RQ_UNKNOWN

datatype authority_requirement = AQ_REQUIRED | AQ_NOT_REQUIRED | AQ_UNKNOWN

datatype output_size = OS_SMALL | OS_MEDIUM | OS_LARGE | OS_UNKNOWN

datatype reliability_tier = RL_UNPROVEN | RL_LOW | RL_STANDARD | RL_HIGH

datatype support_level = UNSUPPORTED | SUPPORTED

datatype context_capacity = CC_SMALL | CC_MEDIUM | CC_LARGE

datatype execution_locality = EL_LOCAL | EL_NETWORK

datatype routing_class = RC_BALANCED | RC_SEMANTIC_HIGH | RC_LATENCY_RESTRICTED | RC_DEPRIORITIZED

datatype latency_tier = LT_FAST | LT_BALANCED | LT_SLOW | LT_UNKNOWN

datatype timeout_class = TC_SHORT | TC_STANDARD | TC_LONG

datatype cost_tier = CT_LOW | CT_STANDARD | CT_HIGH | CT_UNKNOWN

datatype concurrency_class = CN_SINGLE | CN_LIMITED | CN_SCALABLE | CN_UNKNOWN

datatype availability_class = AV_LOCAL_STABLE | AV_LOCAL_OPTIONAL | AV_NETWORK_DEPENDENT | AV_UNKNOWN

datatype provider_availability = AVAILABLE | UNAVAILABLE | AVAILABILITY_UNKNOWN

text \<open>The texts of the enumerations.\<close>

fun capability_text :: "capability \<Rightarrow> string" where
  "capability_text GENERAL_CHAT = ''GENERAL_CHAT''"
| "capability_text SUMMARIZATION = ''SUMMARIZATION''"
| "capability_text DOCUMENT_ANALYSIS = ''DOCUMENT_ANALYSIS''"
| "capability_text CODE_IMPLEMENTATION = ''CODE_IMPLEMENTATION''"
| "capability_text CODE_REVIEW = ''CODE_REVIEW''"
| "capability_text ARCHITECTURE_PLANNING = ''ARCHITECTURE_PLANNING''"
| "capability_text TEST_EXECUTION = ''TEST_EXECUTION''"
| "capability_text READONLY_LOOKUP = ''READONLY_LOOKUP''"
| "capability_text PROJECT_ANALYSIS = ''PROJECT_ANALYSIS''"
| "capability_text EMBEDDING = ''EMBEDDING''"
| "capability_text POLICY_SENSITIVE_CHAT = ''POLICY_SENSITIVE_CHAT''"
| "capability_text IMAGE_UNDERSTANDING = ''IMAGE_UNDERSTANDING''"
| "capability_text INTENT_SELECTION = ''INTENT_SELECTION''"

fun reliability_text :: "reliability_tier \<Rightarrow> string" where
  "reliability_text RL_UNPROVEN = ''UNPROVEN''"
| "reliability_text RL_LOW = ''LOW''"
| "reliability_text RL_STANDARD = ''STANDARD''"
| "reliability_text RL_HIGH = ''HIGH''"

fun support_text :: "support_level \<Rightarrow> string" where
  "support_text UNSUPPORTED = ''UNSUPPORTED''"
| "support_text SUPPORTED = ''SUPPORTED''"

fun capacity_text :: "context_capacity \<Rightarrow> string" where
  "capacity_text CC_SMALL = ''SMALL''"
| "capacity_text CC_MEDIUM = ''MEDIUM''"
| "capacity_text CC_LARGE = ''LARGE''"

fun locality_text :: "execution_locality \<Rightarrow> string" where
  "locality_text EL_LOCAL = ''LOCAL''"
| "locality_text EL_NETWORK = ''NETWORK''"

fun class_text :: "routing_class \<Rightarrow> string" where
  "class_text RC_BALANCED = ''BALANCED''"
| "class_text RC_SEMANTIC_HIGH = ''SEMANTIC_HIGH''"
| "class_text RC_LATENCY_RESTRICTED = ''LATENCY_RESTRICTED''"
| "class_text RC_DEPRIORITIZED = ''DEPRIORITIZED''"

fun latency_text :: "latency_tier \<Rightarrow> string" where
  "latency_text LT_FAST = ''FAST''"
| "latency_text LT_BALANCED = ''BALANCED''"
| "latency_text LT_SLOW = ''SLOW''"
| "latency_text LT_UNKNOWN = ''UNKNOWN''"

fun timeout_text :: "timeout_class \<Rightarrow> string" where
  "timeout_text TC_SHORT = ''SHORT''"
| "timeout_text TC_STANDARD = ''STANDARD''"
| "timeout_text TC_LONG = ''LONG''"

fun cost_text :: "cost_tier \<Rightarrow> string" where
  "cost_text CT_LOW = ''LOW''"
| "cost_text CT_STANDARD = ''STANDARD''"
| "cost_text CT_HIGH = ''HIGH''"
| "cost_text CT_UNKNOWN = ''UNKNOWN''"

fun concurrency_text :: "concurrency_class \<Rightarrow> string" where
  "concurrency_text CN_SINGLE = ''SINGLE''"
| "concurrency_text CN_LIMITED = ''LIMITED''"
| "concurrency_text CN_SCALABLE = ''SCALABLE''"
| "concurrency_text CN_UNKNOWN = ''UNKNOWN''"

fun availability_class_text :: "availability_class \<Rightarrow> string" where
  "availability_class_text AV_LOCAL_STABLE = ''LOCAL_STABLE''"
| "availability_class_text AV_LOCAL_OPTIONAL = ''LOCAL_OPTIONAL''"
| "availability_class_text AV_NETWORK_DEPENDENT = ''NETWORK_DEPENDENT''"
| "availability_class_text AV_UNKNOWN = ''UNKNOWN''"

lemma text_injective:
  "capability_text a = capability_text b \<longleftrightarrow> a = b" "class_text c = class_text d \<longleftrightarrow> c = d"
  by (cases a; cases b; simp) (cases c; cases d; simp)

section \<open>Descriptors\<close>

record provider_capabilities =
  pc_supported :: "capability list"
  pc_classes :: "routing_class list"
  pc_semantic :: reliability_tier
  pc_authority :: reliability_tier
  pc_continuity :: reliability_tier
  pc_tool_use :: support_level
  pc_structured :: support_level
  pc_context :: context_capacity
  pc_streaming :: support_level
  pc_locality :: execution_locality

record operational_profile =
  op_latency :: latency_tier
  op_timeout :: timeout_class
  op_cost :: cost_tier
  op_concurrency :: concurrency_class
  op_availability :: availability_class

record provider_descriptor =
  pd_id :: Id
  pd_adapter :: Id
  pd_model :: js_string
  pd_capabilities :: provider_capabilities
  pd_profile :: operational_profile
  pd_enabled :: bool
  pd_version :: string
  pd_evidence :: "string option"

record provider_registration =
  pg_id :: Id
  pg_descriptor :: provider_descriptor

record registered_provider =
  rp_descriptor :: provider_descriptor
  rp_availability :: provider_availability

record registry_snapshot =
  sn_version :: string
  sn_digest :: string
  sn_providers :: "registered_provider list"

record provider_registry =
  reg_version :: string
  reg_digest :: string
  reg_descriptors :: "provider_descriptor list"

section \<open>Validation\<close>

type_synonym routing_error = string

type_synonym collation = "Id \<Rightarrow> Id \<Rightarrow> int"

definition isRoutingIdentifier :: "string \<Rightarrow> bool" where
  "isRoutingIdentifier s = ident_text [46, 95, 58, 45] (codes s)"

text \<open>\<open>VERSION = /^[A-Za-z0-9][A-Za-z0-9._-]{0,127}$/\<close>\<close>

definition assertVersion :: "string \<Rightarrow> string \<Rightarrow> routing_error + unit" where
  "assertVersion v fld = guard_err (''Invalid '' @ fld) (is_version v)"

definition assertOpaqueBinding :: "js_string \<Rightarrow> string \<Rightarrow> routing_error + unit" where
  "assertOpaqueBinding v fld = guard_err (''Invalid '' @ fld)
     (\<not> (js_trim v \<noteq> v \<or> length v = 0 \<or> length v > 256 \<or> list_ex (\<lambda>u. u \<le> 0x1F \<or> u = 0x7F) v))"

definition sortedUnique :: "('a \<Rightarrow> string) \<Rightarrow> 'a list \<Rightarrow> string \<Rightarrow> routing_error + 'a list" where
  "sortedUnique name vs fld =
     (if vs = [] then Inl (fld @ '' must not be empty'')
      else if \<not> distinct (sort_key name vs) then Inl (fld @ '' must not contain duplicates'')
      else Inr (sort_key name vs))"

definition freezeDescriptor :: "provider_descriptor \<Rightarrow> routing_error + provider_descriptor" where
  "freezeDescriptor d =
     err_bind (sortedUnique capability_text (pc_supported (pd_capabilities d)) ''supportedCapabilities'') (\<lambda>caps.
     err_bind (sortedUnique class_text (pc_classes (pd_capabilities d)) ''routingClasses'') (\<lambda>classes.
     err_bind (assertOpaqueBinding (js (pd_adapter d)) ''adapterId'') (\<lambda>_.
     err_bind (assertOpaqueBinding (pd_model d) ''modelId'') (\<lambda>_.
     err_bind (assertVersion (pd_version d) ''profileVersion'') (\<lambda>_.
     err_bind (guard_err ''Invalid evidenceBindingDigest'' (case pd_evidence d of None \<Rightarrow> True | Some e \<Rightarrow> is_hex64 e)) (\<lambda>_.
     Inr (d\<lparr>pd_capabilities := (pd_capabilities d)\<lparr>pc_supported := caps, pc_classes := classes\<rparr>\<rparr>)))))))"

text \<open>
  The JSON text of a UTF-16 string: its UTF-8 bytes, a lone surrogate in the same three-byte form (the code
  writes an escape, which is injective as well).
\<close>

definition utf8_bytes :: "nat \<Rightarrow> nat list" where
  "utf8_bytes c =
     (if c < 0x80 then [c]
      else if c < 0x800 then [0xC0 + c div 0x40, 0x80 + c mod 0x40]
      else if c < 0x10000 then [0xE0 + c div 0x1000, 0x80 + c div 0x40 mod 0x40, 0x80 + c mod 0x40]
      else [0xF0 + c div 0x40000, 0x80 + c div 0x1000 mod 0x40, 0x80 + c div 0x40 mod 0x40, 0x80 + c mod 0x40])"

definition json_text :: "js_string \<Rightarrow> json" where
  "json_text s = JStr (map char_of (concat (map utf8_bytes (code_points s))))"

definition json_optional :: "('a \<Rightarrow> json) \<Rightarrow> 'a option \<Rightarrow> json" where
  "json_optional f x = (case x of None \<Rightarrow> JNull | Some v \<Rightarrow> f v)"

definition canonicalDescriptor :: "provider_descriptor \<Rightarrow> json" where
  "canonicalDescriptor d = (let c = pd_capabilities d; p = pd_profile d in JObj
     [(''providerId'', JStr (pd_id d)), (''adapterId'', JStr (pd_adapter d)), (''modelId'', json_text (pd_model d)),
      (''capabilities'', JObj
        [(''supportedCapabilities'', JArr (map (\<lambda>x. JStr (capability_text x)) (pc_supported c))),
         (''routingClasses'', JArr (map (\<lambda>x. JStr (class_text x)) (pc_classes c))),
         (''semanticReliability'', JStr (reliability_text (pc_semantic c))),
         (''authorityReliability'', JStr (reliability_text (pc_authority c))),
         (''continuityReliability'', JStr (reliability_text (pc_continuity c))),
         (''toolUse'', JStr (support_text (pc_tool_use c))),
         (''structuredOutput'', JStr (support_text (pc_structured c))),
         (''contextCapacity'', JStr (capacity_text (pc_context c))),
         (''streaming'', JStr (support_text (pc_streaming c))),
         (''executionLocality'', JStr (locality_text (pc_locality c)))]),
      (''operationalProfile'', JObj
        [(''latencyTier'', JStr (latency_text (op_latency p))),
         (''timeoutClass'', JStr (timeout_text (op_timeout p))),
         (''costTier'', JStr (cost_text (op_cost p))),
         (''concurrencyClass'', JStr (concurrency_text (op_concurrency p))),
         (''availabilityClass'', JStr (availability_class_text (op_availability p)))]),
      (''enabled'', JBool (pd_enabled d)),
      (''profileVersion'', JStr (pd_version d)),
      (''evidenceBindingDigest'', json_optional JStr (pd_evidence d))])"

section \<open>The registry\<close>

fun collect_descriptors :: "Id list \<Rightarrow> provider_registration list \<Rightarrow> routing_error + provider_descriptor list" where
  "collect_descriptors seen [] = Inr []"
| "collect_descriptors seen (r # rs) =
     (if \<not> isRoutingIdentifier (pg_id r) then Inl ''Invalid providerId''
      else if \<not> isRoutingIdentifier (pd_adapter (pg_descriptor r)) then Inl ''Invalid adapterId''
      else if pg_id r \<noteq> pd_id (pg_descriptor r) then Inl ''Descriptor/provider binding mismatch''
      else if pg_id r \<in> set seen then Inl (''Duplicate providerId: '' @ pg_id r)
      else err_bind (freezeDescriptor (pg_descriptor r)) (\<lambda>d.
           err_bind (collect_descriptors (pg_id r # seen) rs) (\<lambda>ds. Inr (d # ds))))"

definition by_provider_id :: "collation \<Rightarrow> provider_descriptor \<Rightarrow> provider_descriptor \<Rightarrow> int" where
  "by_provider_id lc a b = lc (pd_id a) (pd_id b)"

definition new_provider_registry ::
  "collation \<Rightarrow> (json \<Rightarrow> string) \<Rightarrow> string \<Rightarrow> provider_registration list \<Rightarrow> routing_error + provider_registry" where
  "new_provider_registry lc digest version rs =
     err_bind (assertVersion version ''registryVersion'') (\<lambda>_.
     if rs = [] then Inl ''Provider registry must not be empty'' else
     err_bind (collect_descriptors [] rs) (\<lambda>ds.
       let sorted = js_sort (by_provider_id lc) ds in
       Inr \<lparr>reg_version = version,
            reg_digest = digest (JObj [(''version'', JStr version),
                                       (''providers'', JArr (map canonicalDescriptor sorted))]),
            reg_descriptors = sorted\<rparr>))"

definition registry_all :: "provider_registry \<Rightarrow> provider_descriptor list" where
  "registry_all r = reg_descriptors r"

definition registry_enabled :: "provider_registry \<Rightarrow> provider_descriptor list" where
  "registry_enabled r = filter pd_enabled (reg_descriptors r)"

definition registry_get :: "provider_registry \<Rightarrow> Id \<Rightarrow> provider_descriptor option" where
  "registry_get r i = List.find (\<lambda>d. pd_id d = i) (reg_descriptors r)"

text \<open>\<open>Object.entries(availability)\<close>: distinct keys; the members an object inherits are not modelled.\<close>

definition take_snapshot ::
  "provider_registry \<Rightarrow> (Id \<times> provider_availability) list \<Rightarrow> routing_error + registry_snapshot" where
  "take_snapshot r availability =
     (case List.find (\<lambda>(i, _). i \<notin> pd_id ` set (reg_descriptors r)) availability of
        Some (i, _) \<Rightarrow> Inl (''Availability references unknown providerId: '' @ i)
      | None \<Rightarrow> Inr
          \<lparr>sn_version = reg_version r, sn_digest = reg_digest r,
           sn_providers = map (\<lambda>d. \<lparr>rp_descriptor = d,
             rp_availability = (case map_of availability (pd_id d) of None \<Rightarrow> AVAILABILITY_UNKNOWN | Some a \<Rightarrow> a)\<rparr>)
             (reg_descriptors r)\<rparr>)"

section \<open>What an accepted registry guarantees\<close>

text \<open>A frozen descriptor is a fixed point of the checks: its lists are sorted and without repeats.\<close>

lemma sort_key_Nil_iff [simp]: "sort_key f xs = [] \<longleftrightarrow> xs = []"
  by (metis length_0_conv length_sort)

lemma sort_key_idem [simp]: "sort_key f (sort_key f xs) = sort_key f xs"
  by (simp add: sort_key_id_if_sorted)

lemma sortedUnique_Inr:
  "sortedUnique name vs fld = Inr ws \<longleftrightarrow> vs \<noteq> [] \<and> distinct vs \<and> ws = sort_key name vs"
  by (auto simp: sortedUnique_def)

lemma freezeDescriptor_Inr_iff:
  "freezeDescriptor d = Inr e \<longleftrightarrow>
     e = d\<lparr>pd_capabilities := (pd_capabilities d)
            \<lparr>pc_supported := sort_key capability_text (pc_supported (pd_capabilities d)),
             pc_classes := sort_key class_text (pc_classes (pd_capabilities d))\<rparr>\<rparr> \<and>
     pc_supported (pd_capabilities d) \<noteq> [] \<and> distinct (pc_supported (pd_capabilities d)) \<and>
     pc_classes (pd_capabilities d) \<noteq> [] \<and> distinct (pc_classes (pd_capabilities d)) \<and>
     assertOpaqueBinding (js (pd_adapter d)) ''adapterId'' = Inr () \<and>
     assertOpaqueBinding (pd_model d) ''modelId'' = Inr () \<and> is_version (pd_version d) \<and>
     (case pd_evidence d of None \<Rightarrow> True | Some h \<Rightarrow> is_hex64 h)"
  unfolding freezeDescriptor_def assertVersion_def err_bind_Inr_iff sortedUnique_Inr guard_err_Inr_iff
  by auto

lemma freezeDescriptor_Inr:
  assumes "freezeDescriptor d = Inr e"
  shows "freezeDescriptor e = Inr e" "pd_id e = pd_id d" "pd_enabled e = pd_enabled d"
    "set (pc_supported (pd_capabilities e)) = set (pc_supported (pd_capabilities d))"
    "set (pc_classes (pd_capabilities e)) = set (pc_classes (pd_capabilities d))"
  using assms unfolding freezeDescriptor_Inr_iff by simp_all

definition registry_wf :: "provider_registry \<Rightarrow> bool" where
  "registry_wf r \<longleftrightarrow> distinct (map pd_id (reg_descriptors r)) \<and> reg_descriptors r \<noteq> [] \<and>
     list_all (\<lambda>d. isRoutingIdentifier (pd_id d) \<and> freezeDescriptor d = Inr d) (reg_descriptors r)"

lemma collect_descriptors_Inr:
  assumes "collect_descriptors seen rs = Inr ds"
  shows "map pg_id rs = map pd_id ds \<and> distinct (map pd_id ds) \<and> set (map pd_id ds) \<inter> set seen = {} \<and>
    list_all (\<lambda>d. isRoutingIdentifier (pd_id d) \<and> freezeDescriptor d = Inr d) ds"
  using assms
proof (induction seen rs arbitrary: ds rule: collect_descriptors.induct)
  case (2 seen r rs)
  then obtain d es where d: "freezeDescriptor (pg_descriptor r) = Inr d" "ds = d # es"
    "collect_descriptors (pg_id r # seen) rs = Inr es" "pg_id r = pd_id (pg_descriptor r)"
    "pg_id r \<notin> set seen" "isRoutingIdentifier (pg_id r)"
    by (auto simp: err_bind_Inr_iff split: if_splits)
  with 2 have "map pg_id rs = map pd_id es \<and> distinct (map pd_id es) \<and>
      set (map pd_id es) \<inter> set (pg_id r # seen) = {} \<and>
      list_all (\<lambda>d. isRoutingIdentifier (pd_id d) \<and> freezeDescriptor d = Inr d) es"
    by (simp split: if_splits)
  with d freezeDescriptor_Inr [OF d(1)] show ?case by auto
qed simp

lemma new_provider_registry_wf:
  assumes "new_provider_registry lc digest v rs = Inr r"
  shows "registry_wf r" "set (map pd_id (reg_descriptors r)) = set (map pg_id rs)" "reg_version r = v"
    "consistent_comparator lc \<Longrightarrow> sorted_wrt (\<lambda>a b. lc (pd_id a) (pd_id b) \<le> 0) (reg_descriptors r)"
proof -
  obtain ds where ds: "collect_descriptors [] rs = Inr ds" "rs \<noteq> []" "reg_version r = v"
    "reg_descriptors r = js_sort (by_provider_id lc) ds"
    using assms by (auto simp: new_provider_registry_def err_bind_Inr_iff Let_def split: if_splits)
  note c = collect_descriptors_Inr [OF ds(1)]
  have "ds \<noteq> []" using c ds(2) by auto
  then show "registry_wf r" using c ds(4) by (simp add: registry_wf_def list_all_iff)
  show "set (map pd_id (reg_descriptors r)) = set (map pg_id rs)"
    using c ds(4) by (metis list.set_map set_js_sort)
  show "reg_version r = v" by (rule ds(3))
  show "sorted_wrt (\<lambda>a b. lc (pd_id a) (pd_id b) \<le> 0) (reg_descriptors r)" if "consistent_comparator lc"
    using sorted_js_sort [OF consistent_key [OF that, of pd_id], of ds]
    by (simp add: ds(4) by_provider_id_def [abs_def])
qed

text \<open>A snapshot lists every configured provider once, in the order of the registry, and keeps its identity.\<close>

lemma take_snapshot_Inr:
  assumes "take_snapshot r av = Inr sn"
  shows "map rp_descriptor (sn_providers sn) = reg_descriptors r" "sn_version sn = reg_version r"
    "sn_digest sn = reg_digest r"
    "p \<in> set (sn_providers sn) \<Longrightarrow> rp_availability p = AVAILABLE \<longleftrightarrow> map_of av (pd_id (rp_descriptor p)) = Some AVAILABLE"
  using assms by (auto simp: take_snapshot_def comp_def split: option.splits)

lemma find_distinct_id:
  "distinct (map f xs) \<Longrightarrow> x \<in> set xs \<Longrightarrow> List.find (\<lambda>y. f y = f x) xs = Some x"
  by (induction xs) auto

end
