(* ===== verification/Routing_Policy.thy ===== *)
theory Routing_Policy
  imports Provider_Registry
begin

text \<open>
  The routing policy engine (\<open>application/routing-policy-engine.ts\<close>): validation of a policy
  configuration, the first matching policy in precedence order, static eligibility, lexicographic ranking of the
  eligible providers and the two read-only projections.

  The arguments \<open>lc\<close> (\<open>localeCompare\<close>) and \<open>digest\<close> (SHA-256 of a JSON text) are those of
  \<open>Provider_Registry\<close>. Freezing copies lists and changes no value.
\<close>

section \<open>Policies\<close>

datatype ranking_dimension =
  D_ROUTING_CLASS | D_SEMANTIC_RELIABILITY | D_AUTHORITY_RELIABILITY | D_CONTINUITY_RELIABILITY
  | D_LATENCY_TIER | D_COST_TIER

datatype sort_direction = ASCENDING | DESCENDING

datatype terminal_decision = NO_SELECTION

datatype routing_reason = SELECTED | POLICY_NOT_MATCHED | NO_ELIGIBLE_PROVIDER

record routing_context =
  cx_capability :: capability
  cx_request :: request_type
  cx_intent :: intent_type
  cx_risk :: semantic_risk
  cx_latency :: latency_class
  cx_tool_use :: requirement
  cx_authority :: authority_requirement
  cx_continuity :: requirement
  cx_output :: output_size
  cx_profile :: Id

record routing_predicate =
  w_capabilities :: "capability list option"
  w_requests :: "request_type list option"
  w_intents :: "intent_type list option"
  w_risks :: "semantic_risk list option"
  w_latencies :: "latency_class list option"
  w_tool_use :: "requirement list option"
  w_authority :: "authority_requirement list option"
  w_continuity :: "requirement list option"
  w_outputs :: "output_size list option"
  w_profiles :: "Id list option"

record eligibility_rule =
  el_required :: "routing_class list option"
  el_excluded :: "routing_class list option"
  el_semantic :: "reliability_tier option"
  el_authority :: "reliability_tier option"
  el_continuity :: "reliability_tier option"
  el_tool_use :: "bool option"
  el_structured :: "bool option"
  el_context :: "context_capacity option"
  el_locality :: "execution_locality option"

record ranking_rule =
  rk_dimension :: ranking_dimension
  rk_direction :: sort_direction
  rk_preference :: "routing_class list option"

record routing_policy =
  rp_id :: Id
  rp_version :: string
  rp_precedence :: int
  rp_when :: routing_predicate
  rp_eligibility :: eligibility_rule
  rp_ranking :: "ranking_rule list"
  rp_terminal :: terminal_decision

record policy_configuration =
  pf_version :: string
  pf_policies :: "routing_policy list"

record selection_decision =
  sd_selected :: "Id option"
  sd_eligible :: "Id list"
  sd_policy :: "Id option"
  sd_reason :: routing_reason
  sd_policy_version :: string
  sd_registry_version :: string
  sd_registry_digest :: string
  sd_policy_digest :: string
  sd_digest :: string

record eligibility_projection =
  ep_matched :: bool
  ep_matched_policy :: "Id option"
  ep_requires_local :: bool
  ep_network :: "Id list"
  ep_network_ignoring_enabled :: "Id list"
  ep_eligible :: "Id list"
  ep_eligible_network :: "Id list"
  ep_eligible_local :: "Id list"
  ep_policy_version :: string
  ep_registry_version :: string
  ep_registry_digest :: string
  ep_policy_digest :: string
  ep_digest :: string

section \<open>Validation of a configuration\<close>

definition validateOptionalArray :: "'a list option \<Rightarrow> string \<Rightarrow> routing_error + unit" where
  "validateOptionalArray vs fld = (case vs of
     None \<Rightarrow> Inr ()
   | Some xs \<Rightarrow> if xs = [] then Inl (fld @ '' must not be empty'')
               else guard_err (fld @ '' has duplicates'') (distinct xs))"

definition validatePredicate :: "routing_predicate \<Rightarrow> routing_error + unit" where
  "validatePredicate w =
     err_bind (validateOptionalArray (w_capabilities w) ''predicate.capabilities'') (\<lambda>_.
     err_bind (validateOptionalArray (w_requests w) ''predicate.requestTypes'') (\<lambda>_.
     err_bind (validateOptionalArray (w_intents w) ''predicate.intentTypes'') (\<lambda>_.
     err_bind (validateOptionalArray (w_risks w) ''predicate.semanticRisks'') (\<lambda>_.
     err_bind (validateOptionalArray (w_latencies w) ''predicate.latencyClasses'') (\<lambda>_.
     err_bind (validateOptionalArray (w_tool_use w) ''predicate.toolUseRequirements'') (\<lambda>_.
     err_bind (validateOptionalArray (w_authority w) ''predicate.authorityRequirements'') (\<lambda>_.
     err_bind (validateOptionalArray (w_continuity w) ''predicate.continuityRequirements'') (\<lambda>_.
     err_bind (validateOptionalArray (w_outputs w) ''predicate.outputSizes'') (\<lambda>_.
     (case w_profiles w of
        None \<Rightarrow> Inr ()
      | Some ps \<Rightarrow> if ps = [] then Inl ''predicate.validationProfiles must not be empty''
                  else if \<not> distinct ps then Inl ''predicate.validationProfiles has duplicates''
                  else guard_err ''Invalid predicate.validationProfiles'' (list_all isRoutingIdentifier ps)))))))))))"

definition validateEligibility :: "eligibility_rule \<Rightarrow> routing_error + unit" where
  "validateEligibility e =
     err_bind (validateOptionalArray (el_required e) ''requiredRoutingClasses'') (\<lambda>_.
     err_bind (validateOptionalArray (el_excluded e) ''excludedRoutingClasses'') (\<lambda>_.
     let required = (case el_required e of None \<Rightarrow> [] | Some xs \<Rightarrow> xs);
         excluded = (case el_excluded e of None \<Rightarrow> [] | Some xs \<Rightarrow> xs)
     in guard_err ''Eligibility requires only excluded routing classes''
          (\<not> (length required > 0 \<and> list_all (\<lambda>c. c \<in> set excluded) required))))"

definition validateRankingRule :: "ranking_rule \<Rightarrow> routing_error + unit" where
  "validateRankingRule r =
     (if rk_dimension r = D_ROUTING_CLASS then
        err_bind (validateOptionalArray (rk_preference r) ''routingClassPreference'') (\<lambda>_.
        if rk_preference r = None then Inl ''ROUTING_CLASS ranking requires routingClassPreference''
        else guard_err ''ROUTING_CLASS preference must use ASCENDING order'' (rk_direction r = ASCENDING))
      else guard_err ''routingClassPreference is only valid for ROUTING_CLASS ranking'' (rk_preference r = None))"

definition validateRanking :: "ranking_rule list \<Rightarrow> routing_error + unit" where
  "validateRanking rs =
     (if rs = [] then Inl ''ranking must not be empty'' else
      err_bind (traverse validateRankingRule rs) (\<lambda>_.
      guard_err ''ranking dimensions must be unique'' (distinct (map rk_dimension rs))))"

definition freezePolicy :: "routing_policy \<Rightarrow> routing_error + routing_policy" where
  "freezePolicy p =
     err_bind (assertVersion (rp_version p) ''policy.version'') (\<lambda>_.
     err_bind (guard_err ''Invalid policy.precedence'' (0 \<le> rp_precedence p \<and> rp_precedence p \<le> 10000)) (\<lambda>_.
     err_bind (validatePredicate (rp_when p)) (\<lambda>_.
     err_bind (validateEligibility (rp_eligibility p)) (\<lambda>_.
     err_bind (validateRanking (rp_ranking p)) (\<lambda>_. Inr p)))))"

section \<open>The digest of a configuration\<close>

fun request_text :: "request_type \<Rightarrow> string" where
  "request_text Q_CONVERSATIONAL = ''CONVERSATIONAL''"
| "request_text Q_WORK = ''WORK''"
| "request_text Q_CODE_GENERATION = ''CODE_GENERATION''"
| "request_text Q_UNKNOWN = ''UNKNOWN''"

fun intent_text :: "intent_type \<Rightarrow> string" where
  "intent_text CHAT = ''CHAT''"
| "intent_text SUMMARIZE = ''SUMMARIZE''"
| "intent_text ANALYZE_DOCUMENT = ''ANALYZE_DOCUMENT''"
| "intent_text IMPLEMENT_CODE = ''IMPLEMENT_CODE''"
| "intent_text REVIEW_CODE = ''REVIEW_CODE''"
| "intent_text PLAN_ARCHITECTURE = ''PLAN_ARCHITECTURE''"
| "intent_text RUN_TESTS = ''RUN_TESTS''"
| "intent_text LOOKUP = ''LOOKUP''"
| "intent_text REGISTER_PROJECT = ''REGISTER_PROJECT''"
| "intent_text I_PROJECT_ANALYSIS = ''PROJECT_ANALYSIS''"
| "intent_text I_UNKNOWN = ''UNKNOWN''"

fun risk_text :: "semantic_risk \<Rightarrow> string" where
  "risk_text SR_LOW = ''LOW''"
| "risk_text SR_STANDARD = ''STANDARD''"
| "risk_text SR_HIGH = ''HIGH''"
| "risk_text SR_UNKNOWN = ''UNKNOWN''"

fun latency_class_text :: "latency_class \<Rightarrow> string" where
  "latency_class_text LC_INTERACTIVE = ''INTERACTIVE''"
| "latency_class_text LC_BALANCED = ''BALANCED''"
| "latency_class_text LC_BATCH = ''BATCH''"
| "latency_class_text LC_UNKNOWN = ''UNKNOWN''"

fun requirement_text :: "requirement \<Rightarrow> string" where
  "requirement_text RQ_REQUIRED = ''REQUIRED''"
| "requirement_text RQ_NOT_REQUIRED = ''NOT_REQUIRED''"
| "requirement_text RQ_UNKNOWN = ''UNKNOWN''"

fun authority_text :: "authority_requirement \<Rightarrow> string" where
  "authority_text AQ_REQUIRED = ''REQUIRED''"
| "authority_text AQ_NOT_REQUIRED = ''NOT_REQUIRED''"
| "authority_text AQ_UNKNOWN = ''UNKNOWN''"

fun output_text :: "output_size \<Rightarrow> string" where
  "output_text OS_SMALL = ''SMALL''"
| "output_text OS_MEDIUM = ''MEDIUM''"
| "output_text OS_LARGE = ''LARGE''"
| "output_text OS_UNKNOWN = ''UNKNOWN''"

fun dimension_text :: "ranking_dimension \<Rightarrow> string" where
  "dimension_text D_ROUTING_CLASS = ''ROUTING_CLASS''"
| "dimension_text D_SEMANTIC_RELIABILITY = ''SEMANTIC_RELIABILITY''"
| "dimension_text D_AUTHORITY_RELIABILITY = ''AUTHORITY_RELIABILITY''"
| "dimension_text D_CONTINUITY_RELIABILITY = ''CONTINUITY_RELIABILITY''"
| "dimension_text D_LATENCY_TIER = ''LATENCY_TIER''"
| "dimension_text D_COST_TIER = ''COST_TIER''"

definition json_texts :: "('a \<Rightarrow> string) \<Rightarrow> 'a list \<Rightarrow> json" where
  "json_texts name xs = JArr (map (\<lambda>x. JStr (name x)) xs)"

definition json_sorted :: "('a \<Rightarrow> string) \<Rightarrow> 'a list option \<Rightarrow> json" where
  "json_sorted name vs = json_optional (\<lambda>xs. json_texts name (sort_key name xs)) vs"

definition canonical_predicate :: "routing_predicate \<Rightarrow> json" where
  "canonical_predicate w = JObj
     [(''capabilities'', json_sorted capability_text (w_capabilities w)),
      (''requestTypes'', json_sorted request_text (w_requests w)),
      (''intentTypes'', json_sorted intent_text (w_intents w)),
      (''semanticRisks'', json_sorted risk_text (w_risks w)),
      (''latencyClasses'', json_sorted latency_class_text (w_latencies w)),
      (''toolUseRequirements'', json_sorted requirement_text (w_tool_use w)),
      (''authorityRequirements'', json_sorted authority_text (w_authority w)),
      (''continuityRequirements'', json_sorted requirement_text (w_continuity w)),
      (''outputSizes'', json_sorted output_text (w_outputs w)),
      (''validationProfiles'', json_sorted (\<lambda>s. s) (w_profiles w))]"

definition canonical_eligibility :: "eligibility_rule \<Rightarrow> json" where
  "canonical_eligibility e = JObj
     [(''requiredRoutingClasses'', json_sorted class_text (el_required e)),
      (''excludedRoutingClasses'', json_sorted class_text (el_excluded e)),
      (''minimumSemanticReliability'', json_optional (\<lambda>t. JStr (reliability_text t)) (el_semantic e)),
      (''minimumAuthorityReliability'', json_optional (\<lambda>t. JStr (reliability_text t)) (el_authority e)),
      (''minimumContinuityReliability'', json_optional (\<lambda>t. JStr (reliability_text t)) (el_continuity e)),
      (''requiresToolUse'', json_optional JBool (el_tool_use e)),
      (''requiresStructuredOutput'', json_optional JBool (el_structured e)),
      (''minimumContextCapacity'', json_optional (\<lambda>t. JStr (capacity_text t)) (el_context e)),
      (''executionLocality'', json_optional (\<lambda>t. JStr (locality_text t)) (el_locality e))]"

definition canonical_ranking :: "ranking_rule \<Rightarrow> json" where
  "canonical_ranking r = JObj
     [(''dimension'', JStr (dimension_text (rk_dimension r))),
      (''direction'', JStr (case rk_direction r of ASCENDING \<Rightarrow> ''ASCENDING'' | DESCENDING \<Rightarrow> ''DESCENDING'')),
      (''routingClassPreference'', json_optional (json_texts class_text) (rk_preference r))]"

definition canonicalPolicy :: "routing_policy \<Rightarrow> json" where
  "canonicalPolicy p = JObj
     [(''policyId'', JStr (rp_id p)), (''version'', JStr (rp_version p)), (''precedence'', JNum (rp_precedence p)),
      (''when'', canonical_predicate (rp_when p)),
      (''eligibility'', canonical_eligibility (rp_eligibility p)),
      (''ranking'', JArr (map canonical_ranking (rp_ranking p))),
      (''terminal'', JStr ''NO_SELECTION'')]"

section \<open>Matching and eligibility\<close>

definition admits :: "'a list option \<Rightarrow> 'a \<Rightarrow> bool" where
  "admits allowed actual = (case allowed of None \<Rightarrow> True | Some xs \<Rightarrow> actual \<in> set xs)"

definition matchesPredicate :: "routing_predicate \<Rightarrow> routing_context \<Rightarrow> bool" where
  "matchesPredicate w c \<longleftrightarrow>
     admits (w_capabilities w) (cx_capability c) \<and>
     admits (w_requests w) (cx_request c) \<and>
     admits (w_intents w) (cx_intent c) \<and>
     admits (w_risks w) (cx_risk c) \<and>
     admits (w_latencies w) (cx_latency c) \<and>
     admits (w_tool_use w) (cx_tool_use c) \<and>
     admits (w_authority w) (cx_authority c) \<and>
     admits (w_continuity w) (cx_continuity c) \<and>
     admits (w_outputs w) (cx_output c) \<and>
     admits (w_profiles w) (cx_profile c)"

fun RELIABILITY_ORDER :: "reliability_tier \<Rightarrow> int" where
  "RELIABILITY_ORDER RL_UNPROVEN = 0"
| "RELIABILITY_ORDER RL_LOW = 1"
| "RELIABILITY_ORDER RL_STANDARD = 2"
| "RELIABILITY_ORDER RL_HIGH = 3"

fun CONTEXT_ORDER :: "context_capacity \<Rightarrow> int" where
  "CONTEXT_ORDER CC_SMALL = 0"
| "CONTEXT_ORDER CC_MEDIUM = 1"
| "CONTEXT_ORDER CC_LARGE = 2"

fun LATENCY_ORDER :: "latency_tier \<Rightarrow> int" where
  "LATENCY_ORDER LT_FAST = 0"
| "LATENCY_ORDER LT_BALANCED = 1"
| "LATENCY_ORDER LT_SLOW = 2"
| "LATENCY_ORDER LT_UNKNOWN = 3"

fun COST_ORDER :: "cost_tier \<Rightarrow> int" where
  "COST_ORDER CT_LOW = 0"
| "COST_ORDER CT_STANDARD = 1"
| "COST_ORDER CT_HIGH = 2"
| "COST_ORDER CT_UNKNOWN = 3"

definition atLeast :: "reliability_tier \<Rightarrow> reliability_tier option \<Rightarrow> bool" where
  "atLeast actual minimum = (case minimum of None \<Rightarrow> True | Some m \<Rightarrow> RELIABILITY_ORDER actual \<ge> RELIABILITY_ORDER m)"

definition policyCompatible :: "provider_descriptor \<Rightarrow> routing_context \<Rightarrow> eligibility_rule \<Rightarrow> bool" where
  "policyCompatible d c e = (let k = pd_capabilities d; classes = pc_classes k in
     if cx_capability c \<notin> set (pc_supported k) then False
     else if cx_tool_use c = RQ_REQUIRED \<and> pc_tool_use k \<noteq> SUPPORTED then False
     else if el_tool_use e = Some True \<and> pc_tool_use k \<noteq> SUPPORTED then False
     else if el_structured e = Some True \<and> pc_structured k \<noteq> SUPPORTED then False
     else if el_locality e \<noteq> None \<and> el_locality e \<noteq> Some (pc_locality k) then False
     else if (case el_context e of None \<Rightarrow> False | Some m \<Rightarrow> CONTEXT_ORDER (pc_context k) < CONTEXT_ORDER m) then False
     else if \<not> atLeast (pc_semantic k) (el_semantic e) then False
     else if \<not> atLeast (pc_authority k) (el_authority e) then False
     else if \<not> atLeast (pc_continuity k) (el_continuity e) then False
     else if (case el_required e of None \<Rightarrow> False | Some xs \<Rightarrow> \<not> list_ex (\<lambda>v. v \<in> set classes) xs) then False
     else if (case el_excluded e of None \<Rightarrow> False | Some xs \<Rightarrow> list_ex (\<lambda>v. v \<in> set classes) xs) then False
     else True)"

definition eligible :: "provider_descriptor \<Rightarrow> routing_context \<Rightarrow> eligibility_rule \<Rightarrow> bool" where
  "eligible d c e \<longleftrightarrow> pd_enabled d \<and> policyCompatible d c e"

section \<open>Ranking\<close>

definition compareNumber :: "int \<Rightarrow> int \<Rightarrow> sort_direction \<Rightarrow> int" where
  "compareNumber a b dir = (if dir = ASCENDING then a - b else b - a)"

definition MAX_SAFE_INTEGER :: int where "MAX_SAFE_INTEGER = 9007199254740991"

definition classRank :: "provider_descriptor \<Rightarrow> routing_class list \<Rightarrow> int" where
  "classRank d preference =
     (let indexes = List.map_filter (\<lambda>v. js_index_of v preference) (pc_classes (pd_capabilities d)) in
      if indexes = [] then MAX_SAFE_INTEGER else int (Min (set indexes)))"

text \<open>The number a dimension compares; \<open>compareByRule\<close> is \<open>compareNumber\<close> of the two numbers.\<close>

definition rank_number :: "ranking_rule \<Rightarrow> provider_descriptor \<Rightarrow> int" where
  "rank_number r d = (let k = pd_capabilities d; p = pd_profile d in
     case rk_dimension r of
       D_ROUTING_CLASS \<Rightarrow> classRank d (case rk_preference r of None \<Rightarrow> [] | Some xs \<Rightarrow> xs)
     | D_SEMANTIC_RELIABILITY \<Rightarrow> RELIABILITY_ORDER (pc_semantic k)
     | D_AUTHORITY_RELIABILITY \<Rightarrow> RELIABILITY_ORDER (pc_authority k)
     | D_CONTINUITY_RELIABILITY \<Rightarrow> RELIABILITY_ORDER (pc_continuity k)
     | D_LATENCY_TIER \<Rightarrow> LATENCY_ORDER (op_latency p)
     | D_COST_TIER \<Rightarrow> COST_ORDER (op_cost p))"

definition compareByRule :: "provider_descriptor \<Rightarrow> provider_descriptor \<Rightarrow> ranking_rule \<Rightarrow> int" where
  "compareByRule a b r = compareNumber (rank_number r a) (rank_number r b) (rk_direction r)"

fun rank_compare :: "collation \<Rightarrow> ranking_rule list \<Rightarrow> provider_descriptor \<Rightarrow> provider_descriptor \<Rightarrow> int" where
  "rank_compare lc [] a b = by_provider_id lc a b"
| "rank_compare lc (r # rs) a b =
     (let compared = compareByRule a b r in if compared \<noteq> 0 then compared else rank_compare lc rs a b)"

section \<open>The engine\<close>

record policy_engine =
  en_policies :: "routing_policy list"
  en_version :: string
  en_digest :: string

fun collect_policies :: "Id list \<Rightarrow> routing_policy list \<Rightarrow> routing_error + routing_policy list" where
  "collect_policies ids [] = Inr []"
| "collect_policies ids (p # ps) =
     (if \<not> isRoutingIdentifier (rp_id p) then Inl ''Invalid policyId''
      else if rp_id p \<in> set ids then Inl (''Duplicate policyId: '' @ rp_id p)
      else err_bind (freezePolicy p) (\<lambda>q.
           err_bind (collect_policies (rp_id p # ids) ps) (\<lambda>qs. Inr (q # qs))))"

definition by_policy_id :: "collation \<Rightarrow> routing_policy \<Rightarrow> routing_policy \<Rightarrow> int" where
  "by_policy_id lc a b = lc (rp_id a) (rp_id b)"

definition by_precedence :: "collation \<Rightarrow> routing_policy \<Rightarrow> routing_policy \<Rightarrow> int" where
  "by_precedence lc = then_compare (\<lambda>a b. rp_precedence b - rp_precedence a) (by_policy_id lc)"

definition new_policy_engine ::
  "collation \<Rightarrow> (json \<Rightarrow> string) \<Rightarrow> policy_configuration \<Rightarrow> routing_error + policy_engine" where
  "new_policy_engine lc digest cf =
     err_bind (assertVersion (pf_version cf) ''policyConfiguration.version'') (\<lambda>_.
     if pf_policies cf = [] then Inl ''Routing policy configuration must not be empty'' else
     err_bind (collect_policies [] (pf_policies cf)) (\<lambda>ps.
       let policies = js_sort (by_precedence lc) ps in
       Inr \<lparr>en_policies = policies, en_version = pf_version cf,
            en_digest = digest (JObj [(''version'', JStr (pf_version cf)),
              (''policies'', JArr (map canonicalPolicy (js_sort (by_policy_id lc) policies)))])\<rparr>))"

definition validateContext :: "routing_context \<Rightarrow> routing_error + unit" where
  "validateContext c = guard_err ''Invalid validationProfile'' (isRoutingIdentifier (cx_profile c))"

definition compositeConfigurationDigest :: "(json \<Rightarrow> string) \<Rightarrow> policy_engine \<Rightarrow> registry_snapshot \<Rightarrow> string" where
  "compositeConfigurationDigest digest en sn =
     digest (JObj [(''registryDigest'', JStr (sn_digest sn)), (''policyDigest'', JStr (en_digest en))])"

definition decision_of ::
  "policy_engine \<Rightarrow> Id option \<Rightarrow> Id list \<Rightarrow> Id option \<Rightarrow> routing_reason \<Rightarrow> registry_snapshot \<Rightarrow> string \<Rightarrow> selection_decision" where
  "decision_of en sel ids pid reason sn dg =
     \<lparr>sd_selected = sel, sd_eligible = ids, sd_policy = pid, sd_reason = reason,
      sd_policy_version = en_version en, sd_registry_version = sn_version sn,
      sd_registry_digest = sn_digest sn, sd_policy_digest = en_digest en, sd_digest = dg\<rparr>"

definition matching_policy :: "policy_engine \<Rightarrow> routing_context \<Rightarrow> routing_policy option" where
  "matching_policy en c = List.find (\<lambda>p. matchesPredicate (rp_when p) c) (en_policies en)"

definition select_candidates ::
  "collation \<Rightarrow> routing_policy \<Rightarrow> routing_context \<Rightarrow> registry_snapshot \<Rightarrow> provider_descriptor list" where
  "select_candidates lc p c sn =
     js_sort (rank_compare lc (rp_ranking p))
       (filter (\<lambda>d. eligible d c (rp_eligibility p))
         (map rp_descriptor (filter (\<lambda>e. rp_availability e = AVAILABLE) (sn_providers sn))))"

definition select_provider ::
  "collation \<Rightarrow> (json \<Rightarrow> string) \<Rightarrow> policy_engine \<Rightarrow> routing_context \<Rightarrow> registry_snapshot \<Rightarrow> routing_error + selection_decision" where
  "select_provider lc digest en c sn =
     err_bind (validateContext c) (\<lambda>_.
     let dg = compositeConfigurationDigest digest en sn in
     case matching_policy en c of
       None \<Rightarrow> Inr (decision_of en None [] None POLICY_NOT_MATCHED sn dg)
     | Some p \<Rightarrow>
         let ids = map pd_id (select_candidates lc p c sn) in
         if ids = [] then Inr (decision_of en None [] (Some (rp_id p)) NO_ELIGIBLE_PROVIDER sn dg)
         else Inr (decision_of en (Some (hd ids)) ids (Some (rp_id p)) SELECTED sn dg))"

definition ids_of :: "collation \<Rightarrow> provider_descriptor list \<Rightarrow> Id list" where
  "ids_of lc ds = map pd_id (js_sort (by_provider_id lc) ds)"

definition is_network :: "provider_descriptor \<Rightarrow> bool" where
  "is_network d \<longleftrightarrow> pc_locality (pd_capabilities d) = EL_NETWORK"

definition is_local :: "provider_descriptor \<Rightarrow> bool" where
  "is_local d \<longleftrightarrow> pc_locality (pd_capabilities d) = EL_LOCAL"

definition staticEligibility ::
  "collation \<Rightarrow> (json \<Rightarrow> string) \<Rightarrow> policy_engine \<Rightarrow> routing_context \<Rightarrow> registry_snapshot \<Rightarrow> routing_error + eligibility_projection" where
  "staticEligibility lc digest en c sn =
     err_bind (validateContext c) (\<lambda>_.
     let dg = compositeConfigurationDigest digest en sn;
         base = (\<lambda>m pid loc net inet el eln ell.
           \<lparr>ep_matched = m, ep_matched_policy = pid, ep_requires_local = loc, ep_network = net,
            ep_network_ignoring_enabled = inet, ep_eligible = el, ep_eligible_network = eln, ep_eligible_local = ell,
            ep_policy_version = en_version en, ep_registry_version = sn_version sn,
            ep_registry_digest = sn_digest sn, ep_policy_digest = en_digest en, ep_digest = dg\<rparr>)
     in case matching_policy en c of
       None \<Rightarrow> Inr (base False None False [] [] [] [] [])
     | Some p \<Rightarrow>
         let everyone = map rp_descriptor (sn_providers sn);
             network = filter is_network everyone;
             elig = filter (\<lambda>d. eligible d c (rp_eligibility p)) everyone
         in Inr (base True (Some (rp_id p)) (el_locality (rp_eligibility p) = Some EL_LOCAL) (ids_of lc network)
              (ids_of lc (filter (\<lambda>d. policyCompatible d c (rp_eligibility p)) network))
              (ids_of lc elig) (ids_of lc (filter is_network elig)) (ids_of lc (filter is_local elig))))"

section \<open>The comparators are consistent\<close>

lemma rank_compare_Cons:
  "rank_compare lc (r # rs) = then_compare (\<lambda>a b. compareByRule a b r) (rank_compare lc rs)"
  by (intro ext) (simp add: then_compare_def Let_def)

lemma consistent_compareByRule: "consistent_comparator (\<lambda>a b. compareByRule a b r)"
  using consistent_difference [of "rank_number r"] consistent_difference [of "\<lambda>d. - rank_number r d"]
  by (cases "rk_direction r") (simp_all add: compareByRule_def compareNumber_def)

lemma consistent_rank_compare:
  assumes "consistent_comparator lc"
  shows "consistent_comparator (rank_compare lc rs)"
proof (induction rs)
  case Nil
  show ?case using consistent_key [OF assms, of pd_id]
    by (simp add: by_provider_id_def [abs_def] fun_eq_iff)
next
  case (Cons r rs)
  then show ?case unfolding rank_compare_Cons by (intro consistent_then consistent_compareByRule)
qed

lemma consistent_by_policy_id: "consistent_comparator lc \<Longrightarrow> consistent_comparator (by_policy_id lc)"
  using consistent_key [of lc rp_id] by (simp add: by_policy_id_def [abs_def])

lemma consistent_by_precedence: "consistent_comparator lc \<Longrightarrow> consistent_comparator (by_precedence lc)"
  unfolding by_precedence_def
  using consistent_difference [of "\<lambda>p. - rp_precedence p"]
  by (intro consistent_then consistent_by_policy_id) simp_all

section \<open>Construction\<close>

lemma freezePolicy_Inr: "freezePolicy p = Inr q \<Longrightarrow> q = p"
  by (auto simp: freezePolicy_def err_bind_Inr_iff)

text \<open>\<open>collect_policies\<close> succeeds exactly on policies that pass their own checks and have distinct identifiers.\<close>

lemma collect_policies_Inr:
  "collect_policies ids ps = Inr qs \<Longrightarrow>
     qs = ps \<and> list_all (\<lambda>p. isRoutingIdentifier (rp_id p) \<and> freezePolicy p = Inr p) ps \<and>
     distinct (map rp_id ps) \<and> list_all (\<lambda>p. rp_id p \<notin> set ids) ps"
proof (induction ids ps arbitrary: qs rule: collect_policies.induct)
  case (2 ids p ps)
  then obtain q rs where q: "isRoutingIdentifier (rp_id p)" "rp_id p \<notin> set ids" "freezePolicy p = Inr q"
    "collect_policies (rp_id p # ids) ps = Inr rs" "qs = q # rs"
    by (auto simp: err_bind_Inr_iff split: if_splits)
  have IH: "rs = ps \<and> list_all (\<lambda>p. isRoutingIdentifier (rp_id p) \<and> freezePolicy p = Inr p) ps \<and>
     distinct (map rp_id ps) \<and> list_all (\<lambda>r. rp_id r \<notin> set (rp_id p # ids)) ps"
    by (rule 2(1) [OF _ q(2,4)]) (simp add: q(1))
  have "q = p" using q(3) by (rule freezePolicy_Inr)
  moreover have "rp_id p \<notin> rp_id ` set ps" using IH q(1,2) by (auto simp: list_all_iff)
  ultimately show ?case using IH q by (auto simp: list_all_iff)
qed simp

lemma collect_policies_accepts:
  "list_all (\<lambda>p. isRoutingIdentifier (rp_id p) \<and> freezePolicy p = Inr p) ps \<Longrightarrow> distinct (map rp_id ps) \<Longrightarrow>
   list_all (\<lambda>p. rp_id p \<notin> set ids) ps \<Longrightarrow> collect_policies ids ps = Inr ps"
proof (induction ps arbitrary: ids)
  case (Cons p ps)
  have "rp_id q \<notin> set (rp_id p # ids)" if "q \<in> set ps" for q 

  proof -
    have "rp_id p \<notin> rp_id ` set ps" using Cons.prems(2) by simp
    then have "rp_id q \<noteq> rp_id p" using that by (metis imageI)
    then show ?thesis using Cons.prems(3) that by (simp add: list_all_iff)
  qed
  then have "list_all (\<lambda>q. rp_id q \<notin> set (rp_id p # ids)) ps" unfolding list_all_iff by blast
  with Cons show ?case by simp
qed simp

lemma collect_policies_Inr_iff:
  "collect_policies [] ps = Inr qs \<longleftrightarrow>
     qs = ps \<and> list_all (\<lambda>p. isRoutingIdentifier (rp_id p) \<and> freezePolicy p = Inr p) ps \<and> distinct (map rp_id ps)"
  using collect_policies_Inr [of "[]" ps qs] collect_policies_accepts [of ps "[]"] by (auto simp: list_all_iff)

lemma new_policy_engine_Inr:
  assumes "new_policy_engine lc digest cf = Inr en"
  shows "collect_policies [] (pf_policies cf) = Inr (pf_policies cf)"
    "en_policies en = js_sort (by_precedence lc) (pf_policies cf)" "distinct (map rp_id (pf_policies cf))"
  using assms by (auto simp: new_policy_engine_def err_bind_Inr_iff Let_def collect_policies_Inr_iff split: if_splits)

lemma find_sorted:
  assumes "consistent_comparator cmp" "List.find P (js_sort cmp xs) = Some x"
  shows "x \<in> set xs" "P x" "\<And>y. y \<in> set xs \<Longrightarrow> P y \<Longrightarrow> cmp x y \<le> 0"
proof -
  obtain i where i: "i < length (js_sort cmp xs)" "P (js_sort cmp xs ! i)" "x = js_sort cmp xs ! i"
    "\<And>j. j < i \<Longrightarrow> \<not> P (js_sort cmp xs ! j)"
    using assms(2) unfolding find_Some_iff by blast
  have m: "js_sort cmp xs ! i \<in> set xs" using nth_mem [OF i(1)] by simp
  show "x \<in> set xs" "P x" using i(2,3) m by simp_all
  show "cmp x y \<le> 0" if "y \<in> set xs" "P y" for y
  proof -
    have "y \<in> set (js_sort cmp xs)" using that(1) by simp
    then obtain j where j: "j < length (js_sort cmp xs)" "y = js_sort cmp xs ! j"
      unfolding in_set_conv_nth by blast
    have "i \<le> j" using i(4) j that(2) by (meson leI)
    then show ?thesis
      using sorted_wrt_nth_less [OF sorted_js_sort [OF assms(1)], of i j xs] i j consistent_comparatorD(3) [OF assms(1)]
      by (cases "i = j") auto
  qed
qed

text \<open>The policy a context is routed by is one of the configured policies that match it, with the highest
  precedence among them; there is none exactly when no configured policy matches.\<close>

theorem highest_precedence_policy_matches:
  assumes "consistent_comparator lc" "new_policy_engine lc digest cf = Inr en"
  shows "case matching_policy en c of
      None \<Rightarrow> filter (\<lambda>p. matchesPredicate (rp_when p) c) (pf_policies cf) = []
    | Some p \<Rightarrow> p \<in> set (pf_policies cf) \<and> matchesPredicate (rp_when p) c \<and>
        list_all (\<lambda>q. rp_precedence q \<le> rp_precedence p) (filter (\<lambda>q. matchesPredicate (rp_when q) c) (pf_policies cf))"
proof (cases "matching_policy en c")
  case None
  then have "\<not> (\<exists>p\<in>set (pf_policies cf). matchesPredicate (rp_when p) c)"
    unfolding matching_policy_def new_policy_engine_Inr(2) [OF assms(2)] find_None_iff by auto
  with None show ?thesis by (auto simp: filter_empty_conv)
next
  case (Some p)
  note f = find_sorted [OF consistent_by_precedence [OF assms(1)]
      Some [unfolded matching_policy_def new_policy_engine_Inr(2) [OF assms(2)]]]
  have "rp_precedence q \<le> rp_precedence p" if "q \<in> set (pf_policies cf)" "matchesPredicate (rp_when q) c" for q
    using f(3) [OF that] by (auto simp: by_precedence_def then_compare_def split: if_splits)
  with Some f show ?thesis by (simp add: list_all_iff)
qed

section \<open>Selection\<close>

definition available_eligible :: "routing_policy \<Rightarrow> routing_context \<Rightarrow> registry_snapshot \<Rightarrow> provider_descriptor set" where
  "available_eligible p c sn =
     {d \<in> rp_descriptor ` {e \<in> set (sn_providers sn). rp_availability e = AVAILABLE}. eligible d c (rp_eligibility p)}"

lemma set_select_candidates: "set (select_candidates lc p c sn) = available_eligible p c sn"
  by (auto simp: select_candidates_def available_eligible_def)

lemma hd_select_candidates:
  assumes "consistent_comparator lc" "select_candidates lc p c sn \<noteq> []" "e \<in> available_eligible p c sn"
  shows "rank_compare lc (rp_ranking p) (hd (select_candidates lc p c sn)) e \<le> 0"
proof -
  let ?xs = "select_candidates lc p c sn"
  note cc = consistent_rank_compare [OF assms(1), of "rp_ranking p"]
  have s: "sorted_wrt (\<lambda>a b. rank_compare lc (rp_ranking p) a b \<le> 0) ?xs"
    unfolding select_candidates_def by (rule sorted_js_sort [OF cc])
  obtain x xs where x: "?xs = x # xs" using assms(2) by (cases ?xs) auto
  have "e \<in> set ?xs" using assms(3) by (simp only: set_select_candidates)
  then show ?thesis using s consistent_comparatorD(3) [OF cc] x by auto
qed

text \<open>C25. \<open>select\<close> chooses a provider exactly when the matched policy has one that is available, enabled and
  compatible; the chosen one ranks first among them under the policy's rules in order, and the list of eligible
  identifiers names exactly these providers. Without a choice the decision says why.\<close>

theorem selected_provider_ranks_first:
  assumes "consistent_comparator lc" "select_provider lc digest en c sn = Inr dec"
  shows "case matching_policy en c of
      None \<Rightarrow> sd_reason dec = POLICY_NOT_MATCHED \<and> sd_selected dec = None \<and> sd_eligible dec = []
    | Some p \<Rightarrow> set (sd_eligible dec) = pd_id ` available_eligible p c sn \<and>
        (if available_eligible p c sn = {} then sd_reason dec = NO_ELIGIBLE_PROVIDER \<and> sd_selected dec = None
         else sd_reason dec = SELECTED \<and>
           (\<exists>d. d \<in> available_eligible p c sn \<and> sd_selected dec = Some (pd_id d) \<and>
              available_eligible p c sn \<subseteq> {e. rank_compare lc (rp_ranking p) d e \<le> 0}))"
proof (cases "matching_policy en c")
  case None
  with assms(2) show ?thesis by (auto simp: select_provider_def err_bind_Inr_iff decision_of_def Let_def)
next
  case (Some p)
  let ?xs = "select_candidates lc p c sn"
  have e: "?xs = [] \<longleftrightarrow> available_eligible p c sn = {}"
    using set_select_candidates [of lc p c sn] by (metis set_empty)
  show ?thesis
  proof (cases "?xs = []")
    case True
    with assms(2) Some e show ?thesis
      by (auto simp: select_provider_def err_bind_Inr_iff decision_of_def Let_def)
  next
    case False
    have d: "dec = decision_of en (Some (pd_id (hd ?xs))) (map pd_id ?xs) (Some (rp_id p)) SELECTED sn
        (compositeConfigurationDigest digest en sn)"
      using assms(2) Some False by (auto simp: select_provider_def err_bind_Inr_iff Let_def hd_map split: if_splits)
    have "hd ?xs \<in> available_eligible p c sn" using hd_in_set [OF False] by (simp only: set_select_candidates)
    moreover have "available_eligible p c sn \<subseteq> {e. rank_compare lc (rp_ranking p) (hd ?xs) e \<le> 0}"
      using hd_select_candidates [OF assms(1) False] by blast
    moreover have "set (sd_eligible dec) = pd_id ` available_eligible p c sn" "sd_reason dec = SELECTED"
      "sd_selected dec = Some (pd_id (hd ?xs))"
      by (simp_all add: d decision_of_def set_select_candidates)
    moreover have "available_eligible p c sn \<noteq> {}" using False e by blast
    ultimately show ?thesis using Some by auto
  qed
qed


section \<open>The static projection\<close>

lemma set_ids_of [simp]: "set (ids_of lc ds) = pd_id ` set ds"
  by (simp add: ids_of_def)

text \<open>The static projection and the selection agree: they carry the same digest, the providers eligible for
  selection are exactly the statically eligible ones that are available, and the compatible network providers that
  are not eligible are exactly the disabled ones.\<close>

theorem static_projection_covers_selection:
  assumes "select_provider lc digest en c sn = Inr dec" "staticEligibility lc digest en c sn = Inr proj"
    "distinct (map (\<lambda>e. pd_id (rp_descriptor e)) (sn_providers sn))"
  shows "ep_digest proj = sd_digest dec \<and> ep_matched_policy proj = sd_policy dec \<and>
    set (sd_eligible dec) = set (ep_eligible proj) \<inter>
      set (map (\<lambda>e. pd_id (rp_descriptor e)) (filter (\<lambda>e. rp_availability e = AVAILABLE) (sn_providers sn))) \<and>
    set (ep_network_ignoring_enabled proj) - set (ep_eligible_network proj) =
      set (ep_network_ignoring_enabled proj) \<inter>
      set (map pd_id (filter (\<lambda>d. \<not> pd_enabled d) (map rp_descriptor (sn_providers sn))))"
proof (cases "matching_policy en c")
  case None
  with assms(1,2) show ?thesis
    by (auto simp: select_provider_def staticEligibility_def err_bind_Inr_iff decision_of_def Let_def)
next
  case (Some p)
  let ?all = "rp_descriptor ` set (sn_providers sn)" and ?e = "rp_eligibility p"
  let ?av = "rp_descriptor ` {e \<in> set (sn_providers sn). rp_availability e = AVAILABLE}"
  have pr: "ep_digest proj = compositeConfigurationDigest digest en sn"
    "ep_matched_policy proj = Some (rp_id p)"
    "set (ep_eligible proj) = pd_id ` {d \<in> ?all. eligible d c ?e}"
    "set (ep_network_ignoring_enabled proj) = pd_id ` {d \<in> ?all. is_network d \<and> policyCompatible d c ?e}"
    "set (ep_eligible_network proj) = pd_id ` {d \<in> ?all. is_network d \<and> eligible d c ?e}"
    using assms(2) Some by (auto simp: staticEligibility_def err_bind_Inr_iff Let_def)
  have dec: "sd_digest dec = compositeConfigurationDigest digest en sn" "sd_policy dec = Some (rp_id p)"
    "set (sd_eligible dec) = pd_id ` available_eligible p c sn"
    using assms(1) Some set_select_candidates [of lc p c sn]
    by (auto simp: select_provider_def err_bind_Inr_iff decision_of_def Let_def split: if_splits)
  have sets: "set (map (\<lambda>e. pd_id (rp_descriptor e)) (filter (\<lambda>e. rp_availability e = AVAILABLE) (sn_providers sn))) = pd_id ` ?av"
    "set (map pd_id (filter (\<lambda>d. \<not> pd_enabled d) (map rp_descriptor (sn_providers sn)))) = pd_id ` {d \<in> ?all. \<not> pd_enabled d}"
    by (auto simp: image_image)
  have inj: "inj_on pd_id ?all" using assms(3) by (auto simp: distinct_map intro!: inj_onI dest: inj_onD)
  have "available_eligible p c sn = {d \<in> ?all. eligible d c ?e} \<inter> ?av" by (auto simp: available_eligible_def)
  then have 1: "pd_id ` available_eligible p c sn = pd_id ` {d \<in> ?all. eligible d c ?e} \<inter> pd_id ` ?av"
    using inj_on_image_Int [OF inj, of "{d \<in> ?all. eligible d c ?e}" ?av] by auto
  have "pd_id ` {d \<in> ?all. is_network d \<and> policyCompatible d c ?e} - pd_id ` {d \<in> ?all. is_network d \<and> eligible d c ?e}
      = pd_id ` ({d \<in> ?all. is_network d \<and> policyCompatible d c ?e} - {d \<in> ?all. is_network d \<and> eligible d c ?e})"
    by (rule inj_on_image_set_diff [OF inj, symmetric]) auto
  also have "\<dots> = pd_id ` ({d \<in> ?all. is_network d \<and> policyCompatible d c ?e} \<inter> {d \<in> ?all. \<not> pd_enabled d})"
    by (rule arg_cong [where f = "image pd_id"]) (auto simp: eligible_def)
  also have "\<dots> = pd_id ` {d \<in> ?all. is_network d \<and> policyCompatible d c ?e} \<inter> pd_id ` {d \<in> ?all. \<not> pd_enabled d}"
    by (rule inj_on_image_Int [OF inj]) auto
  finally show ?thesis unfolding sets using 1 pr dec by simp
qed

section \<open>An example\<close>

definition example_provider :: "Id \<Rightarrow> reliability_tier \<Rightarrow> execution_locality \<Rightarrow> bool \<Rightarrow> provider_descriptor" where
  "example_provider i rel loc on =
     \<lparr>pd_id = i, pd_adapter = ''cli'', pd_model = js ''model'',
      pd_capabilities = \<lparr>pc_supported = [GENERAL_CHAT], pc_classes = [RC_BALANCED], pc_semantic = rel,
        pc_authority = rel, pc_continuity = RL_LOW, pc_tool_use = SUPPORTED, pc_structured = UNSUPPORTED,
        pc_context = CC_LARGE, pc_streaming = UNSUPPORTED, pc_locality = loc\<rparr>,
      pd_profile = \<lparr>op_latency = LT_FAST, op_timeout = TC_SHORT, op_cost = CT_LOW, op_concurrency = CN_SINGLE,
        op_availability = AV_LOCAL_STABLE\<rparr>,
      pd_enabled = on, pd_version = ''1'', pd_evidence = None\<rparr>"

definition example_snapshot :: registry_snapshot where
  "example_snapshot = \<lparr>sn_version = ''1'', sn_digest = replicate 64 (CHR ''a''), sn_providers =
     [\<lparr>rp_descriptor = example_provider ''a'' RL_STANDARD EL_LOCAL True, rp_availability = AVAILABLE\<rparr>,
      \<lparr>rp_descriptor = example_provider ''b'' RL_HIGH EL_NETWORK True, rp_availability = AVAILABLE\<rparr>,
      \<lparr>rp_descriptor = example_provider ''c'' RL_HIGH EL_NETWORK False, rp_availability = AVAILABLE\<rparr>,
      \<lparr>rp_descriptor = example_provider ''d'' RL_LOW EL_LOCAL True, rp_availability = UNAVAILABLE\<rparr>]\<rparr>"

definition example_predicate :: routing_predicate where
  "example_predicate = \<lparr>w_capabilities = Some [GENERAL_CHAT], w_requests = None, w_intents = None, w_risks = None,
     w_latencies = None, w_tool_use = None, w_authority = None, w_continuity = None, w_outputs = None, w_profiles = None\<rparr>"

definition example_rule :: eligibility_rule where
  "example_rule = \<lparr>el_required = None, el_excluded = None, el_semantic = Some RL_LOW, el_authority = None,
     el_continuity = None, el_tool_use = None, el_structured = None, el_context = None, el_locality = None\<rparr>"

definition example_policy :: "Id \<Rightarrow> int \<Rightarrow> sort_direction \<Rightarrow> routing_policy" where
  "example_policy i n dir = \<lparr>rp_id = i, rp_version = ''1'', rp_precedence = n, rp_when = example_predicate,
     rp_eligibility = example_rule,
     rp_ranking = [\<lparr>rk_dimension = D_SEMANTIC_RELIABILITY, rk_direction = dir, rk_preference = None\<rparr>],
     rp_terminal = NO_SELECTION\<rparr>"

definition example_policies :: "routing_policy list" where
  "example_policies = [example_policy ''low'' 1 ASCENDING, example_policy ''high'' 10 DESCENDING]"

definition example_digest :: "json \<Rightarrow> string" where "example_digest v = replicate 64 (CHR ''a'')"

definition example_engine :: policy_engine where
  "example_engine = \<lparr>en_policies = rev example_policies, en_version = ''1'', en_digest = replicate 64 (CHR ''a'')\<rparr>"

definition example_context :: routing_context where
  "example_context = \<lparr>cx_capability = GENERAL_CHAT, cx_request = Q_WORK, cx_intent = CHAT, cx_risk = SR_LOW,
     cx_latency = LC_BATCH, cx_tool_use = RQ_REQUIRED, cx_authority = AQ_UNKNOWN, cx_continuity = RQ_UNKNOWN,
     cx_output = OS_SMALL, cx_profile = ''chat''\<rparr>"

lemma example_engine_built:
  "new_policy_engine code_compare example_digest \<lparr>pf_version = ''1'', pf_policies = example_policies\<rparr> = Inr example_engine"
  by code_simp

lemma example_selection:
  "select_provider code_compare example_digest example_engine example_context example_snapshot =
     Inr (decision_of example_engine (Some ''b'') [''b'', ''a''] (Some ''high'') SELECTED example_snapshot (example_digest JNull))"
  by code_simp

lemma example_projection:
  "staticEligibility code_compare example_digest example_engine example_context example_snapshot = Inr
     \<lparr>ep_matched = True, ep_matched_policy = Some ''high'', ep_requires_local = False, ep_network = [''b'', ''c''],
      ep_network_ignoring_enabled = [''b'', ''c''], ep_eligible = [''a'', ''b'', ''d''],
      ep_eligible_network = [''b''], ep_eligible_local = [''a'', ''d''],
      ep_policy_version = ''1'', ep_registry_version = ''1'', ep_registry_digest = replicate 64 (CHR ''a''),
      ep_policy_digest = replicate 64 (CHR ''a''), ep_digest = replicate 64 (CHR ''a'')\<rparr>"
  by code_simp

lemma example_match: "matching_policy example_engine example_context = Some (example_policy ''high'' 10 DESCENDING)"
  by code_simp

lemma highest_precedence_policy_matches_witness:
  "list_all (\<lambda>q. rp_precedence q \<le> 10) (filter (\<lambda>q. matchesPredicate (rp_when q) example_context) example_policies)"
  using highest_precedence_policy_matches [OF consistent_code_compare example_engine_built, of example_context]
  by (simp add: example_match example_policy_def)

lemma selected_provider_ranks_first_witness:
  "set [''b'', ''a''] = pd_id ` available_eligible (example_policy ''high'' 10 DESCENDING) example_context example_snapshot"
  using selected_provider_ranks_first [OF consistent_code_compare example_selection]
  by (simp add: example_match decision_of_def)


lemma static_projection_covers_selection_witness:
  "set [''b'', ''a''] = set [''a'', ''b'', ''d''] \<inter> {''a'', ''b'', ''c''} \<and> ({''b'', ''c''} - {''b''} :: string set) = {''c''}"
  using static_projection_covers_selection [OF example_selection example_projection]
  by (simp add: example_snapshot_def example_provider_def decision_of_def)

end
