(* ===== verification/Validation_Profiles.thy ===== *)
theory Validation_Profiles
  imports Provider_Registry
begin

text \<open>
  What the response validation and the routing gateway agree on: the rules and reason codes and the failure matrix of
  \<open>runtime-response-validation-contracts.ts\<close>, its use in \<open>routing-failure-classifier.ts\<close>, and the registry
  of validation profiles (\<open>validation-profile-registry.ts\<close>; all under \<open>packages/core/src/application\<close>).
\<close>

section \<open>Rules, reasons, failure codes\<close>

datatype disposition = ACCEPT | ESCALATE | REJECT

datatype validation_rule =
  V_NON_EMPTY | V_OUTPUT_LIMIT | V_PROMPT_LEAK | V_MULTI_ENTRY_ECHO | V_SECRET_EXPOSURE_RISK
  | V_RECENCY_GROUNDING | V_AUTHORITY_SEMANTIC_SCOPE

datatype reason_code =
  N_EMPTY_OUTPUT | N_OUTPUT_LIMIT_VIOLATION | N_PROMPT_LEAK | N_MULTI_ENTRY_ECHO | N_SECRET_EXPOSURE_RISK
  | N_RECENCY_GROUNDING_VIOLATION | N_AUTHORITY_SCOPE_VIOLATION | N_VALIDATOR_INTERNAL_FAILURE

datatype failure_class = FC_CONFIGURATION | FC_OPERATIONAL | FC_VALIDATION | FC_SAFETY

datatype producer_status = ACTIVE | PRODUCER_PENDING

datatype failure_code =
  F_ROUTING_CONFIGURATION_MISMATCH | F_BINDING_MISMATCH | F_PROVIDER_BINDING_NOT_FOUND | F_PROVIDER_DISABLED
  | F_UNKNOWN_VALIDATION_PROFILE | F_PROVIDER_UNAVAILABLE | F_PROVIDER_AUTH_REQUIRED | F_PROVIDER_TIMEOUT
  | F_PROVIDER_EXECUTION_FAILED | F_PROVIDER_SPAWN_FAILED | F_EMPTY_OUTPUT | F_OUTPUT_LIMIT_VIOLATION
  | F_STRUCTURAL_VALIDATION_FAILED | F_SEMANTIC_VALIDATION_FAILED | F_SEMANTIC_VALIDATION_UNRESOLVED
  | F_STRUCTURAL_VALIDATION_UNRESOLVED | F_DEADLINE_EXHAUSTED | F_PROMPT_LEAK | F_MULTI_ENTRY_ECHO
  | F_SECRET_EXPOSURE_RISK | F_CONTAINMENT_FAILURE | F_MODEL_DOWNLOAD_DETECTED | F_VALIDATOR_INTERNAL_FAILURE

datatype consumed = Consumed nat | Contextual

record failure_policy =
  fp_code :: failure_code
  fp_class :: failure_class
  fp_consumed :: consumed
  fp_fallback :: bool
  fp_escalation :: bool
  fp_fail_closed :: bool
  fp_human_review :: bool
  fp_producer :: producer_status

definition configuration_failure :: "failure_code \<Rightarrow> failure_policy" where
  "configuration_failure c = \<lparr>fp_code = c, fp_class = FC_CONFIGURATION, fp_consumed = Consumed 0, fp_fallback = False,
     fp_escalation = False, fp_fail_closed = True, fp_human_review = False, fp_producer = ACTIVE\<rparr>"

definition operational_failure :: "failure_code \<Rightarrow> bool \<Rightarrow> producer_status \<Rightarrow> failure_policy" where
  "operational_failure c fallback st = \<lparr>fp_code = c, fp_class = FC_OPERATIONAL, fp_consumed = Consumed 1,
     fp_fallback = fallback, fp_escalation = False, fp_fail_closed = (\<not> fallback), fp_human_review = False,
     fp_producer = st\<rparr>"

definition validation_failure :: "failure_code \<Rightarrow> producer_status \<Rightarrow> failure_policy" where
  "validation_failure c st = \<lparr>fp_code = c, fp_class = FC_VALIDATION, fp_consumed = Consumed 1, fp_fallback = False,
     fp_escalation = True, fp_fail_closed = False, fp_human_review = False, fp_producer = st\<rparr>"

definition safety_failure :: "failure_code \<Rightarrow> producer_status \<Rightarrow> failure_policy" where
  "safety_failure c st = \<lparr>fp_code = c, fp_class = FC_SAFETY, fp_consumed = Consumed 1, fp_fallback = False,
     fp_escalation = False, fp_fail_closed = True, fp_human_review = True, fp_producer = st\<rparr>"

definition unresolved_failure :: "failure_code \<Rightarrow> producer_status \<Rightarrow> failure_policy" where
  "unresolved_failure c st = \<lparr>fp_code = c, fp_class = FC_VALIDATION, fp_consumed = Consumed 1, fp_fallback = False,
     fp_escalation = False, fp_fail_closed = False, fp_human_review = True, fp_producer = st\<rparr>"

definition contextual_deadline :: failure_policy where
  "contextual_deadline = \<lparr>fp_code = F_DEADLINE_EXHAUSTED, fp_class = FC_OPERATIONAL, fp_consumed = Contextual,
     fp_fallback = False, fp_escalation = False, fp_fail_closed = True, fp_human_review = False, fp_producer = ACTIVE\<rparr>"

definition FAILURE_MATRIX :: "failure_policy list" where
  "FAILURE_MATRIX =
    [configuration_failure F_ROUTING_CONFIGURATION_MISMATCH,
     configuration_failure F_BINDING_MISMATCH,
     configuration_failure F_PROVIDER_BINDING_NOT_FOUND,
     configuration_failure F_PROVIDER_DISABLED,
     configuration_failure F_UNKNOWN_VALIDATION_PROFILE,
     operational_failure F_PROVIDER_UNAVAILABLE True ACTIVE,
     operational_failure F_PROVIDER_AUTH_REQUIRED True ACTIVE,
     operational_failure F_PROVIDER_TIMEOUT True ACTIVE,
     operational_failure F_PROVIDER_EXECUTION_FAILED True ACTIVE,
     operational_failure F_PROVIDER_SPAWN_FAILED True PRODUCER_PENDING,
     operational_failure F_EMPTY_OUTPUT True ACTIVE,
     operational_failure F_OUTPUT_LIMIT_VIOLATION False ACTIVE,
     validation_failure F_STRUCTURAL_VALIDATION_FAILED PRODUCER_PENDING,
     validation_failure F_SEMANTIC_VALIDATION_FAILED ACTIVE,
     unresolved_failure F_SEMANTIC_VALIDATION_UNRESOLVED ACTIVE,
     unresolved_failure F_STRUCTURAL_VALIDATION_UNRESOLVED PRODUCER_PENDING,
     contextual_deadline,
     safety_failure F_PROMPT_LEAK ACTIVE,
     safety_failure F_MULTI_ENTRY_ECHO ACTIVE,
     safety_failure F_SECRET_EXPOSURE_RISK ACTIVE,
     safety_failure F_CONTAINMENT_FAILURE PRODUCER_PENDING,
     safety_failure F_MODEL_DOWNLOAD_DETECTED PRODUCER_PENDING,
     safety_failure F_VALIDATOR_INTERNAL_FAILURE ACTIVE]"

section \<open>Classification\<close>

text \<open>\<open>failurePolicy\<close>; \<open>None\<close> is its \<open>throw\<close>.\<close>

definition find_failure_policy :: "failure_code \<Rightarrow> failure_policy option" where
  "find_failure_policy c = List.find (\<lambda>p. fp_code p = c) FAILURE_MATRIX"

definition failurePolicy :: "failure_code \<Rightarrow> failure_policy" where
  "failurePolicy c = the (find_failure_policy c)"

lemmas failure_rows = configuration_failure_def operational_failure_def validation_failure_def safety_failure_def
  unresolved_failure_def contextual_deadline_def

text \<open>The matrix has a row for every code, so \<open>failurePolicy\<close> never throws.\<close>

lemma failure_matrix_total: "find_failure_policy c = Some (failurePolicy c)" "fp_code (failurePolicy c) = c"
  by (cases c; simp add: find_failure_policy_def failurePolicy_def FAILURE_MATRIX_def failure_rows)+

lemma failure_matrix_distinct: "distinct (map fp_code FAILURE_MATRIX)"
  by (simp add: FAILURE_MATRIX_def failure_rows)

text \<open>Consistency of the matrix: a row allows at most one of fallback and escalation, a safety row allows neither and
  asks for a review, a row fails closed exactly when it allows nothing and leaves no validation question open.\<close>

lemma failure_matrix_rows:
  "\<not> (fp_fallback (failurePolicy c) \<and> fp_escalation (failurePolicy c))"
  "fp_class (failurePolicy c) = FC_SAFETY \<Longrightarrow>
     \<not> fp_fallback (failurePolicy c) \<and> \<not> fp_escalation (failurePolicy c) \<and> fp_human_review (failurePolicy c)"
  "fp_fail_closed (failurePolicy c) \<longleftrightarrow> \<not> fp_fallback (failurePolicy c) \<and> fp_class (failurePolicy c) \<noteq> FC_VALIDATION"
  "fp_escalation (failurePolicy c) \<longleftrightarrow> c \<in> {F_STRUCTURAL_VALIDATION_FAILED, F_SEMANTIC_VALIDATION_FAILED}"
  by (cases c; simp add: find_failure_policy_def failurePolicy_def FAILURE_MATRIX_def failure_rows)+

datatype ai_failure_kind = K_UNAVAILABLE | K_AUTH_REQUIRED | K_TIMEOUT | K_EXECUTION_FAILED | K_EMPTY_OUTPUT

fun classifyProviderFailure :: "ai_failure_kind \<Rightarrow> failure_code" where
  "classifyProviderFailure K_UNAVAILABLE = F_PROVIDER_UNAVAILABLE"
| "classifyProviderFailure K_AUTH_REQUIRED = F_PROVIDER_AUTH_REQUIRED"
| "classifyProviderFailure K_TIMEOUT = F_PROVIDER_TIMEOUT"
| "classifyProviderFailure K_EXECUTION_FAILED = F_PROVIDER_EXECUTION_FAILED"
| "classifyProviderFailure K_EMPTY_OUTPUT = F_EMPTY_OUTPUT"

fun reason_failure :: "reason_code \<Rightarrow> failure_code" where
  "reason_failure N_PROMPT_LEAK = F_PROMPT_LEAK"
| "reason_failure N_MULTI_ENTRY_ECHO = F_MULTI_ENTRY_ECHO"
| "reason_failure N_SECRET_EXPOSURE_RISK = F_SECRET_EXPOSURE_RISK"
| "reason_failure N_VALIDATOR_INTERNAL_FAILURE = F_VALIDATOR_INTERNAL_FAILURE"
| "reason_failure N_EMPTY_OUTPUT = F_EMPTY_OUTPUT"
| "reason_failure N_OUTPUT_LIMIT_VIOLATION = F_OUTPUT_LIMIT_VIOLATION"
| "reason_failure N_AUTHORITY_SCOPE_VIOLATION = F_SEMANTIC_VALIDATION_FAILED"
| "reason_failure N_RECENCY_GROUNDING_VIOLATION = F_SEMANTIC_VALIDATION_FAILED"

record validation_result =
  vr_disposition :: disposition
  vr_reasons :: "reason_code list"
  vr_sha :: string
  vr_bytes :: int
  vr_version :: string

text \<open>\<open>a ?? b\<close>\<close>

definition coalesce :: "'a option \<Rightarrow> 'a option \<Rightarrow> 'a option" where
  "coalesce a b = (case a of Some x \<Rightarrow> Some x | None \<Rightarrow> b)"

definition classifyValidationFailure :: "validation_result \<Rightarrow> failure_code option" where
  "classifyValidationFailure v =
     (if vr_disposition v = ACCEPT \<and> vr_reasons v = [] then None else
      let mapped = map reason_failure (vr_reasons v) in
      coalesce (List.find (\<lambda>c. fp_class (failurePolicy c) = FC_SAFETY) mapped)
        (coalesce (List.find (\<lambda>c. fp_class (failurePolicy c) = FC_OPERATIONAL) mapped)
           (coalesce (List.find (\<lambda>c. c = F_SEMANTIC_VALIDATION_FAILED) mapped)
              (Some F_STRUCTURAL_VALIDATION_FAILED))))"

lemma classifyValidationFailure_None: "classifyValidationFailure v = None \<longleftrightarrow> vr_disposition v = ACCEPT \<and> vr_reasons v = []"
  by (auto simp: classifyValidationFailure_def coalesce_def Let_def split: option.splits)

text \<open>A safety reason wins over every other reason.\<close>

lemma classify_safety_first:
  assumes "r \<in> set (vr_reasons v)" "fp_class (failurePolicy (reason_failure r)) = FC_SAFETY"
  shows "\<exists>c. classifyValidationFailure v = Some c \<and> fp_class (failurePolicy c) = FC_SAFETY"
proof -
  have "List.find (\<lambda>c. fp_class (failurePolicy c) = FC_SAFETY) (map reason_failure (vr_reasons v)) \<noteq> None"
    using assms by (auto simp: find_None_iff)
  then obtain c where c: "List.find (\<lambda>c. fp_class (failurePolicy c) = FC_SAFETY) (map reason_failure (vr_reasons v)) = Some c"
    by blast
  then have "fp_class (failurePolicy c) = FC_SAFETY" unfolding find_Some_iff by blast
  moreover have "classifyValidationFailure v = Some c"
    using assms(1) c by (auto simp: classifyValidationFailure_def coalesce_def Let_def)
  ultimately show ?thesis by blast
qed

section \<open>Validation profiles\<close>

datatype reliability_axis = AXIS_SEMANTIC | AXIS_AUTHORITY

record profile_configuration =
  vp_id :: Id
  vp_version :: string
  vp_rules :: "validation_rule list"
  vp_limit :: int
  vp_escalation :: bool
  vp_axis :: "reliability_axis option"
  vp_minimum :: "reliability_tier option"

record validation_profile = profile_configuration +
  vp_digest :: string

type_synonym profile_error = "failure_code \<times> string"

definition MAX_PROFILE_OUTPUT_BYTES :: int where "MAX_PROFILE_OUTPUT_BYTES = 1024 * 1024"
definition DEFAULT_OUTPUT_LIMIT_BYTES :: int where "DEFAULT_OUTPUT_LIMIT_BYTES = 64 * 1024"

fun RULE_ORDER :: "validation_rule \<Rightarrow> nat" where
  "RULE_ORDER V_NON_EMPTY = 0"
| "RULE_ORDER V_OUTPUT_LIMIT = 1"
| "RULE_ORDER V_PROMPT_LEAK = 2"
| "RULE_ORDER V_MULTI_ENTRY_ECHO = 3"
| "RULE_ORDER V_SECRET_EXPOSURE_RISK = 4"
| "RULE_ORDER V_RECENCY_GROUNDING = 5"
| "RULE_ORDER V_AUTHORITY_SEMANTIC_SCOPE = 6"

fun rule_text :: "validation_rule \<Rightarrow> string" where
  "rule_text V_NON_EMPTY = ''NON_EMPTY''"
| "rule_text V_OUTPUT_LIMIT = ''OUTPUT_LIMIT''"
| "rule_text V_PROMPT_LEAK = ''PROMPT_LEAK''"
| "rule_text V_MULTI_ENTRY_ECHO = ''MULTI_ENTRY_ECHO''"
| "rule_text V_SECRET_EXPOSURE_RISK = ''SECRET_EXPOSURE_RISK''"
| "rule_text V_RECENCY_GROUNDING = ''RECENCY_GROUNDING''"
| "rule_text V_AUTHORITY_SEMANTIC_SCOPE = ''AUTHORITY_SEMANTIC_SCOPE''"

fun axis_text :: "reliability_axis \<Rightarrow> string" where
  "axis_text AXIS_SEMANTIC = ''SEMANTIC''"
| "axis_text AXIS_AUTHORITY = ''AUTHORITY''"

definition profile_json :: "profile_configuration \<Rightarrow> json" where
  "profile_json c = JObj
     ([(''profileId'', JStr (vp_id c)), (''version'', JStr (vp_version c)),
       (''rules'', JArr (map (\<lambda>r. JStr (rule_text r)) (vp_rules c))),
       (''outputLimitBytes'', JNum (vp_limit c)), (''escalationEnabled'', JBool (vp_escalation c))]
      @ (case vp_axis c of None \<Rightarrow> [] | Some a \<Rightarrow> [(''escalationReliabilityAxis'', JStr (axis_text a))])
      @ (case vp_minimum c of None \<Rightarrow> [] | Some t \<Rightarrow> [(''minimumEscalationReliability'', JStr (reliability_text t))])
      @ [(''ruleContractVersion'', JStr ''routing-response-rules-v2'')])"

definition normalize_profile ::
  "(json \<Rightarrow> string) \<Rightarrow> profile_configuration \<Rightarrow> profile_error + validation_profile" where
  "normalize_profile digest c =
     (if \<not> isRoutingIdentifier (vp_id c) \<or> \<not> is_version (vp_version c)
      then Inl (F_ROUTING_CONFIGURATION_MISMATCH, ''Invalid validation profile identity'')
      else if vp_limit c \<le> 0 \<or> vp_limit c > MAX_PROFILE_OUTPUT_BYTES \<or> length (vp_rules c) = 0
      then Inl (F_ROUTING_CONFIGURATION_MISMATCH, ''Invalid validation profile bounds'')
      else if \<not> distinct (vp_rules c)
      then Inl (F_ROUTING_CONFIGURATION_MISMATCH, ''Invalid validation profile rules'')
      else if vp_escalation c \<noteq> (vp_axis c \<noteq> None) \<or> vp_escalation c \<noteq> (vp_minimum c \<noteq> None)
      then Inl (F_ROUTING_CONFIGURATION_MISMATCH, ''Invalid validation escalation configuration'')
      else let canonical = c\<lparr>vp_rules := sort_key RULE_ORDER (vp_rules c)\<rparr> in
        Inr (profile_configuration.extend canonical \<lparr>vp_digest = digest (profile_json canonical)\<rparr>))"

fun collect_profile_definitions ::
  "(json \<Rightarrow> string) \<Rightarrow> Id list \<Rightarrow> profile_configuration list \<Rightarrow> profile_error + validation_profile list" where
  "collect_profile_definitions digest seen [] = Inr []"
| "collect_profile_definitions digest seen (c # cs) =
     (if vp_id c \<in> set seen then Inl (F_ROUTING_CONFIGURATION_MISMATCH, ''Duplicate validation profile'')
      else err_bind (normalize_profile digest c) (\<lambda>d.
           err_bind (collect_profile_definitions digest (vp_id c # seen) cs) (\<lambda>ds. Inr (d # ds))))"

type_synonym profile_registry = "validation_profile list"

definition new_profile_registry ::
  "collation \<Rightarrow> (json \<Rightarrow> string) \<Rightarrow> profile_configuration list \<Rightarrow> profile_error + profile_registry" where
  "new_profile_registry lc digest cs =
     (if cs = [] then Inl (F_ROUTING_CONFIGURATION_MISMATCH, ''Validation profile registry must not be empty'')
      else err_bind (collect_profile_definitions digest [] cs) (\<lambda>ds. Inr (js_sort (\<lambda>a b. lc (vp_id a) (vp_id b)) ds)))"

definition resolve_profile :: "profile_registry \<Rightarrow> Id \<Rightarrow> profile_error + validation_profile" where
  "resolve_profile reg i = (case List.find (\<lambda>d. vp_id d = i) reg of
     None \<Rightarrow> Inl (F_UNKNOWN_VALIDATION_PROFILE, ''Unknown validation profile'') | Some d \<Rightarrow> Inr d)"

definition default_profiles :: "profile_configuration list" where
  "default_profiles =
    [\<lparr>vp_id = ''LOW_RISK_FAST_PATH'', vp_version = ''1'', vp_rules = [V_NON_EMPTY, V_OUTPUT_LIMIT],
      vp_limit = DEFAULT_OUTPUT_LIMIT_BYTES, vp_escalation = False, vp_axis = None, vp_minimum = None\<rparr>,
     \<lparr>vp_id = ''GENERAL_CHAT'', vp_version = ''2'',
      vp_rules = [V_NON_EMPTY, V_OUTPUT_LIMIT, V_PROMPT_LEAK, V_MULTI_ENTRY_ECHO, V_SECRET_EXPOSURE_RISK, V_RECENCY_GROUNDING],
      vp_limit = DEFAULT_OUTPUT_LIMIT_BYTES, vp_escalation = True, vp_axis = Some AXIS_SEMANTIC, vp_minimum = Some RL_HIGH\<rparr>,
     \<lparr>vp_id = ''AUTHORITY_SENSITIVE'', vp_version = ''1'',
      vp_rules = [V_NON_EMPTY, V_OUTPUT_LIMIT, V_PROMPT_LEAK, V_MULTI_ENTRY_ECHO, V_SECRET_EXPOSURE_RISK, V_AUTHORITY_SEMANTIC_SCOPE],
      vp_limit = DEFAULT_OUTPUT_LIMIT_BYTES, vp_escalation = True, vp_axis = Some AXIS_AUTHORITY, vp_minimum = Some RL_STANDARD\<rparr>]"

text \<open>The profiles of a registry: their checks hold, \<open>resolve\<close> finds each of them.\<close>

definition profile_ok :: "(json \<Rightarrow> string) \<Rightarrow> validation_profile \<Rightarrow> bool" where
  "profile_ok digest p \<longleftrightarrow> isRoutingIdentifier (vp_id p) \<and> is_version (vp_version p) \<and>
     0 < vp_limit p \<and> vp_limit p \<le> MAX_PROFILE_OUTPUT_BYTES \<and> vp_rules p \<noteq> [] \<and> distinct (vp_rules p) \<and>
     sorted (map RULE_ORDER (vp_rules p)) \<and>
     vp_escalation p = (vp_axis p \<noteq> None) \<and> vp_escalation p = (vp_minimum p \<noteq> None) \<and>
     vp_digest p = digest (profile_json (profile_configuration.truncate p))"

lemma normalize_profile_ok:
  assumes "normalize_profile digest c = Inr p"
  shows "profile_ok digest p \<and> vp_id p = vp_id c"
proof -
  define e where "e = c\<lparr>vp_rules := sort_key RULE_ORDER (vp_rules c)\<rparr>"
  have c: "isRoutingIdentifier (vp_id c)" "is_version (vp_version c)" "0 < vp_limit c"
    "vp_limit c \<le> MAX_PROFILE_OUTPUT_BYTES" "vp_rules c \<noteq> []" "distinct (vp_rules c)"
    "vp_escalation c = (vp_axis c \<noteq> None)" "vp_escalation c = (vp_minimum c \<noteq> None)"
    "p = profile_configuration.extend e \<lparr>vp_digest = digest (profile_json e)\<rparr>"
    using assms by (auto simp: normalize_profile_def e_def Let_def split: if_splits)
  have t: "profile_configuration.truncate p = e" by (simp add: c(9) profile_configuration.defs)
  have "vp_id p = vp_id c" "vp_version p = vp_version c" "vp_limit p = vp_limit c" "vp_escalation p = vp_escalation c"
    "vp_rules p = sort_key RULE_ORDER (vp_rules c)" "vp_axis p = vp_axis c" "vp_minimum p = vp_minimum c"
    "vp_digest p = digest (profile_json e)"
    by (simp_all add: c(9) profile_configuration.defs e_def)
  with c(1-8) show ?thesis unfolding profile_ok_def t by (simp only:) simp
qed

lemma collect_profile_definitions_Inr:
  "collect_profile_definitions digest seen cs = Inr ds \<Longrightarrow> list_all (profile_ok digest) ds \<and>
     map vp_id ds = map vp_id cs \<and> distinct (map vp_id cs)"
proof (induction digest seen cs arbitrary: ds rule: collect_profile_definitions.induct)
  case (2 digest seen c cs)
  then obtain d es where d: "normalize_profile digest c = Inr d" "ds = d # es" "vp_id c \<notin> set seen"
    "collect_profile_definitions digest (vp_id c # seen) cs = Inr es"
    by (auto simp: err_bind_Inr_iff split: if_splits)
  have fresh: "\<And>ss es. collect_profile_definitions digest ss cs = Inr es \<Longrightarrow> set ss \<inter> vp_id ` set cs = {}"
  proof (induction cs)
    case (Cons k ks)
    then obtain fs where "vp_id k \<notin> set ss" "collect_profile_definitions digest (vp_id k # ss) ks = Inr fs"
      by (auto simp: err_bind_Inr_iff split: if_splits)
    with Cons.IH [of "vp_id k # ss" fs] show ?case by auto
  qed simp
  from 2(1) [OF d(3,4)] normalize_profile_ok [OF d(1)] fresh [OF d(4)] d(2) show ?case by auto
qed simp

lemma new_profile_registry_ok:
  assumes "new_profile_registry lc digest cs = Inr reg"
  shows "list_all (profile_ok digest) reg" "distinct (map vp_id reg)" "set (map vp_id reg) = vp_id ` set cs"
proof -
  obtain ds where ds: "collect_profile_definitions digest [] cs = Inr ds" "reg = js_sort (\<lambda>a b. lc (vp_id a) (vp_id b)) ds"
    using assms by (auto simp: new_profile_registry_def err_bind_Inr_iff split: if_splits)
  note c = collect_profile_definitions_Inr [OF ds(1)]
  show "list_all (profile_ok digest) reg" using c ds(2) by (simp add: list_all_iff)
  show "distinct (map vp_id reg)" using c ds(2) by simp
  show "set (map vp_id reg) = vp_id ` set cs" using c ds(2) by (metis list.set_map set_js_sort)
qed

lemma resolve_profile_Inr: "resolve_profile reg i = Inr p \<Longrightarrow> p \<in> set reg \<and> vp_id p = i"
  by (auto simp: resolve_profile_def find_Some_iff split: option.splits)

end
