(* ===== verification/Provider_Plans.thy ===== *)
theory Provider_Plans
  imports Routing_Policy Validation_Profiles
begin

text \<open>
  From a selection decision to an execution plan: the registry of executable bindings
  (\<open>application/provider-binding-registry.ts\<close>) and the planner (\<open>application/provider-execution-plan.ts\<close>).

  The object behind a binding is known by its \<open>id\<close> here (\<open>None\<close>: not a string); what it does when it is
  called belongs to the gateway. A thrown error is its code.
\<close>

section \<open>Codes\<close>

datatype binding_failure =
  B_INVALID_PROVIDER_BINDING | B_DUPLICATE_PROVIDER_BINDING | B_UNKNOWN_PROVIDER_BINDING | B_PROVIDER_BINDING_NOT_FOUND
  | B_PROVIDER_BINDING_MISMATCH | B_PROVIDER_DISABLED | B_ROUTING_CONFIGURATION_MISMATCH

datatype gateway_code = Binding_code binding_failure | Routing_code failure_code

section \<open>Bindings\<close>

record executable_binding =
  xb_id :: Id
  xb_adapter :: Id
  xb_model :: js_string
  xb_version :: string
  xb_provider_id :: "Id option"

record binding_identity =
  bi_provider :: Id
  bi_version :: string
  bi_digest :: string

record validated_binding =
  vb_id :: Id
  vb_identity :: binding_identity
  vb_provider_id :: Id

record binding_registry =
  br_version :: string
  br_digest :: string
  br_bindings :: "validated_binding list"

record descriptor_facts =
  df_id :: Id
  df_adapter :: Id
  df_model :: js_string
  df_version :: string
  df_enabled :: bool

definition validOpaque :: "js_string \<Rightarrow> bool" where
  "validOpaque v \<longleftrightarrow> js_trim v = v \<and> length v > 0 \<and> length v \<le> 256 \<and> \<not> list_ex (\<lambda>u. u \<le> 0x1F \<or> u = 0x7F) v"

definition binding_digest_of :: "(json \<Rightarrow> string) \<Rightarrow> executable_binding \<Rightarrow> descriptor_facts \<Rightarrow> string" where
  "binding_digest_of digest b d = digest (JObj
     [(''providerId'', JStr (xb_id b)), (''adapterId'', JStr (xb_adapter b)), (''modelId'', json_text (xb_model b)),
      (''bindingVersion'', JStr (xb_version b)), (''profileVersion'', JStr (df_version d))])"

fun descriptor_map :: "descriptor_facts list \<Rightarrow> registered_provider list \<Rightarrow> binding_failure + descriptor_facts list" where
  "descriptor_map known [] = Inr known"
| "descriptor_map known (e # es) = (let d = rp_descriptor e in
     if \<not> isRoutingIdentifier (pd_id d) \<or> \<not> isRoutingIdentifier (pd_adapter d) \<or> \<not> validOpaque (pd_model d) \<or>
        \<not> is_version (pd_version d) \<or> pd_id d \<in> df_id ` set known
     then Inl B_ROUTING_CONFIGURATION_MISMATCH
     else descriptor_map (known @ [\<lparr>df_id = pd_id d, df_adapter = pd_adapter d, df_model = pd_model d,
       df_version = pd_version d, df_enabled = pd_enabled d\<rparr>]) es)"

definition validate_binding ::
  "(json \<Rightarrow> string) \<Rightarrow> descriptor_facts list \<Rightarrow> Id list \<Rightarrow> executable_binding \<Rightarrow> binding_failure + validated_binding" where
  "validate_binding digest descriptors seen b = (case xb_provider_id b of
     None \<Rightarrow> Inl B_INVALID_PROVIDER_BINDING
   | Some pid \<Rightarrow>
       if \<not> isRoutingIdentifier (xb_id b) \<or> \<not> isRoutingIdentifier (xb_adapter b) \<or> \<not> is_version (xb_version b) \<or>
          \<not> validOpaque (xb_model b)
       then Inl B_INVALID_PROVIDER_BINDING
       else if xb_id b \<in> set seen then Inl B_DUPLICATE_PROVIDER_BINDING
       else case List.find (\<lambda>d. df_id d = xb_id b) descriptors of
         None \<Rightarrow> Inl B_UNKNOWN_PROVIDER_BINDING
       | Some d \<Rightarrow>
           if \<not> df_enabled d then Inl B_PROVIDER_DISABLED
           else if df_id d \<noteq> xb_id b \<or> pid \<noteq> xb_id b \<or> df_adapter d \<noteq> xb_adapter b \<or> df_model d \<noteq> xb_model b
           then Inl B_PROVIDER_BINDING_MISMATCH
           else Inr \<lparr>vb_id = xb_id b,
             vb_identity = \<lparr>bi_provider = xb_id b, bi_version = xb_version b, bi_digest = binding_digest_of digest b d\<rparr>,
             vb_provider_id = pid\<rparr>)"

fun collect_bindings ::
  "(json \<Rightarrow> string) \<Rightarrow> descriptor_facts list \<Rightarrow> Id list \<Rightarrow> executable_binding list \<Rightarrow> binding_failure + validated_binding list" where
  "collect_bindings digest ds seen [] = Inr []"
| "collect_bindings digest ds seen (b # bs) =
     err_bind (validate_binding digest ds seen b) (\<lambda>v.
     err_bind (collect_bindings digest ds (xb_id b # seen) bs) (\<lambda>vs. Inr (v # vs)))"

definition new_binding_registry ::
  "collation \<Rightarrow> (json \<Rightarrow> string) \<Rightarrow> registry_snapshot \<Rightarrow> executable_binding list \<Rightarrow> binding_failure + binding_registry" where
  "new_binding_registry lc digest sn bs =
     (if \<not> is_version (sn_version sn) \<or> \<not> is_hex64 (sn_digest sn) then Inl B_ROUTING_CONFIGURATION_MISMATCH
      else if bs = [] then Inl B_INVALID_PROVIDER_BINDING
      else err_bind (descriptor_map [] (sn_providers sn)) (\<lambda>ds.
           err_bind (collect_bindings digest ds [] bs) (\<lambda>vs.
           Inr \<lparr>br_version = sn_version sn, br_digest = sn_digest sn,
                br_bindings = js_sort (\<lambda>a b. lc (vb_id a) (vb_id b)) vs\<rparr>)))"

definition binding_get :: "binding_registry \<Rightarrow> Id \<Rightarrow> validated_binding option" where
  "binding_get br i = List.find (\<lambda>b. vb_id b = i) (br_bindings br)"

definition matchesSnapshot :: "binding_registry \<Rightarrow> registry_snapshot \<Rightarrow> bool" where
  "matchesSnapshot br sn \<longleftrightarrow> sn_version sn = br_version br \<and> sn_digest sn = br_digest br"

section \<open>Plans\<close>

datatype deadline_class = DL_INTERACTIVE | DL_STANDARD | DL_EXTENDED

datatype target_purpose = PRIMARY | FALLBACK | ESCALATION

record execution_target =
  tg_purpose :: target_purpose
  tg_provider :: Id
  tg_identity :: binding_identity

record plan_input =
  pi_capability :: capability
  pi_profile :: Id
  pi_deadline :: deadline_class
  pi_execution :: Id

record digest_material =
  dm_registry_digest :: string
  dm_policy_digest :: string
  dm_profile_digest :: string
  dm_matrix_version :: string
  dm_max_attempts :: nat
  dm_max_hops :: nat
  dm_deadline :: deadline_class
  dm_capability :: capability
  dm_profile :: Id
  dm_policy :: Id
  dm_primary :: execution_target
  dm_fallback :: "execution_target option"
  dm_escalation :: "execution_target option"

record provider_plan = digest_material +
  pl_profile_version :: string
  pl_decision :: string
  pl_execution :: Id
  pl_configuration_digest :: string
  pl_digest :: string
  pl_policy_version :: string
  pl_registry_version :: string
  pl_routing_digest :: string

definition MAX_PROVIDER_ATTEMPTS :: nat where "MAX_PROVIDER_ATTEMPTS = 2"
definition MAX_ADDITIONAL_PROVIDER_HOPS :: nat where "MAX_ADDITIONAL_PROVIDER_HOPS = 1"
definition ROUTING_FAILURE_MATRIX_VERSION :: string where "ROUTING_FAILURE_MATRIX_VERSION = ''routing-failure-matrix-v4''"

definition combinedRoutingConfigurationDigest :: "(json \<Rightarrow> string) \<Rightarrow> string \<Rightarrow> string \<Rightarrow> string" where
  "combinedRoutingConfigurationDigest digest r p = digest (JObj [(''registryDigest'', JStr r), (''policyDigest'', JStr p)])"

fun purpose_text :: "target_purpose \<Rightarrow> string" where
  "purpose_text PRIMARY = ''PRIMARY''"
| "purpose_text FALLBACK = ''FALLBACK''"
| "purpose_text ESCALATION = ''ESCALATION''"

fun deadline_text :: "deadline_class \<Rightarrow> string" where
  "deadline_text DL_INTERACTIVE = ''INTERACTIVE''"
| "deadline_text DL_STANDARD = ''STANDARD''"
| "deadline_text DL_EXTENDED = ''EXTENDED''"

definition targetDigestShape :: "execution_target option \<Rightarrow> json" where
  "targetDigestShape t = json_optional (\<lambda>t. JObj [(''purpose'', JStr (purpose_text (tg_purpose t))),
     (''providerId'', JStr (tg_provider t)), (''bindingDigest'', JStr (bi_digest (tg_identity t)))]) t"

definition computeProviderExecutionConfigurationDigest :: "(json \<Rightarrow> string) \<Rightarrow> 'a digest_material_scheme \<Rightarrow> string" where
  "computeProviderExecutionConfigurationDigest digest m = digest (JObj
     [(''registryConfigurationDigest'', JStr (dm_registry_digest m)),
      (''policyConfigurationDigest'', JStr (dm_policy_digest m)),
      (''validationProfileConfigurationDigest'', JStr (dm_profile_digest m)),
      (''failureMatrixVersion'', JStr (dm_matrix_version m)),
      (''maxAttempts'', JNum (int (dm_max_attempts m))),
      (''maxAdditionalHops'', JNum (int (dm_max_hops m))),
      (''deadlineClass'', JStr (deadline_text (dm_deadline m))),
      (''capability'', JStr (capability_text (dm_capability m))),
      (''validationProfile'', JStr (dm_profile m)),
      (''matchedPolicyId'', JStr (dm_policy m)),
      (''primary'', targetDigestShape (Some (dm_primary m))),
      (''operationalFallback'', targetDigestShape (dm_fallback m)),
      (''semanticEscalation'', targetDigestShape (dm_escalation m))])"

fun reason_text :: "routing_reason \<Rightarrow> string" where
  "reason_text SELECTED = ''SELECTED''"
| "reason_text POLICY_NOT_MATCHED = ''POLICY_NOT_MATCHED''"
| "reason_text NO_ELIGIBLE_PROVIDER = ''NO_ELIGIBLE_PROVIDER''"

definition selectionDecisionId :: "(json \<Rightarrow> string) \<Rightarrow> selection_decision \<Rightarrow> string" where
  "selectionDecisionId digest d = digest (JObj
     [(''selectedProviderId'', json_optional JStr (sd_selected d)),
      (''eligibleProviderIds'', JArr (map JStr (sd_eligible d))),
      (''matchedPolicyId'', json_optional JStr (sd_policy d)),
      (''reasonCode'', JStr (reason_text (sd_reason d))),
      (''policyVersion'', JStr (sd_policy_version d)),
      (''registryVersion'', JStr (sd_registry_version d)),
      (''registryConfigurationDigest'', JStr (sd_registry_digest d)),
      (''policyConfigurationDigest'', JStr (sd_policy_digest d)),
      (''configurationDigest'', JStr (sd_digest d))])"

definition computeProviderExecutionPlanDigest :: "(json \<Rightarrow> string) \<Rightarrow> string \<Rightarrow> string \<Rightarrow> string" where
  "computeProviderExecutionPlanDigest digest decisionId cd =
     digest (JObj [(''decisionId'', JStr decisionId), (''executionConfigurationDigest'', JStr cd)])"

section \<open>The planner\<close>

definition snapshot_entry :: "registry_snapshot \<Rightarrow> Id \<Rightarrow> registered_provider option" where
  "snapshot_entry sn i = List.find (\<lambda>e. pd_id (rp_descriptor e) = i) (sn_providers sn)"

definition plan_check :: "binding_failure \<Rightarrow> bool \<Rightarrow> gateway_code + unit" where
  "plan_check c ok = guard_err (Binding_code c) ok"

definition reliability :: "registry_snapshot \<Rightarrow> Id \<Rightarrow> reliability_axis \<Rightarrow> gateway_code + reliability_tier" where
  "reliability sn i axis = (case snapshot_entry sn i of
     None \<Rightarrow> Inl (Binding_code B_UNKNOWN_PROVIDER_BINDING)
   | Some e \<Rightarrow> Inr (if axis = AXIS_AUTHORITY then pc_authority (pd_capabilities (rp_descriptor e))
                   else pc_semantic (pd_capabilities (rp_descriptor e))))"

definition entry_usable :: "registry_snapshot \<Rightarrow> Id \<Rightarrow> gateway_code + unit" where
  "entry_usable sn i = (case snapshot_entry sn i of
     None \<Rightarrow> Inl (Binding_code B_UNKNOWN_PROVIDER_BINDING)
   | Some e \<Rightarrow>
       err_bind (plan_check B_PROVIDER_DISABLED (pd_enabled (rp_descriptor e))) (\<lambda>_.
       plan_check B_ROUTING_CONFIGURATION_MISMATCH (rp_availability e = AVAILABLE)))"

definition validateTarget ::
  "execution_target \<Rightarrow> target_purpose \<Rightarrow> Id list \<Rightarrow> registry_snapshot \<Rightarrow> binding_registry \<Rightarrow> gateway_code + unit" where
  "validateTarget t expected ids sn br =
     err_bind (plan_check B_ROUTING_CONFIGURATION_MISMATCH (tg_purpose t = expected \<and> tg_provider t \<in> set ids)) (\<lambda>_.
     err_bind (entry_usable sn (tg_provider t)) (\<lambda>_.
     case binding_get br (tg_provider t) of
       None \<Rightarrow> Inl (Binding_code B_PROVIDER_BINDING_NOT_FOUND)
     | Some b \<Rightarrow> plan_check B_PROVIDER_BINDING_MISMATCH
         (\<not> (vb_id b \<noteq> tg_provider t \<or> bi_provider (vb_identity b) \<noteq> tg_provider t \<or>
             bi_version (vb_identity b) \<noteq> bi_version (tg_identity t) \<or>
             bi_digest (vb_identity b) \<noteq> bi_digest (tg_identity t)))))"

definition optional_check :: "('a \<Rightarrow> 'e + unit) \<Rightarrow> 'a option \<Rightarrow> 'e + unit" where
  "optional_check f x = (case x of None \<Rightarrow> Inr () | Some v \<Rightarrow> f v)"

definition minimum_reliability :: "validation_profile \<Rightarrow> reliability_tier" where
  "minimum_reliability p = (case vp_minimum p of None \<Rightarrow> RL_UNPROVEN | Some t \<Rightarrow> t)"

definition escalation_check ::
  "execution_target \<Rightarrow> registry_snapshot \<Rightarrow> validation_profile \<Rightarrow> execution_target \<Rightarrow> gateway_code + unit" where
  "escalation_check primary sn p t = (case (vp_escalation p, vp_axis p) of
     (True, Some axis) \<Rightarrow>
       err_bind (reliability sn (tg_provider t) axis) (\<lambda>r.
       err_bind (reliability sn (tg_provider primary) axis) (\<lambda>q.
       plan_check B_ROUTING_CONFIGURATION_MISMATCH
         (\<not> (RELIABILITY_ORDER r \<le> RELIABILITY_ORDER q \<or> RELIABILITY_ORDER r < RELIABILITY_ORDER (minimum_reliability p)))))
   | _ \<Rightarrow> Inl (Binding_code B_ROUTING_CONFIGURATION_MISMATCH))"

definition assertProviderExecutionTargets ::
  "execution_target \<Rightarrow> execution_target option \<Rightarrow> execution_target option \<Rightarrow> Id list \<Rightarrow> registry_snapshot \<Rightarrow>
   binding_registry \<Rightarrow> validation_profile \<Rightarrow> gateway_code + unit" where
  "assertProviderExecutionTargets primary fb es ids sn br p =
     err_bind (validateTarget primary PRIMARY ids sn br) (\<lambda>_.
     err_bind (optional_check (\<lambda>t. validateTarget t FALLBACK ids sn br) fb) (\<lambda>_.
     err_bind (optional_check (\<lambda>t. validateTarget t ESCALATION ids sn br) es) (\<lambda>_.
     err_bind (plan_check B_ROUTING_CONFIGURATION_MISMATCH
       (\<not> (map_option tg_provider fb = Some (tg_provider primary) \<or> map_option tg_provider es = Some (tg_provider primary) \<or>
           (fb \<noteq> None \<and> es \<noteq> None \<and> map_option tg_provider fb = map_option tg_provider es)))) (\<lambda>_.
     optional_check (escalation_check primary sn p) es))))"

definition target_of :: "target_purpose \<Rightarrow> Id \<Rightarrow> binding_registry \<Rightarrow> execution_target option" where
  "target_of purpose i br =
     map_option (\<lambda>b. \<lparr>tg_purpose = purpose, tg_provider = i, tg_identity = vb_identity b\<rparr>) (binding_get br i)"

definition executableCandidates :: "selection_decision \<Rightarrow> binding_registry \<Rightarrow> Id list" where
  "executableCandidates d br = filter (\<lambda>i. Some i \<noteq> sd_selected d \<and> binding_get br i \<noteq> None) (sd_eligible d)"

text \<open>\<open>candidates.find(...)\<close> with a predicate that may throw.\<close>

fun find_stronger ::
  "registry_snapshot \<Rightarrow> reliability_axis \<Rightarrow> reliability_tier \<Rightarrow> reliability_tier \<Rightarrow> Id list \<Rightarrow> gateway_code + Id option" where
  "find_stronger sn axis q m [] = Inr None"
| "find_stronger sn axis q m (i # is) =
     err_bind (reliability sn i axis) (\<lambda>r.
     if RELIABILITY_ORDER r > RELIABILITY_ORDER q \<and> RELIABILITY_ORDER r \<ge> RELIABILITY_ORDER m then Inr (Some i)
     else find_stronger sn axis q m is)"

definition plan_escalation ::
  "registry_snapshot \<Rightarrow> binding_registry \<Rightarrow> validation_profile \<Rightarrow> execution_target \<Rightarrow> Id list \<Rightarrow>
   gateway_code + execution_target option" where
  "plan_escalation sn br p primary candidates = (case (vp_escalation p, vp_axis p) of
     (True, Some axis) \<Rightarrow>
       err_bind (reliability sn (tg_provider primary) axis) (\<lambda>q.
       err_bind (find_stronger sn axis q (minimum_reliability p) candidates) (\<lambda>found.
       Inr (case found of None \<Rightarrow> None | Some i \<Rightarrow> target_of ESCALATION i br)))
   | _ \<Rightarrow> Inr None)"

definition plan_fallback :: "binding_registry \<Rightarrow> execution_target option \<Rightarrow> Id list \<Rightarrow> execution_target option" where
  "plan_fallback br es candidates =
     (case List.find (\<lambda>i. Some i \<noteq> map_option tg_provider es) candidates of
        None \<Rightarrow> None | Some i \<Rightarrow> target_of FALLBACK i br)"

definition resolve_for_plan :: "profile_registry \<Rightarrow> Id \<Rightarrow> gateway_code + validation_profile" where
  "resolve_for_plan profiles i = (case resolve_profile profiles i of
     Inl (c, _) \<Rightarrow> Inl (Routing_code c) | Inr p \<Rightarrow> Inr p)"

definition create_plan ::
  "(json \<Rightarrow> string) \<Rightarrow> selection_decision \<Rightarrow> registry_snapshot \<Rightarrow> binding_registry \<Rightarrow> profile_registry \<Rightarrow> plan_input \<Rightarrow>
   gateway_code + provider_plan" where
  "create_plan digest d sn br profiles i = (case (sd_reason d, sd_selected d, sd_policy d) of
     (SELECTED, Some selected, Some policy) \<Rightarrow>
       err_bind (plan_check B_ROUTING_CONFIGURATION_MISMATCH (selected \<in> set (sd_eligible d))) (\<lambda>_.
       err_bind (plan_check B_ROUTING_CONFIGURATION_MISMATCH
         (isRoutingIdentifier selected \<and> isRoutingIdentifier policy \<and> distinct (sd_eligible d) \<and>
          list_all isRoutingIdentifier (sd_eligible d))) (\<lambda>_.
       err_bind (plan_check B_ROUTING_CONFIGURATION_MISMATCH
         (is_version (sd_policy_version d) \<and> is_version (sd_registry_version d))) (\<lambda>_.
       err_bind (plan_check B_ROUTING_CONFIGURATION_MISMATCH
         (is_hex64 (sd_registry_digest d) \<and> is_hex64 (sd_policy_digest d) \<and> is_hex64 (sd_digest d))) (\<lambda>_.
       err_bind (plan_check B_ROUTING_CONFIGURATION_MISMATCH
         (sd_registry_version d = sn_version sn \<and> sd_registry_digest d = sn_digest sn \<and> matchesSnapshot br sn \<and>
          sd_digest d = combinedRoutingConfigurationDigest digest (sd_registry_digest d) (sd_policy_digest d))) (\<lambda>_.
       err_bind (plan_check B_ROUTING_CONFIGURATION_MISMATCH
         (isRoutingIdentifier (pi_profile i) \<and> isRoutingIdentifier (pi_execution i))) (\<lambda>_.
       err_bind (resolve_for_plan profiles (pi_profile i)) (\<lambda>p.
       err_bind (traverse (entry_usable sn) (sd_eligible d)) (\<lambda>_.
       (case target_of PRIMARY selected br of
          None \<Rightarrow> Inl (Binding_code B_PROVIDER_BINDING_NOT_FOUND)
        | Some primary \<Rightarrow>
            let candidates = executableCandidates d br in
            err_bind (plan_escalation sn br p primary candidates) (\<lambda>es.
            let fb = plan_fallback br es candidates in
            err_bind (assertProviderExecutionTargets primary fb es (sd_eligible d) sn br p) (\<lambda>_.
            let material = \<lparr>dm_registry_digest = sd_registry_digest d, dm_policy_digest = sd_policy_digest d,
                  dm_profile_digest = vp_digest p, dm_matrix_version = ROUTING_FAILURE_MATRIX_VERSION,
                  dm_max_attempts = MAX_PROVIDER_ATTEMPTS, dm_max_hops = MAX_ADDITIONAL_PROVIDER_HOPS,
                  dm_deadline = pi_deadline i, dm_capability = pi_capability i, dm_profile = pi_profile i,
                  dm_policy = policy, dm_primary = primary, dm_fallback = fb, dm_escalation = es\<rparr>;
                cd = computeProviderExecutionConfigurationDigest digest material;
                decisionId = selectionDecisionId digest d
            in Inr (digest_material.extend material
                 \<lparr>pl_profile_version = vp_version p, pl_decision = decisionId, pl_execution = pi_execution i,
                  pl_configuration_digest = cd, pl_digest = computeProviderExecutionPlanDigest digest decisionId cd,
                  pl_policy_version = sd_policy_version d, pl_registry_version = sd_registry_version d,
                  pl_routing_digest = sd_digest d\<rparr>))))))))))))
   | _ \<Rightarrow> Inl (Binding_code B_ROUTING_CONFIGURATION_MISMATCH))"

end
