(* ===== verification/Response_Validation.thy ===== *)
theory Response_Validation
  imports Validation_Profiles Regex
begin

text \<open>
  The validator of provider responses (\<open>application/runtime-response-validator.ts\<close>): text normalisation,
  tokens, the seven rules with the regular expressions of the file, the disposition, and the projection of an
  accepted output.

  \<^item> \<open>unicode\<close> holds what the JavaScript runtime knows of Unicode: NFKC, the lower case of \<open>en-US\<close> and the
    properties \<open>L\<close>, \<open>N\<close>, \<open>Lu\<close> and \<open>Script=Hangul\<close> of code points.
  \<^item> \<open>re_digest\<close> is the SHA-256 of a JSON text, \<open>re_bytes\<close> the UTF-8 length of a JSON text.
  \<^item> Texts are UTF-16; a regular expression with the flag \<open>u\<close> reads their code points. Korean words are
    given by their code points.
\<close>

section \<open>Normalised texts and tokens\<close>

record unicode =
  u_nfkc :: "js_string \<Rightarrow> js_string"
  u_lower :: "js_string \<Rightarrow> js_string"
  u_letter :: "nat \<Rightarrow> bool"
  u_number :: "nat \<Rightarrow> bool"
  u_upper :: "nat \<Rightarrow> bool"
  u_hangul :: "nat \<Rightarrow> bool"

definition utf16 :: "nat list \<Rightarrow> js_string" where
  "utf16 cs = concat (map (\<lambda>c. if c < 0x10000 then [word_of_nat c]
     else [word_of_nat (0xD800 + (c - 0x10000) div 0x400), word_of_nat (0xDC00 + (c - 0x10000) mod 0x400)]) cs)"

text \<open>\<open>replace(/\s+/gu, ' ')\<close>\<close>

function collapse_ws :: "js_string \<Rightarrow> js_string" where
  "collapse_ws [] = []"
| "collapse_ws (u # us) =
     (if js_whitespace u then 0x20 # collapse_ws (dropWhile js_whitespace us) else u # collapse_ws us)"
  by pat_completeness auto
termination
  by (relation "measure length") (auto simp: le_imp_less_Suc length_dropWhile_le)

definition normalize_text :: "unicode \<Rightarrow> js_string \<Rightarrow> js_string" where
  "normalize_text U v = js_trim (collapse_ws (u_lower U (u_nfkc U v)))"

text \<open>\<open>match(/[\p{L}\p{N}_-]+/gu)\<close>\<close>

definition token_code :: "unicode \<Rightarrow> nat \<Rightarrow> bool" where
  "token_code U c \<longleftrightarrow> u_letter U c \<or> u_number U c \<or> c = 95 \<or> c = 45"

function token_runs :: "(nat \<Rightarrow> bool) \<Rightarrow> nat list \<Rightarrow> nat list list" where
  "token_runs P [] = []"
| "token_runs P (c # cs) =
     (if P c then (c # takeWhile P cs) # token_runs P (dropWhile P cs) else token_runs P cs)"
  by pat_completeness auto
termination
  by (relation "measure (\<lambda>(P, cs). length cs)") (auto simp: le_imp_less_Suc length_dropWhile_le)

definition match_tokens :: "unicode \<Rightarrow> js_string \<Rightarrow> js_string list" where
  "match_tokens U v = map utf16 (token_runs (token_code U) (code_points v))"

definition tokens :: "unicode \<Rightarrow> js_string \<Rightarrow> js_string list" where
  "tokens U v = match_tokens U (normalize_text U v)"

text \<open>\<open>includes\<close> on texts, and on the part of a list.\<close>

definition js_includes :: "'a list \<Rightarrow> 'a list \<Rightarrow> bool" where
  "js_includes hay needle \<longleftrightarrow>
     list_ex (\<lambda>i. take (length needle) (drop i hay) = needle) [0..<Suc (length hay - length needle)]"

definition starts_with :: "'a list \<Rightarrow> 'a list \<Rightarrow> bool" where
  "starts_with s p \<longleftrightarrow> take (length p) s = p"

definition text_ends_with :: "'a list \<Rightarrow> 'a list \<Rightarrow> bool" where
  "text_ends_with s p \<longleftrightarrow> length p \<le> length s \<and> drop (length s - length p) s = p"

section \<open>The patterns\<close>

definition rx_units :: "nat list \<Rightarrow> rx" where "rx_units cs = rx_seq (map (\<lambda>k. Chars (\<lambda>c. c = k)) cs)"

definition RECENCY_STOPWORDS :: "js_string list" where
  "RECENCY_STOPWORDS = [
     js ''a'', js ''an'', js ''and'', js ''are'', js ''as'', js ''at'', js ''be'', js ''been'', js ''but'',
     js ''by'', js ''for'', js ''from'', js ''has'', js ''have'', js ''i'', js ''in'', js ''is'', js ''it'',
     js ''my'', js ''of'', js ''on'', js ''or'', js ''said'', js ''says'', js ''that'', js ''the'',
     js ''this'', js ''to'', js ''turn'', js ''user'', js ''was'', js ''were'', js ''with'', js ''you'',
     js ''your'', js ''current'', js ''previous'', js ''recent'', [0xADF8], [0xADF8, 0xAC70], [0xADF8, 0xAC83],
     [0xADF8, 0xB9AC, 0xACE0], [0xAC00, 0xC7A5], [0xB098, 0xB294], [0xB0B4, 0xAC00], [0xB108, 0xB294],
     [0xB124, 0xAC00], [0xB9D0], [0xBC14, 0xB85C], [0xC0AC, 0xC6A9, 0xC790], [0xC774], [0xC774, 0xAC70],
     [0xC774, 0xAC83], [0xC800], [0xC800, 0xAC70], [0xC800, 0xAC83], [0xCD5C, 0xADFC], [0xD604, 0xC7AC],
     [0xD134]]"

definition KOREAN_SUFFIXES :: "js_string list" where
  "KOREAN_SUFFIXES = [
     [0xC5D0, 0xAC8C, 0xC11C], [0xC774, 0xB77C, 0xACE0], [0xC774, 0xB77C, 0xB294], [0xC73C, 0xB85C, 0xB294],
     [0xC5D0, 0xC11C, 0xB294], [0xC73C, 0xB85C], [0xC5D0, 0xC11C], [0xC5D0, 0xAC8C], [0xD55C, 0xD14C],
     [0xCC98, 0xB7FC], [0xAE4C, 0xC9C0], [0xBD80, 0xD130], [0xBCF4, 0xB2E4], [0xD558, 0xACE0],
     [0xC774, 0xB098], [0xB77C, 0xB3C4], [0xC774, 0xB791], [0xB791], [0xB85C], [0xC740], [0xB294], [0xC774],
     [0xAC00], [0xC744], [0xB97C], [0xC758], [0xC5D0], [0xC640], [0xACFC], [0xB3C4], [0xB9CC], [0xC57C]]"

definition EXPLICIT_RECENCY_REFERENCE :: rx where
  "EXPLICIT_RECENCY_REFERENCE = rx_any [
     rx_seq [rx_units [0xADF8], rx_any [rx_units [0xAC70], rx_units [0xAC83], rx_units [0xAC78], rx_units [0xAC8C], rx_units [0xAC74]]],
     rx_seq [rx_units [0xC774], rx_any [rx_units [0xAC70], rx_units [0xAC83], rx_units [0xAC78], rx_units [0xAC8C], rx_units [0xAC74]]],
     rx_seq [rx_units [0xC800], rx_any [rx_units [0xAC70], rx_units [0xAC83], rx_units [0xAC78], rx_units [0xAC8C], rx_units [0xAC74]]],
     rx_units [0xBC29, 0xAE08], rx_units [0xC544, 0xAE4C],
     rx_seq [rx_units [0xC704], rx_any [rx_units [0xC5D0], rx_units [0xC5D0, 0xC11C]]],
     rx_units [0xC55E, 0xC11C],
     rx_seq [rx_units [0xC804, 0xC5D0], rx_star rx_space, rx_any [rx_units [0xB9D0], rx_units [0xC598, 0xAE30]]],
     rx_seq [rx_any [rx_units [0xBB50], rx_units [0xBB34, 0xC5C7], rx_units [0xC5B4, 0xB5BB], rx_units [0xC5B4, 0xB514], rx_units [0xB204, 0xAD6C]], rx_opt (rx_any [rx_units [0xC600], rx_units [0xD588], rx_units [0xC600, 0xC5C8]]), rx_units [0xC9C0]],
     rx_seq [rx_b fold_iu, rx_any [rx_any [rx_words fold_iu [''that'', ''above'', ''earlier''], rx_seq [rx_text fold_iu ''previous'', rx_opt (rx_text fold_iu ''ly'')], rx_text fold_iu ''you said''],
       rx_seq [rx_text fold_iu ''what '', rx_words fold_iu [''i'', ''we'', ''you''], rx_text fold_iu '' said'']], rx_b fold_iu]]"

definition GREETING_OR_ACKNOWLEDGEMENT :: rx where
  "GREETING_OR_ACKNOWLEDGEMENT = rx_seq [At_start, rx_any [
     rx_seq [rx_units [0xC548, 0xB155], rx_opt (rx_any [rx_units [0xD558, 0xC138, 0xC694], rx_units [0xD558, 0xC2ED, 0xB2C8, 0xAE4C]])], rx_seq [rx_units [0xBC18, 0xAC00, 0xC6CC], rx_opt (rx_units [0xC694])], rx_seq [rx_units [0xAC10, 0xC0AC], rx_opt (rx_any [rx_units [0xD569, 0xB2C8, 0xB2E4], rx_units [0xD574, 0xC694]])], rx_seq [rx_units [0xACE0, 0xB9C8, 0xC6CC], rx_opt (rx_units [0xC694])],
     rx_any [rx_units [0xB124], rx_units [0xB135], rx_units [0xC608], rx_units [0xC751], rx_units [0xC5B4]],
     rx_seq [rx_units [0xC54C, 0xACA0], rx_any [rx_units [0xC5B4], rx_units [0xC5B4, 0xC694], rx_units [0xC2B5, 0xB2C8, 0xB2E4]]],
     rx_seq [rx_units [0xC88B, 0xC544], rx_opt (rx_units [0xC694])],
     rx_words fold_iu [''okay'', ''ok''],
     rx_seq [rx_text fold_iu ''thank'', rx_opt (rx_text fold_iu ''s''), rx_opt (rx_text fold_iu '' you'')],
     rx_words fold_iu [''thank you'', ''hello'', ''hi'', ''hey'', ''got it'', ''sounds good'']],
     rx_star (Chars (\<lambda>c. ws_code c \<or> c \<in> {46, 33, 63, 44, 126})), At_end]"

text \<open>The alternatives of a word group are tried in another order than in the source, which \<open>test\<close> cannot see.\<close>

definition NEGATION :: rx where
  "NEGATION = rx_any [
     rx_seq [rx_b fold_iu, rx_any [rx_words fold_iu [''not'', ''never'', ''no'', ''cannot''],
       rx_seq [rx_text fold_iu ''isn'', rx_units [39], rx_text fold_iu ''t''], rx_seq [rx_text fold_iu ''aren'', rx_units [39], rx_text fold_iu ''t''], rx_seq [rx_text fold_iu ''wasn'', rx_units [39], rx_text fold_iu ''t''],
       rx_seq [rx_text fold_iu ''weren'', rx_units [39], rx_text fold_iu ''t''], rx_seq [rx_text fold_iu ''don'', rx_units [39], rx_text fold_iu ''t''], rx_seq [rx_text fold_iu ''doesn'', rx_units [39], rx_text fold_iu ''t''], rx_seq [rx_text fold_iu ''didn'', rx_units [39], rx_text fold_iu ''t''], rx_seq [rx_text fold_iu ''can'', rx_units [39], rx_text fold_iu ''t'']], rx_b fold_iu],
     rx_seq [Or At_start rx_space, rx_any [rx_units [0xC548], rx_units [0xBABB]], rx_plus rx_space, Peek (\<lambda>c. \<not> ws_code c)],
     rx_seq [rx_units [0xC544, 0xB2C8], rx_any [rx_units [0xC57C], rx_units [0xB2E4], rx_units [0xC5D0, 0xC694], rx_units [0xC608, 0xC694], rx_units [0xC5C8]]],
     rx_seq [rx_units [0xC54A], rx_any [rx_units [0xC544], rx_units [0xB2E4], rx_units [0xC544, 0xC694], rx_units [0xC558], rx_units [0xB294], rx_units [0xB294, 0xB2E4]]]]"

definition SECRET_PATTERNS :: "rx list" where
  "SECRET_PATTERNS = [
     rx_seq [rx_text fold_iu ''-----begin '',
       rx_star (Chars (\<lambda>c. ascii_alnum (fold_iu c) \<or> c = 32)), rx_text fold_iu ''private key-----''],
     rx_seq [rx_b fold_exact, rx_text fold_exact ''AKIA'',
       rx_exactly 16 (Chars (\<lambda>c. (65 \<le> c \<and> c \<le> 90) \<or> (48 \<le> c \<and> c \<le> 57))), rx_b fold_exact],
     rx_seq [rx_b fold_exact, rx_words fold_exact [''ghp_'', ''github_pat_'', ''sk-''],
       rx_least 12 (Chars (\<lambda>c. ascii_alnum c \<or> c = 95 \<or> c = 45)), rx_b fold_exact],
     rx_seq [rx_b fold_iu, rx_any [rx_seq [rx_text fold_iu ''api'', rx_opt (Chars (\<lambda>c. c = 95 \<or> c = 45)), rx_text fold_iu ''key''],
         rx_words fold_iu [''password'', ''secret'', ''token'']],
       rx_star rx_space, Chars (\<lambda>c. c = 58 \<or> c = 61), rx_star rx_space,
       rx_least 8 (Chars (\<lambda>c. \<not> ws_code c \<and> c \<noteq> 44 \<and> c \<noteq> 59))]]"

definition CLAIMS_VERIFICATION :: rx where
  "CLAIMS_VERIFICATION = rx_seq [rx_b fold_iu, rx_words fold_iu [''i'', ''we''], rx_plus rx_space,
     rx_opt (rx_seq [rx_text fold_iu ''have'', rx_plus rx_space]),
     rx_words fold_iu [''verified'', ''confirmed'', ''checked'', ''validated''], rx_b fold_iu]"

definition state_words :: rx where
  "state_words = rx_seq [rx_b fold_iu, rx_any [rx_words fold_iu [''is'', ''are'', ''has'', ''have''],
     rx_seq [rx_text fold_iu ''work'', rx_opt (rx_text fold_iu ''s'')],
     rx_words fold_iu [''connected'', ''available'', ''healthy'', ''deployed'', ''running'', ''enabled'', ''disabled'']],
     rx_b fold_iu]"

definition CURRENT_STATE_CLAIM :: rx where
  "CURRENT_STATE_CLAIM = rx_seq [rx_b fold_iu, rx_words fold_iu [''currently'', ''right now'', ''at present'', ''now''],
     rx_b fold_iu, rx_upto 80 rx_dot, state_words]"

definition AUTHORITY_CLAIM :: rx where
  "AUTHORITY_CLAIM = rx_seq [rx_b fold_iu,
     rx_words fold_iu [''officially'', ''definitely'', ''guaranteed'', ''authorized'', ''approved''],
     rx_b fold_iu, rx_upto 80 rx_dot, state_words]"

definition EPISTEMIC_GUARD :: rx where
  "EPISTEMIC_GUARD = rx_any [
     rx_seq [rx_b fold_iu, rx_any [rx_words fold_iu [''cannot'', ''unable to'', ''not able to'', ''have not'', ''did not''],
         rx_seq [rx_words fold_iu [''can'', ''haven'', ''didn''], rx_units [39], rx_text fold_iu ''t'']],
       rx_plus rx_space, rx_opt (rx_seq [rx_text fold_iu ''independently'', rx_plus rx_space]),
       rx_words fold_iu [''verify'', ''confirm'', ''check'', ''validate'']],
     rx_seq [rx_b fold_iu, rx_any [rx_words fold_iu [''unverified'', ''unknown'', ''uncertain''],
         rx_seq [rx_text fold_iu ''based on '', rx_opt (rx_text fold_iu ''the ''),
           rx_words fold_iu [''provided'', ''available''], rx_text fold_iu '' '',
           rx_words fold_iu [''context'', ''information'']]], rx_b fold_iu]]"

section \<open>Recency\<close>

definition test_text :: "rx \<Rightarrow> js_string \<Rightarrow> bool" where "test_text r s \<longleftrightarrow> rx_test r (code_points s)"

definition has_hangul :: "unicode \<Rightarrow> js_string \<Rightarrow> bool" where
  "has_hangul U s \<longleftrightarrow> list_ex (u_hangul U) (code_points s)"

definition lexicalStem :: "unicode \<Rightarrow> js_string \<Rightarrow> js_string" where
  "lexicalStem U v =
     (if \<not> has_hangul U v then v
      else case List.find (\<lambda>suffix. text_ends_with v suffix \<and> length v - length suffix \<ge> 2) KOREAN_SUFFIXES of
        None \<Rightarrow> v | Some suffix \<Rightarrow> take (length v - length suffix) v)"

definition MAX_RECENCY_KEYWORDS :: nat where "MAX_RECENCY_KEYWORDS = 24"
definition MAX_RECENCY_FACT_CHARACTERS :: nat where "MAX_RECENCY_FACT_CHARACTERS = 4096"
definition MIN_RECENCY_RELEVANCE_KEYWORD_CHARACTERS :: nat where "MIN_RECENCY_RELEVANCE_KEYWORD_CHARACTERS = 3"

text \<open>The loop over the tokens; \<open>result\<close> is also the set of stems seen.\<close>

fun keywords_from :: "unicode \<Rightarrow> js_string list \<Rightarrow> js_string list \<Rightarrow> js_string list" where
  "keywords_from U result [] = result"
| "keywords_from U result (t # ts) =
     (let stem = lexicalStem U t in
      if length stem < 2 \<or> stem \<in> set RECENCY_STOPWORDS \<or> stem \<in> set result then keywords_from U result ts
      else if length (result @ [stem]) = MAX_RECENCY_KEYWORDS then result @ [stem]
      else keywords_from U (result @ [stem]) ts)"

definition recencyKeywords :: "unicode \<Rightarrow> js_string \<Rightarrow> js_string list" where
  "recencyKeywords U v = keywords_from U [] (tokens U v)"

text \<open>The text after the first segment of \<open>split(/\s+/u)\<close>, the rest joined by blanks.\<close>

definition after_first_segment :: "js_string \<Rightarrow> js_string" where
  "after_first_segment v = collapse_ws (dropWhile js_whitespace (dropWhile (\<lambda>u. \<not> js_whitespace u) v))"

definition recencyHardAnchors :: "unicode \<Rightarrow> js_string \<Rightarrow> js_string list" where
  "recencyHardAnchors U v =
     take MAX_RECENCY_KEYWORDS
       (filter (\<lambda>t. length t \<ge> 2 \<and> t \<notin> set RECENCY_STOPWORDS)
         (map (\<lambda>t. lexicalStem U (normalize_text U t))
           (filter (\<lambda>t. list_ex (u_number U) (code_points t) \<or> (case code_points t of [] \<Rightarrow> False | c # _ \<Rightarrow> u_upper U c))
             (match_tokens U (after_first_segment (js_trim (u_nfkc U v)))))))"

definition isRecencyRelevant :: "unicode \<Rightarrow> js_string \<Rightarrow> js_string \<Rightarrow> bool" where
  "isRecencyRelevant U currentUserTurn factText =
     (let current = normalize_text U currentUserTurn in
      if current = [] \<or> test_text GREETING_OR_ACKNOWLEDGEMENT current then False
      else if test_text EXPLICIT_RECENCY_REFERENCE current then True
      else let currentKeywords = recencyKeywords U current;
               sharedKeywords = filter (\<lambda>k. k \<in> set currentKeywords) (recencyKeywords U factText) in
        if length (filter (\<lambda>k. length k \<ge> MIN_RECENCY_RELEVANCE_KEYWORD_CHARACTERS) sharedKeywords) \<ge> 2 then True
        else list_ex (\<lambda>a. a \<in> set (recencyHardAnchors U current)) (recencyHardAnchors U factText))"

definition hasRecencyGroundingViolation :: "unicode \<Rightarrow> js_string option \<Rightarrow> js_string option \<Rightarrow> js_string \<Rightarrow> bool" where
  "hasRecencyGroundingViolation U recencyFact currentUserTurn response =
     (case (recencyFact, currentUserTurn) of
        (Some factText, Some turn) \<Rightarrow>
          if length factText = 0 \<or> length factText > MAX_RECENCY_FACT_CHARACTERS \<or> \<not> isRecencyRelevant U turn factText then False
          else let keywords = recencyKeywords U factText in
            if length keywords = 0 then False
            else let responseKeywords = recencyKeywords U response in
              if list_ex (\<lambda>a. a \<notin> set responseKeywords) (recencyHardAnchors U factText) then True
              else let current = normalize_text U turn;
                       currentKeywords = recencyKeywords U current;
                       groundingKeywords = filter (\<lambda>k. \<not> js_includes current k \<and>
                         \<not> (has_hangul U k \<and> length k \<ge> MIN_RECENCY_RELEVANCE_KEYWORD_CHARACTERS \<and>
                             list_ex (\<lambda>c. starts_with c (take (length k - 1) k)) currentKeywords)) keywords;
                       requiredKeywords = (if length groundingKeywords = 0 then keywords else groundingKeywords) in
                if \<not> list_ex (\<lambda>k. k \<in> set responseKeywords) requiredKeywords then True
                else test_text NEGATION factText \<noteq> test_text NEGATION response
      | _ \<Rightarrow> False)"

section \<open>Leaks and echoes\<close>

definition TOKEN_WINDOW_SIZE :: nat where "TOKEN_WINDOW_SIZE = 12"
definition MIN_ECHO_ENTRY_CHARACTERS :: nat where "MIN_ECHO_ENTRY_CHARACTERS = 24"
definition MIN_MULTI_ENTRY_ECHO_CHARACTERS :: nat where "MIN_MULTI_ENTRY_ECHO_CHARACTERS = 48"
definition MIN_PROMPT_EXACT_CHARACTERS :: nat where "MIN_PROMPT_EXACT_CHARACTERS = 16"

fun join_units :: "js_string \<Rightarrow> js_string list \<Rightarrow> js_string" where
  "join_units sep [] = []"
| "join_units sep [x] = x"
| "join_units sep (x # y # ys) = x @ sep @ join_units sep (y # ys)"

text \<open>The windows of twelve tokens, each joined by \<open>'\u0000'\<close>.\<close>

definition token_windows :: "js_string list \<Rightarrow> js_string list" where
  "token_windows ts =
     map (\<lambda>i. join_units [0] (take TOKEN_WINDOW_SIZE (drop i ts))) [0..<Suc (length ts - TOKEN_WINDOW_SIZE)]"

definition containsTokenWindow :: "js_string list \<Rightarrow> js_string list \<Rightarrow> bool" where
  "containsTokenWindow haystack needle =
     (if length needle < TOKEN_WINDOW_SIZE \<or> length haystack < TOKEN_WINDOW_SIZE then False
      else list_ex (\<lambda>w. w \<in> set (token_windows needle)) (token_windows haystack))"

definition hasPromptLeak :: "unicode \<Rightarrow> js_string \<Rightarrow> js_string \<Rightarrow> bool" where
  "hasPromptLeak U prompt response =
     (let normalizedPrompt = normalize_text U prompt; normalizedResponse = normalize_text U response in
      if normalizedPrompt = [] \<or> normalizedResponse = [] then False
      else if length normalizedPrompt \<ge> MIN_PROMPT_EXACT_CHARACTERS \<and>
        (normalizedResponse = normalizedPrompt \<or> js_includes normalizedResponse normalizedPrompt) then True
      else containsTokenWindow (tokens U normalizedResponse) (tokens U normalizedPrompt))"

definition echoedEntries :: "unicode \<Rightarrow> js_string \<Rightarrow> js_string list \<Rightarrow> js_string list" where
  "echoedEntries U response corpus =
     (let normalizedResponse = normalize_text U response; responseTokens = tokens U response in
      filter (\<lambda>entry. let normalizedEntry = normalize_text U entry in
        if length normalizedEntry < MIN_ECHO_ENTRY_CHARACTERS then False
        else js_includes normalizedResponse normalizedEntry \<or> containsTokenWindow responseTokens (tokens U entry)) corpus)"

definition hasAuthorityScopeViolation :: "js_string \<Rightarrow> bool" where
  "hasAuthorityScopeViolation response =
     (if test_text EPISTEMIC_GUARD response then False
      else test_text CLAIMS_VERIFICATION response \<or> test_text CURRENT_STATE_CLAIM response \<or>
        test_text AUTHORITY_CLAIM response)"

section \<open>Outputs\<close>

record bounded_artifact =
  at_id :: js_string
  at_task :: "js_string option"
  at_task_run :: "js_string option"
  at_kind :: artifact_kind
  at_title :: js_string
  at_content :: "js_string option"
  at_mime :: "js_string option"
  at_created :: js_string

record artifact = bounded_artifact +
  at_uri :: "js_string option"
  at_metadata :: "json option"

text \<open>What a provider returns: \<open>None\<close> is a \<open>text\<close> that is not a string; \<open>artifacts\<close> may be missing or, from a
  misbehaving provider, no array.\<close>

datatype artifacts_value = No_artifacts | Artifacts "artifact list" | Not_an_array

record execution_result =
  xr_text :: "js_string option"
  xr_artifacts :: artifacts_value

record canonical_output =
  co_text :: js_string
  co_artifacts :: "bounded_artifact list"

record bounded_output = canonical_output +
  bo_sha :: string
  bo_bytes :: int

record response_env =
  re_unicode :: unicode
  re_digest :: "json \<Rightarrow> string"
  re_bytes :: "json \<Rightarrow> int"

fun artifact_kind_text :: "artifact_kind \<Rightarrow> string" where
  "artifact_kind_text MARKDOWN_REPORT = ''MARKDOWN_REPORT''"
| "artifact_kind_text CODE_DIFF = ''CODE_DIFF''"
| "artifact_kind_text PATCH = ''PATCH''"
| "artifact_kind_text TEST_LOG = ''TEST_LOG''"
| "artifact_kind_text JIRA_REPORT = ''JIRA_REPORT''"
| "artifact_kind_text SLACK_SUMMARY = ''SLACK_SUMMARY''"
| "artifact_kind_text CONFLUENCE_DRAFT = ''CONFLUENCE_DRAFT''"
| "artifact_kind_text DOCUMENT_SUMMARY = ''DOCUMENT_SUMMARY''"

definition safeArtifact :: "artifact \<Rightarrow> bounded_artifact" where
  "safeArtifact a = \<lparr>at_id = at_id a, at_task = at_task a, at_task_run = at_task_run a, at_kind = at_kind a,
     at_title = at_title a, at_content = at_content a, at_mime = at_mime a, at_created = at_created a\<rparr>"

definition canonicalOutput :: "execution_result \<Rightarrow> canonical_output option" where
  "canonicalOutput r = (case (xr_text r, xr_artifacts r) of
     (Some t, No_artifacts) \<Rightarrow> Some \<lparr>co_text = t, co_artifacts = []\<rparr>
   | (Some t, Artifacts as) \<Rightarrow> Some \<lparr>co_text = t, co_artifacts = map safeArtifact as\<rparr>
   | _ \<Rightarrow> None)"

definition optional_member :: "string \<Rightarrow> js_string option \<Rightarrow> (string \<times> json) list" where
  "optional_member k v = (case v of None \<Rightarrow> [] | Some s \<Rightarrow> [(k, json_text s)])"

definition artifact_members :: "bounded_artifact \<Rightarrow> (string \<times> json) list" where
  "artifact_members a = [(''id'', json_text (at_id a))] @ optional_member ''taskId'' (at_task a)
     @ optional_member ''taskRunId'' (at_task_run a)
     @ [(''kind'', JStr (artifact_kind_text (at_kind a))), (''title'', json_text (at_title a))]
     @ optional_member ''content'' (at_content a) @ optional_member ''mimeType'' (at_mime a)"

definition output_json :: "(bounded_artifact \<Rightarrow> (string \<times> json) list) \<Rightarrow> canonical_output \<Rightarrow> json" where
  "output_json members out = JObj [(''text'', json_text (co_text out)),
     (''artifacts'', JArr (map (\<lambda>a. JObj (members a)) (co_artifacts out)))]"

text \<open>The digest leaves out the creation times, the size does not.\<close>

definition outputIdentity :: "response_env \<Rightarrow> canonical_output \<Rightarrow> string \<times> int" where
  "outputIdentity E out =
     (re_digest E (output_json artifact_members out),
      re_bytes E (output_json (\<lambda>a. artifact_members a @ [(''createdAt'', json_text (at_created a))]) out))"

definition searchableOutput :: "canonical_output \<Rightarrow> js_string" where
  "searchableOutput out = join_units [10]
     (co_text out # map (\<lambda>a. case at_content a of None \<Rightarrow> [] | Some c \<Rightarrow> c) (co_artifacts out))"

section \<open>Validation\<close>

record validation_input =
  vi_profile :: Id
  vi_prompt :: js_string
  vi_fact :: "js_string option"
  vi_turn :: "js_string option"
  vi_corpus :: "js_string list option"
  vi_result :: execution_result

definition disposition_of :: "reason_code list \<Rightarrow> bool \<Rightarrow> disposition" where
  "disposition_of reasons escalationEnabled =
     (if list_ex (\<lambda>c. c \<in> {N_PROMPT_LEAK, N_MULTI_ENTRY_ECHO, N_SECRET_EXPOSURE_RISK, N_VALIDATOR_INTERNAL_FAILURE}) reasons
      then REJECT
      else if escalationEnabled \<and> list_ex (\<lambda>c. c \<in> {N_AUTHORITY_SCOPE_VIOLATION, N_RECENCY_GROUNDING_VIOLATION}) reasons
      then ESCALATE
      else if length reasons = 0 then ACCEPT else REJECT)"

text \<open>The \<open>else if\<close> chain of one iteration: every test names one rule.\<close>

definition rule_reason ::
  "response_env \<Rightarrow> validation_profile \<Rightarrow> validation_input \<Rightarrow> js_string \<Rightarrow> int \<Rightarrow> validation_rule \<Rightarrow> reason_code option" where
  "rule_reason E p i response bytes r = (let U = re_unicode E in case r of
     V_NON_EMPTY \<Rightarrow> if length (normalize_text U response) = 0 then Some N_EMPTY_OUTPUT else None
   | V_OUTPUT_LIMIT \<Rightarrow> if bytes > vp_limit p then Some N_OUTPUT_LIMIT_VIOLATION else None
   | V_PROMPT_LEAK \<Rightarrow> if hasPromptLeak U (vi_prompt i) response then Some N_PROMPT_LEAK else None
   | V_MULTI_ENTRY_ECHO \<Rightarrow>
       (let echoed = echoedEntries U response (case vi_corpus i of None \<Rightarrow> [] | Some c \<Rightarrow> c) in
        if length echoed \<ge> 2 \<and>
           sum_list (map (\<lambda>entry. length (normalize_text U entry)) echoed) \<ge> MIN_MULTI_ENTRY_ECHO_CHARACTERS
        then Some N_MULTI_ENTRY_ECHO else None)
   | V_SECRET_EXPOSURE_RISK \<Rightarrow>
       if list_ex (\<lambda>p. test_text p response) SECRET_PATTERNS then Some N_SECRET_EXPOSURE_RISK else None
   | V_RECENCY_GROUNDING \<Rightarrow>
       if hasRecencyGroundingViolation U (vi_fact i) (vi_turn i) response then Some N_RECENCY_GROUNDING_VIOLATION else None
   | V_AUTHORITY_SEMANTIC_SCOPE \<Rightarrow>
       if hasAuthorityScopeViolation response then Some N_AUTHORITY_SCOPE_VIOLATION else None)"

definition empty_output :: canonical_output where
  "empty_output = \<lparr>co_text = [], co_artifacts = []\<rparr>"

definition validate_response ::
  "response_env \<Rightarrow> profile_registry \<Rightarrow> validation_input \<Rightarrow> profile_error + validation_result" where
  "validate_response E profiles i = err_bind (resolve_profile profiles (vi_profile i)) (\<lambda>p.
     case canonicalOutput (vi_result i) of
       Some out \<Rightarrow>
         let (sha, bytes) = outputIdentity E out;
             reasons = List.map_filter (rule_reason E p i (searchableOutput out) bytes) (vp_rules p)
         in Inr \<lparr>vr_disposition = disposition_of reasons (vp_escalation p), vr_reasons = reasons,
                 vr_sha = sha, vr_bytes = bytes, vr_version = vp_version p\<rparr>
     | None \<Rightarrow>
         let (sha, bytes) = outputIdentity E empty_output
         in Inr \<lparr>vr_disposition = REJECT, vr_reasons = [N_VALIDATOR_INTERNAL_FAILURE],
                 vr_sha = sha, vr_bytes = bytes, vr_version = vp_version p\<rparr>)"

text \<open>\<open>None\<close> is the \<open>throw\<close> of the projection.\<close>

definition projectBoundedProviderOutput ::
  "response_env \<Rightarrow> execution_result \<Rightarrow> validation_result \<Rightarrow> bounded_output option" where
  "projectBoundedProviderOutput E r v =
     (if vr_disposition v \<noteq> ACCEPT then None
      else case canonicalOutput r of
        None \<Rightarrow> None
      | Some out \<Rightarrow>
          let (sha, bytes) = outputIdentity E out in
          if sha \<noteq> vr_sha v \<or> bytes \<noteq> vr_bytes v then None
          else Some (canonical_output.extend out \<lparr>bo_sha = sha, bo_bytes = bytes\<rparr>))"
section \<open>Token windows\<close>

lemma split_at_zero:
  "(0 :: 16 word) \<notin> set x \<Longrightarrow> 0 \<notin> set y \<Longrightarrow> x @ 0 # r = y @ 0 # s \<Longrightarrow> x = y \<and> r = s"
proof (induction x arbitrary: y)
  case Nil
  then show ?case by (cases y) auto
next
  case (Cons a x)
  then show ?case by (cases y) auto
qed

lemma join_inj:
  assumes "length xs = length ys" "list_all (\<lambda>t. 0 \<notin> set t) xs" "list_all (\<lambda>t. 0 \<notin> set t) ys"
    "join_units [0] xs = join_units [0] ys"
  shows "xs = ys"
  using assms
proof (induction xs ys rule: list_induct2)
  case (Cons x xs y ys)
  show ?case
  proof (cases xs)
    case Nil
    with Cons show ?thesis by simp
  next
    case (Cons a as)
    with Cons.hyps obtain b bs where ys: "ys = b # bs" by (cases ys) auto
    have "x @ 0 # join_units [0] xs = y @ 0 # join_units [0] ys" using Cons.prems Cons ys by simp
    from split_at_zero [OF _ _ this] Cons.prems have "x = y" "join_units [0] xs = join_units [0] ys" by auto
    then show ?thesis using Cons.IH Cons.prems by simp
  qed
qed simp

definition common_window :: "nat \<Rightarrow> 'a list \<Rightarrow> 'a list \<Rightarrow> bool" where
  "common_window n xs ys \<longleftrightarrow> (\<exists>w a b c d. length w = n \<and> xs = a @ w @ b \<and> ys = c @ w @ d)"

lemma token_windows_eq:
  assumes "TOKEN_WINDOW_SIZE \<le> length ts"
  shows "v \<in> set (token_windows ts) \<longleftrightarrow> (\<exists>w a b. v = join_units [0] w \<and> length w = TOKEN_WINDOW_SIZE \<and> ts = a @ w @ b)"
proof
  assume "v \<in> set (token_windows ts)"
  then obtain i where i: "i \<le> length ts - TOKEN_WINDOW_SIZE" "v = join_units [0] (take TOKEN_WINDOW_SIZE (drop i ts))"
  proof -
    have "v \<in> (\<lambda>i. join_units [0] (take TOKEN_WINDOW_SIZE (drop i ts))) ` {0..<Suc (length ts - TOKEN_WINDOW_SIZE)}"
      using \<open>v \<in> set (token_windows ts)\<close> by (simp only: token_windows_def set_map set_upt)
    then show ?thesis by (rule imageE) (rule that, simp_all)
  qed
  let ?w = "take TOKEN_WINDOW_SIZE (drop i ts)"
  have "ts = take i ts @ ?w @ drop (i + TOKEN_WINDOW_SIZE) ts"
    by (metis append_take_drop_id drop_drop add.commute)
  moreover have "length ?w = TOKEN_WINDOW_SIZE" using i(1) assms by simp
  ultimately show "\<exists>w a b. v = join_units [0] w \<and> length w = TOKEN_WINDOW_SIZE \<and> ts = a @ w @ b" using i(2) by blast
next
  assume "\<exists>w a b. v = join_units [0] w \<and> length w = TOKEN_WINDOW_SIZE \<and> ts = a @ w @ b"
  then obtain w a b where w: "v = join_units [0] w" "length w = TOKEN_WINDOW_SIZE" "ts = a @ w @ b" by blast
  then have "v = join_units [0] (take TOKEN_WINDOW_SIZE (drop (length a) ts))" by simp
  moreover have "length a < Suc (length ts - TOKEN_WINDOW_SIZE)" using w by simp
  ultimately show "v \<in> set (token_windows ts)" 
    unfolding token_windows_def set_map set_upt by (intro image_eqI [of _ _ "length a"]) simp_all
qed

lemma token_windows_common:
  assumes "list_all (\<lambda>t. 0 \<notin> set t) hay" "list_all (\<lambda>t. 0 \<notin> set t) needle"
  shows "containsTokenWindow hay needle \<longleftrightarrow> common_window TOKEN_WINDOW_SIZE hay needle"
proof (cases "length needle < TOKEN_WINDOW_SIZE \<or> length hay < TOKEN_WINDOW_SIZE")
  case True
  then show ?thesis by (auto simp: containsTokenWindow_def common_window_def)
next
  case False
  then have "TOKEN_WINDOW_SIZE \<le> length needle" "TOKEN_WINDOW_SIZE \<le> length hay" by auto
  note tw = token_windows_eq [OF this(1)] token_windows_eq [OF this(2)]
  have "containsTokenWindow hay needle \<longleftrightarrow> (\<exists>v. v \<in> set (token_windows hay) \<and> v \<in> set (token_windows needle))"
    using False by (auto simp: containsTokenWindow_def list_ex_iff)
  also have "\<dots> \<longleftrightarrow> common_window TOKEN_WINDOW_SIZE hay needle"
  proof
    assume "\<exists>v. v \<in> set (token_windows hay) \<and> v \<in> set (token_windows needle)"
    then obtain w a b x c d where w: "length w = TOKEN_WINDOW_SIZE" "hay = a @ w @ b"
      "length x = TOKEN_WINDOW_SIZE" "needle = c @ x @ d" "join_units [0] w = join_units [0] x"
      unfolding tw by blast
    have "w = x" by (rule join_inj [OF _ _ _ w(5)]) (use w assms in auto)
    with w show "common_window TOKEN_WINDOW_SIZE hay needle" unfolding common_window_def by blast
  next
    assume "common_window TOKEN_WINDOW_SIZE hay needle"
    then show "\<exists>v. v \<in> set (token_windows hay) \<and> v \<in> set (token_windows needle)"
      unfolding common_window_def tw by blast
  qed
  finally show ?thesis .
qed

text \<open>Facts of Unicode: the null character is neither a letter nor a number, and the empty text is normal. Hence a
  token has no unit 0.\<close>

definition unicode_ok :: "unicode \<Rightarrow> bool" where
  "unicode_ok U \<longleftrightarrow> \<not> u_letter U 0 \<and> \<not> u_number U 0 \<and> u_nfkc U [] = [] \<and> u_lower U [] = []"

lemma token_runs_all: "t \<in> set (token_runs P cs) \<Longrightarrow> list_all P t \<and> set t \<subseteq> set cs"
proof (induction P cs rule: token_runs.induct)
  case (2 P c cs)
  have 1: "set (takeWhile P cs) \<subseteq> set cs" "list_all P (takeWhile P cs)" "set (dropWhile P cs) \<subseteq> set cs"
    by (auto simp: list_all_iff dest: set_takeWhileD set_dropWhileD)
  show ?case
  proof (cases "P c")
    case True
    then have "t = c # takeWhile P cs \<or> t \<in> set (token_runs P (dropWhile P cs))" using "2.prems" by simp
    with True "2.IH"(1) 1 show ?thesis by auto
  next
    case False
    with "2.IH"(2) "2.prems" show ?thesis by auto
  qed
qed simp

lemma unit_below: "unat (u :: 16 word) < 65536"
  by (rule order_less_le_trans [OF unsigned_less]) simp

lemma code_points_below: "c \<in> set (code_points s) \<Longrightarrow> c < 0x110000"
proof (induction s rule: code_points.induct)
  case (2 u)
  then show ?case using unit_below [of u] by simp
next
  case (3 u v us)
  show ?case
  proof (cases "is_high_surrogate u \<and> is_low_surrogate v")
    case True
    then have "unat u \<le> 0xDBFF" "unat v \<le> 0xDFFF"
      unfolding is_high_surrogate_def is_low_surrogate_def by (simp_all add: word_le_nat_alt)
    with True 3 show ?thesis by auto
  next
    case False
    with 3 show ?thesis using unit_below [of u] by auto
  qed
qed simp

lemma small_unit_nonzero: "0 < k \<Longrightarrow> k < 0x10000 \<Longrightarrow> (word_of_nat k :: 16 word) \<noteq> 0"
  by (simp add: word_of_nat_eq_0_iff dvd_imp_le nat_dvd_not_less)

lemma utf16_no_zero:
  assumes "list_all (\<lambda>c. c \<noteq> 0 \<and> c < 0x110000) cs"
  shows "0 \<notin> set (utf16 cs)"
proof -
  have "0 \<notin> set (if c < 0x10000 then [word_of_nat c :: 16 word]
     else [word_of_nat (0xD800 + (c - 0x10000) div 0x400), word_of_nat (0xDC00 + (c - 0x10000) mod 0x400)])"
    if "c \<in> set cs" for c
  proof -
    have c: "0 < c" "c < 0x110000" using assms that by (auto simp: list_all_iff)
    define a b where "a = 0xD800 + (c - 0x10000) div 0x400" and "b = 0xDC00 + (c - 0x10000) mod 0x400"
    have "0 < a" "a < 0x10000" "0 < b" "b < 0x10000" using c by (auto simp: a_def b_def)
    then show ?thesis using c small_unit_nonzero unfolding a_def [symmetric] b_def [symmetric] by auto
  qed
  then show ?thesis unfolding utf16_def set_concat set_map by blast
qed

lemma tokens_no_null:
  assumes "unicode_ok U"
  shows "list_all (\<lambda>t. 0 \<notin> set t) (match_tokens U v)"
  unfolding match_tokens_def list_all_iff
proof
  fix t assume "t \<in> set (map utf16 (token_runs (token_code U) (code_points v)))"
  then obtain cs where cs: "t = utf16 cs" "cs \<in> set (token_runs (token_code U) (code_points v))" by auto
  have "\<not> token_code U 0" using assms by (simp add: token_code_def unicode_ok_def)
  then have "c \<noteq> 0 \<and> c < 0x110000" if "c \<in> set cs" for c
    using that token_runs_all [OF cs(2)] code_points_below [of c v] by (auto simp: list_all_iff intro: gr0I)
  then show "0 \<notin> set t" using utf16_no_zero [of cs] by (simp add: cs(1) list_all_iff)
qed

section \<open>What an accepted response satisfies\<close>

lemma disposition_of_ACCEPT: "disposition_of reasons e = ACCEPT \<longleftrightarrow> reasons = []"
  by (auto simp: disposition_of_def)

lemma map_filter_Nil_iff: "List.map_filter f xs = [] \<longleftrightarrow> list_all (\<lambda>x. f x = None) xs"
  by (induction xs) (auto simp: List.map_filter_def split: option.splits)


text \<open>A response that repeats twelve consecutive tokens of the prompt is never accepted by a profile with the leak
  rule: it is rejected for a reason the failure matrix counts as a safety failure, and nothing is projected.\<close>

theorem leaked_prompt_is_rejected:
  assumes "validate_response E profiles i = Inr v" "resolve_profile profiles (vi_profile i) = Inr p"
    "V_PROMPT_LEAK \<in> set (vp_rules p)" "canonicalOutput (vi_result i) = Some out" "unicode_ok (re_unicode E)"
    "common_window 12 (tokens (re_unicode E) (normalize_text (re_unicode E) (searchableOutput out)))
       (tokens (re_unicode E) (normalize_text (re_unicode E) (vi_prompt i)))"
  shows "vr_disposition v = REJECT \<and> N_PROMPT_LEAK \<in> set (vr_reasons v) \<and>
    map_option (\<lambda>c. fp_class (failurePolicy c)) (classifyValidationFailure v) = Some FC_SAFETY \<and>
    projectBoundedProviderOutput E (vi_result i) v = None"
proof -
  let ?U = "re_unicode E"
  let ?hay = "tokens ?U (normalize_text ?U (searchableOutput out))" and ?needle = "tokens ?U (normalize_text ?U (vi_prompt i))"
  have win: "containsTokenWindow ?hay ?needle"
    using token_windows_common [of ?hay ?needle] tokens_no_null [OF assms(5)] assms(6)
    by (simp add: tokens_def TOKEN_WINDOW_SIZE_def)
  have "normalize_text ?U [] = []" using assms(5) by (simp add: unicode_ok_def normalize_text_def js_trim_def)
  then have nil: "tokens ?U [] = []" by (simp add: tokens_def match_tokens_def)
  have "?hay \<noteq> []" "?needle \<noteq> []" using win by (auto simp: containsTokenWindow_def TOKEN_WINDOW_SIZE_def)
  then have "normalize_text ?U (vi_prompt i) \<noteq> []" "normalize_text ?U (searchableOutput out) \<noteq> []"
    using nil by auto
  then have leak: "hasPromptLeak ?U (vi_prompt i) (searchableOutput out)"
    using win by (simp add: hasPromptLeak_def Let_def)
  obtain sha bytes where id: "outputIdentity E out = (sha, bytes)" by (cases "outputIdentity E out")
  let ?reasons = "List.map_filter (rule_reason E p i (searchableOutput out) bytes) (vp_rules p)"
  have v: "vr_reasons v = ?reasons" "vr_disposition v = disposition_of ?reasons (vp_escalation p)"
    using assms(1,2,4) id by (auto simp: validate_response_def Let_def)
  have "rule_reason E p i (searchableOutput out) bytes V_PROMPT_LEAK = Some N_PROMPT_LEAK"
    using leak by (simp add: rule_reason_def Let_def)
  then have m: "N_PROMPT_LEAK \<in> set ?reasons"
    using assms(3) unfolding List.map_filter_def by (force simp: comp_def)
  then have r: "vr_disposition v = REJECT" by (auto simp: v disposition_of_def list_ex_iff)
  moreover have "fp_class (failurePolicy (reason_failure N_PROMPT_LEAK)) = FC_SAFETY"
    by (simp add: failurePolicy_def find_failure_policy_def FAILURE_MATRIX_def failure_rows)
  then have "map_option (\<lambda>c. fp_class (failurePolicy c)) (classifyValidationFailure v) = Some FC_SAFETY"
    using classify_safety_first [of N_PROMPT_LEAK v] m by (auto simp: v)
  ultimately show ?thesis using m by (simp add: v projectBoundedProviderOutput_def)
qed
section \<open>An example\<close>

definition plain_unicode :: unicode where
  "plain_unicode = \<lparr>u_nfkc = (\<lambda>s. s), u_lower = (\<lambda>s. s), u_letter = (\<lambda>c. 97 \<le> c \<and> c \<le> 122),
     u_number = (\<lambda>c. False), u_upper = (\<lambda>c. False), u_hangul = (\<lambda>c. False)\<rparr>"

definition twelve_tokens :: js_string where
  "twelve_tokens = [0x61, 0x20, 0x61, 0x20, 0x61, 0x20, 0x61, 0x20, 0x61, 0x20, 0x61, 0x20,
     0x61, 0x20, 0x61, 0x20, 0x61, 0x20, 0x61, 0x20, 0x61, 0x20, 0x61]"

lemma example_units: "js_whitespace 0x20" "\<not> js_whitespace 0x61"
  "\<not> is_high_surrogate 0x20" "\<not> is_high_surrogate 0x61"
  by code_simp+

lemma example_normal: "normalize_text plain_unicode twelve_tokens = twelve_tokens"
  by (simp add: normalize_text_def plain_unicode_def twelve_tokens_def js_trim_def example_units)

lemma example_tokens: "length (tokens plain_unicode twelve_tokens) = 12"
  unfolding tokens_def example_normal
  by (simp add: match_tokens_def twelve_tokens_def example_units plain_unicode_def token_code_def)

definition sample_env :: response_env where
  "sample_env = \<lparr>re_unicode = plain_unicode, re_digest = (\<lambda>_. ''''), re_bytes = (\<lambda>_. 23)\<rparr>"

definition sample_profile :: validation_profile where
  "sample_profile = profile_configuration.extend
     \<lparr>vp_id = ''p'', vp_version = ''1'', vp_rules = [V_NON_EMPTY, V_PROMPT_LEAK], vp_limit = 100, vp_escalation = False,
      vp_axis = None, vp_minimum = None\<rparr> \<lparr>vp_digest = ''''\<rparr>"

definition sample_input :: validation_input where
  "sample_input = \<lparr>vi_profile = ''p'', vi_prompt = twelve_tokens, vi_fact = None, vi_turn = None, vi_corpus = None,
     vi_result = \<lparr>xr_text = Some twelve_tokens, xr_artifacts = No_artifacts\<rparr>\<rparr>"

lemma example_resolved: "resolve_profile [sample_profile] (vi_profile sample_input) = Inr sample_profile"
  by (simp add: resolve_profile_def sample_profile_def sample_input_def profile_configuration.defs)

lemma example_validated: "\<exists>v. validate_response sample_env [sample_profile] sample_input = Inr v"
  by (simp add: validate_response_def example_resolved Let_def split: option.split prod.split)


lemma leaked_prompt_is_rejected_witness:
  "\<exists>v. validate_response sample_env [sample_profile] sample_input = Inr v \<and> vr_disposition v = REJECT"
proof -
  obtain v where v: "validate_response sample_env [sample_profile] sample_input = Inr v"
    using example_validated by blast
  have "canonicalOutput (vi_result sample_input) = Some \<lparr>co_text = twelve_tokens, co_artifacts = []\<rparr>"
    by (simp add: canonicalOutput_def sample_input_def)
  moreover have "common_window 12 (tokens plain_unicode twelve_tokens) (tokens plain_unicode twelve_tokens)"
    unfolding common_window_def using example_tokens by (metis append_Nil append_Nil2)
  ultimately have "vr_disposition v = REJECT"
    using leaked_prompt_is_rejected [OF v example_resolved]
    by (simp add: sample_profile_def profile_configuration.defs sample_env_def unicode_ok_def example_normal
        plain_unicode_def [THEN arg_cong, of u_nfkc] plain_unicode_def [THEN arg_cong, of u_lower]
        plain_unicode_def [THEN arg_cong, of u_letter] plain_unicode_def [THEN arg_cong, of u_number]
        searchableOutput_def sample_input_def)
  with v show ?thesis by blast
qed

end
