(* ===== verification/Provider_Gateway.thy ===== *)
theory Provider_Gateway
  imports Provider_Plans Response_Validation
begin

text \<open>
  The bounded execution of a plan: \<open>application/provider-routing-gateway.ts\<close> with its state machine
  (\<open>routing-execution-state.ts\<close>) and its deadlines (\<open>deadline-policy.ts\<close>).

  \<^item> The world of a run answers the readings of the monotonic clock and the calls of providers, each by its
    number; a rejected call that is no \<open>AiProviderError\<close> of a known kind is \<open>Failed None\<close>. Numbers are
    rationals, so the checks for infinite numbers are left out.
  \<^item> The state of \<open>execute\<close> is a record: the machine, the attempts, the path, the final target, and, for the
    theorems, the calls made. \<open>None\<close> is an exception that leaves \<open>execute\<close>. The constant \<open>schemaVersion\<close> of the audit
    is left out.
\<close>

section \<open>The state machine\<close>

datatype routing_state =
  RS_INITIAL | RS_PRIMARY_READY | RS_PRIMARY_EXECUTING | RS_PRIMARY_VALIDATING | RS_FALLBACK_READY
  | RS_FALLBACK_EXECUTING | RS_FALLBACK_VALIDATING | RS_ESCALATION_READY | RS_ESCALATION_EXECUTING
  | RS_ESCALATION_VALIDATING | RS_TERMINAL

fun ALLOWED :: "routing_state \<Rightarrow> routing_state list" where
  "ALLOWED RS_INITIAL = [RS_PRIMARY_READY, RS_TERMINAL]"
| "ALLOWED RS_PRIMARY_READY = [RS_PRIMARY_EXECUTING, RS_TERMINAL]"
| "ALLOWED RS_PRIMARY_EXECUTING = [RS_PRIMARY_VALIDATING, RS_FALLBACK_READY, RS_TERMINAL]"
| "ALLOWED RS_PRIMARY_VALIDATING = [RS_FALLBACK_READY, RS_ESCALATION_READY, RS_TERMINAL]"
| "ALLOWED RS_FALLBACK_READY = [RS_FALLBACK_EXECUTING, RS_TERMINAL]"
| "ALLOWED RS_FALLBACK_EXECUTING = [RS_FALLBACK_VALIDATING, RS_TERMINAL]"
| "ALLOWED RS_FALLBACK_VALIDATING = [RS_TERMINAL]"
| "ALLOWED RS_ESCALATION_READY = [RS_ESCALATION_EXECUTING, RS_TERMINAL]"
| "ALLOWED RS_ESCALATION_EXECUTING = [RS_ESCALATION_VALIDATING, RS_TERMINAL]"
| "ALLOWED RS_ESCALATION_VALIDATING = [RS_TERMINAL]"
| "ALLOWED RS_TERMINAL = []"

definition MAX_ROUTING_TRANSITIONS :: nat where "MAX_ROUTING_TRANSITIONS = 7"

datatype transition_cause = Cause string | Cause_code gateway_code

record transition_record =
  tr_sequence :: nat
  tr_from :: routing_state
  tr_to :: routing_state
  tr_cause :: transition_cause

record routing_machine =
  rm_state :: routing_state
  rm_records :: "transition_record list"

definition new_machine :: routing_machine where
  "new_machine = \<lparr>rm_state = RS_INITIAL, rm_records = []\<rparr>"

definition transition :: "routing_state \<Rightarrow> transition_cause \<Rightarrow> routing_machine \<Rightarrow> routing_machine option" where
  "transition target cause m =
     (if target \<notin> set (ALLOWED (rm_state m)) \<or> length (rm_records m) \<ge> MAX_ROUTING_TRANSITIONS then None
      else Some \<lparr>rm_state = target, rm_records = rm_records m @
        [\<lparr>tr_sequence = length (rm_records m) + 1, tr_from = rm_state m, tr_to = target, tr_cause = cause\<rparr>]\<rparr>)"

section \<open>Deadlines\<close>

record deadline_budget =
  dl_overall :: rat
  dl_reserve :: rat
  dl_minimum :: rat

record deadline_policy =
  dp_version :: string
  dp_resolve :: "deadline_class \<Rightarrow> deadline_budget option"

fun BUDGETS :: "deadline_class \<Rightarrow> deadline_budget" where
  "BUDGETS DL_INTERACTIVE = \<lparr>dl_overall = 15000, dl_reserve = 250, dl_minimum = 50\<rparr>"
| "BUDGETS DL_STANDARD = \<lparr>dl_overall = 60000, dl_reserve = 500, dl_minimum = 100\<rparr>"
| "BUDGETS DL_EXTENDED = \<lparr>dl_overall = 300000, dl_reserve = 1000, dl_minimum = 250\<rparr>"

definition DEFAULT_PROVIDER_DEADLINE_POLICY :: deadline_policy where
  "DEFAULT_PROVIDER_DEADLINE_POLICY =
     \<lparr>dp_version = ''provider-deadline-policy-v1'', dp_resolve = (\<lambda>c. Some (BUDGETS c))\<rparr>"

definition effectiveProviderTimeoutMs :: "rat option \<Rightarrow> int \<Rightarrow> rat" where
  "effectiveProviderTimeoutMs requested budget =
     max 0 (case requested of None \<Rightarrow> of_int budget | Some t \<Rightarrow> min t (of_int budget))"

section \<open>Requests, attempts, results\<close>

record ai_request =
  aq_capability :: capability
  aq_prompt :: js_string
  aq_system :: "js_string option"
  aq_context :: "js_string list option"
  aq_timeout :: "rat option"

record validation_facts =
  vf_fact :: "js_string option"
  vf_turn :: "js_string option"
  vf_corpus :: "js_string list option option"

datatype provider_outcome = Returned execution_result | Failed "ai_failure_kind option"

record gateway_world =
  gw_now :: "nat \<Rightarrow> rat"
  gw_execute :: "nat \<Rightarrow> Id \<Rightarrow> ai_request \<Rightarrow> provider_outcome"

datatype gateway_status =
  GS_ACCEPTED | GS_REJECTED | GS_HUMAN_REVIEW_REQUIRED | GS_EXECUTION_FAILED | GS_SAFETY_BLOCKED | GS_CONFIGURATION_FAILED

datatype attempt_outcome = PROVIDER_FAILED | VALIDATION_ACCEPTED | VALIDATION_REJECTED

record attempt_audit =
  aa_index :: nat
  aa_purpose :: target_purpose
  aa_provider :: Id
  aa_binding_digest :: string
  aa_outcome :: attempt_outcome
  aa_failure :: "failure_code option"
  aa_disposition :: "disposition option"
  aa_reasons :: "reason_code list"
  aa_succeeded :: bool
  aa_sha :: "string option"
  aa_bytes :: "int option"
  aa_budget :: int
  aa_duration :: rat

datatype execution_path = PRIMARY_ONLY | PATH_FALLBACK | PATH_ESCALATION

record execution_audit =
  ea_execution :: Id
  ea_decision :: string
  ea_plan_digest :: string
  ea_execution_digest :: string
  ea_deadline_version :: string
  ea_capability :: capability
  ea_profile :: Id
  ea_policy :: Id
  ea_policy_version :: string
  ea_registry_version :: string
  ea_registry_digest :: string
  ea_policy_digest :: string
  ea_routing_digest :: string
  ea_path :: execution_path
  ea_count :: nat
  ea_attempts :: "attempt_audit list"
  ea_transitions :: "transition_record list"
  ea_status :: gateway_status
  ea_code :: "gateway_code option"
  ea_provider :: "Id option"
  ea_purpose :: "target_purpose option"
  ea_accepted :: "string option"

record gateway_result =
  gt_status :: gateway_status
  gt_failure :: "gateway_code option"
  gt_human_review :: bool
  gt_output :: "bounded_output option"
  gt_audit :: execution_audit

record gateway_run =
  gr_machine :: routing_machine
  gr_attempts :: "attempt_audit list"
  gr_path :: execution_path
  gr_final :: "execution_target option"
  gr_clock :: nat
  gr_calls :: "(Id \<times> ai_request) list"

record gateway =
  gy_env :: response_env
  gy_bindings :: binding_registry
  gy_profiles :: profile_registry
  gy_deadlines :: deadline_policy

section \<open>Checks before the first attempt\<close>

text \<open>The combined digests of the plan use the same SHA-256 as the validator.\<close>

definition validatePlanShape :: "(json \<Rightarrow> string) \<Rightarrow> provider_plan \<Rightarrow> ai_request \<Rightarrow> binding_failure option" where
  "validatePlanShape digest plan rq =
     (if \<not> isRoutingIdentifier (dm_policy plan) \<or> \<not> is_version (pl_policy_version plan) \<or>
         \<not> is_version (pl_registry_version plan) \<or> \<not> is_hex64 (dm_registry_digest plan) \<or>
         \<not> is_hex64 (dm_policy_digest plan) \<or> \<not> is_hex64 (pl_routing_digest plan) \<or>
         \<not> is_hex64 (dm_profile_digest plan) \<or> \<not> is_hex64 (pl_configuration_digest plan) \<or>
         \<not> is_hex64 (pl_decision plan) \<or> \<not> is_hex64 (pl_digest plan) \<or>
         \<not> is_version (pl_profile_version plan) \<or> \<not> isRoutingIdentifier (dm_profile plan) \<or>
         \<not> isRoutingIdentifier (pl_execution plan) \<or>
         (case aq_timeout rq of None \<Rightarrow> False | Some t \<Rightarrow> t \<le> 0)
      then Some B_ROUTING_CONFIGURATION_MISMATCH
      else if
         pl_routing_digest plan \<noteq> combinedRoutingConfigurationDigest digest (dm_registry_digest plan) (dm_policy_digest plan) \<or>
         tg_purpose (dm_primary plan) \<noteq> PRIMARY \<or>
         (case dm_fallback plan of None \<Rightarrow> False | Some t \<Rightarrow> tg_purpose t \<noteq> FALLBACK) \<or>
         (case dm_escalation plan of None \<Rightarrow> False | Some t \<Rightarrow> tg_purpose t \<noteq> ESCALATION) \<or>
         map_option tg_provider (dm_fallback plan) = Some (tg_provider (dm_primary plan)) \<or>
         map_option tg_provider (dm_escalation plan) = Some (tg_provider (dm_primary plan)) \<or>
         (dm_fallback plan \<noteq> None \<and> dm_escalation plan \<noteq> None \<and>
          map_option tg_provider (dm_fallback plan) = map_option tg_provider (dm_escalation plan)) \<or>
         list_ex (\<lambda>t. \<not> isRoutingIdentifier (tg_provider t) \<or> bi_provider (tg_identity t) \<noteq> tg_provider t \<or>
             \<not> is_version (bi_version (tg_identity t)) \<or> \<not> is_hex64 (bi_digest (tg_identity t)))
           (List.map_filter (\<lambda>t. t) [Some (dm_primary plan), dm_fallback plan, dm_escalation plan]) \<or>
         dm_matrix_version plan \<noteq> ROUTING_FAILURE_MATRIX_VERSION \<or>
         dm_max_attempts plan \<noteq> MAX_PROVIDER_ATTEMPTS \<or>
         dm_max_hops plan \<noteq> MAX_ADDITIONAL_PROVIDER_HOPS \<or>
         pl_configuration_digest plan \<noteq> computeProviderExecutionConfigurationDigest digest plan \<or>
         pl_digest plan \<noteq> computeProviderExecutionPlanDigest digest (pl_decision plan) (pl_configuration_digest plan) \<or>
         aq_capability rq \<noteq> dm_capability plan
      then Some B_ROUTING_CONFIGURATION_MISMATCH
      else None)"

definition bindingFailure :: "binding_registry \<Rightarrow> execution_target \<Rightarrow> binding_failure option" where
  "bindingFailure br t = (case binding_get br (tg_provider t) of
     None \<Rightarrow> Some B_PROVIDER_BINDING_NOT_FOUND
   | Some b \<Rightarrow>
       if vb_id b \<noteq> tg_provider t \<or> bi_provider (vb_identity b) \<noteq> tg_provider t \<or> vb_provider_id b \<noteq> tg_provider t \<or>
          bi_version (vb_identity b) \<noteq> bi_version (tg_identity t) \<or> bi_digest (vb_identity b) \<noteq> bi_digest (tg_identity t)
       then Some B_PROVIDER_BINDING_MISMATCH else None)"

text \<open>A routing code whose text is also the text of a binding code counts as a binding code.\<close>

definition is_binding_code :: "gateway_code \<Rightarrow> bool" where
  "is_binding_code c = (case c of Binding_code _ \<Rightarrow> True
     | Routing_code r \<Rightarrow> r \<in> {F_ROUTING_CONFIGURATION_MISMATCH, F_PROVIDER_BINDING_NOT_FOUND, F_PROVIDER_DISABLED})"

definition routing_terminal_status :: "failure_code \<Rightarrow> gateway_status" where
  "routing_terminal_status c =
     (if c = F_SEMANTIC_VALIDATION_UNRESOLVED \<or> c = F_STRUCTURAL_VALIDATION_UNRESOLVED then GS_HUMAN_REVIEW_REQUIRED
      else if fp_class (failurePolicy c) = FC_SAFETY then GS_SAFETY_BLOCKED
      else if fp_class (failurePolicy c) = FC_CONFIGURATION then GS_CONFIGURATION_FAILED
      else if c = F_EMPTY_OUTPUT \<or> c = F_OUTPUT_LIMIT_VIOLATION \<or> fp_class (failurePolicy c) = FC_VALIDATION then GS_REJECTED
      else GS_EXECUTION_FAILED)"

definition terminalStatus :: "gateway_code \<Rightarrow> gateway_status" where
  "terminalStatus c = (if is_binding_code c then GS_CONFIGURATION_FAILED
     else case c of Routing_code r \<Rightarrow> routing_terminal_status r | Binding_code _ \<Rightarrow> GS_CONFIGURATION_FAILED)"

section \<open>Finishing\<close>

definition or_text :: "string \<Rightarrow> bool \<Rightarrow> string \<Rightarrow> string" where
  "or_text other ok s = (if ok then s else other)"

definition audit_of ::
  "gateway \<Rightarrow> provider_plan \<Rightarrow> gateway_status \<Rightarrow> gateway_code option \<Rightarrow> bounded_output option \<Rightarrow> gateway_run \<Rightarrow> execution_audit" where
  "audit_of g plan st code output run = (let zeros = replicate 64 (CHR ''0'');
       sha = (\<lambda>s. or_text zeros (is_hex64 s) s); ver = (\<lambda>s. or_text ''invalid'' (is_version s) s) in
     \<lparr>ea_execution = or_text ''invalid-execution'' (isRoutingIdentifier (pl_execution plan)) (pl_execution plan),
      ea_decision = sha (pl_decision plan), ea_plan_digest = sha (pl_digest plan),
      ea_execution_digest = sha (pl_configuration_digest plan),
      ea_deadline_version = ver (dp_version (gy_deadlines g)),
      ea_capability = dm_capability plan,
      ea_profile = or_text ''invalid-profile'' (isRoutingIdentifier (dm_profile plan)) (dm_profile plan),
      ea_policy = or_text ''invalid-policy'' (isRoutingIdentifier (dm_policy plan)) (dm_policy plan),
      ea_policy_version = ver (pl_policy_version plan), ea_registry_version = ver (pl_registry_version plan),
      ea_registry_digest = sha (dm_registry_digest plan), ea_policy_digest = sha (dm_policy_digest plan),
      ea_routing_digest = sha (pl_routing_digest plan), ea_path = gr_path run,
      ea_count = length (gr_attempts run), ea_attempts = gr_attempts run,
      ea_transitions = rm_records (gr_machine run), ea_status = st, ea_code = code,
      ea_provider = map_option tg_provider (gr_final run), ea_purpose = map_option tg_purpose (gr_final run),
      ea_accepted = map_option bo_sha output\<rparr>)"

definition finish_cause :: "gateway_code option \<Rightarrow> transition_cause" where
  "finish_cause code = (case code of None \<Rightarrow> Cause ''ACCEPTED'' | Some c \<Rightarrow> Cause_code c)"

definition finish ::
  "gateway \<Rightarrow> provider_plan \<Rightarrow> gateway_status \<Rightarrow> gateway_code option \<Rightarrow> bounded_output option \<Rightarrow> gateway_run \<Rightarrow>
   (gateway_result \<times> gateway_run) option" where
  "finish g plan st code output run =
     Option.bind (if rm_state (gr_machine run) \<noteq> RS_TERMINAL
       then transition RS_TERMINAL (finish_cause code) (gr_machine run) else Some (gr_machine run)) (\<lambda>m.
     let run' = run\<lparr>gr_machine := m\<rparr> in
     Some (\<lparr>gt_status = st, gt_failure = code,
       gt_human_review = (st = GS_HUMAN_REVIEW_REQUIRED \<or>
         (case code of Some (Routing_code c) \<Rightarrow> \<not> is_binding_code (Routing_code c) \<and> fp_human_review (failurePolicy c) | _ \<Rightarrow> False)),
       gt_output = output, gt_audit = audit_of g plan st code output run'\<rparr>, run'))"

section \<open>One attempt\<close>

record attempt_result =
  ar_outcome :: "execution_result + failure_code"
  ar_budget :: int
  ar_duration :: rat

fun attempt_states :: "target_purpose \<Rightarrow> routing_state \<times> routing_state" where
  "attempt_states PRIMARY = (RS_PRIMARY_EXECUTING, RS_PRIMARY_VALIDATING)"
| "attempt_states FALLBACK = (RS_FALLBACK_EXECUTING, RS_FALLBACK_VALIDATING)"
| "attempt_states ESCALATION = (RS_ESCALATION_EXECUTING, RS_ESCALATION_VALIDATING)"

definition run_transition :: "routing_state \<Rightarrow> transition_cause \<Rightarrow> gateway_run \<Rightarrow> gateway_run option" where
  "run_transition s cause run = map_option (\<lambda>m. run\<lparr>gr_machine := m\<rparr>) (transition s cause (gr_machine run))"

type_synonym finished = "gateway_result \<times> gateway_run"

text \<open>\<open>Inl\<close>: \<open>execute\<close> has returned; \<open>Inr\<close>: it goes on.\<close>

definition runAttempt ::
  "gateway \<Rightarrow> gateway_world \<Rightarrow> provider_plan \<Rightarrow> ai_request \<Rightarrow> rat \<Rightarrow> deadline_budget \<Rightarrow> execution_target \<Rightarrow> gateway_run \<Rightarrow>
   (finished + attempt_result \<times> gateway_run) option" where
  "runAttempt g w plan rq deadlineAt budget t run =
     (let remaining = deadlineAt - gw_now w (gr_clock run);
          run1 = run\<lparr>gr_clock := gr_clock run + 1\<rparr>;
          providerBudgetMs = \<lfloor>remaining - dl_reserve budget\<rfloor>
      in
      if of_int providerBudgetMs < dl_minimum budget then
        map_option Inl (finish g plan GS_EXECUTION_FAILED (Some (Routing_code F_DEADLINE_EXHAUSTED)) None
          (run1\<lparr>gr_final := Some t\<rparr>))
      else case bindingFailure (gy_bindings g) t of
        Some f \<Rightarrow> map_option Inl (finish g plan GS_CONFIGURATION_FAILED (Some (Binding_code f)) None (run1\<lparr>gr_final := Some t\<rparr>))
      | None \<Rightarrow>
          Option.bind (run_transition (fst (attempt_states (tg_purpose t))) (Cause ''ATTEMPT_DISPATCHED'') run1) (\<lambda>run2.
          let startedAt = gw_now w (gr_clock run2);
              rq' = rq\<lparr>aq_timeout := Some (effectiveProviderTimeoutMs (aq_timeout rq) providerBudgetMs)\<rparr>;
              outcome = gw_execute w (length (gr_calls run2)) (tg_provider t) rq';
              durationMs = max 0 (gw_now w (gr_clock run2 + 1) - startedAt);
              run3 = run2\<lparr>gr_clock := gr_clock run2 + 2, gr_calls := gr_calls run2 @ [(tg_provider t, rq')]\<rparr>
          in case outcome of
            Returned r \<Rightarrow>
              map_option (\<lambda>run4. Inr (\<lparr>ar_outcome = Inl r, ar_budget = providerBudgetMs, ar_duration = durationMs\<rparr>, run4))
                (run_transition (snd (attempt_states (tg_purpose t))) (Cause ''PROVIDER_RETURNED'') run3)
          | Failed kind \<Rightarrow>
              Some (Inr (\<lparr>ar_outcome = Inr (classifyProviderFailure (case kind of None \<Rightarrow> K_EXECUTION_FAILED | Some k \<Rightarrow> k)),
                ar_budget = providerBudgetMs, ar_duration = durationMs\<rparr>, run3))))"

text \<open>The next target, entered by a transition with the failure as its cause.\<close>

definition continue_with ::
  "execution_target \<Rightarrow> routing_state \<Rightarrow> execution_path \<Rightarrow> failure_code \<Rightarrow> gateway_run \<Rightarrow>
   (finished + execution_target \<times> gateway_run) option" where
  "continue_with t s path code run =
     map_option (\<lambda>r. Inr (t, r)) (run_transition s (Cause_code (Routing_code code)) (run\<lparr>gr_path := path\<rparr>))"

definition push_attempt :: "attempt_audit \<Rightarrow> gateway_run \<Rightarrow> gateway_run" where
  "push_attempt a run = run\<lparr>gr_attempts := gr_attempts run @ [a]\<rparr>"

definition after_failure ::
  "gateway \<Rightarrow> provider_plan \<Rightarrow> execution_target \<Rightarrow> failure_code \<Rightarrow> attempt_result \<Rightarrow> gateway_run \<Rightarrow>
   (finished + execution_target \<times> gateway_run) option" where
  "after_failure g plan t code a run0 =
     (let run = push_attempt
        \<lparr>aa_index = length (gr_attempts run0) + 1, aa_purpose = tg_purpose t, aa_provider = tg_provider t,
         aa_binding_digest = bi_digest (tg_identity t), aa_outcome = PROVIDER_FAILED, aa_failure = Some code,
         aa_disposition = None, aa_reasons = [], aa_succeeded = False, aa_sha = None, aa_bytes = None,
         aa_budget = ar_budget a, aa_duration = ar_duration a\<rparr> run0
      in case dm_fallback plan of
        Some f \<Rightarrow>
          if tg_purpose t = PRIMARY \<and> fp_fallback (failurePolicy code) \<and> length (gr_attempts run) < MAX_PROVIDER_ATTEMPTS
          then continue_with f RS_FALLBACK_READY PATH_FALLBACK code run
          else map_option Inl (finish g plan (terminalStatus (Routing_code code)) (Some (Routing_code code)) None run)
      | None \<Rightarrow> map_option Inl (finish g plan (terminalStatus (Routing_code code)) (Some (Routing_code code)) None run))"

definition validation_view :: "provider_plan \<Rightarrow> ai_request \<Rightarrow> validation_facts option \<Rightarrow> execution_result \<Rightarrow> validation_input" where
  "validation_view plan rq facts r =
     \<lparr>vi_profile = dm_profile plan, vi_prompt = aq_prompt rq,
      vi_fact = (case facts of None \<Rightarrow> None | Some f \<Rightarrow> vf_fact f),
      vi_turn = (case facts of None \<Rightarrow> None | Some f \<Rightarrow> vf_turn f),
      vi_corpus = (case facts of None \<Rightarrow> aq_context rq
        | Some f \<Rightarrow> (case vf_corpus f of None \<Rightarrow> aq_context rq | Some c \<Rightarrow> c)),
      vi_result = r\<rparr>"

definition after_rejection ::
  "gateway \<Rightarrow> provider_plan \<Rightarrow> validation_profile \<Rightarrow> execution_target \<Rightarrow> validation_result \<Rightarrow> failure_code \<Rightarrow> gateway_run \<Rightarrow>
   (finished + execution_target \<times> gateway_run) option" where
  "after_rejection g plan profile t v code run =
     (let policy = failurePolicy code; first = (tg_purpose t = PRIMARY \<and> length (gr_attempts run) < MAX_PROVIDER_ATTEMPTS);
          close = (\<lambda>st c. map_option Inl (finish g plan st (Some (Routing_code c)) None run))
      in
      if first \<and> fp_fallback policy \<and> dm_fallback plan \<noteq> None
      then continue_with (the (dm_fallback plan)) RS_FALLBACK_READY PATH_FALLBACK code run
      else if first \<and> vr_disposition v = ESCALATE \<and> fp_escalation policy \<and> vp_escalation profile \<and> dm_escalation plan \<noteq> None
      then continue_with (the (dm_escalation plan)) RS_ESCALATION_READY PATH_ESCALATION code run
      else if code = F_SEMANTIC_VALIDATION_FAILED then close GS_HUMAN_REVIEW_REQUIRED F_SEMANTIC_VALIDATION_UNRESOLVED
      else if code = F_STRUCTURAL_VALIDATION_FAILED then close GS_HUMAN_REVIEW_REQUIRED F_STRUCTURAL_VALIDATION_UNRESOLVED
      else close (terminalStatus (Routing_code code)) code)"

definition after_result ::
  "gateway \<Rightarrow> gateway_world \<Rightarrow> provider_plan \<Rightarrow> ai_request \<Rightarrow> validation_facts option \<Rightarrow> rat \<Rightarrow> validation_profile \<Rightarrow>
   execution_target \<Rightarrow> execution_result \<Rightarrow> attempt_result \<Rightarrow> gateway_run \<Rightarrow>
   (finished + execution_target \<times> gateway_run) option" where
  "after_result g w plan rq facts deadlineAt profile t r a run0 =
     (case validate_response (gy_env g) (gy_profiles g) (validation_view plan rq facts r) of
        Inl _ \<Rightarrow> None
      | Inr v \<Rightarrow>
          let failure = classifyValidationFailure v;
              run = push_attempt
                \<lparr>aa_index = length (gr_attempts run0) + 1, aa_purpose = tg_purpose t, aa_provider = tg_provider t,
                 aa_binding_digest = bi_digest (tg_identity t),
                 aa_outcome = (if failure = None then VALIDATION_ACCEPTED else VALIDATION_REJECTED), aa_failure = failure,
                 aa_disposition = Some (vr_disposition v), aa_reasons = vr_reasons v, aa_succeeded = (failure = None),
                 aa_sha = Some (vr_sha v), aa_bytes = Some (vr_bytes v),
                 aa_budget = ar_budget a, aa_duration = ar_duration a\<rparr> run0;
              run1 = run\<lparr>gr_clock := gr_clock run + 1\<rparr>
          in
          if (case failure of None \<Rightarrow> False | Some c \<Rightarrow> fp_class (failurePolicy c) = FC_SAFETY)
          then map_option Inl (finish g plan GS_SAFETY_BLOCKED (map_option Routing_code failure) None run)
          else if gw_now w (gr_clock run) \<ge> deadlineAt
          then map_option Inl (finish g plan GS_EXECUTION_FAILED (Some (Routing_code F_DEADLINE_EXHAUSTED)) None run1)
          else case failure of
            None \<Rightarrow> Option.bind (projectBoundedProviderOutput (gy_env g) r v)
                      (\<lambda>out. map_option Inl (finish g plan GS_ACCEPTED None (Some out) run1))
          | Some c \<Rightarrow> after_rejection g plan profile t v c run1)"

section \<open>The loop and the whole\<close>

definition gateway_step ::
  "gateway \<Rightarrow> gateway_world \<Rightarrow> provider_plan \<Rightarrow> ai_request \<Rightarrow> validation_facts option \<Rightarrow> rat \<Rightarrow> deadline_budget \<Rightarrow>
   validation_profile \<Rightarrow> execution_target \<Rightarrow> gateway_run \<Rightarrow> (finished + execution_target \<times> gateway_run) option" where
  "gateway_step g w plan rq facts deadlineAt budget profile t run =
     Option.bind (runAttempt g w plan rq deadlineAt budget t (run\<lparr>gr_final := Some t\<rparr>)) (\<lambda>x. case x of
       Inl done \<Rightarrow> Some (Inl done)
     | Inr (a, run1) \<Rightarrow> (case ar_outcome a of
         Inr code \<Rightarrow> after_failure g plan t code a run1
       | Inl r \<Rightarrow> after_result g w plan rq facts deadlineAt profile t r a run1))"

text \<open>The \<open>while\<close> loop; \<open>n\<close> is \<open>MAX_PROVIDER_ATTEMPTS - attempts.length\<close>, as each turn that goes on has pushed one
  attempt.\<close>

fun gateway_loop ::
  "gateway \<Rightarrow> gateway_world \<Rightarrow> provider_plan \<Rightarrow> ai_request \<Rightarrow> validation_facts option \<Rightarrow> rat \<Rightarrow> deadline_budget \<Rightarrow>
   validation_profile \<Rightarrow> nat \<Rightarrow> execution_target \<Rightarrow> gateway_run \<Rightarrow> finished option" where
  "gateway_loop g w plan rq facts deadlineAt budget profile 0 t run =
     finish g plan GS_EXECUTION_FAILED (Some (Routing_code F_PROVIDER_EXECUTION_FAILED)) None run"
| "gateway_loop g w plan rq facts deadlineAt budget profile (Suc n) t run =
     Option.bind (gateway_step g w plan rq facts deadlineAt budget profile t run) (\<lambda>x. case x of
       Inl done \<Rightarrow> Some done
     | Inr (t', run') \<Rightarrow> gateway_loop g w plan rq facts deadlineAt budget profile n t' run')"

definition new_run :: gateway_run where
  "new_run = \<lparr>gr_machine = new_machine, gr_attempts = [], gr_path = PRIMARY_ONLY, gr_final = None, gr_clock = 0, gr_calls = []\<rparr>"

definition plan_targets :: "provider_plan \<Rightarrow> execution_target list" where
  "plan_targets plan = List.map_filter (\<lambda>t. t) [Some (dm_primary plan), dm_fallback plan, dm_escalation plan]"

definition budget_ok :: "deadline_budget \<Rightarrow> bool" where
  "budget_ok b \<longleftrightarrow> dl_overall b > 0 \<and> dl_reserve b > 0 \<and> dl_minimum b > 0 \<and> \<not> dl_reserve b + dl_minimum b > dl_overall b"

definition gateway_execute ::
  "gateway \<Rightarrow> gateway_world \<Rightarrow> provider_plan \<Rightarrow> ai_request \<Rightarrow> validation_facts option \<Rightarrow> finished option" where
  "gateway_execute g w plan rq facts =
     (let configuration = (\<lambda>c. finish g plan GS_CONFIGURATION_FAILED (Some c) None new_run) in
      case validatePlanShape (re_digest (gy_env g)) plan rq of
        Some f \<Rightarrow> configuration (Binding_code f)
      | None \<Rightarrow>
          if \<not> is_version (dp_version (gy_deadlines g)) \<or> pl_registry_version plan \<noteq> br_version (gy_bindings g) \<or>
             dm_registry_digest plan \<noteq> br_digest (gy_bindings g)
          then configuration (Binding_code B_ROUTING_CONFIGURATION_MISMATCH)
          else case resolve_profile (gy_profiles g) (dm_profile plan) of
            Inl _ \<Rightarrow> configuration (Routing_code F_UNKNOWN_VALIDATION_PROFILE)
          | Inr profile \<Rightarrow>
              if vp_version profile \<noteq> pl_profile_version plan \<or> vp_digest profile \<noteq> dm_profile_digest plan
              then configuration (Binding_code B_ROUTING_CONFIGURATION_MISMATCH)
              else case List.map_filter (bindingFailure (gy_bindings g)) (plan_targets plan) of
                f # _ \<Rightarrow> configuration (Binding_code f)
              | [] \<Rightarrow> (case dp_resolve (gy_deadlines g) (dm_deadline plan) of
                  None \<Rightarrow> configuration (Binding_code B_ROUTING_CONFIGURATION_MISMATCH)
                | Some budget \<Rightarrow>
                    if \<not> budget_ok budget then configuration (Binding_code B_ROUTING_CONFIGURATION_MISMATCH)
                    else Option.bind (run_transition RS_PRIMARY_READY (Cause ''PREFLIGHT_PASSED'') (new_run\<lparr>gr_clock := 1\<rparr>)) (\<lambda>run.
                      gateway_loop g w plan rq facts (gw_now w 0 + dl_overall budget) budget profile
                        MAX_PROVIDER_ATTEMPTS (dm_primary plan) run)))"

section \<open>Every piece returns\<close>

lemma terminal_allowed: "s \<noteq> RS_TERMINAL \<Longrightarrow> RS_TERMINAL \<in> set (ALLOWED s)"
  by (cases s) auto

abbreviation records_of :: "gateway_run \<Rightarrow> nat" where
  "records_of run \<equiv> length (rm_records (gr_machine run))"

abbreviation state_of :: "gateway_run \<Rightarrow> routing_state" where
  "state_of run \<equiv> rm_state (gr_machine run)"

lemma run_transition_ok:
  assumes "s \<in> set (ALLOWED (state_of run))" "records_of run < 7"
  obtains m where "run_transition s c run = Some (run\<lparr>gr_machine := m\<rparr>)" "rm_state m = s"
    "length (rm_records m) = Suc (records_of run)"
  using assms by (auto simp: run_transition_def transition_def MAX_ROUTING_TRANSITIONS_def)

text \<open>What \<open>finish\<close> reports of the state it was called in.\<close>

definition reports ::
  "gateway \<Rightarrow> provider_plan \<Rightarrow> gateway_status \<Rightarrow> bounded_output option \<Rightarrow> gateway_run \<Rightarrow> finished \<Rightarrow> bool" where
  "reports g plan st out run x \<longleftrightarrow> gt_status (fst x) = st \<and> gt_output (fst x) = out \<and>
     (\<exists>m code. snd x = run\<lparr>gr_machine := m\<rparr> \<and> length (rm_records m) \<le> 7 \<and>
        gt_audit (fst x) = audit_of g plan st code out (snd x))"

lemma finish_ok:
  assumes "state_of run \<noteq> RS_TERMINAL" "records_of run < 7"
  shows "\<exists>x. finish g plan st code out run = Some x \<and> reports g plan st out run x"
proof -
  obtain m where m: "transition RS_TERMINAL (finish_cause code) (gr_machine run) = Some m" "length (rm_records m) \<le> 7"
    using assms(2) terminal_allowed [OF assms(1)] by (auto simp: transition_def MAX_ROUTING_TRANSITIONS_def)
  have "reports g plan st out run (r, run\<lparr>gr_machine := m\<rparr>)"
    if "gt_status r = st" "gt_output r = out" "gt_audit r = audit_of g plan st code out (run\<lparr>gr_machine := m\<rparr>)" for r
    unfolding reports_def using that m(2) by (intro conjI exI [of _ m] exI [of _ code]) simp_all
  then show ?thesis using assms(1) m(1) by (simp add: finish_def Let_def)
qed

section \<open>What one turn does\<close>

text \<open>A call made for a target: the request of the caller, with a timeout that is at most the one asked for.\<close>

definition call_ok :: "ai_request \<Rightarrow> execution_target \<Rightarrow> Id \<times> ai_request \<Rightarrow> bool" where
  "call_ok rq t c \<longleftrightarrow> fst c = tg_provider t \<and> (\<exists>ms. snd c = rq\<lparr>aq_timeout := Some ms\<rparr> \<and> 0 \<le> ms \<and>
     (case aq_timeout rq of None \<Rightarrow> True | Some limit \<Rightarrow> ms \<le> limit))"

definition timeout_positive :: "ai_request \<Rightarrow> bool" where
  "timeout_positive rq \<longleftrightarrow> (case aq_timeout rq of None \<Rightarrow> True | Some t \<Rightarrow> 0 < t)"

lemma effective_timeout:
  assumes "timeout_positive rq"
  shows "call_ok rq t (tg_provider t, rq\<lparr>aq_timeout := Some (effectiveProviderTimeoutMs (aq_timeout rq) b)\<rparr>)"
proof -
  let ?ms = "effectiveProviderTimeoutMs (aq_timeout rq) b"
  have "0 \<le> ?ms" by (simp add: effectiveProviderTimeoutMs_def)
  moreover have "case aq_timeout rq of None \<Rightarrow> True | Some limit \<Rightarrow> ?ms \<le> limit"
    using assms by (cases "aq_timeout rq") (auto simp: timeout_positive_def effectiveProviderTimeoutMs_def)
  ultimately show ?thesis unfolding call_ok_def by (simp, blast)
qed

fun ready_state :: "target_purpose \<Rightarrow> routing_state" where
  "ready_state PRIMARY = RS_PRIMARY_READY"
| "ready_state FALLBACK = RS_FALLBACK_READY"
| "ready_state ESCALATION = RS_ESCALATION_READY"

definition attempted :: "gateway_world \<Rightarrow> ai_request \<Rightarrow> execution_target \<Rightarrow> gateway_run \<Rightarrow> attempt_result \<Rightarrow> gateway_run \<Rightarrow> bool" where
  "attempted w rq t run a run' \<longleftrightarrow> (\<exists>m k q. run' = run\<lparr>gr_machine := m, gr_clock := k, gr_calls := gr_calls run @ [(tg_provider t, q)]\<rparr> \<and>
     call_ok rq t (tg_provider t, q) \<and> length (rm_records m) \<le> records_of run + 2 \<and>
     (case ar_outcome a of
        Inl r \<Rightarrow> rm_state m = snd (attempt_states (tg_purpose t)) \<and>
          gw_execute w (length (gr_calls run)) (tg_provider t) q = Returned r
      | Inr c \<Rightarrow> rm_state m = fst (attempt_states (tg_purpose t))))"

lemma runAttempt_ok:
  assumes "state_of run = ready_state (tg_purpose t)" "records_of run \<le> 4" "timeout_positive rq" "gr_final run = Some t"
  shows "(\<exists>x k st. runAttempt g w plan rq dl b t run = Some (Inl x) \<and> st \<noteq> GS_ACCEPTED \<and>
      reports g plan st None (run\<lparr>gr_clock := k\<rparr>) x) \<or>
    (\<exists>a run'. runAttempt g w plan rq dl b t run = Some (Inr (a, run')) \<and> attempted w rq t run a run')"
proof -
  define run1 where "run1 = run\<lparr>gr_clock := gr_clock run + 1\<rparr>"
  let ?ms = "\<lfloor>dl - gw_now w (gr_clock run) - dl_reserve b\<rfloor>"
  have nt: "state_of run1 \<noteq> RS_TERMINAL" "records_of run1 < 7" "state_of run1 = ready_state (tg_purpose t)"
    using assms(1,2) by (cases "tg_purpose t"; simp add: run1_def)+
  have fin: "run1\<lparr>gr_final := Some t\<rparr> = run1" using assms(4) by (simp add: run1_def)
  note unfolded = runAttempt_def [of g w plan rq dl b t run, unfolded Let_def, folded run1_def, unfolded fin]
  have closed: ?thesis
    if "runAttempt g w plan rq dl b t run = map_option Inl (finish g plan st code None run1)" "st \<noteq> GS_ACCEPTED" for st code
    using that finish_ok [OF nt(1,2), of g plan st code None] unfolding run1_def by auto
  show ?thesis
  proof (cases "of_int ?ms < dl_minimum b")
    case True
    then show ?thesis
      by (intro closed [of GS_EXECUTION_FAILED "Some (Routing_code F_DEADLINE_EXHAUSTED)"]) (simp_all add: unfolded)
  next
    case enough: False
    show ?thesis
    proof (cases "bindingFailure (gy_bindings g) t")
      case (Some f)
      then show ?thesis using enough
        by (intro closed [of GS_CONFIGURATION_FAILED "Some (Binding_code f)"]) (simp_all add: unfolded)
    next
      case None
      define q where "q = rq\<lparr>aq_timeout := Some (effectiveProviderTimeoutMs (aq_timeout rq) ?ms)\<rparr>"
      have q: "call_ok rq t (tg_provider t, q)" unfolding q_def by (rule effective_timeout [OF assms(3)])
      have "fst (attempt_states (tg_purpose t)) \<in> set (ALLOWED (state_of run1))"
        using nt(3) by (cases "tg_purpose t") simp_all
      then obtain m where m: "run_transition (fst (attempt_states (tg_purpose t))) (Cause ''ATTEMPT_DISPATCHED'') run1 =
          Some (run1\<lparr>gr_machine := m\<rparr>)" "rm_state m = fst (attempt_states (tg_purpose t))"
        "length (rm_records m) = Suc (records_of run1)"
        using nt(2) by (rule run_transition_ok)
      define run3 where "run3 = run1\<lparr>gr_machine := m, gr_clock := gr_clock run + 3, gr_calls := gr_calls run @ [(tg_provider t, q)]\<rparr>"
      note unfolded = unfolded [folded q_def]
      have run3: "run1\<lparr>gr_machine := m, gr_clock := Suc (Suc (gr_clock run1)), gr_calls := gr_calls run @ [(tg_provider t, q)]\<rparr> = run3"
        by (simp add: run3_def run1_def)
      show ?thesis
      proof (cases "gw_execute w (length (gr_calls run)) (tg_provider t) q")
        case (Returned r)
        have "snd (attempt_states (tg_purpose t)) \<in> set (ALLOWED (state_of run3))" "records_of run3 < 7"
          using m(2,3) assms(2) by (cases "tg_purpose t"; simp add: run3_def run1_def)+
        then obtain n where n: "run_transition (snd (attempt_states (tg_purpose t))) (Cause ''PROVIDER_RETURNED'') run3 =
            Some (run3\<lparr>gr_machine := n\<rparr>)" "rm_state n = snd (attempt_states (tg_purpose t))"
          "length (rm_records n) = Suc (records_of run3)"
          by (rule run_transition_ok)
        have "attempted w rq t run a (run3\<lparr>gr_machine := n\<rparr>)" if "ar_outcome a = Inl r" for a
          unfolding attempted_def using that n(2,3) m(3) q Returned
          by (intro exI [of _ n] exI [of _ "gr_clock run + 3"] exI [of _ q]) (simp add: run3_def run1_def)
        moreover have "gr_calls run1 = gr_calls run" by (simp add: run1_def)
        ultimately show ?thesis using enough None m(1) n(1) Returned by (simp add: unfolded run3)
      next
        case (Failed kind)
        have "attempted w rq t run a run3" if "ar_outcome a = Inr c" for a c
          unfolding attempted_def using that m(2,3) q
          by (intro exI [of _ m] exI [of _ "gr_clock run + 3"] exI [of _ q]) (simp add: run3_def run1_def)
        moreover have "gr_calls run1 = gr_calls run" by (simp add: run1_def)
        ultimately show ?thesis using enough None m(1) Failed by (simp add: unfolded run3)
      qed
    qed
  qed
qed

text \<open>The end of a run in the turn for target \<open>t\<close>: at most one call more, and an output exactly when the answer of that
  call was accepted by the validator.\<close>

definition closes ::
  "gateway \<Rightarrow> gateway_world \<Rightarrow> provider_plan \<Rightarrow> ai_request \<Rightarrow> validation_facts option \<Rightarrow> execution_target \<Rightarrow> gateway_run \<Rightarrow>
   finished \<Rightarrow> bool" where
  "closes g w plan rq facts t run x \<longleftrightarrow>
     (\<exists>calls. gr_calls (snd x) = gr_calls run @ calls \<and> list_all (call_ok rq t) calls \<and> length calls \<le> 1 \<and>
        length (gr_attempts (snd x)) = length (gr_attempts run) + length calls \<and>
        (\<exists>extra. gr_attempts (snd x) = gr_attempts run @ extra) \<and>
        gr_path (snd x) = gr_path run \<and> records_of (snd x) \<le> 7 \<and>
        (\<exists>code. gt_audit (fst x) = audit_of g plan (gt_status (fst x)) code (gt_output (fst x)) (snd x)) \<and>
        ((gt_status (fst x) \<noteq> GS_ACCEPTED \<and> gt_output (fst x) = None) \<or>
         (\<exists>q r v out. calls = [(tg_provider t, q)] \<and>
            gw_execute w (length (gr_calls run)) (tg_provider t) q = Returned r \<and>
            validate_response (gy_env g) (gy_profiles g) (validation_view plan rq facts r) = Inr v \<and>
            vr_disposition v = ACCEPT \<and> projectBoundedProviderOutput (gy_env g) r v = Some out \<and>
            gt_status (fst x) = GS_ACCEPTED \<and> gt_output (fst x) = Some out)))"

text \<open>The turn hands over to a second target.\<close>

definition hands_over ::
  "provider_plan \<Rightarrow> ai_request \<Rightarrow> execution_target \<Rightarrow> gateway_run \<Rightarrow> execution_target \<Rightarrow> gateway_run \<Rightarrow> bool" where
  "hands_over plan rq t run t' run' \<longleftrightarrow> tg_purpose t = PRIMARY \<and> records_of run' \<le> records_of run + 3 \<and>
     (\<exists>c. gr_calls run' = gr_calls run @ [c] \<and> call_ok rq t c) \<and>
     (\<exists>a code. gr_attempts run' = gr_attempts run @ [a] \<and> aa_failure a = Some code \<and>
        ((dm_fallback plan = Some t' \<and> state_of run' = RS_FALLBACK_READY \<and> gr_path run' = PATH_FALLBACK \<and>
          fp_fallback (failurePolicy code)) \<or>
         (dm_escalation plan = Some t' \<and> state_of run' = RS_ESCALATION_READY \<and> gr_path run' = PATH_ESCALATION \<and>
          fp_escalation (failurePolicy code) \<and> aa_disposition a = Some ESCALATE)))"

lemma closes_rejected:
  assumes "reports g plan st None run1 x" "st \<noteq> GS_ACCEPTED" "gr_calls run1 = gr_calls run @ calls"
    "list_all (call_ok rq t) calls" "gr_attempts run1 = gr_attempts run @ extra" "length extra = length calls"
    "length calls \<le> 1" "gr_path run1 = gr_path run"
  shows "closes g w plan rq facts t run x"
  using assms unfolding closes_def reports_def by auto

lemma closes_accepted:
  assumes "reports g plan GS_ACCEPTED (Some out) run1 x" "gr_calls run1 = gr_calls run @ [(tg_provider t, q)]"
    "call_ok rq t (tg_provider t, q)" "gr_attempts run1 = gr_attempts run @ [a]" "gr_path run1 = gr_path run"
    "gw_execute w (length (gr_calls run)) (tg_provider t) q = Returned r"
    "validate_response (gy_env g) (gy_profiles g) (validation_view plan rq facts r) = Inr v"
    "vr_disposition v = ACCEPT" "projectBoundedProviderOutput (gy_env g) r v = Some out"
  shows "closes g w plan rq facts t run x"
  using assms unfolding closes_def reports_def by auto

lemma accepted_projects:
  assumes "validate_response E ps i = Inr v" "vr_disposition v = ACCEPT"
  shows "\<exists>out. projectBoundedProviderOutput E (vi_result i) v = Some out"
proof -
  obtain p where p: "resolve_profile ps (vi_profile i) = Inr p"
    using assms(1) by (cases "resolve_profile ps (vi_profile i)") (auto simp: validate_response_def)
  show ?thesis
  proof (cases "canonicalOutput (vi_result i)")
    case None
    then show ?thesis using assms p by (auto simp: validate_response_def split: prod.splits)
  next
    case (Some out)
    obtain sha bytes where "outputIdentity E out = (sha, bytes)" by (cases "outputIdentity E out")
    then show ?thesis using assms p Some
      by (auto simp: validate_response_def projectBoundedProviderOutput_def Let_def)
  qed
qed

lemma validate_returns:
  assumes "resolve_profile ps (vi_profile i) = Inr p"
  shows "\<exists>v. validate_response E ps i = Inr v"
  using assms by (auto simp: validate_response_def Let_def split: option.splits prod.splits)

text \<open>A transition to the second target, after the primary one.\<close>

lemma continue_ok:
  assumes "s \<in> set (ALLOWED (state_of run))" "records_of run < 7"
  shows "\<exists>n. continue_with t s path code run = Some (Inr (t, run\<lparr>gr_path := path, gr_machine := n\<rparr>)) \<and> rm_state n = s \<and>
    length (rm_records n) = Suc (records_of run)"
proof -
  have "s \<in> set (ALLOWED (state_of (run\<lparr>gr_path := path\<rparr>)))" "records_of (run\<lparr>gr_path := path\<rparr>) < 7" using assms by simp_all
  then obtain n where "run_transition s (Cause_code (Routing_code code)) (run\<lparr>gr_path := path\<rparr>) =
      Some (run\<lparr>gr_path := path, gr_machine := n\<rparr>)" "rm_state n = s"
    "length (rm_records n) = Suc (records_of (run\<lparr>gr_path := path\<rparr>))" by (rule run_transition_ok)
  then show ?thesis by (intro exI [of _ n]) (simp add: continue_with_def)
qed

lemma after_failure_ok:
  assumes "attempted w rq t run a run1" "ar_outcome a = Inr code" "records_of run \<le> 4"
    "gr_attempts run = [] \<or> tg_purpose t \<noteq> PRIMARY"
  shows "\<exists>y. after_failure g plan t code a run1 = Some y \<and>
    (case y of Inl x \<Rightarrow> closes g w plan rq facts t run x | Inr (t', run') \<Rightarrow> hands_over plan rq t run t' run')"
proof -
  obtain m k q where r1: "run1 = run\<lparr>gr_machine := m, gr_clock := k, gr_calls := gr_calls run @ [(tg_provider t, q)]\<rparr>"
    and q: "call_ok rq t (tg_provider t, q)" and m: "length (rm_records m) \<le> records_of run + 2"
      "rm_state m = fst (attempt_states (tg_purpose t))"
    using assms(1,2) by (auto simp: attempted_def)
  obtain aa where aa: "after_failure g plan t code a run1 = (let run2 = push_attempt aa run1 in case dm_fallback plan of
        Some f \<Rightarrow>
          if tg_purpose t = PRIMARY \<and> fp_fallback (failurePolicy code) \<and> length (gr_attempts run2) < MAX_PROVIDER_ATTEMPTS
          then continue_with f RS_FALLBACK_READY PATH_FALLBACK code run2
          else map_option Inl (finish g plan (terminalStatus (Routing_code code)) (Some (Routing_code code)) None run2)
      | None \<Rightarrow> map_option Inl (finish g plan (terminalStatus (Routing_code code)) (Some (Routing_code code)) None run2))"
      "aa_failure aa = Some code"
    unfolding after_failure_def Let_def by auto
  define run2 where "run2 = push_attempt aa run1"
  have r2: "gr_calls run2 = gr_calls run @ [(tg_provider t, q)]" "gr_attempts run2 = gr_attempts run @ [aa]"
    "gr_path run2 = gr_path run" "gr_machine run2 = m" by (simp_all add: run2_def r1 push_attempt_def)
  have open2: "state_of run2 \<noteq> RS_TERMINAL" "records_of run2 < 7"
    using m assms(3) by (cases "tg_purpose t"; simp add: r2)+
  have st: "terminalStatus (Routing_code code) \<noteq> GS_ACCEPTED"
    by (simp add: terminalStatus_def routing_terminal_status_def)
  obtain x where x: "finish g plan (terminalStatus (Routing_code code)) (Some (Routing_code code)) None run2 = Some x"
    "reports g plan (terminalStatus (Routing_code code)) None run2 x"
    using finish_ok [OF open2] by blast
  have closed: "closes g w plan rq facts t run x"
    by (rule closes_rejected [OF x(2) st r2(1) _ r2(2)]) (simp_all add: q r2)
  show ?thesis
  proof (cases "\<exists>f. dm_fallback plan = Some f \<and> tg_purpose t = PRIMARY \<and> fp_fallback (failurePolicy code) \<and>
      length (gr_attempts run2) < MAX_PROVIDER_ATTEMPTS")
    case True
    then obtain f where f: "dm_fallback plan = Some f" "tg_purpose t = PRIMARY" "fp_fallback (failurePolicy code)" by blast
    have "RS_FALLBACK_READY \<in> set (ALLOWED (state_of run2))" using m(2) f(2) by (simp add: r2)
    then obtain n where n: "continue_with f RS_FALLBACK_READY PATH_FALLBACK code run2 =
        Some (Inr (f, run2\<lparr>gr_path := PATH_FALLBACK, gr_machine := n\<rparr>))" "rm_state n = RS_FALLBACK_READY"
      "length (rm_records n) = Suc (records_of run2)" using continue_ok [OF _ open2(2)] by blast
    have "hands_over plan rq t run f (run2\<lparr>gr_path := PATH_FALLBACK, gr_machine := n\<rparr>)"
      unfolding hands_over_def using n(2,3) m(1) f q aa(2) by (simp add: r2)
    then show ?thesis using True f n(1) unfolding aa(1) by (simp flip: run2_def)
  next
    case False
    then show ?thesis using x(1) closed unfolding aa(1) by (auto split: option.splits simp flip: run2_def)
  qed
qed

lemma after_rejection_ok:
  assumes "gr_calls run1 = gr_calls run @ [c]" "call_ok rq t c" "gr_attempts run1 = gr_attempts run @ [a]"
    "aa_failure a = Some code" "aa_disposition a = Some (vr_disposition v)" "gr_path run1 = gr_path run"
    "state_of run1 = snd (attempt_states (tg_purpose t))" "records_of run1 \<le> records_of run + 2" "records_of run \<le> 4"
  shows "\<exists>y. after_rejection g plan p t v code run1 = Some y \<and>
    (case y of Inl x \<Rightarrow> closes g w plan rq facts t run x | Inr (t', run') \<Rightarrow> hands_over plan rq t run t' run')"
proof -
  have open1: "state_of run1 \<noteq> RS_TERMINAL" "records_of run1 < 7"
    using assms(7-9) by (cases "tg_purpose t"; simp)+
  have ended: "\<exists>x. finish g plan st co None run1 = Some x \<and> closes g w plan rq facts t run x" if "st \<noteq> GS_ACCEPTED" for st co
    using finish_ok [OF open1, of g plan st co None] closes_rejected [OF _ that assms(1) _ assms(3)] assms(2,6) by fastforce
  have ts: "terminalStatus (Routing_code code) \<noteq> GS_ACCEPTED"
    by (simp add: terminalStatus_def routing_terminal_status_def)
  have from_primary: "RS_FALLBACK_READY \<in> set (ALLOWED (state_of run1))" "RS_ESCALATION_READY \<in> set (ALLOWED (state_of run1))"
    if "tg_purpose t = PRIMARY" using that assms(7) by simp_all
  note cont = continue_ok [OF _ open1(2), where code = code]
  let ?first = "tg_purpose t = PRIMARY \<and> length (gr_attempts run1) < MAX_PROVIDER_ATTEMPTS"
  consider (fallback) f where "?first" "fp_fallback (failurePolicy code)" "dm_fallback plan = Some f"
    | (escalation) f where "\<not> (?first \<and> fp_fallback (failurePolicy code) \<and> dm_fallback plan \<noteq> None)" "?first"
        "vr_disposition v = ESCALATE" "fp_escalation (failurePolicy code)" "vp_escalation p" "dm_escalation plan = Some f"
    | (close) "\<not> (?first \<and> fp_fallback (failurePolicy code) \<and> dm_fallback plan \<noteq> None)"
        "\<not> (?first \<and> vr_disposition v = ESCALATE \<and> fp_escalation (failurePolicy code) \<and> vp_escalation p \<and> dm_escalation plan \<noteq> None)"
    by blast
  then show ?thesis
  proof cases
    case fallback
    then obtain n where n: "continue_with f RS_FALLBACK_READY PATH_FALLBACK code run1 =
        Some (Inr (f, run1\<lparr>gr_path := PATH_FALLBACK, gr_machine := n\<rparr>))" "rm_state n = RS_FALLBACK_READY"
      "length (rm_records n) = Suc (records_of run1)" using cont from_primary by blast
    then have "hands_over plan rq t run f (run1\<lparr>gr_path := PATH_FALLBACK, gr_machine := n\<rparr>)"
      unfolding hands_over_def using fallback assms by simp
    then show ?thesis using n(1) fallback by (simp add: after_rejection_def)
  next
    case escalation
    then obtain n where n: "continue_with f RS_ESCALATION_READY PATH_ESCALATION code run1 =
        Some (Inr (f, run1\<lparr>gr_path := PATH_ESCALATION, gr_machine := n\<rparr>))" "rm_state n = RS_ESCALATION_READY"
      "length (rm_records n) = Suc (records_of run1)" using cont from_primary by blast
    then have "hands_over plan rq t run f (run1\<lparr>gr_path := PATH_ESCALATION, gr_machine := n\<rparr>)"
      unfolding hands_over_def using escalation assms by simp
    moreover have "after_rejection g plan p t v code run1 = continue_with f RS_ESCALATION_READY PATH_ESCALATION code run1"
      unfolding after_rejection_def Let_def using escalation by (auto simp del: option.simps)
    ultimately show ?thesis using n(1) by simp
  next
    case close
    have eq: "after_rejection g plan p t v code run1 =
        (if code = F_SEMANTIC_VALIDATION_FAILED then map_option Inl (finish g plan GS_HUMAN_REVIEW_REQUIRED
           (Some (Routing_code F_SEMANTIC_VALIDATION_UNRESOLVED)) None run1)
         else if code = F_STRUCTURAL_VALIDATION_FAILED then map_option Inl (finish g plan GS_HUMAN_REVIEW_REQUIRED
           (Some (Routing_code F_STRUCTURAL_VALIDATION_UNRESOLVED)) None run1)
         else map_option Inl (finish g plan (terminalStatus (Routing_code code)) (Some (Routing_code code)) None run1))"
      by (simp only: after_rejection_def Let_def close if_False)
    have review: "GS_HUMAN_REVIEW_REQUIRED \<noteq> GS_ACCEPTED" by simp
    show ?thesis unfolding eq
      using ended [OF review, of "Some (Routing_code F_SEMANTIC_VALIDATION_UNRESOLVED)"]
        ended [OF review, of "Some (Routing_code F_STRUCTURAL_VALIDATION_UNRESOLVED)"]
        ended [OF ts, of "Some (Routing_code code)"] by auto
  qed
qed

lemma after_result_ok:
  assumes "attempted w rq t run a run1" "ar_outcome a = Inl r" "records_of run \<le> 4"
    "resolve_profile (gy_profiles g) (dm_profile plan) = Inr p"
  shows "\<exists>y. after_result g w plan rq facts dl p t r a run1 = Some y \<and>
    (case y of Inl x \<Rightarrow> closes g w plan rq facts t run x | Inr (t', run') \<Rightarrow> hands_over plan rq t run t' run')"
proof -
  obtain m k q where r1: "run1 = run\<lparr>gr_machine := m, gr_clock := k, gr_calls := gr_calls run @ [(tg_provider t, q)]\<rparr>"
    and q: "call_ok rq t (tg_provider t, q)" and m: "length (rm_records m) \<le> records_of run + 2"
      "rm_state m = snd (attempt_states (tg_purpose t))"
      "gw_execute w (length (gr_calls run)) (tg_provider t) q = Returned r"
    using assms(1,2) by (auto simp: attempted_def)
  have view: "vi_profile (validation_view plan rq facts r) = dm_profile plan" "vi_result (validation_view plan rq facts r) = r"
    by (simp_all add: validation_view_def)
  obtain v where v: "validate_response (gy_env g) (gy_profiles g) (validation_view plan rq facts r) = Inr v"
    using validate_returns [of "gy_profiles g" "validation_view plan rq facts r"] assms(4) view by metis
  obtain aa where aa: "after_result g w plan rq facts dl p t r a run1 = (let
          run2 = push_attempt aa run1; run3 = run2\<lparr>gr_clock := gr_clock run2 + 1\<rparr> in
        if (case classifyValidationFailure v of None \<Rightarrow> False | Some c \<Rightarrow> fp_class (failurePolicy c) = FC_SAFETY)
        then map_option Inl (finish g plan GS_SAFETY_BLOCKED (map_option Routing_code (classifyValidationFailure v)) None run2)
        else if gw_now w (gr_clock run2) \<ge> dl
        then map_option Inl (finish g plan GS_EXECUTION_FAILED (Some (Routing_code F_DEADLINE_EXHAUSTED)) None run3)
        else case classifyValidationFailure v of
          None \<Rightarrow> Option.bind (projectBoundedProviderOutput (gy_env g) r v)
                      (\<lambda>out. map_option Inl (finish g plan GS_ACCEPTED None (Some out) run3))
        | Some c \<Rightarrow> after_rejection g plan p t v c run3)"
      "aa_failure aa = classifyValidationFailure v" "aa_disposition aa = Some (vr_disposition v)"
    unfolding after_result_def v sum.case Let_def by auto
  define run2 where "run2 = push_attempt aa run1"
  define run3 where "run3 = run2\<lparr>gr_clock := gr_clock run2 + 1\<rparr>"
  have r2: "gr_calls run2 = gr_calls run @ [(tg_provider t, q)]" "gr_attempts run2 = gr_attempts run @ [aa]"
    "gr_path run2 = gr_path run" "gr_machine run2 = m" by (simp_all add: run2_def r1 push_attempt_def)
  have r3: "gr_calls run3 = gr_calls run @ [(tg_provider t, q)]" "gr_attempts run3 = gr_attempts run @ [aa]"
    "gr_path run3 = gr_path run" "gr_machine run3 = m" by (simp_all add: run3_def r2)
  have open2: "state_of run2 \<noteq> RS_TERMINAL" "records_of run2 < 7" "state_of run3 \<noteq> RS_TERMINAL" "records_of run3 < 7"
    using m(1,2) assms(3) by (cases "tg_purpose t"; simp add: r2 r3)+
  have ended: "\<exists>x. finish g plan st co None s = Some x \<and> closes g w plan rq facts t run x"
    if "st \<noteq> GS_ACCEPTED" "s = run2 \<or> s = run3" for st co s
  proof -
    have s: "gr_calls s = gr_calls run @ [(tg_provider t, q)]" "gr_attempts s = gr_attempts run @ [aa]" "gr_path s = gr_path run"
      "state_of s \<noteq> RS_TERMINAL" "records_of s < 7" using that(2) r2 r3 open2 by auto
    obtain x where x: "finish g plan st co None s = Some x" "reports g plan st None s x"
      using finish_ok [OF s(4,5)] by blast
    have "closes g w plan rq facts t run x"
      by (rule closes_rejected [OF x(2) that(1) s(1) _ s(2)]) (simp_all add: q s)
    with x(1) show ?thesis by blast
  qed
  note eq = aa(1) [unfolded Let_def, folded run2_def, folded run3_def]
  consider (safety) "case classifyValidationFailure v of None \<Rightarrow> False | Some c \<Rightarrow> fp_class (failurePolicy c) = FC_SAFETY"
    | (late) "\<not> (case classifyValidationFailure v of None \<Rightarrow> False | Some c \<Rightarrow> fp_class (failurePolicy c) = FC_SAFETY)"
        "gw_now w (gr_clock run2) \<ge> dl"
    | (accepted) "\<not> gw_now w (gr_clock run2) \<ge> dl" "classifyValidationFailure v = None"
    | (rejected) c where "\<not> (case classifyValidationFailure v of None \<Rightarrow> False | Some c \<Rightarrow> fp_class (failurePolicy c) = FC_SAFETY)"
        "\<not> gw_now w (gr_clock run2) \<ge> dl" "classifyValidationFailure v = Some c"
    by (cases "classifyValidationFailure v") blast+
  then show ?thesis
  proof cases
    case safety
    obtain x where "finish g plan GS_SAFETY_BLOCKED (map_option Routing_code (classifyValidationFailure v)) None run2 = Some x"
      "closes g w plan rq facts t run x" using ended [of GS_SAFETY_BLOCKED run2] by blast
    then show ?thesis unfolding eq by (subst if_P [OF safety]) simp
  next
    case late
    obtain x where "finish g plan GS_EXECUTION_FAILED (Some (Routing_code F_DEADLINE_EXHAUSTED)) None run3 = Some x"
      "closes g w plan rq facts t run x" using ended [of GS_EXECUTION_FAILED run3] by blast
    then show ?thesis unfolding eq by (subst if_not_P [OF late(1)], subst if_P [OF late(2)]) simp
  next
    case accepted
    then have d: "vr_disposition v = ACCEPT" by (simp add: classifyValidationFailure_None)
    obtain out where out: "projectBoundedProviderOutput (gy_env g) r v = Some out"
      using accepted_projects [OF v d] view(2) by auto
    obtain x where x: "finish g plan GS_ACCEPTED None (Some out) run3 = Some x" "reports g plan GS_ACCEPTED (Some out) run3 x"
      using finish_ok [OF open2(3,4)] by blast
    have "closes g w plan rq facts t run x"
      by (rule closes_accepted [OF x(2) r3(1) q r3(2,3) m(3) v d out])
    then show ?thesis using accepted out x(1) unfolding eq by simp
  next
    case rejected
    have "aa_failure aa = Some c" using aa(2) rejected(3) by simp
    moreover have "state_of run3 = snd (attempt_states (tg_purpose t))" "records_of run3 \<le> records_of run + 2"
      using m by (simp_all add: r3)
    ultimately have "\<exists>y. after_rejection g plan p t v c run3 = Some y \<and>
        (case y of Inl x \<Rightarrow> closes g w plan rq facts t run x | Inr (t', run') \<Rightarrow> hands_over plan rq t run t' run')"
      by (intro after_rejection_ok [OF r3(1) q r3(2) _ aa(3) r3(3)]) (use assms(3) in simp_all)
    moreover have "after_result g w plan rq facts dl p t r a run1 = after_rejection g plan p t v c run3"
      unfolding eq by (subst if_not_P [OF rejected(1)], subst if_not_P [OF rejected(2)]) (simp add: rejected(3))
    ultimately show ?thesis by simp
  qed
qed

lemma gateway_step_ok:
  assumes "state_of run = ready_state (tg_purpose t)" "records_of run \<le> 4" "timeout_positive rq"
    "gr_attempts run = [] \<or> tg_purpose t \<noteq> PRIMARY" "resolve_profile (gy_profiles g) (dm_profile plan) = Inr p"
  shows "\<exists>y. gateway_step g w plan rq facts dl b p t run = Some y \<and>
    (case y of Inl x \<Rightarrow> closes g w plan rq facts t (run\<lparr>gr_final := Some t\<rparr>) x
     | Inr (t', run') \<Rightarrow> hands_over plan rq t (run\<lparr>gr_final := Some t\<rparr>) t' run')"
proof -
  define s where "s = run\<lparr>gr_final := Some t\<rparr>"
  have s: "state_of s = ready_state (tg_purpose t)" "records_of s \<le> 4" "gr_final s = Some t"
    "gr_attempts s = [] \<or> tg_purpose t \<noteq> PRIMARY" using assms by (simp_all add: s_def)
  note step = gateway_step_def [of g w plan rq facts dl b p t run, folded s_def]
  consider (ended) x k st where "runAttempt g w plan rq dl b t s = Some (Inl x)" "st \<noteq> GS_ACCEPTED"
      "reports g plan st None (s\<lparr>gr_clock := k\<rparr>) x"
    | (attempt) a run' where "runAttempt g w plan rq dl b t s = Some (Inr (a, run'))" "attempted w rq t s a run'"
    using runAttempt_ok [OF s(1,2) assms(3) s(3)] by metis
  then have "\<exists>y. gateway_step g w plan rq facts dl b p t run = Some y \<and>
    (case y of Inl x \<Rightarrow> closes g w plan rq facts t s x | Inr (t', run') \<Rightarrow> hands_over plan rq t s t' run')"
  proof cases
    case ended
    have "closes g w plan rq facts t s x"
      by (rule closes_rejected [OF ended(3,2), where calls = "[]" and extra = "[]"]) simp_all
    then show ?thesis using ended(1) by (simp add: step)
  next
    case attempt
    then show ?thesis
      using after_failure_ok [OF attempt(2) _ s(2,4), of _ g plan facts] after_result_ok [OF attempt(2) _ s(2) assms(5), of _ facts dl]
      by (cases "ar_outcome a") (simp_all add: step)
  qed
  then show ?thesis by (simp only: s_def)
qed

section \<open>The whole run\<close>

text \<open>What the shape check guarantees.\<close>

lemma plan_shape:
  assumes "validatePlanShape digest plan rq = None"
  shows "timeout_positive rq" "tg_purpose (dm_primary plan) = PRIMARY"
    "dm_fallback plan = Some t \<Longrightarrow> tg_purpose t = FALLBACK \<and> tg_provider t \<noteq> tg_provider (dm_primary plan)"
    "dm_escalation plan = Some t \<Longrightarrow> tg_purpose t = ESCALATION \<and> tg_provider t \<noteq> tg_provider (dm_primary plan)"
proof -
  show "timeout_positive rq" "tg_purpose (dm_primary plan) = PRIMARY"
    using assms by (simp_all add: validatePlanShape_def timeout_positive_def split: if_splits option.splits)
  show "tg_purpose t = FALLBACK \<and> tg_provider t \<noteq> tg_provider (dm_primary plan)" if "dm_fallback plan = Some t"
    using assms that by (simp add: validatePlanShape_def split: if_splits)
  show "tg_purpose t = ESCALATION \<and> tg_provider t \<noteq> tg_provider (dm_primary plan)" if "dm_escalation plan = Some t"
    using assms that by (simp add: validatePlanShape_def split: if_splits)
qed

definition ended_well ::
  "gateway \<Rightarrow> gateway_world \<Rightarrow> provider_plan \<Rightarrow> ai_request \<Rightarrow> validation_facts option \<Rightarrow> finished \<Rightarrow> bool" where
  "ended_well g w plan rq facts x \<longleftrightarrow>
     (\<exists>run. gr_calls run = [] \<and> gr_attempts run = [] \<and> closes g w plan rq facts (dm_primary plan) run x) \<or>
     (\<exists>run0 t run. gr_calls run0 = [] \<and> gr_attempts run0 = [] \<and> hands_over plan rq (dm_primary plan) run0 t run \<and>
        closes g w plan rq facts t (run\<lparr>gr_final := Some t\<rparr>) x \<and> tg_provider t \<noteq> tg_provider (dm_primary plan))"

lemma gateway_loop_ok:
  assumes "validatePlanShape digest plan rq = None" "resolve_profile (gy_profiles g) (dm_profile plan) = Inr p"
    "state_of run = RS_PRIMARY_READY" "records_of run \<le> 1" "gr_calls run = []" "gr_attempts run = []"
  shows "\<exists>x. gateway_loop g w plan rq facts dl b p (Suc (Suc 0)) (dm_primary plan) run = Some x \<and> ended_well g w plan rq facts x"
proof -
  let ?t = "dm_primary plan" and ?run = "run\<lparr>gr_final := Some (dm_primary plan)\<rparr>"
  note shape = plan_shape [OF assms(1)]
  obtain y where y: "gateway_step g w plan rq facts dl b p ?t run = Some y"
    "case y of Inl x \<Rightarrow> closes g w plan rq facts ?t ?run x | Inr (t', run') \<Rightarrow> hands_over plan rq ?t ?run t' run'"
    using gateway_step_ok [OF _ _ shape(1) _ assms(2), of run ?t w facts dl b] assms shape(2) by auto
  show ?thesis
  proof (cases y)
    case (Inl x)
    then have "ended_well g w plan rq facts x" unfolding ended_well_def using y(2) assms(5,6)
      by (intro disjI1 exI [of _ ?run]) simp
    then show ?thesis using y(1) Inl by simp
  next
    case (Inr z)
    obtain t' run' where z: "z = (t', run')" by (cases z)
    with Inr y(2) have h: "hands_over plan rq ?t ?run t' run'" by simp
    have t': "tg_provider t' \<noteq> tg_provider ?t" "tg_purpose t' \<noteq> PRIMARY" "state_of run' = ready_state (tg_purpose t')"
      using h shape(3,4) [of t'] unfolding hands_over_def by auto
    have "records_of run' \<le> 4" using h assms(4) unfolding hands_over_def by simp
    then obtain y' where y': "gateway_step g w plan rq facts dl b p t' run' = Some y'"
      "case y' of Inl x \<Rightarrow> closes g w plan rq facts t' (run'\<lparr>gr_final := Some t'\<rparr>) x
       | Inr (t'', run'') \<Rightarrow> hands_over plan rq t' (run'\<lparr>gr_final := Some t'\<rparr>) t'' run''"
      using gateway_step_ok [OF t'(3) _ shape(1) _ assms(2), of w facts dl b] t'(2) by auto
    then obtain x where x: "y' = Inl x" "closes g w plan rq facts t' (run'\<lparr>gr_final := Some t'\<rparr>) x"
      using t'(2) by (cases y') (auto simp: hands_over_def)
    have "ended_well g w plan rq facts x" unfolding ended_well_def using h x(2) t'(1) assms(5,6)
      by (intro disjI2 exI [of _ ?run] exI [of _ t'] exI [of _ run']) simp
    then show ?thesis using y(1) Inr z y'(1) x(1) by simp
  qed
qed

lemma gateway_execute_ok: "\<exists>x. gateway_execute g w plan rq facts = Some x \<and> ended_well g w plan rq facts x"
proof -
  have new: "state_of new_run \<noteq> RS_TERMINAL" "records_of new_run < 7" by (simp_all add: new_run_def new_machine_def)
  have configuration: "\<exists>x. finish g plan GS_CONFIGURATION_FAILED (Some c) None new_run = Some x \<and> ended_well g w plan rq facts x" for c
  proof -
    obtain x where x: "finish g plan GS_CONFIGURATION_FAILED (Some c) None new_run = Some x"
      "reports g plan GS_CONFIGURATION_FAILED None new_run x" using finish_ok [OF new] by blast
    have "closes g w plan rq facts (dm_primary plan) new_run x"
      by (rule closes_rejected [OF x(2), where calls = "[]" and extra = "[]"]) simp_all
    then have "ended_well g w plan rq facts x"
      unfolding ended_well_def by (intro disjI1 exI [of _ new_run]) (simp add: new_run_def)
    with x(1) show ?thesis by blast
  qed
  have loop: "\<exists>x. Option.bind (run_transition RS_PRIMARY_READY (Cause ''PREFLIGHT_PASSED'') (new_run\<lparr>gr_clock := 1\<rparr>)) (\<lambda>run.
      gateway_loop g w plan rq facts (gw_now w 0 + dl_overall b) b p MAX_PROVIDER_ATTEMPTS (dm_primary plan) run) = Some x \<and>
      ended_well g w plan rq facts x"
    if "validatePlanShape (re_digest (gy_env g)) plan rq = None" "resolve_profile (gy_profiles g) (dm_profile plan) = Inr p" for b p
  proof -
    obtain m where m: "run_transition RS_PRIMARY_READY (Cause ''PREFLIGHT_PASSED'') (new_run\<lparr>gr_clock := 1\<rparr>) =
        Some (new_run\<lparr>gr_clock := 1, gr_machine := m\<rparr>)" "rm_state m = RS_PRIMARY_READY" "length (rm_records m) = 1"
      by (rule run_transition_ok [of RS_PRIMARY_READY "new_run\<lparr>gr_clock := 1\<rparr>"]) (simp_all add: new_run_def new_machine_def)
    have "\<exists>x. gateway_loop g w plan rq facts (gw_now w 0 + dl_overall b) b p (Suc (Suc 0)) (dm_primary plan)
        (new_run\<lparr>gr_clock := 1, gr_machine := m\<rparr>) = Some x \<and> ended_well g w plan rq facts x"
      by (rule gateway_loop_ok [OF that]) (simp_all add: m(2,3), simp_all add: new_run_def)
    then show ?thesis using m(1) by (simp add: MAX_PROVIDER_ATTEMPTS_def numeral_2_eq_2 del: gateway_loop.simps)
  qed
  show ?thesis
    unfolding gateway_execute_def Let_def
    using configuration loop by (auto split: option.split sum.split list.split)
qed

lemma audit_of_fields [simp]:
  "ea_attempts (audit_of g plan st code out run) = gr_attempts run"
  "ea_transitions (audit_of g plan st code out run) = rm_records (gr_machine run)"
  "ea_path (audit_of g plan st code out run) = gr_path run"
  "ea_provider (audit_of g plan st code out run) = map_option tg_provider (gr_final run)"
  by (simp_all add: audit_of_def Let_def)

lemma one_call: "length cs \<le> 1 \<Longrightarrow> cs = [] \<or> (\<exists>c. cs = [c])"
  by (cases cs) auto

text \<open>The calls of a finished run: at most the primary target and one other.\<close>

lemma ended_well_calls:
  assumes "ended_well g w plan rq facts x"
  shows "length (gr_attempts (snd x)) = length (gr_calls (snd x)) \<and>
    (gr_calls (snd x) = [] \<or>
     (\<exists>c. gr_calls (snd x) = [c] \<and> call_ok rq (dm_primary plan) c) \<or>
     (\<exists>c d t. gr_calls (snd x) = [c, d] \<and> call_ok rq (dm_primary plan) c \<and> call_ok rq t d \<and>
        tg_provider t \<noteq> tg_provider (dm_primary plan) \<and> (dm_fallback plan = Some t \<or> dm_escalation plan = Some t)))"
  using assms unfolding ended_well_def
proof (elim disjE exE conjE)
  fix run
  assume "gr_calls run = []" "gr_attempts run = []" "closes g w plan rq facts (dm_primary plan) run x"
  then show ?thesis using one_call unfolding closes_def by fastforce
next
  fix run0 t run
  assume a: "gr_calls run0 = []" "gr_attempts run0 = []" "hands_over plan rq (dm_primary plan) run0 t run"
    "closes g w plan rq facts t (run\<lparr>gr_final := Some t\<rparr>) x" "tg_provider t \<noteq> tg_provider (dm_primary plan)"
  then obtain c a1 where c: "gr_calls run = [c]" "call_ok rq (dm_primary plan) c" "gr_attempts run = [a1]"
    "dm_fallback plan = Some t \<or> dm_escalation plan = Some t" unfolding hands_over_def by auto
  obtain calls where calls: "gr_calls (snd x) = [c] @ calls" "list_all (call_ok rq t) calls" "length calls \<le> 1"
    "length (gr_attempts (snd x)) = Suc (length calls)" using a(4) c(1,3) unfolding closes_def by auto
  then show ?thesis using one_call [OF calls(3)] c(2,4) a(5) by auto
qed

text \<open>The audit of a finished run, and what its output rests on.\<close>

lemma ended_well_audit:
  assumes "ended_well g w plan rq facts x"
  shows "ea_attempts (gt_audit (fst x)) = gr_attempts (snd x)"
    "ea_transitions (gt_audit (fst x)) = rm_records (gr_machine (snd x))"
    "ea_path (gt_audit (fst x)) = gr_path (snd x)" "records_of (snd x) \<le> 7"
    "(gt_status (fst x) \<noteq> GS_ACCEPTED \<and> gt_output (fst x) = None) \<or>
     (\<exists>provider q r v out. gr_calls (snd x) \<noteq> [] \<and> last (gr_calls (snd x)) = (provider, q) \<and>
        gw_execute w (length (gr_calls (snd x)) - 1) provider q = Returned r \<and>
        validate_response (gy_env g) (gy_profiles g) (validation_view plan rq facts r) = Inr v \<and>
        vr_disposition v = ACCEPT \<and> projectBoundedProviderOutput (gy_env g) r v = Some out \<and>
        gt_status (fst x) = GS_ACCEPTED \<and> gt_output (fst x) = Some out)"
proof -
  obtain t run where c: "closes g w plan rq facts t run x" using assms unfolding ended_well_def by blast
  then show "ea_attempts (gt_audit (fst x)) = gr_attempts (snd x)"
    "ea_transitions (gt_audit (fst x)) = rm_records (gr_machine (snd x))"
    "ea_path (gt_audit (fst x)) = gr_path (snd x)" "records_of (snd x) \<le> 7"
    unfolding closes_def by (metis audit_of_fields)+
  show "(gt_status (fst x) \<noteq> GS_ACCEPTED \<and> gt_output (fst x) = None) \<or>
     (\<exists>provider q r v out. gr_calls (snd x) \<noteq> [] \<and> last (gr_calls (snd x)) = (provider, q) \<and>
        gw_execute w (length (gr_calls (snd x)) - 1) provider q = Returned r \<and>
        validate_response (gy_env g) (gy_profiles g) (validation_view plan rq facts r) = Inr v \<and>
        vr_disposition v = ACCEPT \<and> projectBoundedProviderOutput (gy_env g) r v = Some out \<and>
        gt_status (fst x) = GS_ACCEPTED \<and> gt_output (fst x) = Some out)"
  proof -
    obtain calls where calls: "gr_calls (snd x) = gr_calls run @ calls"
      "(gt_status (fst x) \<noteq> GS_ACCEPTED \<and> gt_output (fst x) = None) \<or>
       (\<exists>q r v out. calls = [(tg_provider t, q)] \<and>
          gw_execute w (length (gr_calls run)) (tg_provider t) q = Returned r \<and>
          validate_response (gy_env g) (gy_profiles g) (validation_view plan rq facts r) = Inr v \<and>
          vr_disposition v = ACCEPT \<and> projectBoundedProviderOutput (gy_env g) r v = Some out \<and>
          gt_status (fst x) = GS_ACCEPTED \<and> gt_output (fst x) = Some out)"
      using c unfolding closes_def by blast
    from calls(2) show ?thesis
    proof (elim disjE exE conjE)
      fix q r v out
      assume "calls = [(tg_provider t, q)]"
      with calls(1) have called: "gr_calls (snd x) \<noteq> []" "last (gr_calls (snd x)) = (tg_provider t, q)"
        "length (gr_calls (snd x)) - 1 = length (gr_calls run)" by simp_all
      assume "gw_execute w (length (gr_calls run)) (tg_provider t) q = Returned r"
      then have "gw_execute w (length (gr_calls (snd x)) - 1) (tg_provider t) q = Returned r" by (simp only: called(3))
      moreover assume "validate_response (gy_env g) (gy_profiles g) (validation_view plan rq facts r) = Inr v"
        "vr_disposition v = ACCEPT" "projectBoundedProviderOutput (gy_env g) r v = Some out"
        "gt_status (fst x) = GS_ACCEPTED" "gt_output (fst x) = Some out"
      ultimately show ?thesis using called(1,2) by blast
    qed simp
  qed
qed

text \<open>C28. A run of the gateway always returns: it calls no provider, the primary one of the plan, or the primary one and
  then one other that the plan names, never the same twice; each call carries the request of the caller, with only its
  timeout replaced by one that is not above the timeout asked for; there is one attempt in the audit for each call, and
  never more than seven transitions.\<close>

theorem gateway_run_is_bounded:
  "\<exists>x run. gateway_execute g w plan rq facts = Some (x, run) \<and>
     (map fst (gr_calls run) = [] \<or> map fst (gr_calls run) = [tg_provider (dm_primary plan)] \<or>
      (\<exists>t. (dm_fallback plan = Some t \<or> dm_escalation plan = Some t) \<and>
         map fst (gr_calls run) = [tg_provider (dm_primary plan), tg_provider t])) \<and>
     distinct (map fst (gr_calls run)) \<and>
     list_all (\<lambda>c. \<exists>ms. snd c = rq\<lparr>aq_timeout := Some ms\<rparr> \<and> 0 \<le> ms \<and>
       (case aq_timeout rq of None \<Rightarrow> True | Some limit \<Rightarrow> ms \<le> limit)) (gr_calls run) \<and>
     length (ea_attempts (gt_audit x)) = length (gr_calls run) \<and> length (ea_transitions (gt_audit x)) \<le> 7"
proof -
  obtain x run where x: "gateway_execute g w plan rq facts = Some (x, run)" "ended_well g w plan rq facts (x, run)"
    using gateway_execute_ok [of g w plan rq facts] by auto
  note calls = ended_well_calls [OF x(2)]
  have "map fst (gr_calls run) = [] \<or> map fst (gr_calls run) = [tg_provider (dm_primary plan)] \<or>
      (\<exists>t. (dm_fallback plan = Some t \<or> dm_escalation plan = Some t) \<and>
         map fst (gr_calls run) = [tg_provider (dm_primary plan), tg_provider t])"
    "distinct (map fst (gr_calls run))"
    "list_all (\<lambda>c. \<exists>ms. snd c = rq\<lparr>aq_timeout := Some ms\<rparr> \<and> 0 \<le> ms \<and>
       (case aq_timeout rq of None \<Rightarrow> True | Some limit \<Rightarrow> ms \<le> limit)) (gr_calls run)"
    using calls by (auto simp: call_ok_def)
  then show ?thesis using x(1) ended_well_audit [OF x(2)] calls by auto
qed

text \<open>C29. An answer leaves the gateway only after its validation: when a run is accepted or has an output, the last
  provider called returned a result, the validator gave that result the disposition \<open>ACCEPT\<close> for the profile of the plan,
  and the output is the projection of that result.\<close>

theorem accepted_output_is_validated:
  assumes "gateway_execute g w plan rq facts = Some (x, run)" "gt_status x = GS_ACCEPTED \<or> gt_output x = Some out"
  shows "\<exists>provider q r v projected.
    gr_calls run = butlast (gr_calls run) @ [(provider, q)] \<and>
    gw_execute w (length (gr_calls run) - 1) provider q = Returned r \<and>
    validate_response (gy_env g) (gy_profiles g) (validation_view plan rq facts r) = Inr v \<and>
    vr_disposition v = ACCEPT \<and> projectBoundedProviderOutput (gy_env g) r v = Some projected \<and>
    gt_status x = GS_ACCEPTED \<and> gt_output x = Some projected"
proof -
  have "ended_well g w plan rq facts (x, run)" using gateway_execute_ok [of g w plan rq facts] assms(1) by auto
  from ended_well_audit(5) [OF this] assms(2) show ?thesis
    by (simp, metis append_butlast_last_id option.distinct(1))
qed

text \<open>C30. A second provider is called only for a cause: the attempt of the first one ended with a failure that is no
  safety failure, and that either allows a fallback, taken on the fallback path, or allows an escalation and had the
  disposition \<open>ESCALATE\<close> of the validator, on the escalation path.\<close>

theorem second_provider_needs_cause:
  assumes "gateway_execute g w plan rq facts = Some (x, run)" "length (gr_calls run) = 2"
  shows "\<exists>a as code. ea_attempts (gt_audit x) = a # as \<and> aa_failure a = Some code \<and>
    fp_class (failurePolicy code) \<noteq> FC_SAFETY \<and>
    (if ea_path (gt_audit x) = PATH_FALLBACK then fp_fallback (failurePolicy code)
     else ea_path (gt_audit x) = PATH_ESCALATION \<and> fp_escalation (failurePolicy code) \<and> aa_disposition a = Some ESCALATE)"
proof -
  have e: "ended_well g w plan rq facts (x, run)" using gateway_execute_ok [of g w plan rq facts] assms(1) by auto
  have "\<not> (\<exists>run0. gr_calls run0 = [] \<and> closes g w plan rq facts (dm_primary plan) run0 (x, run))"
    using assms(2) by (auto simp: closes_def)
  with e obtain run0 t run1 where h: "gr_attempts run0 = []" "hands_over plan rq (dm_primary plan) run0 t run1"
    "closes g w plan rq facts t (run1\<lparr>gr_final := Some t\<rparr>) (x, run)" unfolding ended_well_def by blast
  obtain extra where more: "gr_attempts run = gr_attempts run1 @ extra" "gr_path run = gr_path run1"
    using h(3) unfolding closes_def by auto
  from h(1,2) obtain a code where a: "gr_attempts run1 = [a]" "aa_failure a = Some code"
    "(gr_path run1 = PATH_FALLBACK \<and> fp_fallback (failurePolicy code)) \<or>
     (gr_path run1 = PATH_ESCALATION \<and> fp_escalation (failurePolicy code) \<and> aa_disposition a = Some ESCALATE)"
    unfolding hands_over_def by auto
  have "fp_class (failurePolicy code) \<noteq> FC_SAFETY" using a(3) failure_matrix_rows(2) by blast
  with a more show ?thesis using ended_well_audit(1,3) [OF e] by auto
qed

section \<open>A run with a fallback\<close>

abbreviation hex_a :: string where
  "hex_a \<equiv> replicate 64 CHR ''a''"

definition routed_profile :: validation_profile where
  "routed_profile = profile_configuration.extend
     \<lparr>vp_id = ''p'', vp_version = ''1'', vp_rules = [V_OUTPUT_LIMIT], vp_limit = 100, vp_escalation = False,
      vp_axis = None, vp_minimum = None\<rparr> \<lparr>vp_digest = hex_a\<rparr>"

definition routed_identity :: "Id \<Rightarrow> binding_identity" where
  "routed_identity i = \<lparr>bi_provider = i, bi_version = ''1'', bi_digest = hex_a\<rparr>"

definition routed_gateway :: gateway where
  "routed_gateway = \<lparr>gy_env = \<lparr>re_unicode = plain_unicode, re_digest = (\<lambda>_. hex_a), re_bytes = (\<lambda>_. 23)\<rparr>,
     gy_bindings = \<lparr>br_version = ''1'', br_digest = hex_a, br_bindings =
       [\<lparr>vb_id = ''x'', vb_identity = routed_identity ''x'', vb_provider_id = ''x''\<rparr>,
        \<lparr>vb_id = ''y'', vb_identity = routed_identity ''y'', vb_provider_id = ''y''\<rparr>]\<rparr>,
     gy_profiles = [routed_profile], gy_deadlines = DEFAULT_PROVIDER_DEADLINE_POLICY\<rparr>"

definition routed_plan :: provider_plan where
  "routed_plan = digest_material.extend
     \<lparr>dm_registry_digest = hex_a, dm_policy_digest = hex_a, dm_profile_digest = hex_a,
      dm_matrix_version = ROUTING_FAILURE_MATRIX_VERSION, dm_max_attempts = MAX_PROVIDER_ATTEMPTS,
      dm_max_hops = MAX_ADDITIONAL_PROVIDER_HOPS, dm_deadline = DL_STANDARD, dm_capability = GENERAL_CHAT,
      dm_profile = ''p'', dm_policy = ''q'',
      dm_primary = \<lparr>tg_purpose = PRIMARY, tg_provider = ''x'', tg_identity = routed_identity ''x''\<rparr>,
      dm_fallback = Some \<lparr>tg_purpose = FALLBACK, tg_provider = ''y'', tg_identity = routed_identity ''y''\<rparr>,
      dm_escalation = None\<rparr>
     \<lparr>pl_profile_version = ''1'', pl_decision = hex_a, pl_execution = ''e'', pl_configuration_digest = hex_a, pl_digest = hex_a,
      pl_policy_version = ''1'', pl_registry_version = ''1'', pl_routing_digest = hex_a\<rparr>"

definition routed_request :: ai_request where
  "routed_request = \<lparr>aq_capability = GENERAL_CHAT, aq_prompt = [], aq_system = None, aq_context = None, aq_timeout = Some 1000\<rparr>"

text \<open>The primary provider times out, the fallback answers.\<close>

definition routed_world :: gateway_world where
  "routed_world = \<lparr>gw_now = (\<lambda>_. 0), gw_execute = (\<lambda>_ p _. if p = ''x'' then Failed (Some K_TIMEOUT)
     else Returned \<lparr>xr_text = Some [0x61], xr_artifacts = No_artifacts\<rparr>)\<rparr>"

lemma routed_texts:
  "is_hex64 hex_a" "is_version ''1''" "isRoutingIdentifier ''p''" "isRoutingIdentifier ''q''" "isRoutingIdentifier ''e''"
  "isRoutingIdentifier ''x''" "isRoutingIdentifier ''y''" "is_version ''provider-deadline-policy-v1''"
  by code_simp+

lemmas routed_defs = routed_plan_def routed_request_def routed_identity_def routed_gateway_def routed_profile_def routed_world_def
  digest_material.defs profile_configuration.defs DEFAULT_PROVIDER_DEADLINE_POLICY_def

lemmas routed_steps = finish_def transition_def run_transition_def continue_with_def push_attempt_def new_run_def new_machine_def
  MAX_ROUTING_TRANSITIONS_def MAX_PROVIDER_ATTEMPTS_def gateway_execute_def gateway_step_def runAttempt_def after_failure_def
  after_result_def bindingFailure_def binding_get_def plan_targets_def budget_ok_def effectiveProviderTimeoutMs_def

lemmas routed_checks = validatePlanShape_def combinedRoutingConfigurationDigest_def computeProviderExecutionConfigurationDigest_def
  computeProviderExecutionPlanDigest_def List.map_filter_simps validate_response_def resolve_profile_def validation_view_def
  canonicalOutput_def outputIdentity_def rule_reason_def disposition_of_def classifyValidationFailure_def
  projectBoundedProviderOutput_def canonical_output.defs

lemma routed_policy: "fp_fallback (failurePolicy (classifyProviderFailure K_TIMEOUT))"
  by code_simp

lemma routed_run:
  "(case gateway_execute routed_gateway routed_world routed_plan routed_request None of None \<Rightarrow> False
    | Some (x, run) \<Rightarrow> gt_status x = GS_ACCEPTED \<and> length (gr_calls run) = 2)"
  using routed_policy by (simp add: routed_defs routed_steps routed_checks routed_texts numeral_2_eq_2, simp add: Let_def)

lemma accepted_output_is_validated_witness:
  "\<exists>x run r v. gateway_execute routed_gateway routed_world routed_plan routed_request None = Some (x, run) \<and>
     validate_response (gy_env routed_gateway) (gy_profiles routed_gateway)
       (validation_view routed_plan routed_request None r) = Inr v \<and> vr_disposition v = ACCEPT"
proof -
  obtain x run where x: "gateway_execute routed_gateway routed_world routed_plan routed_request None = Some (x, run)"
    "gt_status x = GS_ACCEPTED" using routed_run by (auto split: option.splits prod.splits)
  from accepted_output_is_validated [OF x(1) disjI1 [OF x(2)]] x(1) show ?thesis by blast
qed

lemma second_provider_needs_cause_witness:
  "\<exists>x run a as. gateway_execute routed_gateway routed_world routed_plan routed_request None = Some (x, run) \<and>
     ea_attempts (gt_audit x) = a # as \<and> aa_failure a \<noteq> None"
proof -
  obtain x run where x: "gateway_execute routed_gateway routed_world routed_plan routed_request None = Some (x, run)"
    "length (gr_calls run) = 2" using routed_run by (auto split: option.splits prod.splits)
  from second_provider_needs_cause [OF x] x(1) show ?thesis by auto
qed

end
