(* ===== verification/Plan_Preflight.thy ===== *)
theory Plan_Preflight
  imports Provider_Gateway
begin

text \<open>
  The planner (\<open>Provider_Plans\<close>) and the gateway (\<open>Provider_Gateway\<close>) together: what the constructors of
  the binding registry and of the profile registry guarantee of their entries, what \<open>create\<close> guarantees of a plan,
  and that such a plan passes all the checks the gateway makes before it calls a provider.
\<close>

section \<open>The registries\<close>

definition binding_wf :: "(json \<Rightarrow> string) \<Rightarrow> validated_binding \<Rightarrow> bool" where
  "binding_wf digest b \<longleftrightarrow> bi_provider (vb_identity b) = vb_id b \<and> vb_provider_id b = vb_id b \<and>
     isRoutingIdentifier (vb_id b) \<and> is_version (bi_version (vb_identity b)) \<and> (\<exists>j. bi_digest (vb_identity b) = digest j)"

lemma validate_binding_wf:
  assumes "validate_binding digest ds seen b = Inr v"
  shows "binding_wf digest v"
  using assms by (auto simp: validate_binding_def binding_wf_def binding_digest_of_def split: option.splits if_splits)

lemma collect_bindings_wf:
  "collect_bindings digest ds seen bs = Inr vs \<Longrightarrow> list_all (binding_wf digest) vs"
  by (induction bs arbitrary: seen vs) (auto simp: err_bind_Inr_iff dest: validate_binding_wf)

lemma new_binding_registry_wf:
  assumes "new_binding_registry lc digest sn bs = Inr br" "binding_get br i = Some b"
  shows "binding_wf digest b \<and> vb_id b = i"
proof -
  obtain ds vs where "collect_bindings digest ds [] bs = Inr vs" "br_bindings br = js_sort (\<lambda>a b. lc (vb_id a) (vb_id b)) vs"
    using assms(1) by (auto simp: new_binding_registry_def err_bind_Inr_iff split: if_splits)
  moreover have "b \<in> set (br_bindings br)" "vb_id b = i"
    using assms(2) by (auto simp: binding_get_def find_Some_iff)
  ultimately show ?thesis using collect_bindings_wf by (auto simp: list_all_iff)
qed

section \<open>The targets of a plan\<close>

lemma validateTarget_ok:
  assumes "validateTarget t expected ids sn br = Inr ()"
  obtains b where "tg_purpose t = expected" "tg_provider t \<in> set ids" "binding_get br (tg_provider t) = Some b"
    "bi_version (vb_identity b) = bi_version (tg_identity t)" "bi_digest (vb_identity b) = bi_digest (tg_identity t)"
  using assms by (auto simp: validateTarget_def plan_check_def err_bind_Inr_iff split: option.splits)

text \<open>What the gateway asks of a target.\<close>

definition target_ready :: "(json \<Rightarrow> string) \<Rightarrow> binding_registry \<Rightarrow> target_purpose \<Rightarrow> execution_target \<Rightarrow> bool" where
  "target_ready digest br purpose t \<longleftrightarrow> tg_purpose t = purpose \<and> isRoutingIdentifier (tg_provider t) \<and>
     bindingFailure br t = None \<and> is_version (bi_version (tg_identity t)) \<and> (\<exists>j. bi_digest (tg_identity t) = digest j)"

lemma validateTarget_ready:
  assumes "validateTarget t purpose ids sn br = Inr ()" "new_binding_registry lc digest sn0 bs = Inr br"
  shows "target_ready digest br purpose t"
proof -
  obtain b where b: "tg_purpose t = purpose" "binding_get br (tg_provider t) = Some b"
    "bi_version (vb_identity b) = bi_version (tg_identity t)" "bi_digest (vb_identity b) = bi_digest (tg_identity t)"
    using assms(1) by (rule validateTarget_ok)
  from new_binding_registry_wf [OF assms(2) b(2)] b show ?thesis
    by (auto simp: target_ready_def binding_wf_def bindingFailure_def)
qed

text \<open>A target that the planner makes carries the identity of the binding it found.\<close>

lemma target_of_identity:
  assumes "target_of purpose i br = Some t" "new_binding_registry lc digest sn0 bs = Inr br"
  shows "bi_provider (tg_identity t) = tg_provider t"
proof -
  obtain b where "binding_get br i = Some b" "t = \<lparr>tg_purpose = purpose, tg_provider = i, tg_identity = vb_identity b\<rparr>"
    using assms(1) by (auto simp: target_of_def)
  with new_binding_registry_wf [OF assms(2)] show ?thesis by (auto simp: binding_wf_def)
qed

lemma plan_escalation_made:
  "plan_escalation sn br p primary cs = Inr (Some t) \<Longrightarrow> \<exists>i. target_of ESCALATION i br = Some t"
  by (auto simp: plan_escalation_def err_bind_Inr_iff split: bool.splits option.splits)

lemma plan_fallback_made: "plan_fallback br es cs = Some t \<Longrightarrow> \<exists>i. target_of FALLBACK i br = Some t"
  by (auto simp: plan_fallback_def split: option.splits)

text \<open>The facts that \<open>create\<close> has checked by the time it returns.\<close>

lemma create_plan_facts:
  assumes "create_plan digest d sn br profiles i = Inr plan"
  obtains selected policy p primary es where
    "isRoutingIdentifier policy" "is_version (sd_policy_version d)" "is_version (sd_registry_version d)"
    "is_hex64 (sd_registry_digest d)" "is_hex64 (sd_policy_digest d)" "is_hex64 (sd_digest d)"
    "sd_registry_version d = br_version br" "sd_registry_digest d = br_digest br"
    "sd_digest d = combinedRoutingConfigurationDigest digest (sd_registry_digest d) (sd_policy_digest d)"
    "isRoutingIdentifier (pi_profile i)" "isRoutingIdentifier (pi_execution i)"
    "resolve_profile profiles (pi_profile i) = Inr p" "target_of PRIMARY selected br = Some primary"
    "plan_escalation sn br p primary (executableCandidates d br) = Inr es"
    "assertProviderExecutionTargets primary (plan_fallback br es (executableCandidates d br)) es (sd_eligible d) sn br p = Inr ()"
    "dm_registry_digest plan = sd_registry_digest d" "dm_policy_digest plan = sd_policy_digest d" "dm_profile_digest plan = vp_digest p"
    "dm_matrix_version plan = ROUTING_FAILURE_MATRIX_VERSION" "dm_max_attempts plan = MAX_PROVIDER_ATTEMPTS"
    "dm_max_hops plan = MAX_ADDITIONAL_PROVIDER_HOPS" "dm_capability plan = pi_capability i" "dm_profile plan = pi_profile i"
    "dm_policy plan = policy" "dm_primary plan = primary"
    "dm_fallback plan = plan_fallback br es (executableCandidates d br)" "dm_escalation plan = es"
    "pl_profile_version plan = vp_version p" "pl_decision plan = selectionDecisionId digest d" "pl_execution plan = pi_execution i"
    "pl_configuration_digest plan = computeProviderExecutionConfigurationDigest digest plan"
    "pl_digest plan = computeProviderExecutionPlanDigest digest (pl_decision plan) (pl_configuration_digest plan)"
    "pl_policy_version plan = sd_policy_version d" "pl_registry_version plan = sd_registry_version d"
    "pl_routing_digest plan = sd_digest d"
proof -
  obtain selected policy where s: "sd_reason d = SELECTED" "sd_selected d = Some selected" "sd_policy d = Some policy"
    using assms by (auto simp: create_plan_def split: routing_reason.splits option.splits)
  obtain primary where primary: "target_of PRIMARY selected br = Some primary"
    using assms by (cases "target_of PRIMARY selected br") (simp_all add: create_plan_def s err_bind_Inr_iff)
  note unfolded = assms [unfolded create_plan_def s primary, simplified plan_check_def resolve_for_plan_def err_bind_Inr_iff
      guard_err_Inr_iff Let_def option.case prod.case routing_reason.case]
  obtain p es where p: "resolve_profile profiles (pi_profile i) = Inr p"
      "plan_escalation sn br p primary (executableCandidates d br) = Inr es"
      "assertProviderExecutionTargets primary (plan_fallback br es (executableCandidates d br)) es (sd_eligible d) sn br p = Inr ()"
    and plan: "plan = (let material = \<lparr>dm_registry_digest = sd_registry_digest d, dm_policy_digest = sd_policy_digest d,
          dm_profile_digest = vp_digest p, dm_matrix_version = ROUTING_FAILURE_MATRIX_VERSION,
          dm_max_attempts = MAX_PROVIDER_ATTEMPTS, dm_max_hops = MAX_ADDITIONAL_PROVIDER_HOPS,
          dm_deadline = pi_deadline i, dm_capability = pi_capability i, dm_profile = pi_profile i,
          dm_policy = policy, dm_primary = primary, dm_fallback = plan_fallback br es (executableCandidates d br),
          dm_escalation = es\<rparr>; cd = computeProviderExecutionConfigurationDigest digest material in
        digest_material.extend material \<lparr>pl_profile_version = vp_version p, pl_decision = selectionDecisionId digest d,
          pl_execution = pi_execution i, pl_configuration_digest = cd,
          pl_digest = computeProviderExecutionPlanDigest digest (selectionDecisionId digest d) cd,
          pl_policy_version = sd_policy_version d, pl_registry_version = sd_registry_version d,
          pl_routing_digest = sd_digest d\<rparr>)"
    using unfolded primary by (auto simp: err_bind_Inr_iff Let_def split: sum.splits)
  show thesis
    by (rule that [OF _ _ _ _ _ _ _ _ _ _ _ p(1) primary p(2,3)])
      (use unfolded in \<open>auto simp: matchesSnapshot_def plan Let_def digest_material.defs computeProviderExecutionConfigurationDigest_def\<close>)
qed

lemma optional_check_Inr: "optional_check f x = Inr () \<longleftrightarrow> (case x of None \<Rightarrow> True | Some v \<Rightarrow> f v = Inr ())"
  by (simp add: optional_check_def split: option.split)

lemma created_targets:
  assumes "assertProviderExecutionTargets primary fb es ids sn br p = Inr ()" "new_binding_registry lc digest sn0 bs = Inr br"
  shows "target_ready digest br PRIMARY primary"
    "fb = Some t \<Longrightarrow> target_ready digest br FALLBACK t \<and> tg_provider t \<noteq> tg_provider primary"
    "es = Some t \<Longrightarrow> target_ready digest br ESCALATION t \<and> tg_provider t \<noteq> tg_provider primary"
    "fb = Some t \<Longrightarrow> es = Some u \<Longrightarrow> tg_provider t \<noteq> tg_provider u"
proof -
  have c: "validateTarget primary PRIMARY ids sn br = Inr ()"
    "case fb of None \<Rightarrow> True | Some t \<Rightarrow> validateTarget t FALLBACK ids sn br = Inr ()"
    "case es of None \<Rightarrow> True | Some t \<Rightarrow> validateTarget t ESCALATION ids sn br = Inr ()"
    "\<not> (map_option tg_provider fb = Some (tg_provider primary) \<or> map_option tg_provider es = Some (tg_provider primary) \<or>
       (fb \<noteq> None \<and> es \<noteq> None \<and> map_option tg_provider fb = map_option tg_provider es))"
    using assms(1) by (auto simp: assertProviderExecutionTargets_def plan_check_def err_bind_Inr_iff optional_check_Inr)
  note ready = validateTarget_ready [OF _ assms(2)]
  show "target_ready digest br PRIMARY primary" using c(1) by (rule ready)
  show "fb = Some t \<Longrightarrow> target_ready digest br FALLBACK t \<and> tg_provider t \<noteq> tg_provider primary"
    using c(2,4) ready by auto
  show "es = Some t \<Longrightarrow> target_ready digest br ESCALATION t \<and> tg_provider t \<noteq> tg_provider primary"
    using c(3,4) ready by auto
  show "fb = Some t \<Longrightarrow> es = Some u \<Longrightarrow> tg_provider t \<noteq> tg_provider u" using c(4) by auto
qed

text \<open>C31. The planner and the gateway agree: a plan that \<open>create\<close> makes from the registries passes every check the gateway
  makes before its first attempt with the same registries (its shape and digests, its registry version, the version and the
  digest of its validation profile, the binding of each of its targets), for a request for the capability of the plan.\<close>

theorem created_plan_passes_preflight:
  assumes "create_plan digest d sn br profiles i = Inr plan" "new_binding_registry lc digest sn0 bs = Inr br"
    "new_profile_registry lc digest cs = Inr profiles" "\<forall>j. is_hex64 (digest j)"
    "aq_capability rq = pi_capability i" "case aq_timeout rq of None \<Rightarrow> True | Some t \<Rightarrow> 0 < t"
  shows "validatePlanShape digest plan rq = None \<and>
    pl_registry_version plan = br_version br \<and> dm_registry_digest plan = br_digest br \<and>
    (case resolve_profile profiles (dm_profile plan) of Inl _ \<Rightarrow> False
     | Inr p \<Rightarrow> vp_version p = pl_profile_version plan \<and> vp_digest p = dm_profile_digest plan) \<and>
    List.map_filter (bindingFailure br) (plan_targets plan) = []"
proof -
  obtain selected policy p primary es where
    ids: "isRoutingIdentifier policy" "is_version (sd_policy_version d)" "is_version (sd_registry_version d)"
      "is_hex64 (sd_registry_digest d)" "is_hex64 (sd_policy_digest d)" "is_hex64 (sd_digest d)"
      "sd_registry_version d = br_version br" "sd_registry_digest d = br_digest br"
      "sd_digest d = combinedRoutingConfigurationDigest digest (sd_registry_digest d) (sd_policy_digest d)"
      "isRoutingIdentifier (pi_profile i)" "isRoutingIdentifier (pi_execution i)"
    and made: "resolve_profile profiles (pi_profile i) = Inr p" "target_of PRIMARY selected br = Some primary"
      "plan_escalation sn br p primary (executableCandidates d br) = Inr es"
      "assertProviderExecutionTargets primary (plan_fallback br es (executableCandidates d br)) es (sd_eligible d) sn br p = Inr ()"
    and plan: "dm_registry_digest plan = sd_registry_digest d" "dm_policy_digest plan = sd_policy_digest d"
      "dm_profile_digest plan = vp_digest p" "dm_matrix_version plan = ROUTING_FAILURE_MATRIX_VERSION"
      "dm_max_attempts plan = MAX_PROVIDER_ATTEMPTS" "dm_max_hops plan = MAX_ADDITIONAL_PROVIDER_HOPS"
      "dm_capability plan = pi_capability i" "dm_profile plan = pi_profile i" "dm_policy plan = policy" "dm_primary plan = primary"
      "dm_fallback plan = plan_fallback br es (executableCandidates d br)" "dm_escalation plan = es"
      "pl_profile_version plan = vp_version p" "pl_decision plan = selectionDecisionId digest d" "pl_execution plan = pi_execution i"
      "pl_configuration_digest plan = computeProviderExecutionConfigurationDigest digest plan"
      "pl_digest plan = computeProviderExecutionPlanDigest digest (pl_decision plan) (pl_configuration_digest plan)"
      "pl_policy_version plan = sd_policy_version d" "pl_registry_version plan = sd_registry_version d"
      "pl_routing_digest plan = sd_digest d"
    using assms(1) by (rule create_plan_facts)
  have "profile_ok digest p"
    using new_profile_registry_ok(1) [OF assms(3)] resolve_profile_Inr [OF made(1)] by (simp add: list_all_iff)
  then have profile: "is_version (vp_version p)" "is_hex64 (vp_digest p)" using assms(4) by (simp_all add: profile_ok_def)
  have hex: "is_hex64 (selectionDecisionId digest d)" "is_hex64 (computeProviderExecutionConfigurationDigest digest plan)"
    "is_hex64 (computeProviderExecutionPlanDigest digest a b)" for a b
    using assms(4) by (simp_all add: selectionDecisionId_def computeProviderExecutionConfigurationDigest_def
        computeProviderExecutionPlanDigest_def)
  define fb where "fb = plan_fallback br es (executableCandidates d br)"
  note targets = created_targets [OF made(4) assms(2), folded fb_def]
  have own: "bi_provider (tg_identity primary) = tg_provider primary"
    "fb = Some t \<Longrightarrow> bi_provider (tg_identity t) = tg_provider t"
    "es = Some t \<Longrightarrow> bi_provider (tg_identity t) = tg_provider t" for t
    using target_of_identity [OF _ assms(2)] made(2,3) plan_fallback_made plan_escalation_made unfolding fb_def by blast+
  have each: "list_all (\<lambda>t. isRoutingIdentifier (tg_provider t) \<and> bi_provider (tg_identity t) = tg_provider t \<and>
      is_version (bi_version (tg_identity t)) \<and> is_hex64 (bi_digest (tg_identity t)) \<and> bindingFailure br t = None)
      (plan_targets plan)"
    using targets(1) targets(2,3) [of "the fb"] targets(3) [of "the es"] targets(2) own assms(4)
    unfolding plan_targets_def plan fb_def [symmetric]
    by (cases fb; cases es) (auto simp: target_ready_def List.map_filter_simps)
  have distinct_targets: "\<not> (map_option tg_provider fb = Some (tg_provider primary) \<or>
      map_option tg_provider es = Some (tg_provider primary) \<or>
      (fb \<noteq> None \<and> es \<noteq> None \<and> map_option tg_provider fb = map_option tg_provider es))"
    using targets(2-4) by auto
  have purposes: "tg_purpose primary = PRIMARY" "\<not> (case fb of None \<Rightarrow> False | Some t \<Rightarrow> tg_purpose t \<noteq> FALLBACK)"
    "\<not> (case es of None \<Rightarrow> False | Some t \<Rightarrow> tg_purpose t \<noteq> ESCALATION)"
    using targets by (auto simp: target_ready_def split: option.splits)
  have timeout: "\<not> (case aq_timeout rq of None \<Rightarrow> False | Some t \<Rightarrow> t \<le> 0)" using assms(6) by (simp split: option.splits)
  have some: "\<not> list_ex (\<lambda>t. \<not> isRoutingIdentifier (tg_provider t) \<or> bi_provider (tg_identity t) \<noteq> tg_provider t \<or>
      \<not> is_version (bi_version (tg_identity t)) \<or> \<not> is_hex64 (bi_digest (tg_identity t)))
      (List.map_filter (\<lambda>t. t) [Some primary, fb, es])"
    using each unfolding plan_targets_def plan fb_def [symmetric] by (auto simp: list_ex_iff list_all_iff)
  have "validatePlanShape digest plan rq = None"
  proof -
    have "\<not> (\<not> isRoutingIdentifier (dm_policy plan) \<or> \<not> is_version (pl_policy_version plan) \<or>
        \<not> is_version (pl_registry_version plan) \<or> \<not> is_hex64 (dm_registry_digest plan) \<or>
        \<not> is_hex64 (dm_policy_digest plan) \<or> \<not> is_hex64 (pl_routing_digest plan) \<or>
        \<not> is_hex64 (dm_profile_digest plan) \<or> \<not> is_hex64 (pl_configuration_digest plan) \<or>
        \<not> is_hex64 (pl_decision plan) \<or> \<not> is_hex64 (pl_digest plan) \<or>
        \<not> is_version (pl_profile_version plan) \<or> \<not> isRoutingIdentifier (dm_profile plan) \<or>
        \<not> isRoutingIdentifier (pl_execution plan) \<or> (case aq_timeout rq of None \<Rightarrow> False | Some t \<Rightarrow> t \<le> 0))"
      using ids(1-6,10,11) profile hex timeout by (simp add: plan)
    moreover note distinct_targets purposes some ids(9) assms(5)
    ultimately show ?thesis
      unfolding validatePlanShape_def by (simp only: plan fb_def [symmetric] if_False if_True not_False_eq_True simp_thms)
  qed
  moreover have "List.map_filter (bindingFailure br) (plan_targets plan) = []"
    using each by (simp add: map_filter_Nil_iff list_all_iff)
  ultimately show ?thesis using made(1) ids plan by simp
qed

section \<open>An example\<close>

definition planned_bindings :: "executable_binding list" where
  "planned_bindings = map (\<lambda>i. \<lparr>xb_id = i, xb_adapter = ''cli'', xb_model = js ''model'', xb_version = ''1'', xb_provider_id = Some i\<rparr>)
     [''b'', ''a'']"

definition planned_profiles :: "profile_configuration list" where
  "planned_profiles = [\<lparr>vp_id = ''p'', vp_version = ''1'', vp_rules = [V_NON_EMPTY], vp_limit = 100, vp_escalation = False,
     vp_axis = None, vp_minimum = None\<rparr>]"

definition planned_decision :: selection_decision where
  "planned_decision = decision_of example_engine (Some ''b'') [''b'', ''a''] (Some ''high'') SELECTED example_snapshot
     (example_digest JNull)"

definition planned_input :: plan_input where
  "planned_input = \<lparr>pi_capability = GENERAL_CHAT, pi_profile = ''p'', pi_deadline = DL_STANDARD, pi_execution = ''e''\<rparr>"

definition planned_request :: ai_request where
  "planned_request = \<lparr>aq_capability = GENERAL_CHAT, aq_prompt = [], aq_system = None, aq_context = None, aq_timeout = None\<rparr>"

lemma planned_run:
  "(case new_binding_registry code_compare example_digest example_snapshot planned_bindings of Inl _ \<Rightarrow> False
    | Inr br \<Rightarrow> (case new_profile_registry code_compare example_digest planned_profiles of Inl _ \<Rightarrow> False
    | Inr ps \<Rightarrow> (case create_plan example_digest planned_decision example_snapshot br ps planned_input of Inl _ \<Rightarrow> False
    | Inr plan \<Rightarrow> map_option tg_provider (dm_fallback plan) = Some ''a'')))"
  by code_simp

lemma example_digest_hex: "is_hex64 (example_digest j)"
proof -
  have "is_hex64 (replicate 64 (CHR ''a''))" by code_simp
  then show ?thesis by (simp add: example_digest_def)
qed

lemma created_plan_passes_preflight_witness:
  "\<exists>br plan. map_option tg_provider (dm_fallback plan) = Some ''a'' \<and>
     validatePlanShape example_digest plan planned_request = None \<and>
     List.map_filter (bindingFailure br) (plan_targets plan) = []"
proof -
  obtain br ps plan where built: "new_binding_registry code_compare example_digest example_snapshot planned_bindings = Inr br"
    "new_profile_registry code_compare example_digest planned_profiles = Inr ps"
    "create_plan example_digest planned_decision example_snapshot br ps planned_input = Inr plan"
    "map_option tg_provider (dm_fallback plan) = Some ''a''"
    using planned_run by (auto split: sum.splits)
  have "aq_capability planned_request = pi_capability planned_input"
    "case aq_timeout planned_request of None \<Rightarrow> True | Some t \<Rightarrow> 0 < t"
    by (simp_all add: planned_request_def planned_input_def)
  from created_plan_passes_preflight [OF built(3,1,2) allI [OF example_digest_hex] this] built(4) show ?thesis by blast
qed

end
