(* ===== verification/Runtime_Routing.thy ===== *)
theory Runtime_Routing
  imports Plan_Preflight
begin

text \<open>
  The service that puts the routing together for one turn of the runtime
  (\<open>application/runtime-provider-routing-service.ts\<close>): the probes of the bindings, the snapshot of the registry,
  the selection, the plan and the run of the gateway.

  \<^item> A world answers the probes and the calls of the gateway. A thrown error is its \<open>code\<close>, when it has one.
  \<^item> The planner of the configuration is the \<open>ProviderExecutionPlanner\<close>. \<open>execute\<close> is modelled with
    the run of the gateway as a second result, for the theorem.
\<close>

section \<open>Facts and contexts\<close>

record runtime_facts =
  rf_capability :: capability
  rf_intent :: intent_type
  rf_requires_work :: bool

definition GENERAL_CHAT_PROFILE :: Id where "GENERAL_CHAT_PROFILE = ''GENERAL_CHAT''"

definition GENERAL_CHAT_CONTEXT :: routing_context where
  "GENERAL_CHAT_CONTEXT = \<lparr>cx_capability = GENERAL_CHAT, cx_request = Q_CONVERSATIONAL, cx_intent = CHAT, cx_risk = SR_STANDARD,
     cx_latency = LC_BALANCED, cx_tool_use = RQ_NOT_REQUIRED, cx_authority = AQ_NOT_REQUIRED, cx_continuity = RQ_UNKNOWN,
     cx_output = OS_MEDIUM, cx_profile = GENERAL_CHAT_PROFILE\<rparr>"

definition mapRuntimeProviderRoutingContext :: "runtime_facts \<Rightarrow> routing_context option" where
  "mapRuntimeProviderRoutingContext f =
     (if rf_capability f \<noteq> GENERAL_CHAT \<or> rf_intent f \<noteq> CHAT \<or> \<not> rf_requires_work f then None
      else Some GENERAL_CHAT_CONTEXT)"

section \<open>Results\<close>

datatype runtime_code = Gateway_failure gateway_code | Selection_reason routing_reason

record runtime_audit =
  ra_context :: "routing_context option"
  ra_decision :: "selection_decision option"
  ra_gateway :: "execution_audit option"
  ra_status :: gateway_status
  ra_code :: "runtime_code option"

record runtime_result =
  rr_status :: gateway_status
  rr_failure :: "runtime_code option"
  rr_output :: "bounded_output option"
  rr_provider :: "Id option"
  rr_audit :: runtime_audit

record runtime_input =
  ri_facts :: runtime_facts
  ri_request :: ai_request
  ri_fact :: "js_string option"
  ri_turn :: "js_string option"
  ri_execution :: Id

definition freezeAudit ::
  "routing_context option \<Rightarrow> selection_decision option \<Rightarrow> execution_audit option \<Rightarrow> gateway_status \<Rightarrow> runtime_code option \<Rightarrow>
   runtime_audit" where
  "freezeAudit cx d ga st code = \<lparr>ra_context = cx, ra_decision = d, ra_gateway = ga, ra_status = st, ra_code = code\<rparr>"

definition runtime_failure ::
  "routing_context option \<Rightarrow> selection_decision option \<Rightarrow> execution_audit option \<Rightarrow> gateway_status \<Rightarrow> runtime_code \<Rightarrow>
   runtime_result" where
  "runtime_failure cx d ga st code = \<lparr>rr_status = st, rr_failure = Some code, rr_output = None, rr_provider = None,
     rr_audit = freezeAudit cx d ga st (Some code)\<rparr>"

section \<open>The service\<close>

record runtime_service =
  sv_registry :: provider_registry
  sv_engine :: policy_engine
  sv_bindings :: "executable_binding list"
  sv_profiles :: profile_registry
  sv_deadlines :: deadline_policy
  sv_env :: response_env
  sv_collation :: collation

text \<open>\<open>rw_probe k\<close>: the \<open>k\<close>-th binding answers \<open>isAvailable\<close> with \<open>true\<close> (a rejection is no such answer).\<close>

record runtime_world =
  rw_probe :: "nat \<Rightarrow> bool"
  rw_gateway :: gateway_world

text \<open>An error without a code of its own counts as a configuration mismatch.\<close>

definition configurationFailureCode :: "gateway_code option \<Rightarrow> gateway_code" where
  "configurationFailureCode c = (case c of Some c' \<Rightarrow> c' | None \<Rightarrow> Routing_code F_ROUTING_CONFIGURATION_MISMATCH)"

definition as_code :: "('e \<Rightarrow> gateway_code option) \<Rightarrow> 'e + 'a \<Rightarrow> gateway_code + 'a" where
  "as_code f r = (case r of Inl e \<Rightarrow> Inl (configurationFailureCode (f e)) | Inr x \<Rightarrow> Inr x)"

definition new_runtime_service :: "runtime_service \<Rightarrow> gateway_code + runtime_service" where
  "new_runtime_service sv =
     err_bind (as_code (\<lambda>_. None) (take_snapshot (sv_registry sv) [])) (\<lambda>sn.
     err_bind (as_code (\<lambda>c. Some (Binding_code c))
       (new_binding_registry (sv_collation sv) (re_digest (sv_env sv)) sn (sv_bindings sv))) (\<lambda>_.
     err_bind (as_code (\<lambda>(c, _). Some (Routing_code c)) (resolve_profile (sv_profiles sv) GENERAL_CHAT_PROFILE)) (\<lambda>_.
     Inr sv)))"

text \<open>\<open>Object.fromEntries\<close> keeps the last value of a key, and \<open>map_of\<close> finds the first.\<close>

definition probed_availability :: "(nat \<Rightarrow> bool) \<Rightarrow> executable_binding list \<Rightarrow> (Id \<times> provider_availability) list" where
  "probed_availability probe bs =
     rev (map (\<lambda>(k, b). (xb_id b, if probe k then AVAILABLE else UNAVAILABLE)) (enumerate 0 bs))"

definition runtime_select ::
  "runtime_service \<Rightarrow> runtime_world \<Rightarrow> routing_context \<Rightarrow> gateway_code + registry_snapshot \<times> binding_registry \<times> selection_decision" where
  "runtime_select sv w cx =
     err_bind (as_code (\<lambda>_. None) (take_snapshot (sv_registry sv) (probed_availability (rw_probe w) (sv_bindings sv)))) (\<lambda>sn.
     err_bind (as_code (\<lambda>c. Some (Binding_code c))
       (new_binding_registry (sv_collation sv) (re_digest (sv_env sv)) sn (sv_bindings sv))) (\<lambda>br.
     err_bind (as_code (\<lambda>_. None) (select_provider (sv_collation sv) (re_digest (sv_env sv)) (sv_engine sv) cx sn)) (\<lambda>d.
     Inr (sn, br, d))))"

definition selection_status :: "routing_reason \<Rightarrow> gateway_status" where
  "selection_status r = (if r = POLICY_NOT_MATCHED then GS_CONFIGURATION_FAILED else GS_EXECUTION_FAILED)"

definition runtime_outcome ::
  "routing_context \<Rightarrow> selection_decision \<Rightarrow> gateway_result \<Rightarrow> runtime_result" where
  "runtime_outcome cx d r =
     (let code = map_option Gateway_failure (gt_failure r) in
      if gt_status r = GS_ACCEPTED \<and> gt_output r \<noteq> None \<and> ea_provider (gt_audit r) \<noteq> None
      then \<lparr>rr_status = gt_status r, rr_failure = code, rr_output = gt_output r, rr_provider = ea_provider (gt_audit r),
            rr_audit = freezeAudit (Some cx) (Some d) (Some (gt_audit r)) (gt_status r) code\<rparr>
      else if gt_status r = GS_ACCEPTED
      then runtime_failure (Some cx) (Some d) (Some (gt_audit r)) GS_CONFIGURATION_FAILED
             (Gateway_failure (Routing_code F_ROUTING_CONFIGURATION_MISMATCH))
      else \<lparr>rr_status = gt_status r, rr_failure = code, rr_output = None, rr_provider = None,
            rr_audit = freezeAudit (Some cx) (Some d) (Some (gt_audit r)) (gt_status r) code\<rparr>)"

definition runtime_gateway ::
  "runtime_service \<Rightarrow> runtime_world \<Rightarrow> routing_context \<Rightarrow> runtime_input \<Rightarrow> registry_snapshot \<Rightarrow> binding_registry \<Rightarrow>
   selection_decision \<Rightarrow> runtime_result \<times> gateway_run option" where
  "runtime_gateway sv w cx i sn br d =
     (case create_plan (re_digest (sv_env sv)) d sn br (sv_profiles sv)
        \<lparr>pi_capability = GENERAL_CHAT, pi_profile = GENERAL_CHAT_PROFILE, pi_deadline = DL_STANDARD, pi_execution = ri_execution i\<rparr> of
        Inl code \<Rightarrow> (runtime_failure (Some cx) (Some d) None GS_CONFIGURATION_FAILED (Gateway_failure code), None)
      | Inr plan \<Rightarrow>
          (case gateway_execute \<lparr>gy_env = sv_env sv, gy_bindings = br, gy_profiles = sv_profiles sv, gy_deadlines = sv_deadlines sv\<rparr>
             (rw_gateway w) plan (ri_request i) (Some \<lparr>vf_fact = ri_fact i, vf_turn = ri_turn i, vf_corpus = None\<rparr>) of
             None \<Rightarrow> (runtime_failure (Some cx) (Some d) None GS_EXECUTION_FAILED
                       (Gateway_failure (Routing_code F_PROVIDER_EXECUTION_FAILED)), None)
           | Some (r, run) \<Rightarrow> (runtime_outcome cx d r, Some run)))"

text \<open>\<open>execute\<close>, with the run of the gateway when there was one.\<close>

definition runtime_execute ::
  "runtime_service \<Rightarrow> runtime_world \<Rightarrow> runtime_input \<Rightarrow> runtime_result \<times> gateway_run option" where
  "runtime_execute sv w i =
     (case mapRuntimeProviderRoutingContext (ri_facts i) of
        None \<Rightarrow> (runtime_failure None None None GS_CONFIGURATION_FAILED
                  (Gateway_failure (Routing_code F_ROUTING_CONFIGURATION_MISMATCH)), None)
      | Some cx \<Rightarrow>
          if aq_capability (ri_request i) \<noteq> GENERAL_CHAT
          then (runtime_failure (Some cx) None None GS_CONFIGURATION_FAILED
                  (Gateway_failure (Routing_code F_ROUTING_CONFIGURATION_MISMATCH)), None)
          else (case runtime_select sv w cx of
              Inl code \<Rightarrow> (runtime_failure (Some cx) None None GS_CONFIGURATION_FAILED (Gateway_failure code), None)
            | Inr (sn, br, d) \<Rightarrow>
                if sd_reason d \<noteq> SELECTED
                then (runtime_failure (Some cx) (Some d) None (selection_status (sd_reason d)) (Selection_reason (sd_reason d)), None)
                else runtime_gateway sv w cx i sn br d))"

section \<open>Who is called\<close>

lemma entry_usable_Inr:
  "entry_usable sn i = Inr () \<longleftrightarrow>
     (case snapshot_entry sn i of None \<Rightarrow> False | Some e \<Rightarrow> pd_enabled (rp_descriptor e) \<and> rp_availability e = AVAILABLE)"
  by (auto simp: entry_usable_def plan_check_def err_bind_Inr_iff split: option.split)

lemma asserted_usable:
  assumes "assertProviderExecutionTargets primary fb es ids sn br p = Inr ()"
    "t = primary \<or> fb = Some t \<or> es = Some t"
  shows "entry_usable sn (tg_provider t) = Inr ()"
proof -
  have "validateTarget t expected ids sn br = Inr () \<Longrightarrow> entry_usable sn (tg_provider t) = Inr ()" for expected
    by (auto simp: validateTarget_def err_bind_Inr_iff)
  moreover have "\<exists>expected. validateTarget t expected ids sn br = Inr ()"
    using assms by (auto simp: assertProviderExecutionTargets_def plan_check_def err_bind_Inr_iff optional_check_Inr)
  ultimately show ?thesis by blast
qed

lemma created_plan_targets_usable:
  assumes "create_plan digest d sn br profiles i = Inr plan"
    "t = dm_primary plan \<or> dm_fallback plan = Some t \<or> dm_escalation plan = Some t"
  shows "entry_usable sn (tg_provider t) = Inr ()"
  using assms(1)
proof (rule create_plan_facts)
  fix selected policy p primary es
  assume "assertProviderExecutionTargets primary (plan_fallback br es (executableCandidates d br)) es (sd_eligible d) sn br p = Inr ()"
    "dm_primary plan = primary" "dm_fallback plan = plan_fallback br es (executableCandidates d br)" "dm_escalation plan = es"
  with assms(2) show ?thesis by (auto intro: asserted_usable)
qed

text \<open>A provider that \<open>snapshot\<close> shows as available has answered the probe of one of its bindings.\<close>

lemma probed_available:
  assumes "map_of (probed_availability probe bs) i = Some AVAILABLE"
  shows "list_ex (\<lambda>(k, b). xb_id b = i \<and> probe k) (enumerate 0 bs)"
  using map_of_SomeD [OF assms] by (force simp: probed_availability_def list_ex_iff split: if_splits)

lemma usable_is_live:
  assumes "take_snapshot reg (probed_availability probe bs) = Inr sn" "entry_usable sn i = Inr ()"
  shows "list_ex (\<lambda>d. pd_id d = i \<and> pd_enabled d) (reg_descriptors reg) \<and>
    list_ex (\<lambda>(k, b). xb_id b = i \<and> probe k) (enumerate 0 bs)"
proof -
  obtain e where e: "snapshot_entry sn i = Some e" "pd_enabled (rp_descriptor e)" "rp_availability e = AVAILABLE"
    using assms(2) by (auto simp: entry_usable_Inr split: option.splits)
  from e(1) have in_sn: "e \<in> set (sn_providers sn)" "pd_id (rp_descriptor e) = i" by (auto simp: snapshot_entry_def find_Some_iff)
  have "sn_providers sn = map (\<lambda>d. \<lparr>rp_descriptor = d, rp_availability =
      (case map_of (probed_availability probe bs) (pd_id d) of None \<Rightarrow> AVAILABILITY_UNKNOWN | Some a \<Rightarrow> a)\<rparr>) (reg_descriptors reg)"
    using assms(1) by (auto simp: take_snapshot_def split: option.splits)
  with in_sn e(2,3) obtain d where d: "d \<in> set (reg_descriptors reg)" "pd_id d = i" "pd_enabled d"
    "(case map_of (probed_availability probe bs) i of None \<Rightarrow> AVAILABILITY_UNKNOWN | Some a \<Rightarrow> a) = AVAILABLE" by auto
  then have "map_of (probed_availability probe bs) i = Some AVAILABLE" by (simp split: option.splits)
  from probed_available [OF this] d show ?thesis by (auto simp: list_ex_iff)
qed

lemma runtime_execute_run:
  assumes "runtime_execute sv w i = (r, Some run)"
  obtains cx sn br d plan facts x where
    "take_snapshot (sv_registry sv) (probed_availability (rw_probe w) (sv_bindings sv)) = Inr sn"
    "create_plan (re_digest (sv_env sv)) d sn br (sv_profiles sv)
       \<lparr>pi_capability = GENERAL_CHAT, pi_profile = GENERAL_CHAT_PROFILE, pi_deadline = DL_STANDARD, pi_execution = ri_execution i\<rparr> = Inr plan"
    "gateway_execute \<lparr>gy_env = sv_env sv, gy_bindings = br, gy_profiles = sv_profiles sv, gy_deadlines = sv_deadlines sv\<rparr>
       (rw_gateway w) plan (ri_request i) facts = Some (x, run)" "r = runtime_outcome cx d x"
proof -
  obtain cx sn br d where s: "runtime_select sv w cx = Inr (sn, br, d)" "runtime_gateway sv w cx i sn br d = (r, Some run)"
    using assms by (auto simp: runtime_execute_def split: option.splits sum.splits prod.splits if_splits)
  from s(1) have "take_snapshot (sv_registry sv) (probed_availability (rw_probe w) (sv_bindings sv)) = Inr sn"
    by (auto simp: runtime_select_def as_code_def err_bind_Inr_iff split: sum.splits)
  with s(2) that show thesis
    by (auto simp: runtime_gateway_def split: sum.splits option.splits prod.splits)
qed

text \<open>C32. The service calls live providers only: every provider it calls is an enabled one of the registry, and the probe of
  one of its bindings, made in this turn, answered that it is available.\<close>

theorem only_live_providers_are_called:
  "case runtime_execute sv w i of (r, None) \<Rightarrow> rr_output r = None
   | (r, Some run) \<Rightarrow> list_all (\<lambda>c.
       list_ex (\<lambda>d. pd_id d = fst c \<and> pd_enabled d) (reg_descriptors (sv_registry sv)) \<and>
       list_ex (\<lambda>(k, b). xb_id b = fst c \<and> rw_probe w k) (enumerate 0 (sv_bindings sv))) (gr_calls run)"
proof (cases "snd (runtime_execute sv w i)")
  case None
  then show ?thesis
    by (auto simp: runtime_execute_def runtime_gateway_def runtime_failure_def split: option.splits sum.splits prod.splits if_splits)
next
  case (Some run)
  then obtain r where x: "runtime_execute sv w i = (r, Some run)" by (metis prod.collapse)
  obtain cx sn br d plan facts y where
    sn: "take_snapshot (sv_registry sv) (probed_availability (rw_probe w) (sv_bindings sv)) = Inr sn"
    and plan: "create_plan (re_digest (sv_env sv)) d sn br (sv_profiles sv)
       \<lparr>pi_capability = GENERAL_CHAT, pi_profile = GENERAL_CHAT_PROFILE, pi_deadline = DL_STANDARD, pi_execution = ri_execution i\<rparr> = Inr plan"
    and run: "gateway_execute \<lparr>gy_env = sv_env sv, gy_bindings = br, gy_profiles = sv_profiles sv, gy_deadlines = sv_deadlines sv\<rparr>
       (rw_gateway w) plan (ri_request i) facts = Some (y, run)" "r = runtime_outcome cx d y"
    using x by (rule runtime_execute_run)
  note live = usable_is_live [OF sn created_plan_targets_usable [OF plan]]
  have "ended_well \<lparr>gy_env = sv_env sv, gy_bindings = br, gy_profiles = sv_profiles sv, gy_deadlines = sv_deadlines sv\<rparr>
      (rw_gateway w) plan (ri_request i) facts (y, run)"
    using gateway_execute_ok run(1) by (metis option.inject)
  note calls = ended_well_calls [OF this, THEN conjunct2]
  have "list_ex (\<lambda>d. pd_id d = fst c \<and> pd_enabled d) (reg_descriptors (sv_registry sv)) \<and>
       list_ex (\<lambda>(k, b). xb_id b = fst c \<and> rw_probe w k) (enumerate 0 (sv_bindings sv))" if "c \<in> set (gr_calls run)" for c
  proof -
    have fst: "fst e = tg_provider t" if "call_ok (ri_request i) t e" for t e using that by (simp add: call_ok_def)
    from calls that obtain t where "call_ok (ri_request i) t c"
      "t = dm_primary plan \<or> dm_fallback plan = Some t \<or> dm_escalation plan = Some t"
      by auto
    with fst have "fst c = tg_provider t" "t = dm_primary plan \<or> dm_fallback plan = Some t \<or> dm_escalation plan = Some t"
      by blast+
    with live [of t] show ?thesis by simp
  qed
  then show ?thesis using x by (simp add: list_all_iff)
qed

section \<open>A turn with a plan\<close>

definition served_service :: runtime_service where
  "served_service = \<lparr>sv_registry = \<lparr>reg_version = ''1'', reg_digest = hex_a, reg_descriptors =
       [example_provider ''a'' RL_STANDARD EL_LOCAL True, example_provider ''b'' RL_HIGH EL_NETWORK True]\<rparr>,
     sv_engine = example_engine, sv_bindings = planned_bindings,
     sv_profiles = [routed_profile\<lparr>vp_id := GENERAL_CHAT_PROFILE\<rparr>], sv_deadlines = DEFAULT_PROVIDER_DEADLINE_POLICY,
     sv_env = \<lparr>re_unicode = plain_unicode, re_digest = example_digest, re_bytes = (\<lambda>_. 23)\<rparr>, sv_collation = code_compare\<rparr>"

definition served_world :: runtime_world where
  "served_world = \<lparr>rw_probe = (\<lambda>_. True), rw_gateway = \<lparr>gw_now = (\<lambda>_. 0), gw_execute = (\<lambda>_ p _.
     if p = ''b'' then Failed (Some K_TIMEOUT) else Returned \<lparr>xr_text = Some [0x61], xr_artifacts = No_artifacts\<rparr>)\<rparr>\<rparr>"

definition served_input :: runtime_input where
  "served_input = \<lparr>ri_facts = \<lparr>rf_capability = GENERAL_CHAT, rf_intent = CHAT, rf_requires_work = True\<rparr>,
     ri_request = planned_request, ri_fact = None, ri_turn = None, ri_execution = ''e''\<rparr>"

lemma served_plan:
  "(case runtime_select served_service served_world GENERAL_CHAT_CONTEXT of Inl _ \<Rightarrow> False
    | Inr (sn, br, d) \<Rightarrow> sd_reason d = SELECTED \<and>
       (case create_plan (re_digest (sv_env served_service)) d sn br (sv_profiles served_service)
          \<lparr>pi_capability = GENERAL_CHAT, pi_profile = GENERAL_CHAT_PROFILE, pi_deadline = DL_STANDARD,
           pi_execution = ri_execution served_input\<rparr> of Inl _ \<Rightarrow> False
        | Inr plan \<Rightarrow> tg_provider (dm_primary plan) = ''b'' \<and> map_option tg_provider (dm_fallback plan) = Some ''a''))"
  by code_simp

lemma served_run: "\<exists>r run. runtime_execute served_service served_world served_input = (r, Some run)"
proof -
  obtain q where q: "runtime_select served_service served_world GENERAL_CHAT_CONTEXT = Inr q"
    using served_plan by (cases "runtime_select served_service served_world GENERAL_CHAT_CONTEXT") simp_all
  obtain sn br d where p: "q = (sn, br, d)" by (cases q)
  have s: "sd_reason d = SELECTED" using served_plan by (simp add: q p)
  obtain plan where plan: "create_plan (re_digest (sv_env served_service)) d sn br (sv_profiles served_service)
          \<lparr>pi_capability = GENERAL_CHAT, pi_profile = GENERAL_CHAT_PROFILE, pi_deadline = DL_STANDARD,
           pi_execution = ri_execution served_input\<rparr> = Inr plan"
    using served_plan by (cases "create_plan (re_digest (sv_env served_service)) d sn br (sv_profiles served_service)
          \<lparr>pi_capability = GENERAL_CHAT, pi_profile = GENERAL_CHAT_PROFILE, pi_deadline = DL_STANDARD,
           pi_execution = ri_execution served_input\<rparr>") (simp_all add: q p)
  note q p s plan
  moreover obtain x run where "gateway_execute \<lparr>gy_env = sv_env served_service, gy_bindings = br,
      gy_profiles = sv_profiles served_service, gy_deadlines = sv_deadlines served_service\<rparr> (rw_gateway served_world) plan
      (ri_request served_input) (Some \<lparr>vf_fact = ri_fact served_input, vf_turn = ri_turn served_input, vf_corpus = None\<rparr>) = Some (x, run)"
    using gateway_execute_ok by (metis prod.collapse)
  moreover have "mapRuntimeProviderRoutingContext (ri_facts served_input) = Some GENERAL_CHAT_CONTEXT"
    "aq_capability (ri_request served_input) = GENERAL_CHAT"
    by (simp_all add: served_input_def mapRuntimeProviderRoutingContext_def planned_request_def)
  ultimately show ?thesis by (simp add: runtime_execute_def runtime_gateway_def)
qed

end
