(* ===== verification/Command_Execution.thy ===== *)
theory Command_Execution
  imports Governance Regex "HOL-Library.Multiset"
begin

text \<open>
  Running commands: the command patterns of \<open>risk-policy.ts\<close>, the content hash of \<open>util/hash.ts\<close> and
  \<open>CommandExecutionManager\<close> (\<open>command-execution-manager.ts\<close>) over the \<open>command_executions\<close> table
  (\<open>SqliteCommandExecutionRepository\<close> in \<open>packages/storage-sqlite/src/index.ts\<close>).

  \<^item> The regular expressions have no \<open>u\<close> flag: they read 16-bit units.
  \<^item> The runner of processes is a parameter; a rejected call is \<open>Inl\<close> of the message. \<open>newId()\<close> and the three
    readings of \<open>now()\<close> are arguments of a run. A write of the store that fails is not modelled.
\<close>

unbundle bit_operations_syntax

section \<open>The risk of a command\<close>

definition test_units :: "rx \<Rightarrow> js_string \<Rightarrow> bool" where
  "test_units r s \<longleftrightarrow> rx_test r (map unat s)"

abbreviation word_border :: rx where
  "word_border \<equiv> rx_b fold_exact"

abbreviation literal :: "string \<Rightarrow> rx" where
  "literal \<equiv> rx_text fold_exact"

definition RM_PATTERN :: rx where
  "RM_PATTERN = rx_seq [word_border, literal ''rm'', rx_plus rx_space, literal ''-r'', rx_opt (literal ''f''), word_border]"

definition CRITICAL_PATTERNS :: "rx list" where
  "CRITICAL_PATTERNS =
    [RM_PATTERN,
     rx_seq [word_border, literal ''git'', rx_plus rx_space, literal ''push'', word_border, rx_star rx_dot,
       rx_words fold_exact [''--force'', ''-f''], word_border],
     rx_seq [word_border, literal ''git'', rx_plus rx_space, literal ''push'', rx_plus rx_space, literal ''--force''],
     rx_seq [rx_b fold_i, rx_text fold_i ''drop'', rx_plus rx_space, rx_words fold_i [''table'', ''database''], rx_b fold_i],
     rx_seq [word_border, literal ''mkfs'', word_border],
     rx_seq [word_border, literal ''dd'', rx_plus rx_space, literal ''if=''],
     rx_seq [literal '':()'', rx_star rx_space, literal ''{'', rx_star rx_dot, literal ''};:'']]"

definition HIGH_PATTERNS :: "rx list" where
  "HIGH_PATTERNS =
    [rx_seq [word_border, literal ''git'', rx_plus rx_space, literal ''commit'', word_border],
     rx_seq [word_border, literal ''git'', rx_plus rx_space, literal ''push'', word_border],
     rx_seq [word_border, literal ''gh'', rx_plus rx_space, literal ''pr'', rx_plus rx_space, literal ''create'', word_border],
     rx_seq [word_border, literal ''npm'', rx_plus rx_space, literal ''publish'', word_border],
     rx_seq [word_border, literal ''deploy'', word_border]]"

definition assessCommand :: "js_string \<Rightarrow> risk_level" where
  "assessCommand command =
     (if list_ex (\<lambda>p. test_units p command) CRITICAL_PATTERNS then CRITICAL
      else if list_ex (\<lambda>p. test_units p command) HIGH_PATTERNS then HIGH else MEDIUM)"

section \<open>Content hashes\<close>

text \<open>\<open>JSON.stringify\<close> of a string: quotes, backslashes, control characters and lone surrogates are escaped.\<close>

definition hex_digit :: "nat \<Rightarrow> 16 word" where
  "hex_digit n = word_of_nat (if n < 10 then 48 + n else 87 + n)"

definition unit_escape :: "16 word \<Rightarrow> js_string" where
  "unit_escape u = js [CHR 0x5C, CHR ''u''] @ map (\<lambda>k. hex_digit (unat (drop_bit (4 * k) u AND 15))) [3, 2, 1, 0]"

definition quote_unit :: "16 word \<Rightarrow> js_string" where
  "quote_unit u =
     (if u = 0x22 \<or> u = 0x5C then [0x5C, u]
      else if u = 8 then [0x5C, 0x62] else if u = 9 then [0x5C, 0x74] else if u = 10 then [0x5C, 0x6E]
      else if u = 12 then [0x5C, 0x66] else if u = 13 then [0x5C, 0x72]
      else if u < 0x20 then unit_escape u else [u])"

fun quote_units :: "js_string \<Rightarrow> js_string" where
  "quote_units [] = []"
| "quote_units (u # us) =
     (if is_high_surrogate u then
        (case us of [] \<Rightarrow> unit_escape u
         | v # vs \<Rightarrow> if is_low_surrogate v then u # v # quote_units vs else unit_escape u @ quote_units us)
      else if is_low_surrogate u then unit_escape u @ quote_units us
      else quote_unit u @ quote_units us)"

fun comma_separated :: "js_string list \<Rightarrow> js_string" where
  "comma_separated [] = []"
| "comma_separated [s] = s"
| "comma_separated (s # ss) = s @ 0x2C # comma_separated ss"

definition stringify_texts :: "js_string list \<Rightarrow> js_string" where
  "stringify_texts ss = js ''['' @ comma_separated (map (\<lambda>s. 0x22 # quote_units s @ [0x22]) ss) @ js '']''"

definition fnv_step :: "16 word \<Rightarrow> 32 word \<Rightarrow> 32 word" where
  "fnv_step c h = (h XOR ucast c) * 0x01000193"

definition hex_word :: "32 word \<Rightarrow> js_string" where
  "hex_word w = map (\<lambda>k. hex_digit (unat (drop_bit (4 * k) w AND 15))) [7, 6, 5, 4, 3, 2, 1, 0]"

definition contentHash :: "js_string \<Rightarrow> js_string" where
  "contentHash s = hex_word (fold fnv_step s 0x811c9dc5) @ hex_word (fold fnv_step s (0x811c9dc5 XOR 0x9e3779b9))"

section \<open>Executions\<close>

datatype workspace_kind = LOCAL_CLONE | GIT_WORKTREE

record workspace_ref =
  ws_id :: Id
  ws_project :: "Id option"
  ws_root :: js_string
  ws_kind :: workspace_kind
  ws_branch :: "js_string option"
  ws_metadata :: "json option"

datatype workspace_change_status =
  WC_PENDING | WC_APPLYING | WC_APPLIED | WC_PARTIALLY_APPLIED | WC_FAILED | WC_ROLLED_BACK

record workspace_change_ref =
  cf_id :: Id
  cf_status :: workspace_change_status

datatype command_status = CE_PENDING | CE_RUNNING | CE_SUCCEEDED | CE_FAILED | CE_TIMED_OUT

record command_execution =
  ce_id :: Id
  ce_plan :: plan_ref
  ce_approval :: "approval_ref option"
  ce_workspace :: workspace_ref
  ce_change :: "workspace_change_ref option"
  ce_command :: js_string
  ce_args :: "js_string list"
  ce_hash :: js_string
  ce_status :: command_status
  ce_exit :: "int option"
  ce_stdout :: js_string
  ce_stderr :: js_string
  ce_duration :: "int option"
  ce_risk :: risk_level
  ce_created_at :: iso
  ce_updated_at :: iso

record run_command_input =
  rc_plan :: plan_ref
  rc_approval :: "approval_ref option"
  rc_workspace :: workspace_ref
  rc_change :: "workspace_change_ref option"
  rc_command :: js_string
  rc_args :: "js_string list"
  rc_timeout :: "rat option"

record run_options =
  ro_cwd :: js_string
  ro_timeout :: rat

record run_result =
  ro_exit :: "int option"
  ro_stdout :: js_string
  ro_stderr :: js_string
  ro_timed_out :: bool

section \<open>The manager\<close>

definition DEFAULT_COMMAND_TIMEOUT_MS :: rat where "DEFAULT_COMMAND_TIMEOUT_MS = 120000"

definition DEFAULT_ALLOWED_COMMANDS :: "js_string list" where
  "DEFAULT_ALLOWED_COMMANDS = map js [''pnpm'', ''npm'', ''node'']"

definition EVAL_LONG :: rx where
  "EVAL_LONG = rx_seq [At_start, literal ''--'', rx_words fold_exact [''eval'', ''print''], Or (literal ''='') At_end]"

definition EVAL_SHORT :: rx where
  "EVAL_SHORT = rx_seq [At_start, literal ''-'', rx_star (Chars (\<lambda>c. c \<noteq> 0x2D)), Chars (\<lambda>c. c = 0x65 \<or> c = 0x70)]"

definition isNodeEvalArg :: "js_string \<Rightarrow> bool" where
  "isNodeEvalArg arg \<longleftrightarrow> test_units EVAL_LONG arg \<or> test_units EVAL_SHORT arg"

definition hasDangerousArgs :: "js_string \<Rightarrow> js_string list \<Rightarrow> bool" where
  "hasDangerousArgs command args \<longleftrightarrow> (if command = js ''node'' then list_ex isNodeEvalArg args else False)"

definition deriveStatus :: "run_result \<Rightarrow> command_status" where
  "deriveStatus r = (if ro_timed_out r then CE_TIMED_OUT else if ro_exit r = Some 0 then CE_SUCCEEDED else CE_FAILED)"

datatype command_error =
  NOT_ALLOW_LISTED | EVAL_STYLE_ARGUMENTS | CRITICAL_COMMAND | APPROVAL_REQUIRED "approval_status option"
  | APPROVAL_OF_ANOTHER_PLAN Id

text \<open>\<open>[command, ...args].join(' ')\<close>.\<close>

fun join_words :: "js_string list \<Rightarrow> js_string" where
  "join_words [] = []"
| "join_words [w] = w"
| "join_words (w # ws) = w @ 0x20 # join_words ws"

definition approval_gate :: "risk_level \<Rightarrow> plan_ref \<Rightarrow> approval_ref option \<Rightarrow> command_error + unit" where
  "approval_gate level plan approval =
     (if \<not> requiresApproval level then Inr ()
      else case approval of
        None \<Rightarrow> Inl (APPROVAL_REQUIRED None)
      | Some a \<Rightarrow>
          if af_status a \<noteq> A_APPROVED then Inl (APPROVAL_REQUIRED (Some (af_status a)))
          else if pr_id (af_plan a) \<noteq> pr_id plan then Inl (APPROVAL_OF_ANOTHER_PLAN (af_id a)) else Inr ())"

definition command_gates :: "js_string list \<Rightarrow> run_command_input \<Rightarrow> command_error + risk_level" where
  "command_gates allowed i =
     err_bind (guard_err NOT_ALLOW_LISTED (rc_command i \<in> set allowed)) (\<lambda>_.
     err_bind (guard_err EVAL_STYLE_ARGUMENTS (\<not> hasDangerousArgs (rc_command i) (rc_args i))) (\<lambda>_.
     let level = assessCommand (join_words (rc_command i # rc_args i)) in
     err_bind (guard_err CRITICAL_COMMAND (level \<noteq> CRITICAL)) (\<lambda>_.
     err_bind (approval_gate level (rc_plan i) (rc_approval i)) (\<lambda>_.
     Inr level))))"

type_synonym executions = "command_execution list"

definition save_execution :: "command_execution \<Rightarrow> executions \<Rightarrow> executions" where
  "save_execution e rows = upsert ce_id e rows"

definition get_execution :: "executions \<Rightarrow> Id \<Rightarrow> command_execution option" where
  "get_execution rows i = select ce_id rows i"

definition executions_of_plan :: "executions \<Rightarrow> Id \<Rightarrow> command_execution list" where
  "executions_of_plan rows plan = filter (\<lambda>e. pr_id (ce_plan e) = plan) rows"

definition executions_of_change :: "executions \<Rightarrow> Id \<Rightarrow> command_execution list" where
  "executions_of_change rows change = filter (\<lambda>e. map_option cf_id (ce_change e) = Some change) rows"

interpretation executions_table: keyed_store get_execution save_execution ce_id
  by unfold_locales (simp add: get_execution_def save_execution_def select_upsert)

definition base_execution :: "run_command_input \<Rightarrow> risk_level \<Rightarrow> Id \<Rightarrow> iso \<Rightarrow> command_execution" where
  "base_execution i level newId ts =
     \<lparr>ce_id = newId, ce_plan = rc_plan i, ce_approval = rc_approval i, ce_workspace = rc_workspace i, ce_change = rc_change i,
      ce_command = rc_command i, ce_args = rc_args i, ce_hash = contentHash (stringify_texts (rc_command i # rc_args i)),
      ce_status = CE_PENDING, ce_exit = None, ce_stdout = [], ce_stderr = [], ce_duration = Some 0, ce_risk = level,
      ce_created_at = ts, ce_updated_at = ts\<rparr>"

text \<open>A call of the runner, and the state: the rows, and the calls made so far.\<close>

record runner_call =
  ca_command :: js_string
  ca_args :: "js_string list"
  ca_options :: run_options

record command_state =
  cs_rows :: executions
  cs_calls :: "runner_call list"

definition start_command ::
  "js_string list \<Rightarrow> run_command_input \<Rightarrow> Id \<Rightarrow> iso \<Rightarrow> command_state \<Rightarrow> command_error + command_execution \<times> command_state" where
  "start_command allowed i newId ts s =
     err_bind (command_gates allowed i) (\<lambda>level.
     let base = base_execution i level newId ts in
     Inr (base, s\<lparr>cs_rows := save_execution (base\<lparr>ce_status := CE_RUNNING, ce_updated_at := ts\<rparr>) (cs_rows s)\<rparr>))"

definition call_of :: "run_command_input \<Rightarrow> runner_call" where
  "call_of i = \<lparr>ca_command = rc_command i, ca_args = rc_args i,
     ca_options = \<lparr>ro_cwd = ws_root (rc_workspace i),
       ro_timeout = (case rc_timeout i of None \<Rightarrow> DEFAULT_COMMAND_TIMEOUT_MS | Some t \<Rightarrow> t)\<rparr>\<rparr>"

definition call_runner :: "run_command_input \<Rightarrow> command_state \<Rightarrow> command_state" where
  "call_runner i s = s\<lparr>cs_calls := cs_calls s @ [call_of i]\<rparr>"

definition result_of :: "js_string + run_result \<Rightarrow> run_result" where
  "result_of x = (case x of Inr r \<Rightarrow> r
     | Inl message \<Rightarrow> \<lparr>ro_exit = None, ro_stdout = [], ro_stderr = message, ro_timed_out = False\<rparr>)"

definition duration_between :: "iso \<Rightarrow> iso \<Rightarrow> int option" where
  "duration_between a b = (case (date_parse a, date_parse b) of (Some x, Some y) \<Rightarrow> Some (y - x) | _ \<Rightarrow> None)"

definition finish_command ::
  "command_execution \<Rightarrow> run_result \<Rightarrow> iso \<Rightarrow> iso \<Rightarrow> command_state \<Rightarrow> command_execution \<times> command_state" where
  "finish_command base r startedAt finishedAt s =
     (let e = base\<lparr>ce_status := deriveStatus r, ce_exit := ro_exit r, ce_stdout := ro_stdout r, ce_stderr := ro_stderr r,
        ce_duration := duration_between startedAt finishedAt, ce_updated_at := finishedAt\<rparr>
      in (e, s\<lparr>cs_rows := save_execution e (cs_rows s)\<rparr>))"

text \<open>\<open>run\<close>, with the runner and its clocks as arguments.\<close>

definition run_command ::
  "js_string list \<Rightarrow> (runner_call \<Rightarrow> js_string + run_result) \<Rightarrow> run_command_input \<Rightarrow> Id \<Rightarrow> iso \<Rightarrow> iso \<Rightarrow> iso \<Rightarrow> command_state \<Rightarrow>
   command_error + command_execution \<times> command_state" where
  "run_command allowed runner i newId ts startedAt finishedAt s =
     err_bind (start_command allowed i newId ts s) (\<lambda>(base, s1).
     Inr (finish_command base (result_of (runner (call_of i))) startedAt finishedAt (call_runner i s1)))"

text \<open>
  Runs interleave: the process keeps the runs that wait for the runner to start and those the runner is busy with. A
  crash forgets both.
\<close>

type_synonym live_run = "run_command_input \<times> command_execution"

record command_system =
  cy_state :: command_state
  cy_waiting :: "live_run list"
  cy_running :: "live_run list"

definition no_commands :: command_system where
  "no_commands = \<lparr>cy_state = \<lparr>cs_rows = [], cs_calls = []\<rparr>, cy_waiting = [], cy_running = []\<rparr>"

inductive command_step :: "js_string list \<Rightarrow> command_system \<Rightarrow> command_system \<Rightarrow> bool" for allowed where
  start: "newId \<notin> ce_id ` set (cs_rows (cy_state y)) \<Longrightarrow> start_command allowed i newId ts (cy_state y) = Inr (b, s) \<Longrightarrow>
    command_step allowed y (y\<lparr>cy_state := s, cy_waiting := (i, b) # cy_waiting y\<rparr>)"
| call: "(i, b) \<in> set (cy_waiting y) \<Longrightarrow>
    command_step allowed y (y\<lparr>cy_state := call_runner i (cy_state y), cy_waiting := remove1 (i, b) (cy_waiting y),
      cy_running := (i, b) # cy_running y\<rparr>)"
| finish: "(i, b) \<in> set (cy_running y) \<Longrightarrow> finish_command b r startedAt finishedAt (cy_state y) = (e, s) \<Longrightarrow>
    command_step allowed y (y\<lparr>cy_state := s, cy_running := remove1 (i, b) (cy_running y)\<rparr>)"
| crash: "command_step allowed y (y\<lparr>cy_waiting := [], cy_running := []\<rparr>)"

inductive_simps command_step_simps: "command_step allowed y z"

definition command_history :: "js_string list \<Rightarrow> command_system \<Rightarrow> bool" where
  "command_history allowed y \<longleftrightarrow> (command_step allowed)\<^sup>*\<^sup>* no_commands y"

text \<open>\<open>run\<close> is a start, a call and an end.\<close>

lemma run_command_is_steps:
  assumes "newId \<notin> ce_id ` set (cs_rows s)"
    "run_command allowed runner i newId ts startedAt finishedAt s = Inr (e, s')"
  shows "(command_step allowed)\<^sup>*\<^sup>* \<lparr>cy_state = s, cy_waiting = [], cy_running = []\<rparr> \<lparr>cy_state = s', cy_waiting = [], cy_running = []\<rparr>"
proof -
  obtain b s1 where b: "start_command allowed i newId ts s = Inr (b, s1)"
    "finish_command b (result_of (runner (call_of i))) startedAt finishedAt (call_runner i s1) = (e, s')"
    using assms(2) by (auto simp: run_command_def err_bind_Inr_iff)
  have "command_step allowed \<lparr>cy_state = s, cy_waiting = [], cy_running = []\<rparr> \<lparr>cy_state = s1, cy_waiting = [(i, b)], cy_running = []\<rparr>"
    using command_step.start [of newId "\<lparr>cy_state = s, cy_waiting = [], cy_running = []\<rparr>" allowed i ts b s1] assms(1) b(1) by simp
  moreover have "command_step allowed \<lparr>cy_state = s1, cy_waiting = [(i, b)], cy_running = []\<rparr>
      \<lparr>cy_state = call_runner i s1, cy_waiting = [], cy_running = [(i, b)]\<rparr>"
    using command_step.call [of i b "\<lparr>cy_state = s1, cy_waiting = [(i, b)], cy_running = []\<rparr>" allowed] by simp
  moreover have "command_step allowed \<lparr>cy_state = call_runner i s1, cy_waiting = [], cy_running = [(i, b)]\<rparr>
      \<lparr>cy_state = s', cy_waiting = [], cy_running = []\<rparr>"
    using command_step.finish [of i b "\<lparr>cy_state = call_runner i s1, cy_waiting = [], cy_running = [(i, b)]\<rparr>"] b(2) by simp
  ultimately show ?thesis by (meson converse_rtranclp_into_rtranclp r_into_rtranclp)
qed

section \<open>Every process has passed the gates\<close>

definition gated :: "js_string list \<Rightarrow> command_execution \<Rightarrow> bool" where
  "gated allowed e \<longleftrightarrow> ce_command e \<in> set allowed \<and> \<not> hasDangerousArgs (ce_command e) (ce_args e) \<and>
     ce_risk e = assessCommand (join_words (ce_command e # ce_args e)) \<and> ce_risk e \<noteq> CRITICAL \<and>
     (if ce_risk e = HIGH
      then map_option af_status (ce_approval e) = Some A_APPROVED \<and>
        map_option (\<lambda>a. pr_id (af_plan a)) (ce_approval e) = Some (pr_id (ce_plan e))
      else ce_risk e = MEDIUM) \<and>
     ce_hash e = contentHash (stringify_texts (ce_command e # ce_args e))"

lemma gated_update [simp]:
  "gated allowed (e\<lparr>ce_status := st\<rparr>) = gated allowed e"
  "gated allowed (e\<lparr>ce_updated_at := ts\<rparr>) = gated allowed e"
  "gated allowed (e\<lparr>ce_exit := x\<rparr>) = gated allowed e"
  "gated allowed (e\<lparr>ce_stdout := t\<rparr>) = gated allowed e"
  "gated allowed (e\<lparr>ce_stderr := t\<rparr>) = gated allowed e"
  "gated allowed (e\<lparr>ce_duration := d\<rparr>) = gated allowed e"
  by (simp_all add: gated_def)

lemma command_gates_gated:
  assumes "command_gates allowed i = Inr level"
  shows "gated allowed (base_execution i level newId ts)"
proof -
  have c: "rc_command i \<in> set allowed" "\<not> hasDangerousArgs (rc_command i) (rc_args i)"
    "level = assessCommand (join_words (rc_command i # rc_args i))" "level \<noteq> CRITICAL"
    "approval_gate level (rc_plan i) (rc_approval i) = Inr ()"
    using assms by (auto simp: command_gates_def err_bind_Inr_iff Let_def)
  have "level = HIGH \<or> level = MEDIUM" using c(3,4) by (auto simp: assessCommand_def split: if_splits)
  moreover have "level = HIGH \<Longrightarrow> \<exists>a. rc_approval i = Some a \<and> af_status a = A_APPROVED \<and> pr_id (af_plan a) = pr_id (rc_plan i)"
    using c(5) by (auto simp: approval_gate_def requiresApproval_def split: option.splits if_splits)
  ultimately show ?thesis using c(1-4) by (auto simp: gated_def base_execution_def)
qed

definition same_command :: "command_execution \<Rightarrow> command_execution \<Rightarrow> bool" where
  "same_command e b \<longleftrightarrow> ce_command e = ce_command b \<and> ce_args e = ce_args b"

definition live_ok :: "js_string list \<Rightarrow> executions \<Rightarrow> live_run \<Rightarrow> bool" where
  "live_ok allowed rows l \<longleftrightarrow> gated allowed (snd l) \<and> ce_command (snd l) = rc_command (fst l) \<and> ce_args (snd l) = rc_args (fst l) \<and>
     (\<exists>e. get_execution rows (ce_id (snd l)) = Some e \<and> same_command e (snd l) \<and> ce_status e = CE_RUNNING)"

definition call_recorded :: "executions \<Rightarrow> runner_call \<Rightarrow> bool" where
  "call_recorded rows c \<longleftrightarrow> list_ex (\<lambda>e. ce_command e = ca_command c \<and> ce_args e = ca_args c) rows"

definition live_runs :: "command_system \<Rightarrow> live_run list" where
  "live_runs y = cy_waiting y @ cy_running y"

definition command_inv :: "js_string list \<Rightarrow> command_system \<Rightarrow> bool" where
  "command_inv allowed y \<longleftrightarrow> (let rows = cs_rows (cy_state y); calls = cs_calls (cy_state y) in
     distinct (map ce_id rows) \<and> list_all (\<lambda>e. gated allowed e \<and> ce_status e \<noteq> CE_PENDING) rows \<and>
     list_all (live_ok allowed rows) (live_runs y) \<and> distinct (map (\<lambda>l. ce_id (snd l)) (live_runs y)) \<and>
     list_all (call_recorded rows) calls \<and> length calls + length (cy_waiting y) \<le> length rows)"

lemma upsert_length: "f r \<in> f ` set rows \<Longrightarrow> length (upsert f r rows) = length rows"
  by (induction rows) auto

text \<open>Replacing a row by one of the same command keeps the records of the calls.\<close>

lemma call_recorded_upsert:
  assumes "call_recorded rows c" "get_execution rows (ce_id e) = Some e0" "same_command e0 e" "distinct (map ce_id rows)"
  shows "call_recorded (save_execution e rows) c"
proof -
  obtain r where r: "r \<in> set rows" "ce_command r = ca_command c" "ce_args r = ca_args c"
    using assms(1) by (auto simp: call_recorded_def list_ex_iff)
  show ?thesis
  proof (cases "ce_id r = ce_id e")
    case True
    then have "r = e0" using select_mem [OF assms(4) r(1)] assms(2) by (simp add: get_execution_def)
    with r assms(3) show ?thesis by (auto simp: call_recorded_def list_ex_iff save_execution_def same_command_def intro!: bexI [of _ e])
  next
    case False
    then have "r \<in> set (save_execution e rows)" using r(1) by (simp add: save_execution_def upsert_other)
    with r(2,3) show ?thesis by (auto simp: call_recorded_def list_ex_iff)
  qed
qed

lemma upsert_all: "list_all P rows \<Longrightarrow> P r \<Longrightarrow> list_all P (upsert f r rows)"
  by (auto simp: list_all_iff dest: upsert_set)

lemma live_ok_other:
  assumes "live_ok allowed rows l" "ce_id e \<noteq> ce_id (snd l)"
  shows "live_ok allowed (save_execution e rows) l"
  using assms executions_table.get_save by (auto simp: live_ok_def)

lemma start_keeps_inv:
  assumes "command_inv allowed y" "newId \<notin> ce_id ` set (cs_rows (cy_state y))"
    "start_command allowed i newId ts (cy_state y) = Inr (b, s)"
  shows "command_inv allowed (y\<lparr>cy_state := s, cy_waiting := (i, b) # cy_waiting y\<rparr>)"
proof -
  let ?rows = "cs_rows (cy_state y)"
  obtain level where level: "command_gates allowed i = Inr level" "b = base_execution i level newId ts"
    "s = (cy_state y)\<lparr>cs_rows := save_execution (b\<lparr>ce_status := CE_RUNNING, ce_updated_at := ts\<rparr>) ?rows\<rparr>"
    using assms(3) by (auto simp: start_command_def err_bind_Inr_iff Let_def)
  define e where "e = b\<lparr>ce_status := CE_RUNNING, ce_updated_at := ts\<rparr>"
  have b: "gated allowed b" "ce_id b = newId" "ce_command b = rc_command i" "ce_args b = rc_args i"
    using command_gates_gated [OF level(1)] by (simp_all add: level(2) base_execution_def)
  have e: "ce_id e = newId" "gated allowed e" "ce_status e = CE_RUNNING" "same_command e b"
    using b by (simp_all add: e_def same_command_def)
  have rows: "save_execution e ?rows = ?rows @ [e]"
    using assms(2) e(1) by (simp add: save_execution_def upsert_fresh)
  have inv: "distinct (map ce_id ?rows)" "list_all (\<lambda>e. gated allowed e \<and> ce_status e \<noteq> CE_PENDING) ?rows"
    "list_all (live_ok allowed ?rows) (live_runs y)" "distinct (map (\<lambda>l. ce_id (snd l)) (live_runs y))"
    "list_all (call_recorded ?rows) (cs_calls (cy_state y))"
    "length (cs_calls (cy_state y)) + length (cy_waiting y) \<le> length ?rows"
    using assms(1) by (simp_all add: command_inv_def Let_def)
  have other: "ce_id (snd l) \<noteq> newId" if "l \<in> set (live_runs y)" for l
  proof -
    have "live_ok allowed ?rows l" using inv(3) that by (simp add: list_all_iff)
    then obtain e where "e \<in> set ?rows" "ce_id e = ce_id (snd l)"
      by (auto simp: live_ok_def get_execution_def dest!: select_SomeD)
    then show ?thesis using assms(2) by (metis image_eqI)
  qed
  then have fresh_live: "newId \<notin> (\<lambda>l. ce_id (snd l)) ` set (live_runs y)" by blast
  have "live_ok allowed (save_execution e ?rows) l" if "l \<in> set (live_runs y)" for l
    using inv(3) that other [OF that] e(1) by (intro live_ok_other) (auto simp: list_all_iff)
  moreover have "live_ok allowed (save_execution e ?rows) (i, b)"
    using b e executions_table.get_save by (simp add: live_ok_def)
  moreover have "list_all (call_recorded (save_execution e ?rows)) (cs_calls (cy_state y))"
    using inv(5) by (auto simp: rows call_recorded_def list_all_iff)
  ultimately show ?thesis
    using inv e b fresh_live assms(2) unfolding command_inv_def Let_def level(3) e_def [symmetric]
    by (simp add: rows live_runs_def list_all_iff ball_Un image_Un)
qed

lemma call_keeps_inv:
  assumes "command_inv allowed y" "(i, b) \<in> set (cy_waiting y)"
  shows "command_inv allowed (y\<lparr>cy_state := call_runner i (cy_state y), cy_waiting := remove1 (i, b) (cy_waiting y),
      cy_running := (i, b) # cy_running y\<rparr>)"
proof -
  let ?rows = "cs_rows (cy_state y)"
  let ?z = "y\<lparr>cy_state := call_runner i (cy_state y), cy_waiting := remove1 (i, b) (cy_waiting y), cy_running := (i, b) # cy_running y\<rparr>"
  have inv: "list_all (live_ok allowed ?rows) (live_runs y)" "distinct (map (\<lambda>l. ce_id (snd l)) (live_runs y))"
    "list_all (call_recorded ?rows) (cs_calls (cy_state y))"
    "length (cs_calls (cy_state y)) + length (cy_waiting y) \<le> length ?rows"
    using assms(1) by (simp_all add: command_inv_def Let_def)
  have perm: "mset (live_runs ?z) = mset (live_runs y)" using insert_DiffM [of "(i, b)" "mset (cy_waiting y)"] assms(2) by (simp add: live_runs_def)
  then have "mset (map (\<lambda>l. ce_id (snd l)) (live_runs ?z)) = mset (map (\<lambda>l. ce_id (snd l)) (live_runs y))" by simp
  then have ids: "distinct (map (\<lambda>l. ce_id (snd l)) (live_runs ?z))" using inv(2) by (metis mset_eq_imp_distinct_iff)
  have live: "list_all (live_ok allowed ?rows) (live_runs ?z)"
    using inv(1) mset_eq_setD [OF perm] by (simp add: list_all_iff)
  have "live_ok allowed ?rows (i, b)" using inv(1) assms(2) by (simp add: list_all_iff live_runs_def)
  then have "call_recorded ?rows (call_of i)"
    by (auto simp: live_ok_def same_command_def call_recorded_def call_of_def get_execution_def list_ex_iff dest!: select_SomeD)
  moreover have "Suc (length (cs_calls (cy_state y)) + (length (cy_waiting y) - Suc 0)) \<le> length ?rows"
    using inv(4) length_pos_if_in_set [OF assms(2)] by linarith
  ultimately show ?thesis
    using assms ids live
    by (simp add: command_inv_def Let_def call_runner_def length_remove1)
qed

lemma finish_keeps_inv:
  assumes "command_inv allowed y" "(i, b) \<in> set (cy_running y)" "finish_command b r startedAt finishedAt (cy_state y) = (e, s)"
  shows "command_inv allowed (y\<lparr>cy_state := s, cy_running := remove1 (i, b) (cy_running y)\<rparr>)"
proof -
  let ?rows = "cs_rows (cy_state y)" and ?z = "y\<lparr>cy_state := s, cy_running := remove1 (i, b) (cy_running y)\<rparr>"
  have inv: "distinct (map ce_id ?rows)" "list_all (\<lambda>e. gated allowed e \<and> ce_status e \<noteq> CE_PENDING) ?rows"
    "list_all (live_ok allowed ?rows) (live_runs y)" "distinct (map (\<lambda>l. ce_id (snd l)) (live_runs y))"
    "list_all (call_recorded ?rows) (cs_calls (cy_state y))"
    "length (cs_calls (cy_state y)) + length (cy_waiting y) \<le> length ?rows"
    using assms(1) by (simp_all add: command_inv_def Let_def)
  have s: "s = (cy_state y)\<lparr>cs_rows := save_execution e ?rows\<rparr>"
    and e: "ce_id e = ce_id b" "gated allowed e = gated allowed b" "same_command b e" "ce_status e \<noteq> CE_PENDING"
    using assms(3) by (auto simp: finish_command_def Let_def same_command_def deriveStatus_def split: if_splits)
  have lb: "live_ok allowed ?rows (i, b)" using inv(3) assms(2) by (simp add: list_all_iff live_runs_def)
  then obtain e0 where e0: "get_execution ?rows (ce_id e) = Some e0" "same_command e0 e"
    using e(1,3) by (auto simp: live_ok_def same_command_def)
  have "gated allowed e" using lb e(2) by (simp add: live_ok_def)
  then have all: "list_all (\<lambda>e. gated allowed e \<and> ce_status e \<noteq> CE_PENDING) (save_execution e ?rows)"
    unfolding save_execution_def using inv(2) e(4) by (intro upsert_all) auto
  have len: "length (save_execution e ?rows) = length ?rows"
    unfolding save_execution_def using e0(1) by (intro upsert_length) (metis get_execution_def image_eqI select_SomeD)
  have calls: "list_all (call_recorded (save_execution e ?rows)) (cs_calls (cy_state y))"
    using inv(5) call_recorded_upsert [OF _ e0 inv(1)] by (simp add: list_all_iff)
  have "mset (live_runs y) = mset ((i, b) # live_runs ?z)"
    using insert_DiffM [of "(i, b)" "mset (cy_running y)"] assms(2) by (simp add: live_runs_def)
  then have ids: "distinct (map (\<lambda>l. ce_id (snd l)) ((i, b) # live_runs ?z))" and set: "set (live_runs ?z) \<subseteq> set (live_runs y)"
    using inv(4) mset_eq_setD by (metis mset_map mset_eq_imp_distinct_iff) (auto simp: live_runs_def dest: notin_set_remove1)
  have "live_ok allowed (save_execution e ?rows) l" if "l \<in> set (live_runs ?z)" for l
    using inv(3) that set ids e(1) by (intro live_ok_other) (auto simp: list_all_iff)
  then show ?thesis
    using all len calls ids inv(1,6) upsert_distinct unfolding command_inv_def Let_def
    by (auto simp: s list_all_iff save_execution_def)
qed

lemma command_step_keeps_inv: "command_step allowed y z \<Longrightarrow> command_inv allowed y \<Longrightarrow> command_inv allowed z"
proof (induction rule: command_step.induct)
  case (crash y)
  then show ?case by (simp add: command_inv_def Let_def live_runs_def)
qed (auto intro: start_keeps_inv call_keeps_inv finish_keeps_inv)

lemma command_history_inv: "command_history allowed y \<Longrightarrow> command_inv allowed y"
  unfolding command_history_def
proof (induction rule: rtranclp_induct)
  case base
  show ?case by (simp add: command_inv_def no_commands_def live_runs_def)
next
  case (step y z)
  then show ?case using command_step_keeps_inv by blast
qed

text \<open>C33. Whatever runs are started, interleaved and cut off by crashes: every command handed to the runner has a record with
  the same command and arguments, there are never more calls than records, and every record is of an allow-listed command
  without eval-style arguments whose risk is not CRITICAL and, when it is HIGH, of an approval that is APPROVED and scoped
  to the plan of the run; its hash is the hash of the command line.\<close>

theorem every_process_passed_the_gates:
  assumes "command_history allowed y"
  shows "list_all (gated allowed) (cs_rows (cy_state y)) \<and>
    list_all (\<lambda>c. list_ex (\<lambda>e. ce_command e = ca_command c \<and> ce_args e = ca_args c) (cs_rows (cy_state y))) (cs_calls (cy_state y)) \<and>
    length (cs_calls (cy_state y)) \<le> length (cs_rows (cy_state y)) \<and> distinct (map ce_id (cs_rows (cy_state y)))"
  using command_history_inv [OF assms] by (auto simp: command_inv_def Let_def call_recorded_def list_all_iff)

section \<open>A destructive command is never run\<close>

lemma match_seq: "rx_match r u v (x @ w) \<Longrightarrow> rx_match (rx_seq rs) (u @ v) x w \<Longrightarrow> rx_match (rx_seq (r # rs)) u (v @ x) w"
  by (simp add: rx_seq_def rx_match.cat)

lemma match_seq_end: "rx_match (rx_seq []) u [] w"
  by (simp add: rx_seq_def rx_match.blank)

lemma unat_js_char: "unat (word_of_nat (of_char c) :: 16 word) = of_char c"
proof -
  have "(of_char c :: nat) < 256" by simp
  then have "(of_char c :: nat) < 2 ^ LENGTH(16)" by (rule less_le_trans) simp
  then have "(of_char c :: nat) mod 2 ^ LENGTH(16) = of_char c" by (rule mod_less)
  then show ?thesis by (simp add: unat_of_nat)
qed

lemma match_literal: "rx_match (literal s) u (map unat (js s)) w"
proof (induction s arbitrary: u)
  case Nil
  then show ?case by (simp add: rx_text_def js_def match_seq_end)
next
  case (Cons c s)
  have "rx_match (Chars (\<lambda>x. fold_exact x = of_char c)) u [of_char c] (map unat (js s) @ w)"
    by (rule rx_match.chars) (simp add: fold_exact_def)
  from match_seq [OF this, of "map (\<lambda>c. Chars (\<lambda>x. fold_exact x = of_char c)) s"] Cons [of "u @ [of_char c]"]
  show ?case by (simp add: rx_text_def js_def unat_js_char)
qed

lemma match_spaces:
  assumes "ws \<noteq> []" "list_all js_whitespace ws"
  shows "rx_match (rx_plus rx_space) u (map unat ws) w"
proof -
  have one: "rx_match rx_space u [unat c] w" if "js_whitespace c" for c u w
    using that unsigned_less [of c, where 'a = nat] unfolding rx_space_def by (intro rx_match.chars) (simp add: ws_code_def)
  have many: "rx_match (Rep 0 None rx_space) u (map unat vs) w" if "list_all js_whitespace vs" for vs u
    using that
  proof (induction vs arbitrary: u)
    case (Cons c vs)
    have "rx_match (Rep 0 None rx_space) u ([unat c] @ map unat vs) w"
      by (rule rx_match.rep_ever) (use Cons one in simp_all)
    then show ?case by simp
  qed (simp add: rx_match.rep_stop)
  obtain c vs where ws: "ws = c # vs" using assms(1) by (cases ws) auto
  have "rx_match (Rep (Suc 0) None rx_space) u ([unat c] @ map unat vs) w"
    by (rule rx_match.rep_first) (use ws assms(2) one many in simp_all)
  then show ?thesis by (simp add: rx_plus_def ws)
qed

text \<open>The characters of a word, whose borders the patterns test.\<close>

definition word_unit :: "16 word \<Rightarrow> bool" where
  "word_unit u \<longleftrightarrow> word_code fold_exact (unat u)"

lemma unat_js_literal: "map unat (js s) = map of_char s"
  by (simp add: js_def unat_js_char)

lemma border_before:
  assumes "pre = [] \<or> \<not> word_unit (last pre)" "word_code fold_exact c"
  shows "rx_match word_border (map unat pre) [] (c # w)"
proof (cases pre rule: rev_cases)
  case Nil
  then show ?thesis using assms(2) by (simp add: rx_b_def rx_match.border at_border_def)
next
  case (snoc p q)
  then show ?thesis using assms by (simp add: rx_b_def rx_match.border at_border_def word_unit_def)
qed

lemma border_after:
  assumes "post = [] \<or> \<not> word_unit (hd post)" "word_code fold_exact c"
  shows "rx_match word_border (u @ [c]) [] (map unat post)"
  using assms by (cases post) (simp_all add: rx_b_def rx_match.border at_border_def word_unit_def)

lemma rm_pattern_matches:
  assumes "ws \<noteq> []" "list_all js_whitespace ws" "pre = [] \<or> \<not> word_unit (last pre)" "post = [] \<or> \<not> word_unit (hd post)"
  shows "test_units RM_PATTERN (pre @ js ''rm'' @ ws @ js ''-rf'' @ post)"
proof -
  let ?u = "map unat pre" and ?s = "map unat ws" and ?w = "map unat post"
  have words: "word_code fold_exact (of_char CHR ''r'')" "word_code fold_exact (of_char CHR ''f'')" by code_simp+
  have f: "rx_match (rx_opt (literal ''f'')) u (map unat (js ''f'')) w" for u w
  proof -
    have "rx_match (Rep 0 (Some (Suc 0)) (literal ''f'')) u (map unat (js ''f'') @ []) w"
      by (intro rx_match.rep_more match_literal rx_match.rep_stop)
    then show ?thesis by (simp add: rx_opt_def)
  qed
  have "rx_match RM_PATTERN ?u ([] @ map unat (js ''rm'') @ ?s @ map unat (js ''-r'') @ map unat (js ''f'') @ [] @ []) ?w"
    unfolding RM_PATTERN_def
  proof (intro match_seq match_seq_end match_literal match_spaces f assms(1,2))
    show "rx_match word_border ?u [] ((map unat (js ''rm'') @ ?s @ map unat (js ''-r'') @ map unat (js ''f'') @ [] @ []) @ ?w)"
      using border_before [OF assms(3) words(1)] by (simp add: unat_js_literal)
    show "rx_match word_border (((((?u @ []) @ map unat (js ''rm'')) @ ?s) @ map unat (js ''-r'')) @ map unat (js ''f'')) [] ([] @ ?w)"
      using border_after [OF assms(4) words(2), of "?u @ map unat (js ''rm'') @ ?s @ map unat (js ''-r'')"] by (simp add: unat_js_literal)
  qed
  moreover have "map unat (pre @ js ''rm'' @ ws @ js ''-rf'' @ post) =
      ?u @ ([] @ map unat (js ''rm'') @ ?s @ map unat (js ''-r'') @ map unat (js ''f'') @ [] @ []) @ ?w"
    by (simp add: unat_js_literal)
  ultimately show ?thesis unfolding test_units_def rx_test_iff by blast
qed

text \<open>A command line with \<open>rm -rf\<close> in it (its two words next to each other, apart from white space, and no longer words)
  is refused, whatever is around it and whatever the allow-list and the approval say, and nothing is written.\<close>

theorem rm_rf_is_refused:
  assumes "join_words (rc_command i # rc_args i) = pre @ js ''rm'' @ ws @ js ''-rf'' @ post" "ws \<noteq> []" "list_all js_whitespace ws"
    "pre = [] \<or> \<not> word_unit (last pre)" "post = [] \<or> \<not> word_unit (hd post)"
  shows "assessCommand (join_words (rc_command i # rc_args i)) = CRITICAL \<and>
    (\<exists>e. run_command allowed runner i newId ts startedAt finishedAt s = Inl e)"
proof -
  have "assessCommand (join_words (rc_command i # rc_args i)) = CRITICAL"
    using rm_pattern_matches [OF assms(2-5)] by (simp add: assms(1) assessCommand_def CRITICAL_PATTERNS_def)
  then show ?thesis
    by (cases "rc_command i \<in> set allowed"; cases "hasDangerousArgs (rc_command i) (rc_args i)")
      (simp_all add: run_command_def start_command_def command_gates_def)
qed

section \<open>An example\<close>

definition sample_plan_ref :: plan_ref where
  "sample_plan_ref = \<lparr>pr_id = ''plan'', pr_goal = [], pr_integrity = None\<rparr>"

definition sample_run :: "js_string list \<Rightarrow> run_command_input" where
  "sample_run args = \<lparr>rc_plan = sample_plan_ref, rc_approval = None,
     rc_workspace = \<lparr>ws_id = ''w'', ws_project = None, ws_root = js ''/w'', ws_kind = LOCAL_CLONE, ws_branch = None, ws_metadata = None\<rparr>,
     rc_change = None, rc_command = js ''npm'', rc_args = args, rc_timeout = None\<rparr>"

definition sample_state :: command_state where
  "sample_state = \<lparr>cs_rows = [], cs_calls = []\<rparr>"

lemma rm_rf_is_refused_witness:
  "\<exists>e. run_command DEFAULT_ALLOWED_COMMANDS (\<lambda>_. Inl []) (sample_run [js ''x'', js ''rm'', js ''-rf'', js ''/'']) ''1''
     (Canon 0) (Canon 0) (Canon 0) sample_state = Inl e"
proof -
  have line: "join_words (rc_command (sample_run [js ''x'', js ''rm'', js ''-rf'', js ''/'']) #
      rc_args (sample_run [js ''x'', js ''rm'', js ''-rf'', js ''/''])) = js ''npm x '' @ js ''rm'' @ js '' '' @ js ''-rf'' @ js '' /''"
    by code_simp
  have "js '' '' \<noteq> []" "list_all js_whitespace (js '' '')"
    "js ''npm x '' = [] \<or> \<not> word_unit (last (js ''npm x ''))" "js '' /'' = [] \<or> \<not> word_unit (hd (js '' /''))"
    by code_simp+
  from rm_rf_is_refused [OF line this] show ?thesis by blast
qed

definition sample_pnpm :: run_command_input where
  "sample_pnpm = (sample_run [])\<lparr>rc_command := js ''pnpm''\<rparr>"

lemma sample_gates: "command_gates DEFAULT_ALLOWED_COMMANDS sample_pnpm = Inr MEDIUM"
  by code_simp

lemma sample_runs:
  "(case run_command DEFAULT_ALLOWED_COMMANDS (\<lambda>_. Inr \<lparr>ro_exit = Some 0, ro_stdout = [], ro_stderr = [], ro_timed_out = False\<rparr>)
     sample_pnpm ''1'' (Canon 0) (Canon 1) (Canon 5) sample_state of Inl _ \<Rightarrow> False
    | Inr (e, s) \<Rightarrow> ce_status e = CE_SUCCEEDED \<and> ce_duration e = Some 4 \<and> length (cs_calls s) = 1)"
  by (simp add: run_command_def start_command_def sample_gates finish_command_def Let_def result_of_def deriveStatus_def
      duration_between_def call_runner_def sample_state_def)

lemma every_process_passed_the_gates_witness:
  "\<exists>s :: command_state. length (cs_calls s) = 1 \<and> list_all (gated DEFAULT_ALLOWED_COMMANDS) (cs_rows s)"
proof -
  obtain e s where s: "run_command DEFAULT_ALLOWED_COMMANDS (\<lambda>_. Inr \<lparr>ro_exit = Some 0, ro_stdout = [], ro_stderr = [], ro_timed_out = False\<rparr>)
     sample_pnpm ''1'' (Canon 0) (Canon 1) (Canon 5) sample_state = Inr (e, s)" "length (cs_calls s) = 1"
    using sample_runs by (auto split: sum.splits)
  have "command_history DEFAULT_ALLOWED_COMMANDS \<lparr>cy_state = s, cy_waiting = [], cy_running = []\<rparr>"
    using run_command_is_steps [OF _ s(1)] by (simp add: command_history_def no_commands_def sample_state_def)
  from every_process_passed_the_gates [OF this] s(2) show ?thesis by (intro exI [of _ s]) simp
qed

end
