(* ===== verification/Workspace_Writes.thy ===== *)
theory Workspace_Writes
  imports Command_Execution
begin

text \<open>
  Patches and their application: \<open>patch-manager.ts\<close> and \<open>workspace-write-manager.ts\<close> (under
  \<open>packages/core/src/application\<close>) over the \<open>patches\<close> and \<open>workspace_changes\<close> tables.

  \<^item> The writer of files is a parameter: it never throws, by its contract, and encodes failures in its result.
  \<^item> A metadata value of an operation is the one \<open>generate\<close> writes, \<open>{ binary: true }\<close>, or absent.
  \<^item> Calls of the manager come one at a time; a crash may cut each of them off after any of its effects. An
    integrity that is absent is \<open>undefined\<close>, not \<open>null\<close>.
\<close>

section \<open>Patches\<close>

datatype patch_kind = PK_ADD | PK_UPDATE | PK_DELETE

record patch_operation =
  po_path :: js_string
  po_kind :: patch_kind
  po_diff :: js_string
  po_binary :: bool

datatype patch_status = PATCH_GENERATED

record patch_set =
  ps_id :: Id
  ps_plan :: plan_ref
  ps_approval :: approval_ref
  ps_operations :: "patch_operation list"
  ps_status :: patch_status
  ps_created_at :: iso

record patch_ref =
  pf_id :: Id
  pf_status :: patch_status

definition patchRef :: "patch_set \<Rightarrow> patch_ref" where
  "patchRef s = \<lparr>pf_id = ps_id s, pf_status = ps_status s\<rparr>"

datatype diff_kind = DK_ADD | DK_MODIFY | DK_DELETE

record proposed_change =
  pg_path :: js_string
  pg_content :: "js_string option"
  pg_delete :: bool

record file_diff =
  fd_path :: js_string
  fd_kind :: diff_kind
  fd_unified :: js_string
  fd_binary :: bool

record patch_input =
  pn_plan :: plan_ref
  pn_approval :: approval_ref
  pn_changes :: "proposed_change list"
  pn_diff :: "file_diff list"

datatype write_error =
  WRITE_NOT_APPROVED approval_status | WRITE_OTHER_PLAN Id | NO_DIFF js_string | OTHER_REVISION Id

definition sameExecutionPlanRef :: "plan_ref \<Rightarrow> plan_ref \<Rightarrow> bool" where
  "sameExecutionPlanRef l r \<longleftrightarrow>
     (if pr_id l \<noteq> pr_id r then False
      else case (pr_integrity l, pr_integrity r) of
        (Some a, Some b) \<Rightarrow> ir_kind a = ir_kind b \<and> ir_contract_version a = ir_contract_version b \<and> ir_digest a = ir_digest b
      | (None, None) \<Rightarrow> True
      | _ \<Rightarrow> False)"

fun toOperationKind :: "diff_kind \<Rightarrow> patch_kind" where
  "toOperationKind DK_MODIFY = PK_UPDATE"
| "toOperationKind DK_ADD = PK_ADD"
| "toOperationKind DK_DELETE = PK_DELETE"

text \<open>\<open>new Map(files.map(f => [f.path, f]))\<close> keeps the last diff of a path.\<close>

definition diff_of :: "file_diff list \<Rightarrow> js_string \<Rightarrow> file_diff option" where
  "diff_of files path = List.find (\<lambda>f. fd_path f = path) (rev files)"

definition operation_of :: "file_diff list \<Rightarrow> proposed_change \<Rightarrow> write_error + patch_operation" where
  "operation_of files c = (case diff_of files (pg_path c) of
     None \<Rightarrow> Inl (NO_DIFF (pg_path c))
   | Some f \<Rightarrow> Inr \<lparr>po_path = fd_path f, po_kind = toOperationKind (fd_kind f), po_diff = fd_unified f, po_binary = fd_binary f\<rparr>)"

definition approved_for :: "approval_ref \<Rightarrow> plan_ref \<Rightarrow> write_error + unit" where
  "approved_for a plan =
     err_bind (guard_err (WRITE_NOT_APPROVED (af_status a)) (af_status a = A_APPROVED)) (\<lambda>_.
     guard_err (WRITE_OTHER_PLAN (af_id a)) (sameExecutionPlanRef (af_plan a) plan))"

type_synonym patches = "patch_set list"

definition save_patch :: "patch_set \<Rightarrow> patches \<Rightarrow> patches" where
  "save_patch s rows = upsert ps_id s rows"

definition get_patch :: "patches \<Rightarrow> Id \<Rightarrow> patch_set option" where
  "get_patch rows i = select ps_id rows i"

definition patches_of_plan :: "patches \<Rightarrow> Id \<Rightarrow> patch_set list" where
  "patches_of_plan rows plan = filter (\<lambda>s. pr_id (ps_plan s) = plan) rows"

interpretation patches_table: keyed_store get_patch save_patch ps_id
  by unfold_locales (simp add: get_patch_def save_patch_def select_upsert)

definition generate_patch :: "patches \<Rightarrow> patch_input \<Rightarrow> Id \<Rightarrow> iso \<Rightarrow> write_error + patches \<times> patch_set" where
  "generate_patch rows i newId ts =
     err_bind (approved_for (pn_approval i) (pn_plan i)) (\<lambda>_.
     err_bind (traverse (operation_of (pn_diff i)) (pn_changes i)) (\<lambda>ops.
     let s = \<lparr>ps_id = newId, ps_plan = pn_plan i, ps_approval = pn_approval i, ps_operations = ops,
              ps_status = PATCH_GENERATED, ps_created_at = ts\<rparr>
     in Inr (save_patch s rows, s)))"

section \<open>Changes\<close>

datatype file_status = FS_APPLIED | FS_FAILED | FS_SKIPPED | FS_ROLLED_BACK

record file_result =
  fr_path :: js_string
  fr_kind :: patch_kind
  fr_status :: file_status
  fr_message :: js_string
  fr_duration :: rat

record workspace_change =
  wx_id :: Id
  wx_patch :: patch_ref
  wx_hash :: js_string
  wx_plan :: plan_ref
  wx_approval :: approval_ref
  wx_workspace :: workspace_ref
  wx_status :: workspace_change_status
  wx_results :: "file_result list"
  wx_created_at :: iso
  wx_updated_at :: iso

datatype change_set_outcome = OUT_APPLIED | OUT_ROLLED_BACK | OUT_ROLLBACK_FAILED

record change_set_result =
  sr_outcome :: change_set_outcome
  sr_results :: "file_result list"

record apply_input =
  ai_patch :: patch_set
  ai_approval :: approval_ref
  ai_workspace :: workspace_ref

definition derive_change_status :: "file_result list \<Rightarrow> workspace_change_status" where
  "derive_change_status results =
     (let applied = length (filter (\<lambda>r. fr_status r = FS_APPLIED) results) in
      if applied = length results then WC_APPLIED else if applied = 0 then WC_FAILED else WC_PARTIALLY_APPLIED)"

definition isChangeSetRetryable :: "workspace_change_status \<Rightarrow> bool" where
  "isChangeSetRetryable st \<longleftrightarrow> st = WC_FAILED \<or> st = WC_ROLLED_BACK"

definition result_matches :: "patch_operation \<Rightarrow> file_result \<Rightarrow> bool" where
  "result_matches op r \<longleftrightarrow> fr_status r = FS_APPLIED \<and> fr_path r = po_path op \<and> fr_kind r = po_kind op"

definition deriveChangeSetStatus :: "patch_operation list \<Rightarrow> change_set_result \<Rightarrow> workspace_change_status" where
  "deriveChangeSetStatus ops r =
     (if sr_outcome r = OUT_ROLLED_BACK then WC_ROLLED_BACK
      else if sr_outcome r = OUT_ROLLBACK_FAILED then WC_PARTIALLY_APPLIED
      else if list_all2 result_matches ops (sr_results r) then WC_APPLIED else WC_PARTIALLY_APPLIED)"

text \<open>\<open>JSON.stringify(operations)\<close>, with the members in the order in which \<open>generate\<close> makes them.\<close>

fun kind_text :: "patch_kind \<Rightarrow> string" where
  "kind_text PK_ADD = ''add''"
| "kind_text PK_UPDATE = ''update''"
| "kind_text PK_DELETE = ''delete''"

definition quoted :: "js_string \<Rightarrow> js_string" where
  "quoted s = 0x22 # quote_units s @ [0x22]"

definition operation_json :: "patch_operation \<Rightarrow> js_string" where
  "operation_json op = js ''{'' @ quoted (js ''path'') @ js '':'' @ quoted (po_path op) @
     js '','' @ quoted (js ''operation'') @ js '':'' @ quoted (js (kind_text (po_kind op))) @
     js '','' @ quoted (js ''diff'') @ js '':'' @ quoted (po_diff op) @
     (if po_binary op then js '','' @ quoted (js ''metadata'') @ js '':{'' @ quoted (js ''binary'') @ js '':true}'' else []) @ js ''}''"

definition patch_hash :: "patch_set \<Rightarrow> js_string" where
  "patch_hash s = contentHash (js ''['' @ comma_separated (map operation_json (ps_operations s)) @ js '']'')"

type_synonym changes = "workspace_change list"

definition save_change :: "workspace_change \<Rightarrow> changes \<Rightarrow> changes" where
  "save_change c rows = upsert wx_id c rows"

definition get_change :: "changes \<Rightarrow> Id \<Rightarrow> workspace_change option" where
  "get_change rows i = select wx_id rows i"

definition changes_of_patch :: "changes \<Rightarrow> Id \<Rightarrow> workspace_change list" where
  "changes_of_patch rows p = filter (\<lambda>c. pf_id (wx_patch c) = p) rows"

interpretation changes_table: keyed_store get_change save_change wx_id
  by unfold_locales (simp add: get_change_def save_change_def select_upsert)

section \<open>The manager\<close>

text \<open>The rows, and the calls of the writer so far, each with the input it was made for.\<close>

record write_state =
  wt_rows :: changes
  wt_calls :: "(apply_input \<times> patch_operation list) list"

definition mark_applying :: "workspace_change \<Rightarrow> iso \<Rightarrow> write_state \<Rightarrow> write_state" where
  "mark_applying base ts s = s\<lparr>wt_rows := save_change (base\<lparr>wx_status := WC_APPLYING, wx_updated_at := ts\<rparr>) (wt_rows s)\<rparr>"

definition new_change :: "apply_input \<Rightarrow> Id \<Rightarrow> iso \<Rightarrow> workspace_change" where
  "new_change i newId ts =
     \<lparr>wx_id = newId, wx_patch = patchRef (ai_patch i), wx_hash = patch_hash (ai_patch i), wx_plan = ps_plan (ai_patch i),
      wx_approval = ai_approval i, wx_workspace = ai_workspace i, wx_status = WC_PENDING, wx_results = [],
      wx_created_at = ts, wx_updated_at = ts\<rparr>"

text \<open>\<open>begin\<close>; the first component of its value is \<open>done\<close>.\<close>

definition begin_write ::
  "(workspace_change_status \<Rightarrow> bool) \<Rightarrow> apply_input \<Rightarrow> Id \<Rightarrow> iso \<Rightarrow> write_state \<Rightarrow>
   write_error + bool \<times> workspace_change \<times> write_state" where
  "begin_write retryable i newId ts s =
     err_bind (approved_for (ai_approval i) (ps_plan (ai_patch i))) (\<lambda>_.
     case changes_of_patch (wt_rows s) (ps_id (ai_patch i)) of
       [] \<Rightarrow> let base = new_change i newId ts in Inr (False, base, mark_applying base ts s)
     | c # _ \<Rightarrow>
         if wx_hash c \<noteq> patch_hash (ai_patch i) then Inl (OTHER_REVISION (wx_id c))
         else if wx_status c = WC_APPLIED \<or> \<not> retryable (wx_status c) then Inr (True, c, s)
         else Inr (False, c, mark_applying c ts s))"

definition finish_write ::
  "workspace_change \<Rightarrow> apply_input \<Rightarrow> workspace_change_status \<Rightarrow> file_result list \<Rightarrow> iso \<Rightarrow> write_state \<Rightarrow>
   workspace_change \<times> write_state" where
  "finish_write base i st results ts s =
     (let c = base\<lparr>wx_approval := ai_approval i, wx_workspace := ai_workspace i, wx_status := st, wx_results := results,
        wx_updated_at := ts\<rparr>
      in (c, s\<lparr>wt_rows := save_change c (wt_rows s)\<rparr>))"

definition call_writer :: "apply_input \<Rightarrow> patch_operation list list \<Rightarrow> write_state \<Rightarrow> write_state" where
  "call_writer i batches s = s\<lparr>wt_calls := wt_calls s @ map (Pair i) batches\<rparr>"

text \<open>\<open>apply\<close>: one call of the writer for each operation; \<open>writer k\<close> answers the \<open>k\<close>-th.\<close>

definition apply_patch ::
  "(nat \<Rightarrow> patch_operation \<Rightarrow> file_result) \<Rightarrow> apply_input \<Rightarrow> Id \<Rightarrow> iso \<Rightarrow> iso \<Rightarrow> write_state \<Rightarrow>
   write_error + workspace_change \<times> write_state" where
  "apply_patch writer i newId ts finishedAt s =
     err_bind (begin_write (\<lambda>_. True) i newId ts s) (\<lambda>(done, base, s1).
     if done then Inr (base, s1)
     else let ops = ps_operations (ai_patch i);
              results = map (\<lambda>(k, op). writer k op) (enumerate 0 ops)
          in Inr (finish_write base i (derive_change_status results) results finishedAt
               (call_writer i (map (\<lambda>op. [op]) ops) s1)))"

definition apply_change_set ::
  "(patch_operation list \<Rightarrow> change_set_result) \<Rightarrow> apply_input \<Rightarrow> Id \<Rightarrow> iso \<Rightarrow> iso \<Rightarrow> write_state \<Rightarrow>
   write_error + workspace_change \<times> write_state" where
  "apply_change_set writer i newId ts finishedAt s =
     err_bind (begin_write isChangeSetRetryable i newId ts s) (\<lambda>(done, base, s1).
     if done then Inr (base, s1)
     else let ops = ps_operations (ai_patch i); r = writer ops
          in Inr (finish_write base i (deriveChangeSetStatus ops r) (sr_results r) finishedAt (call_writer i [ops] s1)))"

section \<open>The history of a workspace\<close>

definition no_writes :: write_state where
  "no_writes = \<lparr>wt_rows = [], wt_calls = []\<rparr>"

text \<open>Whole calls, and calls that a crash cuts off after the mark, with a part of the calls of the writer made.\<close>

inductive write_step :: "write_state \<Rightarrow> write_state \<Rightarrow> bool" where
  patch: "newId \<notin> wx_id ` set (wt_rows s) \<Longrightarrow> apply_patch writer i newId ts finishedAt s = Inr (c, s') \<Longrightarrow> write_step s s'"
| change_set: "newId \<notin> wx_id ` set (wt_rows s) \<Longrightarrow> apply_change_set cs i newId ts finishedAt s = Inr (c, s') \<Longrightarrow> write_step s s'"
| patch_cut: "newId \<notin> wx_id ` set (wt_rows s) \<Longrightarrow> begin_write (\<lambda>_. True) i newId ts s = Inr (False, c, s1) \<Longrightarrow>
    write_step s (call_writer i (take k (map (\<lambda>op. [op]) (ps_operations (ai_patch i)))) s1)"
| change_set_cut: "newId \<notin> wx_id ` set (wt_rows s) \<Longrightarrow> begin_write isChangeSetRetryable i newId ts s = Inr (False, c, s1) \<Longrightarrow>
    write_step s (call_writer i (take k [ps_operations (ai_patch i)]) s1)"

definition write_history :: "write_state \<Rightarrow> bool" where
  "write_history s \<longleftrightarrow> write_step\<^sup>*\<^sup>* no_writes s"

section \<open>The effect of a step\<close>

lemma upsert_twice: "f a = f b \<Longrightarrow> upsert f b (upsert f a rows) = upsert f b rows"
  by (induction rows) auto

lemma save_change_twice: "wx_id a = wx_id b \<Longrightarrow> save_change b (save_change a rows) = save_change b rows"
  by (simp add: save_change_def upsert_twice)

definition approved_input :: "apply_input \<Rightarrow> bool" where
  "approved_input i \<longleftrightarrow> af_status (ai_approval i) = A_APPROVED \<and> sameExecutionPlanRef (af_plan (ai_approval i)) (ps_plan (ai_patch i))"

lemma approved_for_Inr: "approved_for a plan = Inr () \<longleftrightarrow> af_status a = A_APPROVED \<and> sameExecutionPlanRef (af_plan a) plan"
  by (auto simp: approved_for_def err_bind_Inr_iff)

text \<open>A row written for an input: a new one when its patch has none, or the open one of the same revision.\<close>

definition writes_change :: "apply_input \<Rightarrow> write_state \<Rightarrow> workspace_change \<Rightarrow> bool" where
  "writes_change i s c \<longleftrightarrow> pf_id (wx_patch c) = ps_id (ai_patch i) \<and> wx_hash c = patch_hash (ai_patch i) \<and>
     ((changes_of_patch (wt_rows s) (ps_id (ai_patch i)) = [] \<and> wx_id c \<notin> wx_id ` set (wt_rows s)) \<or>
      (\<exists>b bs. changes_of_patch (wt_rows s) (ps_id (ai_patch i)) = b # bs \<and> wx_id b = wx_id c \<and>
         wx_hash b = wx_hash c \<and> wx_status b \<noteq> WC_APPLIED))"

lemma begin_write_open:
  assumes "begin_write retryable i newId ts s = Inr (False, base, s1)" "newId \<notin> wx_id ` set (wt_rows s)"
  shows "approved_input i \<and> s1 = mark_applying base ts s \<and>
    (\<forall>c. wx_id c = wx_id base \<longrightarrow> wx_patch c = wx_patch base \<longrightarrow> wx_hash c = wx_hash base \<longrightarrow> writes_change i s c)"
proof (cases "changes_of_patch (wt_rows s) (ps_id (ai_patch i))")
  case Nil
  with assms show ?thesis
    by (auto simp: begin_write_def err_bind_Inr_iff approved_for_Inr approved_input_def writes_change_def new_change_def
        patchRef_def Let_def)
next
  case (Cons b bs)
  then have "b \<in> set (changes_of_patch (wt_rows s) (ps_id (ai_patch i)))" by simp
  then have "pf_id (wx_patch b) = ps_id (ai_patch i)" by (simp add: changes_of_patch_def)
  with assms Cons show ?thesis
    by (auto simp: begin_write_def err_bind_Inr_iff approved_for_Inr approved_input_def writes_change_def split: if_splits)
qed

lemma begin_write_done: "begin_write retryable i newId ts s = Inr (True, c, s1) \<Longrightarrow> s1 = s"
  by (auto simp: begin_write_def err_bind_Inr_iff Let_def split: list.splits if_splits)

definition write_effect :: "write_state \<Rightarrow> write_state \<Rightarrow> bool" where
  "write_effect s s' \<longleftrightarrow> s' = s \<or>
     (\<exists>i c batches. approved_input i \<and> writes_change i s c \<and> wt_rows s' = save_change c (wt_rows s) \<and>
        wt_calls s' = wt_calls s @ map (Pair i) batches)"

text \<open>A call that went on after \<open>begin\<close>, finished or cut off.\<close>

lemma effect_cut:
  assumes "begin_write retryable i newId ts s = Inr (False, base, s1)" "newId \<notin> wx_id ` set (wt_rows s)"
  shows "write_effect s (call_writer i batches s1)"
proof -
  note b = begin_write_open [OF assms]
  let ?c = "base\<lparr>wx_status := WC_APPLYING, wx_updated_at := ts\<rparr>"
  have "writes_change i s ?c" using b by simp
  then show ?thesis using b unfolding write_effect_def
    by (intro disjI2 exI [of _ i] exI [of _ ?c] exI [of _ batches]) (simp add: call_writer_def mark_applying_def)
qed

lemma effect_finished:
  assumes "begin_write retryable i newId ts s = Inr (False, base, s1)" "newId \<notin> wx_id ` set (wt_rows s)"
  shows "write_effect s (snd (finish_write base i st results ts' (call_writer i batches s1)))"
proof -
  note b = begin_write_open [OF assms]
  let ?c = "base\<lparr>wx_approval := ai_approval i, wx_workspace := ai_workspace i, wx_status := st, wx_results := results,
        wx_updated_at := ts'\<rparr>"
  have "writes_change i s ?c" using b by simp
  then show ?thesis using b unfolding write_effect_def
    by (intro disjI2 exI [of _ i] exI [of _ ?c] exI [of _ batches])
      (simp add: finish_write_def Let_def call_writer_def mark_applying_def save_change_twice)
qed

lemma write_step_effect: "write_step s s' \<Longrightarrow> write_effect s s'"
proof (induction rule: write_step.induct)
  case (patch newId s writer i ts finishedAt c s')
  then obtain d base s1 where b: "begin_write (\<lambda>_. True) i newId ts s = Inr (d, base, s1)"
    by (auto simp: apply_patch_def err_bind_Inr_iff)
  show ?case
  proof (cases d)
    case True
    with patch(2) b begin_write_done have "s' = s" by (auto simp: apply_patch_def)
    then show ?thesis by (simp add: write_effect_def)
  next
    case False
    have "\<exists>st results batches. s' = snd (finish_write base i st results finishedAt (call_writer i batches s1))"
      using patch(2) b False by (auto simp: apply_patch_def Let_def) (metis snd_conv)
    moreover have "begin_write (\<lambda>_. True) i newId ts s = Inr (False, base, s1)" using b False by simp
    ultimately show ?thesis using effect_finished patch(1) by blast
  qed
next
  case (change_set newId s cs i ts finishedAt c s')
  then obtain d base s1 where b: "begin_write isChangeSetRetryable i newId ts s = Inr (d, base, s1)"
    by (auto simp: apply_change_set_def err_bind_Inr_iff)
  show ?case
  proof (cases d)
    case True
    with change_set(2) b begin_write_done have "s' = s" by (auto simp: apply_change_set_def)
    then show ?thesis by (simp add: write_effect_def)
  next
    case False
    have "\<exists>st results batches. s' = snd (finish_write base i st results finishedAt (call_writer i batches s1))"
      using change_set(2) b False by (auto simp: apply_change_set_def Let_def) (metis snd_conv)
    moreover have "begin_write isChangeSetRetryable i newId ts s = Inr (False, base, s1)" using b False by simp
    ultimately show ?thesis using effect_finished change_set(1) by blast
  qed
qed (rule effect_cut; assumption)+

section \<open>What a history guarantees\<close>

definition call_owned :: "changes \<Rightarrow> apply_input \<times> patch_operation list \<Rightarrow> bool" where
  "call_owned rows call \<longleftrightarrow> approved_input (fst call) \<and>
     list_ex (\<lambda>c. pf_id (wx_patch c) = ps_id (ai_patch (fst call)) \<and> wx_hash c = patch_hash (ai_patch (fst call))) rows"

definition write_inv :: "write_state \<Rightarrow> bool" where
  "write_inv s \<longleftrightarrow> distinct (map wx_id (wt_rows s)) \<and> distinct (map (\<lambda>c. pf_id (wx_patch c)) (wt_rows s)) \<and>
     list_all (call_owned (wt_rows s)) (wt_calls s)"

lemma changes_of_patch_Nil: "changes_of_patch rows p = [] \<longleftrightarrow> p \<notin> (\<lambda>c. pf_id (wx_patch c)) ` set rows"
  by (auto simp: changes_of_patch_def filter_empty_conv)

lemma writes_change_rows:
  assumes "writes_change i s c" "distinct (map wx_id (wt_rows s))" "distinct (map (\<lambda>c. pf_id (wx_patch c)) (wt_rows s))"
  shows "distinct (map (\<lambda>c. pf_id (wx_patch c)) (save_change c (wt_rows s)))"
  using assms(1) unfolding writes_change_def
proof (elim conjE disjE exE)
  assume p: "pf_id (wx_patch c) = ps_id (ai_patch i)" "changes_of_patch (wt_rows s) (ps_id (ai_patch i)) = []"
    "wx_id c \<notin> wx_id ` set (wt_rows s)"
  then have "save_change c (wt_rows s) = wt_rows s @ [c]" by (simp add: save_change_def upsert_fresh)
  then show ?thesis using p assms(3) by (simp add: changes_of_patch_Nil)
next
  fix b bs
  assume p: "pf_id (wx_patch c) = ps_id (ai_patch i)" "changes_of_patch (wt_rows s) (ps_id (ai_patch i)) = b # bs" "wx_id b = wx_id c"
  have "b \<in> set (changes_of_patch (wt_rows s) (ps_id (ai_patch i)))" by (simp add: p(2))
  then have b: "b \<in> set (wt_rows s)" "pf_id (wx_patch b) = pf_id (wx_patch c)" using p(1) by (simp_all add: changes_of_patch_def)
  have "map (\<lambda>c. pf_id (wx_patch c)) (upsert wx_id c rows) = map (\<lambda>c. pf_id (wx_patch c)) rows"
    if "b \<in> set rows" "distinct (map wx_id rows)" for rows
    using that b(2) p(3)
  proof (induction rows)
    case (Cons x rows)
    then show ?case by (cases "x = b") (auto, metis image_eqI)
  qed simp
  from this [OF b(1) assms(2)] show ?thesis using assms(3) by (simp add: save_change_def)
qed

text \<open>The row that a step writes is of the patch of its input, also when it replaces one.\<close>

lemma writes_change_replaces:
  assumes "writes_change i s d" "distinct (map wx_id (wt_rows s))" "x \<in> set (wt_rows s)" "wx_id x = wx_id d"
  shows "pf_id (wx_patch x) = ps_id (ai_patch i) \<and> wx_hash x = wx_hash d"
proof -
  from assms obtain b bs where b: "changes_of_patch (wt_rows s) (ps_id (ai_patch i)) = b # bs" "wx_id b = wx_id d"
    "wx_hash b = wx_hash d" unfolding writes_change_def by (elim conjE disjE exE) (metis image_eqI, blast)
  then have "b \<in> set (changes_of_patch (wt_rows s) (ps_id (ai_patch i)))" by simp
  then have in_rows: "b \<in> set (wt_rows s)" "pf_id (wx_patch b) = ps_id (ai_patch i)" by (simp_all add: changes_of_patch_def)
  have "x = b" using select_mem [OF assms(2,3)] select_mem [OF assms(2) in_rows(1)] b(2) assms(4) by simp
  with in_rows(2) b(3) show ?thesis by simp
qed

lemma write_step_inv:
  assumes "write_step s s'" "write_inv s"
  shows "write_inv s'"
proof (cases "s' = s")
  case False
  then obtain i c batches where e: "approved_input i" "writes_change i s c" "wt_rows s' = save_change c (wt_rows s)"
    "wt_calls s' = wt_calls s @ map (Pair i) batches"
    using write_step_effect [OF assms(1)] unfolding write_effect_def by blast
  have inv: "distinct (map wx_id (wt_rows s))" "distinct (map (\<lambda>c. pf_id (wx_patch c)) (wt_rows s))"
    "list_all (call_owned (wt_rows s)) (wt_calls s)" using assms(2) by (simp_all add: write_inv_def)
  have c: "pf_id (wx_patch c) = ps_id (ai_patch i)" "wx_hash c = patch_hash (ai_patch i)"
    using e(2) by (simp_all add: writes_change_def)
  have "call_owned (wt_rows s') call" if "call_owned (wt_rows s) call" for call
  proof -
    obtain r where r: "r \<in> set (wt_rows s)" "pf_id (wx_patch r) = ps_id (ai_patch (fst call))"
      "wx_hash r = patch_hash (ai_patch (fst call))" "approved_input (fst call)"
      using \<open>call_owned (wt_rows s) call\<close> by (auto simp: call_owned_def list_ex_iff)
    show ?thesis
    proof (cases "wx_id r = wx_id c")
      case False
      then have "r \<in> set (wt_rows s')" using r(1) e(3) by (simp add: save_change_def upsert_other)
      with r show ?thesis by (auto simp: call_owned_def list_ex_iff)
    next
      case True
      from writes_change_replaces [OF e(2) inv(1) r(1) True] r(2-4) c e(3) show ?thesis
        by (auto simp: call_owned_def list_ex_iff save_change_def intro!: bexI [of _ c])
    qed
  qed
  moreover have "call_owned (wt_rows s') (i, ops)" for ops
    using e(1,3) c by (auto simp: call_owned_def list_ex_iff save_change_def intro!: bexI [of _ c])
  ultimately show ?thesis
    using inv writes_change_rows [OF e(2) inv(1,2)] e(3,4) upsert_distinct [of wx_id "wt_rows s" c]
    by (auto simp: write_inv_def list_all_iff save_change_def)
qed (use assms in simp)

lemma write_history_inv: "write_history s \<Longrightarrow> write_inv s"
  unfolding write_history_def
proof (induction rule: rtranclp_induct)
  case base
  show ?case by (simp add: write_inv_def no_writes_def)
next
  case (step s s')
  then show ?case using write_step_inv by blast
qed

definition calls_for :: "Id \<Rightarrow> write_state \<Rightarrow> (apply_input \<times> patch_operation list) list" where
  "calls_for p s = filter (\<lambda>call. ps_id (ai_patch (fst call)) = p) (wt_calls s)"

lemma filter_upsert_other:
  assumes "\<not> P d" "\<And>x. x \<in> set rows \<Longrightarrow> f x = f d \<Longrightarrow> \<not> P x"
  shows "filter P (upsert f d rows) = filter P rows"
  using assms by (induction rows) auto

text \<open>A step leaves the applied change of a patch, and the calls made for it, as they are.\<close>

lemma write_step_keeps_applied:
  assumes "write_step s s'" "write_inv s" "changes_of_patch (wt_rows s) p = [c]" "wx_status c = WC_APPLIED"
  shows "changes_of_patch (wt_rows s') p = [c] \<and> calls_for p s' = calls_for p s"
proof (cases "s' = s")
  case False
  then obtain i d batches where e: "approved_input i" "writes_change i s d" "wt_rows s' = save_change d (wt_rows s)"
    "wt_calls s' = wt_calls s @ map (Pair i) batches"
    using write_step_effect [OF assms(1)] unfolding write_effect_def by blast
  have other: "ps_id (ai_patch i) \<noteq> p"
    using e(2) assms(3,4) by (auto simp: writes_change_def)
  have inv: "distinct (map wx_id (wt_rows s))" using assms(2) by (simp add: write_inv_def)
  have "pf_id (wx_patch d) \<noteq> p" using other e(2) by (simp add: writes_change_def)
  moreover have "pf_id (wx_patch x) \<noteq> p" if "x \<in> set (wt_rows s)" "wx_id x = wx_id d" for x
    using writes_change_replaces [OF e(2) inv that] other by simp
  ultimately have "changes_of_patch (wt_rows s') p = [c]" using assms(3) e(3)
    by (simp add: changes_of_patch_def save_change_def filter_upsert_other)
  moreover have "filter (\<lambda>call. ps_id (ai_patch (fst call)) = p) (map (Pair i) batches) = []"
    using other by (simp add: filter_empty_conv)
  ultimately show ?thesis using e(4) by (simp add: calls_for_def)
qed (use assms(3) in simp)



section \<open>An example\<close>

definition sample_apply :: apply_input where
  "sample_apply = \<lparr>ai_patch = \<lparr>ps_id = ''ps'', ps_plan = sample_plan_ref,
       ps_approval = \<lparr>af_id = ''a'', af_status = A_APPROVED, af_plan = sample_plan_ref\<rparr>,
       ps_operations = [\<lparr>po_path = js ''f'', po_kind = PK_ADD, po_diff = js ''+x'', po_binary = False\<rparr>],
       ps_status = PATCH_GENERATED, ps_created_at = Canon 0\<rparr>,
     ai_approval = \<lparr>af_id = ''a'', af_status = A_APPROVED, af_plan = sample_plan_ref\<rparr>,
     ai_workspace = rc_workspace (sample_run [])\<rparr>"

definition sample_writer :: "nat \<Rightarrow> patch_operation \<Rightarrow> file_result" where
  "sample_writer k op = \<lparr>fr_path = po_path op, fr_kind = po_kind op, fr_status = FS_APPLIED, fr_message = [], fr_duration = 0\<rparr>"

lemma sample_applied:
  "\<exists>c s. apply_patch sample_writer sample_apply ''1'' (Canon 0) (Canon 1) no_writes = Inr (c, s) \<and> length (wt_calls s) = 1 \<and>
     changes_of_patch (wt_rows s) ''ps'' = [c] \<and> wx_status c = WC_APPLIED"
  by (simp add: apply_patch_def begin_write_def approved_for_def sameExecutionPlanRef_def sample_apply_def sample_plan_ref_def
      no_writes_def changes_of_patch_def mark_applying_def save_change_def new_change_def patchRef_def finish_write_def
      call_writer_def derive_change_status_def sample_writer_def Let_def)

lemma sample_history:
  "\<exists>c s. write_history s \<and> length (wt_calls s) = 1 \<and> changes_of_patch (wt_rows s) ''ps'' = [c] \<and> wx_status c = WC_APPLIED"
proof -
  obtain c s where s: "apply_patch sample_writer sample_apply ''1'' (Canon 0) (Canon 1) no_writes = Inr (c, s)"
    "length (wt_calls s) = 1" "changes_of_patch (wt_rows s) ''ps'' = [c]" "wx_status c = WC_APPLIED"
    using sample_applied by blast
  have "write_step no_writes s" using write_step.patch [OF _ s(1)] by (simp add: no_writes_def)
  with s(2-4) show ?thesis unfolding write_history_def by blast
qed



end
