(* ===== verification/Traced_Calls.thy ===== *)
theory Traced_Calls
  imports Prelude
begin

text \<open>
  Operations that call an outside service: the calls made, in order, with an error or a value. A \<open>throw\<close> ends the
  operation and keeps the calls made so far.
\<close>

type_synonym ('c, 'e, 'a) traced = "'c list \<times> ('e + 'a)"

definition tr_lift :: "'e + 'a \<Rightarrow> ('c, 'e, 'a) traced" where
  "tr_lift r = ([], r)"

definition tr_ask :: "'c \<Rightarrow> 'e + 'a \<Rightarrow> ('c, 'e, 'a) traced" where
  "tr_ask c r = ([c], r)"

definition tr_bind :: "('c, 'e, 'a) traced \<Rightarrow> ('a \<Rightarrow> ('c, 'e, 'b) traced) \<Rightarrow> ('c, 'e, 'b) traced" where
  "tr_bind m f = (case m of (cs, Inl e) \<Rightarrow> (cs, Inl e) | (cs, Inr x) \<Rightarrow> (case f x of (ds, r) \<Rightarrow> (cs @ ds, r)))"

definition tr_check :: "'e \<Rightarrow> bool \<Rightarrow> ('c, 'e, unit) traced" where
  "tr_check e b = tr_lift (guard_err e b)"

text \<open>\<open>try \<dots> catch\<close>, which always throws again.\<close>

definition tr_rescue :: "('e \<Rightarrow> 'e) \<Rightarrow> ('c, 'e, 'a) traced \<Rightarrow> ('c, 'e, 'a) traced" where
  "tr_rescue h m = (case m of (cs, Inl e) \<Rightarrow> (cs, Inl (h e)) | (cs, Inr x) \<Rightarrow> (cs, Inr x))"

text \<open>The operation without its value.\<close>

definition forget :: "('c, 'e, 'a) traced \<Rightarrow> ('c, 'e, unit) traced" where
  "forget m = tr_bind m (\<lambda>_. tr_lift (Inr ()))"

definition calls_where :: "('c \<Rightarrow> bool) \<Rightarrow> ('c, 'e, 'a) traced \<Rightarrow> 'c list" where
  "calls_where p m = filter p (fst m)"

definition failure_of :: "'e + 'a \<Rightarrow> 'e option" where
  "failure_of r = (case r of Inl e \<Rightarrow> Some e | Inr _ \<Rightarrow> None)"

lemma traced_snd [simp]:
  "snd (tr_lift r) = r" "snd (tr_ask c r) = r"
  "snd (tr_bind m f) = (case snd m of Inl e \<Rightarrow> Inl e | Inr x \<Rightarrow> snd (f x))"
  "snd (tr_rescue h m) = (case snd m of Inl e \<Rightarrow> Inl (h e) | Inr x \<Rightarrow> Inr x)"
  by (auto simp: tr_lift_def tr_ask_def tr_bind_def tr_rescue_def split: prod.splits sum.splits)

lemma traced_calls [simp]:
  "calls_where p (tr_lift r) = []" "calls_where p (tr_ask c r) = (if p c then [c] else [])"
  "calls_where p (tr_bind m f) = calls_where p m @ (case snd m of Inl e \<Rightarrow> [] | Inr x \<Rightarrow> calls_where p (f x))"
  "calls_where p (tr_rescue h m) = calls_where p m"
  by (auto simp: calls_where_def tr_lift_def tr_ask_def tr_bind_def tr_rescue_def split: prod.splits sum.splits)

lemma traced_check [simp]: "snd (tr_check e b) = guard_err e b" "calls_where p (tr_check e b) = []"
  by (simp_all add: tr_check_def)

lemma traced_forget [simp]:
  "calls_where p (forget m) = calls_where p m" "snd (forget m) = Inl e \<longleftrightarrow> snd m = Inl e"
  by (simp_all add: forget_def split: sum.split)

lemma failure_of_simps [simp]: "failure_of (Inl e) = Some e" "failure_of (Inr x) = None"
  by (simp_all add: failure_of_def)

lemma failure_of_Some [simp]: "failure_of r = Some e \<longleftrightarrow> r = Inl e"
  by (cases r) simp_all

lemma case_result_Inr: "(case r of Inl e \<Rightarrow> Inl e | Inr x \<Rightarrow> f x) = Inr y \<longleftrightarrow> (\<exists>x. r = Inr x \<and> f x = Inr y)"
  by (cases r) auto

lemma rescued_Inr: "(case r of Inl e \<Rightarrow> Inl (h e) | Inr x \<Rightarrow> Inr x) = Inr y \<longleftrightarrow> r = Inr y"
  by (cases r) auto

lemmas result_Inr = case_result_Inr rescued_Inr guard_err_Inr_iff err_bind_Inr_iff

end
