(* ===== verification/Git_Manager.thy ===== *)
theory Git_Manager
  imports Command_Execution Traced_Calls Text_Tests
begin

text \<open>
  The git capability: \<open>git-manager.ts\<close>, \<open>push-target.ts\<close>, \<open>commit-message.ts\<close> and
  \<open>code-work/branch-name-policy.ts\<close> (under \<open>packages/core/src/application\<close>) over the port
  \<open>git-provider.port.ts\<close>.

  \<^item> The provider is a parameter: a record of the answers it gives in one call of the manager. No method asks it the
    same question twice, so that a function of the arguments loses nothing of a repository that changes meanwhile.
  \<^item> A method gives the calls it made, in order, and an error or a value.
  \<^item> A control character is a single unit, and the only letter outside ASCII with an ASCII lower case, the Kelvin sign,
    occurs in no name that is compared, so that strings are read unit by unit and lower case is that of ASCII.
\<close>

section \<open>Names\<close>

definition MAX_REMOTE_LEN :: nat where "MAX_REMOTE_LEN = 100"
definition MAX_BRANCH_LEN :: nat where "MAX_BRANCH_LEN = 200"
definition MAX_COMMIT_MESSAGE_CHARS :: nat where "MAX_COMMIT_MESSAGE_CHARS = 120"
definition MAX_OWNER_BRANCH_NAME_LENGTH :: nat where "MAX_OWNER_BRANCH_NAME_LENGTH = 100"

definition hasControlChar :: "js_string \<Rightarrow> bool" where
  "hasControlChar s \<longleftrightarrow> list_ex (\<lambda>u. u < 0x20 \<or> u = 0x7F) s"

definition isSafePushRemote :: "js_string \<Rightarrow> bool" where
  "isSafePushRemote s \<longleftrightarrow>
     \<not> (length s = 0 \<or> length s > MAX_REMOTE_LEN) \<and> \<not> begins ''-'' s \<and>
     \<not> list_ex (\<lambda>u. js_whitespace u \<or> one_of ''/:'' u) s \<and> \<not> hasControlChar s"

definition isSafePushBranch :: "js_string \<Rightarrow> bool" where
  "isSafePushBranch s \<longleftrightarrow>
     \<not> (length s = 0 \<or> length s > MAX_BRANCH_LEN) \<and> \<not> (begins ''-'' s \<or> begins ''/'' s) \<and>
     \<not> (finishes ''/'' s \<or> finishes ''.lock'' s) \<and> \<not> list_ex js_whitespace s \<and> \<not> hasControlChar s \<and>
     \<not> list_ex (one_of (CHR 0x5C # '':~^?*['')) s \<and> \<not> (has_part ''..'' s \<or> has_part [CHR ''@'', CHR ''{''] s \<or> has_part ''//'' s)"

definition isValidCommitMessage :: "js_string \<Rightarrow> bool" where
  "isValidCommitMessage s \<longleftrightarrow>
     (let m = js_trim s in \<not> (length m = 0 \<or> length m > MAX_COMMIT_MESSAGE_CHARS) \<and> \<not> hasControlChar m)"

definition isProtectedBranch :: "js_string \<Rightarrow> bool" where
  "isProtectedBranch s \<longleftrightarrow> map lower_unit s \<in> {js ''main'', js ''master''}"

definition owner_branch_unit :: "16 word \<Rightarrow> bool" where
  "owner_branch_unit u \<longleftrightarrow> between (CHR ''A'') (CHR ''Z'') u \<or> between (CHR ''a'') (CHR ''z'') u \<or>
     between (CHR ''0'') (CHR ''9'') u \<or> one_of ''._/-'' u"

definition isCreatableOwnerBranch :: "js_string \<Rightarrow> bool" where
  "isCreatableOwnerBranch s \<longleftrightarrow>
     \<not> (length s = 0 \<or> length s > MAX_OWNER_BRANCH_NAME_LENGTH) \<and> list_all owner_branch_unit s \<and> isSafePushBranch s \<and>
     \<not> (isProtectedBranch s \<or> map lower_unit s = js ''head'') \<and> \<not> begins ''refs/'' (map lower_unit s) \<and>
     \<not> finishes ''.'' s \<and> \<not> list_ex (begins ''.'') (split_where (one_of ''/'') s)"

text \<open>The shape of a commit hash: 7 to 40 hexadecimal digits of either case.\<close>

definition hex_unit :: "16 word \<Rightarrow> bool" where
  "hex_unit u \<longleftrightarrow> between (CHR ''0'') (CHR ''9'') u \<or> between (CHR ''a'') (CHR ''f'') u \<or> between (CHR ''A'') (CHR ''F'') u"

definition sha_shaped :: "js_string \<Rightarrow> bool" where
  "sha_shaped s \<longleftrightarrow> 7 \<le> length s \<and> length s \<le> 40 \<and> list_all hex_unit s"

text \<open>An absolute, empty or traversing path of a commit.\<close>

definition slash :: "16 word \<Rightarrow> bool" where
  "slash = one_of [CHR 0x5C, CHR ''/'']"

definition absolute_path :: "js_string \<Rightarrow> bool" where
  "absolute_path t \<longleftrightarrow> (case t of
     u # us \<Rightarrow> slash u \<or> ((between (CHR ''a'') (CHR ''z'') u \<or> between (CHR ''A'') (CHR ''Z'') u) \<and>
       (case us of c # d # _ \<Rightarrow> c = of_char (CHR '':'') \<and> slash d | _ \<Rightarrow> False))
   | [] \<Rightarrow> False)"

definition isUnsafeCommitPath :: "js_string \<Rightarrow> bool" where
  "isUnsafeCommitPath p \<longleftrightarrow>
     (let t = js_trim p in length t = 0 \<or> absolute_path t \<or> t = js ''..'' \<or> js ''..'' \<in> set (split_where slash t))"

section \<open>Failures\<close>

datatype cleanup_reason =
  TARGET_IS_MAIN | UNSAFE_NAME | CHECKED_OUT | NOT_MERGED | MAIN_MOVED | BRANCH_MOVED | UNMERGED_PATHS

text \<open>The errors by their class, with their message; the flag is the reason \<open>TARGET_CHANGED\<close>.\<close>

datatype git_error =
    Plain_error js_string
  | Sync_blocked js_string bool
  | Sync_unverified js_string
  | Cleanup_blocked js_string "cleanup_reason option"
  | Cleanup_unverified js_string
  | Push_blocked js_string bool
  | Not_safe js_string

datatype git_failure_class = GF_TIMEOUT | GF_REJECTED | GF_AUTH | GF_NETWORK | GF_NOT_FOUND | GF_OTHER

fun error_message :: "git_error \<Rightarrow> js_string" where
  "error_message (Plain_error m) = m"
| "error_message (Sync_blocked m _) = m"
| "error_message (Sync_unverified m) = m"
| "error_message (Cleanup_blocked m _) = m"
| "error_message (Cleanup_unverified m) = m"
| "error_message (Push_blocked m _) = m"
| "error_message (Not_safe m) = m"

definition any_case :: "string list \<Rightarrow> rx" where
  "any_case = rx_words fold_i"

definition rx_digit :: rx where
  "rx_digit = Chars (\<lambda>c. 48 \<le> c \<and> c \<le> 57)"

definition GIT_FAILURES :: "(rx \<times> git_failure_class) list" where
  "GIT_FAILURES =
    [(rx_seq [any_case [''timed out after ''], rx_plus rx_digit, rx_star rx_space, any_case [''ms'']], GF_TIMEOUT),
     (any_case [''non-fast-forward'', ''fetch first'', ''[rejected]'', ''tip of your current branch is behind'',
        ''updates were rejected''], GF_REJECTED),
     (rx_any [any_case [''authentication failed'', ''could not read username'', ''could not read password'', ''permission denied''],
        rx_seq [rx_b fold_i, any_case [''401'', ''403''], rx_b fold_i],
        any_case [''invalid credentials'', ''terminal prompts disabled'']], GF_AUTH),
     (rx_any [any_case [''repository not found'', ''does not appear to be a git repository''],
        rx_seq [rx_b fold_i, any_case [''404''], rx_b fold_i], any_case [''not found'']], GF_NOT_FOUND),
     (any_case [''could not resolve host'', ''unable to access'', ''failed to connect'', ''connection timed out'',
        ''connection refused'', ''connection reset'', ''network is unreachable'', ''ssl'', ''tls'', ''unexpected disconnect'',
        ''early eof''], GF_NETWORK)]"

definition classifyGitFailure :: "git_error \<Rightarrow> git_failure_class" where
  "classifyGitFailure e = (case List.find (\<lambda>(p, _). test_units p (error_message e)) GIT_FAILURES of
     Some (_, c) \<Rightarrow> c | None \<Rightarrow> GF_OTHER)"

section \<open>The port\<close>

record git_status =
  gs_clean :: bool
  gs_branch :: js_string
  gs_staged :: "js_string list"
  gs_unstaged :: "js_string list"
  gs_untracked :: "js_string list"
  gs_ahead :: "nat option"
  gs_behind :: "nat option"
  gs_upstream :: "js_string option"
  gs_detached :: "bool option"
  gs_unmerged :: "bool option"

record repository_info =
  ri_repository :: bool
  ri_root :: js_string
  ri_branch :: js_string
  ri_head :: "js_string option"
  ri_detached :: bool

record git_diff =
  gd_files :: "js_string list"
  gd_unified :: js_string
  gd_truncated :: bool

record commit_result =
  cm_hash :: js_string
  cm_files :: "js_string list"
  cm_message :: js_string

record push_result =
  pu_remote :: js_string
  pu_branch :: js_string
  pu_upstream :: js_string
  pu_hash :: js_string

datatype sync_mode = CHECKED_OUT_MAIN | REF_ONLY

record sync_result =
  sy_branch :: js_string
  sy_mode :: sync_mode
  sy_tree_updated :: bool
  sy_synced :: js_string
  sy_previous :: js_string
  sy_up_to_date :: bool

record cleanup_result =
  cl_branch :: js_string
  cl_deleted :: bool
  cl_absent :: bool
  cl_hash :: "js_string option"

record branch_result =
  br_branch :: js_string
  br_head :: js_string
  br_created :: bool

datatype hosting_kind = HOSTING_GITHUB

record repository_identity =
  rp_provider :: hosting_kind
  rp_owner :: js_string
  rp_repo :: js_string

record git_provider =
  gp_is_repository :: "js_string \<Rightarrow> git_error + bool"
  gp_info :: "js_string \<Rightarrow> git_error + repository_info"
  gp_status :: "js_string \<Rightarrow> git_error + git_status"
  gp_diff :: "js_string \<Rightarrow> git_error + git_diff"
  gp_commit :: "js_string \<Rightarrow> js_string list \<Rightarrow> js_string \<Rightarrow> js_string list option \<Rightarrow> git_error + commit_result"
  gp_create :: "js_string \<Rightarrow> js_string \<Rightarrow> js_string \<Rightarrow> git_error + branch_result"
  gp_switch :: "js_string \<Rightarrow> js_string \<Rightarrow> git_error + branch_result"
  gp_push :: "js_string \<Rightarrow> js_string \<Rightarrow> js_string \<Rightarrow> js_string \<Rightarrow> repository_identity option \<Rightarrow> git_error + push_result"
  gp_remote_ref :: "js_string \<Rightarrow> js_string \<Rightarrow> js_string \<Rightarrow> repository_identity option \<Rightarrow> git_error + js_string"
  gp_local_ref :: "js_string \<Rightarrow> js_string \<Rightarrow> git_error + js_string option"
  gp_sync :: "js_string \<Rightarrow> js_string \<Rightarrow> js_string \<Rightarrow> js_string \<Rightarrow> js_string \<Rightarrow> repository_identity option \<Rightarrow> git_error + sync_result"
  gp_is_ancestor :: "js_string \<Rightarrow> js_string \<Rightarrow> js_string \<Rightarrow> git_error + bool"
  gp_delete :: "js_string \<Rightarrow> js_string \<Rightarrow> js_string \<Rightarrow> git_error + cleanup_result"

datatype git_call =
    Is_repository js_string
  | Info js_string
  | Status js_string
  | Diff js_string
  | Commit_files js_string "js_string list" js_string "js_string list option"
  | Create_branch js_string js_string js_string
  | Switch_branch js_string js_string
  | Push_commit js_string js_string js_string js_string "repository_identity option"
  | Remote_ref js_string js_string js_string "repository_identity option"
  | Local_ref js_string js_string
  | Sync_main js_string js_string js_string js_string js_string "repository_identity option"
  | Is_ancestor js_string js_string js_string
  | Delete_branch js_string js_string js_string

fun mutating :: "git_call \<Rightarrow> bool" where
  "mutating (Commit_files _ _ _ _) \<longleftrightarrow> True"
| "mutating (Create_branch _ _ _) \<longleftrightarrow> True"
| "mutating (Switch_branch _ _) \<longleftrightarrow> True"
| "mutating (Push_commit _ _ _ _ _) \<longleftrightarrow> True"
| "mutating (Sync_main _ _ _ _ _ _) \<longleftrightarrow> True"
| "mutating (Delete_branch _ _ _) \<longleftrightarrow> True"
| "mutating _ \<longleftrightarrow> False"

type_synonym 'a git = "(git_call, git_error, 'a) traced"

section \<open>Reading\<close>

definition is_repository :: "git_provider \<Rightarrow> js_string \<Rightarrow> bool git" where
  "is_repository P dir = tr_ask (Is_repository dir) (gp_is_repository P dir)"

definition repository_information :: "git_provider \<Rightarrow> js_string \<Rightarrow> repository_info git" where
  "repository_information P dir = tr_ask (Info dir) (gp_info P dir)"

definition working_status :: "git_provider \<Rightarrow> js_string \<Rightarrow> git_status git" where
  "working_status P dir = tr_ask (Status dir) (gp_status P dir)"

definition working_diff :: "git_provider \<Rightarrow> js_string \<Rightarrow> git_diff git" where
  "working_diff P dir = tr_ask (Diff dir) (gp_diff P dir)"

definition isClean :: "git_provider \<Rightarrow> js_string \<Rightarrow> bool git" where
  "isClean P dir = tr_bind (working_status P dir) (\<lambda>st. tr_lift (Inr (gs_clean st)))"

fun count_text :: "nat \<Rightarrow> string" where
  "count_text n = (if n < 10 then [char_of (48 + n)] else count_text (n div 10) @ [char_of (48 + n mod 10)])"

declare count_text.simps [simp del]

definition requireClean :: "git_provider \<Rightarrow> js_string \<Rightarrow> unit git" where
  "requireClean P dir = tr_bind (working_status P dir) (\<lambda>st. tr_check
     (Not_safe (js ''Workspace not safe to modify: branch '' @ gs_branch st @ js '' has uncommitted changes ('' @
        js (count_text (length (gs_unstaged st))) @ js '' unstaged, '' @
        js (count_text (length (gs_untracked st))) @ js '' untracked)''))
     (gs_clean st))"

definition getLocalRefCommit :: "git_provider \<Rightarrow> js_string \<Rightarrow> js_string \<Rightarrow> js_string option git" where
  "getLocalRefCommit P dir branch =
     tr_bind (tr_check (Plain_error (js ''git rev-parse requires a rootPath'')) (js_trim dir \<noteq> [])) (\<lambda>_.
     tr_bind (tr_check (Plain_error (js ''git rev-parse rejects an unsafe branch'')) (isSafePushBranch branch)) (\<lambda>_.
     tr_ask (Local_ref dir branch) (gp_local_ref P dir branch)))"

section \<open>Commits, branches and pushes\<close>

record commit_input =
  ci_root :: js_string
  ci_files :: "js_string list"
  ci_message :: js_string
  ci_approval :: approval_ref
  ci_new :: "js_string list option"

fun approval_text :: "approval_status \<Rightarrow> string" where
  "approval_text A_PENDING = ''PENDING''"
| "approval_text A_APPROVED = ''APPROVED''"
| "approval_text A_REJECTED = ''REJECTED''"

definition approved_only :: "string \<Rightarrow> approval_ref \<Rightarrow> git_error + unit" where
  "approved_only what a = guard_err (Plain_error (js what @ js '' requires an APPROVED approval (got '' @
     js (approval_text (af_status a)) @ js '')'')) (af_status a = A_APPROVED)"

abbreviation refused_unless :: "string \<Rightarrow> bool \<Rightarrow> git_error + unit" where
  "refused_unless message \<equiv> guard_err (Plain_error (js message))"

definition commit_checks :: "commit_input \<Rightarrow> git_error + unit" where
  "commit_checks i = (let cleaned = map js_trim (ci_files i) in
     err_bind (approved_only ''git commit'' (ci_approval i)) (\<lambda>_.
     err_bind (refused_unless ''git commit requires a rootPath'' (js_trim (ci_root i) \<noteq> [])) (\<lambda>_.
     err_bind (refused_unless ''git commit requires at least one file'' (length (ci_files i) \<noteq> 0)) (\<lambda>_.
     err_bind (refused_unless ''git commit rejects an unsafe file path'' (\<not> list_ex isUnsafeCommitPath cleaned)) (\<lambda>_.
     err_bind (refused_unless ''git commit rejects duplicate files'' (distinct cleaned)) (\<lambda>_.
     refused_unless ''git commit rejects an invalid message'' (isValidCommitMessage (ci_message i))))))))"

definition new_file_checks :: "js_string list \<Rightarrow> js_string list \<Rightarrow> git_error + unit" where
  "new_file_checks cleaned new =
     err_bind (refused_unless ''git commit rejects an unsafe new file path'' (\<not> list_ex isUnsafeCommitPath new)) (\<lambda>_.
     err_bind (refused_unless ''git commit rejects duplicate new files'' (distinct new)) (\<lambda>_.
     refused_unless ''git commit rejects a new file that is not in the commit set''
       (\<not> list_ex (\<lambda>f. \<not> List.member cleaned f) new)))"

definition commitFiles :: "git_provider \<Rightarrow> commit_input \<Rightarrow> commit_result git" where
  "commitFiles P i = (let cleaned = map js_trim (ci_files i) in
     tr_bind (tr_lift (commit_checks i)) (\<lambda>_.
     case ci_new i of
       Some (f # fs) \<Rightarrow> let new = map js_trim (f # fs) in
         tr_bind (tr_lift (new_file_checks cleaned new)) (\<lambda>_.
         tr_ask (Commit_files (ci_root i) cleaned (ci_message i) (Some new))
           (gp_commit P (ci_root i) cleaned (ci_message i) (Some new)))
     | _ \<Rightarrow> tr_ask (Commit_files (ci_root i) cleaned (ci_message i) None)
         (gp_commit P (ci_root i) cleaned (ci_message i) None)))"

definition createBranch :: "git_provider \<Rightarrow> js_string \<Rightarrow> js_string \<Rightarrow> js_string \<Rightarrow> branch_result git" where
  "createBranch P dir branch expected =
     tr_bind (tr_lift (refused_unless ''git branch create requires a rootPath'' (js_trim dir \<noteq> []))) (\<lambda>_.
     tr_bind (tr_lift (refused_unless ''git branch create rejects an unsafe or protected branch name'' (isCreatableOwnerBranch branch))) (\<lambda>_.
     tr_bind (tr_lift (refused_unless ''git branch create rejects an invalid expected HEAD'' (sha_shaped expected))) (\<lambda>_.
     tr_bind (tr_ask (Create_branch dir branch expected) (gp_create P dir branch expected)) (\<lambda>r.
     tr_bind (tr_lift (refused_unless ''git branch create: the result could not be verified'' (br_branch r = branch \<and> br_created r))) (\<lambda>_.
     tr_lift (Inr r))))))"

definition switchBranch :: "git_provider \<Rightarrow> js_string \<Rightarrow> js_string \<Rightarrow> branch_result git" where
  "switchBranch P dir branch =
     tr_bind (tr_lift (refused_unless ''git branch switch requires a rootPath'' (js_trim dir \<noteq> []))) (\<lambda>_.
     tr_bind (tr_lift (refused_unless ''git branch switch rejects an unsafe or protected branch name'' (isCreatableOwnerBranch branch))) (\<lambda>_.
     tr_bind (tr_ask (Switch_branch dir branch) (gp_switch P dir branch)) (\<lambda>r.
     tr_bind (tr_lift (refused_unless ''git branch switch: the result could not be verified'' (br_branch r = branch \<and> \<not> br_created r))) (\<lambda>_.
     tr_lift (Inr r)))))"

record push_input =
  pi_root :: js_string
  pi_remote :: js_string
  pi_branch :: js_string
  pi_hash :: js_string
  pi_approval :: approval_ref
  pi_repository :: "repository_identity option"

definition push_checks :: "push_input \<Rightarrow> git_error + unit" where
  "push_checks i =
     err_bind (approved_only ''git push'' (pi_approval i)) (\<lambda>_.
     err_bind (refused_unless ''git push requires a rootPath'' (js_trim (pi_root i) \<noteq> [])) (\<lambda>_.
     err_bind (refused_unless ''git push rejects an unsafe remote'' (isSafePushRemote (pi_remote i))) (\<lambda>_.
     err_bind (refused_unless ''git push rejects an unsafe branch'' (isSafePushBranch (pi_branch i))) (\<lambda>_.
     refused_unless ''git push rejects an invalid commitHash'' (sha_shaped (pi_hash i))))))"

definition pushApprovedCommit :: "git_provider \<Rightarrow> push_input \<Rightarrow> push_result git" where
  "pushApprovedCommit P i = tr_bind (tr_lift (push_checks i)) (\<lambda>_.
     tr_ask (Push_commit (pi_root i) (pi_remote i) (pi_branch i) (pi_hash i) (pi_repository i))
       (gp_push P (pi_root i) (pi_remote i) (pi_branch i) (pi_hash i) (pi_repository i)))"

section \<open>Synchronizing the main branch\<close>

record sync_input =
  si_root :: js_string
  si_remote :: js_string
  si_branch :: js_string
  si_expected :: js_string
  si_repository :: "repository_identity option"

abbreviation sync_unless :: "string \<Rightarrow> bool \<Rightarrow> git_error + unit" where
  "sync_unless message \<equiv> guard_err (Sync_blocked (js message) False)"

definition sync_input_checks :: "sync_input \<Rightarrow> git_error + unit" where
  "sync_input_checks i =
     err_bind (sync_unless ''git main sync requires a rootPath'' (js_trim (si_root i) \<noteq> [])) (\<lambda>_.
     err_bind (sync_unless ''git main sync rejects an unsafe remote'' (isSafePushRemote (si_remote i))) (\<lambda>_.
     err_bind (sync_unless ''git main sync rejects an unsafe branch'' (isSafePushBranch (si_branch i))) (\<lambda>_.
     sync_unless ''git main sync rejects an invalid expected commit'' (sha_shaped (si_expected i)))))"

definition sync_tree_checks :: "git_status \<Rightarrow> repository_info \<Rightarrow> git_error + unit" where
  "sync_tree_checks st info =
     err_bind (sync_unless ''git main sync: working tree is not clean'' (gs_clean st)) (\<lambda>_.
     err_bind (sync_unless ''git main sync: untracked files present'' (\<not> length (gs_untracked st) > 0)) (\<lambda>_.
     err_bind (sync_unless ''git main sync: staged changes present'' (\<not> length (gs_staged st) > 0)) (\<lambda>_.
     err_bind (sync_unless ''git main sync: uncommitted changes present'' (\<not> length (gs_unstaged st) > 0)) (\<lambda>_.
     err_bind (sync_unless ''git main sync: unmerged paths present'' (gs_unmerged st \<noteq> Some True)) (\<lambda>_.
     sync_unless ''git main sync: HEAD is detached'' (\<not> (ri_detached info \<or> gs_detached st = Some True)))))))"

definition sync_state :: "git_provider \<Rightarrow> js_string \<Rightarrow> (git_status \<times> repository_info) git" where
  "sync_state P dir = tr_rescue (\<lambda>_. Sync_blocked (js ''git main sync: could not read local repository state'') False)
     (tr_bind (tr_ask (Status dir) (gp_status P dir)) (\<lambda>st.
      tr_bind (tr_ask (Info dir) (gp_info P dir)) (\<lambda>info. tr_lift (Inr (st, info)))))"

definition remote_failure :: "git_error \<Rightarrow> git_error" where
  "remote_failure e = Sync_blocked (js ''git main sync: could not observe remote main; not synchronized'')
     (case e of Sync_blocked _ changed \<Rightarrow> changed | _ \<Rightarrow> False)"

definition sync_failure :: "git_error \<Rightarrow> git_error" where
  "sync_failure e = (case e of Sync_blocked _ _ \<Rightarrow> e | Sync_unverified _ \<Rightarrow> e
     | _ \<Rightarrow> Sync_unverified (js ''git main sync: could not verify the local main synchronization''))"

text \<open>The checks before the mutation; they give the commit the update starts from.\<close>

definition sync_preflight :: "git_provider \<Rightarrow> sync_input \<Rightarrow> js_string git" where
  "sync_preflight P i =
     tr_bind (tr_lift (sync_input_checks i)) (\<lambda>_.
     tr_bind (tr_ask (Is_repository (si_root i)) (gp_is_repository P (si_root i))) (\<lambda>repo.
     tr_bind (tr_lift (sync_unless ''git main sync: not a git repository'' repo)) (\<lambda>_.
     tr_bind (sync_state P (si_root i)) (\<lambda>(st, info).
     tr_bind (tr_lift (sync_tree_checks st info)) (\<lambda>_.
     tr_bind (tr_rescue (\<lambda>_. Sync_blocked (js ''git main sync: could not read local main'') False)
       (tr_ask (Local_ref (si_root i) (si_branch i)) (gp_local_ref P (si_root i) (si_branch i)))) (\<lambda>here.
     case here of
       None \<Rightarrow> tr_lift (Inl (Sync_blocked (js ''git main sync: local main does not exist'') False))
     | Some previous \<Rightarrow>
     tr_bind (tr_rescue remote_failure (tr_ask (Remote_ref (si_root i) (si_remote i) (si_branch i) (si_repository i))
       (gp_remote_ref P (si_root i) (si_remote i) (si_branch i) (si_repository i)))) (\<lambda>tip.
     tr_bind (tr_lift (sync_unless ''git main sync: remote main does not match the expected merge commit; not synchronized''
       (tip = si_expected i))) (\<lambda>_.
     tr_lift (Inr previous)))))))))"

definition sync_update :: "git_provider \<Rightarrow> sync_input \<Rightarrow> js_string \<Rightarrow> sync_result git" where
  "sync_update P i previous =
     tr_bind (tr_rescue sync_failure
       (tr_ask (Sync_main (si_root i) (si_remote i) (si_branch i) (si_expected i) previous (si_repository i))
         (gp_sync P (si_root i) (si_remote i) (si_branch i) (si_expected i) previous (si_repository i)))) (\<lambda>r.
     tr_bind (tr_lift (guard_err (Sync_unverified (js ''git main sync: local main sync result could not be verified''))
       (sy_synced r = si_expected i))) (\<lambda>_.
     tr_lift (Inr r)))"

definition syncMain :: "git_provider \<Rightarrow> sync_input \<Rightarrow> sync_result git" where
  "syncMain P i = tr_bind (sync_preflight P i) (sync_update P i)"

section \<open>Deleting a merged branch\<close>

record cleanup_input =
  cu_root :: js_string
  cu_branch :: js_string
  cu_main :: js_string

abbreviation cleanup_unless :: "string \<Rightarrow> cleanup_reason option \<Rightarrow> bool \<Rightarrow> git_error + unit" where
  "cleanup_unless message reason \<equiv> guard_err (Cleanup_blocked (js message) reason)"

definition cleanup_input_checks :: "cleanup_input \<Rightarrow> git_error + unit" where
  "cleanup_input_checks i =
     err_bind (cleanup_unless ''git branch cleanup requires a rootPath'' None (js_trim (cu_root i) \<noteq> [])) (\<lambda>_.
     err_bind (cleanup_unless ''git branch cleanup rejects an unsafe branch'' (Some UNSAFE_NAME) (isSafePushBranch (cu_branch i))) (\<lambda>_.
     err_bind (cleanup_unless ''git branch cleanup never deletes main'' (Some TARGET_IS_MAIN) (cu_branch i \<noteq> js ''main'')) (\<lambda>_.
     cleanup_unless ''git branch cleanup rejects an invalid expected main commit'' None (sha_shaped (cu_main i)))))"

definition cleanup_state :: "git_provider \<Rightarrow> js_string \<Rightarrow> (git_status \<times> repository_info) git" where
  "cleanup_state P dir = tr_rescue (\<lambda>_. Cleanup_blocked (js ''git branch cleanup: could not read local repository state'') None)
     (tr_bind (tr_ask (Status dir) (gp_status P dir)) (\<lambda>st.
      tr_bind (tr_ask (Info dir) (gp_info P dir)) (\<lambda>info. tr_lift (Inr (st, info)))))"

definition cleanup_local_ref :: "git_provider \<Rightarrow> string \<Rightarrow> js_string \<Rightarrow> js_string \<Rightarrow> js_string option git" where
  "cleanup_local_ref P message dir branch = tr_rescue (\<lambda>_. Cleanup_blocked (js message) None)
     (tr_ask (Local_ref dir branch) (gp_local_ref P dir branch))"

definition cleanup_failure :: "git_error \<Rightarrow> git_error" where
  "cleanup_failure e = (case e of Cleanup_blocked _ _ \<Rightarrow> e | Cleanup_unverified _ \<Rightarrow> e
     | _ \<Rightarrow> Cleanup_unverified (js ''git branch cleanup: could not verify the branch deletion''))"

text \<open>The checks before the deletion; they give the commit of the branch, or nothing when it is already absent.\<close>

definition cleanup_preflight :: "git_provider \<Rightarrow> cleanup_input \<Rightarrow> js_string option git" where
  "cleanup_preflight P i =
     tr_bind (tr_lift (cleanup_input_checks i)) (\<lambda>_.
     tr_bind (tr_ask (Is_repository (cu_root i)) (gp_is_repository P (cu_root i))) (\<lambda>repo.
     tr_bind (tr_lift (cleanup_unless ''git branch cleanup: not a git repository'' None repo)) (\<lambda>_.
     tr_bind (cleanup_state P (cu_root i)) (\<lambda>(st, info).
     tr_bind (tr_lift (cleanup_unless ''git branch cleanup: unmerged paths present'' (Some UNMERGED_PATHS)
       (gs_unmerged st \<noteq> Some True))) (\<lambda>_.
     tr_bind (tr_lift (cleanup_unless ''git branch cleanup: target branch is currently checked out'' (Some CHECKED_OUT)
       (ri_branch info \<noteq> cu_branch i))) (\<lambda>_.
     tr_bind (cleanup_local_ref P ''git branch cleanup: could not read local main'' (cu_root i) (js ''main'')) (\<lambda>main.
     tr_bind (tr_lift (cleanup_unless ''git branch cleanup: local main does not exist'' None (main \<noteq> None))) (\<lambda>_.
     tr_bind (tr_lift (cleanup_unless ''git branch cleanup: local main moved since sync; not deleted'' (Some MAIN_MOVED)
       (main = Some (cu_main i)))) (\<lambda>_.
     tr_bind (cleanup_local_ref P ''git branch cleanup: could not read target branch'' (cu_root i) (cu_branch i)) (\<lambda>target.
     case target of
       None \<Rightarrow> tr_lift (Inr None)
     | Some commit \<Rightarrow>
     tr_bind (tr_rescue (\<lambda>_. Cleanup_blocked (js ''git branch cleanup: could not determine merge status; not deleted'') None)
       (tr_ask (Is_ancestor (cu_root i) commit (cu_main i)) (gp_is_ancestor P (cu_root i) commit (cu_main i)))) (\<lambda>merged.
     tr_bind (tr_lift (cleanup_unless ''git branch cleanup: target branch is not merged into main; not deleted'' (Some NOT_MERGED)
       merged)) (\<lambda>_.
     tr_lift (Inr (Some commit))))))))))))))"

definition cleanup_update :: "git_provider \<Rightarrow> cleanup_input \<Rightarrow> js_string option \<Rightarrow> cleanup_result git" where
  "cleanup_update P i target = (case target of
     None \<Rightarrow> tr_lift (Inr \<lparr>cl_branch = cu_branch i, cl_deleted = False, cl_absent = True, cl_hash = None\<rparr>)
   | Some commit \<Rightarrow>
     tr_bind (tr_rescue cleanup_failure (tr_ask (Delete_branch (cu_root i) (cu_branch i) commit)
       (gp_delete P (cu_root i) (cu_branch i) commit))) (\<lambda>r.
     tr_bind (tr_lift (guard_err (Cleanup_unverified (js ''git branch cleanup: branch deletion result could not be verified''))
       (cl_branch r = cu_branch i \<and> cl_deleted r))) (\<lambda>_.
     tr_lift (Inr r))))"

definition deleteMergedLocalBranch :: "git_provider \<Rightarrow> cleanup_input \<Rightarrow> cleanup_result git" where
  "deleteMergedLocalBranch P i = tr_bind (cleanup_preflight P i) (cleanup_update P i)"

section \<open>Requests\<close>

datatype git_request =
    GR_is_repository js_string
  | GR_info js_string
  | GR_status js_string
  | GR_diff js_string
  | GR_clean js_string
  | GR_require_clean js_string
  | GR_local_ref js_string js_string
  | GR_commit commit_input
  | GR_create js_string js_string js_string
  | GR_switch js_string js_string
  | GR_push push_input
  | GR_sync sync_input
  | GR_cleanup cleanup_input

fun git_run :: "git_provider \<Rightarrow> git_request \<Rightarrow> unit git" where
  "git_run P (GR_is_repository d) = forget (is_repository P d)"
| "git_run P (GR_info d) = forget (repository_information P d)"
| "git_run P (GR_status d) = forget (working_status P d)"
| "git_run P (GR_diff d) = forget (working_diff P d)"
| "git_run P (GR_clean d) = forget (isClean P d)"
| "git_run P (GR_require_clean d) = requireClean P d"
| "git_run P (GR_local_ref d b) = forget (getLocalRefCommit P d b)"
| "git_run P (GR_commit i) = forget (commitFiles P i)"
| "git_run P (GR_create d b h) = forget (createBranch P d b h)"
| "git_run P (GR_switch d b) = forget (switchBranch P d b)"
| "git_run P (GR_push i) = forget (pushApprovedCommit P i)"
| "git_run P (GR_sync i) = forget (syncMain P i)"
| "git_run P (GR_cleanup i) = forget (deleteMergedLocalBranch P i)"

abbreviation mutations :: "'a git \<Rightarrow> git_call list" where
  "mutations \<equiv> calls_where mutating"

text \<open>What holds of a mutating call, and of what the provider answered before it.\<close>

definition commit_gate :: "commit_input \<Rightarrow> git_call \<Rightarrow> bool" where
  "commit_gate i c \<longleftrightarrow> (case c of Commit_files d files message new \<Rightarrow>
     af_status (ci_approval i) = A_APPROVED \<and> files \<noteq> [] \<and> distinct files \<and> \<not> list_ex isUnsafeCommitPath files \<and>
     isValidCommitMessage message \<and> (case new of None \<Rightarrow> True | Some ns \<Rightarrow> set ns \<subseteq> set files)
   | _ \<Rightarrow> False)"

definition push_gate :: "push_input \<Rightarrow> git_call \<Rightarrow> bool" where
  "push_gate i c \<longleftrightarrow> (case c of Push_commit d remote branch hash repo \<Rightarrow>
     af_status (pi_approval i) = A_APPROVED \<and> isSafePushRemote remote \<and> isSafePushBranch branch \<and> sha_shaped hash \<and>
     repo = pi_repository i
   | _ \<Rightarrow> False)"

definition branch_gate :: "git_call \<Rightarrow> bool" where
  "branch_gate c \<longleftrightarrow> (case c of Create_branch d branch h \<Rightarrow> isCreatableOwnerBranch branch \<and> sha_shaped h
   | Switch_branch d branch \<Rightarrow> isCreatableOwnerBranch branch
   | _ \<Rightarrow> False)"

definition sync_gate :: "git_provider \<Rightarrow> sync_input \<Rightarrow> git_call \<Rightarrow> bool" where
  "sync_gate P i c \<longleftrightarrow> (case c of Sync_main d remote branch expected previous repo \<Rightarrow>
     isSafePushRemote remote \<and> isSafePushBranch branch \<and> expected = si_expected i \<and> sha_shaped expected \<and>
     gp_is_repository P d = Inr True \<and>
     (case gp_status P d of Inr st \<Rightarrow> gs_clean st \<and> gs_untracked st = [] \<and> gs_staged st = [] \<and> gs_unstaged st = [] | _ \<Rightarrow> False) \<and>
     (case gp_info P d of Inr info \<Rightarrow> \<not> ri_detached info | _ \<Rightarrow> False) \<and>
     gp_local_ref P d branch = Inr (Some previous) \<and> gp_remote_ref P d remote branch repo = Inr expected
   | _ \<Rightarrow> False)"

definition cleanup_gate :: "git_provider \<Rightarrow> cleanup_input \<Rightarrow> git_call \<Rightarrow> bool" where
  "cleanup_gate P i c \<longleftrightarrow> (case c of Delete_branch d branch commit \<Rightarrow>
     isSafePushBranch branch \<and> branch \<noteq> js ''main'' \<and> gp_is_repository P d = Inr True \<and>
     (case gp_info P d of Inr info \<Rightarrow> ri_branch info \<noteq> branch | _ \<Rightarrow> False) \<and>
     gp_local_ref P d (js ''main'') = Inr (Some (cu_main i)) \<and> gp_local_ref P d branch = Inr (Some commit) \<and>
     gp_is_ancestor P d commit (cu_main i) = Inr True
   | _ \<Rightarrow> False)"

fun passed_gates :: "git_provider \<Rightarrow> git_request \<Rightarrow> git_call \<Rightarrow> bool" where
  "passed_gates P (GR_commit i) = commit_gate i"
| "passed_gates P (GR_push i) = push_gate i"
| "passed_gates P (GR_create _ _ _) = branch_gate"
| "passed_gates P (GR_switch _ _) = branch_gate"
| "passed_gates P (GR_sync i) = sync_gate P i"
| "passed_gates P (GR_cleanup i) = cleanup_gate P i"
| "passed_gates P _ = (\<lambda>_. False)"

text \<open>The failure the provider answers a mutating call with.\<close>

fun answered :: "git_provider \<Rightarrow> git_call \<Rightarrow> git_error option" where
  "answered P (Commit_files d files message new) = failure_of (gp_commit P d files message new)"
| "answered P (Create_branch d branch h) = failure_of (gp_create P d branch h)"
| "answered P (Switch_branch d branch) = failure_of (gp_switch P d branch)"
| "answered P (Push_commit d remote branch h repo) = failure_of (gp_push P d remote branch h repo)"
| "answered P (Sync_main d remote branch expected previous repo) = failure_of (gp_sync P d remote branch expected previous repo)"
| "answered P (Delete_branch d branch commit) = failure_of (gp_delete P d branch commit)"
| "answered P _ = None"

fun blocked :: "git_error \<Rightarrow> bool" where
  "blocked (Sync_blocked _ _) \<longleftrightarrow> True"
| "blocked (Cleanup_blocked _ _) \<longleftrightarrow> True"
| "blocked (Push_blocked _ _) \<longleftrightarrow> True"
| "blocked _ \<longleftrightarrow> False"

section \<open>What reaches the provider\<close>

lemma sync_state_reads [simp]: "mutations (sync_state P d) = []"
  by (simp add: sync_state_def split: sum.splits)

lemma sync_preflight_reads [simp]: "mutations (sync_preflight P i) = []"
  unfolding sync_preflight_def by (simp add: case_prod_beta split: sum.split option.split)

lemma cleanup_preflight_reads [simp]: "mutations (cleanup_preflight P i) = []"
  unfolding cleanup_preflight_def cleanup_state_def cleanup_local_ref_def
  by (simp add: case_prod_beta split: sum.split option.split)

lemma sync_preflight_Inr:
  assumes "snd (sync_preflight P i) = Inr previous"
  shows "sync_gate P i (Sync_main (si_root i) (si_remote i) (si_branch i) (si_expected i) previous (si_repository i))"
  using assms unfolding sync_preflight_def sync_state_def sync_input_checks_def sync_tree_checks_def sync_gate_def
  by (auto simp: result_Inr split: option.splits)

lemma cleanup_preflight_Inr:
  assumes "snd (cleanup_preflight P i) = Inr (Some commit)"
  shows "cleanup_gate P i (Delete_branch (cu_root i) (cu_branch i) commit)"
  using assms unfolding cleanup_preflight_def cleanup_state_def cleanup_local_ref_def cleanup_input_checks_def cleanup_gate_def
  by (auto simp: result_Inr split: option.splits)

lemma sync_mutations:
  "mutations (syncMain P i) = (case snd (sync_preflight P i) of
     Inl _ \<Rightarrow> [] | Inr previous \<Rightarrow> [Sync_main (si_root i) (si_remote i) (si_branch i) (si_expected i) previous (si_repository i)])"
  by (simp add: syncMain_def sync_update_def split: sum.split)

lemma cleanup_mutations:
  "mutations (deleteMergedLocalBranch P i) = (case snd (cleanup_preflight P i) of
     Inr (Some commit) \<Rightarrow> [Delete_branch (cu_root i) (cu_branch i) commit] | _ \<Rightarrow> [])"
  by (simp add: deleteMergedLocalBranch_def cleanup_update_def split: sum.split option.split)

lemma commit_checks_Inr:
  "commit_checks i = Inr u \<longleftrightarrow> af_status (ci_approval i) = A_APPROVED \<and> js_trim (ci_root i) \<noteq> [] \<and> ci_files i \<noteq> [] \<and>
     \<not> list_ex isUnsafeCommitPath (map js_trim (ci_files i)) \<and> distinct (map js_trim (ci_files i)) \<and>
     isValidCommitMessage (ci_message i)"
  by (simp add: commit_checks_def approved_only_def Let_def result_Inr)

lemma commit_mutations:
  "list_all (commit_gate i) (mutations (commitFiles P i)) \<and> length (mutations (commitFiles P i)) \<le> 1"
proof (cases "commit_checks i")
  case (Inl e)
  then show ?thesis by (simp add: commitFiles_def Let_def)
next
  case (Inr u)
  then have c: "af_status (ci_approval i) = A_APPROVED" "ci_files i \<noteq> []"
    "\<not> list_ex isUnsafeCommitPath (map js_trim (ci_files i))" "distinct (map js_trim (ci_files i))"
    "isValidCommitMessage (ci_message i)" by (simp_all add: commit_checks_Inr)
  show ?thesis
  proof (cases "ci_new i")
    case (Some ns)
    have "set new \<subseteq> set fs" if "new_file_checks fs new = Inr v" for fs new v
      using that by (auto simp: new_file_checks_def result_Inr list_ex_iff)
    from this [of "map js_trim (ci_files i)" "map js_trim ns"] show ?thesis
      using Inr c Some by (cases ns; cases "new_file_checks (map js_trim (ci_files i)) (map js_trim ns)")
        (simp_all add: commitFiles_def Let_def commit_gate_def)
  qed (use Inr c in \<open>simp add: commitFiles_def Let_def commit_gate_def\<close>)
qed

lemma push_checks_Inr:
  "push_checks i = Inr u \<longleftrightarrow> af_status (pi_approval i) = A_APPROVED \<and> js_trim (pi_root i) \<noteq> [] \<and>
     isSafePushRemote (pi_remote i) \<and> isSafePushBranch (pi_branch i) \<and> sha_shaped (pi_hash i)"
  by (simp add: push_checks_def approved_only_def result_Inr)

lemma push_mutations:
  "list_all (push_gate i) (mutations (pushApprovedCommit P i)) \<and> length (mutations (pushApprovedCommit P i)) \<le> 1"
  using push_checks_Inr [of i] by (cases "push_checks i") (simp_all add: pushApprovedCommit_def push_gate_def)

lemma branch_mutations:
  "list_all (branch_gate) (mutations (createBranch P d b h)) \<and> length (mutations (createBranch P d b h)) \<le> 1"
  "list_all (branch_gate) (mutations (switchBranch P d b)) \<and> length (mutations (switchBranch P d b)) \<le> 1"
  by (auto simp: createBranch_def switchBranch_def branch_gate_def guard_err_def split: sum.split)


lemma blocked_sync:
  assumes "snd (syncMain P i) = Inl e" "blocked e"
  shows "list_all (\<lambda>c. answered P c = Some e) (mutations (syncMain P i))"
proof (cases "snd (sync_preflight P i)")
  case (Inr previous)
  with assms show ?thesis
    by (cases "gp_sync P (si_root i) (si_remote i) (si_branch i) (si_expected i) previous (si_repository i)")
      (auto simp: sync_mutations syncMain_def sync_update_def guard_err_def sync_failure_def split: if_splits git_error.splits)
qed (simp add: sync_mutations)

lemma blocked_cleanup:
  assumes "snd (deleteMergedLocalBranch P i) = Inl e" "blocked e"
  shows "list_all (\<lambda>c. answered P c = Some e) (mutations (deleteMergedLocalBranch P i))"
proof (cases "snd (cleanup_preflight P i)")
  case (Inr target)
  show ?thesis
  proof (cases target)
    case (Some commit)
    with assms Inr show ?thesis
      by (cases "gp_delete P (cu_root i) (cu_branch i) commit")
        (auto simp: cleanup_mutations deleteMergedLocalBranch_def cleanup_update_def guard_err_def cleanup_failure_def
          split: if_splits git_error.splits)
  qed (simp add: cleanup_mutations Inr)
qed (simp add: cleanup_mutations)

lemma blocked_rest:
  "snd (commitFiles P ci) = Inl e \<Longrightarrow> list_all (\<lambda>c. answered P c = Some e) (mutations (commitFiles P ci))"
  "snd (pushApprovedCommit P pu) = Inl e \<Longrightarrow> list_all (\<lambda>c. answered P c = Some e) (mutations (pushApprovedCommit P pu))"
  "snd (createBranch P d b h) = Inl e \<Longrightarrow> blocked e \<Longrightarrow> list_all (\<lambda>c. answered P c = Some e) (mutations (createBranch P d b h))"
  "snd (switchBranch P d b) = Inl e \<Longrightarrow> blocked e \<Longrightarrow> list_all (\<lambda>c. answered P c = Some e) (mutations (switchBranch P d b))"
  by (auto simp: commitFiles_def pushApprovedCommit_def createBranch_def switchBranch_def guard_err_def Let_def
      split: option.splits list.splits sum.splits if_splits)

text \<open>A Blocked report is the truth: when a method fails with a Blocked error, either it has made no mutating call, or the
  provider itself refused that call with this very error; every other failure at or after the mutation is reported as
  unverified or as a plain error.\<close>

theorem blocked_means_untouched:
  assumes "snd (git_run P req) = Inl e" "blocked e"
  shows "list_all (\<lambda>c. answered P c = Some e) (mutations (git_run P req))"
proof (cases req)
  case (GR_require_clean d)
  then show ?thesis by (simp add: requireClean_def working_status_def split: sum.split)
qed (use assms blocked_rest blocked_sync blocked_cleanup in
    \<open>simp_all add: is_repository_def repository_information_def working_status_def working_diff_def isClean_def
      getLocalRefCommit_def split: sum.split\<close>)

section \<open>An example\<close>

text \<open>A provider whose \<open>main\<close> moved between the checks and the update.\<close>

definition sample_commit :: js_string where
  "sample_commit = js ''abcdef0''"

definition sample_provider :: git_provider where
  "sample_provider =
     \<lparr>gp_is_repository = \<lambda>_. Inr True,
      gp_info = \<lambda>d. Inr \<lparr>ri_repository = True, ri_root = d, ri_branch = js ''main'', ri_head = None, ri_detached = False\<rparr>,
      gp_status = \<lambda>_. Inr \<lparr>gs_clean = True, gs_branch = js ''main'', gs_staged = [], gs_unstaged = [], gs_untracked = [],
        gs_ahead = None, gs_behind = None, gs_upstream = None, gs_detached = None, gs_unmerged = None\<rparr>,
      gp_diff = \<lambda>_. Inl (Plain_error []),
      gp_commit = \<lambda>_ _ _ _. Inl (Plain_error []), gp_create = \<lambda>_ _ _. Inl (Plain_error []),
      gp_switch = \<lambda>_ _. Inl (Plain_error []), gp_push = \<lambda>_ _ _ _ _. Inl (Plain_error []),
      gp_remote_ref = \<lambda>_ _ _ _. Inr sample_commit, gp_local_ref = \<lambda>_ _. Inr (Some []),
      gp_sync = \<lambda>_ _ _ _ _ _. Inl (Sync_blocked [] False), gp_is_ancestor = \<lambda>_ _ _. Inr False,
      gp_delete = \<lambda>_ _ _. Inl (Plain_error [])\<rparr>"

definition sample_sync :: sync_input where
  "sample_sync = \<lparr>si_root = js ''r'', si_remote = js ''origin'', si_branch = js ''main'', si_expected = sample_commit,
     si_repository = None\<rparr>"

lemma sample_names:
  "isSafePushRemote (js ''origin'')" "isSafePushBranch (js ''main'')" "sha_shaped sample_commit" "js_trim (js ''r'') \<noteq> []"
  by code_simp+

lemma sample_outcome:
  "snd (git_run sample_provider (GR_sync sample_sync)) = Inl (Sync_blocked [] False)"
  "length (mutations (git_run sample_provider (GR_sync sample_sync))) = 1"
  by (simp_all add: sample_provider_def sample_sync_def syncMain_def sync_preflight_def sync_input_checks_def sync_tree_checks_def
      sync_state_def sync_update_def sync_failure_def sample_names)

lemma blocked_means_untouched_witness:
  "length (mutations (git_run sample_provider (GR_sync sample_sync))) = 1 \<and>
   list_all (\<lambda>c. answered sample_provider c = Some (Sync_blocked [] False)) (mutations (git_run sample_provider (GR_sync sample_sync)))"
  using blocked_means_untouched [OF sample_outcome(1)] sample_outcome(2) by simp

text \<open>A message with a trailing line break is accepted, and is handed to the provider as it stands.\<close>

lemma message_with_line_break: "isValidCommitMessage (js ''fix'' @ [10])"
  by code_simp

end
