(* ===== verification/Repository_Hosting.thy ===== *)
theory Repository_Hosting
  imports Git_Manager
begin

text \<open>
  The repository-hosting capability: \<open>repository-hosting-manager.ts\<close> (under \<open>packages/core/src/application\<close>) over
  \<open>domain/repository-hosting.ts\<close> and the port \<open>repository-hosting-provider.port.ts\<close>.

  \<^item> The hosting provider is a parameter, given by its answers as the git provider is.
  \<^item> Numbers of pull requests and of checks are integers below \<open>10^21\<close>, where JavaScript prints them in decimal.
  \<^item> Only the Kelvin sign has an ASCII letter as its lower case; every other character outside ASCII is left as it is,
    for it occurs in no text that is searched for.
\<close>

section \<open>Names of repositories\<close>

definition MAX_REPO_OWNER :: nat where "MAX_REPO_OWNER = 39"
definition MAX_REPO_NAME :: nat where "MAX_REPO_NAME = 100"
definition MAX_PR_TITLE :: nat where "MAX_PR_TITLE = 200"
definition MAX_PR_BODY :: nat where "MAX_PR_BODY = 8000"

fun hosting_text :: "hosting_kind \<Rightarrow> string" where
  "hosting_text HOSTING_GITHUB = ''github''"

definition isSupportedHostingProvider :: "hosting_kind \<Rightarrow> bool" where
  "isSupportedHostingProvider k \<longleftrightarrow> hosting_text k = ''github''"

definition SECRET_PREFIXES :: "string list" where
  "SECRET_PREFIXES = [''ghp_'', ''github_pat_'', ''gho_'', ''ghu_'', ''ghs_'', ''ghr_'']"

definition SECRET_SUBSTRINGS :: "string list" where
  "SECRET_SUBSTRINGS = [''token'', ''secret'', ''password'', ''pat_'']"

definition looksLikeSecret :: "js_string \<Rightarrow> bool" where
  "looksLikeSecret s \<longleftrightarrow> (let v = map (\<lambda>u. if u = 0x212A then 0x6B else lower_unit u) s in
     list_ex (\<lambda>p. begins p v) SECRET_PREFIXES \<or> list_ex (\<lambda>p. has_part p v) SECRET_SUBSTRINGS)"

definition rx_alnum :: rx where
  "rx_alnum = Chars ascii_alnum"

definition OWNER_PATTERN :: rx where
  "OWNER_PATTERN = rx_seq [At_start, rx_alnum, rx_star (rx_seq [rx_opt (rx_char (CHR ''-'')), rx_alnum]), At_end]"

definition isSafeRepoOwner :: "js_string \<Rightarrow> bool" where
  "isSafeRepoOwner s \<longleftrightarrow> length s \<le> MAX_REPO_OWNER \<and> test_units OWNER_PATTERN s \<and> \<not> looksLikeSecret s"

definition isSafeRepoName :: "js_string \<Rightarrow> bool" where
  "isSafeRepoName s \<longleftrightarrow>
     1 \<le> length s \<and> length s \<le> MAX_REPO_NAME \<and> list_all (\<lambda>u. ascii_alnum (unat u) \<or> one_of ''._-'' u) s \<and>
     \<not> (s = js ''.'' \<or> s = js ''..'') \<and> \<not> begins ''.'' s \<and> \<not> finishes ''.git'' (map lower_unit s) \<and> \<not> looksLikeSecret s"

text \<open>\<open>raw.replace(/\s+/g, ' ').trim()\<close>.\<close>

fun squeeze_white :: "js_string \<Rightarrow> js_string" where
  "squeeze_white [] = []"
| "squeeze_white (u # us) =
     (if \<not> js_whitespace u then u # squeeze_white us
      else case us of v # _ \<Rightarrow> if js_whitespace v then squeeze_white us else 0x20 # squeeze_white us | [] \<Rightarrow> [0x20])"

definition normalizePrTitle :: "js_string \<Rightarrow> js_string" where
  "normalizePrTitle s = js_trim (squeeze_white s)"

definition isSafeGitHubPullRequestUrl :: "js_string \<Rightarrow> repository_identity \<Rightarrow> int \<Rightarrow> bool" where
  "isSafeGitHubPullRequestUrl url i n \<longleftrightarrow>
     \<not> (length url = 0 \<or> length url > 300) \<and> \<not> list_ex (one_of ''@?#%'') url \<and> \<not> n \<le> 0 \<and>
     url = js ''https://github.com/'' @ rp_owner i @ js ''/'' @ rp_repo i @ js ''/pull/'' @ js (count_text (nat n))"

section \<open>Pull requests\<close>

record pull_ref =
  pr_kind :: hosting_kind
  pr_owner :: js_string
  pr_repo :: js_string
  pr_number :: int
  pr_url :: js_string

record pull_result =
  pl_ref :: pull_ref
  pl_head :: js_string
  pl_base :: js_string
  pl_hash :: js_string
  pl_reused :: bool

definition pullRequestRef :: "pull_result \<Rightarrow> pull_ref" where
  "pullRequestRef r = \<lparr>pr_kind = pr_kind (pl_ref r), pr_owner = pr_owner (pl_ref r), pr_repo = pr_repo (pl_ref r),
     pr_number = pr_number (pl_ref r), pr_url = pr_url (pl_ref r)\<rparr>"

record pull_creation =
  pc_identity :: repository_identity
  pc_head :: js_string
  pc_base :: js_string
  pc_title :: js_string
  pc_body :: js_string
  pc_hash :: js_string

datatype pull_state = PR_OPEN | PR_CLOSED | PR_MERGED | PR_UNKNOWN

datatype mergeability = MERGEABLE | MG_BLOCKED | MG_CONFLICTING | MG_UNKNOWN | MG_STALE_HEAD

datatype checks_state = CS_SUCCESS | CS_FAILURE | CS_PENDING | CS_NEUTRAL | CS_SKIPPED | CS_UNKNOWN | CS_UNAVAILABLE

datatype review_state = RS_APPROVED | RS_CHANGES_REQUESTED | RS_COMMENTED | RS_NONE | RS_UNKNOWN

record pull_checks =
  ck_state :: checks_state
  ck_total :: int
  ck_success :: int
  ck_failure :: int
  ck_pending :: int

record pull_reviews =
  rv_state :: review_state
  rv_approved :: "int option"
  rv_changes :: "int option"

record status_preview =
  sv_ref :: pull_ref
  sv_state :: pull_state
  sv_head :: js_string
  sv_base :: js_string
  sv_hash :: js_string
  sv_draft :: "bool option"
  sv_mergeability :: "mergeability option"
  sv_checks :: pull_checks
  sv_reviews :: "pull_reviews option"
  sv_observed_at :: js_string

record merge_preflight =
  mp_ref :: pull_ref
  mp_state :: pull_state
  mp_head :: js_string
  mp_base :: js_string
  mp_hash :: js_string
  mp_mergeability :: mergeability
  mp_observed_at :: js_string

record merge_result =
  mr_ref :: pull_ref
  mr_merged :: bool
  mr_head :: js_string
  mr_commit :: "js_string option"
  mr_already :: bool

record remote_cleanup =
  rb_identity :: repository_identity
  rb_branch :: js_string
  rb_deleted :: bool
  rb_absent :: bool
  rb_hash :: "js_string option"

fun state_text :: "pull_state \<Rightarrow> string" where
  "state_text PR_OPEN = ''open''"
| "state_text PR_CLOSED = ''closed''"
| "state_text PR_MERGED = ''merged''"
| "state_text PR_UNKNOWN = ''unknown''"

fun mergeability_text :: "mergeability \<Rightarrow> string" where
  "mergeability_text MERGEABLE = ''MERGEABLE''"
| "mergeability_text MG_BLOCKED = ''BLOCKED''"
| "mergeability_text MG_CONFLICTING = ''CONFLICTING''"
| "mergeability_text MG_UNKNOWN = ''UNKNOWN''"
| "mergeability_text MG_STALE_HEAD = ''STALE_HEAD''"

section \<open>The port\<close>

datatype hosting_error =
    Host_plain js_string
  | Host_blocked js_string
  | Host_unverified js_string
  | Remote_blocked js_string
  | Remote_unverified js_string

text \<open>The input of the reads of a pull request.\<close>

record pull_query =
  pq_identity :: repository_identity
  pq_ref :: pull_ref
  pq_head :: js_string
  pq_base :: js_string
  pq_hash :: js_string

record hosting_provider =
  hp_kind :: js_string
  hp_repository_exists :: "repository_identity \<Rightarrow> hosting_error + bool"
  hp_branch_exists :: "repository_identity \<Rightarrow> js_string \<Rightarrow> hosting_error + bool"
  hp_find_open :: "repository_identity \<Rightarrow> js_string \<Rightarrow> js_string \<Rightarrow> hosting_error + pull_result option"
  hp_create :: "pull_creation \<Rightarrow> hosting_error + pull_result"
  hp_status :: "pull_query \<Rightarrow> hosting_error + status_preview"
  hp_preflight :: "pull_query \<Rightarrow> hosting_error + merge_preflight"
  hp_merge :: "repository_identity \<Rightarrow> pull_ref \<Rightarrow> js_string \<Rightarrow> hosting_error + merge_result"
  hp_remote_commit :: "repository_identity \<Rightarrow> js_string \<Rightarrow> hosting_error + js_string option"
  hp_delete :: "repository_identity \<Rightarrow> js_string \<Rightarrow> js_string \<Rightarrow> hosting_error + remote_cleanup"

datatype hosting_call =
    Repository_exists repository_identity
  | Branch_exists repository_identity js_string
  | Find_open repository_identity js_string js_string
  | Create_pull pull_creation
  | Pull_status pull_query
  | Merge_preflight pull_query
  | Merge_pull repository_identity pull_ref js_string
  | Remote_commit repository_identity js_string
  | Delete_remote repository_identity js_string js_string

fun hosting_mutating :: "hosting_call \<Rightarrow> bool" where
  "hosting_mutating (Create_pull _) \<longleftrightarrow> True"
| "hosting_mutating (Merge_pull _ _ _) \<longleftrightarrow> True"
| "hosting_mutating (Delete_remote _ _ _) \<longleftrightarrow> True"
| "hosting_mutating _ \<longleftrightarrow> False"

type_synonym 'a hosting = "(hosting_call, hosting_error, 'a) traced"

section \<open>Checks\<close>

abbreviation unless :: "(js_string \<Rightarrow> hosting_error) \<Rightarrow> string \<Rightarrow> bool \<Rightarrow> hosting_error + unit" where
  "unless mk message \<equiv> guard_err (mk (js message))"

definition hosting_approved :: "(js_string \<Rightarrow> hosting_error) \<Rightarrow> string \<Rightarrow> approval_ref \<Rightarrow> hosting_error + unit" where
  "hosting_approved mk what a = guard_err (mk (js ''repository hosting: '' @ js what @ js '' requires an APPROVED approval (got '' @
     js (approval_text (af_status a)) @ js '')'')) (af_status a = A_APPROVED)"

definition identity_checks :: "(js_string \<Rightarrow> hosting_error) \<Rightarrow> js_string \<Rightarrow> repository_identity \<Rightarrow> hosting_error + unit" where
  "identity_checks mk kind i =
     err_bind (unless mk ''repository hosting: provider kind does not match identity provider'' (kind = js (hosting_text (rp_provider i)))) (\<lambda>_.
     err_bind (unless mk ''repository hosting: unsupported hosting provider'' (isSupportedHostingProvider (rp_provider i))) (\<lambda>_.
     unless mk ''repository hosting: unsafe repository identity'' (\<not> (\<not> isSafeRepoOwner (rp_owner i) \<or> \<not> isSafeRepoName (rp_repo i)))))"

definition same_repository :: "pull_ref \<Rightarrow> repository_identity \<Rightarrow> bool" where
  "same_repository r i \<longleftrightarrow> pr_kind r = rp_provider i \<and> pr_owner r = rp_owner i \<and> pr_repo r = rp_repo i"

definition ref_checks :: "(js_string \<Rightarrow> hosting_error) \<Rightarrow> repository_identity \<Rightarrow> pull_ref \<Rightarrow> js_string \<Rightarrow> js_string \<Rightarrow> hosting_error + unit" where
  "ref_checks mk i r head base =
     err_bind (unless mk ''repository hosting: pull request ref identity mismatch'' (same_repository r i)) (\<lambda>_.
     err_bind (unless mk ''repository hosting: invalid pull request number'' (0 < pr_number r \<and> pr_number r < 2 ^ 53)) (\<lambda>_.
     err_bind (unless mk ''repository hosting: invalid pull request URL'' (isSafeGitHubPullRequestUrl (pr_url r) i (pr_number r))) (\<lambda>_.
     err_bind (unless mk ''repository hosting: unsafe head branch'' (isSafePushBranch head)) (\<lambda>_.
     unless mk ''repository hosting: unsafe base branch'' (isSafePushBranch base)))))"

text \<open>The reference a provider answers with is the one asked for.\<close>

definition attributable :: "pull_ref \<Rightarrow> repository_identity \<Rightarrow> pull_ref \<Rightarrow> bool" where
  "attributable got i asked \<longleftrightarrow> same_repository got i \<and> pr_number got = pr_number asked \<and> pr_url got = pr_url asked"

section \<open>Creating a pull request\<close>

record creation_input =
  cp_identity :: repository_identity
  cp_head :: js_string
  cp_base :: js_string
  cp_title :: js_string
  cp_body :: js_string
  cp_hash :: js_string
  cp_approval :: approval_ref

definition creation_checks :: "js_string \<Rightarrow> creation_input \<Rightarrow> hosting_error + unit" where
  "creation_checks kind i = (let title = normalizePrTitle (cp_title i) in
     err_bind (hosting_approved Host_blocked ''PR creation'' (cp_approval i)) (\<lambda>_.
     err_bind (identity_checks Host_blocked kind (cp_identity i)) (\<lambda>_.
     err_bind (unless Host_blocked ''repository hosting: unsafe head branch'' (isSafePushBranch (cp_head i))) (\<lambda>_.
     err_bind (unless Host_blocked ''repository hosting: unsafe base branch'' (isSafePushBranch (cp_base i))) (\<lambda>_.
     err_bind (unless Host_blocked ''repository hosting: head and base branch must differ'' (cp_head i \<noteq> cp_base i)) (\<lambda>_.
     err_bind (unless Host_blocked ''repository hosting: PR title is empty after normalization'' (length title \<noteq> 0)) (\<lambda>_.
     err_bind (unless Host_blocked ''repository hosting: PR title exceeds bound'' (\<not> length title > MAX_PR_TITLE)) (\<lambda>_.
     err_bind (unless Host_blocked ''repository hosting: PR body exceeds bound'' (\<not> length (cp_body i) > MAX_PR_BODY)) (\<lambda>_.
     unless Host_blocked ''repository hosting: invalid expectedCommitHash'' (sha_shaped (cp_hash i)))))))))))"

definition provider_input :: "creation_input \<Rightarrow> pull_creation" where
  "provider_input i = \<lparr>pc_identity = cp_identity i, pc_head = cp_head i, pc_base = cp_base i,
     pc_title = normalizePrTitle (cp_title i), pc_body = cp_body i, pc_hash = cp_hash i\<rparr>"

definition repositoryExists :: "hosting_provider \<Rightarrow> repository_identity \<Rightarrow> bool hosting" where
  "repositoryExists P i = tr_rescue (\<lambda>_. Host_blocked (js ''repository hosting: could not verify repository existence''))
     (tr_ask (Repository_exists i) (hp_repository_exists P i))"

definition branchExists :: "hosting_provider \<Rightarrow> repository_identity \<Rightarrow> js_string \<Rightarrow> bool hosting" where
  "branchExists P i b = tr_rescue (\<lambda>_. Host_blocked (js ''repository hosting: could not verify branch existence''))
     (tr_ask (Branch_exists i b) (hp_branch_exists P i b))"

definition assertResultIntegrity :: "pull_result \<Rightarrow> creation_input \<Rightarrow> hosting_error + unit" where
  "assertResultIntegrity r i =
     err_bind (unless Host_plain ''repository hosting: result identity mismatch'' (same_repository (pl_ref r) (cp_identity i))) (\<lambda>_.
     err_bind (unless Host_plain ''repository hosting: result head branch mismatch'' (pl_head r = cp_head i)) (\<lambda>_.
     err_bind (unless Host_plain ''repository hosting: result base branch mismatch'' (pl_base r = cp_base i)) (\<lambda>_.
     err_bind (unless Host_plain ''repository hosting: result PR number invalid'' (\<not> pr_number (pl_ref r) \<le> 0)) (\<lambda>_.
     err_bind (unless Host_plain ''repository hosting: result commit hash invalid'' (sha_shaped (pl_hash r))) (\<lambda>_.
     err_bind (unless Host_plain ''repository hosting: result commit hash does not match expected'' (pl_hash r = cp_hash i)) (\<lambda>_.
     unless Host_plain ''repository hosting: result PR URL invalid''
       (isSafeGitHubPullRequestUrl (pr_url (pl_ref r)) (cp_identity i) (pr_number (pl_ref r)))))))))"

fun hosting_message :: "hosting_error \<Rightarrow> js_string" where
  "hosting_message (Host_plain m) = m"
| "hosting_message (Host_blocked m) = m"
| "hosting_message (Host_unverified m) = m"
| "hosting_message (Remote_blocked m) = m"
| "hosting_message (Remote_unverified m) = m"

text \<open>The checks before the mutation, and an open pull request that is already there.\<close>

definition creation_preflight :: "hosting_provider \<Rightarrow> creation_input \<Rightarrow> pull_result option hosting" where
  "creation_preflight P i = (let identity = cp_identity i in
     tr_bind (tr_lift (creation_checks (hp_kind P) i)) (\<lambda>_.
     tr_bind (repositoryExists P identity) (\<lambda>found.
     tr_bind (tr_lift (unless Host_blocked ''repository hosting: repository not found on hosting provider'' found)) (\<lambda>_.
     tr_bind (branchExists P identity (cp_head i)) (\<lambda>head.
     tr_bind (tr_lift (unless Host_blocked ''repository hosting: head branch not found on hosting provider'' head)) (\<lambda>_.
     tr_bind (branchExists P identity (cp_base i)) (\<lambda>base.
     tr_bind (tr_lift (unless Host_blocked ''repository hosting: base branch not found on hosting provider'' base)) (\<lambda>_.
     tr_rescue (\<lambda>_. Host_blocked (js ''repository hosting: could not determine existing pull requests; creation blocked''))
       (tr_ask (Find_open identity (cp_head i) (cp_base i)) (hp_find_open P identity (cp_head i) (cp_base i)))))))))))"

definition createPullRequest :: "hosting_provider \<Rightarrow> creation_input \<Rightarrow> pull_result hosting" where
  "createPullRequest P i = tr_bind (creation_preflight P i) (\<lambda>existing. case existing of
     Some r \<Rightarrow>
       tr_bind (tr_rescue (\<lambda>e. Host_blocked (hosting_message e)) (tr_lift (assertResultIntegrity r i))) (\<lambda>_.
       tr_lift (Inr (r\<lparr>pl_reused := True\<rparr>)))
   | None \<Rightarrow>
       tr_bind (tr_rescue (\<lambda>_. Host_unverified (js ''repository hosting: PR creation could not be completed/verified''))
         (tr_ask (Create_pull (provider_input i)) (hp_create P (provider_input i)))) (\<lambda>r.
       tr_bind (tr_rescue (\<lambda>e. Host_unverified (hosting_message e)) (tr_lift (assertResultIntegrity r i))) (\<lambda>_.
       tr_lift (Inr (r\<lparr>pl_reused := False\<rparr>)))))"

section \<open>Reading the status\<close>

definition status_checks :: "js_string \<Rightarrow> pull_query \<Rightarrow> hosting_error + unit" where
  "status_checks kind q = (let i = pq_identity q in
     err_bind (unless Host_plain ''repository hosting: provider kind mismatch'' (kind = js (hosting_text (rp_provider i)))) (\<lambda>_.
     err_bind (unless Host_plain ''repository hosting: unsupported provider'' (isSupportedHostingProvider (rp_provider i))) (\<lambda>_.
     err_bind (unless Host_plain ''repository hosting: unsafe repository identity''
       (\<not> (\<not> isSafeRepoOwner (rp_owner i) \<or> \<not> isSafeRepoName (rp_repo i)))) (\<lambda>_.
     err_bind (ref_checks Host_plain i (pq_ref q) (pq_head q) (pq_base q)) (\<lambda>_.
     unless Host_plain ''repository hosting: invalid expectedCommitHash'' (sha_shaped (pq_hash q)))))))"

definition preview_checks :: "status_preview \<Rightarrow> pull_query \<Rightarrow> hosting_error + unit" where
  "preview_checks v q = (let c = sv_checks v in
     err_bind (unless Host_plain ''repository hosting: status result ref mismatch (stale/unattributable)''
       (attributable (sv_ref v) (pq_identity q) (pq_ref q))) (\<lambda>_.
     err_bind (unless Host_plain ''repository hosting: status head mismatch (stale)'' (sv_head v = pq_head q)) (\<lambda>_.
     err_bind (unless Host_plain ''repository hosting: status base mismatch (stale)'' (sv_base v = pq_base q)) (\<lambda>_.
     err_bind (unless Host_plain ''repository hosting: status commit mismatch (stale)'' (sv_hash v = pq_hash q)) (\<lambda>_.
     err_bind (unless Host_plain ''repository hosting: invalid status check counts''
       (\<not> list_ex (\<lambda>n. n < 0) [ck_total c, ck_success c, ck_failure c, ck_pending c])) (\<lambda>_.
     unless Host_plain ''repository hosting: invalid status check counts'' (\<not> (ck_state c = CS_UNAVAILABLE \<and> ck_total c \<noteq> 0))))))))"

definition getPullRequestStatus :: "hosting_provider \<Rightarrow> pull_query \<Rightarrow> status_preview hosting" where
  "getPullRequestStatus P q =
     tr_bind (tr_lift (status_checks (hp_kind P) q)) (\<lambda>_.
     tr_bind (tr_rescue (\<lambda>_. Host_plain (js ''repository hosting: could not read pull request status''))
       (tr_ask (Pull_status q) (hp_status P q))) (\<lambda>v.
     tr_bind (tr_lift (preview_checks v q)) (\<lambda>_.
     tr_lift (Inr v))))"

section \<open>Merging\<close>

record merge_input =
  mi_identity :: repository_identity
  mi_ref :: pull_ref
  mi_head :: js_string
  mi_base :: js_string
  mi_sha :: js_string
  mi_approval :: approval_ref

definition merge_checks :: "js_string \<Rightarrow> merge_input \<Rightarrow> hosting_error + unit" where
  "merge_checks kind i =
     err_bind (hosting_approved Host_blocked ''PR merge'' (mi_approval i)) (\<lambda>_.
     err_bind (identity_checks Host_blocked kind (mi_identity i)) (\<lambda>_.
     err_bind (ref_checks Host_blocked (mi_identity i) (mi_ref i) (mi_head i) (mi_base i)) (\<lambda>_.
     err_bind (unless Host_blocked ''repository hosting: head and base branch must differ'' (mi_head i \<noteq> mi_base i)) (\<lambda>_.
     unless Host_blocked ''repository hosting: invalid expectedHeadSha'' (sha_shaped (mi_sha i))))))"

definition merge_query :: "merge_input \<Rightarrow> pull_query" where
  "merge_query i = \<lparr>pq_identity = mi_identity i, pq_ref = mi_ref i, pq_head = mi_head i, pq_base = mi_base i, pq_hash = mi_sha i\<rparr>"

definition merge_integrity :: "merge_preflight \<Rightarrow> merge_input \<Rightarrow> hosting_error + unit" where
  "merge_integrity p i =
     err_bind (unless Host_blocked ''repository hosting: merge preflight ref mismatch (stale/unattributable); merge not performed''
       (attributable (mp_ref p) (mi_identity i) (mi_ref i))) (\<lambda>_.
     err_bind (unless Host_blocked ''repository hosting: merge preflight head branch mismatch (stale); merge not performed''
       (mp_head p = mi_head i)) (\<lambda>_.
     err_bind (unless Host_blocked ''repository hosting: merge preflight base branch mismatch (stale); merge not performed''
       (mp_base p = mi_base i)) (\<lambda>_.
     unless Host_blocked ''repository hosting: merge preflight head SHA differs from approved head (stale); merge not performed''
       (mp_hash p = mi_sha i))))"

definition merge_preflight_of :: "hosting_provider \<Rightarrow> merge_input \<Rightarrow> merge_preflight hosting" where
  "merge_preflight_of P i =
     tr_bind (tr_lift (merge_checks (hp_kind P) i)) (\<lambda>_.
     tr_bind (tr_rescue (\<lambda>_. Host_blocked (js ''repository hosting: could not read live PR merge state; merge not performed''))
       (tr_ask (Merge_preflight (merge_query i)) (hp_preflight P (merge_query i)))) (\<lambda>p.
     tr_bind (tr_lift (merge_integrity p i)) (\<lambda>_.
     tr_lift (Inr p))))"

definition merged_already :: "merge_input \<Rightarrow> merge_preflight \<Rightarrow> merge_result" where
  "merged_already i p =
     \<lparr>mr_ref = \<lparr>pr_kind = rp_provider (mi_identity i), pr_owner = rp_owner (mi_identity i), pr_repo = rp_repo (mi_identity i),
        pr_number = pr_number (mi_ref i), pr_url = pr_url (mi_ref i)\<rparr>,
      mr_merged = True, mr_head = mp_hash p, mr_commit = None, mr_already = True\<rparr>"

definition merge_once :: "hosting_provider \<Rightarrow> merge_input \<Rightarrow> merge_result hosting" where
  "merge_once P i =
     tr_bind (tr_rescue (\<lambda>_. Host_unverified (js ''repository hosting: PR merge could not be completed/verified''))
       (tr_ask (Merge_pull (mi_identity i) (mi_ref i) (mi_sha i)) (hp_merge P (mi_identity i) (mi_ref i) (mi_sha i)))) (\<lambda>r.
     tr_bind (tr_lift (unless Host_unverified ''repository hosting: PR merge result could not be verified''
       (attributable (mr_ref r) (mi_identity i) (mi_ref i) \<and> mr_merged r \<and> mr_head r = mi_sha i))) (\<lambda>_.
     tr_lift (Inr (r\<lparr>mr_already := False\<rparr>))))"

definition mergePullRequest :: "hosting_provider \<Rightarrow> merge_input \<Rightarrow> merge_result hosting" where
  "mergePullRequest P i = tr_bind (merge_preflight_of P i) (\<lambda>p.
     if mp_state p = PR_MERGED then tr_lift (Inr (merged_already i p))
     else tr_bind (tr_lift (guard_err (Host_blocked (js ''repository hosting: PR is not open (state '' @ js (state_text (mp_state p)) @
         js ''); merge not performed'')) (mp_state p = PR_OPEN))) (\<lambda>_.
       tr_bind (tr_lift (guard_err (Host_blocked (js ''repository hosting: PR is not mergeable ('' @
         js (mergeability_text (mp_mergeability p)) @ js ''); merge not performed'')) (mp_mergeability p = MERGEABLE))) (\<lambda>_.
       merge_once P i)))"

section \<open>Deleting a remote branch\<close>

record deletion_input =
  di_identity :: repository_identity
  di_ref :: pull_ref
  di_head :: js_string
  di_base :: js_string
  di_branch :: js_string
  di_hash :: js_string
  di_approval :: approval_ref

definition deletion_checks :: "js_string \<Rightarrow> deletion_input \<Rightarrow> hosting_error + unit" where
  "deletion_checks kind i =
     err_bind (hosting_approved Remote_blocked ''remote branch cleanup'' (di_approval i)) (\<lambda>_.
     err_bind (identity_checks Remote_blocked kind (di_identity i)) (\<lambda>_.
     err_bind (ref_checks Remote_blocked (di_identity i) (di_ref i) (di_head i) (di_base i)) (\<lambda>_.
     err_bind (unless Remote_blocked ''repository hosting: unsafe target branch'' (isSafePushBranch (di_branch i))) (\<lambda>_.
     err_bind (unless Remote_blocked ''repository hosting: target is not the PR head branch'' (di_branch i = di_head i)) (\<lambda>_.
     err_bind (unless Remote_blocked ''repository hosting: never deletes the base/default branch''
       (\<not> (di_branch i = di_base i \<or> di_branch i = js ''main''))) (\<lambda>_.
     unless Remote_blocked ''repository hosting: invalid expectedCommitHash'' (sha_shaped (di_hash i))))))))"

definition deletion_query :: "deletion_input \<Rightarrow> pull_query" where
  "deletion_query i = \<lparr>pq_identity = di_identity i, pq_ref = di_ref i, pq_head = di_head i, pq_base = di_base i, pq_hash = di_hash i\<rparr>"

text \<open>The checks before the deletion; they give the commit of the remote branch, or nothing when it is absent.\<close>

definition deletion_preflight :: "hosting_provider \<Rightarrow> deletion_input \<Rightarrow> js_string option hosting" where
  "deletion_preflight P i =
     tr_bind (tr_lift (deletion_checks (hp_kind P) i)) (\<lambda>_.
     tr_bind (tr_rescue (\<lambda>_. Remote_blocked (js ''repository hosting: could not read live PR state; remote branch not deleted''))
       (tr_ask (Merge_preflight (deletion_query i)) (hp_preflight P (deletion_query i)))) (\<lambda>p.
     tr_bind (tr_lift (unless Remote_blocked ''repository hosting: PR state not attributable to the approved context; remote branch not deleted''
       (attributable (mp_ref p) (di_identity i) (di_ref i) \<and> mp_head p = di_head i \<and> mp_hash p = di_hash i))) (\<lambda>_.
     tr_bind (tr_lift (guard_err (Remote_blocked (js ''repository hosting: PR is not merged (state '' @ js (state_text (mp_state p)) @
       js ''); remote branch not deleted'')) (mp_state p = PR_MERGED))) (\<lambda>_.
     tr_bind (tr_rescue (\<lambda>_. Remote_blocked (js ''repository hosting: could not read remote branch; remote branch not deleted''))
       (tr_ask (Remote_commit (di_identity i) (di_branch i)) (hp_remote_commit P (di_identity i) (di_branch i)))) (\<lambda>remote.
     case remote of
       None \<Rightarrow> tr_lift (Inr None)
     | Some commit \<Rightarrow>
       tr_bind (tr_lift (unless Remote_blocked ''repository hosting: remote branch moved off the expected commit; remote branch not deleted''
         (commit = di_hash i))) (\<lambda>_.
       tr_lift (Inr (Some commit))))))))"

definition deletion_failure :: "hosting_error \<Rightarrow> hosting_error" where
  "deletion_failure e = (case e of Remote_blocked _ \<Rightarrow> e | Remote_unverified _ \<Rightarrow> e
     | _ \<Rightarrow> Remote_unverified (js ''repository hosting: remote branch deletion could not be completed/verified''))"

definition deletion_verified :: "remote_cleanup \<Rightarrow> deletion_input \<Rightarrow> bool" where
  "deletion_verified r i \<longleftrightarrow>
     (let identityOk = rb_identity r = di_identity i \<and> rb_branch r = di_branch i;
          deletedOk = rb_deleted r \<and> \<not> rb_absent r \<and> rb_hash r = Some (di_hash i);
          absentOk = \<not> rb_deleted r \<and> rb_absent r
      in \<not> (\<not> identityOk \<or> (\<not> deletedOk \<and> \<not> absentOk)))"

definition deletion_once :: "hosting_provider \<Rightarrow> deletion_input \<Rightarrow> remote_cleanup hosting" where
  "deletion_once P i =
     tr_bind (tr_rescue deletion_failure (tr_ask (Delete_remote (di_identity i) (di_branch i) (di_hash i))
       (hp_delete P (di_identity i) (di_branch i) (di_hash i)))) (\<lambda>r.
     tr_bind (tr_lift (unless Remote_unverified ''repository hosting: remote branch deletion result could not be verified''
       (deletion_verified r i))) (\<lambda>_.
     tr_lift (Inr r)))"

definition deleteRemoteBranch :: "hosting_provider \<Rightarrow> deletion_input \<Rightarrow> remote_cleanup hosting" where
  "deleteRemoteBranch P i = tr_bind (deletion_preflight P i) (\<lambda>remote. case remote of
     None \<Rightarrow> tr_lift (Inr \<lparr>rb_identity = di_identity i, rb_branch = di_branch i, rb_deleted = False, rb_absent = True, rb_hash = None\<rparr>)
   | Some _ \<Rightarrow> deletion_once P i)"

section \<open>What reaches the provider\<close>

abbreviation hosting_writes :: "'a hosting \<Rightarrow> hosting_call list" where
  "hosting_writes \<equiv> calls_where hosting_mutating"

definition creation_gate :: "hosting_provider \<Rightarrow> creation_input \<Rightarrow> bool" where
  "creation_gate P i \<longleftrightarrow>
     af_status (cp_approval i) = A_APPROVED \<and> isSafeRepoOwner (rp_owner (cp_identity i)) \<and> isSafeRepoName (rp_repo (cp_identity i)) \<and>
     isSafePushBranch (cp_head i) \<and> isSafePushBranch (cp_base i) \<and> cp_head i \<noteq> cp_base i \<and>
     normalizePrTitle (cp_title i) \<noteq> [] \<and> length (normalizePrTitle (cp_title i)) \<le> MAX_PR_TITLE \<and>
     length (cp_body i) \<le> MAX_PR_BODY \<and> sha_shaped (cp_hash i) \<and>
     hp_branch_exists P (cp_identity i) (cp_head i) = Inr True \<and> hp_branch_exists P (cp_identity i) (cp_base i) = Inr True"

definition merge_gate :: "hosting_provider \<Rightarrow> merge_input \<Rightarrow> merge_preflight \<Rightarrow> bool" where
  "merge_gate P i p \<longleftrightarrow>
     af_status (mi_approval i) = A_APPROVED \<and> mi_head i \<noteq> mi_base i \<and>
     isSafeGitHubPullRequestUrl (pr_url (mi_ref i)) (mi_identity i) (pr_number (mi_ref i)) \<and>
     hp_preflight P (merge_query i) = Inr p \<and> attributable (mp_ref p) (mi_identity i) (mi_ref i) \<and>
     mp_head p = mi_head i \<and> mp_base p = mi_base i \<and> mp_hash p = mi_sha i"

definition deletion_gate :: "hosting_provider \<Rightarrow> deletion_input \<Rightarrow> bool" where
  "deletion_gate P i \<longleftrightarrow>
     af_status (di_approval i) = A_APPROVED \<and> di_branch i = di_head i \<and> di_branch i \<noteq> di_base i \<and> di_branch i \<noteq> js ''main'' \<and>
     (case hp_preflight P (deletion_query i) of
        Inr p \<Rightarrow> attributable (mp_ref p) (di_identity i) (di_ref i) \<and> mp_head p = di_head i \<and> mp_hash p = di_hash i \<and>
          mp_state p = PR_MERGED
      | _ \<Rightarrow> False)"

lemma unless_bool: "\<not> (\<not> a \<or> \<not> b) \<longleftrightarrow> a \<and> b"
  by blast

lemma rescued_Inl: "(case r of Inl e \<Rightarrow> Inl (h e) | Inr x \<Rightarrow> Inr x) = Inl y \<longleftrightarrow> (\<exists>e. r = Inl e \<and> y = h e)"
  by (cases r) auto

lemma creation_checks_Inr:
  "creation_checks k i = Inr u \<Longrightarrow>
     af_status (cp_approval i) = A_APPROVED \<and> isSafeRepoOwner (rp_owner (cp_identity i)) \<and> isSafeRepoName (rp_repo (cp_identity i)) \<and>
     isSafePushBranch (cp_head i) \<and> isSafePushBranch (cp_base i) \<and> cp_head i \<noteq> cp_base i \<and>
     normalizePrTitle (cp_title i) \<noteq> [] \<and> length (normalizePrTitle (cp_title i)) \<le> MAX_PR_TITLE \<and>
     length (cp_body i) \<le> MAX_PR_BODY \<and> sha_shaped (cp_hash i)"
  by (simp add: creation_checks_def hosting_approved_def identity_checks_def Let_def result_Inr not_less)

lemma creation_preflight_reads [simp]: "hosting_writes (creation_preflight P i) = []"
  by (simp add: creation_preflight_def repositoryExists_def branchExists_def Let_def split: sum.split)

lemma creation_preflight_Inr:
  assumes "snd (creation_preflight P i) = Inr existing"
  shows "creation_gate P i \<and> hp_find_open P (cp_identity i) (cp_head i) (cp_base i) = Inr existing"
  using assms unfolding creation_preflight_def repositoryExists_def branchExists_def Let_def
  by (auto simp: result_Inr creation_gate_def dest!: creation_checks_Inr)

lemma result_Inl:
  "guard_err e b = Inl y \<longleftrightarrow> \<not> b \<and> y = e"
  "(case r of Inl e \<Rightarrow> Inl e | Inr x \<Rightarrow> f x) = Inl y \<longleftrightarrow> r = Inl y \<or> (\<exists>x. r = Inr x \<and> f x = Inl y)"
  by (cases b; auto simp: guard_err_def) (cases r; auto)

lemma err_bind_Inl_iff: "err_bind r f = Inl y \<longleftrightarrow> r = Inl y \<or> (\<exists>x. r = Inr x \<and> f x = Inl y)"
  by (cases r) auto

lemmas result_cases = result_Inl err_bind_Inl_iff rescued_Inl result_Inr

text \<open>The checks of a mode fail with its Blocked error only.\<close>

lemma hosting_checks_Inl:
  "hosting_approved mk what a = Inl e \<Longrightarrow> \<exists>m. e = mk m"
  "identity_checks mk k i = Inl e \<Longrightarrow> \<exists>m. e = mk m"
  "ref_checks mk i r h b = Inl e \<Longrightarrow> \<exists>m. e = mk m"
  by (auto simp: hosting_approved_def identity_checks_def ref_checks_def result_cases)

lemma mode_checks_Inl:
  "creation_checks k ci = Inl e \<Longrightarrow> \<exists>m. e = Host_blocked m"
  "merge_checks k mi = Inl e \<Longrightarrow> \<exists>m. e = Host_blocked m"
  "merge_integrity p mi = Inl e \<Longrightarrow> \<exists>m. e = Host_blocked m"
  "deletion_checks k di = Inl e \<Longrightarrow> \<exists>m. e = Remote_blocked m"
  by (auto simp: creation_checks_def merge_checks_def merge_integrity_def deletion_checks_def Let_def result_cases
      dest: hosting_checks_Inl)

lemma creation_preflight_Inl: "snd (creation_preflight P i) = Inl e \<Longrightarrow> \<exists>m. e = Host_blocked m"
  unfolding creation_preflight_def repositoryExists_def branchExists_def Let_def
  by (auto simp: result_cases dest: mode_checks_Inl)

definition integral_result :: "creation_input \<Rightarrow> pull_result \<Rightarrow> bool" where
  "integral_result i r \<longleftrightarrow> same_repository (pl_ref r) (cp_identity i) \<and> pl_head r = cp_head i \<and> pl_base r = cp_base i \<and>
     pl_hash r = cp_hash i \<and> isSafeGitHubPullRequestUrl (pr_url (pl_ref r)) (cp_identity i) (pr_number (pl_ref r))"

lemma assertResultIntegrity_Inr: "assertResultIntegrity r i = Inr u \<Longrightarrow> integral_result i r"
  by (simp add: assertResultIntegrity_def integral_result_def result_Inr)

lemma integral_reused [simp]: "integral_result i (r\<lparr>pl_reused := b\<rparr>) = integral_result i r"
  by (simp add: integral_result_def)

lemma creation_writes:
  "hosting_writes (createPullRequest P i) =
     (if snd (creation_preflight P i) = Inr None then [Create_pull (provider_input i)] else [])"
  by (simp add: createPullRequest_def split: sum.split option.split)

lemma creation_outcome:
  "case snd (createPullRequest P i) of
     Inl (Host_blocked m) \<Rightarrow> hosting_writes (createPullRequest P i) = []
   | Inl (Host_unverified m) \<Rightarrow> hosting_writes (createPullRequest P i) \<noteq> []
   | Inr r \<Rightarrow> integral_result i r \<and> (pl_reused r \<longleftrightarrow> hosting_writes (createPullRequest P i) = [])
   | _ \<Rightarrow> False"
proof (cases "snd (creation_preflight P i)")
  case (Inl e)
  with creation_preflight_Inl [OF Inl] show ?thesis by (auto simp: creation_writes createPullRequest_def)
next
  case (Inr existing)
  show ?thesis
  proof (cases existing)
    case None
    then show ?thesis using Inr
      by (cases "hp_create P (provider_input i)")
        (auto simp: creation_writes createPullRequest_def split: sum.split dest: assertResultIntegrity_Inr)
  next
    case (Some r)
    then show ?thesis using Inr
      by (auto simp: creation_writes createPullRequest_def split: sum.split dest: assertResultIntegrity_Inr)
  qed
qed

lemma merge_preflight_reads [simp]: "hosting_writes (merge_preflight_of P i) = []"
  by (simp add: merge_preflight_of_def split: sum.split)

lemma merge_preflight_Inr:
  assumes "snd (merge_preflight_of P i) = Inr p"
  shows "merge_gate P i p"
  using assms unfolding merge_preflight_of_def merge_checks_def merge_integrity_def hosting_approved_def ref_checks_def
  by (simp add: result_Inr merge_gate_def)

lemma merge_checks_ref: "snd (merge_preflight_of P i) = Inr p \<Longrightarrow> same_repository (mi_ref i) (mi_identity i)"
  unfolding merge_preflight_of_def merge_checks_def ref_checks_def by (simp add: result_Inr)

lemma merge_preflight_Inl: "snd (merge_preflight_of P i) = Inl e \<Longrightarrow> \<exists>m. e = Host_blocked m"
  unfolding merge_preflight_of_def by (auto simp: result_cases dest: mode_checks_Inl)

lemma merge_writes:
  "hosting_writes (mergePullRequest P i) = (case snd (merge_preflight_of P i) of
     Inl _ \<Rightarrow> []
   | Inr p \<Rightarrow> if mp_state p = PR_OPEN \<and> mp_mergeability p = MERGEABLE then [Merge_pull (mi_identity i) (mi_ref i) (mi_sha i)] else [])"
  by (auto simp: mergePullRequest_def merge_once_def guard_err_def split: sum.split)

lemma merge_outcome:
  "case snd (mergePullRequest P i) of
     Inl (Host_blocked m) \<Rightarrow> hosting_writes (mergePullRequest P i) = []
   | Inl (Host_unverified m) \<Rightarrow> hosting_writes (mergePullRequest P i) \<noteq> []
   | Inr r \<Rightarrow> attributable (mr_ref r) (mi_identity i) (mi_ref i) \<and> mr_merged r \<and> mr_head r = mi_sha i \<and>
       (mr_already r \<longleftrightarrow> hosting_writes (mergePullRequest P i) = [])
   | _ \<Rightarrow> False"
proof (cases "snd (merge_preflight_of P i)")
  case (Inl e)
  with merge_preflight_Inl [OF Inl] show ?thesis by (auto simp: merge_writes mergePullRequest_def)
next
  case (Inr p)
  from merge_preflight_Inr [OF Inr] have "mp_hash p = mi_sha i" "attributable (mp_ref p) (mi_identity i) (mi_ref i)"
    by (simp_all add: merge_gate_def)
  moreover from merge_checks_ref [of P i p] Inr have "same_repository (mi_ref i) (mi_identity i)" by simp
  ultimately show ?thesis using Inr
    by (cases "hp_merge P (mi_identity i) (mi_ref i) (mi_sha i)")
      (auto simp: merge_writes mergePullRequest_def merge_once_def merged_already_def attributable_def same_repository_def guard_err_def)
qed

lemma deletion_preflight_reads [simp]: "hosting_writes (deletion_preflight P i) = []"
  by (simp add: deletion_preflight_def split: sum.split option.split)

lemma deletion_preflight_Inr:
  assumes "snd (deletion_preflight P i) = Inr remote"
  shows "deletion_gate P i \<and> hp_remote_commit P (di_identity i) (di_branch i) = Inr remote \<and> (remote = None \<or> remote = Some (di_hash i))"
  using assms unfolding deletion_preflight_def deletion_checks_def hosting_approved_def
  by (auto simp: result_Inr deletion_gate_def split: option.splits)

lemma deletion_preflight_Inl: "snd (deletion_preflight P i) = Inl e \<Longrightarrow> \<exists>m. e = Remote_blocked m"
  unfolding deletion_preflight_def by (auto simp: result_cases dest: mode_checks_Inl split: option.splits)

lemma deletion_writes:
  "hosting_writes (deleteRemoteBranch P i) = (case snd (deletion_preflight P i) of
     Inr (Some _) \<Rightarrow> [Delete_remote (di_identity i) (di_branch i) (di_hash i)] | _ \<Rightarrow> [])"
  by (simp add: deleteRemoteBranch_def deletion_once_def split: sum.split option.split)

lemma deletion_outcome:
  "case snd (deleteRemoteBranch P i) of
     Inl (Remote_blocked m) \<Rightarrow> hosting_writes (deleteRemoteBranch P i) = [] \<or>
       hp_delete P (di_identity i) (di_branch i) (di_hash i) = Inl (Remote_blocked m)
   | Inl (Remote_unverified m) \<Rightarrow> hosting_writes (deleteRemoteBranch P i) \<noteq> []
   | Inr r \<Rightarrow> rb_identity r = di_identity i \<and> rb_branch r = di_branch i \<and>
       (if rb_deleted r then \<not> rb_absent r \<and> rb_hash r = Some (di_hash i) \<and> hosting_writes (deleteRemoteBranch P i) \<noteq> []
        else rb_absent r)
   | _ \<Rightarrow> False"
proof (cases "snd (deletion_preflight P i)")
  case (Inl e)
  with deletion_preflight_Inl [OF Inl] show ?thesis by (auto simp: deletion_writes deleteRemoteBranch_def)
next
  case (Inr remote)
  show ?thesis
  proof (cases remote)
    case None
    then show ?thesis using Inr by (simp add: deletion_writes deleteRemoteBranch_def)
  next
    case (Some c)
    then show ?thesis using Inr
      by (cases "hp_delete P (di_identity i) (di_branch i) (di_hash i)")
        (auto simp: deletion_writes deleteRemoteBranch_def deletion_once_def deletion_failure_def deletion_verified_def guard_err_def
          Let_def split: hosting_error.split)
  qed
qed



section \<open>An example\<close>

definition sample_repository :: repository_identity where
  "sample_repository = \<lparr>rp_provider = HOSTING_GITHUB, rp_owner = js ''me'', rp_repo = js ''app''\<rparr>"

definition sample_pull :: pull_result where
  "sample_pull = \<lparr>pl_ref = \<lparr>pr_kind = HOSTING_GITHUB, pr_owner = js ''me'', pr_repo = js ''app'', pr_number = 7,
     pr_url = js ''https://github.com/me/app/pull/7''\<rparr>, pl_head = js ''fix'', pl_base = js ''main'', pl_hash = sample_commit, pl_reused = True\<rparr>"

definition sample_creation :: creation_input where
  "sample_creation = \<lparr>cp_identity = sample_repository, cp_head = js ''fix'', cp_base = js ''main'', cp_title = js '' a  fix '',
     cp_body = [], cp_hash = sample_commit,
     cp_approval = \<lparr>af_id = ''a'', af_status = A_APPROVED, af_plan = sample_plan_ref\<rparr>\<rparr>"

definition sample_host :: hosting_provider where
  "sample_host = \<lparr>hp_kind = js ''github'', hp_repository_exists = \<lambda>_. Inr True, hp_branch_exists = \<lambda>_ _. Inr True,
     hp_find_open = \<lambda>_ _ _. Inr None, hp_create = \<lambda>_. Inr sample_pull, hp_status = \<lambda>_. Inl (Host_plain []),
     hp_preflight = \<lambda>_. Inl (Host_plain []), hp_merge = \<lambda>_ _ _. Inl (Host_plain []),
     hp_remote_commit = \<lambda>_ _. Inr None, hp_delete = \<lambda>_ _ _. Inl (Host_plain [])\<rparr>"

lemma sample_host_names:
  "isSafeRepoOwner (js ''me'')" "isSafeRepoName (js ''app'')" "isSafePushBranch (js ''fix'')" "js ''fix'' \<noteq> js ''main''"
  "normalizePrTitle (js '' a  fix '') = js ''a fix''" "js ''a fix'' \<noteq> []" "length (js ''a fix'') = 5"
  "isSafeGitHubPullRequestUrl (js ''https://github.com/me/app/pull/7'') sample_repository 7"
  by code_simp+

lemma sample_created:
  "snd (createPullRequest sample_host sample_creation) = Inr (sample_pull\<lparr>pl_reused := False\<rparr>)"
  "hosting_writes (createPullRequest sample_host sample_creation) = [Create_pull (provider_input sample_creation)]"
proof -
  have "snd (creation_preflight sample_host sample_creation) = Inr None"
    using sample_host_names sample_names
    by (simp add: creation_preflight_def repositoryExists_def branchExists_def creation_checks_def hosting_approved_def identity_checks_def
        sample_host_def sample_creation_def Let_def sample_repository_def isSupportedHostingProvider_def MAX_PR_TITLE_def)
  moreover have "assertResultIntegrity sample_pull sample_creation = Inr ()"
    using sample_host_names sample_names
    by (simp add: assertResultIntegrity_def sample_pull_def sample_creation_def same_repository_def)
      (simp add: sample_repository_def)
  ultimately show "snd (createPullRequest sample_host sample_creation) = Inr (sample_pull\<lparr>pl_reused := False\<rparr>)"
    "hosting_writes (createPullRequest sample_host sample_creation) = [Create_pull (provider_input sample_creation)]"
    by (simp_all add: createPullRequest_def sample_host_def)
qed

end
