(* ===== verification/Spec2Isabelle.thy ===== *)
theory Spec2Isabelle
  imports Reminder_Properties Connector_Writes Work_Items Egress_Policy Egress_Budget Task_Run_Safety Session_Writes Passage_Windows Agent_Budget Flow_Labels Runtime_Routing Workspace_Writes Repository_Hosting
begin

text \<open>
  Verification library of the Quoky core (TypeScript): the parts of \<open>packages/core\<close>,
  \<open>packages/storage-sqlite\<close> and \<open>apps/quoky/src/security\<close> that decide what the assistant does on its
  own, what it does at most once, what needs a human, and what it may reach on the network.

  \<^bold>\<open>The program.\<close> One process serves one owner. Inbound messages become tasks, reminders, work items and
  connector writes; every durable fact is a row of one SQLite database whose repositories run each change in one
  transaction. A scheduler delivers reminders; a governance layer asks for approval of risky plans; handoffs pass
  work between agent profiles and bind it to tasks; an egress guard decides which requests leave the process; a
  routing layer chooses the AI provider of a turn and validates its answer.

  \<^bold>\<open>How it is modelled.\<close> State is explicit: a table is the list of its rows in rowid order, an operation a
  function from a database to an error or a new database, the ways a component changes a step relation over such
  functions, its invariant a predicate proved by rule induction. Clocks, fresh identifiers, SHA-256, connectors,
  AI providers, the process runner, the writer of files, git, the hosting service, \<open>localeCompare\<close>, Unicode normal forms and tables and the IP classification of
  Node are arguments. JavaScript strings are lists of 16-bit words where their characters
  matter; \<open>Date.parse\<close> gives an optional integer (\<open>NaN\<close>), and a \<open>throw\<close> is the left of a sum.

  \<^item> \<open>Prelude\<close>: results, strings, timestamps, JSON, lists. \<open>Tables\<close>: keyed rows and the locale
    \<open>keyed_store\<close>. \<open>Domain_Model\<close>: enumerations and value types of \<open>core/src/domain\<close>.
  \<^item> \<open>Civil_Time\<close>, \<open>Iso_Text\<close>, \<open>Reminder_Schedule\<close>: calendar arithmetic, ISO texts, time zones and
    recurrence (\<open>reminders/zoned-time.ts\<close>, \<open>reminder-schedule.ts\<close>): a local time reads back, the next
    occurrence is the first, due order is time order.
  \<^item> \<open>Reminder\<close>, \<open>Reminder_Store\<close>, \<open>Reminder_Port\<close>: the reminder aggregate (\<open>domain/reminder.ts\<close>)
    and \<open>reminder-repository.ts\<close>: drafts are valid exactly when accepted, terminal reminders are final, the
    table stays well formed, claims are disjoint and earliest first.
  \<^item> \<open>Reminder_Dispatch\<close>, \<open>Reminder_Delivery\<close>, \<open>Reminder_Properties\<close>: the dispatcher
    (\<open>reminder-dispatch-service.ts\<close>) and its crash points: the batch is a sequence of steps, a firing is delivered
    at most once, recovery ends every interrupted attempt.
  \<^item> \<open>Connector_Writes\<close>: receipts and the executor of external writes (locale \<open>reservation\<close>): a write is
    sent at most once per key, settled receipts stay.
  \<^item> \<open>Governance\<close>: risk, approval policy and manager: nothing HIGH or CRITICAL is approved without a human.
  \<^item> \<open>Work_Items\<close>: the work-item aggregate, repository and manager.
  \<^item> \<open>Work_Handoffs\<close>: agent profiles and handoffs (\<open>domain/work-handoff.ts\<close>,
    \<open>work-handoff-manager.ts\<close>): recording is an atomic compare-or-insert under any interleaving.
  \<^item> \<open>Containment_Audit\<close>: containment evidence (\<open>continuation-containment-validation.ts\<close>): strict
    projection, digest binding, stability through storage.
  \<^item> \<open>Task_Runs\<close>, \<open>Task_Run_Safety\<close>: tasks, attempts and continuation bindings
    (\<open>SqliteTaskRunRepository\<close>, \<open>task-manager.ts\<close>, \<open>continuation-binding-repository.ts\<close>). Each
    operation refines the contract \<open>run_change\<close>, from which the guarantees follow: one live attempt of a bound
    task, append-only evidence, one provider dispatch, uncertainty that is never turned into an outcome.
  \<^item> \<open>Keyed_Mutex\<close>, \<open>Session_Writes\<close>: the promise-queue mutex (\<open>keyed-mutex.ts\<close>) as a transition
    system, and the two-step session writes under it (\<open>session-write-lock.ts\<close>, \<open>session-manager.ts\<close>):
    critical sections exclude each other in arrival order, a queue never stalls, and interleaved writes give what
    their atomic versions give in commit order.
  \<^item> \<open>Ip_Ranges\<close>, \<open>Egress_Budget\<close>, \<open>Egress_Policy\<close>: the deny ranges (\<open>ip-ranges.ts\<close>), the request
    budgets and breakers (\<open>egress-budget.ts\<close>) and the allowlist (\<open>egress-policy.ts\<close>): a request is cleared exactly
    when its host is configured, the path templates of the ledger reveal no segment, only public addresses pass, sliding windows are exact, a breaker never
    locks a destination out for more than an hour.
  \<^item> \<open>Text_Index\<close>, \<open>Text_Boundaries\<close>, \<open>Passages\<close>, \<open>Passage_Windows\<close>: chunking of long items
    (\<open>chunking/code-points.ts\<close>, \<open>token-estimate.ts\<close>, \<open>boundaries.ts\<close>, \<open>passages.ts\<close>,
    \<open>pack.ts\<close>, \<open>coverage.ts\<close>): the passages of an item tile it without gap or overlap and keep within the
    token cap except for a single grapheme cluster, the joined passages give the item back, windows keep within
    their budget, the binary search of the stratified selection ends and its choice fits. \<open>Intl.Segmenter\<close>,
    the Unicode property tables and the digest are arguments; token weights are exact rationals.
  \<^item> \<open>Agent_Budget\<close>: the run bounds of the agent loop (\<open>agent/run-bounds.ts\<close>): the work of a run is bounded
    and its first breach is final.
  \<^item> \<open>Flow_Labels\<close>: information-flow labels and the structure projection of the planner
    (\<open>flow-label.ts\<close>, \<open>flow-policy.ts\<close>, \<open>structure-projector.ts\<close>): the join is the least upper bound
    and a projection keeps the shape of a value and none of its leaves.
  \<^item> \<open>Command_Execution\<close>: command risk, the gates and the records of processes
    (\<open>command-execution-manager.ts\<close>, \<open>risk-policy.ts\<close>, \<open>util/hash.ts\<close>) as an interleaved transition
    system with crashes: every process has passed every gate, and a command line with \<open>rm -rf\<close> is refused.
  \<^item> \<open>Workspace_Writes\<close>: patches and their application (\<open>patch-manager.ts\<close>,
    \<open>workspace-write-manager.ts\<close>) with crashes: files are written only under an approval of the plan of the patch,
    a patch has one change and one revision, and an applied one is never written again.
  \<^item> \<open>Git_Manager\<close>: commits, branches, pushes, the sync of main and the deletion of merged branches
    (\<open>git-manager.ts\<close>, \<open>push-target.ts\<close>, \<open>commit-message.ts\<close>, \<open>branch-name-policy.ts\<close>): at most one
    mutating call of the git provider, only behind every gate, and a Blocked failure only when nothing was changed.
    \<open>Repository_Hosting\<close>: pull requests and remote branches (\<open>repository-hosting-manager.ts\<close>,
    \<open>domain/repository-hosting.ts\<close>), with the same guarantees and reports that are true. Both are written over
    \<open>Traced_Calls\<close>, operations that log their calls.
  \<^item> \<open>Regex\<close>: ECMAScript regular expressions; the matcher computes exactly a declarative relation. The command
    patterns and the response rules are written in it.
  \<^item> \<open>Provider_Registry\<close>, \<open>Routing_Policy\<close>: the descriptors of AI providers and the policy engine
    (\<open>provider-registry.ts\<close>, \<open>routing-policy-engine.ts\<close>): the matching policy of highest precedence decides,
    the available provider that ranks first is chosen, the order of the configured policies does not matter.
  \<^item> \<open>Validation_Profiles\<close>, \<open>Response_Validation\<close>: the failure matrix, the validation profiles and the
    validator of answers (\<open>runtime-response-validator.ts\<close>): accepted exactly when no rule of the profile is broken;
    an answer that repeats the prompt is rejected.
  \<^item> \<open>Provider_Plans\<close>, \<open>Provider_Gateway\<close>, \<open>Plan_Preflight\<close>, \<open>Runtime_Routing\<close>: bindings and
    plans (\<open>provider-binding-registry.ts\<close>, \<open>provider-execution-plan.ts\<close>), the bounded execution of a plan
    (\<open>provider-routing-gateway.ts\<close>, \<open>routing-execution-state.ts\<close>, \<open>deadline-policy.ts\<close>) and the service
    that joins them (\<open>runtime-provider-routing-service.ts\<close>): a created plan passes the checks of the gateway, a run
    returns after at most two providers, each called once, a second one only for a cause, only validated answers leave
    it, and only providers that answered the probe are called.

  \<^bold>\<open>Bounds.\<close> No definition needs fuel: nearly every loop of the modelled code is bounded by a list, by the
  days of a search window or by a number of retries, and the recursion is structural or has a measure; the binary
  search over passage counts is a \<open>while_option\<close>, proved to return a value. Integers stand for
  JavaScript numbers below \<open>2^53\<close>, which the code checks where they grow (attempts) and which timestamps never
  exceed.

  \<^bold>\<open>Not modelled.\<close> Natural-language routing and the text grammar of reminders, response composition, the chat
  adapters and the connectors (their calls are parameters), the connector write flow and the approval decision
  service above the modelled managers, continuation services, channel grants, the guard that applies the egress policy to
  sockets and its ledger, the git, process and file adapters, the read-only usage scan, migrations as procedures,
  configuration and the CLI. A lock wait that runs out is a refusal without a write.
\<close>

end
